(* ===== verification/Prelude.thy ===== *)
theory Prelude
  imports Main "HOL-Library.Word" "HOL-Library.Char_ord" "HOL-Library.List_Lexorder"
    "HOL-Library.AList"
begin

text \<open>
  What every theory of the development shares: the byte and result types, sequencing of
  computations that may be refused, \<open>mapE\<close> (an \<open>Array.map\<close> whose callback may throw), strictly
  ascending lists, association lists that keep insertion order as a JavaScript \<open>Map\<close> does, and
  the two interfaces most components are instances of: a canonical codec, and a checked fold.
\<close>

section \<open>Types\<close>

text \<open>
  A \<open>string\<close> stands for a JavaScript string whose code units are all below 256 (U+0000 to
  U+00FF); the texts the program builds and accepts in statements, ids, keys and digests are
  printable ASCII. Strings are compared as JavaScript compares them, code unit by code unit.
\<close>

type_synonym byte = "8 word"
type_synonym bytes = "byte list"

text \<open>
  A \<open>CryptoError\<close> (\<open>packages/crypto/src/errors.ts\<close>) carries its message. The components name
  theirs as the source names its message constants; \<open>invalid what\<close> is \<open>Invalid ${what}.\<close>.
  A typographic apostrophe in a message is written as the ASCII one, \<open>rsquo\<close>.
\<close>

datatype crypto_error = CryptoError string

definition invalid :: "string \<Rightarrow> crypto_error" where
  "invalid what = CryptoError (''Invalid '' @ what @ ''.'')"

abbreviation rsquo :: string where
  "rsquo \<equiv> [CHR 0x27]"

section \<open>Results\<close>

text \<open>\<open>bindE m f\<close>: run \<open>m\<close>; a refusal ends the computation, as a thrown error does.\<close>

definition bindE :: "'e + 'a \<Rightarrow> ('a \<Rightarrow> 'e + 'b) \<Rightarrow> 'e + 'b" where
  "bindE m f = (case m of Inl e \<Rightarrow> Inl e | Inr x \<Rightarrow> f x)"

text \<open>\<open>refuse_if b e\<close>: \<open>if (b) throw e\<close>.\<close>

definition refuse_if :: "bool \<Rightarrow> 'e \<Rightarrow> 'e + unit" where
  "refuse_if b e = (if b then Inl e else Inr ())"

fun mapE :: "('a \<Rightarrow> 'e + 'b) \<Rightarrow> 'a list \<Rightarrow> 'e + 'b list" where
  "mapE f [] = Inr []"
| "mapE f (x # xs) = bindE (f x) (\<lambda>y. bindE (mapE f xs) (\<lambda>ys. Inr (y # ys)))"

text \<open>Inversion of a computation that returned: the rules every proof about a success uses.\<close>

named_theorems returns

lemma bindE_simps [simp]: "bindE (Inl e) f = Inl e" "bindE (Inr x) f = f x"
  by (simp_all add: bindE_def)

lemma bindE_Inr [returns]: "bindE m f = Inr y \<longleftrightarrow> (\<exists>x. m = Inr x \<and> f x = Inr y)"
  by (cases m) auto

lemma bindE_Inl: "bindE m f = Inl e \<longleftrightarrow> m = Inl e \<or> (\<exists>x. m = Inr x \<and> f x = Inl e)"
  by (cases m) auto

lemma bindE_cong [fundef_cong]:
  "m = m' \<Longrightarrow> (\<And>x. m' = Inr x \<Longrightarrow> f x = f' x) \<Longrightarrow> bindE m f = bindE m' f'"
  by (cases m') auto

lemma refuse_if_Inr [returns]: "refuse_if b e = Inr u \<longleftrightarrow> \<not> b"
  by (simp add: refuse_if_def)

lemma refuse_if_simps [simp]: "refuse_if True e = Inl e" "refuse_if False e = Inr ()"
  by (simp_all add: refuse_if_def)

lemma refuse_if_Inl: "refuse_if b e = Inl e' \<longleftrightarrow> b \<and> e' = e"
  by (auto simp: refuse_if_def)

lemma if_Inl_Inr [returns]: "(if b then Inl e else m) = Inr x \<longleftrightarrow> \<not> b \<and> m = Inr x"
  by simp

lemma mapE_Inr: "mapE f xs = Inr ys \<longleftrightarrow> list_all2 (\<lambda>x y. f x = Inr y) xs ys"
proof (induction xs arbitrary: ys)
  case Nil
  then show ?case by auto
next
  case (Cons x xs)
  then show ?case by (cases ys) (auto simp: returns)
qed

lemma mapE_length: "mapE f xs = Inr ys \<Longrightarrow> length ys = length xs"
  by (auto simp: mapE_Inr dest: list_all2_lengthD)

lemma mapE_map [simp]: "(\<And>x. x \<in> set xs \<Longrightarrow> f x = Inr (g x)) \<Longrightarrow> mapE f xs = Inr (map g xs)"
  by (induction xs) auto

lemma mapE_id: "(\<And>x y. x \<in> set xs \<Longrightarrow> f x = Inr y \<Longrightarrow> y = g x) \<Longrightarrow> mapE f xs = Inr ys \<Longrightarrow> ys = map g xs"
  by (induction xs arbitrary: ys) (auto simp: returns)

section \<open>Strictly ascending lists\<close>

text \<open>\<open>values[i - 1] < values[i]\<close> for every \<open>i\<close>, as \<open>ascending\<close> of \<open>canonical.ts\<close> compares.\<close>

fun strictly :: "'a::linorder list \<Rightarrow> bool" where
  "strictly (x # y # zs) = (x < y \<and> strictly (y # zs))"
| "strictly _ = True"

lemma strictly_iff: "strictly xs \<longleftrightarrow> sorted_wrt (<) xs"
proof (induction xs rule: strictly.induct)
  case (1 x y zs)
  then show ?case by (auto intro: less_trans)
qed auto

lemma strictly_distinct: "strictly xs \<Longrightarrow> distinct xs"
  by (auto simp: strictly_iff strict_sorted_iff)

lemma strictly_sorted: "strictly xs \<Longrightarrow> sorted xs"
  by (auto simp: strictly_iff strict_sorted_iff)

lemma strictly_of_sort: "distinct xs \<Longrightarrow> strictly (sort xs)"
  by (auto simp: strictly_iff strict_sorted_iff)

section \<open>Association lists in insertion order\<close>

abbreviation get_or :: "'v \<Rightarrow> ('k \<times> 'v) list \<Rightarrow> 'k \<Rightarrow> 'v" where
  "get_or d m k \<equiv> (case map_of m k of None \<Rightarrow> d | Some v \<Rightarrow> v)"

lemma map_of_alist_update: "map_of (AList.update k v m) = (map_of m)(k \<mapsto> v)"
  by (rule update_conv')

lemma keys_alist_update: "fst ` set (AList.update k v m) = insert k (fst ` set m)"
  by (simp add: dom_update)

lemma distinct_alist_update:
  "distinct (map fst m) \<Longrightarrow> distinct (map fst (AList.update k v m))"
  by (rule distinct_update)

lemma update_absent: "k \<notin> fst ` set m \<Longrightarrow> AList.update k v m = m @ [(k, v)]"
  by (induction m) auto

section \<open>Interfaces\<close>

text \<open>
  A canonical codec: what it writes reads back, and it reads only what it writes. A value then
  has exactly one encoding, so bytes can be signed in the value's place.
\<close>

locale codec =
  fixes enc :: "'a \<Rightarrow> 'e + 'c"
    and dec :: "'c \<Rightarrow> 'e + 'a"
  assumes dec_enc: "enc x = Inr c \<Longrightarrow> dec c = Inr x"
    and enc_dec: "dec c = Inr x \<Longrightarrow> enc x = Inr c"
begin

lemma reads_iff_writes: "dec c = Inr x \<longleftrightarrow> enc x = Inr c"
  using dec_enc enc_dec by blast

lemma one_value: "enc x = Inr c \<Longrightarrow> enc y = Inr c \<Longrightarrow> x = y"
  by (drule dec_enc)+ simp

lemma one_encoding: "dec c = Inr x \<Longrightarrow> dec d = Inr x \<Longrightarrow> c = d"
  by (drule enc_dec)+ simp

end

text \<open>
  A checked fold: a state grows by items, each refused unless a check against the state passes.
  The provider shows that a checked item keeps the invariant; whoever folds a whole list of
  items (a chain of statements) has it of every state on the way.
\<close>

locale checked_fold =
  fixes check :: "'s \<Rightarrow> 'i \<Rightarrow> 'e + unit"
    and add :: "'s \<Rightarrow> 'i \<Rightarrow> 's"
    and inv :: "'s \<Rightarrow> bool"
  assumes inv_add: "inv s \<Longrightarrow> check s i = Inr () \<Longrightarrow> inv (add s i)"
begin

inductive runs :: "'s \<Rightarrow> 'i list \<Rightarrow> 's \<Rightarrow> bool" where
  stop: "runs s [] s"
| go: "check s i = Inr () \<Longrightarrow> runs (add s i) is t \<Longrightarrow> runs s (i # is) t"

lemma runs_inv: "runs s is t \<Longrightarrow> inv s \<Longrightarrow> inv t"
  by (induction rule: runs.induct) (auto intro: inv_add)

lemma runs_foldl: "runs s is t \<Longrightarrow> t = foldl add s is"
  by (induction rule: runs.induct) auto

lemma runs_snoc: "runs s is t \<Longrightarrow> check t i = Inr () \<Longrightarrow> runs s (is @ [i]) (add t i)"
  by (induction rule: runs.induct) (auto intro: runs.intros)

end

text \<open>A state machine and an invariant of its steps: the invariant holds of every state a run reaches.\<close>

locale machine =
  fixes step :: "'s \<Rightarrow> 's \<Rightarrow> bool"
    and inv :: "'s \<Rightarrow> bool"
  assumes keeps: "step s t \<Longrightarrow> inv s \<Longrightarrow> inv t"
begin

lemma reached: "step\<^sup>*\<^sup>* s t \<Longrightarrow> inv s \<Longrightarrow> inv t"
  by (induction rule: rtranclp_induct) (auto intro: keeps)

end

end
