(* ===== verification/Encoding.thy ===== *)
theory Encoding
  imports Prelude
begin

text \<open>
  \<open>packages/crypto/src/keys.ts\<close>: base64url without padding. \<open>encode\<close> is \<open>btoa\<close> with \<open>+\<close>, \<open>/\<close>
  written as \<open>-\<close>, \<open>_\<close> and the padding stripped; \<open>decode\<close> refuses anything but the one encoding
  \<open>encode\<close> gives (spare bits set, another alphabet, an impossible length, the empty string).
\<close>

section \<open>The alphabet\<close>

definition b64_char :: "nat \<Rightarrow> char" where
  "b64_char n =
     (if n < 26 then char_of (65 + n)
      else if n < 52 then char_of (71 + n)
      else if n < 62 then char_of (n - 4)
      else if n = 62 then CHR ''-'' else CHR ''_'')"

definition b64_val :: "char \<Rightarrow> nat option" where
  "b64_val c =
     (let n = (of_char c :: nat) in
      if 65 \<le> n \<and> n \<le> 90 then Some (n - 65)
      else if 97 \<le> n \<and> n \<le> 122 then Some (n - 71)
      else if 48 \<le> n \<and> n \<le> 57 then Some (n + 4)
      else if n = 45 then Some 62
      else if n = 95 then Some 63 else None)"

definition b64_text :: "string \<Rightarrow> bool" where
  "b64_text s \<longleftrightarrow> list_all (\<lambda>c. b64_val c \<noteq> None) s"

section \<open>encode and decode\<close>

text \<open>Three bytes make four characters; one or two bytes left over make two or three.\<close>

fun encode :: "bytes \<Rightarrow> string" where
  "encode (a # b # c # rest) =
     (let n = unat a * 65536 + unat b * 256 + unat c in
      b64_char (n div 262144) # b64_char (n div 4096 mod 64) # b64_char (n div 64 mod 64)
        # b64_char (n mod 64) # encode rest)"
| "encode [a, b] =
     (let n = unat a * 1024 + unat b * 4 in
      [b64_char (n div 4096), b64_char (n div 64 mod 64), b64_char (n mod 64)])"
| "encode [a] =
     (let n = unat a * 16 in [b64_char (n div 64), b64_char (n mod 64)])"
| "encode [] = []"

text \<open>
  \<open>atob\<close>: the six-bit values of the characters, regrouped in bytes; bits left over are dropped
  (so \<open>decode\<close> compares with \<open>encode\<close> afterwards).
\<close>

fun atob :: "nat list \<Rightarrow> bytes" where
  "atob (w # x # y # z # rest) =
     (let n = w * 262144 + x * 4096 + y * 64 + z in
      of_nat (n div 65536) # of_nat (n div 256 mod 256) # of_nat (n mod 256) # atob rest)"
| "atob [w, x, y] =
     (let n = w * 4096 + x * 64 + y in [of_nat (n div 1024), of_nat (n div 4 mod 256)])"
| "atob [w, x] = (let n = w * 64 + x in [of_nat (n div 16)])"
| "atob _ = []"

definition bad_encoding :: crypto_error where
  "bad_encoding = CryptoError ''Invalid key encoding.''"

definition decode :: "string \<Rightarrow> nat option \<Rightarrow> crypto_error + bytes" where
  "decode s len =
     (if s = [] \<or> \<not> b64_text s \<or> length s mod 4 = 1 then Inl bad_encoding
      else let bs = atob (map (\<lambda>c. the (b64_val c)) s) in
        if encode bs \<noteq> s \<or> (case len of None \<Rightarrow> False | Some n \<Rightarrow> length bs \<noteq> n)
        then Inl bad_encoding else Inr bs)"

section \<open>Lemmas\<close>

lemma b64_val_char [simp]: "n < 64 \<Longrightarrow> b64_val (b64_char n) = Some n"
  by (auto simp: b64_val_def b64_char_def Let_def)

lemma b64_text_simps [simp]:
  "b64_text []" "b64_text (c # s) \<longleftrightarrow> b64_val c \<noteq> None \<and> b64_text s"
  by (simp_all add: b64_text_def)

lemma unat_byte [simp]: "unat (a :: byte) < 256"
  by (rule order.strict_trans2 [OF unsigned_less]) simp

lemma digit_div_mod: "c < m \<Longrightarrow> (k * m + c) div m = (k::nat) \<and> (k * m + c) mod m = c"
  by auto

lemma sextets_join:
  "n div 262144 * 262144 + n div 4096 mod 64 * 4096 + n div 64 mod 64 * 64 + n mod 64 = (n::nat)"
  "n div 4096 * 4096 + n div 64 mod 64 * 64 + n mod 64 = n"
  "n div 64 * 64 + n mod 64 = n"
proof -
  have d: "n div 4096 = n div 64 div 64" "n div 262144 = n div 64 div 64 div 64"
    by (simp_all add: div_mult2_eq [symmetric])
  have "n div 64 = n div 64 div 64 * 64 + n div 64 mod 64"
    "n div 64 div 64 = n div 64 div 64 div 64 * 64 + n div 64 div 64 mod 64"
    "n = n div 64 * 64 + n mod 64"
    by (simp_all only: div_mult_mod_eq)
  then show "n div 262144 * 262144 + n div 4096 mod 64 * 4096 + n div 64 mod 64 * 64 + n mod 64 = n"
    "n div 4096 * 4096 + n div 64 mod 64 * 64 + n mod 64 = n"
    "n div 64 * 64 + n mod 64 = n"
    unfolding d by linarith+
qed

lemma group3_split:
  assumes "a < 256" "b < 256" "c < (256::nat)"
  defines "n \<equiv> a * 65536 + b * 256 + c"
  shows "n div 65536 = a" "n div 256 mod 256 = b" "n mod 256 = c" "n div 262144 < 64"
proof -
  have n: "n = (a * 256 + b) * 256 + c" by (simp add: n_def)
  from digit_div_mod [of c 256 "a * 256 + b"] assms(3)
  have h: "n div 256 = a * 256 + b" "n mod 256 = c" by (simp_all only: n)
  from digit_div_mod [of b 256 a] assms(2) h
  show "n div 256 mod 256 = b" "n mod 256 = c" by simp_all
  have "n div 65536 = n div 256 div 256" by (simp add: div_mult2_eq [symmetric])
  with digit_div_mod [of b 256 a] assms(2) h show "n div 65536 = a" by simp
  from assms have "n < 262144 * 64" by (simp add: n_def)
  then show "n div 262144 < 64" by (simp add: div_less_iff_less_mult)
qed

lemma group2_split:
  assumes "a < 256" "b < (256::nat)"
  defines "n \<equiv> a * 1024 + b * 4"
  shows "n div 1024 = a" "n div 4 mod 256 = b" "n div 4096 < 64"
proof -
  have n: "n = (a * 256 + b) * 4 + 0" by (simp add: n_def)
  from digit_div_mod [of 0 4 "a * 256 + b"] have h: "n div 4 = a * 256 + b" by (simp add: n)
  with digit_div_mod [of b 256 a] assms(2) show "n div 4 mod 256 = b" by simp
  have "n div 1024 = n div 4 div 256" by (simp add: div_mult2_eq [symmetric])
  with digit_div_mod [of b 256 a] assms(2) h show "n div 1024 = a" by simp
  from assms have "n < 4096 * 64" by (simp add: n_def)
  then show "n div 4096 < 64" by (simp add: div_less_iff_less_mult)
qed

lemma group1_split: "a < (256::nat) \<Longrightarrow> a * 16 div 64 < 64"
  by (simp add: div_less_iff_less_mult)

lemma encode_text: "b64_text (encode bs)"
proof (induction bs rule: encode.induct)
  case (1 a b c rest)
  then show ?case using group3_split(4) [of "unat a" "unat b" "unat c"] by (simp add: Let_def)
next
  case (2 a b)
  then show ?case using group2_split(3) [of "unat a" "unat b"] by (simp add: Let_def)
next
  case (3 a)
  then show ?case using group1_split [of "unat a"] by (simp add: Let_def)
qed simp

lemma encode_length: "length (encode bs) = (4 * length bs + 2) div 3"
  by (induction bs rule: encode.induct) (auto simp: Let_def)

lemma encode_length_ok: "length (encode bs) mod 4 \<noteq> Suc 0"
  by (induction bs rule: encode.induct) (auto simp: Let_def mod_Suc)

lemma encode_eq_Nil [simp]: "encode bs = [] \<longleftrightarrow> bs = []"
  by (cases bs rule: encode.cases) (auto simp: Let_def)

lemma atob_encode: "atob (map (\<lambda>c. the (b64_val c)) (encode bs)) = bs"
proof (induction bs rule: encode.induct)
  case (1 a b c rest)
  let ?n = "unat a * 65536 + unat b * 256 + unat c"
  have "?n div 65536 = unat a" "?n div 256 mod 256 = unat b" "?n mod 256 = unat c"
    and "?n div 262144 < 64"
    by (rule group3_split; simp)+
  then show ?case
    using "1" sextets_join(1) [of ?n] by (simp add: Let_def del: of_nat_mod)
next
  case (2 a b)
  let ?n = "unat a * 1024 + unat b * 4"
  have "?n div 1024 = unat a" "?n div 4 mod 256 = unat b" "?n div 4096 < 64"
    by (rule group2_split; simp)+
  then show ?case using sextets_join(2) [of ?n] by (simp add: Let_def)
next
  case (3 a)
  then show ?case
    using group1_split [of "unat a"] sextets_join(3) [of "unat a * 16"] by (simp add: Let_def)
qed simp

lemma decode_encode:
  "bs \<noteq> [] \<Longrightarrow> (case len of None \<Rightarrow> True | Some n \<Rightarrow> length bs = n) \<Longrightarrow> decode (encode bs) len = Inr bs"
  by (auto simp: decode_def encode_text encode_length_ok atob_encode Let_def split: option.splits)

lemma decode_Inr:
  "decode s len = Inr bs \<longleftrightarrow>
     bs \<noteq> [] \<and> encode bs = s \<and> (case len of None \<Rightarrow> True | Some n \<Rightarrow> length bs = n)"
proof
  assume "decode s len = Inr bs"
  then show "bs \<noteq> [] \<and> encode bs = s \<and> (case len of None \<Rightarrow> True | Some n \<Rightarrow> length bs = n)"
    by (auto simp: decode_def Let_def split: if_splits option.splits)
next
  assume "bs \<noteq> [] \<and> encode bs = s \<and> (case len of None \<Rightarrow> True | Some n \<Rightarrow> length bs = n)"
  then show "decode s len = Inr bs"
    using decode_encode [of bs len] by auto
qed

lemma decode_error: "decode s len = Inl e \<Longrightarrow> e = bad_encoding"
  by (auto simp: decode_def Let_def split: if_splits)

lemma decode_length: "decode s (Some n) = Inr bs \<Longrightarrow> length bs = n"
  by (simp add: decode_Inr)

lemma encode_inj: "encode xs = encode ys \<Longrightarrow> xs = ys"
  by (metis atob_encode)

text \<open>The codec of byte strings: \<open>encode\<close>, which the empty string does not survive, and \<open>decode\<close>.\<close>

definition encode_key :: "nat option \<Rightarrow> bytes \<Rightarrow> crypto_error + string" where
  "encode_key len bs =
     (if bs = [] \<or> (case len of None \<Rightarrow> False | Some n \<Rightarrow> length bs \<noteq> n)
      then Inl bad_encoding else Inr (encode bs))"

interpretation base64url: codec "encode_key len" "\<lambda>s. decode s len" for len
  by unfold_locales (auto simp: encode_key_def decode_Inr split: if_splits option.splits)

section \<open>Properties\<close>

text \<open>\<open>decode\<close> takes exactly the text \<open>encode\<close> writes of a byte string that is not empty and has
  the length asked for, and gives those bytes back: spare bits, other alphabets and padding are
  refused, so a key or digest has one spelling.\<close>

theorem base64url_codec:
  "decode s len = Inr bs \<longleftrightarrow>
     bs \<noteq> [] \<and> encode bs = s \<and> (case len of None \<Rightarrow> True | Some n \<Rightarrow> length bs = n)"
  by (rule decode_Inr)

end
