(* ===== verification/Canonical.thy ===== *)
theory Canonical
  imports Encoding
begin

text \<open>
  \<open>packages/crypto/src/canonical.ts\<close>: the canonical encoding of group statements. The field
  rules (\<open>uuid\<close>, \<open>integer\<close>, \<open>bytesOf\<close>, \<open>digestOf\<close>, \<open>oneOf\<close>, \<open>ascending\<close>), the grammar of a
  statement, \<open>encodeStatement\<close> and \<open>parseStatement\<close>, with what the source uses of
  \<open>JSON.stringify\<close>, \<open>JSON.parse\<close>, \<open>TextEncoder\<close> and \<open>TextDecoder\<close>.
\<close>

unbundle bit_operations_syntax

section \<open>Values\<close>

text \<open>
  A value of unknown type, as \<open>JSON.parse\<close> gives it or a caller hands it in. \<open>JOther\<close> stands for
  everything the checks refuse by its type alone: \<open>undefined\<close>, \<open>null\<close>, booleans, objects,
  numbers that are not integers, and \<open>-0\<close>.
\<close>

datatype json = JStr string | JNum int | JArr "json list" | JOther

definition MAX_STATEMENT_BYTES :: nat where
  "MAX_STATEMENT_BYTES = 4 * 1024 * 1024"

definition MAX_SAFE_INTEGER :: int where
  "MAX_SAFE_INTEGER = 2 ^ 53 - 1"

definition isSafeInteger :: "int \<Rightarrow> bool" where
  "isSafeInteger n \<longleftrightarrow> - MAX_SAFE_INTEGER \<le> n \<and> n \<le> MAX_SAFE_INTEGER"

text \<open>\<open>PLAIN\<close>: printable ASCII other than the double quote and the backslash.\<close>

definition plain_char :: "char \<Rightarrow> bool" where
  "plain_char c \<longleftrightarrow>
     (let n = (of_char c :: nat) in n = 0x20 \<or> n = 0x21 \<or> (0x23 \<le> n \<and> n \<le> 0x5b) \<or> (0x5d \<le> n \<and> n \<le> 0x7e))"

fun grammatical :: "json \<Rightarrow> nat \<Rightarrow> bool" where
  "grammatical (JStr s) depth = list_all plain_char s"
| "grammatical (JNum n) depth = (isSafeInteger n \<and> n \<ge> 0)"
| "grammatical (JArr xs) depth = (depth < 4 \<and> list_all (\<lambda>v. grammatical v (depth + 1)) xs)"
| "grammatical JOther depth = False"

section \<open>Field rules\<close>

definition hex_char :: "char \<Rightarrow> bool" where
  "hex_char c \<longleftrightarrow> (let n = (of_char c :: nat) in (48 \<le> n \<and> n \<le> 57) \<or> (97 \<le> n \<and> n \<le> 102))"

definition is_uuid :: "string \<Rightarrow> bool" where
  "is_uuid s \<longleftrightarrow> length s = 36 \<and>
     list_all (\<lambda>(i, c). if i \<in> {8, 13, 18, 23} then c = CHR ''-'' else hex_char c)
       (List.enumerate 0 s)"

definition uuid :: "json \<Rightarrow> string \<Rightarrow> crypto_error + string" where
  "uuid v what = (case v of JStr s \<Rightarrow> if is_uuid s then Inr s else Inl (invalid what)
                          | _ \<Rightarrow> Inl (invalid what))"

definition integer :: "json \<Rightarrow> string \<Rightarrow> crypto_error + nat" where
  "integer v what =
     (case v of JNum n \<Rightarrow> if \<not> isSafeInteger n \<or> n < 1 then Inl (invalid what) else Inr (nat n)
              | _ \<Rightarrow> Inl (invalid what))"

definition bytesOf :: "json \<Rightarrow> nat \<Rightarrow> string \<Rightarrow> crypto_error + string" where
  "bytesOf v len what =
     (case v of JStr s \<Rightarrow> (case decode s (Some len) of Inl _ \<Rightarrow> Inl (invalid what) | Inr _ \<Rightarrow> Inr s)
              | _ \<Rightarrow> Inl (invalid what))"

definition digestOf :: "json \<Rightarrow> string \<Rightarrow> crypto_error + string" where
  "digestOf v what = bytesOf v 32 what"

definition oneOf :: "json \<Rightarrow> string list \<Rightarrow> string \<Rightarrow> crypto_error + string" where
  "oneOf v allowed what =
     (case v of JStr s \<Rightarrow> if s \<in> set allowed then Inr s else Inl (invalid what)
              | _ \<Rightarrow> Inl (invalid what))"

definition ascending :: "string list \<Rightarrow> string \<Rightarrow> crypto_error + string list" where
  "ascending values what = (if strictly values then Inr values else Inl (invalid what))"

section \<open>Text\<close>

definition digit_char :: "nat \<Rightarrow> char" where
  "digit_char d = char_of (48 + d)"

definition is_digit :: "char \<Rightarrow> bool" where
  "is_digit c \<longleftrightarrow> (48::nat) \<le> of_char c \<and> of_char c \<le> (57::nat)"

definition digit_val :: "char \<Rightarrow> nat" where
  "digit_val c = of_char c - 48"

fun decimal :: "nat \<Rightarrow> string" where
  "decimal n = (if n < 10 then [digit_char n] else decimal (n div 10) @ [digit_char (n mod 10)])"

declare decimal.simps [simp del]

text \<open>
  \<open>JSON.stringify\<close> of strings, integers and arrays, with the escapes of strings; \<open>JOther\<close> has
  no text of its own and is never written (the grammar refuses it first).
\<close>

definition hex_digit :: "nat \<Rightarrow> char" where
  "hex_digit d = (if d < 10 then char_of (48 + d) else char_of (87 + d))"

definition escape_char :: "char \<Rightarrow> string" where
  "escape_char c =
     (let n = (of_char c :: nat) in
      if n = 0x22 \<or> n = 0x5C then [CHR 0x5C, c]
      else if n = 0x08 then [CHR 0x5C, CHR ''b''] else if n = 0x0C then [CHR 0x5C, CHR ''f'']
      else if n = 0x0A then [CHR 0x5C, CHR ''n''] else if n = 0x0D then [CHR 0x5C, CHR ''r'']
      else if n = 0x09 then [CHR 0x5C, CHR ''t'']
      else if n < 0x20 then
        [CHR 0x5C, CHR ''u'', CHR ''0'', CHR ''0'', hex_digit (n div 16), hex_digit (n mod 16)]
      else [c])"

definition escape :: "string \<Rightarrow> string" where
  "escape s = concat (map escape_char s)"

fun stringify :: "json \<Rightarrow> string" and stringify_items :: "json list \<Rightarrow> string" where
  "stringify (JStr s) = CHR 0x22 # escape s @ [CHR 0x22]"
| "stringify (JNum n) = (if n < 0 then CHR ''-'' # decimal (nat (- n)) else decimal (nat n))"
| "stringify (JArr xs) = CHR ''['' # stringify_items xs @ [CHR '']'']"
| "stringify JOther = ''null''"
| "stringify_items [] = []"
| "stringify_items [x] = stringify x"
| "stringify_items (x # y # zs) = stringify x @ CHR '','' # stringify_items (y # zs)"

text \<open>\<open>TextEncoder\<close>: UTF-8, one byte below U+0080 and two from there to U+00FF.\<close>

definition utf8 :: "char \<Rightarrow> bytes" where
  "utf8 c = (let n = (of_char c :: nat) in
     if n < 128 then [of_nat n] else [of_nat (192 + n div 64), of_nat (128 + n mod 64)])"

definition text_encode :: "string \<Rightarrow> bytes" where
  "text_encode s = concat (map utf8 s)"

text \<open>
  A fatal \<open>TextDecoder\<close>, on the texts that matter: bytes above 127 either are not UTF-8 or give
  characters outside the grammar, and are refused either way.
\<close>

definition text_decode :: "bytes \<Rightarrow> string option" where
  "text_decode bs = (if list_all (\<lambda>b. unat b < 128) bs then Some (map (\<lambda>b. char_of (unat b)) bs) else None)"

text \<open>
  \<open>JSON.parse\<close>, on the texts that matter: arrays, strings without escapes and integers without
  sign, fraction or exponent, with any white space between them. On every other text it is
  \<open>None\<close>, where \<open>JSON.parse\<close> throws, or gives a value outside the grammar, or one whose compact
  encoding is another text; \<open>parseStatement\<close> answers all three alike. The fuel is the length of
  the text (\<open>json_value_stringify\<close> shows it is enough).
\<close>

definition is_space :: "char \<Rightarrow> bool" where
  "is_space c \<longleftrightarrow> c \<in> {CHR 0x20, CHR 0x09, CHR 0x0A, CHR 0x0D}"

definition skip_ws :: "string \<Rightarrow> string" where
  "skip_ws s = dropWhile is_space s"

fun scan_string :: "string \<Rightarrow> (string \<times> string) option" where
  "scan_string [] = None"
| "scan_string (c # r) =
     (if c = CHR 0x22 then Some ([], r)
      else if c = CHR 0x5C \<or> (of_char c :: nat) < 0x20 then None
      else (case scan_string r of None \<Rightarrow> None | Some (s, r') \<Rightarrow> Some (c # s, r')))"

definition scan_number :: "string \<Rightarrow> (nat \<times> string) option" where
  "scan_number s =
     (let ds = takeWhile is_digit s; r = dropWhile is_digit s in
      if ds = [] \<or> (hd ds = CHR ''0'' \<and> ds \<noteq> ''0'')
         \<or> (r \<noteq> [] \<and> hd r \<in> {CHR ''.'', CHR ''e'', CHR ''E''}) then None
      else Some (foldl (\<lambda>n c. 10 * n + digit_val c) 0 ds, r))"

fun json_value :: "nat \<Rightarrow> string \<Rightarrow> (json \<times> string) option"
  and json_items :: "nat \<Rightarrow> string \<Rightarrow> (json list \<times> string) option" where
  "json_value 0 s = None"
| "json_value (Suc fuel) s =
     (case skip_ws s of
        [] \<Rightarrow> None
      | c # r \<Rightarrow>
          if c = CHR 0x22 then map_option (\<lambda>(t, r'). (JStr t, r')) (scan_string r)
          else if c = CHR ''['' then
            (if skip_ws r \<noteq> [] \<and> hd (skip_ws r) = CHR '']'' then Some (JArr [], tl (skip_ws r))
             else map_option (\<lambda>(xs, r'). (JArr xs, r')) (json_items fuel r))
          else map_option (\<lambda>(n, r'). (JNum (int n), r')) (scan_number (c # r)))"
| "json_items 0 s = None"
| "json_items (Suc fuel) s =
     (case json_value fuel s of
        None \<Rightarrow> None
      | Some (x, r) \<Rightarrow>
          (case skip_ws r of
             [] \<Rightarrow> None
           | c # r' \<Rightarrow>
               if c = CHR '']'' then Some ([x], r')
               else if c = CHR '','' then map_option (\<lambda>(xs, r''). (x # xs, r'')) (json_items fuel r')
               else None))"

definition json_parse :: "string \<Rightarrow> json option" where
  "json_parse s = (case json_value (length s) s of
     Some (v, r) \<Rightarrow> if skip_ws r = [] then Some v else None
   | None \<Rightarrow> None)"

section \<open>Statements\<close>

text \<open>\<open>sameBytes\<close> compares in constant time: the exclusive-ors of all bytes, or-ed together.\<close>

fun difference :: "byte \<Rightarrow> bytes \<Rightarrow> bytes \<Rightarrow> byte" where
  "difference d (a # as) (b # bs) = difference (d OR (a XOR b)) as bs"
| "difference d _ _ = d"

definition sameBytes :: "bytes \<Rightarrow> bytes \<Rightarrow> bool" where
  "sameBytes a b = (if length a \<noteq> length b then False else difference 0 a b = 0)"

definition encodeStatement :: "json list \<Rightarrow> crypto_error + bytes" where
  "encodeStatement parts =
     (if \<not> grammatical (JArr parts) 0 then Inl (invalid ''statement'')
      else let bytes = text_encode (stringify (JArr parts)) in
        if length bytes > MAX_STATEMENT_BYTES then Inl (invalid ''statement'') else Inr bytes)"

definition parseStatement :: "bytes \<Rightarrow> string \<Rightarrow> crypto_error + json list" where
  "parseStatement bytes what =
     (if length bytes \<le> MAX_STATEMENT_BYTES then
        (case Option.bind (text_decode bytes) json_parse of
           Some (JArr parsed) \<Rightarrow>
             if grammatical (JArr parsed) 0
               \<and> sameBytes (text_encode (stringify (JArr parsed))) bytes
             then Inr parsed else Inl (invalid what)
         | _ \<Rightarrow> Inl (invalid what))
      else Inl (invalid what))"

definition requireCanonical :: "bytes \<Rightarrow> bytes \<Rightarrow> string \<Rightarrow> crypto_error + unit" where
  "requireCanonical served rebuilt what = refuse_if (\<not> sameBytes served rebuilt) (invalid what)"

section \<open>Lemmas: text\<close>

lemma xor_eq_0_iff: "(a :: byte) XOR b = 0 \<longleftrightarrow> a = b"
  by (metis bit.xor_left_self xor.right_neutral)

lemma difference_0: "length a = length b \<Longrightarrow> difference d a b = 0 \<longleftrightarrow> d = 0 \<and> a = b"
  by (induction d a b rule: difference.induct) (auto simp: or_eq_0_iff xor_eq_0_iff)

lemma sameBytes_iff [simp]: "sameBytes a b \<longleftrightarrow> a = b"
  using difference_0 [of a b 0] by (auto simp: sameBytes_def)

lemma requireCanonical_Inr [returns]: "requireCanonical a b what = Inr u \<longleftrightarrow> a = b"
  by (simp add: requireCanonical_def returns)

lemma digit_char_facts [simp]:
  assumes "d < 10"
  shows "is_digit (digit_char d)" "digit_val (digit_char d) = d"
    "of_char (digit_char d) = 48 + d" "digit_char d = CHR ''0'' \<longleftrightarrow> d = 0"
proof -
  from assms show v: "of_char (digit_char d) = 48 + d" by (simp add: digit_char_def)
  from assms show "is_digit (digit_char d)" "digit_val (digit_char d) = d"
    by (simp_all add: is_digit_def digit_val_def digit_char_def)
  from v show "digit_char d = CHR ''0'' \<longleftrightarrow> d = 0"
    using of_char_eq_iff [of "digit_char d" "CHR ''0''", where ?'a = nat] by simp
qed

lemma decimal_digits: "list_all is_digit (decimal n) \<and> decimal n \<noteq> []"
proof (induction n rule: decimal.induct)
  case (1 n)
  then show ?case by (subst (1 2) decimal.simps) auto
qed

lemma decimal_hd: "hd (decimal n) = CHR ''0'' \<longleftrightarrow> n = 0"
proof (induction n rule: decimal.induct)
  case (1 n)
  have "decimal (n div 10) \<noteq> []" using decimal_digits by blast
  with 1 show ?case by (subst decimal.simps) (auto simp: hd_append)
qed

lemma decimal_0 [simp]: "decimal 0 = ''0''"
  by (subst decimal.simps) simp

lemma decimal_value: "foldl (\<lambda>n c. 10 * n + digit_val c) 0 (decimal n) = n"
proof (induction n rule: decimal.induct)
  case (1 n)
  then show ?case by (subst decimal.simps) auto
qed

lemma takeWhile_digits:
  "list_all P ds \<Longrightarrow> r = [] \<or> \<not> P (hd r) \<Longrightarrow> takeWhile P (ds @ r) = ds \<and> dropWhile P (ds @ r) = r"
  by (induction ds) (cases r; auto)+

text \<open>What may follow a value inside a statement: nothing, a comma or a closing bracket.\<close>

definition ends :: "string \<Rightarrow> bool" where
  "ends r \<longleftrightarrow> r = [] \<or> hd r \<in> {CHR '','', CHR '']''}"

lemma scan_number_decimal: "ends r \<Longrightarrow> scan_number (decimal n @ r) = Some (n, r)"
proof -
  assume r: "ends r"
  then have "r = [] \<or> \<not> is_digit (hd r)"
    by (auto simp: ends_def is_digit_def)
  with takeWhile_digits [of is_digit "decimal n" r]
  have "takeWhile is_digit (decimal n @ r) = decimal n" "dropWhile is_digit (decimal n @ r) = r"
    using decimal_digits by blast+
  moreover have "decimal n \<noteq> []" "hd (decimal n) = CHR ''0'' \<longrightarrow> decimal n = ''0''"
    using decimal_digits decimal_hd by auto
  ultimately show ?thesis using r by (auto simp: scan_number_def Let_def decimal_value ends_def)
qed

lemma plain_char_scans: "plain_char c \<Longrightarrow> c \<noteq> CHR 0x22 \<and> c \<noteq> CHR 0x5C \<and> \<not> (of_char c :: nat) < 0x20"
  by (auto simp: plain_char_def Let_def)

lemma escape_plain: "list_all plain_char s \<Longrightarrow> escape s = s"
  by (induction s) (auto simp: escape_def escape_char_def plain_char_def Let_def)

lemma scan_string_plain: "list_all plain_char s \<Longrightarrow> scan_string (s @ CHR 0x22 # r) = Some (s, r)"
  by (induction s) (auto dest: plain_char_scans)

fun clean :: "json \<Rightarrow> bool" where
  "clean (JStr s) = list_all plain_char s"
| "clean (JNum n) = (n \<ge> 0)"
| "clean (JArr xs) = list_all clean xs"
| "clean JOther = False"

lemma grammatical_clean: "grammatical v depth \<Longrightarrow> clean v"
  by (induction v depth rule: grammatical.induct) (auto simp: list_all_iff)

lemma is_digit_not_space: "is_digit c \<Longrightarrow> \<not> is_space c \<and> c \<noteq> CHR 0x22 \<and> c \<noteq> CHR ''['' \<and> c \<noteq> CHR '']''"
  by (auto simp: is_digit_def is_space_def)

lemma stringify_head: "clean v \<Longrightarrow> \<exists>c r. stringify v = c # r \<and> \<not> is_space c \<and> c \<noteq> CHR '']''"
proof (cases v)
  case (JNum n)
  moreover assume "clean v"
  ultimately show ?thesis using decimal_digits [of "nat n"]
    by (cases "decimal (nat n)") (auto dest: is_digit_not_space)
qed (auto simp: is_space_def)

lemma skip_ws_simps [simp]: "skip_ws [] = []" "\<not> is_space c \<Longrightarrow> skip_ws (c # r) = c # r"
  by (simp_all add: skip_ws_def)

lemma skip_ws_stringify: "clean v \<Longrightarrow> skip_ws (stringify v @ r) = stringify v @ r"
  using stringify_head [of v] by (auto simp: skip_ws_def)

lemma skip_ws_items: "clean v \<Longrightarrow> skip_ws (stringify_items (v # vs) @ r) = stringify_items (v # vs) @ r
    \<and> stringify_items (v # vs) \<noteq> [] \<and> hd (stringify_items (v # vs)) \<noteq> CHR '']''"
  using stringify_head [of v] by (cases vs) (auto simp: skip_ws_def)

lemma space_end: "\<not> is_space (CHR '']'')" "\<not> is_space (CHR '','')" "\<not> is_space (CHR ''['')"
    "\<not> is_space (CHR 0x22)"
  by (simp_all add: is_space_def)

lemma ends_simps: "ends []" "ends (CHR '','' # r)" "ends (CHR '']'' # r)"
  by (simp_all add: ends_def)

text \<open>The text of a value reads back, whatever follows it, with the text's length as fuel.\<close>

lemma json_value_stringify:
  "clean v \<Longrightarrow> ends r \<Longrightarrow> length (stringify v) \<le> fuel \<Longrightarrow>
     json_value fuel (stringify v @ r) = Some (v, r)"
  and json_items_stringify:
  "list_all clean vs \<Longrightarrow> vs \<noteq> [] \<Longrightarrow> length (stringify_items vs) < fuel \<Longrightarrow>
     json_items fuel (stringify_items vs @ CHR '']'' # r) = Some (vs, r)"
proof (induction v and vs arbitrary: r fuel and r fuel rule: stringify_stringify_items.induct)
  case (1 s)
  then show ?case by (cases fuel) (auto simp: space_end scan_string_plain escape_plain)
next
  case (2 n)
  then obtain f where f: "fuel = Suc f" using decimal_digits [of "nat n"] by (cases fuel) auto
  obtain c d where d: "decimal (nat n) = c # d" "is_digit c"
    using decimal_digits [of "nat n"] by (cases "decimal (nat n)") auto
  with 2 f is_digit_not_space [OF d(2)] scan_number_decimal [of r "nat n"] show ?case by auto
next
  case (3 xs)
  then obtain f where f: "fuel = Suc f" by (cases fuel) auto
  show ?case
  proof (cases xs)
    case Nil
    with f show ?thesis by (simp add: space_end)
  next
    case (Cons y ys)
    with 3 have "clean y" by simp
    from skip_ws_items [OF this, of ys "CHR '']'' # r"] Cons
    have sk: "skip_ws (stringify_items xs @ CHR '']'' # r) = stringify_items xs @ CHR '']'' # r"
      "hd (stringify_items xs @ CHR '']'' # r) \<noteq> CHR '']''"
      by auto
    have "json_items f (stringify_items xs @ CHR '']'' # r) = Some (xs, r)"
      using 3 Cons f by auto
    with f sk show ?thesis by (simp add: space_end)
  qed
next
  case (6 x)
  then obtain f where f: "fuel = Suc f" by (cases fuel) auto
  with 6 have "json_value f (stringify x @ CHR '']'' # r) = Some (x, CHR '']'' # r)"
    by (simp add: ends_simps)
  with f show ?case by (simp add: space_end)
next
  case (7 x y zs)
  then obtain f where f: "fuel = Suc f" by (cases fuel) auto
  have "json_value f (stringify x @ CHR '','' # stringify_items (y # zs) @ CHR '']'' # r)
      = Some (x, CHR '','' # stringify_items (y # zs) @ CHR '']'' # r)"
    using 7 f by (intro "7.IH"(1)) (auto simp: ends_simps)
  moreover have "json_items f (stringify_items (y # zs) @ CHR '']'' # r) = Some (y # zs, r)"
    using 7 f by (intro "7.IH"(2)) auto
  ultimately show ?case using f by (simp add: space_end)
qed auto

lemma json_parse_stringify: "clean v \<Longrightarrow> json_parse (stringify v) = Some v"
  using json_value_stringify [of v "[]" "length (stringify v)"] by (simp add: json_parse_def ends_simps)

text \<open>Statements are ASCII, so the text encoder and decoder undo each other on them.\<close>

definition ascii :: "string \<Rightarrow> bool" where
  "ascii s \<longleftrightarrow> list_all (\<lambda>c. (of_char c :: nat) < 128) s"

lemma unat_ascii: "(of_char c :: nat) < 128 \<Longrightarrow> unat (of_nat (of_char c) :: byte) = of_char c"
  by (simp add: unat_of_nat)

lemma text_encode_simps [simp]: "text_encode [] = []" "text_encode (c # s) = utf8 c @ text_encode s"
  by (simp_all add: text_encode_def)

lemma text_encode_ascii: "ascii s \<Longrightarrow> text_encode s = map (\<lambda>c. of_nat (of_char c)) s"
  by (induction s) (auto simp: ascii_def utf8_def Let_def)

lemma text_decode_encode: "ascii s \<Longrightarrow> text_decode (text_encode s) = Some s"
  unfolding text_encode_ascii
  by (auto simp: ascii_def text_decode_def list_all_iff comp_def unat_ascii map_idI)

lemma ascii_simps [simp]: "ascii []" "ascii (c # s) \<longleftrightarrow> (of_char c :: nat) < 128 \<and> ascii s"
    "ascii (s @ t) \<longleftrightarrow> ascii s \<and> ascii t"
  by (auto simp: ascii_def)

lemma plain_ascii: "list_all plain_char s \<Longrightarrow> ascii s"
  by (induction s) (auto simp: plain_char_def Let_def)

lemma digits_ascii: "list_all is_digit s \<Longrightarrow> ascii s"
  by (induction s) (auto simp: is_digit_def)

lemma stringify_ascii: "clean v \<Longrightarrow> ascii (stringify v)"
  and "list_all clean vs \<Longrightarrow> ascii (stringify_items vs)"
  by (induction v and vs rule: stringify_stringify_items.induct)
    (auto simp: plain_ascii digits_ascii decimal_digits escape_plain)

section \<open>Lemmas: statements\<close>

lemma encodeStatement_Inr:
  "encodeStatement parts = Inr bytes \<longleftrightarrow>
     grammatical (JArr parts) 0 \<and> bytes = text_encode (stringify (JArr parts))
     \<and> length bytes \<le> MAX_STATEMENT_BYTES"
  unfolding encodeStatement_def Let_def if_Inl_Inr not_not not_less sum.inject
  by blast

lemma parse_encode: "encodeStatement parts = Inr bytes \<Longrightarrow> parseStatement bytes what = Inr parts"
proof -
  assume "encodeStatement parts = Inr bytes"
  then have g: "grammatical (JArr parts) 0" and b: "bytes = text_encode (stringify (JArr parts))"
    and l: "length bytes \<le> MAX_STATEMENT_BYTES"
    unfolding encodeStatement_Inr by blast+
  from g have c: "clean (JArr parts)" by (rule grammatical_clean)
  from text_decode_encode [OF stringify_ascii [OF c]] json_parse_stringify [OF c]
  have "Option.bind (text_decode bytes) json_parse = Some (JArr parts)"
    by (simp add: b del: stringify.simps)
  with g b l show ?thesis
    by (simp add: parseStatement_def del: grammatical.simps stringify.simps)
qed

lemma encode_parse: "parseStatement bytes what = Inr parts \<Longrightarrow> encodeStatement parts = Inr bytes"
  by (auto simp: parseStatement_def encodeStatement_Inr split: if_splits option.splits json.splits
      simp del: grammatical.simps stringify.simps)

lemma parseStatement_Inr: "parseStatement bytes what = Inr parts \<longleftrightarrow> encodeStatement parts = Inr bytes"
  using parse_encode encode_parse by blast

lemma parseStatement_error: "parseStatement bytes what = Inl e \<Longrightarrow> e = invalid what"
  by (auto simp: parseStatement_def split: if_splits option.splits json.splits)

interpretation statement: codec encodeStatement "\<lambda>b. parseStatement b what" for what
  by unfold_locales (simp_all add: parseStatement_Inr)

section \<open>Lemmas: fields\<close>

lemma uuid_Inr [returns]: "uuid v what = Inr s \<longleftrightarrow> v = JStr s \<and> is_uuid s"
  by (auto simp: uuid_def split: json.splits if_splits)

lemma integer_Inr [returns]: "integer v what = Inr n \<longleftrightarrow> v = JNum (int n) \<and> 1 \<le> n \<and> int n \<le> MAX_SAFE_INTEGER"
  by (auto simp: integer_def isSafeInteger_def MAX_SAFE_INTEGER_def split: json.splits if_splits)

lemma bytesOf_Inr [returns]:
  "bytesOf v len what = Inr s \<longleftrightarrow> v = JStr s \<and> (\<exists>bs. decode s (Some len) = Inr bs)"
  by (auto simp: bytesOf_def split: json.splits sum.splits)

lemma digestOf_Inr [returns]:
  "digestOf v what = Inr s \<longleftrightarrow> v = JStr s \<and> (\<exists>bs. decode s (Some 32) = Inr bs)"
  by (simp add: digestOf_def bytesOf_Inr)

lemma oneOf_Inr [returns]: "oneOf v allowed what = Inr s \<longleftrightarrow> v = JStr s \<and> s \<in> set allowed"
  by (auto simp: oneOf_def split: json.splits if_splits)

lemma ascending_Inr [returns]: "ascending xs what = Inr ys \<longleftrightarrow> strictly xs \<and> ys = xs"
  by (auto simp: ascending_def)

text \<open>Every accepted field keeps the statement grammar.\<close>

lemma hex_plain: "hex_char c \<Longrightarrow> plain_char c"
  by (auto simp: hex_char_def plain_char_def Let_def)

lemma uuid_plain: "is_uuid s \<Longrightarrow> list_all plain_char s"
proof -
  assume u: "is_uuid s"
  have "plain_char (s ! i)" if "i < length s" for i
  proof -
    have "(i, s ! i) \<in> set (List.enumerate 0 s)" using that by (auto simp: in_set_enumerate_eq)
    with u have "if i \<in> {8, 13, 18, 23} then s ! i = CHR ''-'' else hex_char (s ! i)"
      by (fastforce simp: is_uuid_def list_all_iff)
    then show ?thesis by (auto simp: plain_char_def dest: hex_plain split: if_splits)
  qed
  then show ?thesis by (auto simp: list_all_length)
qed

lemma b64_plain: "b64_val c = Some n \<Longrightarrow> plain_char c"
  by (auto simp: b64_val_def plain_char_def Let_def split: if_splits)

lemma decode_plain: "decode s len = Inr bs \<Longrightarrow> list_all plain_char s"
  using encode_text [of bs] by (auto simp: decode_Inr b64_text_def list_all_iff dest: b64_plain)

section \<open>Properties\<close>

text \<open>\<open>parseStatement\<close> takes exactly the bytes \<open>encodeStatement\<close> writes, and gives back the parts
  they were written from; other white space, escapes, number spellings and anything outside the
  grammar are refused.\<close>

theorem statement_codec: "parseStatement bytes what = Inr parts \<longleftrightarrow> encodeStatement parts = Inr bytes"
  by (rule statement.reads_iff_writes)

end
