(* ===== verification/Fingerprint.thy ===== *)
theory Fingerprint
  imports Canonical
begin

text \<open>
  \<open>packages/crypto/src/fingerprint.ts\<close> and \<open>ids.ts\<close>: what two people compare (forty hex digits,
  or twelve words), digests in their two spellings (hex in pins, base64url in statements), and
  ids derived from a seed and a scope. The primitives of third-party packages and of Web Crypto,
  with the BIP-39 word list, are the record \<open>primitives\<close>, an argument of every definition that
  uses one.
\<close>

section \<open>Primitives\<close>

record primitives =
  sha256 :: "bytes \<Rightarrow> bytes"
  \<comment> \<open>key, salt, info; 32 bytes of HKDF-SHA-256\<close>
  hkdf :: "bytes \<Rightarrow> bytes \<Rightarrow> bytes \<Rightarrow> bytes"
  \<comment> \<open>signature, message, public key\<close>
  crypto_sign_verify_detached :: "bytes \<Rightarrow> bytes \<Rightarrow> bytes \<Rightarrow> bool"
  \<comment> \<open>signature, message, public key, context\<close>
  ml_dsa65_verify :: "bytes \<Rightarrow> bytes \<Rightarrow> bytes \<Rightarrow> bytes \<Rightarrow> bool"
  wordlist :: "string list"

text \<open>What the source relies on: a SHA-256 digest and a derived key have 32 bytes.\<close>

definition sha256_32 :: "primitives \<Rightarrow> bool" where
  "sha256_32 P \<longleftrightarrow> (\<forall>b. length (sha256 P b) = 32)"

definition hkdf_32 :: "primitives \<Rightarrow> bool" where
  "hkdf_32 P \<longleftrightarrow> (\<forall>k s i. length (hkdf P k s i) = 32)"

text \<open>The BIP-39 English list has 2,048 words, no two alike.\<close>

definition wordlist_ok :: "primitives \<Rightarrow> bool" where
  "wordlist_ok P \<longleftrightarrow> length (wordlist P) = 2048 \<and> distinct (wordlist P)"

section \<open>Hex\<close>

definition hex_byte :: "byte \<Rightarrow> string" where
  "hex_byte b = [hex_digit (unat b div 16), hex_digit (unat b mod 16)]"

definition hex_of :: "bytes \<Rightarrow> string" where
  "hex_of bs = concat (map hex_byte bs)"

definition hex_val :: "char \<Rightarrow> nat" where
  "hex_val c = (let n = (of_char c :: nat) in if n \<le> 57 then n - 48 else n - 87)"

fun hex_pairs :: "string \<Rightarrow> bytes" where
  "hex_pairs (c # d # r) = of_nat (16 * hex_val c + hex_val d) # hex_pairs r"
| "hex_pairs _ = []"

definition invalid_key_digest :: crypto_error where
  "invalid_key_digest = CryptoError ''Invalid key digest.''"

definition hexBytes :: "string \<Rightarrow> crypto_error + bytes" where
  "hexBytes hex =
     (if length hex \<noteq> 64 \<or> \<not> list_all hex_char hex then Inl invalid_key_digest
      else Inr (hex_pairs hex))"

section \<open>Digests\<close>

definition digest :: "primitives \<Rightarrow> bytes \<Rightarrow> string" where
  "digest P bs = encode (sha256 P bs)"

definition keyDigest :: "primitives \<Rightarrow> bytes \<Rightarrow> string" where
  "keyDigest P publicKey = hex_of (sha256 P publicKey)"

definition publicKeyBytes :: "string \<Rightarrow> bytes" where
  "publicKeyBytes value = atob (map (\<lambda>c. the (b64_val c)) value)"

definition digestBase64url :: "string \<Rightarrow> crypto_error + string" where
  "digestBase64url hex = bindE (hexBytes hex) (\<lambda>bytes. Inr (encode bytes))"

definition digestHex :: "string \<Rightarrow> crypto_error + string" where
  "digestHex base64url =
     (if length base64url \<noteq> 43 \<or> \<not> b64_text base64url then Inl invalid_key_digest
      else let bytes = publicKeyBytes base64url; hex = hex_of bytes in
        if length bytes \<noteq> 32 then Inl invalid_key_digest
        else bindE (digestBase64url hex) (\<lambda>again.
          if again \<noteq> base64url then Inl invalid_key_digest else Inr hex))"

definition sameKeyDigest :: "string option \<Rightarrow> string \<Rightarrow> bool" where
  "sameKeyDigest hex base64url =
     (case hex of None \<Rightarrow> False
      | Some h \<Rightarrow> (case digestHex base64url of Inl _ \<Rightarrow> False | Inr h' \<Rightarrow> h' = h))"

section \<open>Fingerprints and words\<close>

definition invalid_identity_key :: crypto_error where
  "invalid_identity_key = CryptoError ''Invalid identity key.''"

text \<open>\<open>hex.match(/.{4}/g).join(' ')\<close>\<close>

fun spaced :: "string \<Rightarrow> string" where
  "spaced (a # b # c # d # e # r) = a # b # c # d # CHR '' '' # spaced (e # r)"
| "spaced s = s"

definition fingerprint :: "primitives \<Rightarrow> bytes \<Rightarrow> bytes \<Rightarrow> bytes \<Rightarrow> bytes \<Rightarrow> crypto_error + string" where
  "fingerprint P encryptionPublicKey signingPublicKey mlDsaPublicKeyDigest kemPublicKeyDigest =
     (if length encryptionPublicKey \<noteq> 32 \<or> length signingPublicKey \<noteq> 32
         \<or> length mlDsaPublicKeyDigest \<noteq> 32 \<or> length kemPublicKeyDigest \<noteq> 32
      then Inl invalid_identity_key
      else let input = text_encode ''hushos/identity/fingerprint/v3'' @ encryptionPublicKey
             @ signingPublicKey @ mlDsaPublicKeyDigest @ kemPublicKeyDigest
        in Inr (spaced (hex_of (take 20 (sha256 P input)))))"

definition fingerprintOfKeys :: "primitives \<Rightarrow> bytes \<Rightarrow> bytes \<Rightarrow> bytes \<Rightarrow> bytes \<Rightarrow> crypto_error + string" where
  "fingerprintOfKeys P encryptionPublicKey signingPublicKey mlDsaPublicKey kemPublicKey =
     (if length mlDsaPublicKey \<noteq> 1952 \<or> length kemPublicKey \<noteq> 1184 then Inl invalid_identity_key
      else bindE (hexBytes (keyDigest P mlDsaPublicKey)) (\<lambda>mlDsa.
        bindE (hexBytes (keyDigest P kemPublicKey)) (\<lambda>kem.
          fingerprint P encryptionPublicKey signingPublicKey mlDsa kem)))"

definition FINGERPRINT_WORDS :: nat where
  "FINGERPRINT_WORDS = 12"

text \<open>\<open>BigInt('0x' + hex)\<close>\<close>

definition hex_value :: "string \<Rightarrow> nat" where
  "hex_value s = foldl (\<lambda>n c. 16 * n + hex_val c) 0 s"

text \<open>The loop: eleven bits at a time from the low end, each word put in front of the others.\<close>

fun words_loop :: "string list \<Rightarrow> nat \<Rightarrow> nat \<Rightarrow> string list \<Rightarrow> string list" where
  "words_loop list 0 bits words = words"
| "words_loop list (Suc left) bits words =
     words_loop list left (bits div 2048) (list ! (bits mod 2048) # words)"

definition fingerprintWords :: "primitives \<Rightarrow> string \<Rightarrow> crypto_error + string list" where
  "fingerprintWords P print =
     (let hex = filter (\<lambda>c. c \<noteq> CHR '' '') print in
      if length hex \<noteq> 40 \<or> \<not> list_all hex_char hex then Inl (CryptoError ''Invalid fingerprint.'')
      else Inr (words_loop (wordlist P) FINGERPRINT_WORDS (hex_value hex div 2 ^ 28) []))"

section \<open>Derived ids (ids.ts)\<close>

definition ID_SEED_BYTES :: nat where
  "ID_SEED_BYTES = 16"

definition KINDS :: "string list" where
  "KINDS = [''node'', ''version'', ''object'', ''link'', ''report'', ''group'', ''workspace'']"

definition uuidV8 :: "bytes \<Rightarrow> string" where
  "uuidV8 hash =
     (let bytes = take 16 hash;
          bytes = bytes[6 := (bytes ! 6 AND 0x0f) OR 0x80];
          bytes = bytes[8 := (bytes ! 8 AND 0x3f) OR 0x80];
          hex = hex_of bytes
      in take 8 hex @ CHR ''-'' # take 4 (drop 8 hex) @ CHR ''-'' # take 4 (drop 12 hex)
         @ CHR ''-'' # take 4 (drop 16 hex) @ CHR ''-'' # drop 20 hex)"

text \<open>\<open>toLowerCase\<close> on the strings of this model (U+0000 to U+00FF).\<close>

definition toLowerCase :: "string \<Rightarrow> string" where
  "toLowerCase s =
     map (\<lambda>c. let n = (of_char c :: nat) in
       if (65 \<le> n \<and> n \<le> 90) \<or> (192 \<le> n \<and> n \<le> 222 \<and> n \<noteq> 215) then char_of (n + 32) else c) s"

definition id_statement :: "string \<Rightarrow> string \<Rightarrow> string \<Rightarrow> bytes" where
  "id_statement kind scopeId seed =
     text_encode (stringify (JArr
       [JStr ''hushos/id'', JNum 1, JStr kind, JStr (toLowerCase scopeId), JStr seed]))"

definition deriveId :: "primitives \<Rightarrow> string \<Rightarrow> string \<Rightarrow> string \<Rightarrow> crypto_error + string" where
  "deriveId P kind scopeId seed =
     (if kind \<notin> set KINDS then Inl (CryptoError ''Invalid id kind.'')
      else if scopeId = [] then Inl (CryptoError ''Invalid scope id.'')
      else (case decode seed (Some ID_SEED_BYTES) of
         Inl _ \<Rightarrow> Inl (CryptoError ''Invalid id seed.'')
       | Inr _ \<Rightarrow> Inr (uuidV8 (sha256 P (id_statement kind scopeId seed)))))"

definition ID_NOT_DERIVED :: crypto_error where
  "ID_NOT_DERIVED = CryptoError ''This id was not made for this workspace or group.''"

definition checkId :: "primitives \<Rightarrow> string \<Rightarrow> string \<Rightarrow> string \<Rightarrow> string \<Rightarrow> crypto_error + string" where
  "checkId P kind scopeId seed given =
     (case deriveId P kind scopeId seed of
        Inl _ \<Rightarrow> Inl ID_NOT_DERIVED
      | Inr derived \<Rightarrow> if derived \<noteq> given then Inl ID_NOT_DERIVED else Inr given)"

section \<open>Lemmas: hex\<close>

lemma hex_digit_facts [simp]:
  assumes "d < 16"
  shows "hex_val (hex_digit d) = d" "hex_char (hex_digit d)"
  using assms by (auto simp: hex_val_def hex_digit_def hex_char_def Let_def)

lemma hex_char_facts:
  assumes "hex_char c"
  shows "hex_val c < 16" "hex_digit (hex_val c) = c"
proof -
  have n: "c = char_of (of_char c :: nat)" by simp
  from assms show "hex_val c < 16" by (auto simp: hex_char_def hex_val_def Let_def)
  from assms show "hex_digit (hex_val c) = c"
    by (subst (2) n) (auto simp: hex_char_def hex_val_def hex_digit_def Let_def)
qed

lemma hex_of_simps [simp]: "hex_of [] = []" "hex_of (b # bs) = hex_digit (unat b div 16) # hex_digit (unat b mod 16) # hex_of bs"
  by (simp_all add: hex_of_def hex_byte_def)

lemma byte_halves: "unat (b :: byte) div 16 < 16" "16 * (unat b div 16) + unat b mod 16 = unat b"
  using unat_byte [of b] by (auto simp: div_less_iff_less_mult)

lemma hex_pairs_of [simp]: "hex_pairs (hex_of bs) = bs"
  by (induction bs) (simp_all add: byte_halves del: unat_byte)

lemma length_hex_of [simp]: "length (hex_of bs) = 2 * length bs"
  by (induction bs) auto

lemma hex_of_chars [simp]: "list_all hex_char (hex_of bs)"
  by (induction bs) (auto simp: byte_halves)

lemma length_hex_pairs [simp]: "length (hex_pairs s) = length s div 2"
  by (induction s rule: hex_pairs.induct) auto

lemma hex_of_pairs: "even (length s) \<Longrightarrow> list_all hex_char s \<Longrightarrow> hex_of (hex_pairs s) = s"
proof (induction s rule: hex_pairs.induct)
  case (1 c d r)
  then have c: "hex_val c < 16" "hex_val d < 16" "hex_digit (hex_val c) = c" "hex_digit (hex_val d) = d"
    by (auto simp: hex_char_facts)
  then have "unat (of_nat (16 * hex_val c + hex_val d) :: byte) = 16 * hex_val c + hex_val d"
    by (subst unat_of_nat) (auto intro: mod_less)
  with 1 c show ?case by simp
qed auto

section \<open>Lemmas: digests\<close>

lemma hexBytes_Inr [returns]:
  "hexBytes hex = Inr bs \<longleftrightarrow> length bs = 32 \<and> hex = hex_of bs"
  by (auto simp: hexBytes_def hex_of_pairs)

lemma digestBase64url_Inr [returns]:
  "digestBase64url hex = Inr s \<longleftrightarrow> (\<exists>bs. length bs = 32 \<and> hex = hex_of bs \<and> s = encode bs)"
  by (auto simp: digestBase64url_def returns)

lemma digestHex_Inr [returns]:
  "digestHex s = Inr hex \<longleftrightarrow> (\<exists>bs. length bs = 32 \<and> hex = hex_of bs \<and> s = encode bs)"
proof
  assume "digestHex s = Inr hex"
  then show "\<exists>bs. length bs = 32 \<and> hex = hex_of bs \<and> s = encode bs"
    by (auto simp: digestHex_def Let_def returns dest: arg_cong [of _ _ hex_pairs])
next
  assume "\<exists>bs. length bs = 32 \<and> hex = hex_of bs \<and> s = encode bs"
  then obtain bs where b: "length bs = 32" "hex = hex_of bs" "s = encode bs" by blast
  then have "publicKeyBytes s = bs" by (simp add: publicKeyBytes_def atob_encode)
  moreover have "digestBase64url hex = Inr s" using b by (auto simp: digestBase64url_Inr)
  ultimately show "digestHex s = Inr hex"
    using b encode_text [of bs] encode_length [of bs] by (simp add: digestHex_def)
qed

text \<open>A 32-byte digest has one hex and one base64url spelling, and the conversions are inverse.\<close>

interpretation key_digest: codec digestBase64url digestHex
  by unfold_locales (simp_all add: digestBase64url_Inr digestHex_Inr)

lemma sameKeyDigest_iff: "sameKeyDigest (Some hex) s \<longleftrightarrow> digestHex s = Inr hex"
  by (auto simp: sameKeyDigest_def split: sum.splits)

lemma digest_keyDigest:
  "sha256_32 P \<Longrightarrow> sameKeyDigest (Some (keyDigest P k)) (digest P k)"
  by (auto simp: sameKeyDigest_iff digestHex_Inr keyDigest_def digest_def sha256_32_def)

lemma digest_decodes: "sha256_32 P \<Longrightarrow> decode (digest P b) (Some 32) = Inr (sha256 P b)"
  by (auto simp: digest_def decode_Inr sha256_32_def)
    (metis list.size(3) zero_neq_numeral)

section \<open>Lemmas: words\<close>

lemma hex_value_append: "hex_value (s @ t) = hex_value s * 16 ^ length t + hex_value t"
proof (induction t rule: rev_induct)
  case Nil
  then show ?case by (simp add: hex_value_def)
next
  case (snoc c t)
  have "hex_value (s @ t @ [c]) = 16 * hex_value (s @ t) + hex_val c"
    by (simp add: hex_value_def)
  moreover have "hex_value (t @ [c]) = 16 * hex_value t + hex_val c"
    by (simp add: hex_value_def)
  ultimately show ?case using snoc by (simp add: algebra_simps)
qed

lemma hex_value_snoc: "hex_value (s @ [c]) = 16 * hex_value s + hex_val c"
  by (simp add: hex_value_def)

lemma hex_value_lt: "list_all hex_char s \<Longrightarrow> hex_value s < 16 ^ length s"
proof (induction s rule: rev_induct)
  case Nil
  then show ?case by (simp add: hex_value_def)
next
  case (snoc c s)
  then have "hex_value s < 16 ^ length s" "hex_val c < 16" by (auto simp: hex_char_facts)
  then show ?case by (simp add: hex_value_snoc)
qed

lemma hex_value_inj:
  "list_all hex_char s \<Longrightarrow> list_all hex_char t \<Longrightarrow> length s = length t \<Longrightarrow>
     hex_value s = hex_value t \<Longrightarrow> s = t"
proof (induction s arbitrary: t rule: rev_induct)
  case Nil
  then show ?case by simp
next
  case (snoc c s)
  then obtain d u where t: "t = u @ [d]" by (cases t rule: rev_cases) auto
  with snoc.prems have c: "hex_val c < 16" "hex_val d < 16" by (auto simp: hex_char_facts)
  from snoc.prems t have "16 * hex_value s + hex_val c = 16 * hex_value u + hex_val d"
    by (simp add: hex_value_snoc)
  with digit_div_mod [OF c(1), of "hex_value s"] digit_div_mod [OF c(2), of "hex_value u"]
  have "hex_value s = hex_value u" "hex_val c = hex_val d" by (metis mult.commute)+
  moreover have "hex_digit (hex_val c) = c" "hex_digit (hex_val d) = d"
    using snoc.prems t by (simp_all add: hex_char_facts)
  ultimately have "c = d" by metis
  moreover have "s = u"
    using snoc.prems t \<open>hex_value s = hex_value u\<close> by (intro snoc.IH) auto
  ultimately show ?case using t by simp
qed

lemma words_loop_inj:
  assumes "distinct list" "length list = 2048"
  shows "words_loop list k b ws = words_loop list k b' ws' \<Longrightarrow> length ws = length ws' \<Longrightarrow>
     b < 2048 ^ k \<Longrightarrow> b' < 2048 ^ k \<Longrightarrow> b = b' \<and> ws = ws'"
proof (induction k arbitrary: b b' ws ws')
  case 0
  then show ?case by simp
next
  case (Suc k)
  have "b div 2048 < 2048 ^ k" "b' div 2048 < 2048 ^ k"
    using Suc.prems(3,4) by (simp_all add: div_less_iff_less_mult mult.commute)
  with Suc.IH [of "b div 2048" "list ! (b mod 2048) # ws" "b' div 2048" "list ! (b' mod 2048) # ws'"]
    Suc.prems(1,2)
  have h: "b div 2048 = b' div 2048" "list ! (b mod 2048) = list ! (b' mod 2048)" "ws = ws'"
    by auto
  then have "b mod 2048 = b' mod 2048"
    using assms by (simp add: nth_eq_iff_index_eq)
  with h show ?case by (metis div_mult_mod_eq)
qed

lemma words_loop_length: "length (words_loop list k b ws) = k + length ws"
  by (induction k arbitrary: b ws) auto

lemma words_loop_set:
  "length list = 2048 \<Longrightarrow> set (words_loop list k b ws) \<subseteq> set list \<union> set ws"
proof (induction k arbitrary: b ws)
  case (Suc k)
  then show ?case using Suc.IH [of "b div 2048" "list ! (b mod 2048) # ws"] by auto
qed simp

lemma fingerprintWords_Inr:
  "fingerprintWords P s = Inr ws \<longleftrightarrow>
    (let hex = filter (\<lambda>c. c \<noteq> CHR '' '') s in length hex = 40 \<and> list_all hex_char hex
      \<and> ws = words_loop (wordlist P) 12 (hex_value hex div 2 ^ 28) [])"
  by (auto simp: fingerprintWords_def Let_def FINGERPRINT_WORDS_def)

lemma bits_of_print:
  assumes "length h = 40" "list_all hex_char h"
  shows "hex_value h div 2 ^ 28 = hex_value (take 33 h)" "hex_value h div 2 ^ 28 < 2048 ^ 12"
proof -
  have h: "h = take 33 h @ drop 33 h" by simp
  from assms have d: "list_all hex_char (drop 33 h)" "list_all hex_char (take 33 h)"
    by (auto simp: list_all_iff dest: in_set_takeD in_set_dropD)
  from hex_value_lt [OF d(1)] assms(1) have lt: "hex_value (drop 33 h) < 2 ^ 28" by simp
  have "hex_value h = hex_value (take 33 h) * 2 ^ 28 + hex_value (drop 33 h)"
    using assms(1) hex_value_append [of "take 33 h" "drop 33 h"] by simp
  with lt show v: "hex_value h div 2 ^ 28 = hex_value (take 33 h)" by simp
  from hex_value_lt [OF d(2)] assms(1) show "hex_value h div 2 ^ 28 < 2048 ^ 12"
    unfolding v by simp
qed

section \<open>Lemmas: derived ids\<close>

lemma hex_of_append: "hex_of (xs @ ys) = hex_of xs @ hex_of ys"
  by (simp add: hex_of_def)

lemma is_uuid_append:
  assumes "length a = 8" "length b = 4" "length c = 4" "length d = 4" "length e = 12"
    and "list_all hex_char a" "list_all hex_char b" "list_all hex_char c" "list_all hex_char d"
      "list_all hex_char e"
  shows "is_uuid (a @ CHR ''-'' # b @ CHR ''-'' # c @ CHR ''-'' # d @ CHR ''-'' # e)"
proof -
  have dash: "\<not> hex_char (CHR ''-'')" by (simp add: hex_char_def)
  from assms obtain a0 a1 a2 a3 a4 a5 a6 a7 where a: "a = [a0, a1, a2, a3, a4, a5, a6, a7]"
    by (auto simp: length_Suc_conv eval_nat_numeral)
  from assms obtain b0 b1 b2 b3 where b: "b = [b0, b1, b2, b3]"
    by (auto simp: length_Suc_conv eval_nat_numeral)
  from assms obtain c0 c1 c2 c3 where c: "c = [c0, c1, c2, c3]"
    by (auto simp: length_Suc_conv eval_nat_numeral)
  from assms obtain d0 d1 d2 d3 where d: "d = [d0, d1, d2, d3]"
    by (auto simp: length_Suc_conv eval_nat_numeral)
  from assms obtain e0 e1 e2 e3 e4 e5 e6 e7 e8 e9 ea eb
    where e: "e = [e0, e1, e2, e3, e4, e5, e6, e7, e8, e9, ea, eb]"
    by (auto simp: length_Suc_conv eval_nat_numeral)
  from assms(6-10) show ?thesis
    by (simp add: is_uuid_def a b c d e)
qed

lemma hex_take_drop: "list_all hex_char (take n (drop m (hex_of bs)))" "list_all hex_char (take n (hex_of bs))"
    "list_all hex_char (drop m (hex_of bs))"
  using hex_of_chars [of bs] by (auto simp: list_all_iff dest: in_set_takeD in_set_dropD)

lemma uuidV8_is_uuid: "16 \<le> length hash \<Longrightarrow> is_uuid (uuidV8 hash)"
  unfolding uuidV8_def Let_def
  by (rule is_uuid_append) (simp_all add: hex_take_drop)

section \<open>Sample data\<close>

text \<open>
  Concrete primitives and statements for the witnesses: a word list of 2,048 numerals, and a hash
  that keeps a statement's last 32 bytes.
\<close>

definition sample_hash :: "bytes \<Rightarrow> bytes" where
  "sample_hash b = take 32 (rev b @ replicate 32 0)"

definition sample_primitives :: primitives where
  "sample_primitives = \<lparr> sha256 = sample_hash, hkdf = (\<lambda>key salt info. sample_hash (rev key)),
     crypto_sign_verify_detached = (\<lambda>sig msg key. sig = [1]),
     ml_dsa65_verify = (\<lambda>sig msg key ctx. sig = [1]),
     wordlist = map decimal [0..<2048] \<rparr>"

lemma sample_hash_length [simp]: "length (sample_hash b) = 32"
  by (simp add: sample_hash_def)

lemma sample_ok: "sha256_32 sample_primitives" "hkdf_32 sample_primitives" "wordlist_ok sample_primitives"
proof -
  show "sha256_32 sample_primitives" "hkdf_32 sample_primitives"
    by (simp_all add: sha256_32_def hkdf_32_def sample_primitives_def)
  have "inj decimal" by (rule injI) (metis decimal_value)
  then show "wordlist_ok sample_primitives"
    by (simp add: wordlist_ok_def sample_primitives_def distinct_map inj_on_def)
qed

section \<open>Properties\<close>

text \<open>Twelve words say as much as the first 33 hex digits of a print: two prints give the same
  words exactly when their first 132 bits agree, spaces aside.\<close>

theorem words_decide_the_print:
  assumes "wordlist_ok P"
    and "fingerprintWords P s = Inr ws" "fingerprintWords P t = Inr vs"
  shows "ws = vs \<longleftrightarrow> take 33 (filter (\<lambda>c. c \<noteq> CHR '' '') s) = take 33 (filter (\<lambda>c. c \<noteq> CHR '' '') t)"
proof -
  let ?s = "filter (\<lambda>c. c \<noteq> CHR '' '') s" and ?t = "filter (\<lambda>c. c \<noteq> CHR '' '') t"
  from assms have s: "length ?s = 40" "list_all hex_char ?s" "ws = words_loop (wordlist P) 12 (hex_value ?s div 2 ^ 28) []"
    and t: "length ?t = 40" "list_all hex_char ?t" "vs = words_loop (wordlist P) 12 (hex_value ?t div 2 ^ 28) []"
    unfolding fingerprintWords_Inr Let_def by blast+
  have w: "distinct (wordlist P)" "length (wordlist P) = 2048"
    using assms(1) by (simp_all add: wordlist_ok_def)
  have hex: "list_all hex_char (take 33 ?s)" "list_all hex_char (take 33 ?t)"
    using s(2) t(2) by (auto simp: list_all_iff dest: in_set_takeD)
  have "ws = vs \<longleftrightarrow> hex_value ?s div 2 ^ 28 = hex_value ?t div 2 ^ 28"
    using words_loop_inj [OF w, of 12 _ "[]" _ "[]"] bits_of_print(2) [OF s(1,2)] bits_of_print(2) [OF t(1,2)]
    unfolding s(3) t(3) by (metis (no_types, lifting))
  also have "\<dots> \<longleftrightarrow> take 33 ?s = take 33 ?t"
    unfolding bits_of_print(1) [OF s(1,2)] bits_of_print(1) [OF t(1,2)]
    using hex_value_inj [OF hex] s(1) t(1) by auto
  finally show ?thesis .
qed

lemma sample_words:
  "\<exists>ws. fingerprintWords sample_primitives (replicate 40 CHR ''a'') = Inr ws"
  "\<exists>ws. fingerprintWords sample_primitives (replicate 33 CHR ''a'' @ replicate 7 CHR ''0'') = Inr ws"
  by (simp_all add: fingerprintWords_Inr Let_def hex_char_def list_all_iff)

theorem words_decide_the_print_witness:
  "fingerprintWords sample_primitives (replicate 40 CHR ''a'')
     = fingerprintWords sample_primitives (replicate 33 CHR ''a'' @ replicate 7 CHR ''0'')"
proof -
  obtain ws vs where s: "fingerprintWords sample_primitives (replicate 40 CHR ''a'') = Inr ws"
    "fingerprintWords sample_primitives (replicate 33 CHR ''a'' @ replicate 7 CHR ''0'') = Inr vs"
    using sample_words by blast
  have "take 33 (filter (\<lambda>c. c \<noteq> CHR '' '') (replicate 40 CHR ''a''))
      = take 33 (filter (\<lambda>c. c \<noteq> CHR '' '') (replicate 33 CHR ''a'' @ replicate 7 CHR ''0''))"
    by simp
  with words_decide_the_print [OF sample_ok(3) s] have "ws = vs" by blast
  with s show ?thesis by simp
qed


lemma high_nibble: "unat (x :: byte) div 16 = unat (drop_bit 4 x)"
  using drop_bit_eq_div [of 4 "unat x"] unat_drop_bit_eq [of 4 x] by simp

lemma version_nibble: "unat ((b AND 0x0f) OR 0x80 :: byte) div 16 = 8"
proof -
  have "drop_bit 4 ((b AND 0x0f) OR 0x80 :: byte) = 8"
    by simp
  then show ?thesis unfolding high_nibble by simp
qed

lemma unat_eq_small: "unat (x :: byte) = n \<Longrightarrow> n < 256 \<Longrightarrow> (x = of_nat n \<Longrightarrow> Q) \<Longrightarrow> Q"
  using word_unat_eq_iff [of x "of_nat n"] by (simp add: unat_of_nat)

lemma variant_nibble: "unat ((b AND 0x3f) OR 0x80 :: byte) div 16 \<in> {8, 9, 10, 11}"
proof -
  have d: "drop_bit 4 ((b AND 0x3f) OR 0x80 :: byte) = (drop_bit 4 b AND mask 2) OR 8"
    by (simp add: mask_eq_decr_exp)
  have "unat (drop_bit 4 b AND mask 2) < 4"
    by (simp add: take_bit_eq_mask [symmetric] unsigned_take_bit_eq take_bit_nat_def)
  then have "unat (drop_bit 4 b AND mask 2) \<in> {0, 1, 2, 3}" by auto
  then have "drop_bit 4 b AND mask 2 \<in> {0, 1, 2, 3}"
    by (auto simp: unat_eq_zero elim!: unat_eq_small)
  then show ?thesis unfolding high_nibble d by auto
qed

lemma hex_of_nth: "i < length bs \<Longrightarrow> hex_of bs ! (2 * i) = hex_digit (unat (bs ! i) div 16)"
proof (induction bs arbitrary: i)
  case (Cons b bs)
  then show ?case by (cases i) auto
qed simp

lemma uuidV8_marks:
  assumes "16 \<le> length hash"
  shows "uuidV8 hash ! 14 = hex_digit (unat ((hash ! 6 AND 0x0f) OR 0x80) div 16)"
    "uuidV8 hash ! 19 = hex_digit (unat ((hash ! 8 AND 0x3f) OR 0x80) div 16)"
proof -
  define bytes where "bytes = (take 16 hash)[6 := (hash ! 6 AND 0x0f) OR 0x80, 8 := (hash ! 8 AND 0x3f) OR 0x80]"
  have l: "length (hex_of bytes) = 32" and n: "length bytes = 16" using assms by (simp_all add: bytes_def)
  have u: "uuidV8 hash = take 8 (hex_of bytes) @ CHR ''-'' # take 4 (drop 8 (hex_of bytes)) @ CHR ''-''
      # take 4 (drop 12 (hex_of bytes)) @ CHR ''-'' # take 4 (drop 16 (hex_of bytes)) @ CHR ''-''
      # drop 20 (hex_of bytes)"
    using assms by (simp add: uuidV8_def Let_def bytes_def)
  have "uuidV8 hash ! 14 = hex_of bytes ! (2 * 6)" "uuidV8 hash ! 19 = hex_of bytes ! (2 * 8)"
    unfolding u using l by (simp_all add: nth_append)
  with hex_of_nth [of 6 bytes] hex_of_nth [of 8 bytes] n assms
  show "uuidV8 hash ! 14 = hex_digit (unat ((hash ! 6 AND 0x0f) OR 0x80) div 16)"
    "uuidV8 hash ! 19 = hex_digit (unat ((hash ! 8 AND 0x3f) OR 0x80) div 16)"
    by (simp_all add: bytes_def)
qed

lemma hex_digit_values: "hex_digit 8 = CHR ''8''" "hex_digit 9 = CHR ''9''" "hex_digit 10 = CHR ''a''"
    "hex_digit 11 = CHR ''b''"
  by (simp_all add: hex_digit_def char_of_def bit_0)

text \<open>C40. A derived id is a lower-case UUID of version 8 and the RFC 9562 variant.\<close>

theorem derived_id_is_uuid:
  assumes "sha256_32 P" and "deriveId P knd scope seed = Inr did"
  shows "is_uuid did \<and> did ! 14 = CHR ''8'' \<and> did ! 19 \<in> {CHR ''8'', CHR ''9'', CHR ''a'', CHR ''b''}"
proof -
  let ?hash = "sha256 P (id_statement knd scope seed)"
  from assms have d: "did = uuidV8 ?hash" and l: "16 \<le> length ?hash"
    by (auto simp: deriveId_def sha256_32_def split: if_splits sum.splits)
  have "did ! 14 = CHR ''8''" unfolding d uuidV8_marks(1) [OF l] version_nibble
    by (rule hex_digit_values)
  moreover have "did ! 19 \<in> {CHR ''8'', CHR ''9'', CHR ''a'', CHR ''b''}"
    unfolding d uuidV8_marks(2) [OF l] using variant_nibble [of "?hash ! 8"]
    using hex_digit_values by auto
  ultimately show ?thesis using uuidV8_is_uuid [OF l] d by simp
qed

theorem derived_id_is_uuid_witness:
  "\<exists>did. deriveId sample_primitives ''node'' ''scope'' (encode (replicate 16 7)) = Inr did \<and> is_uuid did"
proof -
  have "decode (encode (replicate 16 (7 :: byte))) (Some ID_SEED_BYTES) = Inr (replicate 16 7)"
    by (simp add: decode_Inr ID_SEED_BYTES_def)
  then obtain did where "deriveId sample_primitives ''node'' ''scope'' (encode (replicate 16 7)) = Inr did"
    by (simp add: deriveId_def KINDS_def)
  with derived_id_is_uuid [OF sample_ok(1) this] show ?thesis by blast
qed

text \<open>Of the 32 bytes of a digest there is one hex spelling (pins) and one base64url spelling
  (statements), and \<open>digestHex\<close> and \<open>digestBase64url\<close> take each to the other, refusing any other text.\<close>

theorem digest_spellings:
  "(digestHex s = Inr hex \<longleftrightarrow> digestBase64url hex = Inr s)
   \<and> (digestHex s = Inr hex \<longleftrightarrow> (\<exists>bs. length bs = 32 \<and> hex = hex_of bs \<and> s = encode bs))"
  using key_digest.reads_iff_writes [of s hex] digestHex_Inr [of s hex] by blast

end
