(* ===== verification/Signatures.thy ===== *)
theory Signatures
  imports Fingerprint
begin

text \<open>
  \<open>packages/crypto/src/signatures.ts\<close>, with \<open>mlDsaVerify\<close> of \<open>pq.ts\<close> and \<open>verifyIdentityKeys\<close> of
  \<open>identity.ts\<close>: the statements identities and drive records are signed over, the hybrid
  signature, and what a reader shows for one record (\<open>integrityOf\<close>). Here a statement is the text
  of its parts as they are (no grammar is asked of the ids), so that two statements with the same
  bytes say the same is a lemma about \<open>JSON.stringify\<close> itself, escapes included.
\<close>

section \<open>Lengths and contexts\<close>

definition SIGNATURE_BYTES :: nat where
  "SIGNATURE_BYTES = 64"

definition SIGNING_PUBLIC_KEY_BYTES :: nat where
  "SIGNING_PUBLIC_KEY_BYTES = 32"

definition ML_DSA_PUBLIC_KEY_BYTES :: nat where
  "ML_DSA_PUBLIC_KEY_BYTES = 1952"

definition ML_DSA_SIGNATURE_BYTES :: nat where
  "ML_DSA_SIGNATURE_BYTES = 3309"

definition HYBRID_SIGNATURE_BYTES :: nat where
  "HYBRID_SIGNATURE_BYTES = SIGNATURE_BYTES + ML_DSA_SIGNATURE_BYTES"

definition IDENTITY_SIGNATURE_CONTEXT :: string where
  "IDENTITY_SIGNATURE_CONTEXT = ''hushos/identity/v1''"

section \<open>Signatures\<close>

definition verifyStatement :: "primitives \<Rightarrow> bytes \<Rightarrow> bytes \<Rightarrow> bytes \<Rightarrow> bool" where
  "verifyStatement P message signature signingPublicKey =
     (if length signature \<noteq> SIGNATURE_BYTES \<or> length signingPublicKey \<noteq> SIGNING_PUBLIC_KEY_BYTES
      then False else crypto_sign_verify_detached P signature message signingPublicKey)"

definition mlDsaVerify :: "primitives \<Rightarrow> bytes \<Rightarrow> bytes \<Rightarrow> bytes \<Rightarrow> string \<Rightarrow> bool" where
  "mlDsaVerify P signature message publicKey context =
     (if length signature \<noteq> ML_DSA_SIGNATURE_BYTES \<or> length publicKey \<noteq> ML_DSA_PUBLIC_KEY_BYTES
      then False else ml_dsa65_verify P signature message publicKey (text_encode context))"

record hybrid_public_key =
  h_signingPublicKey :: bytes
  h_mlDsaPublicKey :: bytes

definition verifyHybrid :: "primitives \<Rightarrow> bytes \<Rightarrow> bytes \<Rightarrow> hybrid_public_key \<Rightarrow> bool" where
  "verifyHybrid P message signature ks =
     (if length signature \<noteq> HYBRID_SIGNATURE_BYTES then False
      else let classical = take SIGNATURE_BYTES signature; lattice = drop SIGNATURE_BYTES signature in
        verifyStatement P message classical (h_signingPublicKey ks)
        \<and> mlDsaVerify P lattice message (h_mlDsaPublicKey ks) IDENTITY_SIGNATURE_CONTEXT)"

section \<open>Statement fields\<close>

definition text_field :: "string \<Rightarrow> string \<Rightarrow> crypto_error + string" where
  "text_field value what = (if value = [] then Inl (invalid what) else Inr (toLowerCase value))"

definition count_field :: "int \<Rightarrow> string \<Rightarrow> crypto_error + int" where
  "count_field value what = (if \<not> isSafeInteger value \<or> value < 1 then Inl (invalid what) else Inr value)"

definition suite :: "int \<Rightarrow> crypto_error + int" where
  "suite value =
     bindE (count_field value ''content suite'') (\<lambda>n.
       if n > 0xffffffff then Inl (invalid ''content suite'') else Inr value)"

definition statement_bytes :: "json list \<Rightarrow> bytes" where
  "statement_bytes parts = text_encode (stringify (JArr parts))"

definition key_field :: "string \<Rightarrow> nat \<Rightarrow> crypto_error + string" where
  "key_field value len = bindE (decode value (Some len)) (\<lambda>_. Inr value)"

section \<open>Drive records\<close>

datatype signature_form = OrdinaryForm | SavedForm | ResealedForm

record metadata_statement =
  m_workspaceId :: string
  m_nodeId :: string
  m_kind :: string
  metadataVersion :: int

record version_statement =
  v_workspaceId :: string
  v_nodeId :: string
  v_versionId :: string
  v_objectId :: string
  contentSuite :: int

record share_statement =
  sh_workspaceId :: string
  sh_nodeId :: string
  sh_keyEpoch :: int
  sh_granteeUserId :: string
  sh_granterUserId :: string

definition METADATA_DOMAIN :: string where
  "METADATA_DOMAIN = ''hushos/drive/sig/metadata''"
definition VERSION_DOMAIN :: string where
  "VERSION_DOMAIN = ''hushos/drive/sig/version''"
definition METADATA_RESEALED_DOMAIN :: string where
  "METADATA_RESEALED_DOMAIN = ''hushos/drive/sig/metadata-resealed''"
definition VERSION_RESEALED_DOMAIN :: string where
  "VERSION_RESEALED_DOMAIN = ''hushos/drive/sig/version-resealed''"
definition METADATA_SAVED_DOMAIN :: string where
  "METADATA_SAVED_DOMAIN = ''hushos/drive/sig/metadata-saved''"
definition VERSION_SAVED_DOMAIN :: string where
  "VERSION_SAVED_DOMAIN = ''hushos/drive/sig/version-saved''"
definition METADATA_REKEYED_DOMAIN :: string where
  "METADATA_REKEYED_DOMAIN = ''hushos/drive/sig/metadata-rekeyed''"
definition VERSION_REKEYED_DOMAIN :: string where
  "VERSION_REKEYED_DOMAIN = ''hushos/drive/sig/version-rekeyed''"
definition SAVED_FROM_LINK :: string where
  "SAVED_FROM_LINK = ''link''"

definition invalid_node_kind :: crypto_error where
  "invalid_node_kind = CryptoError ''Invalid node kind.''"

definition node_kind :: "string \<Rightarrow> bool" where
  "node_kind k \<longleftrightarrow> k = ''folder'' \<or> k = ''file''"

definition metadataParts :: "primitives \<Rightarrow> string \<Rightarrow> metadata_statement \<Rightarrow> bytes \<Rightarrow> crypto_error + bytes" where
  "metadataParts P domain ctx metadataEnvelope =
     (if \<not> node_kind (m_kind ctx) then Inl invalid_node_kind
      else bindE (text_field (m_workspaceId ctx) ''workspace id'') (\<lambda>wid.
        bindE (text_field (m_nodeId ctx) ''node id'') (\<lambda>nid.
        bindE (count_field (metadataVersion ctx) ''metadata version'') (\<lambda>version.
          Inr (statement_bytes
            ([JStr domain, JNum 1, JStr wid, JStr nid, JStr (m_kind ctx), JNum version,
              JStr (digest P metadataEnvelope)]
             @ (if domain = METADATA_SAVED_DOMAIN then [JStr SAVED_FROM_LINK] else [])))))))"

definition versionParts :: "primitives \<Rightarrow> string \<Rightarrow> version_statement \<Rightarrow> bytes \<Rightarrow> crypto_error + bytes" where
  "versionParts P domain ctx contentKeyEnvelope =
     bindE (text_field (v_workspaceId ctx) ''workspace id'') (\<lambda>wid.
     bindE (text_field (v_nodeId ctx) ''node id'') (\<lambda>nid.
     bindE (text_field (v_versionId ctx) ''version id'') (\<lambda>vid.
     bindE (text_field (v_objectId ctx) ''object id'') (\<lambda>oid.
     bindE (suite (contentSuite ctx)) (\<lambda>csuite.
       Inr (statement_bytes
         ([JStr domain, JNum 1, JStr wid, JStr nid, JStr vid, JStr oid, JNum csuite,
           JStr (digest P contentKeyEnvelope)]
          @ (if domain = VERSION_SAVED_DOMAIN then [JStr SAVED_FROM_LINK] else [])))))))) "

definition metadataStatement :: "primitives \<Rightarrow> metadata_statement \<Rightarrow> bytes \<Rightarrow> crypto_error + bytes" where
  "metadataStatement P = metadataParts P METADATA_DOMAIN"
definition metadataResealedStatement :: "primitives \<Rightarrow> metadata_statement \<Rightarrow> bytes \<Rightarrow> crypto_error + bytes" where
  "metadataResealedStatement P = metadataParts P METADATA_RESEALED_DOMAIN"
definition metadataSavedStatement :: "primitives \<Rightarrow> metadata_statement \<Rightarrow> bytes \<Rightarrow> crypto_error + bytes" where
  "metadataSavedStatement P = metadataParts P METADATA_SAVED_DOMAIN"
definition versionStatement :: "primitives \<Rightarrow> version_statement \<Rightarrow> bytes \<Rightarrow> crypto_error + bytes" where
  "versionStatement P = versionParts P VERSION_DOMAIN"
definition versionResealedStatement :: "primitives \<Rightarrow> version_statement \<Rightarrow> bytes \<Rightarrow> crypto_error + bytes" where
  "versionResealedStatement P = versionParts P VERSION_RESEALED_DOMAIN"
definition versionSavedStatement :: "primitives \<Rightarrow> version_statement \<Rightarrow> bytes \<Rightarrow> crypto_error + bytes" where
  "versionSavedStatement P = versionParts P VERSION_SAVED_DOMAIN"

fun metadataStatementAs :: "primitives \<Rightarrow> signature_form \<Rightarrow> metadata_statement \<Rightarrow> bytes \<Rightarrow> crypto_error + bytes" where
  "metadataStatementAs P SavedForm = metadataSavedStatement P"
| "metadataStatementAs P ResealedForm = metadataResealedStatement P"
| "metadataStatementAs P OrdinaryForm = metadataStatement P"

fun versionStatementAs :: "primitives \<Rightarrow> signature_form \<Rightarrow> version_statement \<Rightarrow> bytes \<Rightarrow> crypto_error + bytes" where
  "versionStatementAs P SavedForm = versionSavedStatement P"
| "versionStatementAs P ResealedForm = versionResealedStatement P"
| "versionStatementAs P OrdinaryForm = versionStatement P"

record statement_forms =
  f_ordinary :: bytes
  f_saved :: bytes
  f_resealed :: bytes

definition metadataStatements :: "primitives \<Rightarrow> metadata_statement \<Rightarrow> bytes \<Rightarrow> crypto_error + statement_forms" where
  "metadataStatements P ctx metadataEnvelope =
     bindE (metadataStatement P ctx metadataEnvelope) (\<lambda>o1.
     bindE (metadataSavedStatement P ctx metadataEnvelope) (\<lambda>s1.
     bindE (metadataResealedStatement P ctx metadataEnvelope) (\<lambda>r1.
       Inr \<lparr> f_ordinary = o1, f_saved = s1, f_resealed = r1 \<rparr>)))"

definition versionStatements :: "primitives \<Rightarrow> version_statement \<Rightarrow> bytes \<Rightarrow> crypto_error + statement_forms" where
  "versionStatements P ctx contentKeyEnvelope =
     bindE (versionStatement P ctx contentKeyEnvelope) (\<lambda>o1.
     bindE (versionSavedStatement P ctx contentKeyEnvelope) (\<lambda>s1.
     bindE (versionResealedStatement P ctx contentKeyEnvelope) (\<lambda>r1.
       Inr \<lparr> f_ordinary = o1, f_saved = s1, f_resealed = r1 \<rparr>)))"

definition shareStatement :: "primitives \<Rightarrow> share_statement \<Rightarrow> bytes \<Rightarrow> crypto_error + bytes" where
  "shareStatement P ctx sealed =
     bindE (text_field (sh_workspaceId ctx) ''workspace id'') (\<lambda>wid.
     bindE (text_field (sh_nodeId ctx) ''node id'') (\<lambda>nid.
     bindE (count_field (sh_keyEpoch ctx) ''key epoch'') (\<lambda>epoch.
     bindE (text_field (sh_granteeUserId ctx) ''user id'') (\<lambda>grantee.
     bindE (text_field (sh_granterUserId ctx) ''user id'') (\<lambda>granter.
       Inr (statement_bytes [JStr ''hushos/drive/sig/share'', JNum 4, JStr wid, JStr nid, JNum epoch,
         JStr grantee, JStr granter, JStr (digest P sealed)]))))))"

section \<open>Re-keyed records\<close>

record record_origin =
  o_envelope :: bytes
  o_signerId :: string
  o_signature :: bytes
  o_keyEnvelope :: bytes

definition rekeyedTail :: "primitives \<Rightarrow> int \<Rightarrow> bytes \<Rightarrow> record_origin \<Rightarrow> crypto_error + json list" where
  "rekeyedTail P keyEpoch envelope origin =
     bindE (count_field keyEpoch ''key epoch'') (\<lambda>epoch.
     bindE (text_field (o_signerId origin) ''user id'') (\<lambda>signer.
       Inr [JNum epoch, JStr (digest P envelope), JStr (digest P (o_envelope origin)), JStr signer,
            JStr (digest P (o_signature origin)), JStr (digest P (o_keyEnvelope origin))]))"

definition metadataRekeyedStatement ::
    "primitives \<Rightarrow> metadata_statement \<Rightarrow> int \<Rightarrow> bytes \<Rightarrow> record_origin \<Rightarrow> crypto_error + bytes" where
  "metadataRekeyedStatement P ctx keyEpoch metadataEnvelope origin =
     (if \<not> node_kind (m_kind ctx) then Inl invalid_node_kind
      else bindE (text_field (m_workspaceId ctx) ''workspace id'') (\<lambda>wid.
        bindE (text_field (m_nodeId ctx) ''node id'') (\<lambda>nid.
        bindE (count_field (metadataVersion ctx) ''metadata version'') (\<lambda>version.
        bindE (rekeyedTail P keyEpoch metadataEnvelope origin) (\<lambda>tail.
          Inr (statement_bytes ([JStr METADATA_REKEYED_DOMAIN, JNum 1, JStr wid, JStr nid,
            JStr (m_kind ctx), JNum version] @ tail)))))))"

definition versionRekeyedStatement ::
    "primitives \<Rightarrow> version_statement \<Rightarrow> int \<Rightarrow> bytes \<Rightarrow> record_origin \<Rightarrow> crypto_error + bytes" where
  "versionRekeyedStatement P ctx keyEpoch contentKeyEnvelope origin =
     bindE (text_field (v_workspaceId ctx) ''workspace id'') (\<lambda>wid.
     bindE (text_field (v_nodeId ctx) ''node id'') (\<lambda>nid.
     bindE (text_field (v_versionId ctx) ''version id'') (\<lambda>vid.
     bindE (text_field (v_objectId ctx) ''object id'') (\<lambda>oid.
     bindE (suite (contentSuite ctx)) (\<lambda>csuite.
     bindE (rekeyedTail P keyEpoch contentKeyEnvelope origin) (\<lambda>tail.
       Inr (statement_bytes ([JStr VERSION_REKEYED_DOMAIN, JNum 1, JStr wid, JStr nid, JStr vid,
         JStr oid, JNum csuite] @ tail))))))))"

section \<open>Identities\<close>

record identity_link =
  l_userId :: string
  oldKeyVersion :: int
  newKeyVersion :: int
  oldEncryptionPublicKey :: string
  oldSigningPublicKey :: string
  l_oldMlDsaPublicKey :: string
  newEncryptionPublicKey :: string
  newSigningPublicKey :: string
  l_newMlDsaPublicKey :: string
  newKemPublicKey :: string

datatype consent_role = OldRole | NewRole

fun consent_role_name :: "consent_role \<Rightarrow> string" where
  "consent_role_name OldRole = ''old''"
| "consent_role_name NewRole = ''new''"

definition successionFields :: "primitives \<Rightarrow> string \<Rightarrow> json list \<Rightarrow> identity_link \<Rightarrow> crypto_error + bytes" where
  "successionFields P domain head_parts link =
     bindE (count_field (oldKeyVersion link) ''key version'') (\<lambda>oldVersion.
       if \<not> isSafeInteger (newKeyVersion link) \<or> newKeyVersion link \<le> oldVersion
       then Inl (invalid ''key version'')
       else
         bindE (text_field (l_userId link) ''user id'') (\<lambda>uid.
         bindE (key_field (oldEncryptionPublicKey link) 32) (\<lambda>oldEnc.
         bindE (key_field (oldSigningPublicKey link) SIGNING_PUBLIC_KEY_BYTES) (\<lambda>oldSig.
         bindE (key_field (l_oldMlDsaPublicKey link) ML_DSA_PUBLIC_KEY_BYTES) (\<lambda>oldMl.
         bindE (key_field (newEncryptionPublicKey link) 32) (\<lambda>newEnc.
         bindE (key_field (newSigningPublicKey link) SIGNING_PUBLIC_KEY_BYTES) (\<lambda>newSig.
         bindE (key_field (l_newMlDsaPublicKey link) ML_DSA_PUBLIC_KEY_BYTES) (\<lambda>newMl.
         bindE (decode (newKemPublicKey link) (Some 1184)) (\<lambda>kem.
           Inr (statement_bytes ([JStr domain] @ head_parts
             @ [JStr uid, JNum oldVersion, JNum (newKeyVersion link), JStr oldEnc, JStr oldSig,
                JStr oldMl, JStr newEnc, JStr newSig, JStr newMl, JStr (digest P kem)])))))))))))"

definition successionStatement :: "primitives \<Rightarrow> identity_link \<Rightarrow> crypto_error + bytes" where
  "successionStatement P = successionFields P ''hushos/identity/succession'' [JNum 2]"

definition successionConsentStatement :: "primitives \<Rightarrow> identity_link \<Rightarrow> consent_role \<Rightarrow> crypto_error + bytes" where
  "successionConsentStatement P link role =
     successionFields P ''hushos/identity/succession-consent'' [JNum 1, JStr (consent_role_name role)] link"

text \<open>An identity as the server serves it (\<open>ServedKeys\<close>, and with the keys signature \<open>ServedIdentity\<close>).\<close>

record served_keys =
  sk_keyVersion :: int
  sk_encryptionPublicKey :: string
  sk_signingPublicKey :: string
  sk_mlDsaPublicKey :: string
  sk_kemPublicKey :: string

record served_identity = served_keys +
  keysSignature :: string

definition keysStatement :: "primitives \<Rightarrow> string \<Rightarrow> 'a served_keys_scheme \<Rightarrow> crypto_error + bytes" where
  "keysStatement P uid ks =
     bindE (text_field uid ''user id'') (\<lambda>who.
     bindE (count_field (sk_keyVersion ks) ''key version'') (\<lambda>version.
     bindE (key_field (sk_encryptionPublicKey ks) 32) (\<lambda>enc.
     bindE (key_field (sk_signingPublicKey ks) SIGNING_PUBLIC_KEY_BYTES) (\<lambda>sig.
     bindE (key_field (sk_mlDsaPublicKey ks) ML_DSA_PUBLIC_KEY_BYTES) (\<lambda>mlDsa.
     bindE (decode (sk_kemPublicKey ks) (Some 1184)) (\<lambda>kem.
       Inr (statement_bytes [JStr ''hushos/identity/keys'', JNum 1, JStr who, JNum version, JStr enc,
         JStr sig, JStr mlDsa, JStr (digest P kem)])))))))"

text \<open>\<open>verifyIdentityKeys\<close> (\<open>identity.ts\<close>): anything that throws is not valid.\<close>

definition verifyIdentityKeys :: "primitives \<Rightarrow> string \<Rightarrow> served_identity \<Rightarrow> bool" where
  "verifyIdentityKeys P uid served =
     (case bindE (keysStatement P uid served) (\<lambda>message.
        bindE (decode (keysSignature served) (Some HYBRID_SIGNATURE_BYTES)) (\<lambda>sig.
        bindE (decode (sk_signingPublicKey served) (Some 32)) (\<lambda>ed.
        bindE (decode (sk_mlDsaPublicKey served) (Some ML_DSA_PUBLIC_KEY_BYTES)) (\<lambda>ml.
          Inr (verifyHybrid P message sig \<lparr> h_signingPublicKey = ed, h_mlDsaPublicKey = ml \<rparr>)))))
      of Inl _ \<Rightarrow> False | Inr ok \<Rightarrow> ok)"

section \<open>What a signature says, and what a reader shows\<close>

datatype integrity = Verified | Seen | SavedFromLink | Resealed | RetiredKey | UnknownSigner
  | BadSignature | Unsigned | Unchecked

record trusted_signer =
  t_current :: bytes
  t_retired :: "bytes list"
  t_seen :: bool

definition NOT_LOCKED_AGAIN :: crypto_error where
  "NOT_LOCKED_AGAIN = CryptoError (''HushOS couldn'' @ rsquo @
     ''t check who wrote this, so it was not locked again. Try again.'')"

definition resealForm :: "integrity \<Rightarrow> crypto_error + signature_form" where
  "resealForm prior =
     (if prior = Unchecked then Inl NOT_LOCKED_AGAIN
      else if prior = Verified \<or> prior = Seen then Inr OrdinaryForm
      else if prior = SavedFromLink then Inr SavedForm else Inr ResealedForm)"

definition compatForm :: "integrity \<Rightarrow> bool \<Rightarrow> signature_form" where
  "compatForm prior ownRecord =
     (if ownRecord \<and> prior = Verified then OrdinaryForm
      else if ownRecord \<and> prior = SavedFromLink then SavedForm else ResealedForm)"

definition copyForm :: "integrity option \<Rightarrow> bool \<Rightarrow> crypto_error + signature_form" where
  "copyForm prior fromLink =
     (if fromLink then Inr SavedForm
      else resealForm (case prior of None \<Rightarrow> Unchecked | Some v \<Rightarrow> v))"

text \<open>
  What a callback may throw: a refusal of the record's fields (\<open>CryptoError\<close>), or anything else.
  The primitives themselves do not throw in this model (\<open>verifyStatement\<close> catches for them), so the
  second \<open>catch\<close> of \<open>integrityOf\<close> is not reached.
\<close>

datatype thrown = Refusal crypto_error | Other_throw

definition integrityOf ::
    "primitives \<Rightarrow> (thrown + statement_forms) \<Rightarrow> bytes option \<Rightarrow> trusted_signer option \<Rightarrow> integrity" where
  "integrityOf P statements signature trusted =
     (case signature of None \<Rightarrow> Unsigned
      | Some sig \<Rightarrow> (case trusted of None \<Rightarrow> UnknownSigner
        | Some t \<Rightarrow> (case statements of
            Inl (Refusal e) \<Rightarrow> BadSignature
          | Inl Other_throw \<Rightarrow> Unchecked
          | Inr forms \<Rightarrow>
              if verifyStatement P (f_ordinary forms) sig (t_current t)
              then (if t_seen t then Seen else Verified)
              else if verifyStatement P (f_saved forms) sig (t_current t) then SavedFromLink
              else if verifyStatement P (f_resealed forms) sig (t_current t) then Resealed
              else if list_ex (\<lambda>key. list_ex (\<lambda>st. verifyStatement P st sig key)
                  [f_ordinary forms, f_saved forms, f_resealed forms]) (t_retired t) then RetiredKey
              else BadSignature)))"

definition rekeyerIntegrityOf ::
    "primitives \<Rightarrow> (thrown + bytes) \<Rightarrow> bytes option \<Rightarrow> trusted_signer option \<Rightarrow> bool \<Rightarrow> integrity" where
  "rekeyerIntegrityOf P st signature trusted signerGone =
     (case signature of None \<Rightarrow> Unsigned
      | Some sig \<Rightarrow> (case trusted of None \<Rightarrow> UnknownSigner
        | Some t \<Rightarrow>
            if signerGone then Unchecked
            else (case st of
                Inl (Refusal e) \<Rightarrow> BadSignature
              | Inl Other_throw \<Rightarrow> Unchecked
              | Inr bytes \<Rightarrow>
                  if verifyStatement P bytes sig (t_current t) then (if t_seen t then Seen else Verified)
                  else if list_ex (\<lambda>key. verifyStatement P bytes sig key) (t_retired t) then RetiredKey
                  else BadSignature)))"

section \<open>Lemmas: the text of a statement\<close>

text \<open>
  \<open>escape\<close> and UTF-8 are prefix codes, so a statement's bytes give its parts back. \<open>unescape\<close> reads
  the code unit an escape stands for, and what follows it.
\<close>

fun unescape :: "string \<Rightarrow> (nat \<times> string) option" where
  "unescape [] = None"
| "unescape (c # r) =
     (if c \<noteq> CHR 0x5C then Some (of_char c, r)
      else case r of
        [] \<Rightarrow> None
      | e # r' \<Rightarrow>
          if e = CHR ''b'' then Some (8, r') else if e = CHR ''f'' then Some (12, r')
          else if e = CHR ''n'' then Some (10, r') else if e = CHR ''r'' then Some (13, r')
          else if e = CHR ''t'' then Some (9, r')
          else if e = CHR ''u'' then Some (16 * hex_val (r' ! 2) + hex_val (r' ! 3), drop 4 r')
          else Some (of_char e, r'))"

lemma char_code: "(of_char c :: nat) = n \<Longrightarrow> c = char_of n"
  by auto

lemma code_eq: "(of_char c :: nat) = of_char d \<longleftrightarrow> c = d"
  by (rule of_char_eq_iff)

lemma control_escape:
  assumes "(of_char c :: nat) < 32" "of_char c \<noteq> (8::nat)" "of_char c \<noteq> (12::nat)" "of_char c \<noteq> (10::nat)"
    "of_char c \<noteq> (13::nat)" "of_char c \<noteq> (9::nat)"
  shows "unescape (escape_char c @ r) = Some (of_char c, r)"
proof -
  define n where "n = (of_char c :: nat)"
  have "escape_char c = [CHR 0x5C, CHR ''u'', CHR ''0'', CHR ''0'', hex_digit (n div 16), hex_digit (n mod 16)]"
    using assms unfolding escape_char_def Let_def n_def [symmetric] by simp
  moreover have "n div 16 < 16" "16 * (n div 16) + n mod 16 = n" using assms(1) by (auto simp: n_def)
  ultimately show ?thesis by (simp add: n_def [symmetric])
qed

lemma unescape_escape: "unescape (escape_char c @ r) = Some (of_char c, r)"
proof -
  consider "c = CHR 0x22" | "c = CHR 0x5C" | "c = CHR 0x08" | "c = CHR 0x0C" | "c = CHR 0x0A"
    | "c = CHR 0x0D" | "c = CHR 0x09"
    | "(of_char c :: nat) < 32" "of_char c \<noteq> (8::nat)" "of_char c \<noteq> (12::nat)" "of_char c \<noteq> (10::nat)"
      "of_char c \<noteq> (13::nat)" "of_char c \<noteq> (9::nat)"
    | "32 \<le> (of_char c :: nat)" "c \<noteq> CHR 0x22" "c \<noteq> CHR 0x5C"
    unfolding code_eq [symmetric] by simp linarith
  then show ?thesis
  proof cases
    case 8
    then show ?thesis by (rule control_escape)
  next
    case 9
    then have "(of_char c :: nat) \<noteq> 34" "(of_char c :: nat) \<noteq> 92"
      using code_eq [of c "CHR 0x22"] code_eq [of c "CHR 0x5C"] by simp_all
    with 9 show ?thesis by (simp add: escape_char_def Let_def)
  qed (simp_all add: escape_char_def Let_def)
qed

lemma escape_char_prefix: "escape_char c @ x = escape_char d @ y \<Longrightarrow> c = d \<and> x = y"
proof -
  assume "escape_char c @ x = escape_char d @ y"
  from arg_cong [OF this, of unescape] have "(of_char c :: nat) = of_char d \<and> x = y"
    unfolding unescape_escape option.inject prod.inject .
  then show ?thesis unfolding code_eq .
qed

lemma escape_char_quote: "escape_char c @ x \<noteq> CHR 0x22 # y"
proof
  assume e: "escape_char c @ x = CHR 0x22 # y"
  have "unescape (CHR 0x22 # y) = Some (of_char (CHR 0x22 :: char), y)" by simp
  with e unescape_escape [of c x] have "c = CHR 0x22" by (simp add: code_eq [symmetric])
  with e show False by (simp add: escape_char_def)
qed

lemma escape_char_quote': "escape_char c @ x = CHR 0x22 # y \<Longrightarrow> False"
  using escape_char_quote by blast

lemma escape_simps: "escape [] = []" "escape (c # s) = escape_char c @ escape s"
  by (simp_all add: escape_def)

lemma escape_prefix: "escape s @ CHR 0x22 # x = escape t @ CHR 0x22 # y \<Longrightarrow> s = t \<and> x = y"
proof (induction s arbitrary: t)
  case Nil
  show ?case
  proof (cases t)
    case (Cons d u)
    with Nil.prems escape_char_quote [of d "escape u @ CHR 0x22 # y" x] show ?thesis by (simp add: escape_simps)
  qed (use Nil.prems in \<open>simp add: escape_simps\<close>)
next
  case (Cons c s)
  show ?case
  proof (cases t)
    case Nil
    with Cons.prems escape_char_quote [of c] show ?thesis by (simp add: escape_simps)
  next
    case (Cons d u)
    with Cons.prems escape_char_prefix [of c "escape s @ CHR 0x22 # x" d "escape u @ CHR 0x22 # y"] Cons.IH [of u]
    show ?thesis by (simp add: escape_simps)
  qed
qed

text \<open>A statement of texts and counts: what its parts are here.\<close>

fun atom :: "json \<Rightarrow> bool" where
  "atom (JStr s) = True"
| "atom (JNum n) = (n \<ge> 0)"
| "atom _ = False"

lemma decimal_head: "\<exists>c r. decimal n = c # r \<and> c \<noteq> CHR 0x22"
  using decimal_digits [of n] by (cases "decimal n") (auto simp: is_digit_def)

lemma stringify_atom_prefix:
  assumes "stringify v @ x = stringify w @ y" "atom v" "atom w" "ends x" "ends y"
  shows "v = w \<and> x = y"
proof (cases v)
  case v: (JStr s)
  show ?thesis
  proof (cases w)
    case (JStr t)
    with v assms(1) escape_prefix [of s x t y] show ?thesis by simp
  next
    case (JNum n)
    with v assms(1,3) decimal_head [of "nat n"] show ?thesis by auto
  qed (use assms(3) in auto)
next
  case v: (JNum m)
  show ?thesis
  proof (cases w)
    case (JStr t)
    with v assms(1,2) decimal_head [of "nat m"] show ?thesis by auto
  next
    case (JNum n)
    with v assms(1-3) have e: "decimal (nat m) @ x = decimal (nat n) @ y" by simp
    have "Some (nat m, x) = Some (nat n, y)"
      unfolding scan_number_decimal [OF assms(4), symmetric] e scan_number_decimal [OF assms(5)] ..
    then have "nat m = nat n" "x = y" by simp_all
    with v JNum assms(2,3) show ?thesis by (simp add: nat_eq_iff)
  qed (use assms(3) in auto)
qed (use assms(2) in auto)

lemma stringify_items_inj:
  "stringify_items vs @ CHR '']'' # x = stringify_items ws @ CHR '']'' # y \<Longrightarrow>
     list_all atom vs \<Longrightarrow> list_all atom ws \<Longrightarrow> vs \<noteq> [] \<Longrightarrow> ws \<noteq> [] \<Longrightarrow> vs = ws \<and> x = y"
proof (induction vs arbitrary: ws)
  case (Cons v vs)
  obtain w us where w: "ws = w # us" using Cons.prems(5) by (cases ws) auto
  define p where "p us x = (case us of [] \<Rightarrow> CHR '']'' # x | _ \<Rightarrow> CHR '','' # stringify_items us @ CHR '']'' # x)"
    for us :: "json list" and x :: string
  have split: "stringify_items (u # us) @ CHR '']'' # x = stringify u @ p us x" for u us x
    by (cases us) (simp_all add: p_def)
  have e: "ends (p us x)" for us x by (cases us) (simp_all add: p_def ends_simps)
  have "v = w \<and> p vs x = p us y"
    using Cons.prems w e by (intro stringify_atom_prefix) (simp_all add: split)
  then have vw: "v = w" and pq: "p vs x = p us y" by auto
  show ?case
  proof (cases "vs = [] \<or> us = []")
    case True
    with pq have "vs = [] \<and> us = [] \<and> x = y" by (cases vs; cases us) (auto simp: p_def)
    with vw w show ?thesis by simp
  next
    case False
    with pq have "stringify_items vs @ CHR '']'' # x = stringify_items us @ CHR '']'' # y"
      by (cases vs; cases us) (auto simp: p_def)
    with Cons.IH [of us] Cons.prems w vw False show ?thesis by simp
  qed
qed simp

lemma utf8_cases:
  "(of_char c :: nat) < 128 \<Longrightarrow> utf8 c = [of_nat (of_char c)]"
  "128 \<le> (of_char c :: nat) \<Longrightarrow> utf8 c = [of_nat (192 + of_char c div 64), of_nat (128 + of_char c mod 64)]"
  by (simp_all add: utf8_def Let_def)

lemma byte_of_nat_inj: "m < 256 \<Longrightarrow> n < 256 \<Longrightarrow> (of_nat m :: byte) = of_nat n \<Longrightarrow> m = n"
proof -
  assume "m < 256" "n < 256" and e: "(of_nat m :: byte) = of_nat n"
  have "m mod 256 = n mod 256" using arg_cong [OF e, of unat] unfolding unat_of_nat by simp
  with \<open>m < 256\<close> \<open>n < 256\<close> show "m = n" by simp
qed

lemma utf8_prefix:
  assumes "utf8 c @ x = utf8 d @ y"
  shows "c = d \<and> x = y"
proof -
  let ?c = "of_char c :: nat" and ?d = "of_char d :: nat"
  have lt: "?c < 256" "?d < 256" by simp_all
  have b: "128 + ?c mod 64 < 256" "128 + ?d mod 64 < 256" "192 + ?c div 64 < 256" "192 + ?d div 64 < 256"
    using lt by linarith+
  show ?thesis
  proof (cases "?c < 128"; cases "?d < 128")
    assume "?c < 128" "?d < 128"
    with assms utf8_cases have "(of_nat ?c :: byte) = of_nat ?d" "x = y" by auto
    with byte_of_nat_inj [OF lt] show ?thesis by (simp add: code_eq)
  next
    assume "?c < 128" "\<not> ?d < 128"
    with assms utf8_cases have "(of_nat ?c :: byte) = of_nat (192 + ?d div 64)" by auto
    with byte_of_nat_inj [OF lt(1) b(4)] \<open>?c < 128\<close> show ?thesis by simp
  next
    assume "\<not> ?c < 128" "?d < 128"
    with assms utf8_cases have "(of_nat (192 + ?c div 64) :: byte) = of_nat ?d" by auto
    with byte_of_nat_inj [OF b(3) lt(2)] \<open>?d < 128\<close> show ?thesis by simp
  next
    assume "\<not> ?c < 128" "\<not> ?d < 128"
    with assms utf8_cases have "(of_nat (192 + ?c div 64) :: byte) = of_nat (192 + ?d div 64)"
      "(of_nat (128 + ?c mod 64) :: byte) = of_nat (128 + ?d mod 64)" "x = y" by auto
    with byte_of_nat_inj [OF b(3,4)] byte_of_nat_inj [OF b(1,2)]
    have "?c div 64 = ?d div 64" "?c mod 64 = ?d mod 64" by simp_all
    then have "?c = ?d" by (metis div_mult_mod_eq)
    with \<open>x = y\<close> show ?thesis by (simp add: code_eq)
  qed
qed

lemma utf8_nonempty: "utf8 c \<noteq> []"
  by (simp add: utf8_def Let_def)

lemma text_encode_inj: "text_encode s = text_encode t \<Longrightarrow> s = t"
proof (induction s arbitrary: t)
  case Nil
  then show ?case using utf8_nonempty by (cases t) auto
next
  case (Cons c s)
  then show ?case using utf8_nonempty utf8_prefix by (cases t) (fastforce)+
qed

lemma statement_bytes_inj:
  "statement_bytes vs = statement_bytes ws \<Longrightarrow> list_all atom vs \<Longrightarrow> list_all atom ws \<Longrightarrow>
     vs \<noteq> [] \<Longrightarrow> ws \<noteq> [] \<Longrightarrow> vs = ws"
  using stringify_items_inj [of vs "[]" ws "[]"]
  by (auto simp: statement_bytes_def dest!: text_encode_inj)

section \<open>One statement, one meaning\<close>

text \<open>Everything the file's statement functions sign, and when two of them say the same.\<close>

datatype signed =
    Metadata signature_form metadata_statement bytes
  | Version signature_form version_statement bytes
  | MetadataRekeyed metadata_statement int bytes record_origin
  | VersionRekeyed version_statement int bytes record_origin
  | Share share_statement bytes
  | Succession identity_link
  | Consent identity_link consent_role
  | IdentityKeys string served_identity

fun signed_bytes :: "primitives \<Rightarrow> signed \<Rightarrow> crypto_error + bytes" where
  "signed_bytes P (Metadata form ctx envelope) = metadataStatementAs P form ctx envelope"
| "signed_bytes P (Version form ctx envelope) = versionStatementAs P form ctx envelope"
| "signed_bytes P (MetadataRekeyed ctx epoch envelope origin) = metadataRekeyedStatement P ctx epoch envelope origin"
| "signed_bytes P (VersionRekeyed ctx epoch envelope origin) = versionRekeyedStatement P ctx epoch envelope origin"
| "signed_bytes P (Share ctx sealed) = shareStatement P ctx sealed"
| "signed_bytes P (Succession link) = successionStatement P link"
| "signed_bytes P (Consent link role) = successionConsentStatement P link role"
| "signed_bytes P (IdentityKeys uid ks) = keysStatement P uid ks"

definition same_node :: "metadata_statement \<Rightarrow> metadata_statement \<Rightarrow> bool" where
  "same_node a b \<longleftrightarrow> toLowerCase (m_workspaceId a) = toLowerCase (m_workspaceId b)
     \<and> toLowerCase (m_nodeId a) = toLowerCase (m_nodeId b) \<and> m_kind a = m_kind b
     \<and> metadataVersion a = metadataVersion b"

definition same_version :: "version_statement \<Rightarrow> version_statement \<Rightarrow> bool" where
  "same_version a b \<longleftrightarrow> toLowerCase (v_workspaceId a) = toLowerCase (v_workspaceId b)
     \<and> toLowerCase (v_nodeId a) = toLowerCase (v_nodeId b)
     \<and> toLowerCase (v_versionId a) = toLowerCase (v_versionId b)
     \<and> toLowerCase (v_objectId a) = toLowerCase (v_objectId b) \<and> contentSuite a = contentSuite b"

definition same_origin :: "primitives \<Rightarrow> record_origin \<Rightarrow> record_origin \<Rightarrow> bool" where
  "same_origin P a b \<longleftrightarrow> digest P (o_envelope a) = digest P (o_envelope b)
     \<and> toLowerCase (o_signerId a) = toLowerCase (o_signerId b)
     \<and> digest P (o_signature a) = digest P (o_signature b)
     \<and> digest P (o_keyEnvelope a) = digest P (o_keyEnvelope b)"

definition kem_digest :: "primitives \<Rightarrow> string \<Rightarrow> string" where
  "kem_digest P kem = (case decode kem (Some 1184) of Inl _ \<Rightarrow> [] | Inr b \<Rightarrow> digest P b)"

definition same_link :: "primitives \<Rightarrow> identity_link \<Rightarrow> identity_link \<Rightarrow> bool" where
  "same_link P a b \<longleftrightarrow> toLowerCase (l_userId a) = toLowerCase (l_userId b)
     \<and> oldKeyVersion a = oldKeyVersion b \<and> newKeyVersion a = newKeyVersion b
     \<and> oldEncryptionPublicKey a = oldEncryptionPublicKey b \<and> oldSigningPublicKey a = oldSigningPublicKey b
     \<and> l_oldMlDsaPublicKey a = l_oldMlDsaPublicKey b
     \<and> newEncryptionPublicKey a = newEncryptionPublicKey b \<and> newSigningPublicKey a = newSigningPublicKey b
     \<and> l_newMlDsaPublicKey a = l_newMlDsaPublicKey b
     \<and> kem_digest P (newKemPublicKey a) = kem_digest P (newKemPublicKey b)"

definition same_keys_served :: "primitives \<Rightarrow> served_identity \<Rightarrow> served_identity \<Rightarrow> bool" where
  "same_keys_served P a b \<longleftrightarrow> sk_keyVersion a = sk_keyVersion b
     \<and> sk_encryptionPublicKey a = sk_encryptionPublicKey b \<and> sk_signingPublicKey a = sk_signingPublicKey b
     \<and> sk_mlDsaPublicKey a = sk_mlDsaPublicKey b
     \<and> kem_digest P (sk_kemPublicKey a) = kem_digest P (sk_kemPublicKey b)"

fun same_signed :: "primitives \<Rightarrow> signed \<Rightarrow> signed \<Rightarrow> bool" where
  "same_signed P (Metadata f c e) (Metadata f' c' e') = (f = f' \<and> same_node c c' \<and> digest P e = digest P e')"
| "same_signed P (Version f c e) (Version f' c' e') = (f = f' \<and> same_version c c' \<and> digest P e = digest P e')"
| "same_signed P (MetadataRekeyed c n e o1) (MetadataRekeyed c' n' e' o2) =
     (same_node c c' \<and> n = n' \<and> digest P e = digest P e' \<and> same_origin P o1 o2)"
| "same_signed P (VersionRekeyed c n e o1) (VersionRekeyed c' n' e' o2) =
     (same_version c c' \<and> n = n' \<and> digest P e = digest P e' \<and> same_origin P o1 o2)"
| "same_signed P (Share a e) (Share b e') =
     (toLowerCase (sh_workspaceId a) = toLowerCase (sh_workspaceId b)
      \<and> toLowerCase (sh_nodeId a) = toLowerCase (sh_nodeId b) \<and> sh_keyEpoch a = sh_keyEpoch b
      \<and> toLowerCase (sh_granteeUserId a) = toLowerCase (sh_granteeUserId b)
      \<and> toLowerCase (sh_granterUserId a) = toLowerCase (sh_granterUserId b) \<and> digest P e = digest P e')"
| "same_signed P (Succession a) (Succession b) = same_link P a b"
| "same_signed P (Consent a role) (Consent b role') = (role = role' \<and> same_link P a b)"
| "same_signed P (IdentityKeys uid a) (IdentityKeys uid' b) =
     (toLowerCase uid = toLowerCase uid' \<and> same_keys_served P a b)"
| "same_signed P _ _ = False"

section \<open>Lemmas: the parts of each statement\<close>

fun metadata_domain :: "signature_form \<Rightarrow> string" where
  "metadata_domain OrdinaryForm = METADATA_DOMAIN"
| "metadata_domain SavedForm = METADATA_SAVED_DOMAIN"
| "metadata_domain ResealedForm = METADATA_RESEALED_DOMAIN"

fun version_domain :: "signature_form \<Rightarrow> string" where
  "version_domain OrdinaryForm = VERSION_DOMAIN"
| "version_domain SavedForm = VERSION_SAVED_DOMAIN"
| "version_domain ResealedForm = VERSION_RESEALED_DOMAIN"

abbreviation low :: "string \<Rightarrow> json" where
  "low s \<equiv> JStr (toLowerCase s)"

definition link_parts :: "primitives \<Rightarrow> identity_link \<Rightarrow> json list" where
  "link_parts P l = [low (l_userId l), JNum (oldKeyVersion l), JNum (newKeyVersion l),
     JStr (oldEncryptionPublicKey l), JStr (oldSigningPublicKey l), JStr (l_oldMlDsaPublicKey l),
     JStr (newEncryptionPublicKey l), JStr (newSigningPublicKey l), JStr (l_newMlDsaPublicKey l),
     JStr (kem_digest P (newKemPublicKey l))]"

definition tail_parts :: "primitives \<Rightarrow> int \<Rightarrow> bytes \<Rightarrow> record_origin \<Rightarrow> json list" where
  "tail_parts P n e origin = [JNum n, JStr (digest P e), JStr (digest P (o_envelope origin)),
     low (o_signerId origin), JStr (digest P (o_signature origin)), JStr (digest P (o_keyEnvelope origin))]"

fun fields_of :: "primitives \<Rightarrow> signed \<Rightarrow> json list" where
  "fields_of P (Metadata f c e) = [JStr (metadata_domain f), JNum 1, low (m_workspaceId c), low (m_nodeId c),
     JStr (m_kind c), JNum (metadataVersion c), JStr (digest P e)]
     @ (if f = SavedForm then [JStr SAVED_FROM_LINK] else [])"
| "fields_of P (Version f c e) = [JStr (version_domain f), JNum 1, low (v_workspaceId c), low (v_nodeId c),
     low (v_versionId c), low (v_objectId c), JNum (contentSuite c), JStr (digest P e)]
     @ (if f = SavedForm then [JStr SAVED_FROM_LINK] else [])"
| "fields_of P (MetadataRekeyed c n e origin) = [JStr METADATA_REKEYED_DOMAIN, JNum 1, low (m_workspaceId c),
     low (m_nodeId c), JStr (m_kind c), JNum (metadataVersion c)] @ tail_parts P n e origin"
| "fields_of P (VersionRekeyed c n e origin) = [JStr VERSION_REKEYED_DOMAIN, JNum 1, low (v_workspaceId c),
     low (v_nodeId c), low (v_versionId c), low (v_objectId c), JNum (contentSuite c)] @ tail_parts P n e origin"
| "fields_of P (Share c e) = [JStr ''hushos/drive/sig/share'', JNum 4, low (sh_workspaceId c), low (sh_nodeId c),
     JNum (sh_keyEpoch c), low (sh_granteeUserId c), low (sh_granterUserId c), JStr (digest P e)]"
| "fields_of P (Succession l) = [JStr ''hushos/identity/succession'', JNum 2] @ link_parts P l"
| "fields_of P (Consent l role) =
     [JStr ''hushos/identity/succession-consent'', JNum 1, JStr (consent_role_name role)] @ link_parts P l"
| "fields_of P (IdentityKeys uid ks) = [JStr ''hushos/identity/keys'', JNum 1, low uid, JNum (sk_keyVersion ks),
     JStr (sk_encryptionPublicKey ks), JStr (sk_signingPublicKey ks), JStr (sk_mlDsaPublicKey ks),
     JStr (kem_digest P (sk_kemPublicKey ks))]"

lemma text_field_Inr [returns]: "text_field s what = Inr t \<longleftrightarrow> s \<noteq> [] \<and> t = toLowerCase s"
  by (auto simp: text_field_def)

lemma count_field_Inr [returns]: "count_field n what = Inr m \<longleftrightarrow> isSafeInteger n \<and> 1 \<le> n \<and> m = n"
  by (auto simp: count_field_def)

lemma suite_Inr [returns]: "suite n = Inr m \<longleftrightarrow> isSafeInteger n \<and> 1 \<le> n \<and> n \<le> 0xffffffff \<and> m = n"
  by (auto simp: suite_def returns)

lemma key_field_Inr [returns]: "key_field s n = Inr t \<longleftrightarrow> t = s \<and> (\<exists>b. decode s (Some n) = Inr b)"
  by (auto simp: key_field_def returns)

lemma kem_digest_of [simp]: "decode kem (Some 1184) = Inr b \<Longrightarrow> kem_digest P kem = digest P b"
  by (simp add: kem_digest_def)

lemmas domains = METADATA_DOMAIN_def VERSION_DOMAIN_def METADATA_RESEALED_DOMAIN_def
  VERSION_RESEALED_DOMAIN_def METADATA_SAVED_DOMAIN_def VERSION_SAVED_DOMAIN_def
  METADATA_REKEYED_DOMAIN_def VERSION_REKEYED_DOMAIN_def SAVED_FROM_LINK_def

lemma record_parts:
  "metadataStatementAs P f c e = Inr x \<Longrightarrow> x = statement_bytes (fields_of P (Metadata f c e)) \<and> 1 \<le> metadataVersion c"
  "versionStatementAs P f v e = Inr x \<Longrightarrow> x = statement_bytes (fields_of P (Version f v e)) \<and> 1 \<le> contentSuite v"
  by (cases f; auto simp: metadataStatement_def metadataSavedStatement_def metadataResealedStatement_def
        versionStatement_def versionSavedStatement_def versionResealedStatement_def
        metadataParts_def versionParts_def returns domains)+

lemma tail_parts_Inr: "rekeyedTail P n e origin = Inr tail \<Longrightarrow> tail = tail_parts P n e origin \<and> 1 \<le> n"
  by (auto simp: rekeyedTail_def tail_parts_def returns)

lemma link_parts_Inr:
  "successionFields P domain hp l = Inr x \<Longrightarrow>
     x = statement_bytes ([JStr domain] @ hp @ link_parts P l) \<and> 1 \<le> oldKeyVersion l \<and> 1 \<le> newKeyVersion l"
  by (auto simp: successionFields_def link_parts_def returns not_le)

lemma signed_parts:
  assumes "signed_bytes P a = Inr x"
  shows "x = statement_bytes (fields_of P a) \<and> list_all atom (fields_of P a) \<and> fields_of P a \<noteq> []"
proof (cases a)
  case (Metadata f c e)
  with assms record_parts(1) [of P f c e x] show ?thesis by simp
next
  case (Version f c e)
  with assms record_parts(2) [of P f c e x] show ?thesis by simp
next
  case (MetadataRekeyed c n e origin)
  with assms show ?thesis
    by (auto simp: metadataRekeyedStatement_def returns tail_parts_def dest!: tail_parts_Inr)
next
  case (VersionRekeyed c n e origin)
  with assms show ?thesis
    by (auto simp: versionRekeyedStatement_def returns tail_parts_def dest!: tail_parts_Inr)
next
  case (Share c e)
  with assms show ?thesis by (auto simp: shareStatement_def returns)
next
  case (Succession l)
  with assms have "successionFields P ''hushos/identity/succession'' [JNum 2] l = Inr x"
    by (simp add: successionStatement_def)
  from link_parts_Inr [OF this] Succession show ?thesis by (simp add: link_parts_def)
next
  case (Consent l role)
  with assms have "successionFields P ''hushos/identity/succession-consent''
      [JNum 1, JStr (consent_role_name role)] l = Inr x"
    by (simp add: successionConsentStatement_def)
  from link_parts_Inr [OF this] Consent show ?thesis by (simp add: link_parts_def)
next
  case (IdentityKeys uid ks)
  with assms show ?thesis by (auto simp: keysStatement_def returns)
qed

lemma role_name_eq: "consent_role_name a = consent_role_name b \<longleftrightarrow> a = b"
  by (cases a; cases b) simp_all

lemma domain_eq: "metadata_domain f = metadata_domain g \<longleftrightarrow> f = g" "version_domain f = version_domain g \<longleftrightarrow> f = g"
  by (cases f; cases g; simp add: domains)+

lemma domain_apart:
  "metadata_domain f \<noteq> version_domain g" "metadata_domain f \<noteq> METADATA_REKEYED_DOMAIN"
  "metadata_domain f \<noteq> VERSION_REKEYED_DOMAIN" "version_domain f \<noteq> METADATA_REKEYED_DOMAIN"
  "version_domain f \<noteq> VERSION_REKEYED_DOMAIN" "METADATA_REKEYED_DOMAIN \<noteq> VERSION_REKEYED_DOMAIN"
  by (cases f; cases g; simp add: domains)+

lemma domain_other:
  "metadata_domain f \<notin> {''hushos/drive/sig/share'', ''hushos/identity/succession'',
     ''hushos/identity/succession-consent'', ''hushos/identity/keys''}"
  "version_domain f \<notin> {''hushos/drive/sig/share'', ''hushos/identity/succession'',
     ''hushos/identity/succession-consent'', ''hushos/identity/keys''}"
  "METADATA_REKEYED_DOMAIN \<notin> {''hushos/drive/sig/share'', ''hushos/identity/succession'',
     ''hushos/identity/succession-consent'', ''hushos/identity/keys''}"
  "VERSION_REKEYED_DOMAIN \<notin> {''hushos/drive/sig/share'', ''hushos/identity/succession'',
     ''hushos/identity/succession-consent'', ''hushos/identity/keys''}"
  by (cases f; simp add: domains)+

lemma parts_inj:
  assumes "fields_of P a = fields_of P b"
  shows "same_signed P a b"
  using assms domain_apart domain_other
  by (cases a; cases b)
    (auto simp: domain_eq role_name_eq same_node_def same_version_def same_origin_def same_link_def
      same_keys_served_def link_parts_def tail_parts_def)

section \<open>Properties\<close>

text \<open>C33. The same bytes are never signed as two statements: whichever two of the metadata and
  version statements (ordinary, saved, re-sealed, re-keyed), shares, identity keys, successions and
  their two consent roles have one encoding, they are of one kind and say the same (ids compared in
  lower case, sealed bytes by digest). No signature can stand for another statement's.\<close>

theorem one_statement_one_meaning:
  assumes "signed_bytes P a = Inr x" and "signed_bytes P b = Inr x"
  shows "same_signed P a b"
proof -
  note a = signed_parts [OF assms(1)] and b = signed_parts [OF assms(2)]
  have "fields_of P a = fields_of P b"
    by (rule statement_bytes_inj) (use a b in auto)
  then show ?thesis by (rule parts_inj)
qed

theorem one_statement_one_meaning_witness:
  "\<exists>x. signed_bytes sample_primitives (Share \<lparr> sh_workspaceId = ''W'', sh_nodeId = ''n'', sh_keyEpoch = 1,
       sh_granteeUserId = ''a'', sh_granterUserId = ''b'' \<rparr> []) = Inr x
     \<and> same_signed sample_primitives (Share \<lparr> sh_workspaceId = ''W'', sh_nodeId = ''n'', sh_keyEpoch = 1,
       sh_granteeUserId = ''a'', sh_granterUserId = ''b'' \<rparr> [])
      (Share \<lparr> sh_workspaceId = ''w'', sh_nodeId = ''n'', sh_keyEpoch = 1,
       sh_granteeUserId = ''a'', sh_granterUserId = ''b'' \<rparr> [])"
proof -
  have "signed_bytes sample_primitives (Share \<lparr> sh_workspaceId = ''W'', sh_nodeId = ''n'', sh_keyEpoch = 1,
       sh_granteeUserId = ''a'', sh_granterUserId = ''b'' \<rparr> [])
    = Inr (statement_bytes [JStr ''hushos/drive/sig/share'', JNum 4, low ''W'', low ''n'', JNum 1, low ''a'',
        low ''b'', JStr (digest sample_primitives [])])"
    "signed_bytes sample_primitives (Share \<lparr> sh_workspaceId = ''w'', sh_nodeId = ''n'', sh_keyEpoch = 1,
       sh_granteeUserId = ''a'', sh_granterUserId = ''b'' \<rparr> [])
    = Inr (statement_bytes [JStr ''hushos/drive/sig/share'', JNum 4, low ''W'', low ''n'', JNum 1, low ''a'',
        low ''b'', JStr (digest sample_primitives [])])"
    by (simp_all add: shareStatement_def text_field_def count_field_def isSafeInteger_def MAX_SAFE_INTEGER_def
        toLowerCase_def char_of_def bit_0)
  from one_statement_one_meaning [OF this] this(1) show ?thesis by blast
qed

text \<open>A reader shows a record as verified exactly when it is signed over the ordinary statement
  by the key the reader trusts for its writer now, and that key was checked; the same under a key
  nobody checked is shown as seen. Nothing else ever is.\<close>

theorem verified_exactly:
  "(integrityOf P statements sig trusted = Verified \<longleftrightarrow>
      (\<exists>s t forms. sig = Some s \<and> trusted = Some t \<and> statements = Inr forms
        \<and> verifyStatement P (f_ordinary forms) s (t_current t) \<and> \<not> t_seen t))
   \<and> (integrityOf P statements sig trusted = Seen \<longleftrightarrow>
      (\<exists>s t forms. sig = Some s \<and> trusted = Some t \<and> statements = Inr forms
        \<and> verifyStatement P (f_ordinary forms) s (t_current t) \<and> t_seen t))"
  by (auto simp: integrityOf_def split: option.splits sum.splits thrown.splits if_splits)

end
