(* ===== verification/Rosters.thy ===== *)
theory Rosters
  imports Signatures
begin

text \<open>
  \<open>packages/crypto/src/groups.ts\<close>: rosters and group key successions as data, their statements
  (\<open>rosterStatement\<close>, \<open>groupSuccessionStatement\<close>) and the parsers that take back only canonical
  bytes. TypeScript casts the parsed parts to the record types and lets the statement function
  check every field; so a parsed roster is first a record of unchecked values (\<open>roster_fields\<close>),
  and typed (\<open>roster\<close>) once its statement was rebuilt from it.
\<close>

section \<open>Data\<close>

datatype group_kind = Family | Org
datatype member_status = Active | Left
datatype group_role = Billing | DataAdmin | Guardian | Members | Recovery

fun kind_name :: "group_kind \<Rightarrow> string" where
  "kind_name Family = ''family''"
| "kind_name Org = ''org''"

fun status_name :: "member_status \<Rightarrow> string" where
  "status_name Active = ''active''"
| "status_name Left = ''left''"

fun role_name :: "group_role \<Rightarrow> string" where
  "role_name Billing = ''billing''"
| "role_name DataAdmin = ''data_admin''"
| "role_name Guardian = ''guardian''"
| "role_name Members = ''members''"
| "role_name Recovery = ''recovery''"

text \<open>Roles are string literals in the source and sort as strings.\<close>

lemma role_name_inj [simp]: "role_name a = role_name b \<longleftrightarrow> a = b"
  by (cases a; cases b) simp_all

instantiation group_role :: linorder
begin

definition less_eq_group_role :: "group_role \<Rightarrow> group_role \<Rightarrow> bool" where
  "less_eq_group_role a b = (role_name a \<le> role_name b)"

definition less_group_role :: "group_role \<Rightarrow> group_role \<Rightarrow> bool" where
  "less_group_role a b = (role_name a < role_name b)"

instance
  by standard (auto simp: less_eq_group_role_def less_group_role_def order_less_le)

end

record roster_member =
  userId :: string
  keyVersion :: nat
  encryptionPublicKey :: string
  signingPublicKey :: string
  mlDsaPublicKeyDigest :: string
  kemPublicKeyDigest :: string
  status :: member_status
  roles :: "group_role list"
  sinceVersion :: nat

text \<open>\<open>rootCommitment\<close> absent is \<open>None\<close>; \<open>retired?: true\<close> is a flag.\<close>

record roster_area =
  workspaceId :: string
  workspaceKeyVersion :: nat
  commitment :: string
  rootCommitment :: "string option"
  retiredRow :: bool

text \<open>No \<open>areas\<close> is the empty list, and no \<open>format\<close> is format 1.\<close>

record roster =
  groupId :: string
  kind :: group_kind
  rosterVersion :: nat
  previousRosterDigest :: string
  groupKeyVersion :: nat
  signerUserId :: string
  members :: "roster_member list"
  areas :: "roster_area list"
  format :: nat

record group_public_key =
  ed25519PublicKey :: string
  mlDsaPublicKey :: string

record group_signature =
  ed25519 :: bytes
  mlDsa :: bytes

record signed_statement =
  statement :: bytes
  signature :: group_signature
  signerSignature :: bytes

record group_key_succession =
  succGroupId :: string
  oldVersion :: nat
  newVersion :: nat
  oldEd25519PublicKey :: string
  oldMlDsaPublicKey :: string
  newEd25519PublicKey :: string
  newMlDsaPublicKey :: string
  lastRosterVersion :: nat
  lastRosterDigest :: string
  succSignerUserId :: string

section \<open>Unchecked fields\<close>

text \<open>The same records as the parser fills them, before any field is checked.\<close>

record member_fields =
  f_userId :: json
  f_keyVersion :: json
  f_encryptionPublicKey :: json
  f_signingPublicKey :: json
  f_mlDsaPublicKeyDigest :: json
  f_kemPublicKeyDigest :: json
  f_status :: json
  f_roles :: json
  f_sinceVersion :: json

record area_fields =
  f_workspaceId :: json
  f_workspaceKeyVersion :: json
  f_commitment :: json
  f_rootCommitment :: "json option"
  f_retired :: bool

record roster_fields =
  f_groupId :: json
  f_kind :: json
  f_rosterVersion :: json
  f_previousRosterDigest :: json
  f_groupKeyVersion :: json
  f_signerUserId :: json
  f_members :: "member_fields list"
  f_areas :: "area_fields list"
  f_format :: nat

abbreviation num :: "nat \<Rightarrow> json" where
  "num n \<equiv> JNum (int n)"

definition member_fields_of :: "roster_member \<Rightarrow> member_fields" where
  "member_fields_of m =
     \<lparr> f_userId = JStr (userId m), f_keyVersion = num (keyVersion m),
       f_encryptionPublicKey = JStr (encryptionPublicKey m),
       f_signingPublicKey = JStr (signingPublicKey m),
       f_mlDsaPublicKeyDigest = JStr (mlDsaPublicKeyDigest m),
       f_kemPublicKeyDigest = JStr (kemPublicKeyDigest m),
       f_status = JStr (status_name (status m)),
       f_roles = JArr (map (\<lambda>r. JStr (role_name r)) (roles m)),
       f_sinceVersion = num (sinceVersion m) \<rparr>"

definition area_fields_of :: "roster_area \<Rightarrow> area_fields" where
  "area_fields_of a =
     \<lparr> f_workspaceId = JStr (workspaceId a), f_workspaceKeyVersion = num (workspaceKeyVersion a),
       f_commitment = JStr (commitment a), f_rootCommitment = map_option JStr (rootCommitment a),
       f_retired = retiredRow a \<rparr>"

definition roster_fields_of :: "roster \<Rightarrow> roster_fields" where
  "roster_fields_of r =
     \<lparr> f_groupId = JStr (groupId r), f_kind = JStr (kind_name (kind r)),
       f_rosterVersion = num (rosterVersion r),
       f_previousRosterDigest = JStr (previousRosterDigest r),
       f_groupKeyVersion = num (groupKeyVersion r), f_signerUserId = JStr (signerUserId r),
       f_members = map member_fields_of (members r), f_areas = map area_fields_of (areas r),
       f_format = format r \<rparr>"

text \<open>Reading the checked fields at their types.\<close>

fun str_of :: "json \<Rightarrow> string" where
  "str_of (JStr s) = s"
| "str_of _ = []"

fun num_of :: "json \<Rightarrow> nat" where
  "num_of (JNum n) = nat n"
| "num_of _ = 0"

fun arr_of :: "json \<Rightarrow> json list" where
  "arr_of (JArr xs) = xs"
| "arr_of _ = []"

definition kind_of :: "string \<Rightarrow> group_kind" where
  "kind_of s = (if s = ''family'' then Family else Org)"

definition status_of :: "string \<Rightarrow> member_status" where
  "status_of s = (if s = ''active'' then Active else Left)"

definition role_of :: "string \<Rightarrow> group_role" where
  "role_of s =
     (if s = ''billing'' then Billing else if s = ''data_admin'' then DataAdmin
      else if s = ''guardian'' then Guardian else if s = ''members'' then Members else Recovery)"

definition member_of :: "member_fields \<Rightarrow> roster_member" where
  "member_of f =
     \<lparr> userId = str_of (f_userId f), keyVersion = num_of (f_keyVersion f),
       encryptionPublicKey = str_of (f_encryptionPublicKey f),
       signingPublicKey = str_of (f_signingPublicKey f),
       mlDsaPublicKeyDigest = str_of (f_mlDsaPublicKeyDigest f),
       kemPublicKeyDigest = str_of (f_kemPublicKeyDigest f),
       status = status_of (str_of (f_status f)),
       roles = map (\<lambda>r. role_of (str_of r)) (arr_of (f_roles f)),
       sinceVersion = num_of (f_sinceVersion f) \<rparr>"

definition area_of :: "area_fields \<Rightarrow> roster_area" where
  "area_of f =
     \<lparr> workspaceId = str_of (f_workspaceId f), workspaceKeyVersion = num_of (f_workspaceKeyVersion f),
       commitment = str_of (f_commitment f), rootCommitment = map_option str_of (f_rootCommitment f),
       retiredRow = f_retired f \<rparr>"

definition roster_of :: "roster_fields \<Rightarrow> roster" where
  "roster_of f =
     \<lparr> groupId = str_of (f_groupId f), kind = kind_of (str_of (f_kind f)),
       rosterVersion = num_of (f_rosterVersion f),
       previousRosterDigest = str_of (f_previousRosterDigest f),
       groupKeyVersion = num_of (f_groupKeyVersion f), signerUserId = str_of (f_signerUserId f),
       members = map member_of (f_members f), areas = map area_of (f_areas f),
       format = f_format f \<rparr>"

section \<open>The roster's statement\<close>

definition GROUP_KINDS :: "string list" where
  "GROUP_KINDS = [''family'', ''org'']"

definition STATUSES :: "string list" where
  "STATUSES = [''active'', ''left'']"

definition FAMILY_ROLES :: "string list" where
  "FAMILY_ROLES = [''billing'', ''guardian'', ''members'']"

definition ORG_ROLES :: "string list" where
  "ORG_ROLES = [''billing'', ''data_admin'', ''guardian'', ''members'', ''recovery'']"

definition ROSTER_DOMAIN :: string where
  "ROSTER_DOMAIN = ''hushos/group/roster''"

definition ROSTER_FORMATS :: "nat list" where
  "ROSTER_FORMATS = [1, 2]"

definition MAX_ROSTER_AREA_ROWS :: nat where
  "MAX_ROSTER_AREA_ROWS = 1024"

definition MAX_FAMILY_AREAS :: nat where
  "MAX_FAMILY_AREAS = 1024"

definition MAX_ROSTER_MEMBERS :: nat where
  "MAX_ROSTER_MEMBERS = 10000"

definition KEY_ROW :: string where
  "KEY_ROW = ''key''"

definition RETIRED_ROW :: string where
  "RETIRED_ROW = ''retired''"

definition areaRow :: "nat \<Rightarrow> area_fields \<Rightarrow> crypto_error + json list" where
  "areaRow fmt area =
     bindE (uuid (f_workspaceId area) ''workspace id'') (\<lambda>wid.
     bindE (integer (f_workspaceKeyVersion area) ''workspace key version'') (\<lambda>version.
       if fmt = 1 then
         (if f_rootCommitment area \<noteq> None \<or> f_retired area then Inl (invalid ''roster area'')
          else bindE (digestOf (f_commitment area) ''area key commitment'') (\<lambda>c.
            Inr [JStr wid, num version, JStr c]))
       else if f_retired area then
         (if f_commitment area \<noteq> JStr [] \<or> f_rootCommitment area \<noteq> None
          then Inl (invalid ''roster area'') else Inr [JStr wid, num version, JStr RETIRED_ROW])
       else bindE (digestOf (f_commitment area) ''area key commitment'') (\<lambda>c.
         bindE (digestOf (case f_rootCommitment area of None \<Rightarrow> JOther | Some v \<Rightarrow> v)
             ''area root commitment'') (\<lambda>root.
           Inr [JStr wid, num version, JStr KEY_ROW, JStr c, JStr root]))))"

definition areaParts :: "area_fields list \<Rightarrow> nat \<Rightarrow> crypto_error + json list" where
  "areaParts list fmt =
     (if length list > MAX_ROSTER_AREA_ROWS then Inl (invalid ''roster areas'')
      else bindE (mapE (areaRow fmt) list) (\<lambda>rows.
        bindE (ascending (map (\<lambda>row. str_of (hd row)) rows) ''roster areas'') (\<lambda>_.
          Inr (map JArr rows))))"

definition memberParts :: "member_fields \<Rightarrow> string \<Rightarrow> nat \<Rightarrow> crypto_error + json list" where
  "memberParts member knd version =
     (case f_roles member of
        JArr list \<Rightarrow>
          bindE (mapE (\<lambda>role. oneOf role (if knd = ''family'' then FAMILY_ROLES else ORG_ROLES)
              ''roster role'') list) (\<lambda>names.
          bindE (ascending names ''roster roles'') (\<lambda>roles.
          bindE (integer (f_sinceVersion member) ''roster entry version'') (\<lambda>since.
            if since > version then Inl (invalid ''roster entry version'')
            else
              bindE (uuid (f_userId member) ''user id'') (\<lambda>uid.
              bindE (integer (f_keyVersion member) ''key version'') (\<lambda>keyv.
              bindE (bytesOf (f_encryptionPublicKey member) 32 ''identity key'') (\<lambda>enc.
              bindE (bytesOf (f_signingPublicKey member) 32 ''identity key'') (\<lambda>sig.
              bindE (digestOf (f_mlDsaPublicKeyDigest member) ''key digest'') (\<lambda>mldsa.
              bindE (digestOf (f_kemPublicKeyDigest member) ''key digest'') (\<lambda>kem.
              bindE (oneOf (f_status member) STATUSES ''member status'') (\<lambda>st.
                Inr [JStr uid, num keyv, JStr enc, JStr sig, JStr mldsa, JStr kem, JStr st,
                     JArr (map JStr roles), num since]))))))))))
      | _ \<Rightarrow> Inl (invalid ''roster entry''))"

definition rosterFormat :: "nat \<Rightarrow> crypto_error + nat" where
  "rosterFormat fmt = (if fmt \<notin> set ROSTER_FORMATS then Inl (invalid ''roster format'') else Inr fmt)"

definition roster_statement :: "roster_fields \<Rightarrow> crypto_error + bytes" where
  "roster_statement roster =
     bindE (rosterFormat (f_format roster)) (\<lambda>fmt.
     bindE (oneOf (f_kind roster) GROUP_KINDS ''group kind'') (\<lambda>kind.
     bindE (integer (f_rosterVersion roster) ''roster version'') (\<lambda>version.
       if version = 1 \<and> f_previousRosterDigest roster \<noteq> JStr [] then Inl (invalid ''roster digest'')
       else bindE (if version = 1 then Inr [] else digestOf (f_previousRosterDigest roster) ''roster digest'')
        (\<lambda>previous.
         if f_members roster = [] \<or> length (f_members roster) > MAX_ROSTER_MEMBERS
         then Inl (invalid ''roster members'')
         else bindE (mapE (\<lambda>m. memberParts m kind version) (f_members roster)) (\<lambda>members.
           bindE (ascending (map (\<lambda>m. str_of (hd m)) members) ''roster members'') (\<lambda>_.
           bindE (uuid (f_groupId roster) ''group id'') (\<lambda>gid.
           bindE (integer (f_groupKeyVersion roster) ''group key version'') (\<lambda>gkv.
           bindE (uuid (f_signerUserId roster) ''user id'') (\<lambda>signer.
           bindE (areaParts (f_areas roster) fmt) (\<lambda>areas.
             encodeStatement [JStr ROSTER_DOMAIN, num fmt, JStr gid, JStr kind, num version,
               JStr previous, num gkv, JStr signer, JArr (map JArr members), JArr areas]))))))))))"

definition rosterStatement :: "roster \<Rightarrow> crypto_error + bytes" where
  "rosterStatement r = roster_statement (roster_fields_of r)"

definition area_parse :: "nat \<Rightarrow> json \<Rightarrow> crypto_error + area_fields" where
  "area_parse fmt row =
     (case row of
        JArr list \<Rightarrow>
          (if fmt = 1 then
             (if length list \<noteq> 3 then Inl (invalid ''roster area'')
              else Inr \<lparr> f_workspaceId = list ! 0, f_workspaceKeyVersion = list ! 1,
                         f_commitment = list ! 2, f_rootCommitment = None, f_retired = False \<rparr>)
           else if length list = 3 \<and> list ! 2 = JStr RETIRED_ROW then
             Inr \<lparr> f_workspaceId = list ! 0, f_workspaceKeyVersion = list ! 1,
                   f_commitment = JStr [], f_rootCommitment = None, f_retired = True \<rparr>
           else if length list \<noteq> 5 \<or> list ! 2 \<noteq> JStr KEY_ROW then Inl (invalid ''roster area'')
           else Inr \<lparr> f_workspaceId = list ! 0, f_workspaceKeyVersion = list ! 1,
                      f_commitment = list ! 3, f_rootCommitment = Some (list ! 4), f_retired = False \<rparr>)
      | _ \<Rightarrow> Inl (invalid ''roster area''))"

definition member_parse :: "json \<Rightarrow> crypto_error + member_fields" where
  "member_parse entry =
     (case entry of
        JArr list \<Rightarrow>
          (if length list \<noteq> 9 then Inl (invalid ''roster entry'')
           else Inr \<lparr> f_userId = list ! 0, f_keyVersion = list ! 1,
             f_encryptionPublicKey = list ! 2, f_signingPublicKey = list ! 3,
             f_mlDsaPublicKeyDigest = list ! 4, f_kemPublicKeyDigest = list ! 5,
             f_status = list ! 6, f_roles = list ! 7, f_sinceVersion = list ! 8 \<rparr>)
      | _ \<Rightarrow> Inl (invalid ''roster entry''))"

definition parse_fields :: "bytes \<Rightarrow> crypto_error + roster_fields" where
  "parse_fields bytes =
     bindE (parseStatement bytes ''roster'') (\<lambda>parts.
       if length parts \<noteq> 10 \<or> parts ! 0 \<noteq> JStr ROSTER_DOMAIN \<or> parts ! 1 \<notin> num ` set ROSTER_FORMATS
       then Inl (invalid ''roster'')
       else case parts ! 9 of
         JArr rows \<Rightarrow>
           bindE (mapE (area_parse (num_of (parts ! 1))) rows) (\<lambda>areas.
             case parts ! 8 of
               JArr entries \<Rightarrow>
                 if length entries > MAX_ROSTER_MEMBERS then Inl (invalid ''roster members'')
                 else bindE (mapE member_parse entries) (\<lambda>members.
                   Inr \<lparr> f_groupId = parts ! 2, f_kind = parts ! 3, f_rosterVersion = parts ! 4,
                     f_previousRosterDigest = parts ! 5, f_groupKeyVersion = parts ! 6,
                     f_signerUserId = parts ! 7, f_members = members, f_areas = areas,
                     f_format = num_of (parts ! 1) \<rparr>)
             | _ \<Rightarrow> Inl (invalid ''roster members''))
       | _ \<Rightarrow> Inl (invalid ''roster areas''))"

definition parseRoster :: "bytes \<Rightarrow> crypto_error + roster" where
  "parseRoster bytes =
     bindE (parse_fields bytes) (\<lambda>fields.
     bindE (roster_statement fields) (\<lambda>rebuilt.
     bindE (requireCanonical bytes rebuilt ''roster'') (\<lambda>_. Inr (roster_of fields))))"

section \<open>Lemmas: names\<close>

lemma kind_of_name [simp]: "kind_of (kind_name k) = k" "kind_name k \<in> set GROUP_KINDS"
  by (cases k; simp add: kind_of_def GROUP_KINDS_def)+

lemma status_of_name [simp]: "status_of (status_name s) = s" "status_name s \<in> set STATUSES"
  by (cases s; simp add: status_of_def STATUSES_def)+

lemma role_of_name [simp]: "role_of (role_name r) = r" "role_name r \<in> set ORG_ROLES"
  by (cases r; simp add: role_of_def ORG_ROLES_def)+

lemma of_names:
  "n \<in> set GROUP_KINDS \<Longrightarrow> kind_name (kind_of n) = n"
  "n \<in> set STATUSES \<Longrightarrow> status_name (status_of n) = n"
  "n \<in> set ORG_ROLES \<Longrightarrow> role_name (role_of n) = n"
  "n \<in> set FAMILY_ROLES \<Longrightarrow> role_name (role_of n) = n"
  by (auto simp: GROUP_KINDS_def STATUSES_def ORG_ROLES_def FAMILY_ROLES_def kind_of_def
      status_of_def role_of_def)

section \<open>Lemmas: one entry, one row\<close>

lemma mapE_oneOf:
  "mapE (\<lambda>v. oneOf v allowed what) vs = Inr names \<longleftrightarrow> vs = map JStr names \<and> set names \<subseteq> set allowed"
proof (induction vs arbitrary: names)
  case (Cons v vs)
  then show ?case by (cases names) (auto simp: returns)
qed auto

lemma memberParts_Inr:
  "memberParts f knd version = Inr p \<longleftrightarrow>
     (\<exists>names since uid keyv enc sig mldsa kem st. f =
        \<lparr> f_userId = JStr uid, f_keyVersion = num keyv, f_encryptionPublicKey = JStr enc,
          f_signingPublicKey = JStr sig, f_mlDsaPublicKeyDigest = JStr mldsa,
          f_kemPublicKeyDigest = JStr kem, f_status = JStr st, f_roles = JArr (map JStr names),
          f_sinceVersion = num since \<rparr>
      \<and> p = [JStr uid, num keyv, JStr enc, JStr sig, JStr mldsa, JStr kem, JStr st,
             JArr (map JStr names), num since]
      \<and> set names \<subseteq> set (if knd = ''family'' then FAMILY_ROLES else ORG_ROLES) \<and> strictly names
      \<and> 1 \<le> since \<and> int since \<le> MAX_SAFE_INTEGER \<and> since \<le> version
      \<and> is_uuid uid \<and> 1 \<le> keyv \<and> int keyv \<le> MAX_SAFE_INTEGER
      \<and> (\<exists>b. decode enc (Some 32) = Inr b) \<and> (\<exists>b. decode sig (Some 32) = Inr b)
      \<and> (\<exists>b. decode mldsa (Some 32) = Inr b) \<and> (\<exists>b. decode kem (Some 32) = Inr b)
      \<and> st \<in> set STATUSES)"
  by (cases f; cases "f_roles f")
    (auto simp: memberParts_def returns mapE_oneOf not_less split: json.splits)

lemma member_of_fields [simp]: "member_of (member_fields_of m) = m"
  by (cases m) (simp add: member_of_def member_fields_of_def comp_def)

lemma member_fields_of_of:
  "memberParts f knd version = Inr p \<Longrightarrow> member_fields_of (member_of f) = f"
  by (auto simp: memberParts_Inr member_of_def member_fields_of_def of_names subset_iff
      split: if_splits intro!: map_idI)

lemma member_parse_parts:
  "memberParts f knd version = Inr p \<Longrightarrow> member_parse (JArr p) = Inr f"
  by (auto simp: memberParts_Inr member_parse_def)

lemma member_parts_parse:
  "member_parse (JArr p) = Inr f \<Longrightarrow> memberParts f knd version = Inr q \<Longrightarrow> p = q"
  by (auto simp: memberParts_Inr member_parse_def length_Suc_conv eval_nat_numeral split: if_splits)

lemma areaRow_Inr:
  "areaRow fmt f = Inr row \<longleftrightarrow>
     (\<exists>wid version. f_workspaceId f = JStr wid \<and> is_uuid wid \<and> f_workspaceKeyVersion f = num version
       \<and> 1 \<le> version \<and> int version \<le> MAX_SAFE_INTEGER
       \<and> (if fmt = 1 then f_rootCommitment f = None \<and> \<not> f_retired f
            \<and> (\<exists>c b. f_commitment f = JStr c \<and> decode c (Some 32) = Inr b
                 \<and> row = [JStr wid, num version, JStr c])
          else if f_retired f then f_commitment f = JStr [] \<and> f_rootCommitment f = None
            \<and> row = [JStr wid, num version, JStr RETIRED_ROW]
          else (\<exists>c b r b'. f_commitment f = JStr c \<and> decode c (Some 32) = Inr b
            \<and> f_rootCommitment f = Some (JStr r) \<and> decode r (Some 32) = Inr b'
            \<and> row = [JStr wid, num version, JStr KEY_ROW, JStr c, JStr r])))"
  by (auto simp: areaRow_def returns split: option.splits)

lemma area_of_fields [simp]: "area_of (area_fields_of a) = a"
  by (cases a) (auto simp: area_of_def area_fields_of_def option.map_comp comp_def option.map_ident)

lemma area_fields_of_of: "areaRow fmt f = Inr row \<Longrightarrow> area_fields_of (area_of f) = f"
  by (cases f) (auto simp: areaRow_Inr area_of_def area_fields_of_def split: if_splits)

lemma area_parse_row: "areaRow fmt f = Inr row \<Longrightarrow> area_parse fmt (JArr row) = Inr f"
  by (cases f) (auto simp: areaRow_Inr area_parse_def KEY_ROW_def RETIRED_ROW_def split: if_splits)


section \<open>Lemmas: the roster's codec\<close>

lemma mapE_list_all2:
  assumes "mapE f xs = Inr ys" "\<And>x y. x \<in> set xs \<Longrightarrow> f x = Inr y \<Longrightarrow> g (h y) = Inr x"
  shows "mapE g (map h ys) = Inr xs"
  using assms
proof (induction xs arbitrary: ys)
  case (Cons x xs)
  from Cons.prems(1) obtain y zs where "ys = y # zs" "f x = Inr y" "mapE f xs = Inr zs"
    by (auto simp: returns)
  moreover have "g (h y) = Inr x" using \<open>f x = Inr y\<close> by (intro Cons.prems(2)) auto
  moreover have "mapE g (map h zs) = Inr xs"
    by (rule Cons.IH [OF \<open>mapE f xs = Inr zs\<close>]) (simp add: Cons.prems(2))
  ultimately show ?case by simp
qed auto

lemma mapE_fixed:
  assumes "mapE f xs = Inr ys" "\<And>x y. x \<in> set xs \<Longrightarrow> f x = Inr y \<Longrightarrow> g x = x"
  shows "map g xs = xs"
  using assms
proof (induction xs arbitrary: ys)
  case (Cons x xs)
  then show ?case by (auto simp: returns)
qed auto

lemma areaParts_Inr:
  "areaParts list fmt = Inr parts \<longleftrightarrow>
     length list \<le> MAX_ROSTER_AREA_ROWS \<and> (\<exists>rows. mapE (areaRow fmt) list = Inr rows
       \<and> strictly (map (\<lambda>row. str_of (hd row)) rows) \<and> parts = map JArr rows)"
  by (auto simp: areaParts_def returns not_less)

lemma rosterFormat_Inr [returns]: "rosterFormat fmt = Inr f \<longleftrightarrow> fmt \<in> set ROSTER_FORMATS \<and> f = fmt"
  by (auto simp: rosterFormat_def)

text \<open>What a roster's statement holds, when there is one.\<close>

lemma roster_statement_Inr:
  assumes "roster_statement f = Inr bytes"
  shows "\<exists>knd version previous ms gid gkv signer rows.
       f_format f \<in> set ROSTER_FORMATS \<and> f_kind f = JStr knd \<and> knd \<in> set GROUP_KINDS
       \<and> f_rosterVersion f = num version \<and> 1 \<le> version \<and> int version \<le> MAX_SAFE_INTEGER
       \<and> f_previousRosterDigest f = JStr previous
       \<and> (if version = 1 then previous = [] else (\<exists>b. decode previous (Some 32) = Inr b))
       \<and> f_members f \<noteq> [] \<and> length (f_members f) \<le> MAX_ROSTER_MEMBERS
       \<and> mapE (\<lambda>m. memberParts m knd version) (f_members f) = Inr ms
       \<and> strictly (map (\<lambda>m. str_of (hd m)) ms)
       \<and> f_groupId f = JStr gid \<and> is_uuid gid
       \<and> f_groupKeyVersion f = num gkv \<and> 1 \<le> gkv \<and> int gkv \<le> MAX_SAFE_INTEGER
       \<and> f_signerUserId f = JStr signer \<and> is_uuid signer
       \<and> areaParts (f_areas f) (f_format f) = Inr rows
       \<and> encodeStatement [JStr ROSTER_DOMAIN, num (f_format f), JStr gid, JStr knd, num version,
            JStr previous, num gkv, JStr signer, JArr (map JArr ms), JArr rows] = Inr bytes"
proof -
  from assms obtain version where v: "f_rosterVersion f = num version" "1 \<le> version"
      "int version \<le> MAX_SAFE_INTEGER"
    unfolding roster_statement_def by (auto simp: bindE_Inr integer_Inr)
  show ?thesis
  proof (cases "version = 1")
    case True
    with assms v show ?thesis by (auto simp: roster_statement_def returns not_less)
  next
    case False
    with assms v show ?thesis by (auto simp: roster_statement_def returns not_less)
  qed
qed

lemma fields_of_roster_of:
  assumes "roster_statement f = Inr bytes"
  shows "roster_fields_of (roster_of f) = f"
proof -
  from assms obtain knd version previous ms gid gkv signer rows where f:
    "f_kind f = JStr knd" "knd \<in> set GROUP_KINDS" "f_rosterVersion f = num version"
    "f_previousRosterDigest f = JStr previous"
    "mapE (\<lambda>m. memberParts m knd version) (f_members f) = Inr ms"
    "f_groupId f = JStr gid" "f_groupKeyVersion f = num gkv" "f_signerUserId f = JStr signer"
    "areaParts (f_areas f) (f_format f) = Inr rows"
    by (blast dest!: roster_statement_Inr)
  have "map (\<lambda>m. member_fields_of (member_of m)) (f_members f) = f_members f"
    by (rule mapE_fixed [OF f(5)]) (rule member_fields_of_of)
  moreover obtain rs where rs: "mapE (areaRow (f_format f)) (f_areas f) = Inr rs"
    using f(9) unfolding areaParts_Inr by blast
  have "map (\<lambda>a. area_fields_of (area_of a)) (f_areas f) = f_areas f"
    by (rule mapE_fixed [OF rs]) (rule area_fields_of_of)
  ultimately show ?thesis using f(1-4,6-8)
    by (cases f) (simp add: roster_fields_of_def roster_of_def of_names comp_def)
qed

lemma roster_of_fields [simp]: "roster_of (roster_fields_of r) = r"
  by (cases r) (simp add: roster_fields_of_def roster_of_def comp_def)

lemma parse_fields_statement:
  assumes "roster_statement f = Inr bytes"
  shows "parse_fields bytes = Inr f"
proof -
  from assms obtain knd version previous ms gid gkv signer rows where f:
    "f_format f \<in> set ROSTER_FORMATS" "f_kind f = JStr knd" "f_rosterVersion f = num version"
    "f_previousRosterDigest f = JStr previous" "length (f_members f) \<le> MAX_ROSTER_MEMBERS"
    "mapE (\<lambda>m. memberParts m knd version) (f_members f) = Inr ms"
    "f_groupId f = JStr gid" "f_groupKeyVersion f = num gkv" "f_signerUserId f = JStr signer"
    "areaParts (f_areas f) (f_format f) = Inr rows"
    "encodeStatement [JStr ROSTER_DOMAIN, num (f_format f), JStr gid, JStr knd, num version,
        JStr previous, num gkv, JStr signer, JArr (map JArr ms), JArr rows] = Inr bytes"
    by (blast dest!: roster_statement_Inr)
  note p = statement.dec_enc [OF f(11), of "''roster''"]
  obtain rs where rs: "mapE (areaRow (f_format f)) (f_areas f) = Inr rs" "rows = map JArr rs"
    using f(10) unfolding areaParts_Inr by blast
  have "mapE (area_parse (f_format f)) rows = Inr (f_areas f)"
    unfolding rs(2) by (rule mapE_list_all2 [OF rs(1)]) (rule area_parse_row)
  moreover have "mapE member_parse (map JArr ms) = Inr (f_members f)"
    by (rule mapE_list_all2 [OF f(6)]) (rule member_parse_parts)
  moreover have "length ms \<le> MAX_ROSTER_MEMBERS" using mapE_length [OF f(6)] f(5) by simp
  ultimately show ?thesis using f(1-4,7-9) p
    by (cases f) (simp add: parse_fields_def numeral_nat)
qed

lemma parseRoster_Inr: "parseRoster bytes = Inr r \<longleftrightarrow> rosterStatement r = Inr bytes"
proof
  assume "parseRoster bytes = Inr r"
  then obtain f where f: "roster_statement f = Inr bytes" "r = roster_of f"
    by (auto simp: parseRoster_def returns)
  then show "rosterStatement r = Inr bytes"
    using fields_of_roster_of [OF f(1)] by (simp add: rosterStatement_def)
next
  assume "rosterStatement r = Inr bytes"
  then have "roster_statement (roster_fields_of r) = Inr bytes" by (simp add: rosterStatement_def)
  with parse_fields_statement [OF this] show "parseRoster bytes = Inr r"
    by (auto simp: parseRoster_def returns)
qed

interpretation roster: codec rosterStatement parseRoster
  by unfold_locales (simp_all add: parseRoster_Inr)


section \<open>Group key successions\<close>

definition SUCCESSION_DOMAIN :: string where
  "SUCCESSION_DOMAIN = ''hushos/group/key-succession''"

record succession_fields =
  s_groupId :: json
  s_oldVersion :: json
  s_newVersion :: json
  s_oldEd25519PublicKey :: json
  s_oldMlDsaPublicKey :: json
  s_newEd25519PublicKey :: json
  s_newMlDsaPublicKey :: json
  s_lastRosterVersion :: json
  s_lastRosterDigest :: json
  s_signerUserId :: json

definition succession_fields_of :: "group_key_succession \<Rightarrow> succession_fields" where
  "succession_fields_of s =
     \<lparr> s_groupId = JStr (succGroupId s), s_oldVersion = num (oldVersion s),
       s_newVersion = num (newVersion s), s_oldEd25519PublicKey = JStr (oldEd25519PublicKey s),
       s_oldMlDsaPublicKey = JStr (oldMlDsaPublicKey s),
       s_newEd25519PublicKey = JStr (newEd25519PublicKey s),
       s_newMlDsaPublicKey = JStr (newMlDsaPublicKey s),
       s_lastRosterVersion = num (lastRosterVersion s),
       s_lastRosterDigest = JStr (lastRosterDigest s),
       s_signerUserId = JStr (succSignerUserId s) \<rparr>"

definition succession_of :: "succession_fields \<Rightarrow> group_key_succession" where
  "succession_of f =
     \<lparr> succGroupId = str_of (s_groupId f), oldVersion = num_of (s_oldVersion f),
       newVersion = num_of (s_newVersion f), oldEd25519PublicKey = str_of (s_oldEd25519PublicKey f),
       oldMlDsaPublicKey = str_of (s_oldMlDsaPublicKey f),
       newEd25519PublicKey = str_of (s_newEd25519PublicKey f),
       newMlDsaPublicKey = str_of (s_newMlDsaPublicKey f),
       lastRosterVersion = num_of (s_lastRosterVersion f),
       lastRosterDigest = str_of (s_lastRosterDigest f),
       succSignerUserId = str_of (s_signerUserId f) \<rparr>"

definition succession_statement :: "succession_fields \<Rightarrow> crypto_error + bytes" where
  "succession_statement f =
     bindE (integer (s_oldVersion f) ''group key version'') (\<lambda>old.
     bindE (integer (s_newVersion f) ''group key version'') (\<lambda>new.
       if new \<noteq> old + 1 then Inl (invalid ''group key version'')
       else
         bindE (uuid (s_groupId f) ''group id'') (\<lambda>gid.
         bindE (bytesOf (s_oldEd25519PublicKey f) 32 ''group key'') (\<lambda>oldEd.
         bindE (bytesOf (s_oldMlDsaPublicKey f) ML_DSA_PUBLIC_KEY_BYTES ''group key'') (\<lambda>oldMl.
         bindE (bytesOf (s_newEd25519PublicKey f) 32 ''group key'') (\<lambda>newEd.
         bindE (bytesOf (s_newMlDsaPublicKey f) ML_DSA_PUBLIC_KEY_BYTES ''group key'') (\<lambda>newMl.
         bindE (integer (s_lastRosterVersion f) ''roster version'') (\<lambda>last.
         bindE (digestOf (s_lastRosterDigest f) ''roster digest'') (\<lambda>lastDigest.
         bindE (uuid (s_signerUserId f) ''user id'') (\<lambda>signer.
           encodeStatement [JStr SUCCESSION_DOMAIN, JNum 1, JStr gid, num old, num new, JStr oldEd,
             JStr oldMl, JStr newEd, JStr newMl, num last, JStr lastDigest, JStr signer]))))))))))"

definition groupSuccessionStatement :: "group_key_succession \<Rightarrow> crypto_error + bytes" where
  "groupSuccessionStatement s = succession_statement (succession_fields_of s)"

definition parseGroupSuccession :: "bytes \<Rightarrow> crypto_error + group_key_succession" where
  "parseGroupSuccession bytes =
     bindE (parseStatement bytes ''group key succession'') (\<lambda>parts.
       if length parts \<noteq> 12 \<or> parts ! 0 \<noteq> JStr SUCCESSION_DOMAIN \<or> parts ! 1 \<noteq> JNum 1
       then Inl (invalid ''group key succession'')
       else let f = \<lparr> s_groupId = parts ! 2, s_oldVersion = parts ! 3, s_newVersion = parts ! 4,
             s_oldEd25519PublicKey = parts ! 5, s_oldMlDsaPublicKey = parts ! 6,
             s_newEd25519PublicKey = parts ! 7, s_newMlDsaPublicKey = parts ! 8,
             s_lastRosterVersion = parts ! 9, s_lastRosterDigest = parts ! 10,
             s_signerUserId = parts ! 11 \<rparr>
         in bindE (succession_statement f) (\<lambda>rebuilt.
            bindE (requireCanonical bytes rebuilt ''group key succession'') (\<lambda>_.
              Inr (succession_of f))))"

lemma succession_of_fields [simp]: "succession_of (succession_fields_of s) = s"
  by (cases s) (simp add: succession_of_def succession_fields_of_def)

lemma succession_statement_fields:
  "succession_statement f = Inr bytes \<Longrightarrow> succession_fields_of (succession_of f) = f"
  by (cases f) (auto simp: succession_statement_def returns succession_of_def succession_fields_of_def)

lemma parseGroupSuccession_Inr:
  "parseGroupSuccession bytes = Inr s \<longleftrightarrow> groupSuccessionStatement s = Inr bytes"
proof
  assume "parseGroupSuccession bytes = Inr s"
  then obtain f where "succession_statement f = Inr bytes" "s = succession_of f"
    unfolding parseGroupSuccession_def Let_def by (auto simp: returns)
  then show "groupSuccessionStatement s = Inr bytes"
    by (simp add: groupSuccessionStatement_def succession_statement_fields)
next
  assume "groupSuccessionStatement s = Inr bytes"
  then have w: "succession_statement (succession_fields_of s) = Inr bytes"
    by (simp add: groupSuccessionStatement_def)
  then have "encodeStatement [JStr SUCCESSION_DOMAIN, JNum 1, JStr (succGroupId s),
      num (oldVersion s), num (newVersion s), JStr (oldEd25519PublicKey s),
      JStr (oldMlDsaPublicKey s), JStr (newEd25519PublicKey s), JStr (newMlDsaPublicKey s),
      num (lastRosterVersion s), JStr (lastRosterDigest s), JStr (succSignerUserId s)] = Inr bytes"
    by (auto simp: succession_statement_def succession_fields_of_def returns)
  note p = statement.dec_enc [OF this, of "''group key succession''"]
  with w show "parseGroupSuccession bytes = Inr s"
    by (cases s) (simp add: parseGroupSuccession_def requireCanonical_def numeral_nat
      succession_fields_of_def succession_of_def)
qed

interpretation succession: codec groupSuccessionStatement parseGroupSuccession
  by unfold_locales (simp_all add: parseGroupSuccession_Inr)

section \<open>Well-formed rosters\<close>

text \<open>
  The type invariant of a roster, field by field, and the statement's parts as a roster gives
  them. \<open>is_key n\<close>: the one encoding of \<open>n\<close> bytes.
\<close>

definition is_key :: "nat \<Rightarrow> string \<Rightarrow> bool" where
  "is_key n s \<longleftrightarrow> (case decode s (Some n) of Inl _ \<Rightarrow> False | Inr _ \<Rightarrow> True)"

definition is_version :: "nat \<Rightarrow> bool" where
  "is_version n \<longleftrightarrow> 1 \<le> n \<and> int n \<le> MAX_SAFE_INTEGER"

definition roles_of :: "group_kind \<Rightarrow> group_role list" where
  "roles_of knd = (case knd of Family \<Rightarrow> [Billing, Guardian, Members]
     | Org \<Rightarrow> [Billing, DataAdmin, Guardian, Members, Recovery])"

definition member_wf :: "group_kind \<Rightarrow> nat \<Rightarrow> roster_member \<Rightarrow> bool" where
  "member_wf knd version m \<longleftrightarrow>
     is_uuid (userId m) \<and> is_version (keyVersion m) \<and> is_key 32 (encryptionPublicKey m)
     \<and> is_key 32 (signingPublicKey m) \<and> is_key 32 (mlDsaPublicKeyDigest m)
     \<and> is_key 32 (kemPublicKeyDigest m) \<and> set (roles m) \<subseteq> set (roles_of knd) \<and> strictly (roles m)
     \<and> is_version (sinceVersion m) \<and> sinceVersion m \<le> version"

definition area_wf :: "nat \<Rightarrow> roster_area \<Rightarrow> bool" where
  "area_wf fmt a \<longleftrightarrow> is_uuid (workspaceId a) \<and> is_version (workspaceKeyVersion a) \<and>
     (if fmt = 1 then rootCommitment a = None \<and> \<not> retiredRow a \<and> is_key 32 (commitment a)
      else if retiredRow a then commitment a = [] \<and> rootCommitment a = None
      else is_key 32 (commitment a)
        \<and> (case rootCommitment a of None \<Rightarrow> False | Some root \<Rightarrow> is_key 32 root))"

definition roster_wf :: "roster \<Rightarrow> bool" where
  "roster_wf r \<longleftrightarrow>
     format r \<in> set ROSTER_FORMATS \<and> is_uuid (groupId r) \<and> is_version (rosterVersion r)
     \<and> (if rosterVersion r = 1 then previousRosterDigest r = [] else is_key 32 (previousRosterDigest r))
     \<and> is_version (groupKeyVersion r) \<and> is_uuid (signerUserId r)
     \<and> members r \<noteq> [] \<and> length (members r) \<le> MAX_ROSTER_MEMBERS
     \<and> list_all (member_wf (kind r) (rosterVersion r)) (members r)
     \<and> strictly (map userId (members r))
     \<and> length (areas r) \<le> MAX_ROSTER_AREA_ROWS \<and> list_all (area_wf (format r)) (areas r)
     \<and> strictly (map workspaceId (areas r))"

definition member_json :: "roster_member \<Rightarrow> json list" where
  "member_json m = [JStr (userId m), num (keyVersion m), JStr (encryptionPublicKey m),
     JStr (signingPublicKey m), JStr (mlDsaPublicKeyDigest m), JStr (kemPublicKeyDigest m),
     JStr (status_name (status m)), JArr (map (\<lambda>r. JStr (role_name r)) (roles m)), num (sinceVersion m)]"

definition area_json :: "nat \<Rightarrow> roster_area \<Rightarrow> json list" where
  "area_json fmt a =
     (if fmt = 1 then [JStr (workspaceId a), num (workspaceKeyVersion a), JStr (commitment a)]
      else if retiredRow a then [JStr (workspaceId a), num (workspaceKeyVersion a), JStr RETIRED_ROW]
      else [JStr (workspaceId a), num (workspaceKeyVersion a), JStr KEY_ROW, JStr (commitment a),
            JStr (the (rootCommitment a))])"

definition roster_json :: "roster \<Rightarrow> json list" where
  "roster_json r =
     [JStr ROSTER_DOMAIN, num (format r), JStr (groupId r), JStr (kind_name (kind r)),
      num (rosterVersion r), JStr (previousRosterDigest r), num (groupKeyVersion r),
      JStr (signerUserId r), JArr (map (\<lambda>m. JArr (member_json m)) (members r)),
      JArr (map (\<lambda>a. JArr (area_json (format r) a)) (areas r))]"

lemma is_key_iff: "is_key n s \<longleftrightarrow> (\<exists>b. decode s (Some n) = Inr b)"
  by (auto simp: is_key_def split: sum.splits)

lemma role_less: "(<) = (\<lambda>a b. role_name a < role_name b)"
  by (intro ext) (rule less_group_role_def)

lemma strictly_names: "strictly (map role_name rs) \<longleftrightarrow> strictly rs"
  by (simp add: strictly_iff sorted_wrt_map role_less)

lemma role_names: "role_name ` set rs \<subseteq> set (if kind_name knd = ''family'' then FAMILY_ROLES else ORG_ROLES)
    \<longleftrightarrow> set rs \<subseteq> set (roles_of knd)"
proof -
  have "role_name r \<in> set (if kind_name knd = ''family'' then FAMILY_ROLES else ORG_ROLES)
      \<longleftrightarrow> r \<in> set (roles_of knd)" for r
    by (cases r; cases knd) (simp_all add: FAMILY_ROLES_def ORG_ROLES_def roles_of_def)
  then show ?thesis by blast
qed

lemma map_JStr_role: "map (\<lambda>r. JStr (role_name r)) rs = map JStr names \<longleftrightarrow> names = map role_name rs"
  by (induction rs arbitrary: names) (auto simp: Cons_eq_map_conv)

lemma memberParts_of:
  "memberParts (member_fields_of m) (kind_name knd) version = Inr p \<longleftrightarrow>
     member_wf knd version m \<and> p = member_json m"
  unfolding memberParts_Inr member_fields_of_def member_wf_def member_json_def is_key_iff is_version_def
  by (auto simp: map_JStr_role strictly_names role_names [symmetric])

lemma areaRow_of: "areaRow fmt (area_fields_of a) = Inr row \<longleftrightarrow> area_wf fmt a \<and> row = area_json fmt a"
  unfolding areaRow_Inr area_wf_def area_json_def is_key_iff is_version_def
  by (auto simp: area_fields_of_def split: option.splits)

lemma mapE_of:
  assumes "\<And>x y. f (g x) = Inr y \<longleftrightarrow> P x \<and> y = h x"
  shows "mapE f (map g xs) = Inr ys \<longleftrightarrow> list_all P xs \<and> ys = map h xs"
  by (induction xs arbitrary: ys) (auto simp: returns assms)

lemma rosterStatement_wf:
  "rosterStatement r = Inr bytes \<longleftrightarrow> roster_wf r \<and> encodeStatement (roster_json r) = Inr bytes"
proof -
  let ?f = "roster_fields_of r"
  have hd: "str_of (hd (member_json m)) = userId m" "str_of (hd (area_json fmt a)) = workspaceId a" for m fmt a
    by (simp_all add: member_json_def area_json_def)
  have m: "mapE (\<lambda>m. memberParts m (kind_name (kind r)) (rosterVersion r)) (map member_fields_of (members r)) = Inr ms
      \<longleftrightarrow> list_all (member_wf (kind r) (rosterVersion r)) (members r) \<and> ms = map member_json (members r)" for ms
    by (rule mapE_of) (rule memberParts_of)
  have a: "mapE (areaRow (format r)) (map area_fields_of (areas r)) = Inr rows
      \<longleftrightarrow> list_all (area_wf (format r)) (areas r) \<and> rows = map (area_json (format r)) (areas r)" for rows
    by (rule mapE_of) (rule areaRow_of)
  show ?thesis
    unfolding rosterStatement_def roster_statement_def
    by (auto simp: roster_fields_of_def returns m a hd areaParts_Inr roster_wf_def is_key_iff is_version_def
        roster_json_def comp_def not_less split: if_splits)
qed


section \<open>Every well-formed roster has a statement\<close>

text \<open>Its parts are within the statement grammar, and at most 3.5 MB long: under the 4 MiB bound.\<close>

lemma is_key_plain: "is_key n s \<Longrightarrow> list_all plain_char s"
  unfolding is_key_iff by (auto dest: decode_plain)

lemma is_version_safe: "is_version n \<Longrightarrow> isSafeInteger (int n)"
  by (simp add: is_version_def isSafeInteger_def MAX_SAFE_INTEGER_def)

lemma constants_plain [simp]:
  "list_all plain_char (kind_name knd)" "list_all plain_char (status_name st)"
  "list_all plain_char (role_name role)" "list_all plain_char ROSTER_DOMAIN"
  "list_all plain_char KEY_ROW" "list_all plain_char RETIRED_ROW"
  by (cases knd; cases st; cases role;
      simp add: plain_char_def ROSTER_DOMAIN_def KEY_ROW_def RETIRED_ROW_def)+

lemma member_grammatical: "member_wf knd version m \<Longrightarrow> grammatical (JArr (member_json m)) 2"
  by (auto simp: member_wf_def member_json_def uuid_plain is_key_plain is_version_safe list_all_iff [of _ "map _ _"])

lemma area_grammatical: "area_wf fmt a \<Longrightarrow> grammatical (JArr (area_json fmt a)) 2"
  by (auto simp: area_wf_def area_json_def uuid_plain is_key_plain is_version_safe split: if_splits option.splits)

lemma roster_grammatical:
  assumes "roster_wf r"
  shows "grammatical (JArr (roster_json r)) 0"
proof -
  have "list_all (\<lambda>m. grammatical (JArr (member_json m)) 2) (members r)"
    "list_all (\<lambda>a. grammatical (JArr (area_json (format r) a)) 2) (areas r)"
    using assms member_grammatical area_grammatical
    unfolding roster_wf_def by (metis (no_types, lifting) list.pred_mono_strong)+
  then have "list_all (\<lambda>v. grammatical v 1) [JArr (map (\<lambda>m. JArr (member_json m)) (members r)),
      JArr (map (\<lambda>a. JArr (area_json (format r) a)) (areas r))]"
    by (simp add: list.pred_map comp_def numeral_2_eq_2)
  moreover have "list_all plain_char (previousRosterDigest r)" "isSafeInteger (int (format r))"
    using assms is_key_plain [of 32 "previousRosterDigest r"]
    by (auto simp: roster_wf_def ROSTER_FORMATS_def isSafeInteger_def MAX_SAFE_INTEGER_def split: if_splits)
  ultimately show ?thesis using assms
    by (simp add: roster_wf_def roster_json_def uuid_plain is_version_safe)
qed

lemma decimal_length: "n < 10 ^ k \<Longrightarrow> 0 < k \<Longrightarrow> length (decimal n) \<le> k"
proof (induction k arbitrary: n)
  case (Suc k)
  show ?case
  proof (cases "n < 10")
    case True
    then show ?thesis by (subst decimal.simps) simp
  next
    case False
    then have "0 < k" using Suc.prems(1) by (cases k) auto
    moreover have "n div 10 < 10 ^ k" using Suc.prems(1) by (simp add: div_less_iff_less_mult mult.commute)
    ultimately have "length (decimal (n div 10)) \<le> k" by (rule Suc.IH [rotated])
    with False show ?thesis by (subst decimal.simps) simp
  qed
qed simp

lemma version_length: "is_version n \<Longrightarrow> length (decimal n) \<le> 16"
  by (rule decimal_length) (simp_all add: is_version_def MAX_SAFE_INTEGER_def)

lemma key_length: "is_key 32 s \<Longrightarrow> length s = 43"
  by (auto simp: is_key_iff decode_Inr encode_length)

lemma uuid_length: "is_uuid s \<Longrightarrow> length s = 36"
  by (simp add: is_uuid_def)

lemma items_length: "list_all (\<lambda>v. length (stringify v) < n) vs \<Longrightarrow> length (stringify_items vs) \<le> n * length vs"
proof (induction vs rule: induct_list012)
  case (3 x y zs)
  then show ?case by auto
qed auto

lemma string_length: "list_all plain_char s \<Longrightarrow> length (stringify (JStr s)) = length s + 2"
  by (simp add: escape_plain)

lemma text_encode_length: "ascii s \<Longrightarrow> length (text_encode s) = length s"
  by (simp add: text_encode_ascii)

lemma name_lengths: "length (kind_name knd) \<le> 6" "length (status_name st) \<le> 6" "length (role_name role) \<le> 10"
  by (cases knd; cases st; cases role; simp)+

lemma role_name_length: "length (role_name role) < 11"
  by (cases role) simp_all

lemma member_length:
  assumes "member_wf knd version m"
  shows "length (stringify (JArr (member_json m))) < 390"
proof -
  have "distinct (roles m)" using assms by (simp add: member_wf_def strictly_distinct)
  then have "length (roles m) \<le> length (roles_of knd)"
    using assms card_mono [of "set (roles_of knd)" "set (roles m)"] distinct_card [of "roles m"]
    by (auto simp: member_wf_def intro: order.trans [OF _ card_length])
  then have "length (roles m) \<le> 5" by (cases knd) (simp_all add: roles_of_def)
  moreover have "length (stringify_items (map (\<lambda>r. JStr (role_name r)) (roles m))) \<le> 13 * length (map (\<lambda>r. JStr (role_name r)) (roles m))"
    by (rule items_length) (auto simp: list_all_iff [of _ "map _ _"] escape_plain role_name_length)
  ultimately have "length (stringify_items (map (\<lambda>r. JStr (role_name r)) (roles m))) \<le> 65" by simp
  with assms show ?thesis
    using version_length [of "keyVersion m"] version_length [of "sinceVersion m"] name_lengths(2) [of "status m"]
    by (simp add: member_wf_def member_json_def escape_plain uuid_plain is_key_plain [where n = 32] key_length uuid_length)
qed

lemma area_length:
  assumes "area_wf fmt a"
  shows "length (stringify (JArr (area_json fmt a))) < 200"
  using assms version_length [of "workspaceKeyVersion a"]
  by (auto simp: area_wf_def area_json_def escape_plain uuid_plain is_key_plain [where n = 32] key_length uuid_length
      KEY_ROW_def RETIRED_ROW_def plain_char_def split: if_splits option.splits)

lemma roster_encodes:
  assumes "roster_wf r"
  shows "encodeStatement (roster_json r) = Inr (text_encode (stringify (JArr (roster_json r))))"
proof -
  let ?ms = "map (\<lambda>m. JArr (member_json m)) (members r)"
  let ?as = "map (\<lambda>a. JArr (area_json (format r) a)) (areas r)"
  note g = roster_grammatical [OF assms]
  have "list_all (\<lambda>v. length (stringify v) < 390) ?ms" "list_all (\<lambda>v. length (stringify v) < 200) ?as"
    using assms member_length area_length
    by (auto simp: roster_wf_def list_all_iff simp del: stringify.simps)
  from items_length [OF this(1)] items_length [OF this(2)] assms
  have l: "length (stringify_items ?ms) \<le> 390 * 10000" "length (stringify_items ?as) \<le> 200 * 1024"
    by (simp_all add: roster_wf_def MAX_ROSTER_MEMBERS_def MAX_ROSTER_AREA_ROWS_def)
  have d: "length (previousRosterDigest r) \<le> 43" "length (escape (previousRosterDigest r)) \<le> 43"
    "length (decimal (format r)) \<le> 1"
    using assms key_length [of "previousRosterDigest r"] is_key_plain [of 32 "previousRosterDigest r"]
    by (auto simp: roster_wf_def escape_plain [of "previousRosterDigest r"] escape_plain [of "[]"] ROSTER_FORMATS_def
        intro: decimal_length split: if_splits)
  have "length (stringify (JArr (roster_json r))) \<le> MAX_STATEMENT_BYTES"
    using assms l d version_length [of "rosterVersion r"] version_length [of "groupKeyVersion r"]
      name_lengths(1) [of "kind r"]
    by (simp add: roster_wf_def roster_json_def escape_plain uuid_plain uuid_length
        MAX_STATEMENT_BYTES_def ROSTER_DOMAIN_def [THEN arg_cong [of _ _ length]])
  then show ?thesis
    using g text_encode_length [OF stringify_ascii [OF grammatical_clean [OF g]]]
    unfolding encodeStatement_Inr by simp
qed

section \<open>Properties\<close>

text \<open>A roster has a statement exactly when it is well-formed (its version and formats in
  range, the empty previous digest only at version 1, between 1 and 10,000 members and at most 1,024
  area rows, each in its canonical form and order), and the statement is then its parts written out:
  no well-formed roster is too large.\<close>

theorem roster_statement_exists:
  "rosterStatement r = Inr bytes \<longleftrightarrow>
     roster_wf r \<and> bytes = text_encode (stringify (JArr (roster_json r)))"
  using roster_encodes [of r] by (auto simp: rosterStatement_wf)

text \<open>C37. \<open>parseRoster\<close> takes exactly the bytes \<open>rosterStatement\<close> writes, and gives back the roster
  they were written from: what is signed is one roster, and a roster has one encoding.\<close>

theorem roster_codec: "parseRoster bytes = Inr r \<longleftrightarrow> rosterStatement r = Inr bytes"
  by (rule roster.reads_iff_writes)

text \<open>The same of group key successions.\<close>

theorem succession_codec: "parseGroupSuccession bytes = Inr s \<longleftrightarrow> groupSuccessionStatement s = Inr bytes"
  by (rule succession.reads_iff_writes)

section \<open>Sample rosters\<close>

text \<open>
  For the witnesses: a family of two holders with one folder, the same family after the folder's
  rotation, and after the second holder left.
\<close>

definition sample_uuid :: "char \<Rightarrow> string" where
  "sample_uuid c = map (\<lambda>i. if i \<in> {8, 13, 18, 23} then CHR ''-'' else c) [0..<36]"

definition sample_key :: "byte \<Rightarrow> string" where
  "sample_key n = encode (replicate 32 n)"

definition sample_member :: "char \<Rightarrow> roster_member" where
  "sample_member c = \<lparr> userId = sample_uuid c, keyVersion = 1, encryptionPublicKey = sample_key 1,
     signingPublicKey = sample_key 2, mlDsaPublicKeyDigest = sample_key 3,
     kemPublicKeyDigest = sample_key 4, status = Active, roles = [Members], sinceVersion = 1 \<rparr>"

definition sample_area :: "nat \<Rightarrow> byte \<Rightarrow> roster_area" where
  "sample_area v n = \<lparr> workspaceId = sample_uuid CHR ''e'', workspaceKeyVersion = v,
     commitment = sample_key (n + 1), rootCommitment = Some (sample_key n), retiredRow = False \<rparr>"

definition sample_roster :: roster where
  "sample_roster = \<lparr> groupId = sample_uuid CHR ''f'', kind = Family, rosterVersion = 1,
     previousRosterDigest = [], groupKeyVersion = 1, signerUserId = sample_uuid CHR ''a'',
     members = [sample_member CHR ''a'', sample_member CHR ''b''], areas = [sample_area 1 10], format = 2 \<rparr>"

lemma sample_uuid_ok: "hex_char c \<Longrightarrow> is_uuid (sample_uuid c)"
  by (simp add: sample_uuid_def is_uuid_def upt_rec numeral_nat)

lemma sample_key_ok [simp]: "is_key 32 (sample_key n)"
  by (auto simp: sample_key_def is_key_iff decode_Inr intro!: exI [of _ "replicate 32 n"])

lemma sample_key_eq [simp]: "sample_key m = sample_key n \<longleftrightarrow> m = n"
  using encode_inj [of "replicate 32 m" "replicate 32 n"] by (auto simp: sample_key_def)

lemma sample_uuids: "is_uuid (sample_uuid CHR ''a'')" "is_uuid (sample_uuid CHR ''b'')"
  "is_uuid (sample_uuid CHR ''e'')" "is_uuid (sample_uuid CHR ''f'')"
  by (simp_all add: sample_uuid_ok hex_char_def)

lemma sample_uuid_less: "sample_uuid CHR ''a'' < sample_uuid CHR ''b''"
  by (simp add: sample_uuid_def upt_rec)

lemma sample_member_ok: "is_uuid (sample_uuid c) \<Longrightarrow> 1 \<le> v \<Longrightarrow> member_wf Family v (sample_member c)"
  by (simp add: member_wf_def sample_member_def is_version_def MAX_SAFE_INTEGER_def roles_of_def)

lemma sample_area_ok: "is_version v \<Longrightarrow> area_wf 2 (sample_area v n)"
  by (simp add: area_wf_def sample_area_def sample_uuids)

lemma sample_roster_wf: "roster_wf sample_roster"
  using sample_uuids sample_uuid_less
  by (simp add: roster_wf_def sample_roster_def sample_member_ok sample_area_ok is_version_def
      MAX_SAFE_INTEGER_def ROSTER_FORMATS_def MAX_ROSTER_MEMBERS_def MAX_ROSTER_AREA_ROWS_def)
   (simp add: sample_member_def)

end
