(* ===== verification/Area_Ledger.thy ===== *)
theory Area_Ledger
  imports Rosters "HOL-Library.Multiset"
begin

text \<open>
  \<open>packages/crypto/src/area-keys.ts\<close> (the commitments and \<open>rowsAfter\<close>, the rows a signer computes)
  and the area ledger of \<open>group-trust.ts\<close> (\<open>checkAreas\<close>, \<open>foldAreas\<close>, the rows a reader accepts):
  every key a family folder (area) ever had, by version, folded from the chain's rosters.
\<close>

section \<open>Commitments (area-keys.ts)\<close>

definition AREA_COMMIT_INFO :: string where
  "AREA_COMMIT_INFO = ''hushos/group/area-key/v2''"

definition AREA_ROOT_COMMIT_INFO :: string where
  "AREA_ROOT_COMMIT_INFO = ''hushos/group/area-root/v1''"

definition commit :: "primitives \<Rightarrow> bytes \<Rightarrow> string \<Rightarrow> string" where
  "commit P key info = encode (hkdf P key (replicate 32 0) (text_encode info))"

definition areaKeyCommitment :: "primitives \<Rightarrow> bytes \<Rightarrow> crypto_error + string" where
  "areaKeyCommitment P workspaceKey =
     (if length workspaceKey \<noteq> 32 then Inl (invalid ''workspace key'')
      else Inr (commit P workspaceKey AREA_COMMIT_INFO))"

definition areaRootCommitment :: "primitives \<Rightarrow> bytes \<Rightarrow> crypto_error + string" where
  "areaRootCommitment P rootKey =
     (if length rootKey \<noteq> 32 then Inl (invalid ''area root key'')
      else Inr (commit P rootKey AREA_ROOT_COMMIT_INFO))"

definition EARLIER_KEY :: crypto_error where
  "EARLIER_KEY = CryptoError (''This is one of the group'' @ rsquo @ ''s earlier keys: a rotation needs a new one.'')"
definition EARLIER_ROOT :: crypto_error where
  "EARLIER_ROOT = CryptoError ''This folder key was used before: a rotation needs a new one.''"
definition NO_ROOT_KEY :: crypto_error where
  "NO_ROOT_KEY = CryptoError (''A new area key needs its folder'' @ rsquo @ ''s key beside it.'')"
definition OLD_FORMAT :: crypto_error where
  "OLD_FORMAT = CryptoError ''This member list format has no folder keys or deleted folders.''"
definition NOT_AN_AREA :: crypto_error where
  "NOT_AN_AREA = CryptoError (''This folder is not one of the group'' @ rsquo @ ''s.'')"
definition RETIRED :: crypto_error where
  "RETIRED = CryptoError ''This family folder was deleted: it cannot be used again.''"

section \<open>The rows a roster carries (rowsAfter)\<close>

text \<open>A \<open>Record\<close> from ids to lists is an association list in the order its keys were added.\<close>

type_synonym 'a by_area = "(string \<times> 'a list) list"

record listed_areas =
  l_keys :: "string by_area"
  l_roots :: "string option by_area"
  l_retired :: "string list"

definition NOTHING_LISTED :: listed_areas where
  "NOTHING_LISTED = \<lparr> l_keys = [], l_roots = [], l_retired = [] \<rparr>"

record area_key =
  k_workspaceId :: string
  k_workspaceKey :: bytes
  k_rootKey :: "bytes option"

text \<open>\<open>Object.values(record).flat()\<close>\<close>

definition flat :: "'a by_area \<Rightarrow> 'a list" where
  "flat m = concat (map snd m)"

text \<open>The commitments among the roots (\<open>null\<close> left out).\<close>

definition somes :: "'a option list \<Rightarrow> 'a list" where
  "somes xs = map the (filter (\<lambda>x. x \<noteq> None) xs)"

fun named_areas :: "string list \<Rightarrow> string list \<Rightarrow> string list \<Rightarrow> crypto_error + unit" where
  "named_areas retired seen [] = Inr ()"
| "named_areas retired seen (wid # ids) =
     bindE (uuid (JStr wid) ''workspace id'') (\<lambda>_.
       if wid \<in> set seen then Inl (invalid ''roster areas'')
       else if wid \<in> set retired then Inl RETIRED
       else named_areas retired (wid # seen) ids)"

definition versions_of :: "'a by_area \<Rightarrow> string \<Rightarrow> nat" where
  "versions_of m wid = length (get_or [] m wid)"

fun key_rows :: "primitives \<Rightarrow> listed_areas \<Rightarrow> nat \<Rightarrow> string list \<Rightarrow> string list \<Rightarrow> area_key list
    \<Rightarrow> crypto_error + roster_area list" where
  "key_rows P listed fmt fresh freshRoots [] = Inr []"
| "key_rows P listed fmt fresh freshRoots (k # ks) =
     (if (fmt = 1) \<noteq> (k_rootKey k = None) then Inl (if fmt = 1 then OLD_FORMAT else NO_ROOT_KEY)
      else bindE (areaKeyCommitment P (k_workspaceKey k)) (\<lambda>c.
        if c \<in> set (flat (l_keys listed)) \<or> c \<in> set fresh then Inl EARLIER_KEY
        else
          let row = \<lparr> workspaceId = k_workspaceId k,
                workspaceKeyVersion = versions_of (l_keys listed) (k_workspaceId k) + 1,
                commitment = c, rootCommitment = None, retiredRow = False \<rparr>
          in case k_rootKey k of
            None \<Rightarrow> bindE (key_rows P listed fmt (c # fresh) freshRoots ks) (\<lambda>rows. Inr (row # rows))
          | Some rootKey \<Rightarrow>
              bindE (areaRootCommitment P rootKey) (\<lambda>r.
                if r \<in> set (somes (flat (l_roots listed))) \<or> r \<in> set freshRoots
                then Inl EARLIER_ROOT
                else bindE (key_rows P listed fmt (c # fresh) (r # freshRoots) ks) (\<lambda>rows.
                  Inr (row\<lparr> rootCommitment := Some r \<rparr> # rows)))))"

definition retire_row :: "listed_areas \<Rightarrow> string \<Rightarrow> crypto_error + roster_area" where
  "retire_row listed wid =
     (if versions_of (l_keys listed) wid = 0 then Inl NOT_AN_AREA
      else Inr \<lparr> workspaceId = wid, workspaceKeyVersion = versions_of (l_keys listed) wid + 1,
                 commitment = [], rootCommitment = None, retiredRow = True \<rparr>)"

definition rowsAfter ::
    "primitives \<Rightarrow> listed_areas \<Rightarrow> area_key list \<Rightarrow> nat \<Rightarrow> string list \<Rightarrow> crypto_error + roster_area list" where
  "rowsAfter P listed keys fmt retire =
     (if fmt = 1 \<and> retire \<noteq> [] then Inl OLD_FORMAT
      else bindE (named_areas (l_retired listed) [] (map k_workspaceId keys @ retire)) (\<lambda>_.
        bindE (key_rows P listed fmt [] [] keys) (\<lambda>rows.
        bindE (mapE (retire_row listed) retire) (\<lambda>tombs.
          Inr (sort_key workspaceId (rows @ tombs))))))"

section \<open>The ledger (group-trust.ts)\<close>

definition NOT_ROTATED :: crypto_error where
  "NOT_ROTATED = CryptoError ''A roster that removes a family member rotates every area.''"
definition ADMITS_ON_REMOVAL :: crypto_error where
  "ADMITS_ON_REMOVAL = CryptoError ''No one is admitted on the roster that removes a key holder.''"
definition TOO_MANY_AREAS :: crypto_error where
  "TOO_MANY_AREAS = CryptoError ''A family has at most 1,024 areas.''"
definition REUSED_KEY :: crypto_error where
  "REUSED_KEY = CryptoError ''This area key was used before: a rotation needs a new one.''"
definition REUSED_ROOT :: crypto_error where
  "REUSED_ROOT = CryptoError ''This folder key was used before: a rotation needs a new one.''"
definition DOWNGRADE :: crypto_error where
  "DOWNGRADE = CryptoError ''This member list is in an older format than the one before it.''"
definition NOT_FOLLOWING_AREAS :: crypto_error where
  "NOT_FOLLOWING_AREAS = CryptoError ''This member list does not follow from the one before.''"

text \<open>\<open>Map\<close>s and \<open>Set\<close>s, each in insertion order.\<close>

record area_ledger =
  keys :: "string by_area"
  roots :: "string option by_area"
  retired :: "string list"
  commitments :: "string list"
  rootCommitments :: "string list"

definition set_add :: "'a \<Rightarrow> 'a list \<Rightarrow> 'a list" where
  "set_add x xs = (if x \<in> set xs then xs else xs @ [x])"

text \<open>\<open>rosterEntry\<close> and \<open>activeWith\<close> of \<open>groups.ts\<close>.\<close>

definition rosterEntry :: "roster \<Rightarrow> string \<Rightarrow> roster_member option" where
  "rosterEntry r uid = find (\<lambda>m. userId m = uid) (members r)"

definition activeWith :: "roster_member option \<Rightarrow> group_role option \<Rightarrow> bool" where
  "activeWith entry role =
     (case entry of None \<Rightarrow> False
      | Some m \<Rightarrow> status m = Active \<and> (case role of None \<Rightarrow> True | Some r \<Rightarrow> r \<in> set (roles m)))"

text \<open>Whether \<open>next\<close> takes away a \<open>members\<close> holder of \<open>previous\<close>.\<close>

definition dropsHolder :: "roster \<Rightarrow> roster \<Rightarrow> bool" where
  "dropsHolder previous nxt =
     list_ex (\<lambda>entry. activeWith (Some entry) (Some Members)
       \<and> \<not> activeWith (rosterEntry nxt (userId entry)) (Some Members)) (members previous)"

fun check_versions :: "area_ledger \<Rightarrow> roster_area list \<Rightarrow> crypto_error + unit" where
  "check_versions ledger [] = Inr ()"
| "check_versions ledger (row # rows) =
     (if workspaceId row \<in> set (retired ledger) then Inl RETIRED
      else let versions = versions_of (keys ledger) (workspaceId row) in
        if workspaceKeyVersion row \<noteq> versions + 1 \<or> (retiredRow row \<and> versions = 0)
        then Inl NOT_FOLLOWING_AREAS else check_versions ledger rows)"

fun check_fresh :: "area_ledger \<Rightarrow> string list \<Rightarrow> string list \<Rightarrow> roster_area list \<Rightarrow> crypto_error + unit" where
  "check_fresh ledger fresh freshRoots [] = Inr ()"
| "check_fresh ledger fresh freshRoots (row # rows) =
     (if retiredRow row then check_fresh ledger fresh freshRoots rows
      else if commitment row \<in> set (commitments ledger) \<or> commitment row \<in> set fresh
        then Inl REUSED_KEY
      else case rootCommitment row of
          None \<Rightarrow> check_fresh ledger (commitment row # fresh) freshRoots rows
        | Some root \<Rightarrow>
            if root \<in> set (rootCommitments ledger) \<or> root \<in> set freshRoots then Inl REUSED_ROOT
            else check_fresh ledger (commitment row # fresh) (root # freshRoots) rows)"

definition live_after :: "area_ledger \<Rightarrow> roster_area list \<Rightarrow> int" where
  "live_after ledger rows =
     int (length (keys ledger)) - int (length (retired ledger))
       + int (length (filter (\<lambda>row. workspaceId row \<notin> fst ` set (keys ledger)) rows))
       - int (length (filter retiredRow rows))"

definition leaves :: "roster \<Rightarrow> roster \<Rightarrow> bool" where
  "leaves previous nxt =
     list_ex (\<lambda>entry. status entry = Left
       \<and> (case rosterEntry previous (userId entry) of None \<Rightarrow> False | Some m \<Rightarrow> status m = Active))
       (members nxt)"

definition admits :: "roster \<Rightarrow> roster \<Rightarrow> bool" where
  "admits previous nxt =
     list_ex (\<lambda>entry. status entry = Active
       \<and> (case rosterEntry previous (userId entry) of None \<Rightarrow> True | Some m \<Rightarrow> status m \<noteq> Active))
       (members nxt)"

definition checkAreas :: "area_ledger \<Rightarrow> roster option \<Rightarrow> roster \<Rightarrow> crypto_error + unit" where
  "checkAreas ledger previous nxt =
     bindE (case previous of None \<Rightarrow> Inr ()
        | Some prev \<Rightarrow> bindE (rosterFormat (format nxt)) (\<lambda>n. bindE (rosterFormat (format prev)) (\<lambda>p.
            refuse_if (n < p) DOWNGRADE))) (\<lambda>_.
     bindE (check_versions ledger (areas nxt)) (\<lambda>_.
     bindE (check_fresh ledger [] [] (areas nxt)) (\<lambda>_.
       if kind nxt = Family \<and> live_after ledger (areas nxt) > int MAX_FAMILY_AREAS
       then Inl TOO_MANY_AREAS
       else case previous of
         None \<Rightarrow> Inr ()
       | Some prev \<Rightarrow>
           if kind nxt = Family \<and> leaves prev nxt
             \<and> list_ex (\<lambda>wid. wid \<notin> set (retired ledger) \<and> wid \<notin> workspaceId ` set (areas nxt))
                 (map fst (keys ledger))
           then Inl NOT_ROTATED
           else refuse_if (admits prev nxt \<and> dropsHolder prev nxt) ADMITS_ON_REMOVAL)))"

definition fold_row :: "area_ledger \<Rightarrow> roster_area \<Rightarrow> area_ledger" where
  "fold_row ledger row =
     (if retiredRow row then ledger\<lparr> retired := set_add (workspaceId row) (retired ledger) \<rparr>
      else ledger\<lparr>
        keys := AList.update (workspaceId row)
          (get_or [] (keys ledger) (workspaceId row) @ [commitment row]) (keys ledger),
        roots := AList.update (workspaceId row)
          (get_or [] (roots ledger) (workspaceId row) @ [rootCommitment row]) (roots ledger),
        commitments := set_add (commitment row) (commitments ledger),
        rootCommitments := (case rootCommitment row of None \<Rightarrow> rootCommitments ledger
          | Some root \<Rightarrow> set_add root (rootCommitments ledger)) \<rparr>)"

definition foldAreas :: "area_ledger \<Rightarrow> roster \<Rightarrow> area_ledger" where
  "foldAreas ledger roster = foldl fold_row ledger (areas roster)"

definition empty_ledger :: area_ledger where
  "empty_ledger = \<lparr> keys = [], roots = [], retired = [], commitments = [], rootCommitments = [] \<rparr>"

section \<open>The ledger's invariant\<close>

text \<open>
  Every area has its versions' keys, and as many roots; no key and no root is listed twice, in
  any area at any version; the two sets are those lists; a retired area is one of the areas.
\<close>

definition ledger_inv :: "area_ledger \<Rightarrow> bool" where
  "ledger_inv L \<longleftrightarrow>
     distinct (map fst (keys L)) \<and> map fst (roots L) = map fst (keys L)
     \<and> (\<forall>wid \<in> fst ` set (keys L). versions_of (keys L) wid > 0)
     \<and> (\<forall>wid. versions_of (roots L) wid = versions_of (keys L) wid)
     \<and> distinct (retired L) \<and> set (retired L) \<subseteq> fst ` set (keys L)
     \<and> distinct (flat (keys L)) \<and> set (commitments L) = set (flat (keys L))
     \<and> distinct (somes (flat (roots L))) \<and> set (rootCommitments L) = set (somes (flat (roots L)))"

text \<open>One row, against the ledger as it stands when the row is folded in.\<close>

definition row_ok :: "area_ledger \<Rightarrow> roster_area \<Rightarrow> bool" where
  "row_ok L row \<longleftrightarrow>
     workspaceId row \<notin> set (retired L)
     \<and> workspaceKeyVersion row = versions_of (keys L) (workspaceId row) + 1
     \<and> (if retiredRow row then versions_of (keys L) (workspaceId row) > 0
        else commitment row \<notin> set (commitments L)
          \<and> (case rootCommitment row of None \<Rightarrow> True | Some r \<Rightarrow> r \<notin> set (rootCommitments L)))"

lemma set_add_set [simp]: "set (set_add x xs) = insert x (set xs)"
  by (auto simp: set_add_def)

lemma set_add_distinct [simp]: "distinct (set_add x xs) \<longleftrightarrow> distinct xs"
  by (simp add: set_add_def)

lemma set_add_length: "x \<notin> set xs \<Longrightarrow> length (set_add x xs) = Suc (length xs)"
  by (simp add: set_add_def)

lemma get_or_update: "get_or d (AList.update k v m) j = (if j = k then v else get_or d m j)"
  by (simp add: map_of_alist_update)

lemma versions_of_update:
  "versions_of (AList.update k (get_or [] m k @ [x]) m) j =
     (if j = k then Suc (versions_of m j) else versions_of m j)"
  by (simp add: versions_of_def map_of_alist_update split: option.split)

lemma versions_of_absent: "k \<notin> fst ` set m \<Longrightarrow> versions_of m k = 0"
  by (simp add: versions_of_def map_of_eq_None_iff [THEN iffD2])

lemma mset_flat_update:
  "distinct (map fst m) \<Longrightarrow>
     mset (flat (AList.update k (get_or [] m k @ [x]) m)) = add_mset x (mset (flat m))"
proof (induction m)
  case Nil
  then show ?case by (simp add: flat_def)
next
  case (Cons p m)
  then show ?case
  proof (cases "fst p = k")
    case True
    with Cons.prems show ?thesis by (simp add: flat_def)
  next
    case False
    with Cons show ?thesis by (simp add: flat_def)
  qed
qed

lemma mset_somes: "mset xs = mset ys \<Longrightarrow> mset (somes xs) = mset (somes ys)"
  by (simp add: somes_def flip: mset_filter mset_map)
    (simp add: mset_filter)

lemma somes_simps [simp]: "somes [] = []" "somes (None # xs) = somes xs" "somes (Some x # xs) = x # somes xs"
  by (simp_all add: somes_def)

lemma mset_distinct_add: "mset xs = add_mset x (mset ys) \<Longrightarrow> distinct xs \<longleftrightarrow> x \<notin> set ys \<and> distinct ys"
  using mset_eq_imp_distinct_iff [of xs "x # ys"] by simp

lemma mset_set_add: "mset xs = add_mset x (mset ys) \<Longrightarrow> set xs = insert x (set ys)"
  using mset_eq_setD [of xs "x # ys"] by simp

lemma map_fst_update: "map fst (AList.update k v m) =
    (if k \<in> set (map fst m) then map fst m else map fst m @ [k])"
  by (rule update_keys)

lemma fold_row_key_inv:
  assumes inv: "ledger_inv L" and ok: "row_ok L row" and key: "\<not> retiredRow row"
  shows "ledger_inv (fold_row L row)"
proof -
  let ?w = "workspaceId row" and ?c = "commitment row" and ?r = "rootCommitment row"
  let ?K = "AList.update ?w (get_or [] (keys L) ?w @ [?c]) (keys L)"
  let ?R = "AList.update ?w (get_or [] (roots L) ?w @ [?r]) (roots L)"
  from inv have d: "distinct (map fst (keys L))" "distinct (map fst (roots L))"
    by (simp_all add: ledger_inv_def)
  note K = mset_flat_update [OF d(1), of ?w ?c] and R = mset_flat_update [OF d(2), of ?w ?r]
  have K': "distinct (flat ?K)" "set (flat ?K) = insert ?c (set (flat (keys L)))"
    using inv ok key mset_distinct_add [OF K] mset_set_add [OF K]
    by (auto simp: ledger_inv_def row_ok_def)
  have R': "distinct (somes (flat ?R)) \<and> set (somes (flat ?R)) =
      (case ?r of None \<Rightarrow> set (somes (flat (roots L))) | Some r \<Rightarrow> insert r (set (somes (flat (roots L)))))"
  proof (cases ?r)
    case None
    with R have m: "mset (somes (flat ?R)) = mset (somes (flat (roots L)))"
      using mset_somes [of "flat ?R" "None # flat (roots L)"] by simp
    from mset_eq_imp_distinct_iff [OF m] mset_eq_setD [OF m] inv None show ?thesis
      by (simp add: ledger_inv_def)
  next
    case (Some r)
    with R have "mset (somes (flat ?R)) = add_mset r (mset (somes (flat (roots L))))"
      using mset_somes [of "flat ?R" "Some r # flat (roots L)"] by simp
    from mset_distinct_add [OF this] mset_set_add [OF this] inv ok key Some
    show ?thesis by (auto simp: ledger_inv_def row_ok_def)
  qed
  have "distinct (map fst ?K)" "map fst ?R = map fst ?K" "fst ` set ?K = insert ?w (fst ` set (keys L))"
    using inv d by (simp_all add: ledger_inv_def map_fst_update distinct_update keys_alist_update del: map_append)
  note names = this
  have versions: "\<forall>wid \<in> fst ` set ?K. versions_of ?K wid > 0"
    "\<forall>wid. versions_of ?R wid = versions_of ?K wid"
    using inv unfolding names(3) versions_of_update by (simp_all add: ledger_inv_def)
  show ?thesis
  proof (cases ?r)
    case None
    with inv key K' R' names versions show ?thesis
      unfolding ledger_inv_def fold_row_def by auto
  next
    case (Some r)
    with inv key K' R' names versions show ?thesis
      unfolding ledger_inv_def fold_row_def by auto
  qed
qed

lemma fold_row_retire_inv:
  assumes inv: "ledger_inv L" and ok: "row_ok L row" and key: "retiredRow row"
  shows "ledger_inv (fold_row L row)"
proof -
  from ok key have "workspaceId row \<in> fst ` set (keys L)"
    using versions_of_absent [of "workspaceId row" "keys L"] by (auto simp: row_ok_def)
  with inv key show ?thesis by (auto simp: ledger_inv_def fold_row_def)
qed

lemma fold_row_inv: "ledger_inv L \<Longrightarrow> row_ok L row \<Longrightarrow> ledger_inv (fold_row L row)"
  using fold_row_key_inv fold_row_retire_inv by blast

lemma check_fresh_cong:
  "set (commitments L) \<union> set fresh = set (commitments M) \<union> set fresh' \<Longrightarrow>
   set (rootCommitments L) \<union> set fr = set (rootCommitments M) \<union> set fr' \<Longrightarrow>
   check_fresh L fresh fr rows = check_fresh M fresh' fr' rows"
proof (induction rows arbitrary: fresh fr fresh' fr')
  case (Cons row rows)
  have c: "commitment row \<in> set (commitments L) \<or> commitment row \<in> set fresh \<longleftrightarrow>
      commitment row \<in> set (commitments M) \<or> commitment row \<in> set fresh'"
    using Cons.prems(1) by blast
  have r: "x \<in> set (rootCommitments L) \<or> x \<in> set fr \<longleftrightarrow> x \<in> set (rootCommitments M) \<or> x \<in> set fr'" for x
    using Cons.prems(2) by blast
  have "check_fresh L (commitment row # fresh) fr rows = check_fresh M (commitment row # fresh') fr' rows"
    "check_fresh L (commitment row # fresh) (x # fr) rows = check_fresh M (commitment row # fresh') (x # fr') rows"
    "check_fresh L fresh fr rows = check_fresh M fresh' fr' rows" for x
    using Cons.prems by (intro Cons.IH; auto)+
  with c r show ?case by (auto split: option.splits)
qed simp

lemma check_versions_cong:
  assumes "\<And>row. row \<in> set rows \<Longrightarrow> versions_of (keys L) (workspaceId row) = versions_of (keys M) (workspaceId row)"
    and "\<And>row. row \<in> set rows \<Longrightarrow> workspaceId row \<in> set (retired L) \<longleftrightarrow> workspaceId row \<in> set (retired M)"
  shows "check_versions L rows = check_versions M rows"
  using assms by (induction rows) (auto simp: Let_def)

text \<open>
  The checks look at the ledger before the roster; since one roster has one row per area, each
  row is also right against the ledger at its own turn.
\<close>

lemma checked_head:
  assumes v: "check_versions L (row # rows) = Inr ()"
    and f: "check_fresh L fresh fr (row # rows) = Inr ()"
    and d: "distinct (map workspaceId (row # rows))"
  shows "row_ok L row" "check_versions (fold_row L row) rows = Inr ()"
    "\<exists>fresh fr. check_fresh (fold_row L row) fresh fr rows = Inr ()"
proof -
  from v f show "row_ok L row"
    by (auto simp: row_ok_def Let_def split: if_splits option.splits)
  have "\<forall>r \<in> set rows. workspaceId r \<noteq> workspaceId row" using d by (auto simp: image_iff)
  then have "check_versions (fold_row L row) rows = check_versions L rows"
    by (intro check_versions_cong) (auto simp: fold_row_def versions_of_update)
  with v show "check_versions (fold_row L row) rows = Inr ()"
    by (auto simp: Let_def split: if_splits)
  show "\<exists>fresh fr. check_fresh (fold_row L row) fresh fr rows = Inr ()"
  proof (cases "retiredRow row")
    case True
    then have "check_fresh (fold_row L row) fresh fr rows = check_fresh L fresh fr rows"
      by (intro check_fresh_cong) (simp_all add: fold_row_def)
    with f True show ?thesis by auto
  next
    case key: False
    show ?thesis
    proof (cases "rootCommitment row")
      case None
      with key have "check_fresh (fold_row L row) fresh fr rows = check_fresh L (commitment row # fresh) fr rows"
        by (intro check_fresh_cong) (auto simp: fold_row_def)
      with f key None show ?thesis by (auto split: if_splits)
    next
      case (Some r)
      with key have "check_fresh (fold_row L row) fresh fr rows
          = check_fresh L (commitment row # fresh) (r # fr) rows"
        by (intro check_fresh_cong) (auto simp: fold_row_def)
      with f key Some show ?thesis by (auto split: if_splits)
    qed
  qed
qed

text \<open>So a checked roster's rows are right one after the other.\<close>

fun rows_ok :: "area_ledger \<Rightarrow> roster_area list \<Rightarrow> bool" where
  "rows_ok L [] = True"
| "rows_ok L (row # rows) = (row_ok L row \<and> rows_ok (fold_row L row) rows)"

lemma checked_rows:
  "check_versions L rows = Inr () \<Longrightarrow> check_fresh L fresh fr rows = Inr () \<Longrightarrow>
     distinct (map workspaceId rows) \<Longrightarrow> rows_ok L rows"
proof (induction rows arbitrary: L fresh fr)
  case (Cons row rows)
  from checked_head [OF Cons.prems(1,2,3)] obtain fresh' fr'
    where "row_ok L row" "check_versions (fold_row L row) rows = Inr ()"
      "check_fresh (fold_row L row) fresh' fr' rows = Inr ()" by blast
  with Cons.IH [of "fold_row L row" fresh' fr'] Cons.prems(3) show ?case by simp
qed simp

lemma rows_ok_inv: "rows_ok L rows \<Longrightarrow> ledger_inv L \<Longrightarrow> ledger_inv (foldl fold_row L rows)"
  by (induction rows arbitrary: L) (auto intro: fold_row_inv)

lemma checkAreas_rows:
  assumes "checkAreas L previous r = Inr ()" "distinct (map workspaceId (areas r))"
  shows "rows_ok L (areas r)"
  using assms by (intro checked_rows [where fresh = "[]" and fr = "[]"])
    (auto simp: checkAreas_def returns)

lemma foldAreas_inv:
  "ledger_inv L \<Longrightarrow> checkAreas L previous r = Inr () \<Longrightarrow> distinct (map workspaceId (areas r)) \<Longrightarrow>
     ledger_inv (foldAreas L r)"
  unfolding foldAreas_def by (rule rows_ok_inv [OF checkAreas_rows])

lemma empty_ledger_inv [simp]: "ledger_inv empty_ledger"
  by (simp add: ledger_inv_def empty_ledger_def flat_def versions_of_def)

section \<open>What a fold keeps and what it adds\<close>

lemma fold_row_history:
  "get_or [] (keys (fold_row L row)) wid =
     get_or [] (keys L) wid @ (if \<not> retiredRow row \<and> workspaceId row = wid then [commitment row] else [])"
  by (simp add: fold_row_def map_of_alist_update)

lemma fold_row_retired:
  "set (retired (fold_row L row)) = set (retired L) \<union> (if retiredRow row then {workspaceId row} else {})"
  by (simp add: fold_row_def)

lemma fold_history:
  "get_or [] (keys (foldl fold_row L rows)) wid =
     get_or [] (keys L) wid @ map commitment (filter (\<lambda>row. \<not> retiredRow row \<and> workspaceId row = wid) rows)"
proof (induction rows arbitrary: L)
  case (Cons row rows)
  show ?case
    by (simp only: foldl_Cons Cons.IH fold_row_history) simp
qed simp

lemma fold_retired:
  "set (retired (foldl fold_row L rows)) = set (retired L) \<union> workspaceId ` {row \<in> set rows. retiredRow row}"
proof (induction rows arbitrary: L)
  case (Cons row rows)
  show ?case by (simp only: foldl_Cons Cons.IH fold_row_retired) auto
qed simp

lemma check_versions_iff:
  "check_versions L rows = Inr () \<longleftrightarrow>
     (\<forall>row \<in> set rows. workspaceId row \<notin> set (retired L)
       \<and> workspaceKeyVersion row = versions_of (keys L) (workspaceId row) + 1
       \<and> (retiredRow row \<longrightarrow> versions_of (keys L) (workspaceId row) \<noteq> 0))"
  by (induction rows) (auto simp: Let_def)

lemma check_fresh_iff:
  "check_fresh L fresh fr rows = Inr () \<longleftrightarrow>
     (let ks = filter (\<lambda>row. \<not> retiredRow row) rows; cs = map commitment ks;
          rs = somes (map rootCommitment ks) in
      distinct cs \<and> set cs \<inter> (set (commitments L) \<union> set fresh) = {}
      \<and> distinct rs \<and> set rs \<inter> (set (rootCommitments L) \<union> set fr) = {})"
proof (induction rows arbitrary: fresh fr)
  case (Cons row rows)
  show ?case
  proof (cases "rootCommitment row")
    case None
    then show ?thesis using Cons.IH by (auto simp: Let_def)
  next
    case (Some r)
    then show ?thesis using Cons.IH by (auto simp: Let_def)
  qed
qed (simp add: Let_def)

lemma checkAreas_Inr:
  "checkAreas L previous r = Inr () \<Longrightarrow>
     check_versions L (areas r) = Inr () \<and> check_fresh L [] [] (areas r) = Inr ()
     \<and> (kind r = Family \<longrightarrow> live_after L (areas r) \<le> int MAX_FAMILY_AREAS)
     \<and> (\<forall>prev. previous = Some prev \<longrightarrow> \<not> (admits prev r \<and> dropsHolder prev r)
          \<and> format prev \<le> format r
          \<and> (kind r = Family \<and> leaves prev r \<longrightarrow>
              (\<forall>wid \<in> fst ` set (keys L). wid \<in> set (retired L) \<or> wid \<in> workspaceId ` set (areas r))))"
  by (cases previous) (auto simp: checkAreas_def returns list_ex_iff not_less)

text \<open>A family's live areas, counted before the roster as \<open>checkAreas\<close> counts them, are those after it.\<close>

definition live_areas :: "area_ledger \<Rightarrow> string list" where
  "live_areas L = filter (\<lambda>wid. wid \<notin> set (retired L)) (map fst (keys L))"

lemma length_update:
  "length (AList.update k v m) = (if k \<in> fst ` set m then length m else Suc (length m))"
  using arg_cong [OF map_fst_update [of k v m], of length] by (auto simp: image_iff)

lemma fold_row_counts:
  assumes "row_ok L row"
  shows "int (length (keys (fold_row L row))) - int (length (retired (fold_row L row)))
     = int (length (keys L)) - int (length (retired L))
       + (if workspaceId row \<notin> fst ` set (keys L) then 1 else 0) - (if retiredRow row then 1 else 0)"
    "fst ` set (keys (fold_row L row)) = fst ` set (keys L) \<union> {workspaceId row}"
proof -
  from assms have in_keys: "retiredRow row \<Longrightarrow> workspaceId row \<in> fst ` set (keys L)"
    using versions_of_absent [of "workspaceId row" "keys L"] by (auto simp: row_ok_def)
  with assms show "int (length (keys (fold_row L row))) - int (length (retired (fold_row L row)))
     = int (length (keys L)) - int (length (retired L))
       + (if workspaceId row \<notin> fst ` set (keys L) then 1 else 0) - (if retiredRow row then 1 else 0)"
    by (cases "retiredRow row")
      (simp_all add: fold_row_def length_update set_add_length row_ok_def image_iff)
  from in_keys show "fst ` set (keys (fold_row L row)) = fst ` set (keys L) \<union> {workspaceId row}"
    by (cases "retiredRow row") (auto simp: fold_row_def keys_alist_update)
qed

lemma live_after_fold:
  "rows_ok L rows \<Longrightarrow> distinct (map workspaceId rows) \<Longrightarrow>
     int (length (keys (foldl fold_row L rows))) - int (length (retired (foldl fold_row L rows)))
       = live_after L rows"
proof (induction rows arbitrary: L)
  case Nil
  then show ?case by (simp add: live_after_def)
next
  case (Cons row rows)
  then have ok: "row_ok L row" by simp
  have "filter (\<lambda>r. workspaceId r \<notin> fst ` set (keys (fold_row L row))) rows
      = filter (\<lambda>r. workspaceId r \<notin> fst ` set (keys L)) rows"
    using Cons.prems(2) by (intro filter_cong) (auto simp: fold_row_counts(2) [OF ok] image_iff)
  with Cons fold_row_counts(1) [OF ok] show ?case by (simp add: live_after_def)
qed

lemma live_areas_length:
  assumes "ledger_inv L"
  shows "int (length (live_areas L)) = int (length (keys L)) - int (length (retired L))"
proof -
  let ?ks = "map fst (keys L)"
  have "set (live_areas L) = set ?ks - set (retired L)" by (auto simp: live_areas_def)
  moreover have "distinct (live_areas L)" "distinct ?ks" "distinct (retired L)"
    "set (retired L) \<subseteq> set ?ks"
    using assms by (auto simp: ledger_inv_def live_areas_def)
  ultimately have "length (live_areas L) = length ?ks - length (retired L)"
    "length (retired L) \<le> length ?ks"
    by (metis card_Diff_subset distinct_card finite_set, metis card_mono distinct_card finite_set)
  then show ?thesis by simp
qed

section \<open>The rows a signer computes are the rows a reader accepts\<close>

lemma named_areas_Inr:
  "named_areas gone seen ids = Inr () \<longleftrightarrow>
     distinct ids \<and> set ids \<inter> set seen = {} \<and> set ids \<inter> set gone = {} \<and> list_all is_uuid ids"
  by (induction ids arbitrary: seen) (auto simp: returns)

lemma key_rows_Inr:
  "key_rows P listed fmt fresh fr ks = Inr rows \<Longrightarrow>
     map workspaceId rows = map k_workspaceId ks
     \<and> (\<forall>row \<in> set rows. workspaceKeyVersion row = versions_of (l_keys listed) (workspaceId row) + 1
          \<and> \<not> retiredRow row)
     \<and> distinct (map commitment rows)
     \<and> set (map commitment rows) \<inter> (set (flat (l_keys listed)) \<union> set fresh) = {}
     \<and> distinct (somes (map rootCommitment rows))
     \<and> set (somes (map rootCommitment rows)) \<inter> (set (somes (flat (l_roots listed))) \<union> set fr) = {}"
proof (induction ks arbitrary: fresh fr rows)
  case Nil
  then show ?case by simp
next
  case (Cons k ks)
  then obtain c where c: "areaKeyCommitment P (k_workspaceKey k) = Inr c"
    "c \<notin> set (flat (l_keys listed))" "c \<notin> set fresh"
    by (auto simp: returns Let_def split: if_splits)
  show ?case
  proof (cases "k_rootKey k")
    case None
    with Cons.prems c obtain rest where
      rest: "key_rows P listed fmt (c # fresh) fr ks = Inr rest" "rows = \<lparr> workspaceId = k_workspaceId k,
        workspaceKeyVersion = versions_of (l_keys listed) (k_workspaceId k) + 1,
        commitment = c, rootCommitment = None, retiredRow = False \<rparr> # rest"
      by (auto simp: returns Let_def split: if_splits)
    from Cons.IH [OF rest(1)] c rest(2) show ?thesis by auto
  next
    case (Some rk)
    with Cons.prems c obtain rest r where
      rest: "key_rows P listed fmt (c # fresh) (r # fr) ks = Inr rest"
        "r \<notin> set (somes (flat (l_roots listed)))" "r \<notin> set fr"
        "rows = \<lparr> workspaceId = k_workspaceId k,
        workspaceKeyVersion = versions_of (l_keys listed) (k_workspaceId k) + 1,
        commitment = c, rootCommitment = Some r, retiredRow = False \<rparr> # rest"
      by (auto simp: returns Let_def split: if_splits)
    from Cons.IH [OF rest(1)] c rest(2-4) show ?thesis by auto
  qed
qed

lemma retire_rows_Inr:
  "mapE (retire_row listed) retire = Inr tombs \<Longrightarrow>
     map workspaceId tombs = retire \<and> (\<forall>row \<in> set tombs. retiredRow row
       \<and> workspaceKeyVersion row = versions_of (l_keys listed) (workspaceId row) + 1
       \<and> versions_of (l_keys listed) (workspaceId row) \<noteq> 0)"
proof (induction retire arbitrary: tombs)
  case (Cons wid retire)
  then obtain tomb rest where step: "retire_row listed wid = Inr tomb" "mapE (retire_row listed) retire = Inr rest"
    "tombs = tomb # rest" by (auto simp: returns)
  from step(1) have "workspaceId tomb = wid \<and> retiredRow tomb
    \<and> workspaceKeyVersion tomb = versions_of (l_keys listed) wid + 1 \<and> versions_of (l_keys listed) wid \<noteq> 0"
    by (auto simp: retire_row_def split: if_splits)
  with Cons.IH [OF step(2)] step(3) show ?case by simp
qed simp

lemma rowsAfter_checked:
  assumes rows: "rowsAfter P listed ks fmt retire = Inr rows"
    and inv: "ledger_inv L"
    and l: "l_keys listed = keys L" "l_roots listed = roots L" "set (l_retired listed) = set (retired L)"
  shows "check_versions L rows = Inr ()" "check_fresh L [] [] rows = Inr ()"
    "strictly (map workspaceId rows)"
proof -
  from rows obtain krows tombs where
    named: "named_areas (l_retired listed) [] (map k_workspaceId ks @ retire) = Inr ()"
    and k: "key_rows P listed fmt [] [] ks = Inr krows"
    and t: "mapE (retire_row listed) retire = Inr tombs"
    and r: "rows = sort_key workspaceId (krows @ tombs)"
    by (auto simp: rowsAfter_def returns split: if_splits)
  note K = key_rows_Inr [OF k] and T = retire_rows_Inr [OF t]
  have names: "map workspaceId (krows @ tombs) = map k_workspaceId ks @ retire"
    using K T by simp
  have all: "set rows = set krows \<union> set tombs" unfolding r by simp
  have m: "mset rows = mset (krows @ tombs)" unfolding r by simp
  have "set (map workspaceId (krows @ tombs)) \<inter> set (retired L) = {}"
    using named l(3) unfolding names named_areas_Inr by blast
  then have "\<forall>row \<in> set rows. workspaceId row \<notin> set (retired L)" unfolding all by auto
  moreover have "\<forall>row \<in> set rows. workspaceKeyVersion row = versions_of (keys L) (workspaceId row) + 1
      \<and> (retiredRow row \<longrightarrow> versions_of (keys L) (workspaceId row) \<noteq> 0)"
    using K T l(1) unfolding all by auto
  ultimately show "check_versions L rows = Inr ()"
    unfolding check_versions_iff by blast
  have "filter (\<lambda>row. \<not> retiredRow row) krows = krows" using K by (simp add: filter_id_conv)
  moreover have "filter (\<lambda>row. \<not> retiredRow row) tombs = []" using T by (simp add: filter_empty_conv)
  moreover have "mset (filter (\<lambda>row. \<not> retiredRow row) rows)
      = mset (filter (\<lambda>row. \<not> retiredRow row) (krows @ tombs))"
    unfolding mset_filter m ..
  ultimately have keyed: "mset (filter (\<lambda>row. \<not> retiredRow row) rows) = mset krows" by simp
  then have cs: "mset (map commitment (filter (\<lambda>row. \<not> retiredRow row) rows)) = mset (map commitment krows)"
    and rs: "mset (map rootCommitment (filter (\<lambda>row. \<not> retiredRow row) rows)) = mset (map rootCommitment krows)"
    by (simp_all)
  note rs' = mset_somes [OF rs]
  show "check_fresh L [] [] rows = Inr ()"
    unfolding check_fresh_iff Let_def
    using K inv l mset_eq_imp_distinct_iff [OF cs] mset_eq_setD [OF cs]
      mset_eq_imp_distinct_iff [OF rs'] mset_eq_setD [OF rs']
    by (auto simp: ledger_inv_def)
  have "distinct (map workspaceId rows)"
  proof -
    have "mset (map workspaceId rows) = mset (map k_workspaceId ks @ retire)"
      unfolding names [symmetric] by (simp add: m)
    from mset_eq_imp_distinct_iff [OF this] named show ?thesis by (simp add: named_areas_Inr)
  qed
  moreover have "sorted (map workspaceId rows)" unfolding r by simp
  ultimately show "strictly (map workspaceId rows)"
    by (simp add: strictly_iff strict_sorted_iff)
qed

section \<open>The ledger as a checked fold\<close>

text \<open>
  Acceptance folds rosters whose rows ascend (\<open>areaParts\<close> refuses any other), each checked against
  the ledger and the roster before it. The state is the ledger with that roster.
\<close>

definition ledger_check :: "area_ledger \<times> roster option \<Rightarrow> roster \<Rightarrow> crypto_error + unit" where
  "ledger_check s r =
     bindE (ascending (map workspaceId (areas r)) ''roster areas'') (\<lambda>_. checkAreas (fst s) (snd s) r)"

definition ledger_add :: "area_ledger \<times> roster option \<Rightarrow> roster \<Rightarrow> area_ledger \<times> roster option" where
  "ledger_add s r = (foldAreas (fst s) r, Some r)"

lemma ledger_check_Inr:
  "ledger_check s r = Inr () \<longleftrightarrow>
     strictly (map workspaceId (areas r)) \<and> checkAreas (fst s) (snd s) r = Inr ()"
  by (auto simp: ledger_check_def returns)

interpretation ledger: checked_fold ledger_check ledger_add "\<lambda>s. ledger_inv (fst s)"
  by unfold_locales
    (auto simp: ledger_check_Inr ledger_add_def intro: foldAreas_inv strictly_distinct)

section \<open>What a checked chain lists\<close>

definition key_rows_of :: "roster \<Rightarrow> roster_area list" where
  "key_rows_of r = filter (\<lambda>row. \<not> retiredRow row) (areas r)"

definition listed_keys :: "roster \<Rightarrow> string list" where
  "listed_keys r = map commitment (key_rows_of r)"

definition listed_roots :: "roster \<Rightarrow> string list" where
  "listed_roots r = somes (map rootCommitment (key_rows_of r))"

text \<open>The versions of an area's key, from version 1.\<close>

definition history :: "area_ledger \<Rightarrow> string \<Rightarrow> string list" where
  "history L wid = get_or [] (keys L) wid"

lemma somes_append [simp]: "somes (xs @ ys) = somes xs @ somes ys"
  by (simp add: somes_def)

lemma fold_mset:
  assumes "distinct (map fst (keys L))" "distinct (map fst (roots L))"
  shows "mset (flat (keys (foldl fold_row L rows)))
      = mset (flat (keys L)) + mset (map commitment (filter (\<lambda>row. \<not> retiredRow row) rows))
    \<and> mset (flat (roots (foldl fold_row L rows)))
      = mset (flat (roots L)) + mset (map rootCommitment (filter (\<lambda>row. \<not> retiredRow row) rows))"
  using assms
proof (induction rows arbitrary: L)
  case (Cons row rows)
  have d: "distinct (map fst (keys (fold_row L row)))" "distinct (map fst (roots (fold_row L row)))"
    using Cons.prems by (simp_all add: fold_row_def distinct_update)
  have "mset (flat (keys (fold_row L row))) = mset (flat (keys L))
      + mset (map commitment (filter (\<lambda>row. \<not> retiredRow row) [row]))"
    "mset (flat (roots (fold_row L row))) = mset (flat (roots L))
      + mset (map rootCommitment (filter (\<lambda>row. \<not> retiredRow row) [row]))"
    using Cons.prems by (simp_all add: fold_row_def mset_flat_update)
  with Cons.IH [OF d] show ?case by simp
qed simp

lemma ledger_keys_mset:
  "ledger.runs s rs t \<Longrightarrow> ledger_inv (fst s) \<Longrightarrow>
     mset (flat (keys (fst t))) = mset (flat (keys (fst s))) + mset (concat (map listed_keys rs))
     \<and> mset (somes (flat (roots (fst t)))) = mset (somes (flat (roots (fst s)))) + mset (concat (map listed_roots rs))"
proof (induction rule: ledger.runs.induct)
  case (go s r rs t)
  let ?s = "ledger_add s r"
  have inv: "ledger_inv (fst ?s)" by (rule ledger.inv_add [OF go.prems go.hyps(1)])
  have d: "distinct (map fst (keys (fst s)))" "distinct (map fst (roots (fst s)))"
    using go.prems by (simp_all add: ledger_inv_def)
  from fold_mset [OF d, of "areas r"]
  have k: "mset (flat (keys (fst ?s))) = mset (flat (keys (fst s))) + mset (listed_keys r)"
    and "mset (flat (roots (fst ?s))) = mset (flat (roots (fst s)) @ map rootCommitment (key_rows_of r))"
    by (simp_all add: ledger_add_def foldAreas_def listed_keys_def key_rows_of_def)
  from mset_somes [OF this(2)] go.IH [OF inv] k show ?case
    by (simp add: listed_roots_def)
qed simp

lemma find_absent: "wid \<notin> workspaceId ` set rows \<Longrightarrow> find (\<lambda>row. workspaceId row = wid) rows = None"
  by (auto simp: find_None_iff)

lemma one_row:
  "distinct (map workspaceId rows) \<Longrightarrow>
     map commitment (filter (\<lambda>row. \<not> retiredRow row \<and> workspaceId row = wid) rows) =
      (case find (\<lambda>row. workspaceId row = wid) rows of
         None \<Rightarrow> [] | Some row \<Rightarrow> if retiredRow row then [] else [commitment row])"
  by (induction rows) (auto simp: filter_empty_conv find_absent)

lemma checked_history:
  assumes "ledger_check (L, previous) r = Inr ()"
  shows "history (foldAreas L r) wid = history L wid
    @ (case find (\<lambda>row. workspaceId row = wid) (areas r) of
         None \<Rightarrow> [] | Some row \<Rightarrow> if retiredRow row then [] else [commitment row])"
  using one_row [of "areas r" wid] assms
  by (simp add: history_def foldAreas_def fold_history ledger_check_Inr strictly_distinct)

lemma fold_row_keys: "fst ` set (keys (fold_row L row)) \<subseteq> insert (workspaceId row) (fst ` set (keys L))"
  by (simp add: fold_row_def keys_alist_update subset_insertI)

lemma fold_rows_keys: "fst ` set (keys (foldl fold_row L rows)) \<subseteq> fst ` set (keys L) \<union> workspaceId ` set rows"
proof (induction rows arbitrary: L)
  case (Cons row rows)
  show ?case using Cons.IH [of "fold_row L row"] fold_row_keys [of L row] by auto
qed simp

lemma live_areas_named:
  "wid \<in> set (live_areas (foldl fold_row L rows)) \<Longrightarrow>
     wid \<in> fst ` set (keys L) \<or> wid \<in> workspaceId ` set rows"
  using fold_rows_keys [of L rows] by (auto simp: live_areas_def)

lemma runs_ledger_inv: "ledger.runs (empty_ledger, None) rs s \<Longrightarrow> ledger_inv (fst s)"
  using ledger.runs_inv by fastforce

lemma live_bound:
  "ledger.runs s rs t \<Longrightarrow> list_all (\<lambda>r. kind r = Family) rs \<Longrightarrow>
     ledger_inv (fst s) \<Longrightarrow> length (live_areas (fst s)) \<le> MAX_FAMILY_AREAS \<Longrightarrow>
     length (live_areas (fst t)) \<le> MAX_FAMILY_AREAS"
proof (induction rule: ledger.runs.induct)
  case (go s r rs t)
  let ?L = "foldAreas (fst s) r"
  from go.hyps(1) have c: "checkAreas (fst s) (snd s) r = Inr ()" "distinct (map workspaceId (areas r))"
    by (simp_all add: ledger_check_Inr strictly_distinct)
  have inv: "ledger_inv ?L" using go.prems(2) c by (intro foldAreas_inv)
  have "int (length (live_areas ?L)) = live_after (fst s) (areas r)"
    unfolding live_areas_length [OF inv] unfolding foldAreas_def
    by (rule live_after_fold) (use checkAreas_rows [OF c] c in auto)
  also have "\<dots> \<le> int MAX_FAMILY_AREAS" using checkAreas_Inr [OF c(1)] go.prems(1) by simp
  finally show ?case using go inv by (simp add: ledger_add_def)
qed simp

lemma found_row: "wid \<in> workspaceId ` set rows \<Longrightarrow>
    \<exists>row \<in> set rows. workspaceId row = wid \<and> find (\<lambda>row. workspaceId row = wid) rows = Some row"
  by (induction rows) auto

section \<open>Sample chain of rosters\<close>

definition sample_rotation :: roster where
  "sample_rotation = sample_roster\<lparr> rosterVersion := 2, previousRosterDigest := sample_key 9,
     areas := [sample_area 2 20] \<rparr>"

definition sample_removal :: roster where
  "sample_removal = sample_roster\<lparr> rosterVersion := 2, previousRosterDigest := sample_key 9,
     areas := [sample_area 2 20],
     members := [sample_member CHR ''a'', (sample_member CHR ''b'')\<lparr> status := Left, sinceVersion := 2 \<rparr>] \<rparr>"

lemma sample_rosterFormat [simp]: "rosterFormat 2 = Inr 2"
  by (simp add: rosterFormat_def ROSTER_FORMATS_def)

lemma sample_checks:
  "ledger_check (empty_ledger, None) sample_roster = Inr ()"
  "ledger_check (foldAreas empty_ledger sample_roster, Some sample_roster) sample_rotation = Inr ()"
  "ledger_check (foldAreas empty_ledger sample_roster, Some sample_roster) sample_removal = Inr ()"
  using sample_uuid_less
  by (simp_all add: ledger_check_Inr checkAreas_def sample_roster_def sample_rotation_def sample_removal_def
      sample_area_def sample_member_def empty_ledger_def live_after_def foldAreas_def fold_row_def
      versions_of_def set_add_def MAX_FAMILY_AREAS_def leaves_def admits_def dropsHolder_def
      rosterEntry_def activeWith_def refuse_if_def)

lemma runs_step:
  "ledger_check (L, previous) r = Inr () \<Longrightarrow> ledger.runs (foldAreas L r, Some r) rs t \<Longrightarrow>
     ledger.runs (L, previous) (r # rs) t"
  using ledger.runs.go [of "(L, previous)" r rs t] by (simp add: ledger_add_def)

lemma sample_runs:
  "ledger.runs (empty_ledger, None) [sample_roster] (foldAreas empty_ledger sample_roster, Some sample_roster)"
  "ledger.runs (empty_ledger, None) [sample_roster, sample_rotation]
     (foldAreas (foldAreas empty_ledger sample_roster) sample_rotation, Some sample_rotation)"
  by (rule runs_step [OF sample_checks(1) ledger.runs.stop])
    (rule runs_step [OF sample_checks(1) runs_step [OF sample_checks(2) ledger.runs.stop]])

section \<open>Properties\<close>

text \<open>C6. Along a checked chain no area key and no folder key is ever listed twice: not in another
  area, not at another version, not within one roster.\<close>

theorem no_key_listed_twice:
  assumes "ledger.runs (empty_ledger, None) rs (L, previous)"
  shows "distinct (concat (map listed_keys rs)) \<and> distinct (concat (map listed_roots rs))"
proof -
  have m: "mset (flat (keys L)) = mset (concat (map listed_keys rs))"
    "mset (somes (flat (roots L))) = mset (concat (map listed_roots rs))"
    using ledger_keys_mset [OF assms] empty_ledger_inv by (simp_all add: empty_ledger_def flat_def)
  show ?thesis
    using runs_ledger_inv [OF assms] mset_eq_imp_distinct_iff [OF m(1)] mset_eq_imp_distinct_iff [OF m(2)]
    by (simp add: ledger_inv_def)
qed

theorem no_key_listed_twice_witness:
  "distinct (concat (map listed_keys [sample_roster, sample_rotation]))"
  using no_key_listed_twice [OF sample_runs(2)] by blast

text \<open>A checked roster lists each key at the next version of its area, at the end of the area's
  history; an earlier version's key never changes, and an area the roster does not name keeps its
  history as it was.\<close>

theorem history_grows:
  assumes "ledger_check (L, previous) r = Inr ()"
  shows "(\<forall>row \<in> set (areas r). \<not> retiredRow row \<longrightarrow>
       history (foldAreas L r) (workspaceId row) = history L (workspaceId row) @ [commitment row]
       \<and> workspaceKeyVersion row = length (history (foldAreas L r) (workspaceId row)))
     \<and> (\<forall>wid. wid \<notin> workspaceId ` set (areas r) \<longrightarrow> history (foldAreas L r) wid = history L wid)"
proof -
  have d: "distinct (map workspaceId (areas r))" and v: "check_versions L (areas r) = Inr ()"
    using assms by (auto simp: ledger_check_Inr strictly_distinct dest: checkAreas_Inr)
  have f: "find (\<lambda>r. workspaceId r = workspaceId row) (areas r) = Some row" if "row \<in> set (areas r)" for row
    using found_row [of "workspaceId row" "areas r"] that d
    by (auto simp: distinct_map inj_on_def)
  have "history (foldAreas L r) (workspaceId row) = history L (workspaceId row) @ [commitment row]"
    if "row \<in> set (areas r)" "\<not> retiredRow row" for row
    using checked_history [OF assms] f [OF that(1)] that(2) by simp
  moreover have "workspaceKeyVersion row = Suc (length (history L (workspaceId row)))" if "row \<in> set (areas r)" for row
    using v that by (simp add: check_versions_iff versions_of_def history_def)
  ultimately show ?thesis using checked_history [OF assms] by (simp add: find_absent)
qed

theorem history_grows_witness:
  "history (foldAreas (foldAreas empty_ledger sample_roster) sample_rotation) (sample_uuid CHR ''e'')
     = history (foldAreas empty_ledger sample_roster) (sample_uuid CHR ''e'') @ [sample_key 21]"
  using history_grows [OF sample_checks(2)] by (simp add: sample_rotation_def sample_area_def)

text \<open>A deleted folder is gone for good: once retired it stays retired, and no later roster of the
  chain changes its history.\<close>

theorem retired_for_good:
  assumes "ledger.runs (L, previous) rs (L', previous')" and "wid \<in> set (retired L)"
  shows "wid \<in> set (retired L') \<and> history L' wid = history L wid"
proof -
  have "wid \<in> set (retired (fst t)) \<and> history (fst t) wid = history (fst s) wid"
    if "ledger.runs s rs t" "wid \<in> set (retired (fst s))" for s t
    using that
  proof (induction rule: ledger.runs.induct)
    case (go s r rs t)
    from go.hyps(1) have c: "ledger_check (fst s, snd s) r = Inr ()" by simp
    then have "check_versions (fst s) (areas r) = Inr ()"
      by (auto simp: ledger_check_Inr dest: checkAreas_Inr)
    then have "wid \<notin> workspaceId ` set (areas r)" using go.prems by (auto simp: check_versions_iff)
    then have "find (\<lambda>row. workspaceId row = wid) (areas r) = None" by (auto simp: find_None_iff)
    then have "history (foldAreas (fst s) r) wid = history (fst s) wid"
      using checked_history [OF c] by simp
    with go show ?case by (simp add: ledger_add_def foldAreas_def fold_retired)
  qed simp
  from this [OF assms(1)] assms(2) show ?thesis by simp
qed


definition sample_retirement :: roster where
  "sample_retirement = sample_rotation\<lparr> areas := [(sample_area 2 20)\<lparr> commitment := [],
     rootCommitment := None, retiredRow := True \<rparr>] \<rparr>"

lemma sample_retires:
  "ledger_check (foldAreas empty_ledger sample_roster, Some sample_roster) sample_retirement = Inr ()"
  "ledger_check (foldAreas (foldAreas empty_ledger sample_roster) sample_retirement, Some sample_retirement)
     (sample_roster\<lparr> areas := [] \<rparr>) = Inr ()"
  using sample_uuid_less
  by (simp_all add: ledger_check_Inr checkAreas_def sample_roster_def sample_rotation_def sample_retirement_def
      sample_area_def sample_member_def empty_ledger_def live_after_def foldAreas_def fold_row_def
      versions_of_def set_add_def MAX_FAMILY_AREAS_def leaves_def admits_def dropsHolder_def
      rosterEntry_def activeWith_def refuse_if_def)

theorem retired_for_good_witness:
  "\<exists>L'. ledger.runs (foldAreas (foldAreas empty_ledger sample_roster) sample_retirement, Some sample_retirement)
        [sample_roster\<lparr> areas := [] \<rparr>] (L', Some (sample_roster\<lparr> areas := [] \<rparr>))
      \<and> sample_uuid CHR ''e'' \<in> set (retired L')"
proof -
  let ?L = "foldAreas (foldAreas empty_ledger sample_roster) sample_retirement"
  have "sample_uuid CHR ''e'' \<in> set (retired ?L)"
    by (simp add: foldAreas_def fold_row_def sample_retirement_def sample_rotation_def sample_roster_def
        sample_area_def empty_ledger_def set_add_def)
  with retired_for_good [OF runs_step [OF sample_retires(2) ledger.runs.stop]] show ?thesis
    using runs_step [OF sample_retires(2) ledger.runs.stop] by blast
qed

text \<open>C31. In a family, a roster that marks anyone left gives every folder that stays live a new key,
  one the chain never listed before.\<close>

theorem removal_rotates_every_area:
  assumes "ledger.runs (empty_ledger, None) rs (L, Some prev)"
    and "ledger_check (L, Some prev) r = Inr ()" and "kind r = Family" and "leaves prev r"
    and "wid \<in> set (live_areas (foldAreas L r))"
  shows "\<exists>c. history (foldAreas L r) wid = history L wid @ [c] \<and> c \<notin> set (flat (keys L))"
proof -
  have c: "checkAreas L (Some prev) r = Inr ()" using assms(2) by (simp add: ledger_check_Inr)
  note A = checkAreas_Inr [OF c]
  have "wid \<notin> set (retired L)" "wid \<notin> workspaceId ` {row \<in> set (areas r). retiredRow row}"
    using assms(5) by (auto simp: live_areas_def foldAreas_def fold_retired)
  moreover have "wid \<in> fst ` set (keys L) \<or> wid \<in> workspaceId ` set (areas r)"
    using assms(5) live_areas_named [of wid L "areas r"] by (simp add: foldAreas_def)
  ultimately have "wid \<in> workspaceId ` set (areas r)" using A assms(3,4) by blast
  with \<open>wid \<notin> workspaceId ` {row \<in> set (areas r). retiredRow row}\<close>
  obtain row where row: "row \<in> set (areas r)" "workspaceId row = wid" "\<not> retiredRow row"
    "find (\<lambda>row. workspaceId row = wid) (areas r) = Some row"
    using found_row [of wid "areas r"] by (metis (mono_tags, lifting) image_eqI mem_Collect_eq)
  then have "history (foldAreas L r) wid = history L wid @ [commitment row]"
    using checked_history [OF assms(2), of wid] by simp
  moreover have "commitment row \<notin> set (commitments L)"
    using A row(1,3) by (auto simp: check_fresh_iff Let_def)
  ultimately show ?thesis using runs_ledger_inv [OF assms(1)] by (auto simp: ledger_inv_def)
qed

theorem removal_rotates_every_area_witness:
  "\<exists>c. history (foldAreas (foldAreas empty_ledger sample_roster) sample_removal) (sample_uuid CHR ''e'')
     = history (foldAreas empty_ledger sample_roster) (sample_uuid CHR ''e'') @ [c]"
proof -
  have "leaves sample_roster sample_removal" "kind sample_removal = Family"
    using sample_uuid_less
    by (simp_all add: leaves_def sample_removal_def sample_roster_def rosterEntry_def sample_member_def)
  moreover have "sample_uuid CHR ''e'' \<in> set (live_areas (foldAreas (foldAreas empty_ledger sample_roster) sample_removal))"
    by (simp add: live_areas_def foldAreas_def fold_row_def sample_removal_def sample_roster_def
        sample_area_def empty_ledger_def set_add_def)
  ultimately show ?thesis
    using removal_rotates_every_area [OF sample_runs(1) sample_checks(3)] by blast
qed

text \<open>Every roster of a family's chain leaves at most 1,024 live folders, so the roster that
  removes a member can rotate them all in one statement.\<close>

theorem family_areas_bounded:
  assumes "ledger.runs (empty_ledger, None) rs (L, previous)" and "\<forall>r \<in> set rs. kind r = Family"
  shows "length (live_areas L) \<le> MAX_FAMILY_AREAS \<and> MAX_FAMILY_AREAS \<le> MAX_ROSTER_AREA_ROWS"
proof -
  have "length (live_areas (fst (empty_ledger, None))) \<le> MAX_FAMILY_AREAS"
    by (simp add: live_areas_def empty_ledger_def)
  with live_bound [OF assms(1)] assms(2) show ?thesis
    by (simp add: list_all_iff MAX_FAMILY_AREAS_def MAX_ROSTER_AREA_ROWS_def)
qed

theorem family_areas_bounded_witness:
  "length (live_areas (foldAreas empty_ledger sample_roster)) \<le> MAX_FAMILY_AREAS"
  using family_areas_bounded [OF sample_runs(1)] by (simp add: sample_roster_def)

text \<open>The area rows a signer computes with \<open>rowsAfter\<close> are never at fault when a reader checks
  them: a roster with those rows is refused only for what its member list does (an older format, too
  many folders, a removal that leaves a folder's key or admits someone).\<close>

theorem computed_rows_accepted:
  assumes "ledger.runs (empty_ledger, None) rs (L, previous)"
    and "rowsAfter P \<lparr> l_keys = keys L, l_roots = roots L, l_retired = retired L \<rparr> ks fmt retire = Inr rows"
    and "ledger_check (L, previous) (r\<lparr> areas := rows \<rparr>) = Inl e"
  shows "e \<in> {invalid ''roster format'', DOWNGRADE, TOO_MANY_AREAS, NOT_ROTATED, ADMITS_ON_REMOVAL}"
proof -
  have L: "ledger_inv L" using runs_ledger_inv [OF assms(1)] by simp
  note ok = rowsAfter_checked [OF assms(2) L, simplified]
  from assms(3) ok show ?thesis
    by (auto simp: ledger_check_def ascending_def checkAreas_def bindE_Inl refuse_if_Inl rosterFormat_def
        split: if_splits option.splits)
qed

theorem computed_rows_accepted_witness:
  "DOWNGRADE \<in> {invalid ''roster format'', DOWNGRADE, TOO_MANY_AREAS, NOT_ROTATED, ADMITS_ON_REMOVAL}
   \<and> ledger_check (foldAreas empty_ledger sample_roster, Some sample_roster)
       (sample_roster\<lparr> format := 1, areas := [] \<rparr>) = Inl DOWNGRADE"
proof -
  have rows: "rowsAfter sample_primitives \<lparr> l_keys = keys L, l_roots = roots L, l_retired = retired L \<rparr> [] 1 []
      = Inr []" for L
    by (simp add: rowsAfter_def)
  have refused: "ledger_check (foldAreas empty_ledger sample_roster, Some sample_roster)
      ((sample_roster\<lparr> format := 1 \<rparr>)\<lparr> areas := [] \<rparr>) = Inl DOWNGRADE"
    by (simp add: ledger_check_def ascending_def checkAreas_def rosterFormat_def ROSTER_FORMATS_def
        sample_roster_def)
  from computed_rows_accepted [OF sample_runs(1) rows refused] refused show ?thesis by simp
qed

end
