(* ===== verification/Pins.thy ===== *)
theory Pins
  imports Rosters
begin

text \<open>
  \<open>packages/crypto/src/pins.ts\<close>: what a contact pin stands for (\<open>pinTrust\<close>), the group pin and its
  marks (\<open>checkGroupPin\<close>, \<open>mergePin\<close>, \<open>guardAfter\<close>, \<open>pinAhead\<close>), and the guard entry a device keeps
  of a contact. The settings document (\<open>settingsWithPin\<close> and the removals) is not modelled.
\<close>

section \<open>Canonical keys\<close>

definition invalid_key :: crypto_error where
  "invalid_key = CryptoError ''Invalid key.''"

definition canonicalBytes :: "string \<Rightarrow> nat option \<Rightarrow> crypto_error + bytes" where
  "canonicalBytes value len =
     (if \<not> b64_text value then Inl invalid_key
      else let bytes = publicKeyBytes value; again = encode bytes in
        if (case len of None \<Rightarrow> False | Some n \<Rightarrow> length bytes \<noteq> n) \<or> again \<noteq> value
        then Inl invalid_key else Inr bytes)"

definition servedKeyDigest :: "primitives \<Rightarrow> string \<Rightarrow> string option" where
  "servedKeyDigest P value =
     (case canonicalBytes value None of Inl _ \<Rightarrow> None | Inr bytes \<Rightarrow> Some (keyDigest P bytes))"

definition canonicalKey :: "string \<Rightarrow> crypto_error + bytes" where
  "canonicalKey value =
     (if length value \<noteq> 43 \<or> \<not> b64_text value then Inl invalid_key
      else let bytes = publicKeyBytes value in
        if last value \<notin> set ''AEIMQUYcgkosw048'' \<or> length bytes \<noteq> 32
        then Inl invalid_key else Inr bytes)"

definition settingsRolledBack :: "nat option \<Rightarrow> nat \<Rightarrow> bool" where
  "settingsRolledBack served last_seen =
     (case served of None \<Rightarrow> last_seen > 0 | Some v \<Rightarrow> v < last_seen)"

section \<open>Contact pins\<close>

text \<open>An absent digest is \<open>None\<close>; the empty string is falsy as well.\<close>

record pin_keys =
  p_keyVersion :: "int option"
  p_encryptionPublicKey :: string
  p_signingPublicKey :: string
  p_mlDsaPublicKeyHash :: "string option"
  p_kemPublicKeyHash :: "string option"
  p_fingerprint :: string

definition falsy :: "string option \<Rightarrow> bool" where
  "falsy s \<longleftrightarrow> s = None \<or> s = Some []"

text \<open>The version 3 fingerprint over a pin's four keys, inside the \<open>try\<close>.\<close>

definition pin_print :: "primitives \<Rightarrow> pin_keys \<Rightarrow> crypto_error + string" where
  "pin_print P pin =
     bindE (canonicalKey (p_encryptionPublicKey pin)) (\<lambda>enc.
     bindE (canonicalKey (p_signingPublicKey pin)) (\<lambda>sig.
     bindE (hexBytes (the (p_mlDsaPublicKeyHash pin))) (\<lambda>mlDsa.
     bindE (hexBytes (the (p_kemPublicKeyHash pin))) (\<lambda>kem.
       fingerprint P enc sig mlDsa kem))))"

definition pinVerified :: "primitives \<Rightarrow> pin_keys \<Rightarrow> bool" where
  "pinVerified P pin =
     (if p_signingPublicKey pin = [] \<or> falsy (p_mlDsaPublicKeyHash pin) \<or> falsy (p_kemPublicKeyHash pin)
      then False
      else case pin_print P pin of Inl _ \<Rightarrow> False | Inr print \<Rightarrow> print = p_fingerprint pin)"

definition keyCommitment :: "primitives \<Rightarrow> pin_keys \<Rightarrow> string option" where
  "keyCommitment P pin =
     (if falsy (p_mlDsaPublicKeyHash pin) \<or> falsy (p_kemPublicKeyHash pin) then None
      else case pin_print P pin of Inl _ \<Rightarrow> None | Inr print \<Rightarrow> Some print)"

definition entryCommitment :: "primitives \<Rightarrow> roster_member \<Rightarrow> string option" where
  "entryCommitment P entry =
     (case bindE (digestHex (mlDsaPublicKeyDigest entry)) (\<lambda>mlDsa.
        bindE (digestHex (kemPublicKeyDigest entry)) (\<lambda>kem. Inr (mlDsa, kem))) of
        Inl _ \<Rightarrow> None
      | Inr (ml, kem) \<Rightarrow>
          keyCommitment P \<lparr> p_keyVersion = Some (int (keyVersion entry)),
            p_encryptionPublicKey = encryptionPublicKey entry, p_signingPublicKey = signingPublicKey entry,
            p_mlDsaPublicKeyHash = Some ml, p_kemPublicKeyHash = Some kem, p_fingerprint = [] \<rparr>)"

datatype pin_trust = Pin_Verified | Pin_Seen | Pin_Legacy | Pin_Invalid

definition pinTrust :: "primitives \<Rightarrow> pin_keys \<Rightarrow> pin_trust" where
  "pinTrust P pin =
     (if falsy (p_mlDsaPublicKeyHash pin) then Pin_Legacy
      else if pinVerified P pin then Pin_Verified
      else if p_fingerprint pin = [] \<and> keyCommitment P pin \<noteq> None then Pin_Seen
      else Pin_Invalid)"

datatype pin_form = Form_Verified | Form_Seen

definition pinKeysOfServed :: "primitives \<Rightarrow> 'a served_keys_scheme \<Rightarrow> pin_form \<Rightarrow> crypto_error + pin_keys" where
  "pinKeysOfServed P served form =
     (case bindE (canonicalBytes (sk_mlDsaPublicKey served) (Some 1952)) (\<lambda>mlDsa.
        bindE (canonicalBytes (sk_kemPublicKey served) (Some 1184)) (\<lambda>kem.
        bindE (integer (JNum (sk_keyVersion served)) ''key version'') (\<lambda>version.
          Inr \<lparr> p_keyVersion = Some (int version), p_encryptionPublicKey = sk_encryptionPublicKey served,
            p_signingPublicKey = sk_signingPublicKey served,
            p_mlDsaPublicKeyHash = Some (keyDigest P mlDsa),
            p_kemPublicKeyHash = Some (keyDigest P kem), p_fingerprint = [] \<rparr>)))
      of Inl _ \<Rightarrow> Inl invalid_identity_key
       | Inr ks \<Rightarrow> (case keyCommitment P ks of
           None \<Rightarrow> Inl invalid_identity_key
         | Some c \<Rightarrow> Inr (ks\<lparr> p_fingerprint := (if form = Form_Verified then c else []) \<rparr>)))"

section \<open>Group pins\<close>

type_synonym area_versions = "(string \<times> nat) list"

record group_pin =
  firstEd25519PublicKey :: string
  firstMlDsaPublicKeyDigest :: string
  checkedAt :: string
  pinKeyVersion :: nat
  pinGroupKeyDigest :: string
  pinRosterVersion :: nat
  pinRosterDigest :: string
  pinAreas :: area_versions

text \<open>The same as the settings hand it in: any values, \<open>areas\<close> an object or not.\<close>

record raw_group_pin =
  raw_firstEd25519PublicKey :: json
  raw_firstMlDsaPublicKeyDigest :: json
  raw_checkedAt :: json
  raw_keyVersion :: json
  raw_groupKeyDigest :: json
  raw_rosterVersion :: json
  raw_rosterDigest :: json
  raw_areas :: "(string \<times> json) list option"

definition invalid_group_pin :: crypto_error where
  "invalid_group_pin = CryptoError ''Invalid group pin.''"

text \<open>\<open>CHECK_TIME\<close>: one character class per position of \<open>YYYY-MM-DDTHH:MM:SS.mmmZ\<close>.\<close>

definition digits_between :: "string \<Rightarrow> string \<Rightarrow> string \<Rightarrow> bool" where
  "digits_between lo hi s \<longleftrightarrow> length s = length lo \<and> list_all is_digit s \<and> lo \<le> s \<and> s \<le> hi"

definition check_time :: "string \<Rightarrow> bool" where
  "check_time s \<longleftrightarrow>
     length s = 24 \<and> list_all is_digit (take 4 s) \<and> s ! 4 = CHR ''-''
     \<and> digits_between ''01'' ''12'' (take 2 (drop 5 s)) \<and> s ! 7 = CHR ''-''
     \<and> digits_between ''01'' ''31'' (take 2 (drop 8 s)) \<and> s ! 10 = CHR ''T''
     \<and> digits_between ''00'' ''23'' (take 2 (drop 11 s)) \<and> s ! 13 = CHR '':''
     \<and> digits_between ''00'' ''59'' (take 2 (drop 14 s)) \<and> s ! 16 = CHR '':''
     \<and> digits_between ''00'' ''59'' (take 2 (drop 17 s)) \<and> s ! 19 = CHR ''.''
     \<and> list_all is_digit (take 3 (drop 20 s)) \<and> s ! 23 = CHR ''Z''"

definition checkTime :: "json \<Rightarrow> crypto_error + string" where
  "checkTime value =
     (case value of JStr s \<Rightarrow> if check_time s then Inr s else Inl invalid_group_pin
      | _ \<Rightarrow> Inl invalid_group_pin)"

definition checkGroupPin :: "string \<Rightarrow> raw_group_pin option \<Rightarrow> crypto_error + group_pin" where
  "checkGroupPin gid value =
     bindE (uuid (JStr gid) ''group id'') (\<lambda>_.
       case value of None \<Rightarrow> Inl invalid_group_pin
       | Some pin \<Rightarrow>
           bindE (checkTime (raw_checkedAt pin)) (\<lambda>at.
             case raw_areas pin of None \<Rightarrow> Inl invalid_group_pin
             | Some entries \<Rightarrow>
                 bindE (mapE (\<lambda>(wid, _). uuid (JStr wid) ''workspace id'') entries) (\<lambda>_.
                 bindE (mapE (\<lambda>(wid, v). bindE (integer v ''workspace key version'') (\<lambda>n. Inr (wid, n))) entries)
                   (\<lambda>marks.
                 bindE (bytesOf (raw_firstEd25519PublicKey pin) 32 ''group key'') (\<lambda>ed.
                 bindE (digestOf (raw_firstMlDsaPublicKeyDigest pin) ''key digest'') (\<lambda>ml.
                 bindE (integer (raw_keyVersion pin) ''group key version'') (\<lambda>kv.
                 bindE (digestOf (raw_groupKeyDigest pin) ''key digest'') (\<lambda>kd.
                 bindE (integer (raw_rosterVersion pin) ''roster version'') (\<lambda>rv.
                 bindE (digestOf (raw_rosterDigest pin) ''roster digest'') (\<lambda>rd.
                   Inr \<lparr> firstEd25519PublicKey = ed, firstMlDsaPublicKeyDigest = ml, checkedAt = at,
                     pinKeyVersion = kv, pinGroupKeyDigest = kd, pinRosterVersion = rv,
                     pinRosterDigest = rd, pinAreas = marks \<rparr>))))))))))"

record opened_area =
  openedGroupId :: string
  openedWorkspaceId :: string
  openedVersion :: nat

definition OTHER_FAMILY :: crypto_error where
  "OTHER_FAMILY = CryptoError (''This folder is not one of this family'' @ rsquo @ ''s.'')"

datatype merged_pin = Merged group_pin | Behind | Conflict

text \<open>\<open>areas[id] = Math.max(areas[id] ?? 0, version)\<close>, for each entry.\<close>

definition raise_area :: "area_versions \<Rightarrow> string \<times> nat \<Rightarrow> area_versions" where
  "raise_area marks entry = AList.update (fst entry) (max (get_or 0 marks (fst entry)) (snd entry)) marks"

definition raise_areas :: "area_versions \<Rightarrow> (string \<times> nat) list \<Rightarrow> area_versions" where
  "raise_areas marks entries = foldl raise_area marks entries"

definition pins_conflict :: "group_pin \<Rightarrow> group_pin \<Rightarrow> bool" where
  "pins_conflict current nxt \<longleftrightarrow>
     firstEd25519PublicKey current \<noteq> firstEd25519PublicKey nxt
     \<or> firstMlDsaPublicKeyDigest current \<noteq> firstMlDsaPublicKeyDigest nxt
     \<or> (pinRosterVersion current = pinRosterVersion nxt \<and> pinRosterDigest current \<noteq> pinRosterDigest nxt)
     \<or> (pinKeyVersion current = pinKeyVersion nxt \<and> pinGroupKeyDigest current \<noteq> pinGroupKeyDigest nxt)
     \<or> (pinRosterVersion current > pinRosterVersion nxt \<and> pinKeyVersion current < pinKeyVersion nxt)
     \<or> (pinKeyVersion current > pinKeyVersion nxt \<and> pinRosterVersion current < pinRosterVersion nxt)"

definition mergePin :: "string \<Rightarrow> group_pin option \<Rightarrow> group_pin \<Rightarrow> opened_area list \<Rightarrow> crypto_error + merged_pin" where
  "mergePin gid current nxt opened =
     (if list_ex (\<lambda>area. openedGroupId area \<noteq> gid) opened then Inl OTHER_FAMILY
      else let merge = (\<lambda>marks at.
             Merged (nxt\<lparr> checkedAt := at,
               pinAreas := raise_areas (raise_areas marks (pinAreas nxt))
                 (map (\<lambda>area. (openedWorkspaceId area, openedVersion area)) opened) \<rparr>))
        in case current of
          None \<Rightarrow> Inr (merge [] (checkedAt nxt))
        | Some cur \<Rightarrow>
            if pins_conflict cur nxt then Inr Conflict
            else if pinRosterVersion cur > pinRosterVersion nxt \<or> pinKeyVersion cur > pinKeyVersion nxt
            then Inr Behind
            else Inr (merge (pinAreas cur) (if checkedAt cur < checkedAt nxt then checkedAt cur else checkedAt nxt)))"

definition pinAhead :: "group_pin option \<Rightarrow> group_pin \<Rightarrow> bool" where
  "pinAhead current nxt =
     (case current of None \<Rightarrow> True
      | Some cur \<Rightarrow>
          pinRosterVersion nxt > pinRosterVersion cur \<or> pinKeyVersion nxt > pinKeyVersion cur
          \<or> checkedAt nxt < checkedAt cur
          \<or> list_ex (\<lambda>(wid, version). version > get_or 0 (pinAreas cur) wid) (pinAreas nxt))"

datatype guard_step = Store group_pin | Covered | Guard_Ahead | Guard_Conflict

definition guardAfter :: "string \<Rightarrow> group_pin option \<Rightarrow> group_pin \<Rightarrow> opened_area list \<Rightarrow> crypto_error + guard_step" where
  "guardAfter gid guard pin opened =
     bindE (mergePin gid guard pin opened) (\<lambda>merged. Inr (case merged of
         Conflict \<Rightarrow> Guard_Conflict
       | Behind \<Rightarrow> Guard_Ahead
       | Merged m \<Rightarrow> if pinAhead guard m then Store m else Covered))"

section \<open>Guard entries\<close>

record guard_entry =
  revision :: nat
  g_keyVersion :: "int option"
  g_encryptionPublicKey :: string
  g_signingPublicKey :: string
  g_mlDsaPublicKeyHash :: string
  g_kemPublicKeyHash :: string
  previousSigningKeys :: "string list"
  g_verified :: bool

definition keys_of_guard :: "guard_entry \<Rightarrow> pin_keys" where
  "keys_of_guard g = \<lparr> p_keyVersion = g_keyVersion g, p_encryptionPublicKey = g_encryptionPublicKey g,
     p_signingPublicKey = g_signingPublicKey g, p_mlDsaPublicKeyHash = Some (g_mlDsaPublicKeyHash g),
     p_kemPublicKeyHash = Some (g_kemPublicKeyHash g), p_fingerprint = [] \<rparr>"

definition NOT_REMEMBERED :: crypto_error where
  "NOT_REMEMBERED = CryptoError ''Only a verified or first-seen pin is remembered.''"

definition nextGuardEntry :: "primitives \<Rightarrow> guard_entry option \<Rightarrow> pin_keys \<Rightarrow> crypto_error + guard_entry" where
  "nextGuardEntry P previous pin =
     (let trust = pinTrust P pin in
      if trust \<noteq> Pin_Verified \<and> trust \<noteq> Pin_Seen then Inl NOT_REMEMBERED
      else
        let ks = keyCommitment P pin;
            same = (case previous of None \<Rightarrow> False | Some g \<Rightarrow> keyCommitment P (keys_of_guard g) = ks);
            held = (case previous of None \<Rightarrow> [] | Some g \<Rightarrow> previousSigningKeys g);
            replaced = (case previous of None \<Rightarrow> held
              | Some g \<Rightarrow> if g_signingPublicKey g \<noteq> p_signingPublicKey pin \<and> g_signingPublicKey g \<notin> set held
                         then held @ [g_signingPublicKey g] else held)
        in Inr \<lparr> revision = (case previous of None \<Rightarrow> 0 | Some g \<Rightarrow> revision g) + 1,
             g_keyVersion = p_keyVersion pin, g_encryptionPublicKey = p_encryptionPublicKey pin,
             g_signingPublicKey = p_signingPublicKey pin,
             g_mlDsaPublicKeyHash = the (p_mlDsaPublicKeyHash pin),
             g_kemPublicKeyHash = the (p_kemPublicKeyHash pin),
             previousSigningKeys = filter (\<lambda>key. key \<noteq> p_signingPublicKey pin) replaced,
             g_verified = (trust = Pin_Verified
               \<or> (same \<and> (case previous of None \<Rightarrow> False | Some g \<Rightarrow> g_verified g))) \<rparr>)"

section \<open>Lemmas: marks\<close>

definition areaMark :: "area_versions \<Rightarrow> string \<Rightarrow> nat" where
  "areaMark marks wid = get_or 0 marks wid"

lemma mark_raise: "areaMark (raise_area marks entry) wid =
    (if wid = fst entry then max (areaMark marks wid) (snd entry) else areaMark marks wid)"
  by (simp add: areaMark_def raise_area_def map_of_alist_update)

lemma mark_raises:
  "areaMark (raise_areas marks entries) wid = fold max (map snd (filter (\<lambda>e. fst e = wid) entries)) (areaMark marks wid)"
proof (induction entries arbitrary: marks)
  case (Cons e entries)
  then show ?case
    by (simp add: raise_areas_def mark_raise max.commute)
qed (simp add: raise_areas_def)

lemma fold_max_ge: "(x :: nat) \<le> fold max xs x \<and> (\<forall>y \<in> set xs. y \<le> fold max xs x)"
proof (induction xs arbitrary: x)
  case (Cons a xs)
  from Cons.IH [of "max a x"] show ?case by auto
qed simp

lemma fold_max_le: "fold max xs (x :: nat) \<le> b \<longleftrightarrow> x \<le> b \<and> (\<forall>y \<in> set xs. y \<le> b)"
  by (induction xs arbitrary: x) auto

lemma mark_raises_ge:
  "areaMark marks wid \<le> areaMark (raise_areas marks entries) wid"
  "(wid, v) \<in> set entries \<Longrightarrow> v \<le> areaMark (raise_areas marks entries) wid"
proof -
  note g = fold_max_ge [of "areaMark marks wid" "map snd (filter (\<lambda>e. fst e = wid) entries)"]
  from g show "areaMark marks wid \<le> areaMark (raise_areas marks entries) wid" unfolding mark_raises by blast
  assume "(wid, v) \<in> set entries"
  then have "v \<in> set (map snd (filter (\<lambda>e. fst e = wid) entries))" by force
  with g show "v \<le> areaMark (raise_areas marks entries) wid" unfolding mark_raises by blast
qed

lemma mark_raises_le:
  "areaMark (raise_areas marks entries) wid \<le> b \<longleftrightarrow> areaMark marks wid \<le> b \<and> (\<forall>v. (wid, v) \<in> set entries \<longrightarrow> v \<le> b)"
  unfolding mark_raises fold_max_le by force

lemma mark_of: "(wid, v) \<in> set marks \<Longrightarrow> distinct (map fst marks) \<Longrightarrow> areaMark marks wid = v"
  by (simp add: areaMark_def)

lemma mark_ge_entry: "distinct (map fst marks) \<Longrightarrow> (wid, v) \<in> set marks \<longleftrightarrow> map_of marks wid = Some v"
  by simp

lemma raise_areas_distinct: "distinct (map fst marks) \<Longrightarrow> distinct (map fst (raise_areas marks entries))"
  unfolding raise_areas_def
  by (induction entries arbitrary: marks) (auto simp: raise_area_def distinct_update)

lemma mergePin_Inr:
  "mergePin gid current nxt opened = Inr (Merged m) \<longleftrightarrow>
     list_all (\<lambda>area. openedGroupId area = gid) opened
     \<and> (case current of None \<Rightarrow> True | Some cur \<Rightarrow> \<not> pins_conflict cur nxt
          \<and> pinRosterVersion cur \<le> pinRosterVersion nxt \<and> pinKeyVersion cur \<le> pinKeyVersion nxt)
     \<and> m = nxt\<lparr> checkedAt := (case current of None \<Rightarrow> checkedAt nxt
           | Some cur \<Rightarrow> min (checkedAt cur) (checkedAt nxt)),
         pinAreas := raise_areas (raise_areas (case current of None \<Rightarrow> [] | Some cur \<Rightarrow> pinAreas cur) (pinAreas nxt))
           (map (\<lambda>area. (openedWorkspaceId area, openedVersion area)) opened) \<rparr>"
  by (auto simp: mergePin_def Let_def list_ex_iff list_all_iff not_less min_def split: option.splits)

section \<open>Properties\<close>

text \<open>A pin never goes back: whatever \<open>mergePin\<close> gives to store over the pin held is at least as
  far on its roster, its group key and every folder, names the same first keys and the same roster
  and key where it is not further, and keeps the earliest check time.\<close>

theorem merged_pin_never_back:
  assumes "mergePin gid (Some cur) nxt opened = Inr (Merged m)"
  shows "pinRosterVersion cur \<le> pinRosterVersion m \<and> pinKeyVersion cur \<le> pinKeyVersion m
    \<and> (pinRosterVersion cur = pinRosterVersion m \<longrightarrow> pinRosterDigest cur = pinRosterDigest m)
    \<and> (pinKeyVersion cur = pinKeyVersion m \<longrightarrow> pinGroupKeyDigest cur = pinGroupKeyDigest m)
    \<and> firstEd25519PublicKey m = firstEd25519PublicKey cur
    \<and> firstMlDsaPublicKeyDigest m = firstMlDsaPublicKeyDigest cur
    \<and> checkedAt m \<le> checkedAt cur \<and> checkedAt m \<le> checkedAt nxt
    \<and> (\<forall>wid. areaMark (pinAreas cur) wid \<le> areaMark (pinAreas m) wid)
    \<and> (\<forall>(wid, v) \<in> set (pinAreas nxt). v \<le> areaMark (pinAreas m) wid)
    \<and> (\<forall>area \<in> set opened. openedVersion area \<le> areaMark (pinAreas m) (openedWorkspaceId area))"
proof -
  from assms have m: "\<not> pins_conflict cur nxt" "pinRosterVersion cur \<le> pinRosterVersion nxt"
    "pinKeyVersion cur \<le> pinKeyVersion nxt" and d: "m = nxt\<lparr> checkedAt := min (checkedAt cur) (checkedAt nxt),
         pinAreas := raise_areas (raise_areas (pinAreas cur) (pinAreas nxt))
           (map (\<lambda>area. (openedWorkspaceId area, openedVersion area)) opened) \<rparr>"
    unfolding mergePin_Inr by simp_all
  have areas: "\<forall>wid. areaMark (pinAreas cur) wid \<le> areaMark (pinAreas m) wid"
    "\<forall>(wid, v) \<in> set (pinAreas nxt). v \<le> areaMark (pinAreas m) wid"
    unfolding d by (auto intro: order.trans [OF mark_raises_ge(1) mark_raises_ge(1)]
        order.trans [OF mark_raises_ge(2) mark_raises_ge(1)])
  have "\<forall>area \<in> set opened. openedVersion area \<le> areaMark (pinAreas m) (openedWorkspaceId area)"
    unfolding d by (auto intro!: mark_raises_ge(2))
  with areas m show ?thesis by (auto simp: d pins_conflict_def)
qed

definition sample_pin :: group_pin where
  "sample_pin = \<lparr> firstEd25519PublicKey = sample_key 1, firstMlDsaPublicKeyDigest = sample_key 2,
     checkedAt = ''2026-01-01T00:00:00.000Z'', pinKeyVersion = 1, pinGroupKeyDigest = sample_key 3,
     pinRosterVersion = 1, pinRosterDigest = sample_key 4, pinAreas = [(sample_uuid CHR ''e'', 1)] \<rparr>"

lemma sample_merge:
  "mergePin g (Some sample_pin) (sample_pin\<lparr> pinRosterVersion := 2 \<rparr>) [] =
     Inr (Merged (sample_pin\<lparr> pinRosterVersion := 2 \<rparr>))"
  by (simp add: mergePin_def sample_pin_def pins_conflict_def raise_areas_def raise_area_def)

theorem merged_pin_never_back_witness:
  "mergePin ''family'' (Some sample_pin) (sample_pin\<lparr> pinRosterVersion := 2 \<rparr>) [] =
     Inr (Merged (sample_pin\<lparr> pinRosterVersion := 2 \<rparr>))
   \<and> pinRosterVersion sample_pin \<le> pinRosterVersion (sample_pin\<lparr> pinRosterVersion := 2 \<rparr>)"
  using merged_pin_never_back [OF sample_merge] sample_merge by blast

text \<open>The family guard settles: once what \<open>guardAfter\<close> gives to store is stored, the same pin and
  folders record nothing more, and a guard already covering them is left alone.\<close>

theorem guard_settles:
  assumes "guardAfter gid guard pin opened = Inr (Store m)" and "distinct (map fst (pinAreas pin))"
    and "\<forall>g. guard = Some g \<longrightarrow> distinct (map fst (pinAreas g))"
  shows "guardAfter gid (Some m) pin opened = Inr Covered"
proof -
  let ?held = "case guard of None \<Rightarrow> [] | Some g \<Rightarrow> pinAreas g"
  let ?opened = "map (\<lambda>area. (openedWorkspaceId area, openedVersion area)) opened"
  let ?m = "raise_areas (raise_areas ?held (pinAreas pin)) ?opened"
  from assms(1) have "mergePin gid guard pin opened = Inr (Merged m)"
    unfolding guardAfter_def bindE_Inr
    by (elim exE conjE) (auto split: merged_pin.split_asm if_split_asm)
  then have d: "m = pin\<lparr> checkedAt := (case guard of None \<Rightarrow> checkedAt pin
           | Some cur \<Rightarrow> min (checkedAt cur) (checkedAt pin)), pinAreas := ?m \<rparr>"
    and o: "list_all (\<lambda>area. openedGroupId area = gid) opened"
    unfolding mergePin_Inr by auto
  define m' where "m' = pin\<lparr> checkedAt := min (checkedAt m) (checkedAt pin),
    pinAreas := raise_areas (raise_areas ?m (pinAreas pin)) ?opened \<rparr>"
  have again: "mergePin gid (Some m) pin opened = Inr (Merged m')"
    unfolding mergePin_Inr m'_def using o by (simp add: d pins_conflict_def)
  have ge: "\<forall>(wid, v) \<in> set (pinAreas pin). v \<le> areaMark ?m wid" "\<forall>(wid, v) \<in> set ?opened. v \<le> areaMark ?m wid"
    by (auto intro: mark_raises_ge(2) order.trans [OF mark_raises_ge(2) mark_raises_ge(1)])
  have marks: "areaMark (pinAreas m') wid \<le> areaMark ?m wid" for wid
    using ge unfolding m'_def by (auto simp: mark_raises_le)
  have "distinct (map fst ?held)" using assms(3) by (auto split: option.splits)
  then have dm: "distinct (map fst (pinAreas m'))" by (simp add: m'_def raise_areas_distinct)
  have "\<not> pinAhead (Some m) m'"
  proof -
    have "v \<le> get_or 0 (pinAreas m) wid" if "(wid, v) \<in> set (pinAreas m')" for wid v
      using marks [of wid] mark_of [OF that dm] by (simp add: d areaMark_def)
    then have "\<not> list_ex (\<lambda>(wid, version). version > get_or 0 (pinAreas m) wid) (pinAreas m')"
      unfolding list_ex_iff by (force simp: not_less)
    moreover have "pinRosterVersion m' = pinRosterVersion m" "pinKeyVersion m' = pinKeyVersion m"
      by (simp_all add: d m'_def)
    moreover have "checkedAt m \<le> checkedAt pin" by (simp add: d split: option.split)
    then have "\<not> checkedAt m' < checkedAt m" by (simp add: m'_def)
    ultimately show ?thesis by (simp add: pinAhead_def)
  qed
  with again show ?thesis by (simp add: guardAfter_def)
qed

theorem guard_settles_witness:
  "guardAfter ''family'' None sample_pin [] = Inr (Store sample_pin)
   \<and> guardAfter ''family'' (Some sample_pin) sample_pin [] = Inr Covered"
proof -
  have s: "guardAfter ''family'' None sample_pin [] = Inr (Store sample_pin)"
    by (simp add: guardAfter_def mergePin_def pinAhead_def sample_pin_def raise_areas_def raise_area_def)
  from guard_settles [OF s] s show ?thesis by (simp add: sample_pin_def)
qed

end
