(* ===== verification/Chain_State.thy ===== *)
theory Chain_State
  imports Area_Ledger Pins
begin

text \<open>
  \<open>packages/crypto/src/group-trust.ts\<close>, what acceptance carries along a chain and the rules it holds
  each statement to: the served statements by digest (\<open>byDigest\<close>), a group key succession
  (\<open>admissibleSuccession\<close>, \<open>nextSuccession\<close>, \<open>establishNext\<close>), a roster (\<open>checkEntries\<close>,
  \<open>rosterRules\<close>), with the signatures (\<open>verifyGroup\<close> of \<open>groups.ts\<close>, \<open>signedByMember\<close>) and the
  comparison codes (\<open>joinCode\<close>, \<open>pairCodeOf\<close>).
\<close>

section \<open>Group keys (groups.ts)\<close>

definition GROUP_SIGNATURE_CONTEXT :: string where
  "GROUP_SIGNATURE_CONTEXT = ''hushos/group/v1''"

definition verifyGroup :: "primitives \<Rightarrow> bytes \<Rightarrow> group_signature \<Rightarrow> group_public_key \<Rightarrow> bool" where
  "verifyGroup P message sig key =
     (if length (ed25519 sig) \<noteq> SIGNATURE_BYTES \<or> length (mlDsa sig) \<noteq> ML_DSA_SIGNATURE_BYTES then False
      else case decode (ed25519PublicKey key) (Some 32) of Inl _ \<Rightarrow> False
        | Inr ed \<Rightarrow> (case decode (mlDsaPublicKey key) (Some ML_DSA_PUBLIC_KEY_BYTES) of Inl _ \<Rightarrow> False
          | Inr ml \<Rightarrow> verifyStatement P message (ed25519 sig) ed
              \<and> mlDsaVerify P (mlDsa sig) message ml GROUP_SIGNATURE_CONTEXT))"

definition sameGroupKey :: "group_public_key \<Rightarrow> group_public_key \<Rightarrow> bool" where
  "sameGroupKey a b \<longleftrightarrow> ed25519PublicKey a = ed25519PublicKey b \<and> mlDsaPublicKey a = mlDsaPublicKey b"

definition groupKeyDigest :: "primitives \<Rightarrow> group_public_key \<Rightarrow> crypto_error + string" where
  "groupKeyDigest P key =
     bindE (bytesOf (JStr (ed25519PublicKey key)) 32 ''group key'') (\<lambda>ed.
     bindE (decode ed None) (\<lambda>ed.
     bindE (bytesOf (JStr (mlDsaPublicKey key)) ML_DSA_PUBLIC_KEY_BYTES ''group key'') (\<lambda>ml.
     bindE (decode ml None) (\<lambda>ml.
       Inr (digest P (ed @ ml))))))"

definition groupFingerprint :: "primitives \<Rightarrow> string \<Rightarrow> group_public_key \<Rightarrow> crypto_error + string" where
  "groupFingerprint P gid key =
     bindE (uuid (JStr gid) ''group id'') (\<lambda>_.
     bindE (bytesOf (JStr (ed25519PublicKey key)) 32 ''group key'') (\<lambda>ed.
     bindE (bytesOf (JStr (mlDsaPublicKey key)) ML_DSA_PUBLIC_KEY_BYTES ''group key'') (\<lambda>ml.
     bindE (decode ed None) (\<lambda>ed.
     bindE (decode ml None) (\<lambda>ml.
       Inr (spaced (hex_of (take 20 (sha256 P
         (text_encode ''hushos/group/fingerprint/v1'' @ text_encode gid @ ed @ ml)))))))))) "

definition groupWords :: "primitives \<Rightarrow> string \<Rightarrow> group_public_key \<Rightarrow> crypto_error + string list" where
  "groupWords P gid key = bindE (groupFingerprint P gid key) (fingerprintWords P)"

definition rosterDigest :: "primitives \<Rightarrow> bytes \<Rightarrow> string" where
  "rosterDigest P st = digest P st"

section \<open>Conflicts\<close>

datatype mark_source = From_Pin | From_Cache | From_Join | From_Pair | From_Served

record mark_side =
  sideDigest :: string
  sideFrom :: "mark_source list"
  sideSigner :: "string option"

datatype fork_of = Of_Roster | Of_Group_Key

record roster_fork =
  forkOf :: fork_of
  forkVersion :: nat
  forkSides :: "mark_side list"

text \<open>What acceptance may throw: a refusal, or the fork it reports as the hard warning.\<close>

datatype failure = Refused crypto_error | Forked roster_fork

definition refused_by :: "crypto_error + 'a \<Rightarrow> failure + 'a" where
  "refused_by m = (case m of Inl e \<Rightarrow> Inl (Refused e) | Inr x \<Rightarrow> Inr x)"

text \<open>\<open>sides\<close>: one side per digest, in order of digest.\<close>

definition SIDE_ORDER :: "mark_source list" where
  "SIDE_ORDER = [From_Pin, From_Cache, From_Join, From_Pair, From_Served]"

fun merge_side :: "mark_side list \<Rightarrow> mark_side \<Rightarrow> mark_side list" where
  "merge_side [] side = [side]"
| "merge_side (held # rest) side =
     (if sideDigest held = sideDigest side
      then held\<lparr> sideFrom := filter (\<lambda>f. f \<in> set (sideFrom held) \<or> f \<in> set (sideFrom side)) SIDE_ORDER,
             sideSigner := (case sideSigner held of None \<Rightarrow> sideSigner side | Some s \<Rightarrow> Some s) \<rparr> # rest
      else held # merge_side rest side)"

definition sides :: "mark_side list \<Rightarrow> mark_side list" where
  "sides all = sort_key sideDigest (foldl merge_side [] all)"

section \<open>Served statements\<close>

record 'a served =
  servedValue :: 'a
  servedStatement :: bytes
  servedDigest :: string
  copies :: "signed_statement list"

definition same_copy :: "signed_statement \<Rightarrow> signed_statement \<Rightarrow> bool" where
  "same_copy c copy \<longleftrightarrow> ed25519 (signature c) = ed25519 (signature copy)
     \<and> mlDsa (signature c) = mlDsa (signature copy) \<and> signerSignature c = signerSignature copy"

fun add_copy :: "'a served list \<Rightarrow> 'a \<Rightarrow> string \<Rightarrow> signed_statement \<Rightarrow> 'a served list" where
  "add_copy [] value key copy =
     [\<lparr> servedValue = value, servedStatement = statement copy, servedDigest = key, copies = [copy] \<rparr>]"
| "add_copy (held # rest) value key copy =
     (if servedDigest held = key
      then (if list_ex (\<lambda>c. same_copy c copy) (copies held) then held
            else held\<lparr> copies := copies held @ [copy] \<rparr>) # rest
      else held # add_copy rest value key copy)"

fun byDigest_from :: "primitives \<Rightarrow> (bytes \<Rightarrow> crypto_error + 'a) \<Rightarrow> 'a served list \<Rightarrow> signed_statement list
    \<Rightarrow> crypto_error + 'a served list" where
  "byDigest_from P parse out [] = Inr out"
| "byDigest_from P parse out (copy # rest) =
     bindE (parse (statement copy)) (\<lambda>value.
       byDigest_from P parse (add_copy out value (digest P (statement copy)) copy) rest)"

definition byDigest :: "primitives \<Rightarrow> signed_statement list \<Rightarrow> (bytes \<Rightarrow> crypto_error + 'a) \<Rightarrow> crypto_error + 'a served list" where
  "byDigest P served parse = byDigest_from P parse [] served"

section \<open>The state of acceptance\<close>

record held_roster =
  heldRoster :: roster
  heldStatement :: bytes
  heldDigest :: string
  droppedHolder :: bool

record verified_succession =
  lastRosterVersionOf :: nat
  verifiedDigest :: string
  verifiedSigner :: string

datatype verdict = Held | Not_Member | Not_Old_Key

type_synonym ml_dsa_keys = "(string \<times> string) list"

record state =
  stGroupId :: string
  mlDsaKeys :: ml_dsa_keys
  groupKeys :: "group_public_key list"
  verified :: "(nat \<times> verified_succession) list"
  held :: "held_roster list"
  candidates :: "(nat \<times> group_key_succession served list) list"
  keyMarks :: "(nat \<times> mark_side) list"
  refused :: "(nat \<times> crypto_error) list"
  waiting :: "(nat \<times> (mark_side \<times> group_public_key) list) list"
  signatures :: "(string \<times> verdict) list"
  stAreas :: area_ledger

definition NOT_FOLLOWING :: crypto_error where
  "NOT_FOLLOWING = CryptoError ''This roster does not follow the last one.''"
definition REPLACED_KEY :: crypto_error where
  "REPLACED_KEY = CryptoError ''This roster was signed by a group key that has been replaced.''"
definition OLDER :: crypto_error where
  "OLDER = CryptoError ''This is an older member list than this device has seen.''"
definition HOLDER_LEFT :: crypto_error where
  "HOLDER_LEFT = CryptoError ''A member who held the group key left, so the key must be replaced first.''"
definition NOT_HOLDER :: crypto_error where
  "NOT_HOLDER = CryptoError ''This was not signed by a member who holds the group key.''"
definition SIGNER_LEFT :: crypto_error where
  "SIGNER_LEFT = CryptoError
     ''A member list is signed by a member who stays on it: another holder signs a departure.''"
definition NO_HOLDER :: crypto_error where
  "NO_HOLDER = CryptoError ''A member list keeps an active member who holds the group key.''"
definition NOT_MEMBER :: crypto_error where
  "NOT_MEMBER = CryptoError ''This is not signed by the member it names.''"
definition NOT_GROUP_SIGNED :: crypto_error where
  "NOT_GROUP_SIGNED = CryptoError ''This roster is not signed by the group key.''"
definition NO_SUCCESSION :: crypto_error where
  "NO_SUCCESSION = CryptoError ''A group key succession is missing.''"
definition NOT_CHECKED :: crypto_error where
  "NOT_CHECKED = CryptoError ''These are not the group keys this person checked.''"
definition NOT_BY_OLD_KEY :: crypto_error where
  "NOT_BY_OLD_KEY = CryptoError ''This group key succession is not signed by the key it replaces.''"
definition NOT_TIED :: crypto_error where
  "NOT_TIED = CryptoError ''This group key succession is not tied to a roster on the member list.''"
definition OUT_OF_ORDER :: crypto_error where
  "OUT_OF_ORDER = CryptoError ''This group key succession is out of order.''"
definition NOT_NEW_KEY :: crypto_error where
  "NOT_NEW_KEY = CryptoError ''This group key succession does not replace the key with a new one.''"
definition NOT_EXTENDING :: crypto_error where
  "NOT_EXTENDING = CryptoError
     ''This member list does not continue the one this device holds: fetch it again from version 1.''"
definition TWO_SUCCESSIONS :: crypto_error where
  "TWO_SUCCESSIONS = CryptoError ''The server served more than one group key succession from one key.''"

section \<open>Signatures on a statement\<close>

definition signedByMember :: "primitives \<Rightarrow> roster \<Rightarrow> string \<Rightarrow> signed_statement \<Rightarrow> ml_dsa_keys \<Rightarrow> bool" where
  "signedByMember P authority signer copy mlKeys =
     (case rosterEntry authority signer of None \<Rightarrow> False
      | Some entry \<Rightarrow>
          (case decode (get_or [] mlKeys (mlDsaPublicKeyDigest entry)) (Some ML_DSA_PUBLIC_KEY_BYTES) of
             Inl _ \<Rightarrow> False
           | Inr ml \<Rightarrow>
               if digest P ml \<noteq> mlDsaPublicKeyDigest entry then False
               else case decode (signingPublicKey entry) (Some 32) of Inl _ \<Rightarrow> False
                 | Inr ed \<Rightarrow> verifyHybrid P (statement copy) (signerSignature copy)
                     \<lparr> h_signingPublicKey = ed, h_mlDsaPublicKey = ml \<rparr>))"

definition mlDsaDigest :: "primitives \<Rightarrow> string \<Rightarrow> string option" where
  "mlDsaDigest P publicKey =
     (case decode publicKey (Some ML_DSA_PUBLIC_KEY_BYTES) of Inl _ \<Rightarrow> None | Inr b \<Rightarrow> Some (digest P b))"

definition servedKeysAreEntry :: "primitives \<Rightarrow> 'a served_keys_scheme \<Rightarrow> roster_member \<Rightarrow> bool" where
  "servedKeysAreEntry P s entry \<longleftrightarrow>
     sk_encryptionPublicKey s = encryptionPublicKey entry \<and> sk_signingPublicKey s = signingPublicKey entry
     \<and> (case decode (sk_mlDsaPublicKey s) (Some ML_DSA_PUBLIC_KEY_BYTES) of Inl _ \<Rightarrow> False
        | Inr ml \<Rightarrow> digest P ml = mlDsaPublicKeyDigest entry
            \<and> (case decode (sk_kemPublicKey s) (Some 1184) of Inl _ \<Rightarrow> False
               | Inr kem \<Rightarrow> digest P kem = kemPublicKeyDigest entry))"

definition servedIsEntry :: "primitives \<Rightarrow> 'a served_keys_scheme \<Rightarrow> roster_member \<Rightarrow> bool" where
  "servedIsEntry P s entry \<longleftrightarrow> sk_keyVersion s = int (keyVersion entry) \<and> servedKeysAreEntry P s entry"

section \<open>The entry rules\<close>

definition sameKeys :: "roster_member \<Rightarrow> roster_member \<Rightarrow> bool" where
  "sameKeys a b \<longleftrightarrow> keyVersion a = keyVersion b \<and> encryptionPublicKey a = encryptionPublicKey b
     \<and> signingPublicKey a = signingPublicKey b \<and> mlDsaPublicKeyDigest a = mlDsaPublicKeyDigest b
     \<and> kemPublicKeyDigest a = kemPublicKeyDigest b"

definition sameEntry :: "roster_member \<Rightarrow> roster_member \<Rightarrow> bool" where
  "sameEntry a b \<longleftrightarrow> sameKeys a b \<and> status a = status b \<and> roles a = roles b"

definition NOT_FOLLOWING_ENTRIES :: crypto_error where
  "NOT_FOLLOWING_ENTRIES = CryptoError ''This member list does not follow from the one before.''"

definition since_after :: "roster \<Rightarrow> nat \<Rightarrow> roster_member \<Rightarrow> nat" where
  "since_after previous version entry =
     (case rosterEntry previous (userId entry) of
        Some before \<Rightarrow> if sameEntry before entry then sinceVersion before else version
      | None \<Rightarrow> version)"

definition checkEntries :: "roster \<Rightarrow> roster \<Rightarrow> crypto_error + unit" where
  "checkEntries previous nxt =
     bindE (refuse_if (list_ex (\<lambda>entry. rosterEntry nxt (userId entry) = None) (members previous))
       NOT_FOLLOWING_ENTRIES) (\<lambda>_.
       refuse_if (list_ex (\<lambda>entry. sinceVersion entry \<noteq> since_after previous (rosterVersion nxt) entry)
         (members nxt)) NOT_FOLLOWING_ENTRIES)"

section \<open>Codes compared (joinCode, pairCodeOf)\<close>

definition JOIN_CODE_DOMAIN :: string where
  "JOIN_CODE_DOMAIN = ''hushos/group/join-code/v1''"

definition PAIR_CODE_DOMAIN :: string where
  "PAIR_CODE_DOMAIN = ''hushos/group/pair-code/v1''"

text \<open>\<open>setBigUint64\<close>: eight bytes, the high one first.\<close>

definition uint64 :: "nat \<Rightarrow> bytes" where
  "uint64 n = map (\<lambda>i. of_nat (n div 256 ^ (7 - i) mod 256)) [0..<8]"

definition code_words :: "primitives \<Rightarrow> bytes \<Rightarrow> crypto_error + string list" where
  "code_words P input = fingerprintWords P (hex_of (take 20 (sha256 P input)))"

definition joinCode :: "primitives \<Rightarrow> string \<Rightarrow> group_public_key \<Rightarrow> nat \<Rightarrow> crypto_error + string list" where
  "joinCode P rd key version =
     bindE (digestOf (JStr rd) ''roster digest'') (\<lambda>rd.
     bindE (decode rd (Some 32)) (\<lambda>roster32.
     bindE (groupKeyDigest P key) (\<lambda>kd.
     bindE (decode kd (Some 32)) (\<lambda>key32.
     bindE (integer (num version) ''group key version'') (\<lambda>v.
       code_words P (text_encode JOIN_CODE_DOMAIN @ roster32 @ key32 @ uint64 v))))))"

definition SAME_MEMBER :: crypto_error where
  "SAME_MEMBER = CryptoError ''A pair code is between two members.''"

definition pairCodeOf ::
    "primitives \<Rightarrow> string \<Rightarrow> group_public_key \<Rightarrow> nat \<Rightarrow> string \<Rightarrow> string \<Rightarrow> crypto_error + string list" where
  "pairCodeOf P rd key version uid other =
     bindE (uuid (JStr uid) ''user id'') (\<lambda>a.
     bindE (uuid (JStr other) ''user id'') (\<lambda>b.
       let lower = min a b; higher = max a b in
       if lower = higher then Inl SAME_MEMBER
       else
         bindE (digestOf (JStr rd) ''roster digest'') (\<lambda>rd.
         bindE (decode rd (Some 32)) (\<lambda>roster32.
         bindE (groupKeyDigest P key) (\<lambda>kd.
         bindE (decode kd (Some 32)) (\<lambda>key32.
         bindE (integer (num version) ''group key version'') (\<lambda>v.
           code_words P (text_encode PAIR_CODE_DOMAIN @ roster32 @ key32 @ uint64 v
             @ text_encode lower @ text_encode higher)))))))) "

text \<open>One above every succession tied to an earlier roster.\<close>

definition keyVersionAt :: "nat list \<Rightarrow> nat \<Rightarrow> nat" where
  "keyVersionAt ties version = 1 + length (filter (\<lambda>tie. tie < version) ties)"

section \<open>Successions\<close>

text \<open>The copies' verdict: held by one of them, else the furthest any got.\<close>

fun copies_verdict :: "primitives \<Rightarrow> state \<Rightarrow> held_roster \<Rightarrow> group_key_succession served \<Rightarrow> group_public_key
    \<Rightarrow> signed_statement list \<Rightarrow> verdict \<Rightarrow> verdict" where
  "copies_verdict P st last_held s old [] verdict = verdict"
| "copies_verdict P st last_held s old (copy # rest) verdict =
     (if \<not> verifyGroup P (servedStatement s) (signature copy) old
      then copies_verdict P st last_held s old rest verdict
      else if signedByMember P (heldRoster last_held) (succSignerUserId (servedValue s)) copy (mlDsaKeys st)
      then Held
      else copies_verdict P st last_held s old rest Not_Member)"

definition old_key_of :: "group_key_succession \<Rightarrow> group_public_key" where
  "old_key_of s = \<lparr> ed25519PublicKey = oldEd25519PublicKey s, mlDsaPublicKey = oldMlDsaPublicKey s \<rparr>"

definition new_key_of :: "group_key_succession \<Rightarrow> group_public_key" where
  "new_key_of s = \<lparr> ed25519PublicKey = newEd25519PublicKey s, mlDsaPublicKey = newMlDsaPublicKey s \<rparr>"

text \<open>The result, and the state with the verdict remembered in \<open>signatures\<close>.\<close>

definition admissibleSuccession ::
    "primitives \<Rightarrow> state \<Rightarrow> group_key_succession served \<Rightarrow> nat \<Rightarrow> (crypto_error + group_key_succession) \<times> state" where
  "admissibleSuccession P st s old_version =
     (let succession = servedValue s; old = groupKeys st ! (old_version - 1) in
      if succGroupId succession \<noteq> stGroupId st \<or> \<not> sameGroupKey old (old_key_of succession)
      then (Inl NOT_BY_OLD_KEY, st)
      else if list_ex (\<lambda>key. sameGroupKey key (new_key_of succession)) (groupKeys st)
      then (Inl NOT_NEW_KEY, st)
      else case find (\<lambda>at. rosterVersion (heldRoster at) = lastRosterVersion succession) (held st) of
        None \<Rightarrow> (Inl NOT_TIED, st)
      | Some last_held \<Rightarrow>
          if heldDigest last_held \<noteq> lastRosterDigest succession then (Inl NOT_TIED, st)
          else if (case map_of (verified st) (old_version - 1) of None \<Rightarrow> False
              | Some into \<Rightarrow> lastRosterVersion succession < lastRosterVersionOf into)
          then (Inl OUT_OF_ORDER, st)
          else if \<not> activeWith (rosterEntry (heldRoster last_held) (succSignerUserId succession)) (Some Members)
          then (Inl NOT_HOLDER, st)
          else
            let verdict = (case map_of (signatures st) (servedDigest s) of Some v \<Rightarrow> v
                  | None \<Rightarrow> copies_verdict P st last_held s old (copies s) Not_Old_Key);
                st' = st\<lparr> signatures := AList.update (servedDigest s) verdict (signatures st) \<rparr>
            in if verdict = Held then (Inr succession, st')
               else (Inl (if verdict = Not_Member then NOT_MEMBER else NOT_BY_OLD_KEY), st'))"

text \<open>The served successions in order of digest: those that hold, each with its new key's digest, and
  why the first other one did not.\<close>

type_synonym valid_succession = "group_key_succession served \<times> group_key_succession \<times> string"

fun weigh_successions :: "primitives \<Rightarrow> nat \<Rightarrow> state \<Rightarrow> valid_succession list \<Rightarrow> crypto_error option
    \<Rightarrow> group_key_succession served list
    \<Rightarrow> crypto_error + (state \<times> valid_succession list \<times> crypto_error option)" where
  "weigh_successions P old_version st valid reason [] = Inr (st, valid, reason)"
| "weigh_successions P old_version st valid reason (s # rest) =
     (case admissibleSuccession P st s old_version of
        (Inl e, st') \<Rightarrow> weigh_successions P old_version st' valid
          (case reason of None \<Rightarrow> Some e | Some r \<Rightarrow> Some r) rest
      | (Inr succession, st') \<Rightarrow>
          bindE (groupKeyDigest P (new_key_of succession)) (\<lambda>kd.
            weigh_successions P old_version st' (valid @ [(s, succession, kd)]) reason rest))"

definition waiting_of :: "valid_succession list \<Rightarrow> (mark_side \<times> group_public_key) list" where
  "waiting_of valid =
     map (\<lambda>(_, s, kd). (\<lparr> sideDigest = kd, sideFrom = [From_Served], sideSigner = Some (succSignerUserId s) \<rparr>,
       new_key_of s)) valid"

definition chosen_of :: "mark_side option \<Rightarrow> valid_succession list \<Rightarrow> valid_succession option" where
  "chosen_of mark valid =
     (case mark of
        None \<Rightarrow> (case valid of [] \<Rightarrow> None | v # _ \<Rightarrow> Some v)
      | Some m \<Rightarrow> find (\<lambda>(_, _, kd). kd = sideDigest m) valid)"

definition choose_succession :: "nat \<Rightarrow> state \<Rightarrow> valid_succession list \<Rightarrow> crypto_error option
    \<Rightarrow> crypto_error + (state \<times> valid_succession option)" where
  "choose_succession old_version st valid reason =
     (let mark = map_of (keyMarks st) (old_version + 1);
          chosen = chosen_of mark valid;
          st = (if mark \<noteq> None \<and> chosen = None \<and> valid \<noteq> []
            then st\<lparr> waiting := AList.update old_version (waiting_of valid) (waiting st) \<rparr> else st)
      in if mark = None \<and> length valid > 1 then Inl TWO_SUCCESSIONS
         else case chosen of
           None \<Rightarrow> Inr (st\<lparr> refused := AList.update old_version
             (case reason of None \<Rightarrow> NO_SUCCESSION | Some r \<Rightarrow> r) (refused st) \<rparr>, None)
         | Some c \<Rightarrow> Inr (st, Some c))"

definition candidates_at :: "state \<Rightarrow> nat \<Rightarrow> group_key_succession served list" where
  "candidates_at st old_version = get_or [] (candidates st) old_version"

definition successions_from :: "state \<Rightarrow> group_key_succession served list" where
  "successions_from st = sort_key servedDigest (candidates_at st (length (groupKeys st)))"

definition nextSuccession ::
    "primitives \<Rightarrow> state \<Rightarrow> crypto_error + (state \<times> valid_succession option)" where
  "nextSuccession P st =
     (let old_version = length (groupKeys st) in
      bindE (weigh_successions P old_version st [] None (successions_from st)) (\<lambda>(st, valid, reason).
        choose_succession old_version st valid reason))"

definition establishNext :: "primitives \<Rightarrow> state \<Rightarrow> crypto_error + (bool \<times> state)" where
  "establishNext P st =
     bindE (nextSuccession P st) (\<lambda>(st, chosen).
       case chosen of None \<Rightarrow> Inr (False, st)
       | Some (s, succession, _) \<Rightarrow>
           Inr (True, st\<lparr>
             verified := AList.update (length (groupKeys st))
               \<lparr> lastRosterVersionOf = lastRosterVersion succession, verifiedDigest = servedDigest s,
                 verifiedSigner = succSignerUserId succession \<rparr> (verified st),
             groupKeys := groupKeys st @ [new_key_of succession] \<rparr>))"

section \<open>Rosters\<close>

text \<open>A rival key waiting for the person's mark: a roster that holds under it is the warning.\<close>

definition under_rival :: "primitives \<Rightarrow> state \<Rightarrow> roster \<Rightarrow> bytes \<Rightarrow> roster \<Rightarrow> group_public_key \<Rightarrow> signed_statement \<Rightarrow> bool" where
  "under_rival P st r stmt authority key copy \<longleftrightarrow>
     verifyGroup P stmt (signature copy) key
     \<and> activeWith (rosterEntry authority (signerUserId r)) (Some Members)
     \<and> (case rosterEntry r (signerUserId r) of None \<Rightarrow> False | Some e \<Rightarrow> status e = Active)
     \<and> list_ex (\<lambda>entry. activeWith (Some entry) (Some Members)) (members r)
     \<and> signedByMember P authority (signerUserId r) copy (mlDsaKeys st)"

definition no_key_yet ::
    "primitives \<Rightarrow> state \<Rightarrow> roster \<Rightarrow> bytes \<Rightarrow> signed_statement list option \<Rightarrow> roster \<Rightarrow> failure" where
  "no_key_yet P st r stmt served_copies authority =
     (let n = length (groupKeys st);
          missing = Refused (case map_of (refused st) n of None \<Rightarrow> NO_SUCCESSION | Some e \<Rightarrow> e) in
      case (map_of (waiting st) n, map_of (keyMarks st) (n + 1), served_copies) of
        (Some rivals, Some mark, Some cs) \<Rightarrow>
          if groupKeyVersion r = n + 1
            \<and> list_ex (\<lambda>(_, key). list_ex (under_rival P st r stmt authority key) cs) rivals
          then Forked \<lparr> forkOf = Of_Group_Key, forkVersion = n + 1, forkSides = sides (mark # map fst rivals) \<rparr>
          else missing
      | _ \<Rightarrow> missing)"

fun roster_copies :: "primitives \<Rightarrow> state \<Rightarrow> roster \<Rightarrow> bytes \<Rightarrow> roster \<Rightarrow> group_public_key \<Rightarrow> bool
    \<Rightarrow> signed_statement list \<Rightarrow> bool \<times> bool" where
  "roster_copies P st r stmt authority key groupSigned [] = (groupSigned, False)"
| "roster_copies P st r stmt authority key groupSigned (copy # rest) =
     (if \<not> verifyGroup P stmt (signature copy) key
      then roster_copies P st r stmt authority key groupSigned rest
      else if signedByMember P authority (signerUserId r) copy (mlDsaKeys st) then (True, True)
      else roster_copies P st r stmt authority key True rest)"

definition roster_signed :: "primitives \<Rightarrow> state \<Rightarrow> roster \<Rightarrow> bytes \<Rightarrow> signed_statement list option \<Rightarrow> roster
    \<Rightarrow> crypto_error + unit" where
  "roster_signed P st r stmt served_copies authority =
     (case served_copies of None \<Rightarrow> Inr ()
      | Some cs \<Rightarrow>
          let (groupSigned, member_signed) =
            roster_copies P st r stmt authority (groupKeys st ! (groupKeyVersion r - 1)) False cs
          in if \<not> groupSigned then Inl NOT_GROUP_SIGNED
             else refuse_if (\<not> member_signed) NOT_MEMBER)"

definition rosterRules :: "primitives \<Rightarrow> state \<Rightarrow> roster \<Rightarrow> bytes \<Rightarrow> signed_statement list option
    \<Rightarrow> held_roster option \<Rightarrow> failure + unit" where
  "rosterRules P st r stmt served_copies previous =
     (let authority = (case previous of None \<Rightarrow> r | Some p \<Rightarrow> heldRoster p) in
      bindE (refused_by (refuse_if (case previous of None \<Rightarrow> False | Some p \<Rightarrow> kind r \<noteq> kind (heldRoster p))
        NOT_FOLLOWING)) (\<lambda>_.
      if length (groupKeys st) < groupKeyVersion r
      then Inl (no_key_yet P st r stmt served_copies authority)
      else refused_by (
        bindE (refuse_if (case map_of (verified st) (groupKeyVersion r) of None \<Rightarrow> False
            | Some out \<Rightarrow> rosterVersion r > lastRosterVersionOf out) REPLACED_KEY) (\<lambda>_.
        bindE (refuse_if (\<not> activeWith (rosterEntry authority (signerUserId r)) (Some Members)) NOT_HOLDER) (\<lambda>_.
        bindE (refuse_if (case rosterEntry r (signerUserId r) of None \<Rightarrow> True | Some e \<Rightarrow> status e \<noteq> Active)
          SIGNER_LEFT) (\<lambda>_.
        bindE (refuse_if (\<not> list_ex (\<lambda>entry. activeWith (Some entry) (Some Members)) (members r)) NO_HOLDER) (\<lambda>_.
        bindE (roster_signed P st r stmt served_copies authority) (\<lambda>_.
        bindE (refuse_if (case previous of None \<Rightarrow> False
            | Some p \<Rightarrow> droppedHolder p \<and> (case map_of (verified st) (groupKeyVersion (heldRoster p)) of
                None \<Rightarrow> True
              | Some out \<Rightarrow> lastRosterVersionOf out \<noteq> rosterVersion (heldRoster p))) HOLDER_LEFT) (\<lambda>_.
        bindE (case previous of None \<Rightarrow> Inr () | Some p \<Rightarrow> checkEntries (heldRoster p) r) (\<lambda>_.
          checkAreas (stAreas st) (map_option heldRoster previous) r)))))))))) "

end
