(* ===== verification/Cache.thy ===== *)
theory Cache
  imports Chain_State
begin

text \<open>
  The chain cache of \<open>group-trust.ts\<close>: what a device (or the server) keeps of a chain it verified
  (\<open>GroupChainCache\<close>), the check of one that is handed in (\<open>checkCache\<close>), and the state acceptance
  continues from (\<open>ledgerOf\<close>, \<open>stateOf\<close>).
\<close>

section \<open>Records\<close>

record key_set =
  ks_encryptionPublicKey :: string
  ks_signingPublicKey :: string
  ks_mlDsaPublicKeyDigest :: string

text \<open>A cache as made (and as checked: \<open>cRoster\<close> is parsed from its statement).\<close>

record cached =
  cRosterDigests :: "string list"
  cStatement :: bytes
  cRoster :: roster
  cDroppedHolder :: bool
  cGroupKeys :: "group_public_key list"
  cSuccessions :: "verified_succession list"
  cCreatorUserId :: string
  cKeyHistory :: "(string \<times> key_set list) list"
  cAreaKeys :: "string by_area"
  cAreaRoots :: "string option by_area"
  cRetiredAreas :: "string list"
  cOwnEntryWrongAt :: "nat list"

text \<open>
  A cache as handed in, of any shape. \<open>option\<close> says whether a field has the type asked for (an array,
  an object), an outer one whether it is there at all; a \<open>None\<close> among the roots is \<open>null\<close>, and \<open>rcCacheVersion\<close>
  is \<open>None\<close> when it is absent or \<open>null\<close> (\<open>cache.cacheVersion ?? 1\<close>).
\<close>

record raw_cache =
  rcGroupId :: json
  rcOrigin :: "json option"
  rcRosterDigests :: "json list option"
  rcStatement :: json
  rcDroppedHolder :: "bool option"
  rcGroupKeys :: "(json \<times> json) option list option"
  rcSuccessions :: "(json \<times> json \<times> json) option list option"
  rcCreatorUserId :: json
  rcKeyHistory :: "(string \<times> (json \<times> json \<times> json) option list option) list option"
  rcAreaKeys :: "(string \<times> json list option) list option"
  rcAreaRoots :: "(string \<times> json option list option) list option option"
  rcRetiredAreas :: "json list option option"
  rcCacheVersion :: "json option"
  rcOwnEntryWrongAt :: "json list option"

definition CACHE_VERSION :: nat where
  "CACHE_VERSION = 2"

definition BAD_CACHE :: crypto_error where
  "BAD_CACHE = CryptoError ''Invalid member list cache.''"

section \<open>checkCache\<close>

text \<open>A value of the right type, or \<open>bad()\<close>.\<close>

fun typed :: "'a option \<Rightarrow> crypto_error + 'a" where
  "typed None = Inl BAD_CACHE"
| "typed (Some x) = Inr x"

fun raw_string :: "json \<Rightarrow> crypto_error + string" where
  "raw_string (JStr s) = Inr s"
| "raw_string _ = Inl BAD_CACHE"

definition check_cached_key :: "(json \<times> json) option \<Rightarrow> crypto_error + group_public_key" where
  "check_cached_key key =
     bindE (typed key) (\<lambda>(e, m).
     bindE (bytesOf e 32 ''group key'') (\<lambda>ed.
     bindE (bytesOf m ML_DSA_PUBLIC_KEY_BYTES ''group key'') (\<lambda>ml.
       Inr \<lparr> ed25519PublicKey = ed, mlDsaPublicKey = ml \<rparr>)))"

definition check_cached_succession :: "(json \<times> json \<times> json) option \<Rightarrow> crypto_error + verified_succession" where
  "check_cached_succession at =
     bindE (typed at) (\<lambda>(v, d, s).
     bindE (integer v ''roster version'') (\<lambda>version.
     bindE (digestOf d ''statement digest'') (\<lambda>dig.
     bindE (uuid s ''user id'') (\<lambda>signer.
       Inr \<lparr> lastRosterVersionOf = version, verifiedDigest = dig, verifiedSigner = signer \<rparr>))))"

definition check_cached_set :: "(json \<times> json \<times> json) option \<Rightarrow> crypto_error + key_set" where
  "check_cached_set s =
     bindE (typed s) (\<lambda>(e, g, m).
     bindE (bytesOf e 32 ''encryption key'') (\<lambda>enc.
     bindE (bytesOf g 32 ''signing key'') (\<lambda>sig.
     bindE (digestOf m ''key digest'') (\<lambda>ml.
       Inr \<lparr> ks_encryptionPublicKey = enc, ks_signingPublicKey = sig, ks_mlDsaPublicKeyDigest = ml \<rparr>))))"

definition check_cached_history ::
    "string \<times> (json \<times> json \<times> json) option list option \<Rightarrow> crypto_error + (string \<times> key_set list)" where
  "check_cached_history entry =
     bindE (typed (snd entry)) (\<lambda>sets.
     bindE (mapE check_cached_set sets) (\<lambda>list.
       if \<not> distinct list then Inl BAD_CACHE
       else bindE (uuid (JStr (fst entry)) ''user id'') (\<lambda>uid. Inr (uid, list))))"

definition check_cached_area :: "string \<times> json list option \<Rightarrow> crypto_error + (string \<times> string list)" where
  "check_cached_area entry =
     bindE (typed (snd entry)) (\<lambda>list.
       if list = [] then Inl BAD_CACHE
       else bindE (uuid (JStr (fst entry)) ''workspace id'') (\<lambda>wid.
         bindE (mapE (\<lambda>at. digestOf at ''area key commitment'') list) (\<lambda>ks. Inr (wid, ks))))"

fun check_root :: "json option \<Rightarrow> crypto_error + string option" where
  "check_root None = Inr None"
| "check_root (Some at) = bindE (digestOf at ''area root commitment'') (\<lambda>r. Inr (Some r))"

definition check_cached_roots ::
    "bool \<Rightarrow> (string \<times> json option list option) list \<Rightarrow> string \<times> string list
     \<Rightarrow> crypto_error + (string \<times> string option list)" where
  "check_cached_roots beforeFormat2 cachedRoots area =
     bindE (typed (if beforeFormat2 then Some (map (\<lambda>_. None) (snd area))
       else case map_of cachedRoots (fst area) of None \<Rightarrow> Some [] | Some rs \<Rightarrow> rs)) (\<lambda>listed.
       if length listed \<noteq> length (snd area) then Inl BAD_CACHE
       else bindE (mapE check_root listed) (\<lambda>rs. Inr (fst area, rs)))"

text \<open>The last roster's rows: each its area's latest key and root, or its tombstone.\<close>

definition row_agrees :: "string by_area \<Rightarrow> string option by_area \<Rightarrow> string list \<Rightarrow> roster_area \<Rightarrow> bool" where
  "row_agrees areaKeys areaRoots retiredAreas area =
     (case map_of areaKeys (workspaceId area) of None \<Rightarrow> False
      | Some list \<Rightarrow>
          if retiredRow area
          then workspaceId area \<in> set retiredAreas \<and> length list = workspaceKeyVersion area - 1
          else length list = workspaceKeyVersion area \<and> last list = commitment area
            \<and> last (the (map_of areaRoots (workspaceId area))) = rootCommitment area
            \<and> workspaceId area \<notin> set retiredAreas)"

fun ascending_versions :: "nat list \<Rightarrow> nat \<Rightarrow> bool" where
  "ascending_versions [] limit = True"
| "ascending_versions [v] limit = (v \<le> limit)"
| "ascending_versions (v # w # vs) limit = (v \<le> limit \<and> v < w \<and> ascending_versions (w # vs) limit)"

fun nondecreasing_ties :: "verified_succession list \<Rightarrow> nat \<Rightarrow> bool" where
  "nondecreasing_ties [] limit = True"
| "nondecreasing_ties [s] limit = (lastRosterVersionOf s \<le> limit)"
| "nondecreasing_ties (s # t # rest) limit =
     (lastRosterVersionOf s \<le> limit \<and> lastRosterVersionOf s \<le> lastRosterVersionOf t
      \<and> nondecreasing_ties (t # rest) limit)"

definition bad_if :: "bool \<Rightarrow> crypto_error + unit" where
  "bad_if b = refuse_if b BAD_CACHE"

definition check_cache_parts :: "primitives \<Rightarrow> string \<Rightarrow> raw_cache \<Rightarrow> crypto_error + cached" where
  "check_cache_parts P gid cache =
     bindE (typed (rcRosterDigests cache)) (\<lambda>digests.
     bindE (bad_if (digests = [])) (\<lambda>_.
     bindE (mapE (\<lambda>at. digestOf at ''roster digest'') digests) (\<lambda>rosterDigests.
     bindE (raw_string (rcStatement cache)) (\<lambda>text.
     bindE (decode text None) (\<lambda>stmt.
     bindE (parseRoster stmt) (\<lambda>r.
     bindE (bad_if (groupId r \<noteq> gid \<or> rosterVersion r \<noteq> length rosterDigests
       \<or> rosterDigest P stmt \<noteq> last rosterDigests)) (\<lambda>_.
     bindE (typed (rcDroppedHolder cache)) (\<lambda>dropped.
     bindE (typed (rcGroupKeys cache)) (\<lambda>gks.
     bindE (mapE check_cached_key gks) (\<lambda>gkeys.
     bindE (bad_if (groupKeyVersion r > length gkeys)) (\<lambda>_.
     bindE (typed (rcSuccessions cache)) (\<lambda>raw_successions.
     bindE (bad_if (length raw_successions \<noteq> length gkeys - 1)) (\<lambda>_.
     bindE (mapE check_cached_succession raw_successions) (\<lambda>successions.
     bindE (bad_if (\<not> nondecreasing_ties successions (length rosterDigests))) (\<lambda>_.
     bindE (uuid (rcCreatorUserId cache) ''user id'') (\<lambda>creator.
     bindE (typed (rcKeyHistory cache)) (\<lambda>raw_history.
     bindE (mapE check_cached_history raw_history) (\<lambda>keyHistory.
     bindE (typed (rcAreaKeys cache)) (\<lambda>raw_areas.
     bindE (mapE check_cached_area raw_areas) (\<lambda>areaKeys.
     bindE (integer (case rcCacheVersion cache of None \<Rightarrow> JNum 1 | Some v \<Rightarrow> v) []) (\<lambda>version.
     bindE (bad_if (version \<noteq> 1 \<and> version \<noteq> CACHE_VERSION)) (\<lambda>_.
     let beforeFormat2 = (version = 1) in
     bindE (case rcAreaRoots cache of None \<Rightarrow> Inr [] | Some rs \<Rightarrow> typed rs) (\<lambda>cachedRoots.
     bindE (bad_if (\<not> fst ` set cachedRoots \<subseteq> fst ` set areaKeys)) (\<lambda>_.
     bindE (bad_if (beforeFormat2 \<and> (cachedRoots \<noteq> []
       \<or> (case rcRetiredAreas cache of Some (Some list) \<Rightarrow> list \<noteq> [] | _ \<Rightarrow> False)))) (\<lambda>_.
     bindE (bad_if (\<not> beforeFormat2 \<and> (rcAreaRoots cache = None \<or> rcRetiredAreas cache = None))) (\<lambda>_.
     bindE (mapE (check_cached_roots beforeFormat2 cachedRoots) areaKeys) (\<lambda>areaRoots.
     bindE (case rcRetiredAreas cache of None \<Rightarrow> Inr [] | Some list \<Rightarrow> typed list) (\<lambda>raw_retired.
     bindE (mapE (\<lambda>at. uuid at ''workspace id'') raw_retired) (\<lambda>retired_ids.
     bindE (ascending retired_ids ''retired areas'') (\<lambda>retiredAreas.
     bindE (bad_if (\<not> set retiredAreas \<subseteq> fst ` set areaKeys)) (\<lambda>_.
     bindE (bad_if (\<not> list_all (row_agrees areaKeys areaRoots retiredAreas) (areas r))) (\<lambda>_.
     bindE (bad_if (rosterVersion r = 1 \<and> length areaKeys \<noteq> length (areas r))) (\<lambda>_.
     bindE (typed (rcOwnEntryWrongAt cache)) (\<lambda>raw_wrong.
     bindE (mapE (\<lambda>at. integer at ''roster version'') raw_wrong) (\<lambda>ownEntryWrongAt.
     bindE (bad_if (\<not> ascending_versions ownEntryWrongAt (length rosterDigests))) (\<lambda>_.
       Inr \<lparr> cRosterDigests = rosterDigests, cStatement = stmt, cRoster = r, cDroppedHolder = dropped,
         cGroupKeys = gkeys, cSuccessions = successions, cCreatorUserId = creator,
         cKeyHistory = keyHistory, cAreaKeys = areaKeys, cAreaRoots = areaRoots,
         cRetiredAreas = retiredAreas, cOwnEntryWrongAt = ownEntryWrongAt \<rparr>))))))))))))))))))))))))))))))))))))"

definition checkCache :: "primitives \<Rightarrow> string \<Rightarrow> raw_cache option \<Rightarrow> bool \<Rightarrow> crypto_error + cached" where
  "checkCache P gid value server =
     bindE (typed value) (\<lambda>cache.
     bindE (bad_if (rcGroupId cache \<noteq> JStr gid)) (\<lambda>_.
     bindE (bad_if (if server then rcOrigin cache \<noteq> Some (JStr ''server'') else rcOrigin cache \<noteq> None)) (\<lambda>_.
       case check_cache_parts P gid cache of Inl _ \<Rightarrow> Inl BAD_CACHE | Inr c \<Rightarrow> Inr c)))"

section \<open>The state a chain continues from\<close>

definition ledgerOf :: "cached option \<Rightarrow> area_ledger" where
  "ledgerOf cached =
     (case cached of None \<Rightarrow> empty_ledger
      | Some c \<Rightarrow> \<lparr> keys = cAreaKeys c, roots = cAreaRoots c, retired = cRetiredAreas c,
          commitments = remdups (flat (cAreaKeys c)),
          rootCommitments = remdups (somes (flat (cAreaRoots c))) \<rparr>)"

definition stateOf :: "string \<Rightarrow> ml_dsa_keys \<Rightarrow> cached option \<Rightarrow> state" where
  "stateOf gid mlKeys cached =
     \<lparr> stGroupId = gid, mlDsaKeys = mlKeys,
       groupKeys = (case cached of None \<Rightarrow> [] | Some c \<Rightarrow> cGroupKeys c),
       verified = (case cached of None \<Rightarrow> []
         | Some c \<Rightarrow> List.enumerate 1 (cSuccessions c)),
       held = (case cached of None \<Rightarrow> []
         | Some c \<Rightarrow> [\<lparr> heldRoster = cRoster c, heldStatement = cStatement c,
             heldDigest = last (cRosterDigests c), droppedHolder = cDroppedHolder c \<rparr>]),
       candidates = [], keyMarks = [], refused = [], waiting = [], signatures = [],
       stAreas = ledgerOf cached \<rparr>"

end
