(* ===== verification/Acceptance.thy ===== *)
theory Acceptance
  imports Cache
begin

text \<open>
  \<open>accept\<close> of \<open>group-trust.ts\<close>, in its four steps (the person's marks against each other; the chain
  linked from its head down; one pass along it; the marks against the verified chain), and what
  rests on it: \<open>acceptRosters\<close>, \<open>acceptStored\<close>, \<open>extend\<close>, \<open>checkNextRoster\<close>, \<open>checkNextSuccession\<close>.
\<close>

section \<open>Taking every succession there is\<close>

text \<open>
  \<open>while (await establishNext(state));\<close> Each turn adds a key, and takes its succession from the
  candidates of the key before, so the candidates' versions not reached yet bound the turns.
\<close>

lemma admissible_state: "\<exists>sg. snd (admissibleSuccession P st s v) = st\<lparr> signatures := sg \<rparr>"
proof -
  have "\<exists>sg. st = st\<lparr> signatures := sg \<rparr>" by (rule exI [of _ "signatures st"]) simp
  then show ?thesis
    by (auto simp: admissibleSuccession_def Let_def split: option.splits)
qed

lemma weigh_state:
  "weigh_successions P v st valid reason ss = Inr (st', valid', reason') \<Longrightarrow> \<exists>sg. st' = st\<lparr> signatures := sg \<rparr>"
proof (induction ss arbitrary: st valid reason)
  case Nil
  then show ?case by (auto intro: exI [of _ "signatures st"])
next
  case (Cons s ss)
  obtain res st1 where a: "admissibleSuccession P st s v = (res, st1)" by fastforce
  with admissible_state [of P st s v] obtain sg where sg: "st1 = st\<lparr> signatures := sg \<rparr>" by auto
  have "\<exists>valid1 reason1. weigh_successions P v st1 valid1 reason1 ss = Inr (st', valid', reason')"
    using Cons.prems a by (cases res) (auto simp: returns)
  with Cons.IH sg show ?case by fastforce
qed

text \<open>What a turn may change beside the keys: the memo, the rivals waiting, the refusals.\<close>

definition apart_notes :: "state \<Rightarrow> state \<Rightarrow> bool" where
  "apart_notes st st' \<longleftrightarrow>
     stGroupId st' = stGroupId st \<and> mlDsaKeys st' = mlDsaKeys st \<and> groupKeys st' = groupKeys st
     \<and> verified st' = verified st \<and> held st' = held st \<and> candidates st' = candidates st
     \<and> keyMarks st' = keyMarks st \<and> stAreas st' = stAreas st"

lemma choose_state:
  "choose_succession v st valid reason = Inr (st', chosen) \<Longrightarrow> apart_notes st st'
     \<and> chosen = chosen_of (map_of (keyMarks st) (v + 1)) valid"
  by (auto simp: choose_succession_def Let_def apart_notes_def split: if_splits option.splits)

lemma nextSuccession_state:
  assumes "nextSuccession P st = Inr (st', chosen)"
  obtains sg valid reason where
    "weigh_successions P (length (groupKeys st)) st [] None (successions_from st)
     = Inr (st\<lparr> signatures := sg \<rparr>, valid, reason)"
    "apart_notes st st'" "chosen = chosen_of (map_of (keyMarks st) (length (groupKeys st) + 1)) valid"
proof -
  from assms obtain x where
    w: "weigh_successions P (length (groupKeys st)) st [] None (successions_from st) = Inr x"
    and c: "(case x of (st1, valid, reason) \<Rightarrow> choose_succession (length (groupKeys st)) st1 valid reason)
      = Inr (st', chosen)"
    unfolding nextSuccession_def Let_def bindE_Inr by blast
  obtain st1 valid reason where x: "x = (st1, valid, reason)" by (cases x)
  obtain sg where s1: "st1 = st\<lparr> signatures := sg \<rparr>" using weigh_state [OF w [unfolded x]] by blast
  from choose_state [OF c [unfolded x prod.case]]
  have "apart_notes st st'" "chosen = chosen_of (map_of (keyMarks st) (length (groupKeys st) + 1)) valid"
    unfolding s1 by (simp_all add: apart_notes_def)
  with that w [unfolded x s1] show thesis by blast
qed

lemma admissible_value: "fst (admissibleSuccession P st s v) = Inr succession \<Longrightarrow> succession = servedValue s"
  by (auto simp: admissibleSuccession_def Let_def split: option.splits if_splits)

lemma weigh_served:
  "weigh_successions P v st valid reason ss = Inr (st', valid', reason') \<Longrightarrow>
     (s, succession, kd) \<in> set valid' \<Longrightarrow>
     (s, succession, kd) \<in> set valid \<or> (s \<in> set ss \<and> succession = servedValue s)"
proof (induction ss arbitrary: st valid reason)
  case (Cons t ss)
  obtain res st1 where a: "admissibleSuccession P st t v = (res, st1)" by fastforce
  show ?case
  proof (cases res)
    case (Inl e)
    with Cons.prems(1) a have "weigh_successions P v st1 valid (case reason of None \<Rightarrow> Some e | Some r \<Rightarrow> Some r) ss
        = Inr (st', valid', reason')" by simp
    from Cons.IH [OF this Cons.prems(2)] show ?thesis by auto
  next
    case (Inr x)
    with Cons.prems(1) a obtain kd1 where "weigh_successions P v st1 (valid @ [(t, x, kd1)]) reason ss
        = Inr (st', valid', reason')" by (auto simp: returns)
    from Cons.IH [OF this Cons.prems(2)] admissible_value [of P st t v x] a Inr show ?thesis by auto
  qed
qed simp

lemma chosen_of_mem: "chosen_of mark valid = Some c \<Longrightarrow> c \<in> set valid"
proof (cases mark)
  case (Some m)
  moreover assume "chosen_of mark valid = Some c"
  ultimately show ?thesis by (auto simp: chosen_of_def find_Some_iff simp del: split_paired_All intro: nth_mem)
qed (cases valid; simp add: chosen_of_def)

text \<open>What a turn of the loop does.\<close>

lemma establishNext_Inr:
  assumes "establishNext P st = Inr (taken, st')"
  shows "if taken then \<exists>s kd. s \<in> set (candidates_at st (length (groupKeys st)))
      \<and> (\<exists>st1. apart_notes st st1 \<and> nextSuccession P st = Inr (st1, Some (s, servedValue s, kd))
      \<and> st' = st1\<lparr> verified := AList.update (length (groupKeys st))
               \<lparr> lastRosterVersionOf = lastRosterVersion (servedValue s), verifiedDigest = servedDigest s,
                 verifiedSigner = succSignerUserId (servedValue s) \<rparr> (verified st),
             groupKeys := groupKeys st @ [new_key_of (servedValue s)] \<rparr>)
    else apart_notes st st' \<and> nextSuccession P st = Inr (st', None)"
proof -
  from assms obtain st1 chosen where n: "nextSuccession P st = Inr (st1, chosen)"
    and c: "(case chosen of None \<Rightarrow> Inr (False, st1)
       | Some (s, succession, _) \<Rightarrow>
           Inr (True, st1\<lparr>
             verified := AList.update (length (groupKeys st1))
               \<lparr> lastRosterVersionOf = lastRosterVersion succession, verifiedDigest = servedDigest s,
                 verifiedSigner = succSignerUserId succession \<rparr> (verified st1),
             groupKeys := groupKeys st1 @ [new_key_of succession] \<rparr>)) = (Inr (taken, st') :: crypto_error + bool \<times> state)"
    unfolding establishNext_def bindE_Inr by auto
  from nextSuccession_state [OF n] obtain sg valid reason where
    w: "weigh_successions P (length (groupKeys st)) st [] None (successions_from st)
       = Inr (st\<lparr> signatures := sg \<rparr>, valid, reason)"
    and a: "apart_notes st st1" and ch: "chosen = chosen_of (map_of (keyMarks st) (length (groupKeys st) + 1)) valid"
    by metis
  show ?thesis
  proof (cases chosen)
    case None
    with c n a show ?thesis by auto
  next
    case (Some x)
    obtain s succession kd where x: "x = (s, succession, kd)" by (cases x)
    have "(s, succession, kd) \<in> set valid" using chosen_of_mem ch Some x by metis
    from weigh_served [OF w this] have "s \<in> set (successions_from st)" "succession = servedValue s" by auto
    then have "s \<in> set (candidates_at st (length (groupKeys st)))" "succession = servedValue s"
      by (simp_all add: successions_from_def)
    with c n a Some x show ?thesis by (auto simp: apart_notes_def)
  qed
qed

definition turns_left :: "state \<Rightarrow> nat" where
  "turns_left st = card {v \<in> fst ` set (candidates st). length (groupKeys st) \<le> v}"

lemma candidates_at_dom: "candidates_at st v \<noteq> [] \<Longrightarrow> v \<in> fst ` set (candidates st)"
  by (cases "map_of (candidates st) v") (auto simp: candidates_at_def dest: map_of_SomeD intro: rev_image_eqI)

lemma establishNext_turns: "establishNext P st = Inr (True, st') \<Longrightarrow> turns_left st' < turns_left st"
proof -
  assume e: "establishNext P st = Inr (True, st')"
  let ?n = "length (groupKeys st)"
  from establishNext_Inr [OF e] have s: "candidates_at st ?n \<noteq> []"
    "candidates st' = candidates st" "length (groupKeys st') = Suc ?n"
    by (auto simp: apart_notes_def)
  from candidates_at_dom [OF s(1)] have "?n \<in> fst ` set (candidates st)" .
  then have "{v \<in> fst ` set (candidates st'). length (groupKeys st') \<le> v}
      \<subset> {v \<in> fst ` set (candidates st). ?n \<le> v}"
    using s(2,3) by (intro psubsetI) (force, metis (no_types, lifting) Suc_n_not_le_n mem_Collect_eq order_refl)
  then show ?thesis unfolding turns_left_def by (intro psubset_card_mono) auto
qed

function establishAll :: "primitives \<Rightarrow> state \<Rightarrow> crypto_error + state" where
  "establishAll P st =
     (case establishNext P st of
        Inl e \<Rightarrow> Inl e
      | Inr (taken, st') \<Rightarrow> if taken then establishAll P st' else Inr st')"
  by auto
termination
  by (relation "measure (\<lambda>(P, st). turns_left st)") (auto simp: establishNext_turns)

declare establishAll.simps [simp del]

section \<open>What acceptance is given\<close>

text \<open>A mark as handed in: its version, the member compared with (for a pair mark), its code.\<close>

record raw_mark =
  rmRosterVersion :: json
  rmWith :: "json option"
  rmCode :: json

record join_mark =
  joinRosterVersion :: nat
  joinWords :: "string list"

record pair_mark =
  pairRosterVersion :: nat
  pairWith :: string
  pairWords :: "string list"

datatype anchor = Created | Joined | First_Use | Stored

record me =
  meUserId :: string
  meIdentities :: "served_keys list"

record accept_input =
  inGroupId :: string
  inFirstKeys :: group_public_key
  inPins :: "raw_group_pin option list"
  inRosters :: "signed_statement list"
  inSuccessions :: "signed_statement list"
  inMlDsaKeys :: ml_dsa_keys
  inJoinMark :: "raw_mark option"
  inPairMarks :: "raw_mark list"
  inAnchor :: "anchor option"
  inMe :: "me option"
  inCache :: "raw_cache option"
  inServer :: bool

definition twelve_words :: "json \<Rightarrow> string list option" where
  "twelve_words code =
     (case code of
        JArr ws \<Rightarrow>
          (if length ws = 12 \<and> list_all (\<lambda>w. case w of
               JStr s \<Rightarrow> 3 \<le> length s \<and> length s \<le> 8 \<and> list_all (\<lambda>c. CHR ''a'' \<le> c \<and> c \<le> CHR ''z'') s
             | _ \<Rightarrow> False) ws
           then Some (map str_of ws) else None)
      | _ \<Rightarrow> None)"

definition checkJoinMark :: "raw_mark \<Rightarrow> crypto_error + join_mark" where
  "checkJoinMark mark =
     (if rmWith mark \<noteq> None then Inl (invalid ''join mark'')
      else case twelve_words (rmCode mark) of None \<Rightarrow> Inl (invalid ''join mark'')
      | Some ws \<Rightarrow> bindE (integer (rmRosterVersion mark) ''join mark'') (\<lambda>v.
          Inr \<lparr> joinRosterVersion = v, joinWords = ws \<rparr>))"

definition checkPairMark :: "raw_mark \<Rightarrow> crypto_error + pair_mark" where
  "checkPairMark mark =
     (case (rmWith mark, twelve_words (rmCode mark)) of
        (Some (JStr w), Some ws) \<Rightarrow>
          bindE (integer (rmRosterVersion mark) ''pair mark'') (\<lambda>v.
          bindE (uuid (JStr w) ''user id'') (\<lambda>other.
            Inr \<lparr> pairRosterVersion = v, pairWith = other, pairWords = ws \<rparr>))
      | _ \<Rightarrow> Inl (invalid ''pair mark''))"

section \<open>(1) The person's own marks\<close>

type_synonym marks = "(nat \<times> mark_side list) list"

definition add_mark :: "marks \<Rightarrow> nat \<Rightarrow> mark_side \<Rightarrow> marks" where
  "add_mark m version side = AList.update version (get_or [] m version @ [side]) m"

definition side_of :: "string \<Rightarrow> mark_source \<Rightarrow> string option \<Rightarrow> mark_side" where
  "side_of d from signer = \<lparr> sideDigest = d, sideFrom = [from], sideSigner = signer \<rparr>"

definition firstKeysMark :: "primitives \<Rightarrow> string \<Rightarrow> string option \<Rightarrow> string" where
  "firstKeysMark P ed mlDigest =
     (case decode ed (Some 32) of Inl _ \<Rightarrow> []
      | Inr e \<Rightarrow> (case decode (case mlDigest of None \<Rightarrow> [] | Some d \<Rightarrow> d) (Some 32) of Inl _ \<Rightarrow> []
        | Inr m \<Rightarrow> digest P (e @ m)))"

record own_marks =
  rosterMarks :: marks
  keyMarkSides :: marks
  firstMarks :: "mark_side list"

definition pin_marks :: "primitives \<Rightarrow> own_marks \<Rightarrow> group_pin \<Rightarrow> own_marks" where
  "pin_marks P m pin = m\<lparr>
     rosterMarks := add_mark (rosterMarks m) (pinRosterVersion pin) (side_of (pinRosterDigest pin) From_Pin None),
     keyMarkSides := add_mark (keyMarkSides m) (pinKeyVersion pin) (side_of (pinGroupKeyDigest pin) From_Pin None),
     firstMarks := firstMarks m @ [side_of (firstKeysMark P (firstEd25519PublicKey pin)
       (Some (firstMlDsaPublicKeyDigest pin))) From_Pin None] \<rparr>"

text \<open>The cache's: every roster's digest, the last with its signer; every key, with the signer of the
  succession into it; the first keys, with the creator.\<close>

fun cache_roster_marks :: "string \<Rightarrow> nat \<Rightarrow> string list \<Rightarrow> marks \<Rightarrow> marks" where
  "cache_roster_marks signer version [] m = m"
| "cache_roster_marks signer version [d] m = add_mark m version (side_of d From_Cache (Some signer))"
| "cache_roster_marks signer version (d # ds) m =
     cache_roster_marks signer (version + 1) ds (add_mark m version (side_of d From_Cache None))"

fun cache_key_marks :: "primitives \<Rightarrow> verified_succession list \<Rightarrow> nat \<Rightarrow> group_public_key list \<Rightarrow> marks
    \<Rightarrow> crypto_error + marks" where
  "cache_key_marks P successions index [] m = Inr m"
| "cache_key_marks P successions index (key # ks) m =
     bindE (groupKeyDigest P key) (\<lambda>kd.
       cache_key_marks P successions (index + 1) ks (add_mark m (index + 1)
         (side_of kd From_Cache (if index = 0 \<or> length successions < index then None
           else Some (verifiedSigner (successions ! (index - 1)))))))"

definition cache_marks :: "primitives \<Rightarrow> cached option \<Rightarrow> own_marks \<Rightarrow> crypto_error + own_marks" where
  "cache_marks P cached m =
     (case cached of None \<Rightarrow> Inr m
      | Some c \<Rightarrow>
          bindE (cache_key_marks P (cSuccessions c) 0 (cGroupKeys c) (keyMarkSides m)) (\<lambda>kms.
            let first = hd (cGroupKeys c) in
            Inr (m\<lparr> rosterMarks := cache_roster_marks (signerUserId (cRoster c)) 1 (cRosterDigests c) (rosterMarks m),
              keyMarkSides := kms,
              firstMarks := firstMarks m @ [side_of (firstKeysMark P (ed25519PublicKey first)
                (mlDsaDigest P (mlDsaPublicKey first))) From_Cache (Some (cCreatorUserId c))] \<rparr>)))"

definition conflict :: "fork_of \<Rightarrow> nat \<Rightarrow> mark_side list \<Rightarrow> failure + unit" where
  "conflict of_what version all =
     (let merged = sides all in
      if length merged > 1
      then Inl (Forked \<lparr> forkOf = of_what, forkVersion = version, forkSides = merged \<rparr>) else Inr ())"

text \<open>A check for each version in turn.\<close>

fun for_each :: "('a \<Rightarrow> 'e + unit) \<Rightarrow> 'a list \<Rightarrow> 'e + unit" where
  "for_each f [] = Inr ()"
| "for_each f (x # xs) = bindE (f x) (\<lambda>_. for_each f xs)"

definition versions_in :: "(nat \<times> 'a) list \<Rightarrow> nat list" where
  "versions_in m = sort (map fst m)"

definition marks_agree :: "own_marks \<Rightarrow> failure + unit" where
  "marks_agree m =
     bindE (conflict Of_Group_Key 1 (firstMarks m)) (\<lambda>_.
     bindE (for_each (\<lambda>v. conflict Of_Roster v (get_or [] (rosterMarks m) v)) (versions_in (rosterMarks m))) (\<lambda>_.
       for_each (\<lambda>v. conflict Of_Group_Key v (get_or [] (keyMarkSides m) v)) (versions_in (keyMarkSides m))))"

definition OTHER_GROUP :: crypto_error where
  "OTHER_GROUP = CryptoError ''This roster is for another group.''"
definition NOT_ANCHORED :: crypto_error where
  "NOT_ANCHORED = CryptoError ''These group keys have not been checked: compare the join code first.''"
definition NOT_A_JOIN :: crypto_error where
  "NOT_A_JOIN = CryptoError ''A join is anchored by the join code compared, and only a join is.''"
definition NO_MEMBER_LIST :: crypto_error where
  "NO_MEMBER_LIST = CryptoError ''This group has no member list yet.''"
definition TWO_HEADS :: crypto_error where
  "TWO_HEADS = CryptoError ''The server served more than one latest member list.''"
definition NOT_LET_IN :: crypto_error where
  "NOT_LET_IN = CryptoError ''This account is not in this family yet.''"

definition first_use :: "own_marks \<Rightarrow> anchor option \<Rightarrow> pair_mark list \<Rightarrow> bool" where
  "first_use m vouching pairMarks \<longleftrightarrow> firstMarks m = [] \<and> vouching = Some First_Use \<and> pairMarks = []"

definition first_keys_vouched :: "primitives \<Rightarrow> own_marks \<Rightarrow> anchor option \<Rightarrow> pair_mark list \<Rightarrow> group_public_key
    \<Rightarrow> crypto_error + unit" where
  "first_keys_vouched P m vouching pairMarks firstKeys =
     (case firstMarks m of
        side # _ \<Rightarrow> refuse_if (firstKeysMark P (ed25519PublicKey firstKeys)
          (mlDsaDigest P (mlDsaPublicKey firstKeys)) \<noteq> sideDigest side) NOT_CHECKED
      | [] \<Rightarrow> refuse_if (vouching = None \<or> (vouching = Some First_Use \<and> \<not> first_use m vouching pairMarks))
          NOT_ANCHORED)"

section \<open>(2) The chain\<close>

text \<open>From \<open>at\<close>, named as the roster of \<open>version\<close>, down by the digests to just above \<open>bottom\<close>.\<close>

fun link_path :: "roster served list \<Rightarrow> nat \<Rightarrow> nat \<Rightarrow> roster served option \<Rightarrow> roster served list
    \<Rightarrow> crypto_error + roster served list" where
  "link_path rosters bottom version at path =
     (if version \<le> bottom then Inr path
      else case at of None \<Rightarrow> Inl NOT_FOLLOWING
      | Some s \<Rightarrow>
          if rosterVersion (servedValue s) \<noteq> version then Inl NOT_FOLLOWING
          else link_path rosters bottom (version - 1)
            (if version > 1
             then find (\<lambda>x. servedDigest x = previousRosterDigest (servedValue s)) rosters else None)
            (s # path))"

declare link_path.simps [simp del]

definition extends_cache :: "cached option \<Rightarrow> roster served list \<Rightarrow> bool" where
  "extends_cache cached rosters \<longleftrightarrow>
     (case cached of None \<Rightarrow> False
      | Some c \<Rightarrow> list_all (\<lambda>s. rosterVersion (servedValue s) > length (cRosterDigests c)) rosters)"

definition bottom_of :: "cached option \<Rightarrow> roster served list \<Rightarrow> nat" where
  "bottom_of cached rosters =
     (case cached of None \<Rightarrow> 0
      | Some c \<Rightarrow> if extends_cache cached rosters then length (cRosterDigests c) else 0)"

definition head_of :: "cached option \<Rightarrow> roster served list \<Rightarrow> nat" where
  "head_of cached rosters =
     foldl max (bottom_of cached rosters) (map (\<lambda>s. rosterVersion (servedValue s)) rosters)"

definition chain_path :: "cached option \<Rightarrow> roster served list \<Rightarrow> crypto_error + roster served list" where
  "chain_path cached rosters =
     (let bottom = bottom_of cached rosters; head = head_of cached rosters in
      if head = 0 then Inl NO_MEMBER_LIST
      else if head > bottom then
        (let tops = filter (\<lambda>s. rosterVersion (servedValue s) = head) rosters in
         if length tops > 1 then Inl TWO_HEADS
         else bindE (link_path rosters bottom head (case tops of [] \<Rightarrow> None | t # _ \<Rightarrow> Some t) []) (\<lambda>path.
           case cached of
             Some c \<Rightarrow>
               if extends_cache cached rosters
                 \<and> previousRosterDigest (servedValue (hd path)) \<noteq> last (cRosterDigests c)
               then Inl NOT_EXTENDING else Inr path
           | None \<Rightarrow> Inr path))
      else Inr [])"

section \<open>(3) One pass along it\<close>

definition last_held :: "state \<Rightarrow> held_roster option" where
  "last_held st = (if held st = [] then None else Some (last (held st)))"

definition hold :: "state \<Rightarrow> roster served \<Rightarrow> state" where
  "hold st at = st\<lparr> stAreas := foldAreas (stAreas st) (servedValue at),
     held := held st @ [\<lparr> heldRoster = servedValue at, heldStatement = servedStatement at,
       heldDigest = servedDigest at,
       droppedHolder = (case last_held st of None \<Rightarrow> False
         | Some previous \<Rightarrow> dropsHolder (heldRoster previous) (servedValue at)) \<rparr>] \<rparr>"

fun pass :: "primitives \<Rightarrow> state \<Rightarrow> roster served list \<Rightarrow> failure + state" where
  "pass P st [] = Inr st"
| "pass P st (at # path) =
     bindE (rosterRules P st (servedValue at) (servedStatement at) (Some (copies at)) (last_held st)) (\<lambda>_.
     bindE (refused_by (establishAll P (hold st at))) (\<lambda>st'. pass P st' path))"

definition add_candidate :: "(nat \<times> group_key_succession served list) list \<Rightarrow> group_key_succession served
    \<Rightarrow> (nat \<times> group_key_succession served list) list" where
  "add_candidate m s = AList.update (oldVersion (servedValue s)) (get_or [] m (oldVersion (servedValue s)) @ [s]) m"

definition start_state :: "string \<Rightarrow> ml_dsa_keys \<Rightarrow> cached option \<Rightarrow> bool \<Rightarrow> group_public_key \<Rightarrow> marks
    \<Rightarrow> group_key_succession served list \<Rightarrow> state" where
  "start_state gid mlKeys cached extending firstKeys kms successions =
     (let st = stateOf gid mlKeys (if extending then cached else None) in
      st\<lparr> groupKeys := groupKeys st @ (if extending then [] else [firstKeys]),
        keyMarks := map (\<lambda>(version, all). (version, hd (sides all))) kms,
        candidates := foldl add_candidate [] successions \<rparr>)"

definition verify_chain :: "primitives \<Rightarrow> state \<Rightarrow> roster served list \<Rightarrow> failure + state" where
  "verify_chain P st path = bindE (refused_by (establishAll P st)) (\<lambda>st'. pass P st' path)"

section \<open>(4) The marks against the verified chain\<close>

definition chain_digest :: "cached option \<Rightarrow> nat \<Rightarrow> roster served list \<Rightarrow> nat \<Rightarrow> string" where
  "chain_digest cached bottom path version =
     (if version \<le> bottom then cRosterDigests (the cached) ! (version - 1)
      else servedDigest (path ! (version - bottom - 1)))"

definition verified_signer :: "state \<Rightarrow> string \<Rightarrow> string option" where
  "verified_signer st d =
     map_option (\<lambda>h. signerUserId (heldRoster h)) (find (\<lambda>h. heldDigest h = d) (rev (held st)))"

definition name_signer :: "state \<Rightarrow> mark_side \<Rightarrow> mark_side" where
  "name_signer st side = side\<lparr> sideSigner := (case sideSigner side of None \<Rightarrow> verified_signer st (sideDigest side)
     | Some s \<Rightarrow> Some s) \<rparr>"

definition roster_marks_met :: "state \<Rightarrow> (nat \<Rightarrow> string) \<Rightarrow> nat \<Rightarrow> marks \<Rightarrow> failure + unit" where
  "roster_marks_met st chainDigest head m =
     bindE (for_each (\<lambda>v. conflict Of_Roster v
         (map (name_signer st) (get_or [] m v) @ [name_signer st (side_of (chainDigest v) From_Served None)]))
       (filter (\<lambda>v. v \<le> head) (versions_in m))) (\<lambda>_.
     refuse_if (list_ex (\<lambda>v. v > head) (versions_in m)) (Refused OLDER))"

definition ties_of :: "state \<Rightarrow> nat list" where
  "ties_of st = map (\<lambda>(_, v). lastRosterVersionOf v) (verified st)"

text \<open>A code compared: the words over the roster there, under the key it is under, or the fork.\<close>

definition joined :: "string list \<Rightarrow> string" where
  "joined ws = (case ws of [] \<Rightarrow> [] | w # rest \<Rightarrow> w @ concat (map (\<lambda>x. CHR '' '' # x) rest))"

definition code_met :: "state \<Rightarrow> (nat \<Rightarrow> string) \<Rightarrow> nat \<Rightarrow> nat \<Rightarrow> string list \<Rightarrow> mark_source
    \<Rightarrow> (string \<Rightarrow> group_public_key \<Rightarrow> nat \<Rightarrow> crypto_error + string list) \<Rightarrow> failure + unit" where
  "code_met st chainDigest head version ws source code_of =
     (if version > head then Inl (Refused OLDER)
      else
        let d = chainDigest version; kv = keyVersionAt (ties_of st) version in
        bindE (refused_by (code_of d (groupKeys st ! (kv - 1)) kv)) (\<lambda>code.
          if joined code \<noteq> joined ws
          then Inl (Forked \<lparr> forkOf = Of_Roster, forkVersion = version,
            forkSides = sides [side_of (joined ws) source None, side_of d From_Served (verified_signer st d)] \<rparr>)
          else Inr ()))"

definition join_mark_met :: "primitives \<Rightarrow> state \<Rightarrow> (nat \<Rightarrow> string) \<Rightarrow> nat \<Rightarrow> join_mark option \<Rightarrow> failure + unit" where
  "join_mark_met P st chainDigest head joinMark =
     (case joinMark of None \<Rightarrow> Inr ()
      | Some m \<Rightarrow> code_met st chainDigest head (joinRosterVersion m) (joinWords m) From_Join (joinCode P))"

definition pair_marks_met :: "primitives \<Rightarrow> state \<Rightarrow> (nat \<Rightarrow> string) \<Rightarrow> nat \<Rightarrow> me option \<Rightarrow> pair_mark list \<Rightarrow> failure + unit" where
  "pair_marks_met P st chainDigest head reader pairMarks =
     for_each (\<lambda>m. code_met st chainDigest head (pairRosterVersion m) (pairWords m) From_Pair
         (\<lambda>d key kv. pairCodeOf P d key kv (meUserId (the reader)) (pairWith m)))
       (sort_key pairRosterVersion pairMarks)"

definition key_marks_met :: "primitives \<Rightarrow> state \<Rightarrow> marks \<Rightarrow> failure + unit" where
  "key_marks_met P st kms =
     bindE (for_each (\<lambda>v.
         if v > length (groupKeys st) then Inr ()
         else bindE (refused_by (groupKeyDigest P (groupKeys st ! (v - 1)))) (\<lambda>kd.
           conflict Of_Group_Key v [the (map_of (keyMarks st) v),
             side_of kd From_Served (map_option verifiedSigner (map_of (verified st) (v - 1)))]))
       (versions_in (keyMarks st))) (\<lambda>_.
     refuse_if (list_ex (\<lambda>v. v > length (groupKeys st)) (versions_in kms)) (Refused OLDER))"

end
