(* ===== verification/Accepted.thy ===== *)
theory Accepted
  imports Acceptance
begin

text \<open>
  \<open>accept\<close> of \<open>group-trust.ts\<close> put together, what it returns (\<open>ChainBody\<close> with the cache to keep), and
  the operations that are acceptance: \<open>acceptRosters\<close> (a device), \<open>acceptStored\<close> (the server),
  \<open>extend\<close> with \<open>checkNextRoster\<close> and \<open>checkNextSuccession\<close> (one statement more), and \<open>pinAfter\<close>.
\<close>

section \<open>What acceptance returns\<close>

datatype how_checked = Checked_Created | Checked_Join | Checked_Compared

record family_checked =
  checkedHow :: how_checked
  checkedRosterVersion :: nat

record dead_branch =
  deadVersion :: nat
  deadSigner :: string

record chain_body =
  chGroupId :: string
  chKind :: group_kind
  chRoster :: roster
  chStatement :: bytes
  chRosterDigest :: string
  chRosterDigests :: "string list"
  chDroppedHolder :: bool
  chGroupKeyVersion :: nat
  chGroupKey :: group_public_key
  chGroupKeyDigest :: string
  chGroupKeys :: "group_public_key list"
  chCreatorUserId :: string
  chSuccessionDue :: bool
  chKeyHistory :: "(string \<times> key_set list) list"
  chAreaKeys :: "string by_area"
  chAreaRoots :: "string option by_area"
  chRetiredAreas :: "string list"
  chOwnEntryWrongAt :: "nat list"
  chOwnEntryBehindAt :: "nat list"
  chDeadBranches :: "dead_branch list"
  chCache :: raw_cache
  chChecked :: "family_checked option"

text \<open>The cache written out: \<open>statement\<close> as base64url, no origin, format \<open>CACHE_VERSION\<close>.\<close>

definition cache_record :: "string \<Rightarrow> cached \<Rightarrow> raw_cache" where
  "cache_record gid c = \<lparr>
     rcGroupId = JStr gid, rcOrigin = None,
     rcRosterDigests = Some (map JStr (cRosterDigests c)),
     rcStatement = JStr (encode (cStatement c)),
     rcDroppedHolder = Some (cDroppedHolder c),
     rcGroupKeys = Some (map (\<lambda>k. Some (JStr (ed25519PublicKey k), JStr (mlDsaPublicKey k))) (cGroupKeys c)),
     rcSuccessions = Some (map (\<lambda>s. Some (num (lastRosterVersionOf s), JStr (verifiedDigest s),
       JStr (verifiedSigner s))) (cSuccessions c)),
     rcCreatorUserId = JStr (cCreatorUserId c),
     rcKeyHistory = Some (map (\<lambda>(uid, list). (uid, Some (map (\<lambda>s. Some (JStr (ks_encryptionPublicKey s),
       JStr (ks_signingPublicKey s), JStr (ks_mlDsaPublicKeyDigest s))) list))) (cKeyHistory c)),
     rcAreaKeys = Some (map (\<lambda>(wid, list). (wid, Some (map JStr list))) (cAreaKeys c)),
     rcAreaRoots = Some (Some (map (\<lambda>(wid, list). (wid, Some (map (map_option JStr) list))) (cAreaRoots c))),
     rcRetiredAreas = Some (Some (map JStr (cRetiredAreas c))),
     rcCacheVersion = Some (num CACHE_VERSION),
     rcOwnEntryWrongAt = Some (map num (cOwnEntryWrongAt c)) \<rparr>"

section \<open>The reader's own entries and everyone's keys\<close>

definition keySetOf :: "roster_member \<Rightarrow> key_set" where
  "keySetOf entry = \<lparr> ks_encryptionPublicKey = encryptionPublicKey entry,
     ks_signingPublicKey = signingPublicKey entry, ks_mlDsaPublicKeyDigest = mlDsaPublicKeyDigest entry \<rparr>"

definition sameKeySet :: "key_set \<Rightarrow> key_set \<Rightarrow> bool" where
  "sameKeySet a b \<longleftrightarrow> ks_encryptionPublicKey a = ks_encryptionPublicKey b
     \<and> ks_signingPublicKey a = ks_signingPublicKey b
     \<and> ks_mlDsaPublicKeyDigest a = ks_mlDsaPublicKeyDigest b"

definition see_keys :: "(string \<times> key_set list) list \<Rightarrow> roster_member \<Rightarrow> (string \<times> key_set list) list" where
  "see_keys seen_before entry =
     (let seen = get_or [] seen_before (userId entry); s = keySetOf entry in
      AList.update (userId entry) (if list_ex (\<lambda>x. sameKeySet x s) seen then seen else seen @ [s]) seen_before)"

text \<open>\<open>mineAt\<close>: whether the reader is listed, and the version of the identity their entry names.\<close>

definition mineAt :: "primitives \<Rightarrow> me option \<Rightarrow> roster \<Rightarrow> bool \<times> int option" where
  "mineAt P reader r =
     (case reader of None \<Rightarrow> (False, None)
      | Some m \<Rightarrow>
          (case rosterEntry r (meUserId m) of None \<Rightarrow> (False, None)
           | Some entry \<Rightarrow>
               (True, map_option sk_keyVersion (find (\<lambda>identity. servedIsEntry P identity entry) (meIdentities m)))))"

record own_walk =
  walkHistory :: "(string \<times> key_set list) list"
  walkWrongAt :: "nat list"
  walkBehindAt :: "nat list"
  walkLast :: "int option"

definition newest_own :: "me option \<Rightarrow> int" where
  "newest_own reader = foldl max 0 (case reader of None \<Rightarrow> [] | Some m \<Rightarrow> map sk_keyVersion (meIdentities m))"

definition walk_step :: "primitives \<Rightarrow> me option \<Rightarrow> own_walk \<Rightarrow> roster \<Rightarrow> own_walk" where
  "walk_step P reader w r =
     (let w = w\<lparr> walkHistory := foldl see_keys (walkHistory w) (members r) \<rparr>;
          (listed, version) = mineAt P reader r in
      if \<not> listed then w
      else
        let wrong = (case version of None \<Rightarrow> True
              | Some v \<Rightarrow> (case walkLast w of None \<Rightarrow> False | Some l \<Rightarrow> v < l));
            behind = (the version < newest_own reader
              \<and> sinceVersion (the (rosterEntry r (meUserId (the reader)))) = rosterVersion r) in
        w\<lparr> walkWrongAt := (if wrong then walkWrongAt w @ [rosterVersion r] else walkWrongAt w),
           walkBehindAt := (if \<not> wrong \<and> behind then walkBehindAt w @ [rosterVersion r] else walkBehindAt w),
           walkLast := (case version of None \<Rightarrow> walkLast w | Some v \<Rightarrow> Some v) \<rparr>)"

definition own_walk :: "primitives \<Rightarrow> me option \<Rightarrow> cached option \<Rightarrow> roster list \<Rightarrow> own_walk" where
  "own_walk P reader continued fresh = foldl (walk_step P reader)
     (case continued of
        None \<Rightarrow> \<lparr> walkHistory = [], walkWrongAt = [], walkBehindAt = [], walkLast = None \<rparr>
      | Some c \<Rightarrow> \<lparr> walkHistory = cKeyHistory c, walkWrongAt = cOwnEntryWrongAt c, walkBehindAt = [],
          walkLast = snd (mineAt P reader (cRoster c)) \<rparr>) fresh"

definition dead_branches :: "roster served list \<Rightarrow> string list \<Rightarrow> dead_branch list" where
  "dead_branches rosters onChain =
     map (\<lambda>at. \<lparr> deadVersion = rosterVersion (servedValue at), deadSigner = signerUserId (servedValue at) \<rparr>)
       (sort_key (\<lambda>at. rosterVersion (servedValue at))
         (sort_key servedDigest (filter (\<lambda>at. servedDigest at \<notin> set onChain) rosters)))"

section \<open>The body\<close>

definition last_of :: "state \<Rightarrow> held_roster" where
  "last_of st = last (held st)"

definition succession_due :: "state \<Rightarrow> bool" where
  "succession_due st \<longleftrightarrow>
     (let latest = last_of st in
      droppedHolder latest \<and> (case map_of (verified st) (groupKeyVersion (heldRoster latest)) of
          None \<Rightarrow> True
        | Some out \<Rightarrow> lastRosterVersionOf out \<noteq> rosterVersion (heldRoster latest)))"

definition how_vouched :: "anchor option \<Rightarrow> join_mark option \<Rightarrow> pair_mark list \<Rightarrow> family_checked option" where
  "how_vouched vouching joinMark pairMarks =
     (if vouching = Some Created then Some \<lparr> checkedHow = Checked_Created, checkedRosterVersion = 1 \<rparr>
      else case joinMark of
        Some m \<Rightarrow> Some \<lparr> checkedHow = Checked_Join, checkedRosterVersion = joinRosterVersion m \<rparr>
      | None \<Rightarrow>
          if pairMarks \<noteq> []
          then Some \<lparr> checkedHow = Checked_Compared, checkedRosterVersion = Min (set (map pairRosterVersion pairMarks)) \<rparr>
          else None)"

text \<open>The cache of a verified chain: what \<open>accept\<close> keeps of the state it ended in.\<close>

definition cached_of :: "state \<Rightarrow> string list \<Rightarrow> string \<Rightarrow> own_walk \<Rightarrow> cached" where
  "cached_of st digests creator w =
     (let latest = last_of st in
      \<lparr> cRosterDigests = digests, cStatement = heldStatement latest, cRoster = heldRoster latest,
        cDroppedHolder = droppedHolder latest, cGroupKeys = groupKeys st,
        cSuccessions = map snd (sort_key fst (verified st)), cCreatorUserId = creator,
        cKeyHistory = walkHistory w, cAreaKeys = keys (stAreas st), cAreaRoots = roots (stAreas st),
        cRetiredAreas = sort (retired (stAreas st)), cOwnEntryWrongAt = walkWrongAt w \<rparr>)"

definition body_of :: "string \<Rightarrow> state \<Rightarrow> cached \<Rightarrow> string \<Rightarrow> own_walk \<Rightarrow> dead_branch list \<Rightarrow> family_checked option
    \<Rightarrow> chain_body" where
  "body_of gid st c keyDig w dead checked =
     (let latest = last_of st in
      \<lparr> chGroupId = gid, chKind = kind (heldRoster latest), chRoster = heldRoster latest,
        chStatement = heldStatement latest, chRosterDigest = heldDigest latest,
        chRosterDigests = cRosterDigests c, chDroppedHolder = droppedHolder latest,
        chGroupKeyVersion = length (groupKeys st), chGroupKey = last (groupKeys st),
        chGroupKeyDigest = keyDig, chGroupKeys = groupKeys st, chCreatorUserId = cCreatorUserId c,
        chSuccessionDue = succession_due st, chKeyHistory = walkHistory w,
        chAreaKeys = keys (stAreas st), chAreaRoots = roots (stAreas st),
        chRetiredAreas = cRetiredAreas c, chOwnEntryWrongAt = walkWrongAt w,
        chOwnEntryBehindAt = walkBehindAt w, chDeadBranches = dead,
        chCache = cache_record gid c, chChecked = checked \<rparr>)"

section \<open>accept\<close>

text \<open>The input checked, before anything is compared.\<close>

record accept_given =
  gvGroupId :: string
  gvPins :: "group_pin list"
  gvCached :: "cached option"
  gvJoinMark :: "join_mark option"
  gvPairMarks :: "pair_mark list"

definition check_given :: "primitives \<Rightarrow> accept_input \<Rightarrow> crypto_error + accept_given" where
  "check_given P input =
     bindE (uuid (JStr (inGroupId input)) ''group id'') (\<lambda>gid.
     bindE (mapE (checkGroupPin gid) (inPins input)) (\<lambda>pins.
     bindE (case inCache input of None \<Rightarrow> Inr None
       | Some c \<Rightarrow> bindE (checkCache P gid (Some c) (inServer input)) (\<lambda>c. Inr (Some c))) (\<lambda>cached.
     bindE (case inJoinMark input of None \<Rightarrow> Inr None
       | Some m \<Rightarrow> bindE (checkJoinMark m) (\<lambda>m. Inr (Some m))) (\<lambda>joinMark.
     bindE (mapE checkPairMark (inPairMarks input)) (\<lambda>pairMarks.
     bindE (refuse_if ((inAnchor input = Some Joined \<and> joinMark = None)
       \<or> (joinMark \<noteq> None \<and> inAnchor input \<noteq> Some Joined \<and> inAnchor input \<noteq> None)) NOT_A_JOIN) (\<lambda>_.
     bindE (refuse_if (pairMarks \<noteq> [] \<and> inMe input = None) (invalid ''pair mark'')) (\<lambda>_.
       Inr \<lparr> gvGroupId = gid, gvPins = pins, gvCached = cached, gvJoinMark = joinMark,
         gvPairMarks = pairMarks \<rparr>)))))))"

definition own_marks_of :: "primitives \<Rightarrow> accept_given \<Rightarrow> crypto_error + own_marks" where
  "own_marks_of P given = cache_marks P (gvCached given)
     (foldl (pin_marks P) \<lparr> rosterMarks = [], keyMarkSides = [], firstMarks = [] \<rparr> (gvPins given))"

text \<open>What is served, read once the marks agree; the first keys vouched for.\<close>

definition read_served :: "primitives \<Rightarrow> accept_input \<Rightarrow> accept_given \<Rightarrow> own_marks
    \<Rightarrow> crypto_error + (roster served list \<times> group_key_succession served list)" where
  "read_served P input given m =
     bindE (byDigest P (inRosters input) parseRoster) (\<lambda>rosters.
     bindE (refuse_if (list_ex (\<lambda>s. groupId (servedValue s) \<noteq> gvGroupId given) rosters) OTHER_GROUP) (\<lambda>_.
     bindE (byDigest P (inSuccessions input) parseGroupSuccession) (\<lambda>successions.
     bindE (first_keys_vouched P m (inAnchor input) (gvPairMarks given) (inFirstKeys input)) (\<lambda>_.
       Inr (rosters, successions)))))"

definition first_use_met :: "state \<Rightarrow> own_marks \<Rightarrow> accept_input \<Rightarrow> pair_mark list \<Rightarrow> failure + unit" where
  "first_use_met st m input pairMarks =
     refuse_if (first_use m (inAnchor input) pairMarks
       \<and> \<not> (case inMe input of None \<Rightarrow> False
            | Some reader \<Rightarrow> activeWith (rosterEntry (heldRoster (last_of st)) (meUserId reader)) None))
       (Refused NOT_LET_IN)"

definition marks_met :: "primitives \<Rightarrow> accept_input \<Rightarrow> accept_given \<Rightarrow> own_marks \<Rightarrow> nat \<Rightarrow> (nat \<Rightarrow> string) \<Rightarrow> state
    \<Rightarrow> failure + unit" where
  "marks_met P input given m head chainDigest st =
     bindE (roster_marks_met st chainDigest head (rosterMarks m)) (\<lambda>_.
     bindE (join_mark_met P st chainDigest head (gvJoinMark given)) (\<lambda>_.
     bindE (pair_marks_met P st chainDigest head (inMe input) (gvPairMarks given)) (\<lambda>_.
     bindE (first_use_met st m input (gvPairMarks given)) (\<lambda>_.
       key_marks_met P st (keyMarkSides m)))))"

definition finish :: "primitives \<Rightarrow> accept_input \<Rightarrow> accept_given \<Rightarrow> cached option \<Rightarrow> roster served list
    \<Rightarrow> roster served list \<Rightarrow> state \<Rightarrow> crypto_error + chain_body" where
  "finish P input given continued rosters path st =
     (let fresh = (case continued of None \<Rightarrow> held st | Some _ \<Rightarrow> drop 1 (held st));
          w = own_walk P (inMe input) continued (map heldRoster fresh);
          digests = (case continued of None \<Rightarrow> [] | Some c \<Rightarrow> cRosterDigests c) @ map servedDigest path;
          creator = (case continued of None \<Rightarrow> signerUserId (heldRoster (hd (held st)))
            | Some c \<Rightarrow> cCreatorUserId c)
      in bindE (groupKeyDigest P (last (groupKeys st))) (\<lambda>keyDig.
        Inr (body_of (gvGroupId given) st (cached_of st digests creator w) keyDig w
          (dead_branches rosters digests)
          (how_vouched (inAnchor input) (gvJoinMark given) (gvPairMarks given)))))"

definition accept :: "primitives \<Rightarrow> accept_input \<Rightarrow> failure + (chain_body \<times> state)" where
  "accept P input =
     bindE (refused_by (check_given P input)) (\<lambda>given.
     bindE (refused_by (own_marks_of P given)) (\<lambda>m.
     bindE (marks_agree m) (\<lambda>_.
     bindE (refused_by (read_served P input given m)) (\<lambda>(rosters, successions).
     bindE (refused_by (chain_path (gvCached given) rosters)) (\<lambda>path.
       let extending = extends_cache (gvCached given) rosters;
           continued = (if extending then gvCached given else None);
           bottom = bottom_of (gvCached given) rosters;
           head = head_of (gvCached given) rosters in
       bindE (verify_chain P (start_state (gvGroupId given) (inMlDsaKeys input) (gvCached given) extending
         (inFirstKeys input) (keyMarkSides m) successions) path) (\<lambda>st.
       bindE (marks_met P input given m head (chain_digest (gvCached given) bottom path) st) (\<lambda>_.
       bindE (refused_by (finish P input given continued rosters path st)) (\<lambda>body.
         Inr (body, st)))))))))"

section \<open>A device's acceptance, the server's, and one statement more\<close>

text \<open>An accepted chain and a stored one are of two brands; the server's record says it is the server's.\<close>

datatype chain = Accepted_Rosters chain_body | Stored_Chain chain_body

fun chain_body_of :: "chain \<Rightarrow> chain_body" where
  "chain_body_of (Accepted_Rosters b) = b"
| "chain_body_of (Stored_Chain b) = b"

definition asStored :: "chain_body \<Rightarrow> chain" where
  "asStored b = Stored_Chain (b\<lparr> chCache := (chCache b)\<lparr> rcOrigin := Some (JStr ''server'') \<rparr> \<rparr>)"

definition NOT_STORED :: crypto_error where
  "NOT_STORED = CryptoError ''This is not a member list the server accepted.''"

definition storedCacheOf :: "chain \<Rightarrow> crypto_error + raw_cache" where
  "storedCacheOf c = (case c of Stored_Chain b \<Rightarrow> Inr (chCache b) | Accepted_Rosters _ \<Rightarrow> Inl NOT_STORED)"

datatype roster_chain = Accepted_Chain chain | Roster_Fork roster_fork

definition acceptRosters :: "primitives \<Rightarrow> accept_input \<Rightarrow> crypto_error + roster_chain" where
  "acceptRosters P input =
     (case accept P input of
        Inr (body, _) \<Rightarrow> Inr (Accepted_Chain (Accepted_Rosters body))
      | Inl (Forked fork) \<Rightarrow> Inr (Roster_Fork fork)
      | Inl (Refused e) \<Rightarrow> Inl e)"

definition chain_step :: "chain \<Rightarrow> signed_statement list \<Rightarrow> signed_statement list \<Rightarrow> ml_dsa_keys \<Rightarrow> accept_input" where
  "chain_step c rosters successions mlKeys =
     (let body = chain_body_of c in
      \<lparr> inGroupId = chGroupId body, inFirstKeys = hd (chGroupKeys body), inPins = [],
        inRosters = rosters, inSuccessions = successions, inMlDsaKeys = mlKeys,
        inJoinMark = None, inPairMarks = [], inAnchor = None, inMe = None,
        inCache = Some (chCache body), inServer = (case c of Stored_Chain _ \<Rightarrow> True | _ \<Rightarrow> False) \<rparr>)"

definition extend :: "primitives \<Rightarrow> chain \<Rightarrow> signed_statement list \<Rightarrow> signed_statement list \<Rightarrow> ml_dsa_keys
    \<Rightarrow> crypto_error + (chain_body \<times> state)" where
  "extend P c rosters successions mlKeys =
     (case accept P (chain_step c rosters successions mlKeys) of
        Inr x \<Rightarrow> Inr x
      | Inl (Forked _) \<Rightarrow> Inl NOT_FOLLOWING
      | Inl (Refused e) \<Rightarrow> Inl e)"

definition NEVER_HAD :: crypto_error where
  "NEVER_HAD = CryptoError ''This entry names keys its member never had.''"

definition entry_known :: "primitives \<Rightarrow> roster \<Rightarrow> (string \<times> served_identity list) list \<Rightarrow> roster_member \<Rightarrow> bool" where
  "entry_known P before identities entry \<longleftrightarrow>
     (case rosterEntry before (userId entry) of None \<Rightarrow> False | Some b \<Rightarrow> sameKeys b entry)
     \<or> list_ex (\<lambda>identity. servedIsEntry P identity entry \<and> verifyIdentityKeys P (userId entry) identity)
         (get_or [] identities (userId entry))"

definition checkNextRoster :: "primitives \<Rightarrow> chain \<Rightarrow> signed_statement \<Rightarrow> ml_dsa_keys
    \<Rightarrow> (string \<times> served_identity list) list option \<Rightarrow> crypto_error + chain" where
  "checkNextRoster P c signed_roster mlKeys identities =
     bindE (extend P c [signed_roster] [] mlKeys) (\<lambda>(nxt, _).
       case identities of None \<Rightarrow> Inr (asStored nxt)
       | Some ids \<Rightarrow>
           bindE (refuse_if (\<not> list_all (entry_known P (chRoster (chain_body_of c)) ids)
             (members (chRoster nxt))) NEVER_HAD) (\<lambda>_. Inr (asStored nxt)))"

definition checkNextSuccession :: "primitives \<Rightarrow> chain \<Rightarrow> signed_statement \<Rightarrow> ml_dsa_keys \<Rightarrow> crypto_error + chain" where
  "checkNextSuccession P c signed_succession mlKeys =
     bindE (extend P c [] [signed_succession] mlKeys) (\<lambda>(nxt, st).
       let now = chGroupKeyVersion (chain_body_of c) in
       if chGroupKeyVersion nxt \<noteq> now + 1
       then Inl (case map_of (refused st) now of None \<Rightarrow> NO_SUCCESSION | Some e \<Rightarrow> e)
       else Inr (asStored nxt))"

definition STORED_FORK :: crypto_error where
  "STORED_FORK = CryptoError ''The stored member list does not continue its own cache.''"

text \<open>The server's acceptance: its stored first keys are the anchor; no pins, no reader.\<close>

definition stored_input :: "string \<Rightarrow> group_public_key \<Rightarrow> signed_statement list \<Rightarrow> signed_statement list
    \<Rightarrow> ml_dsa_keys \<Rightarrow> raw_cache option \<Rightarrow> accept_input" where
  "stored_input gid firstKeys rosters successions mlKeys cache =
     \<lparr> inGroupId = gid, inFirstKeys = firstKeys, inPins = [], inRosters = rosters,
       inSuccessions = successions, inMlDsaKeys = mlKeys, inJoinMark = None, inPairMarks = [],
       inAnchor = Some Stored, inMe = None, inCache = cache, inServer = True \<rparr>"

definition acceptStored :: "primitives \<Rightarrow> string \<Rightarrow> group_public_key \<Rightarrow> signed_statement list
    \<Rightarrow> signed_statement list \<Rightarrow> ml_dsa_keys \<Rightarrow> raw_cache option \<Rightarrow> crypto_error + chain" where
  "acceptStored P gid firstKeys rosters successions mlKeys cache =
     (case accept P (stored_input gid firstKeys rosters successions mlKeys cache) of
        Inr (body, _) \<Rightarrow> Inr (asStored body)
      | Inl (Forked _) \<Rightarrow> Inl STORED_FORK
      | Inl (Refused e) \<Rightarrow> Inl e)"

section \<open>The pin to write, and who a succession leaves out\<close>

text \<open>\<open>accepted.ts\<close>: the brand of a chain this device accepted.\<close>

definition NOT_ACCEPTED :: crypto_error where
  "NOT_ACCEPTED = CryptoError ''This is not a member list this device accepted.''"

definition requireAccepted :: "chain \<Rightarrow> crypto_error + chain_body" where
  "requireAccepted c = (case c of Accepted_Rosters b \<Rightarrow> Inr b | Stored_Chain _ \<Rightarrow> Inl NOT_ACCEPTED)"

definition NOT_ON_CHAIN :: crypto_error where
  "NOT_ON_CHAIN = CryptoError ''This pin is not on the accepted member list.''"

definition pin_on_chain :: "chain_body \<Rightarrow> raw_group_pin option \<Rightarrow> crypto_error + group_pin" where
  "pin_on_chain chain raw =
     bindE (checkGroupPin (chGroupId chain) raw) (\<lambda>pin.
     bindE (refuse_if (length (chRosterDigests chain) < pinRosterVersion pin
       \<or> chRosterDigests chain ! (pinRosterVersion pin - 1) \<noteq> pinRosterDigest pin) NOT_ON_CHAIN) (\<lambda>_.
       Inr pin))"

definition pinAfter :: "primitives \<Rightarrow> raw_group_pin option list \<Rightarrow> chain \<Rightarrow> json \<Rightarrow> crypto_error + group_pin" where
  "pinAfter P raws c at =
     bindE (requireAccepted c) (\<lambda>chain.
     bindE (checkTime at) (\<lambda>checked_now.
     bindE (mapE (pin_on_chain chain) raws) (\<lambda>pins.
       let first = hd (chGroupKeys chain) in
       Inr \<lparr> firstEd25519PublicKey = ed25519PublicKey first,
         firstMlDsaPublicKeyDigest = the (mlDsaDigest P (mlDsaPublicKey first)),
         checkedAt = (if pins = [] then checked_now else Min (set (map checkedAt pins))),
         pinKeyVersion = chGroupKeyVersion chain, pinGroupKeyDigest = chGroupKeyDigest chain,
         pinRosterVersion = rosterVersion (chRoster chain), pinRosterDigest = chRosterDigest chain,
         pinAreas = raise_areas [] (concat (map pinAreas pins)) \<rparr>)))"

definition droppedHolders :: "roster \<Rightarrow> string list \<Rightarrow> string list" where
  "droppedHolders r sealedTo =
     map userId (filter (\<lambda>entry. activeWith (Some entry) (Some Members) \<and> userId entry \<notin> set sealedTo) (members r))"

end
