(* ===== verification/Chain.thy ===== *)
theory Chain
  imports Accepted
begin

text \<open>
  What the pass of \<open>accept\<close> along a chain amounts to: a machine that takes an admissible succession or,
  when none is left to take, holds the next roster. The loop with its memo of signature verdicts
  refines it, and the machine's invariants give the rules every accepted chain keeps.
\<close>

section \<open>What makes a succession hold\<close>

text \<open>A copy among \<open>cs\<close> holds under the group key and under the signer's own keys.\<close>

definition signed_for :: "primitives \<Rightarrow> bytes \<Rightarrow> group_public_key \<Rightarrow> roster \<Rightarrow> string \<Rightarrow> ml_dsa_keys
    \<Rightarrow> signed_statement list \<Rightarrow> bool" where
  "signed_for P stmt key authority signer mlKeys cs \<longleftrightarrow>
     (\<exists>copy \<in> set cs. verifyGroup P stmt (signature copy) key \<and> signedByMember P authority signer copy mlKeys)"

lemma copies_verdict_Held:
  "verdict \<noteq> Held \<Longrightarrow> copies_verdict P st lh s old cs verdict = Held \<longleftrightarrow>
     signed_for P (servedStatement s) old (heldRoster lh) (succSignerUserId (servedValue s)) (mlDsaKeys st) cs"
  by (induction cs arbitrary: verdict) (auto simp: signed_for_def)

lemma verdict_Held: "copies_verdict P st lh s old cs Not_Old_Key = Held \<longleftrightarrow>
    signed_for P (servedStatement s) old (heldRoster lh) (succSignerUserId (servedValue s)) (mlDsaKeys st) cs"
  by (simp add: copies_verdict_Held)

lemma roster_copies_snd: "snd (roster_copies P st r stmt authority key b cs) \<longleftrightarrow>
    signed_for P stmt key authority (signerUserId r) (mlDsaKeys st) cs"
  by (induction cs arbitrary: b) (auto simp: signed_for_def)

lemma roster_signed_Some: "roster_signed P st r stmt (Some cs) authority = Inr u \<Longrightarrow>
    signed_for P stmt (groupKeys st ! (groupKeyVersion r - 1)) authority (signerUserId r) (mlDsaKeys st) cs"
  using roster_copies_snd [of P st r stmt authority "groupKeys st ! (groupKeyVersion r - 1)" False cs]
  by (auto simp: roster_signed_def Let_def returns split: prod.splits if_splits)

definition tied_to :: "state \<Rightarrow> group_key_succession served \<Rightarrow> held_roster option" where
  "tied_to st s = find (\<lambda>at. rosterVersion (heldRoster at) = lastRosterVersion (servedValue s)) (held st)"

text \<open>\<open>admissibleSuccession\<close> without its memo.\<close>

definition admissible :: "primitives \<Rightarrow> state \<Rightarrow> group_key_succession served \<Rightarrow> nat \<Rightarrow> bool" where
  "admissible P st s v \<longleftrightarrow>
     (let succession = servedValue s; old = groupKeys st ! (v - 1) in
      succGroupId succession = stGroupId st \<and> sameGroupKey old (old_key_of succession)
      \<and> \<not> list_ex (\<lambda>key. sameGroupKey key (new_key_of succession)) (groupKeys st)
      \<and> (\<exists>lh. tied_to st s = Some lh \<and> heldDigest lh = lastRosterDigest succession
        \<and> (\<forall>into. map_of (verified st) (v - 1) = Some into \<longrightarrow> lastRosterVersionOf into \<le> lastRosterVersion succession)
        \<and> activeWith (rosterEntry (heldRoster lh) (succSignerUserId succession)) (Some Members)
        \<and> signed_for P (servedStatement s) old (heldRoster lh) (succSignerUserId succession) (mlDsaKeys st) (copies s)))"

section \<open>The memo of verdicts\<close>

definition digests_apart :: "state \<Rightarrow> bool" where
  "digests_apart st \<longleftrightarrow> (\<forall>v w s t. s \<in> set (candidates_at st v) \<longrightarrow> t \<in> set (candidates_at st w) \<longrightarrow>
     servedDigest s = servedDigest t \<longrightarrow> s = t \<and> v = w)"

definition memo_ok :: "primitives \<Rightarrow> state \<Rightarrow> bool" where
  "memo_ok P st \<longleftrightarrow> (\<forall>v s verdict. s \<in> set (candidates_at st v) \<longrightarrow>
     map_of (signatures st) (servedDigest s) = Some verdict \<longrightarrow>
     v \<le> length (groupKeys st) \<and> (\<exists>lh. tied_to st s = Some lh
       \<and> (verdict = Held \<longleftrightarrow> signed_for P (servedStatement s) (groupKeys st ! (v - 1)) (heldRoster lh)
           (succSignerUserId (servedValue s)) (mlDsaKeys st) (copies s))))"

lemma admissible_memo:
  assumes memo: "memo_ok P st" and apart: "digests_apart st" and s: "s \<in> set (candidates_at st v)"
    and v: "v \<le> length (groupKeys st)"
  shows "(\<exists>x. fst (admissibleSuccession P st s v) = Inr x) \<longleftrightarrow> admissible P st s v"
    and "memo_ok P (snd (admissibleSuccession P st s v))"
proof -
  have verdict: "map_of (signatures st) (servedDigest s) = Some verdict \<Longrightarrow> tied_to st s = Some lh \<Longrightarrow>
      verdict = Held \<longleftrightarrow> signed_for P (servedStatement s) (groupKeys st ! (v - 1)) (heldRoster lh)
           (succSignerUserId (servedValue s)) (mlDsaKeys st) (copies s)" for verdict lh
    using memo s unfolding memo_ok_def by fastforce
  show "(\<exists>x. fst (admissibleSuccession P st s v) = Inr x) \<longleftrightarrow> admissible P st s v"
    using verdict
    by (auto simp: admissibleSuccession_def admissible_def Let_def tied_to_def verdict_Held not_less
        split: option.splits)
  let ?new = "\<lambda>lh. case map_of (signatures st) (servedDigest s) of Some v \<Rightarrow> v
      | None \<Rightarrow> copies_verdict P st lh s (groupKeys st ! (v - 1)) (copies s) Not_Old_Key"
  have cases: "snd (admissibleSuccession P st s v) = st \<or>
     (\<exists>lh. tied_to st s = Some lh \<and> snd (admissibleSuccession P st s v)
       = st\<lparr> signatures := AList.update (servedDigest s) (?new lh) (signatures st) \<rparr>)"
    by (auto simp: admissibleSuccession_def Let_def tied_to_def split: option.splits)
  then show "memo_ok P (snd (admissibleSuccession P st s v))"
  proof
    assume "\<exists>lh. tied_to st s = Some lh \<and> snd (admissibleSuccession P st s v)
       = st\<lparr> signatures := AList.update (servedDigest s) (?new lh) (signatures st) \<rparr>"
    then obtain lh where lh: "tied_to st s = Some lh" and st': "snd (admissibleSuccession P st s v)
       = st\<lparr> signatures := AList.update (servedDigest s) (?new lh) (signatures st) \<rparr>" by blast
    have new: "?new lh = Held \<longleftrightarrow> signed_for P (servedStatement s) (groupKeys st ! (v - 1)) (heldRoster lh)
           (succSignerUserId (servedValue s)) (mlDsaKeys st) (copies s)"
      using verdict [OF _ lh] by (auto simp: verdict_Held split: option.splits)
    show ?thesis unfolding st' memo_ok_def
    proof (intro allI impI)
      fix w t verdict
      assume t: "t \<in> set (candidates_at (st\<lparr> signatures := AList.update (servedDigest s) (?new lh) (signatures st) \<rparr>) w)"
        and m: "map_of (signatures (st\<lparr> signatures := AList.update (servedDigest s) (?new lh) (signatures st) \<rparr>)) (servedDigest t) = Some verdict"
      from t have t: "t \<in> set (candidates_at st w)" by (simp add: candidates_at_def)
      show "w \<le> length (groupKeys (st\<lparr>signatures := AList.update (servedDigest s) (?new lh) (signatures st)\<rparr>)) \<and>
       (\<exists>lha. tied_to (st\<lparr>signatures := AList.update (servedDigest s) (?new lh) (signatures st)\<rparr>) t = Some lha \<and>
         (verdict = Held \<longleftrightarrow> signed_for P (servedStatement t)
            (groupKeys (st\<lparr>signatures := AList.update (servedDigest s) (?new lh) (signatures st)\<rparr>) ! (w - 1))
            (heldRoster lha) (succSignerUserId (servedValue t))
            (mlDsaKeys (st\<lparr>signatures := AList.update (servedDigest s) (?new lh) (signatures st)\<rparr>)) (copies t)))"
      proof (cases "servedDigest t = servedDigest s")
        case True
        with apart s t have "t = s" "w = v" unfolding digests_apart_def by metis+
        with m lh new v show ?thesis by (auto simp: map_of_alist_update tied_to_def)
      next
        case False
        with m memo t show ?thesis unfolding memo_ok_def
          by (simp add: map_of_alist_update tied_to_def) 
      qed
    qed
  qed (use memo in simp)
qed

section \<open>What a turn of the loop does\<close>

text \<open>Notes aside, two states are alike; \<open>admissible\<close> and what it rests on do not read the notes.\<close>

lemma apart_notes_refl [simp]: "apart_notes st st"
  by (simp add: apart_notes_def)

lemma apart_notes_signatures [simp]: "apart_notes st (st\<lparr> signatures := sg \<rparr>)"
  by (simp add: apart_notes_def)

lemma apart_notes_trans: "apart_notes a b \<Longrightarrow> apart_notes b c \<Longrightarrow> apart_notes a c"
  by (simp add: apart_notes_def)

lemma notes_candidates: "apart_notes st st' \<Longrightarrow> candidates_at st' v = candidates_at st v"
  by (simp add: apart_notes_def candidates_at_def)

lemma notes_admissible: "apart_notes st st' \<Longrightarrow> admissible P st' s v = admissible P st s v"
  by (simp add: apart_notes_def admissible_def tied_to_def)

lemma notes_apart: "apart_notes st st' \<Longrightarrow> digests_apart st' = digests_apart st"
  by (simp add: digests_apart_def notes_candidates)

lemma notes_memo: "apart_notes st st' \<Longrightarrow> signatures st' = signatures st \<Longrightarrow> memo_ok P st' = memo_ok P st"
  unfolding memo_ok_def tied_to_def apart_notes_def candidates_at_def by simp

lemma admissible_notes: "apart_notes st (snd (admissibleSuccession P st s v))"
  using admissible_state [of P st s v] by auto

definition weighable :: "primitives \<Rightarrow> nat \<Rightarrow> state \<Rightarrow> group_key_succession served list \<Rightarrow> bool" where
  "weighable P v st ss \<longleftrightarrow> memo_ok P st \<and> digests_apart st \<and> set ss \<subseteq> set (candidates_at st v)
     \<and> v \<le> length (groupKeys st)"

lemma weigh_step:
  assumes "weighable P v st (s # ss)" and "admissibleSuccession P st s v = (res, st1)"
  shows "weighable P v st1 ss" "apart_notes st st1" "\<And>t. admissible P st1 t v = admissible P st t v"
    "case res of Inl e \<Rightarrow> \<not> admissible P st s v | Inr x \<Rightarrow> x = servedValue s \<and> admissible P st s v"
proof -
  from assms(1) have w: "memo_ok P st" "digests_apart st" "s \<in> set (candidates_at st v)" "v \<le> length (groupKeys st)"
    "set ss \<subseteq> set (candidates_at st v)" by (simp_all add: weighable_def)
  note m = admissible_memo [OF w(1-4), unfolded assms(2) fst_conv snd_conv]
  show n: "apart_notes st st1" using admissible_notes [of st P s v] assms(2) by simp
  show "\<And>t. admissible P st1 t v = admissible P st t v" by (rule notes_admissible [OF n])
  show "weighable P v st1 ss"
    using m(2) w n by (simp add: weighable_def notes_apart notes_candidates) (simp add: apart_notes_def)
  show "case res of Inl e \<Rightarrow> \<not> admissible P st s v | Inr x \<Rightarrow> x = servedValue s \<and> admissible P st s v"
    using m(1) admissible_value [of P st s v] assms(2) by (cases res) auto
qed

lemma weigh_rest:
  assumes "weigh_successions P v st valid reason (s # ss) = Inr x" "weighable P v st (s # ss)"
  obtains st1 reason1 where "weighable P v st1 ss" "apart_notes st st1"
    "\<And>t. admissible P st1 t v = admissible P st t v" "\<not> admissible P st s v"
    "weigh_successions P v st1 valid reason1 ss = Inr x"
  | st1 kd where "weighable P v st1 ss" "apart_notes st st1"
    "\<And>t. admissible P st1 t v = admissible P st t v" "admissible P st s v"
    "groupKeyDigest P (new_key_of (servedValue s)) = Inr kd"
    "weigh_successions P v st1 (valid @ [(s, servedValue s, kd)]) reason ss = Inr x"
proof -
  obtain res st1 where a: "admissibleSuccession P st s v = (res, st1)" by fastforce
  note w = weigh_step [OF assms(2) a]
  show thesis
  proof (cases res)
    case (Inl e)
    with assms(1) a w that(1) show thesis by auto
  next
    case (Inr y)
    with w(4) assms(1) a w that(2) show thesis by (auto simp: returns)
  qed
qed

lemma weigh_keeps:
  "weigh_successions P v st valid reason ss = Inr (st', valid', reason') \<Longrightarrow> weighable P v st ss \<Longrightarrow>
     memo_ok P st' \<and> apart_notes st st' \<and> set valid \<subseteq> set valid'"
proof (induction ss arbitrary: st valid reason)
  case (Cons s ss)
  from Cons.prems show ?case
    by (rule weigh_rest) (use Cons.IH apart_notes_trans in \<open>fastforce+\<close>)
qed (simp add: weighable_def)

lemma weigh_sound:
  "weigh_successions P v st valid reason ss = Inr (st', valid', reason') \<Longrightarrow> weighable P v st ss \<Longrightarrow>
     (t, succession, kd) \<in> set valid' \<Longrightarrow> (t, succession, kd) \<in> set valid \<or> (t \<in> set ss \<and> admissible P st t v)"
proof (induction ss arbitrary: st valid reason)
  case (Cons s ss)
  from Cons.prems(1,2) show ?case
  proof (rule weigh_rest)
    fix st1 reason1
    assume "weighable P v st1 ss" "\<And>t. admissible P st1 t v = admissible P st t v"
      "weigh_successions P v st1 valid reason1 ss = Inr (st', valid', reason')"
    with Cons.IH [of st1 valid reason1] Cons.prems(3) show ?thesis by auto
  next
    fix st1 k
    assume "weighable P v st1 ss" "\<And>t. admissible P st1 t v = admissible P st t v" "admissible P st s v"
      "weigh_successions P v st1 (valid @ [(s, servedValue s, k)]) reason ss = Inr (st', valid', reason')"
    with Cons.IH [of st1 "valid @ [(s, servedValue s, k)]" reason] Cons.prems(3) show ?thesis by auto
  qed
qed simp

lemma weigh_digests:
  "weigh_successions P v st valid reason ss = Inr (st', valid', reason') \<Longrightarrow> (t, succession, kd) \<in> set valid' \<Longrightarrow>
     (t, succession, kd) \<in> set valid \<or> groupKeyDigest P (new_key_of succession) = Inr kd"
proof (induction ss arbitrary: st valid reason)
  case (Cons s ss)
  obtain res st1 where a: "admissibleSuccession P st s v = (res, st1)" by fastforce
  show ?case
  proof (cases res)
    case (Inl e)
    with Cons.prems(1) a have "weigh_successions P v st1 valid (case reason of None \<Rightarrow> Some e | Some r \<Rightarrow> Some r) ss
        = Inr (st', valid', reason')" by simp
    from Cons.IH [OF this Cons.prems(2)] show ?thesis .
  next
    case (Inr x)
    with Cons.prems(1) a obtain k where k: "groupKeyDigest P (new_key_of x) = Inr k"
      and w: "weigh_successions P v st1 (valid @ [(s, x, k)]) reason ss = Inr (st', valid', reason')"
      by (auto simp: returns)
    from Cons.IH [OF w Cons.prems(2)] k show ?thesis by auto
  qed
qed simp

lemma weigh_complete:
  "weigh_successions P v st valid reason ss = Inr (st', valid', reason') \<Longrightarrow> weighable P v st ss \<Longrightarrow>
     t \<in> set ss \<Longrightarrow> admissible P st t v \<Longrightarrow>
     \<exists>kd. groupKeyDigest P (new_key_of (servedValue t)) = Inr kd \<and> (t, servedValue t, kd) \<in> set valid'"
proof (induction ss arbitrary: st valid reason)
  case (Cons s ss)
  from Cons.prems(1,2) show ?case
  proof (rule weigh_rest)
    fix st1 reason1
    assume "weighable P v st1 ss" "\<And>t. admissible P st1 t v = admissible P st t v" "\<not> admissible P st s v"
      "weigh_successions P v st1 valid reason1 ss = Inr (st', valid', reason')"
    with Cons.IH [of st1 valid reason1] Cons.prems(3,4) show ?thesis by auto
  next
    fix st1 k
    assume w: "weighable P v st1 ss" "\<And>t. admissible P st1 t v = admissible P st t v"
      "groupKeyDigest P (new_key_of (servedValue s)) = Inr k"
      "weigh_successions P v st1 (valid @ [(s, servedValue s, k)]) reason ss = Inr (st', valid', reason')"
    show ?thesis
    proof (cases "t = s")
      case True
      with weigh_keeps [OF w(4,1)] w(3) show ?thesis by auto
    next
      case False
      with Cons.IH [OF w(4,1)] w(2) Cons.prems(3,4) show ?thesis by auto
    qed
  qed
qed simp

text \<open>A succession that may be taken now: admissible, and into the key the person's mark names, if any.\<close>

definition choosable :: "primitives \<Rightarrow> state \<Rightarrow> group_key_succession served \<Rightarrow> bool" where
  "choosable P st s \<longleftrightarrow> (let n = length (groupKeys st) in
     s \<in> set (candidates_at st n) \<and> admissible P st s n
     \<and> (\<forall>m. map_of (keyMarks st) (n + 1) = Some m \<longrightarrow>
          groupKeyDigest P (new_key_of (servedValue s)) = Inr (sideDigest m)))"

definition settled :: "primitives \<Rightarrow> state \<Rightarrow> bool" where
  "settled P st \<longleftrightarrow> (\<forall>s. \<not> choosable P st s)"

lemma notes_choosable: "apart_notes st st' \<Longrightarrow> choosable P st' s = choosable P st s"
  unfolding choosable_def Let_def using notes_candidates [of st st'] notes_admissible [of st st']
  by (simp add: apart_notes_def)

lemma notes_settled: "apart_notes st st' \<Longrightarrow> settled P st' = settled P st"
  by (simp add: settled_def notes_choosable)

lemma choose_signatures: "choose_succession v st valid reason = Inr (st', chosen) \<Longrightarrow> signatures st' = signatures st"
  by (auto simp: choose_succession_def Let_def split: if_splits option.splits)

definition take_key :: "state \<Rightarrow> group_key_succession served \<Rightarrow> state" where
  "take_key st s = st\<lparr>
     verified := AList.update (length (groupKeys st))
       \<lparr> lastRosterVersionOf = lastRosterVersion (servedValue s), verifiedDigest = servedDigest s,
         verifiedSigner = succSignerUserId (servedValue s) \<rparr> (verified st),
     groupKeys := groupKeys st @ [new_key_of (servedValue s)] \<rparr>"

lemma establishNext_takes:
  assumes "establishNext P st = Inr (took, st')"
  obtains st1 chosen where "nextSuccession P st = Inr (st1, chosen)" "apart_notes st st1"
    "if took then \<exists>s kd. chosen = Some (s, servedValue s, kd) \<and> st' = take_key st1 s
     else st' = st1 \<and> chosen = None"
proof -
  have k: "apart_notes st st1 \<Longrightarrow> st1\<lparr> verified := AList.update (length (groupKeys st))
               \<lparr> lastRosterVersionOf = lastRosterVersion (servedValue s), verifiedDigest = servedDigest s,
                 verifiedSigner = succSignerUserId (servedValue s) \<rparr> (verified st),
             groupKeys := groupKeys st @ [new_key_of (servedValue s)] \<rparr> = take_key st1 s" for st1 s
    by (simp add: take_key_def apart_notes_def)
  from establishNext_Inr [OF assms] show thesis
    by (cases took) (use k that in fastforce)+
qed

lemma establishNext_sound:
  assumes e: "establishNext P st = Inr (took, st')" and memo: "memo_ok P st" and apart: "digests_apart st"
  shows "\<exists>st1. apart_notes st st1 \<and> memo_ok P st1 \<and>
     (if took then \<exists>s. choosable P st s \<and> st' = take_key st1 s else st' = st1 \<and> settled P st)"
proof -
  let ?n = "length (groupKeys st)"
  obtain st1 chosen where n: "nextSuccession P st = Inr (st1, chosen)"
    and t: "if took then \<exists>s kd. chosen = Some (s, servedValue s, kd) \<and> st' = take_key st1 s
      else st' = st1 \<and> chosen = None"
    by (rule establishNext_takes [OF e]) blast
  from n obtain x where
    w0: "weigh_successions P ?n st [] None (successions_from st) = Inr x"
    and c0: "(case x of (st1, valid, reason) \<Rightarrow> choose_succession ?n st1 valid reason) = Inr (st1, chosen)"
    unfolding nextSuccession_def Let_def bindE_Inr by blast
  obtain st0 valid reason where x: "x = (st0, valid, reason)" by (cases x)
  note w = w0 [unfolded x] and c = c0 [unfolded x prod.case]
  have from_set: "set (successions_from st) = set (candidates_at st ?n)" by (simp add: successions_from_def)
  have wa: "weighable P ?n st (successions_from st)" using memo apart from_set by (simp add: weighable_def)
  note v = weigh_keeps [OF w wa]
  from choose_state [OF c] have a: "apart_notes st0 st1"
    and ch0: "chosen = chosen_of (map_of (keyMarks st0) (?n + 1)) valid" by blast+
  from v have "keyMarks st0 = keyMarks st" by (simp add: apart_notes_def)
  with ch0 have ch: "chosen = chosen_of (map_of (keyMarks st) (?n + 1)) valid" by simp
  have memo1: "memo_ok P st1" using notes_memo [OF a choose_signatures [OF c]] v by blast
  have a1: "apart_notes st st1" using v a apart_notes_trans by blast
  show ?thesis
  proof (cases took)
    case True
    with t obtain s kd where s: "chosen = Some (s, servedValue s, kd)" "st' = take_key st1 s" by auto
    with chosen_of_mem ch have mem: "(s, servedValue s, kd) \<in> set valid" by metis
    from weigh_sound [OF w wa mem] from_set have adm: "s \<in> set (candidates_at st ?n)" "admissible P st s ?n" by auto
    with weigh_complete [OF w wa, of s] weigh_digests [OF w mem] from_set
    have kd: "groupKeyDigest P (new_key_of (servedValue s)) = Inr kd" by auto
    have "kd = sideDigest m" if "map_of (keyMarks st) (?n + 1) = Some m" for m
    proof -
      have "find (\<lambda>(_, _, kd). kd = sideDigest m) valid = Some (s, servedValue s, kd)"
        using ch s(1) that by (simp add: chosen_of_def)
      then show ?thesis by (auto simp: find_Some_iff)
    qed
    with adm kd have "choosable P st s" by (simp add: choosable_def Let_def)
    with s(2) True a1 memo1 show ?thesis by auto
  next
    case False
    have "\<not> choosable P st s" for s
    proof
      assume s: "choosable P st s"
      with weigh_complete [OF w wa, of s] obtain kd where kd: "groupKeyDigest P (new_key_of (servedValue s)) = Inr kd"
        "(s, servedValue s, kd) \<in> set valid" by (auto simp: from_set choosable_def Let_def)
      from False t have none: "chosen_of (map_of (keyMarks st) (?n + 1)) valid = None" using ch by simp
      then obtain m where m: "map_of (keyMarks st) (?n + 1) = Some m" "find (\<lambda>(_, _, kd). kd = sideDigest m) valid = None"
        using kd(2) by (cases "map_of (keyMarks st) (?n + 1)") (auto simp: chosen_of_def split: list.splits)
      with kd(2) have "kd \<noteq> sideDigest m" by (fastforce simp: find_None_iff)
      with m(1) kd(1) s show False by (simp add: choosable_def Let_def)
    qed
    with False t a1 memo1 show ?thesis by (auto simp: settled_def)
  qed
qed

section \<open>The machine\<close>

text \<open>The roster that continues what is held, by version and by digest.\<close>

definition links :: "state \<Rightarrow> roster served \<Rightarrow> bool" where
  "links st at \<longleftrightarrow> (case last_held st of
       None \<Rightarrow> rosterVersion (servedValue at) = 1
     | Some h \<Rightarrow> rosterVersion (servedValue at) = rosterVersion (heldRoster h) + 1
         \<and> previousRosterDigest (servedValue at) = heldDigest h)"

definition roster_ok :: "primitives \<Rightarrow> state \<Rightarrow> roster served \<Rightarrow> bool" where
  "roster_ok P st at \<longleftrightarrow>
     rosterRules P st (servedValue at) (servedStatement at) (Some (copies at)) (last_held st) = Inr ()"

inductive advances :: "primitives \<Rightarrow> roster served list \<Rightarrow> state \<Rightarrow> state \<Rightarrow> bool" for P S where
  Take: "choosable P st s \<Longrightarrow> advances P S st (take_key st s)"
| Hold: "settled P st \<Longrightarrow> at \<in> set S \<Longrightarrow> links st at \<Longrightarrow> roster_ok P st at \<Longrightarrow> advances P S st (hold st at)"

abbreviation reaches :: "primitives \<Rightarrow> roster served list \<Rightarrow> state \<Rightarrow> state \<Rightarrow> bool" where
  "reaches P S \<equiv> (advances P S)\<^sup>*\<^sup>*"

section \<open>Notes make no difference\<close>

lemma apart_notes_sym: "apart_notes a b \<Longrightarrow> apart_notes b a"
  by (simp add: apart_notes_def)

lemma notes_last_held: "apart_notes st st' \<Longrightarrow> last_held st' = last_held st"
  by (simp add: apart_notes_def last_held_def)

lemma notes_links: "apart_notes st st' \<Longrightarrow> links st' at = links st at"
  by (simp add: links_def notes_last_held)

lemma roster_copies_notes: "mlDsaKeys st' = mlDsaKeys st \<Longrightarrow>
    roster_copies P st' r stmt authority key b cs = roster_copies P st r stmt authority key b cs"
  by (induction cs arbitrary: b) auto

lemma rosterRules_notes:
  assumes "apart_notes st st'"
  shows "rosterRules P st' r stmt cs previous = Inr () \<longleftrightarrow> rosterRules P st r stmt cs previous = Inr ()"
proof -
  from assms have eqs: "groupKeys st' = groupKeys st" "verified st' = verified st" "mlDsaKeys st' = mlDsaKeys st"
    "stAreas st' = stAreas st" by (simp_all add: apart_notes_def)
  have rs: "roster_signed P st' r stmt cs authority = roster_signed P st r stmt cs authority" for authority
    by (cases cs) (simp_all add: roster_signed_def Let_def eqs roster_copies_notes [OF eqs(3)])
  show ?thesis
    unfolding rosterRules_def Let_def eqs rs
    by (cases "length (groupKeys st) < groupKeyVersion r") (simp_all add: bindE_Inr)
qed

lemma notes_roster_ok: "apart_notes st st' \<Longrightarrow> roster_ok P st' at = roster_ok P st at"
  by (simp add: roster_ok_def rosterRules_notes notes_last_held)

lemma notes_take_key: "apart_notes a b \<Longrightarrow> apart_notes (take_key a s) (take_key b s)"
  by (simp add: apart_notes_def take_key_def)

lemma notes_hold: "apart_notes a b \<Longrightarrow> apart_notes (hold a at) (hold b at)"
  using notes_last_held [of a b] by (simp add: apart_notes_def hold_def)

lemma advances_notes:
  assumes "advances P S a b" "apart_notes a a'"
  shows "\<exists>b'. advances P S a' b' \<and> apart_notes b b'"
  using assms
proof (cases rule: advances.cases)
  case (Take s)
  with assms(2) show ?thesis
    by (metis advances.Take notes_choosable notes_take_key)
next
  case (Hold at)
  with assms(2) show ?thesis
    by (metis advances.Hold notes_settled notes_links notes_roster_ok notes_hold)
qed

lemma reaches_notes:
  assumes "reaches P S a b" "apart_notes a a'"
  shows "\<exists>b'. reaches P S a' b' \<and> apart_notes b b'"
  using assms
proof (induction rule: rtranclp_induct)
  case (step b c)
  then obtain b' where b': "reaches P S a' b'" "apart_notes b b'" by blast
  from advances_notes [OF step.hyps(2) b'(2)] b'(1) show ?case
    by (meson rtranclp.rtrancl_into_rtrancl)
qed auto

section \<open>The loop refines the machine\<close>

text \<open>What a run of the loop needs and keeps.\<close>

definition ready :: "primitives \<Rightarrow> state \<Rightarrow> bool" where
  "ready P st \<longleftrightarrow> memo_ok P st \<and> digests_apart st \<and> groupKeys st \<noteq> []"

lemma tied_to_hold: "tied_to st s = Some lh \<Longrightarrow> tied_to (hold st at) s = Some lh"
proof -
  have "find Q xs = Some lh \<Longrightarrow> find Q (xs @ ys) = Some lh" for Q and xs ys :: "held_roster list"
    by (induction xs) auto
  then show "tied_to st s = Some lh \<Longrightarrow> tied_to (hold st at) s = Some lh"
    by (simp add: tied_to_def hold_def)
qed

lemma ready_take: "ready P st \<Longrightarrow> ready P (take_key st s)"
proof -
  assume r: "ready P st"
  have "v \<le> length (groupKeys st) \<Longrightarrow> v - 1 < length (groupKeys st)" for v
    using r by (cases v) (auto simp: ready_def)
  then have "v \<le> length (groupKeys st) \<Longrightarrow> (groupKeys st @ [k]) ! (v - 1) = groupKeys st ! (v - 1)" for v k
    by (simp add: nth_append)
  with r show ?thesis
    unfolding ready_def memo_ok_def digests_apart_def
    by (simp add: take_key_def candidates_at_def tied_to_def) (meson le_SucI)
qed

lemma ready_hold: "ready P st \<Longrightarrow> ready P (hold st at)"
proof -
  assume r: "ready P st"
  have "memo_ok P (hold st at)" unfolding memo_ok_def
  proof (intro allI impI)
    fix v s verdict
    assume "s \<in> set (candidates_at (hold st at) v)"
      "map_of (signatures (hold st at)) (servedDigest s) = Some verdict"
    then have "s \<in> set (candidates_at st v)" "map_of (signatures st) (servedDigest s) = Some verdict"
      by (simp_all add: hold_def candidates_at_def)
    with r show "v \<le> length (groupKeys (hold st at)) \<and> (\<exists>lh. tied_to (hold st at) s = Some lh
       \<and> (verdict = Held \<longleftrightarrow> signed_for P (servedStatement s) (groupKeys (hold st at) ! (v - 1)) (heldRoster lh)
           (succSignerUserId (servedValue s)) (mlDsaKeys (hold st at)) (copies s)))"
      unfolding ready_def memo_ok_def using tied_to_hold [of st s _ at]
      by (fastforce simp: hold_def)
  qed
  with r show ?thesis by (simp add: ready_def hold_def digests_apart_def candidates_at_def)
qed

lemma ready_notes: "ready P st \<Longrightarrow> apart_notes st st' \<Longrightarrow> memo_ok P st' \<Longrightarrow> ready P st'"
  by (simp add: ready_def notes_apart) (simp add: apart_notes_def)

lemma establishAll_refines:
  "establishAll P st = Inr st' \<Longrightarrow> ready P st \<Longrightarrow>
     (\<exists>x. reaches P S st x \<and> apart_notes x st') \<and> ready P st' \<and> settled P st'
     \<and> held st' = held st"
proof (induction P st rule: establishAll.induct)
  case (1 P st)
  from "1.prems"(1) obtain took st2 where e: "establishNext P st = Inr (took, st2)"
    by (auto simp: establishAll.simps [of P st] split: sum.splits)
  from establishNext_sound [OF e] "1.prems"(2) obtain st1 where st1: "apart_notes st st1" "memo_ok P st1"
    "if took then \<exists>s. choosable P st s \<and> st2 = take_key st1 s else st2 = st1 \<and> settled P st"
    by (auto simp: ready_def)
  have r1: "ready P st1" by (rule ready_notes [OF "1.prems"(2) st1(1,2)])
  show ?case
  proof (cases took)
    case True
    with st1(3) obtain s where s: "choosable P st s" "st2 = take_key st1 s" by auto
    have "establishAll P st2 = Inr st'" using "1.prems"(1) e True by (simp add: establishAll.simps [of P st])
    from "1.IH" [OF e refl True this] ready_take [OF r1] s(2)
    have ih: "\<exists>x. reaches P S st2 x \<and> apart_notes x st'" "ready P st'" "settled P st'" "held st' = held st2" by auto
    from ih(1) obtain x where x: "reaches P S st2 x" "apart_notes x st'" by blast
    have "apart_notes st2 (take_key st s)" unfolding s(2)
      by (intro notes_take_key apart_notes_sym [OF st1(1)])
    from reaches_notes [OF x(1) this] obtain y where "reaches P S (take_key st s) y" "apart_notes x y" by blast
    with advances.Take [OF s(1)] x(2) have "reaches P S st y" "apart_notes y st'"
      by (meson converse_rtranclp_into_rtranclp) (meson \<open>apart_notes x y\<close> x(2) apart_notes_sym apart_notes_trans)
    with ih s(2) st1(1) show ?thesis by (auto simp: take_key_def apart_notes_def)
  next
    case False
    with "1.prems"(1) e st1(3) have "st' = st1" "settled P st" by (auto simp: establishAll.simps [of P st])
    with st1(1) r1 show ?thesis by (auto simp: notes_settled) (simp add: apart_notes_def)
  qed
qed

text \<open>The path continues what is held, roster by roster.\<close>

fun linked :: "nat \<Rightarrow> string option \<Rightarrow> roster served list \<Rightarrow> bool" where
  "linked version d [] = True"
| "linked version d (at # path) \<longleftrightarrow> rosterVersion (servedValue at) = Suc version
     \<and> (\<forall>x. d = Some x \<longrightarrow> previousRosterDigest (servedValue at) = x)
     \<and> linked (Suc version) (Some (servedDigest at)) path"

definition last_version :: "state \<Rightarrow> nat" where
  "last_version st = (case last_held st of None \<Rightarrow> 0 | Some h \<Rightarrow> rosterVersion (heldRoster h))"

lemma pass_refines:
  "pass P st path = Inr st' \<Longrightarrow> ready P st \<Longrightarrow> settled P st \<Longrightarrow> set path \<subseteq> set S \<Longrightarrow>
     linked (last_version st) (map_option heldDigest (last_held st)) path \<Longrightarrow>
     (\<exists>x. reaches P S st x \<and> apart_notes x st') \<and> settled P st'
     \<and> map heldDigest (held st') = map heldDigest (held st) @ map servedDigest path"
proof (induction path arbitrary: st)
  case Nil
  then show ?case by auto
next
  case (Cons at path)
  from Cons.prems(1) obtain st2 where ok: "roster_ok P st at"
    and e: "establishAll P (hold st at) = Inr st2" and p: "pass P st2 path = Inr st'"
    by (auto simp: bindE_Inr roster_ok_def refused_by_def split: sum.splits)
  from Cons.prems(5) have l: "links st at"
    by (auto simp: links_def last_version_def split: option.splits)
  have step: "advances P S st (hold st at)" using Cons.prems ok l by (intro advances.Hold) auto
  from establishAll_refines [OF e ready_hold [OF Cons.prems(2)]] obtain x where
    x: "reaches P S (hold st at) x" "apart_notes x st2" "ready P st2" "settled P st2" "held st2 = held (hold st at)" by blast
  have "last_held st2 = Some (last (held (hold st at)))" using x(5) by (simp add: last_held_def hold_def)
  then have "linked (last_version st2) (map_option heldDigest (last_held st2)) path"
    using Cons.prems(5) by (simp add: last_version_def hold_def)
  from Cons.IH [OF p x(3,4) _ this] Cons.prems(4) obtain y where
    y: "reaches P S st2 y" "apart_notes y st'" "settled P st'"
      "map heldDigest (held st') = map heldDigest (held st2) @ map servedDigest path" by auto
  from reaches_notes [OF y(1) apart_notes_sym [OF x(2)]] obtain z where z: "reaches P S x z" "apart_notes y z" by blast
  have "reaches P S st z" using step x(1) z(1) by (meson converse_rtranclp_into_rtranclp rtranclp_trans)
  moreover have "apart_notes z st'" using z(2) y(2) by (meson apart_notes_sym apart_notes_trans)
  moreover have "map heldDigest (held st2) = map heldDigest (held st) @ [servedDigest at]"
    using x(5) by (simp add: hold_def)
  ultimately show ?case using y(3,4) by auto
qed

lemma verify_refines:
  assumes "verify_chain P st path = Inr st'" and "ready P st" and "set path \<subseteq> set S"
    and "linked (last_version st) (map_option heldDigest (last_held st)) path"
  shows "(\<exists>x. reaches P S st x \<and> apart_notes x st') \<and> settled P st'
    \<and> map heldDigest (held st') = map heldDigest (held st) @ map servedDigest path"
proof -
  from assms(1) obtain st1 where e: "establishAll P st = Inr st1" and p: "pass P st1 path = Inr st'"
    by (auto simp: verify_chain_def bindE_Inr refused_by_def split: sum.splits)
  from establishAll_refines [OF e assms(2)] obtain x where
    x: "reaches P S st x" "apart_notes x st1" "ready P st1" "settled P st1" "held st1 = held st" by blast
  then have "last_held st1 = last_held st" by (simp add: last_held_def)
  then have "linked (last_version st1) (map_option heldDigest (last_held st1)) path"
    using assms(4) by (simp add: last_version_def)
  from pass_refines [OF p x(3,4) assms(3) this] obtain y where y: "reaches P S st1 y" "apart_notes y st'"
    "settled P st'" "map heldDigest (held st') = map heldDigest (held st) @ map servedDigest path"
    using x(5) by auto
  from reaches_notes [OF y(1) apart_notes_sym [OF x(2)]] obtain z where "reaches P S x z" "apart_notes y z" by blast
  with x(1) y show ?thesis by (meson apart_notes_sym apart_notes_trans rtranclp_trans)
qed

end
