(* ===== verification/Chain_Rules.thy ===== *)
theory Chain_Rules
  imports Chain
begin

text \<open>
  The invariants of the machine of \<open>Chain\<close>: the group keys and the proof of each, the order of rosters
  and ties, what each held roster was judged by, and the ledger of the areas.
\<close>

section \<open>What a held roster was judged by\<close>

lemma rosterRules_Inr:
  assumes "rosterRules P st r stmt (Some cs) previous = Inr ()"
  defines "authority \<equiv> (case previous of None \<Rightarrow> r | Some p \<Rightarrow> heldRoster p)"
  shows "groupKeyVersion r \<le> length (groupKeys st)"
    and "\<And>out. map_of (verified st) (groupKeyVersion r) = Some out \<Longrightarrow> rosterVersion r \<le> lastRosterVersionOf out"
    and "activeWith (rosterEntry authority (signerUserId r)) (Some Members)"
    and "\<exists>e. rosterEntry r (signerUserId r) = Some e \<and> status e = Active"
    and "\<exists>entry \<in> set (members r). activeWith (Some entry) (Some Members)"
    and "signed_for P stmt (groupKeys st ! (groupKeyVersion r - 1)) authority (signerUserId r) (mlDsaKeys st) cs"
    and "\<And>p. previous = Some p \<Longrightarrow> kind r = kind (heldRoster p) \<and> checkEntries (heldRoster p) r = Inr ()
      \<and> (droppedHolder p \<longrightarrow> (\<exists>out. map_of (verified st) (groupKeyVersion (heldRoster p)) = Some out
           \<and> lastRosterVersionOf out = rosterVersion (heldRoster p)))"
    and "checkAreas (stAreas st) (map_option heldRoster previous) r = Inr ()"
proof -
  from assms(1) have v: "groupKeyVersion r \<le> length (groupKeys st)"
    by (auto simp: rosterRules_def Let_def bindE_Inr split: if_splits)
  have R: "refused_by m = Inr u \<longleftrightarrow> m = Inr u" for m :: "crypto_error + unit" and u
    by (cases m) (simp_all add: refused_by_def)
  have U: "(\<exists>u. Q u) \<longleftrightarrow> Q ()" for Q :: "unit \<Rightarrow> bool" by auto
  from assms(1) v have rules: "\<not> (case previous of None \<Rightarrow> False | Some p \<Rightarrow> kind r \<noteq> kind (heldRoster p))"
    "\<not> (case map_of (verified st) (groupKeyVersion r) of None \<Rightarrow> False
            | Some out \<Rightarrow> rosterVersion r > lastRosterVersionOf out)"
    "activeWith (rosterEntry authority (signerUserId r)) (Some Members)"
    "\<not> (case rosterEntry r (signerUserId r) of None \<Rightarrow> True | Some e \<Rightarrow> status e \<noteq> Active)"
    "list_ex (\<lambda>entry. activeWith (Some entry) (Some Members)) (members r)"
    "roster_signed P st r stmt (Some cs) authority = Inr ()"
    "\<not> (case previous of None \<Rightarrow> False
            | Some p \<Rightarrow> droppedHolder p \<and> (case map_of (verified st) (groupKeyVersion (heldRoster p)) of
                None \<Rightarrow> True
              | Some out \<Rightarrow> lastRosterVersionOf out \<noteq> rosterVersion (heldRoster p)))"
    "(case previous of None \<Rightarrow> Inr () | Some p \<Rightarrow> checkEntries (heldRoster p) r) = Inr ()"
    "checkAreas (stAreas st) (map_option heldRoster previous) r = Inr ()"
    unfolding authority_def rosterRules_def Let_def
    by (simp_all only: if_not_P not_less bindE_Inr R refuse_if_Inr not_not U simp_thms)
  show "groupKeyVersion r \<le> length (groupKeys st)" by (rule v)
  show "\<And>out. map_of (verified st) (groupKeyVersion r) = Some out \<Longrightarrow> rosterVersion r \<le> lastRosterVersionOf out"
    using rules(2) by auto
  show "activeWith (rosterEntry authority (signerUserId r)) (Some Members)" by (rule rules(3))
  show "\<exists>e. rosterEntry r (signerUserId r) = Some e \<and> status e = Active"
    using rules(4) by (auto split: option.splits)
  show "\<exists>entry \<in> set (members r). activeWith (Some entry) (Some Members)"
    using rules(5) by (simp add: list_ex_iff)
  show "signed_for P stmt (groupKeys st ! (groupKeyVersion r - 1)) authority (signerUserId r) (mlDsaKeys st) cs"
    by (rule roster_signed_Some [OF rules(6)])
  show "\<And>p. previous = Some p \<Longrightarrow> kind r = kind (heldRoster p) \<and> checkEntries (heldRoster p) r = Inr ()
      \<and> (droppedHolder p \<longrightarrow> (\<exists>out. map_of (verified st) (groupKeyVersion (heldRoster p)) = Some out
           \<and> lastRosterVersionOf out = rosterVersion (heldRoster p)))"
    using rules(1,7,8) by (auto split: option.splits)
  show "checkAreas (stAreas st) (map_option heldRoster previous) r = Inr ()" by (rule rules(9))
qed

section \<open>Invariants of the machine\<close>

text \<open>What never changes along a run, and what only grows.\<close>

definition grown :: "state \<Rightarrow> state \<Rightarrow> bool" where
  "grown st0 st \<longleftrightarrow> stGroupId st = stGroupId st0 \<and> mlDsaKeys st = mlDsaKeys st0
     \<and> candidates st = candidates st0 \<and> keyMarks st = keyMarks st0
     \<and> (\<exists>hs. held st = held st0 @ hs) \<and> (\<exists>ks. groupKeys st = groupKeys st0 @ ks)"

lemma grown_step: "advances P S st st' \<Longrightarrow> grown st0 st \<Longrightarrow> grown st0 st'"
  by (cases rule: advances.cases) (auto simp: grown_def take_key_def hold_def)

lemma take_key_simps [simp]:
  "groupKeys (take_key st s) = groupKeys st @ [new_key_of (servedValue s)]" "held (take_key st s) = held st"
  "mlDsaKeys (take_key st s) = mlDsaKeys st" "stGroupId (take_key st s) = stGroupId st"
  "stAreas (take_key st s) = stAreas st" "candidates_at (take_key st s) v = candidates_at st v"
  by (simp_all add: take_key_def candidates_at_def)

lemma hold_simps [simp]:
  "groupKeys (hold st at) = groupKeys st" "verified (hold st at) = verified st"
  "mlDsaKeys (hold st at) = mlDsaKeys st" "stGroupId (hold st at) = stGroupId st"
  "keyMarks (hold st at) = keyMarks st" "candidates_at (hold st at) v = candidates_at st v"
  by (simp_all add: hold_def candidates_at_def)

text \<open>Each version's roster follows the one before; every succession is tied to the roster that was the
  last when it was taken, and the next one can only be tied to the last or a later one.\<close>

definition consecutive :: "held_roster list \<Rightarrow> bool" where
  "consecutive hs \<longleftrightarrow> (\<forall>i. Suc i < length hs \<longrightarrow>
     rosterVersion (heldRoster (hs ! Suc i)) = Suc (rosterVersion (heldRoster (hs ! i)))
     \<and> previousRosterDigest (heldRoster (hs ! Suc i)) = heldDigest (hs ! i))"

definition ties_in_order :: "primitives \<Rightarrow> state \<Rightarrow> bool" where
  "ties_in_order P st \<longleftrightarrow>
     groupKeys st \<noteq> [] \<and> map fst (verified st) = [1..<length (groupKeys st)] \<and> sorted (ties_of st)
     \<and> (\<forall>tie \<in> set (ties_of st). tie \<le> last_version st) \<and> consecutive (held st)
     \<and> (\<forall>s. choosable P st s \<longrightarrow> last_version st \<le> lastRosterVersion (servedValue s))"

lemma last_held_snoc [simp]: "last_held (hold st at) = Some (last (held (hold st at)))"
  by (simp add: last_held_def hold_def)

lemma last_version_hold [simp]: "last_version (hold st at) = rosterVersion (servedValue at)"
  by (simp add: last_version_def) (simp add: hold_def)

lemma last_held_take [simp]: "last_held (take_key st s) = last_held st"
  by (simp add: last_held_def)

lemma last_version_take [simp]: "last_version (take_key st s) = last_version st"
  by (simp add: last_version_def last_held_def take_key_def)

lemma links_version: "links st at \<Longrightarrow> rosterVersion (servedValue at) = Suc (last_version st)"
  by (auto simp: links_def last_version_def split: option.splits)

lemma consecutive_snoc:
  "consecutive (hs @ [h]) \<longleftrightarrow> consecutive hs \<and> (hs \<noteq> [] \<longrightarrow>
     rosterVersion (heldRoster h) = Suc (rosterVersion (heldRoster (last hs)))
     \<and> previousRosterDigest (heldRoster h) = heldDigest (last hs))"
proof -
  have "Suc i < length (hs @ [h]) \<longleftrightarrow> Suc i < length hs \<or> (hs \<noteq> [] \<and> i = length hs - 1)" for i
    by (cases hs) auto
  then show ?thesis
    unfolding consecutive_def
    by (cases hs rule: rev_cases) (auto simp: nth_append less_Suc_eq)
qed

lemma consecutive_le_last: "consecutive hs \<Longrightarrow> h \<in> set hs \<Longrightarrow> rosterVersion (heldRoster h) \<le> rosterVersion (heldRoster (last hs))"
  by (induction hs rule: rev_induct) (auto simp: consecutive_snoc split: if_splits)

lemma held_le_last: "consecutive (held st) \<Longrightarrow> h \<in> set (held st) \<Longrightarrow> rosterVersion (heldRoster h) \<le> last_version st"
  using consecutive_le_last [of "held st" h] by (auto simp: last_version_def last_held_def)

lemma tied_to_version:
  "tied_to st s = Some lh \<Longrightarrow> lh \<in> set (held st) \<and> rosterVersion (heldRoster lh) = lastRosterVersion (servedValue s)"
  by (auto simp: tied_to_def find_Some_iff)

lemma verified_snoc: "map fst (verified st) = [1..<length (groupKeys st)] \<Longrightarrow>
    verified (take_key st s) = verified st @ [(length (groupKeys st),
      \<lparr> lastRosterVersionOf = lastRosterVersion (servedValue s), verifiedDigest = servedDigest s,
        verifiedSigner = succSignerUserId (servedValue s) \<rparr>)]"
proof -
  assume "map fst (verified st) = [1..<length (groupKeys st)]"
  then have "length (groupKeys st) \<notin> fst ` set (verified st)"
    by (metis atLeastLessThan_iff less_irrefl list.set_map set_upt)
  then show ?thesis by (simp add: take_key_def update_absent)
qed

lemma take_is_last:
  assumes "ties_in_order P st" "choosable P st s"
  shows "lastRosterVersion (servedValue s) = last_version st"
proof -
  from assms(2) obtain lh where "tied_to st s = Some lh"
    by (auto simp: choosable_def admissible_def Let_def)
  from tied_to_version [OF this] held_le_last [of st lh] assms
  show ?thesis by (auto simp: ties_in_order_def intro: order_antisym)
qed

lemma choosable_candidate:
  assumes "choosable P st s"
  obtains lh where "s \<in> set (candidates_at st (length (groupKeys st)))" "tied_to st s = Some lh"
    "heldDigest lh = lastRosterDigest (servedValue s)" "succGroupId (servedValue s) = stGroupId st"
    "old_key_of (servedValue s) = groupKeys st ! (length (groupKeys st) - 1)"
    "new_key_of (servedValue s) \<notin> set (groupKeys st)"
    "\<And>into. map_of (verified st) (length (groupKeys st) - 1) = Some into \<Longrightarrow>
       lastRosterVersionOf into \<le> lastRosterVersion (servedValue s)"
    "activeWith (rosterEntry (heldRoster lh) (succSignerUserId (servedValue s))) (Some Members)"
    "signed_for P (servedStatement s) (groupKeys st ! (length (groupKeys st) - 1)) (heldRoster lh)
       (succSignerUserId (servedValue s)) (mlDsaKeys st) (copies s)"
proof -
  have same: "sameGroupKey a b \<longleftrightarrow> a = b" for a b :: group_public_key
    by (cases a; cases b) (simp add: sameGroupKey_def)
  from assms obtain lh where "s \<in> set (candidates_at st (length (groupKeys st)))" "tied_to st s = Some lh"
    "heldDigest lh = lastRosterDigest (servedValue s)" "succGroupId (servedValue s) = stGroupId st"
    "groupKeys st ! (length (groupKeys st) - 1) = old_key_of (servedValue s)"
    "new_key_of (servedValue s) \<notin> set (groupKeys st)"
    "\<forall>into. map_of (verified st) (length (groupKeys st) - 1) = Some into \<longrightarrow>
       lastRosterVersionOf into \<le> lastRosterVersion (servedValue s)"
    "activeWith (rosterEntry (heldRoster lh) (succSignerUserId (servedValue s))) (Some Members)"
    "signed_for P (servedStatement s) (groupKeys st ! (length (groupKeys st) - 1)) (heldRoster lh)
       (succSignerUserId (servedValue s)) (mlDsaKeys st) (copies s)"
    unfolding choosable_def admissible_def Let_def same list_ex_iff by blast
  with that show thesis by metis
qed

lemma hold_choosable:
  assumes "settled P st" "choosable P (hold st at) s"
  shows "lastRosterVersion (servedValue s) = last_version (hold st at)"
proof -
  obtain lh where lh: "tied_to (hold st at) s = Some lh" by (rule choosable_candidate [OF assms(2)])
  have "tied_to st s = None"
  proof (rule ccontr)
    assume "tied_to st s \<noteq> None"
    then obtain x where x: "tied_to st s = Some x" by blast
    with tied_to_hold [OF x] lh have "x = lh" by simp
    with x lh assms(2) have "choosable P st s"
      unfolding choosable_def admissible_def Let_def by simp
    with assms(1) show False by (simp add: settled_def)
  qed
  with lh have "lh = last (held (hold st at))"
    by (auto simp: tied_to_def hold_def find_None_iff find_Some_iff nth_append split: if_splits)
  with tied_to_version [OF lh] show ?thesis by (simp add: last_version_def)
qed

lemma ties_step:
  assumes step: "advances P S st st'" and inv: "ties_in_order P st"
  shows "ties_in_order P st'"
  using step
proof (cases rule: advances.cases)
  case (Take s)
  note ver = verified_snoc [of st s]
  from inv have v: "map fst (verified st) = [1..<length (groupKeys st)]" "groupKeys st \<noteq> []"
    "sorted (ties_of st)" "\<forall>tie \<in> set (ties_of st). tie \<le> last_version st" "consecutive (held st)"
    by (simp_all add: ties_in_order_def)
  have ties: "ties_of (take_key st s) = ties_of st @ [last_version st]"
    using ver [OF v(1)] take_is_last [OF inv Take(2)] by (simp add: ties_of_def)
  have len: "length (groupKeys (take_key st s)) = Suc (length (groupKeys st))" by (simp add: take_key_def)
  have "last_version st \<le> lastRosterVersion (servedValue t)" if "choosable P (take_key st s) t" for t
  proof (rule choosable_candidate [OF that])
    fix lh assume into: "\<And>into. map_of (verified (take_key st s)) (length (groupKeys (take_key st s)) - 1) = Some into
      \<Longrightarrow> lastRosterVersionOf into \<le> lastRosterVersion (servedValue t)"
    have "map_of (verified (take_key st s)) (length (groupKeys st)) = Some \<lparr> lastRosterVersionOf = lastRosterVersion (servedValue s),
        verifiedDigest = servedDigest s, verifiedSigner = succSignerUserId (servedValue s) \<rparr>"
      by (simp add: take_key_def map_of_alist_update)
    with into len take_is_last [OF inv Take(2)] show ?thesis by fastforce
  qed
  then show ?thesis
    unfolding Take(1) ties_in_order_def using v ties ver [OF v(1)] len
    by (auto simp: sorted_append Suc_le_eq)
next
  case (Hold at)
  from inv have v: "\<forall>tie \<in> set (ties_of st). tie \<le> last_version st" "consecutive (held st)"
    by (simp_all add: ties_in_order_def)
  have ver: "rosterVersion (servedValue at) = Suc (last_version st)" by (rule links_version [OF Hold(4)])
  have "consecutive (held (hold st at))"
    using Hold(4) v(2) by (auto simp: hold_def consecutive_snoc links_def last_held_def split: option.splits if_splits)
  moreover have "ties_of (hold st at) = ties_of st" by (simp add: ties_of_def hold_def)
  ultimately show ?thesis
    unfolding Hold(1) ties_in_order_def using inv ver v hold_choosable [OF Hold(2)]
    by (auto simp: ties_in_order_def le_SucI)
qed

text \<open>A key that a run took: its succession's proof.\<close>

definition key_proof :: "primitives \<Rightarrow> state \<Rightarrow> nat \<Rightarrow> bool" where
  "key_proof P st v \<longleftrightarrow> (\<exists>s lh. s \<in> set (candidates_at st v) \<and> lh \<in> set (held st)
     \<and> succGroupId (servedValue s) = stGroupId st
     \<and> old_key_of (servedValue s) = groupKeys st ! (v - 1) \<and> new_key_of (servedValue s) = groupKeys st ! v
     \<and> map_of (verified st) v = Some \<lparr> lastRosterVersionOf = lastRosterVersion (servedValue s),
         verifiedDigest = servedDigest s, verifiedSigner = succSignerUserId (servedValue s) \<rparr>
     \<and> rosterVersion (heldRoster lh) = lastRosterVersion (servedValue s)
     \<and> heldDigest lh = lastRosterDigest (servedValue s)
     \<and> activeWith (rosterEntry (heldRoster lh) (succSignerUserId (servedValue s))) (Some Members)
     \<and> signed_for P (servedStatement s) (groupKeys st ! (v - 1)) (heldRoster lh)
         (succSignerUserId (servedValue s)) (mlDsaKeys st) (copies s))"

definition keys_proved :: "primitives \<Rightarrow> nat \<Rightarrow> state \<Rightarrow> bool" where
  "keys_proved P k0 st \<longleftrightarrow> k0 \<noteq> 0 \<and> k0 \<le> length (groupKeys st)
     \<and> (\<forall>v. k0 \<le> v \<longrightarrow> v < length (groupKeys st) \<longrightarrow> groupKeys st ! v \<notin> set (take v (groupKeys st)) \<and> key_proof P st v)"

lemma key_proof_take: "key_proof P st v \<Longrightarrow> v < length (groupKeys st) \<Longrightarrow> key_proof P (take_key st t) v"
  unfolding key_proof_def by (fastforce simp: take_key_def candidates_at_def nth_append map_of_alist_update)

lemma key_proof_hold: "key_proof P st v \<Longrightarrow> key_proof P (hold st at) v"
  unfolding key_proof_def by (fastforce simp: hold_def candidates_at_def)

lemma keys_step:
  assumes step: "advances P S st st'" and inv: "keys_proved P k0 st"
  shows "keys_proved P k0 st'"
  using step
proof (cases rule: advances.cases)
  case (Take s)
  let ?n = "length (groupKeys st)"
  have new: "groupKeys (take_key st s) ! ?n = new_key_of (servedValue s)"
    "take ?n (groupKeys (take_key st s)) = groupKeys st" by (simp_all add: take_key_def)
  have n: "?n \<noteq> 0" using inv by (auto simp: keys_proved_def)
  then have old: "groupKeys (take_key st s) ! (?n - 1) = groupKeys st ! (?n - 1)"
    by (simp add: take_key_def nth_append)
  have "new_key_of (servedValue s) \<notin> set (groupKeys st) \<and> key_proof P (take_key st s) ?n"
  proof (rule choosable_candidate [OF Take(2)])
    fix lh
    assume c: "s \<in> set (candidates_at st ?n)" "tied_to st s = Some lh"
      "heldDigest lh = lastRosterDigest (servedValue s)" "succGroupId (servedValue s) = stGroupId st"
      "old_key_of (servedValue s) = groupKeys st ! (?n - 1)" "new_key_of (servedValue s) \<notin> set (groupKeys st)"
      "activeWith (rosterEntry (heldRoster lh) (succSignerUserId (servedValue s))) (Some Members)"
      "signed_for P (servedStatement s) (groupKeys st ! (?n - 1)) (heldRoster lh)
         (succSignerUserId (servedValue s)) (mlDsaKeys st) (copies s)"
    have "key_proof P (take_key st s) ?n"
      unfolding key_proof_def old new
      by (rule exI [of _ s], rule exI [of _ lh])
        (use c tied_to_version [OF c(2)] in \<open>simp add: take_key_def candidates_at_def map_of_alist_update\<close>)
    with c(6) show ?thesis by blast
  qed
  with inv new key_proof_take [of P st _ s] show ?thesis
    unfolding Take(1) keys_proved_def
    by (auto simp: less_Suc_eq take_key_def nth_append)
next
  case (Hold at)
  with inv show ?thesis unfolding Hold(1) keys_proved_def
    using key_proof_hold [of P st _ at] by (simp add: hold_def)
qed

text \<open>A roster that a run held: who signed it, under which key, and that it follows.\<close>

definition authority_of :: "state \<Rightarrow> nat \<Rightarrow> roster" where
  "authority_of st i = heldRoster (held st ! (i - 1))"

definition judged :: "primitives \<Rightarrow> roster served list \<Rightarrow> state \<Rightarrow> nat \<Rightarrow> bool" where
  "judged P S st i \<longleftrightarrow> (let h = held st ! i; r = heldRoster h; authority = authority_of st i in
     (\<exists>at \<in> set S. r = servedValue at \<and> heldStatement h = servedStatement at \<and> heldDigest h = servedDigest at
       \<and> signed_for P (heldStatement h) (groupKeys st ! (groupKeyVersion r - 1)) authority (signerUserId r)
           (mlDsaKeys st) (copies at))
     \<and> groupKeyVersion r = keyVersionAt (ties_of st) (rosterVersion r)
     \<and> groupKeyVersion r \<le> length (groupKeys st)
     \<and> activeWith (rosterEntry authority (signerUserId r)) (Some Members)
     \<and> (\<exists>e. rosterEntry r (signerUserId r) = Some e \<and> status e = Active)
     \<and> (\<exists>entry \<in> set (members r). activeWith (Some entry) (Some Members))
     \<and> (0 < i \<longrightarrow> kind r = kind authority \<and> checkEntries authority r = Inr ()
         \<and> (droppedHolder (held st ! (i - 1)) \<longrightarrow> rosterVersion authority \<in> set (ties_of st))
         \<and> droppedHolder h = dropsHolder authority r))"

definition rosters_judged :: "primitives \<Rightarrow> roster served list \<Rightarrow> nat \<Rightarrow> state \<Rightarrow> bool" where
  "rosters_judged P S h0 st \<longleftrightarrow> ties_in_order P st \<and> (\<forall>i. h0 \<le> i \<longrightarrow> i < length (held st) \<longrightarrow> judged P S st i)"

lemma keyVersionAt_snoc: "keyVersionAt (ties @ [t]) n = keyVersionAt ties n + (if t < n then 1 else 0)"
  by (simp add: keyVersionAt_def)

lemma ties_take: "ties_in_order P st \<Longrightarrow> choosable P st s \<Longrightarrow> ties_of (take_key st s) = ties_of st @ [last_version st]"
  using verified_snoc [of st s] take_is_last [of P st s] by (simp add: ties_of_def ties_in_order_def)

lemma ties_hold [simp]: "ties_of (hold st at) = ties_of st"
  by (simp add: ties_of_def)

lemma judged_take:
  assumes inv: "ties_in_order P st" and s: "choosable P st s" and i: "i < length (held st)" and j: "judged P S st i"
  shows "judged P S (take_key st s) i"
proof -
  let ?r = "heldRoster (held st ! i)"
  have "rosterVersion ?r \<le> last_version st"
    using inv i held_le_last [of st "held st ! i"] by (auto simp: ties_in_order_def)
  then have kv: "keyVersionAt (ties_of (take_key st s)) (rosterVersion ?r) = keyVersionAt (ties_of st) (rosterVersion ?r)"
    by (simp add: ties_take [OF inv s] keyVersionAt_snoc)
  have le: "groupKeyVersion ?r \<le> length (groupKeys st)" "groupKeys st \<noteq> []"
    using j inv by (simp_all add: judged_def Let_def ties_in_order_def)
  then have key: "groupKeys (take_key st s) ! (groupKeyVersion ?r - 1) = groupKeys st ! (groupKeyVersion ?r - 1)"
    by (cases "groupKeyVersion ?r") (simp_all add: nth_append)
  have a: "authority_of (take_key st s) i = authority_of st i" by (simp add: authority_of_def)
  show ?thesis
    using j le unfolding judged_def Let_def a take_key_simps ties_take [OF inv s]
      kv [unfolded ties_take [OF inv s]] key [unfolded take_key_simps]
    by auto
qed

lemma judged_hold: "i < length (held st) \<Longrightarrow> judged P S st i \<Longrightarrow> judged P S (hold st at) i"
proof -
  assume i: "i < length (held st)"
  then have h: "held (hold st at) ! i = held st ! i" "held (hold st at) ! (i - 1) = held st ! (i - 1)"
    by (simp_all add: hold_def nth_append)
  show "judged P S st i \<Longrightarrow> judged P S (hold st at) i"
    unfolding judged_def Let_def authority_of_def h hold_simps ties_hold by assumption
qed

lemma keyVersionAt_all: "\<forall>tie \<in> set ties. tie < n \<Longrightarrow> keyVersionAt ties n = Suc (length ties)"
  by (simp add: keyVersionAt_def)

lemma judged_new:
  assumes inv: "ties_in_order P st" and l: "links st at" and ok: "roster_ok P st at" and at: "at \<in> set S"
    and kv: "1 \<le> groupKeyVersion (servedValue at)"
  shows "judged P S (hold st at) (length (held st))"
proof -
  let ?r = "servedValue at" and ?i = "length (held st)"
  define authority where "authority = (case last_held st of None \<Rightarrow> ?r | Some p \<Rightarrow> heldRoster p)"
  note R = rosterRules_Inr [OF ok [unfolded roster_ok_def], folded authority_def]
  have new: "held (hold st at) ! ?i = \<lparr> heldRoster = ?r, heldStatement = servedStatement at,
      heldDigest = servedDigest at, droppedHolder = (case last_held st of None \<Rightarrow> False
         | Some previous \<Rightarrow> dropsHolder (heldRoster previous) ?r) \<rparr>"
    by (simp add: hold_def)
  have au: "authority_of (hold st at) ?i = authority"
    by (cases "held st" rule: rev_cases)
      (simp_all add: authority_of_def authority_def last_held_def hold_def nth_append)
  have prev: "0 < ?i \<Longrightarrow> last_held st = Some (held st ! (?i - 1)) \<and> held (hold st at) ! (?i - 1) = held st ! (?i - 1)"
    by (cases "held st" rule: rev_cases) (simp_all add: last_held_def hold_def nth_append)
  have behind: "\<forall>tie \<in> set (ties_of st). tie < rosterVersion ?r"
    using inv links_version [OF l] by (auto simp: ties_in_order_def less_Suc_eq_le)
  have vs: "map fst (verified st) = [1..<length (groupKeys st)]" using inv by (simp add: ties_in_order_def)
  have latest: "groupKeyVersion ?r = length (groupKeys st)"
  proof (rule ccontr)
    assume "groupKeyVersion ?r \<noteq> length (groupKeys st)"
    with R(1) kv have "groupKeyVersion ?r \<in> set (map fst (verified st))" unfolding vs by simp
    then obtain out where out: "map_of (verified st) (groupKeyVersion ?r) = Some out"
      by (metis (no_types, lifting) domD dom_map_of_conv_image_fst list.set_map)
    then have "lastRosterVersionOf out \<in> set (ties_of st)"
      by (force simp: ties_of_def dest: map_of_SomeD)
    with R(2) [OF out] behind show False by auto
  qed
  have "length (ties_of st) = length (groupKeys st) - 1"
    using arg_cong [OF vs, of length] by (simp add: ties_of_def)
  with latest kv have "groupKeyVersion ?r = keyVersionAt (ties_of st) (rosterVersion ?r)"
    by (simp add: keyVersionAt_all [OF behind])
  moreover have "droppedHolder p \<longrightarrow> rosterVersion (heldRoster p) \<in> set (ties_of st)" if "last_held st = Some p" for p
    using R(7) [OF that] by (force simp: ties_of_def dest: map_of_SomeD)
  ultimately show ?thesis
    using at R prev unfolding judged_def Let_def au new by (auto simp: authority_def)
qed

definition parsed :: "roster served list \<Rightarrow> bool" where
  "parsed S \<longleftrightarrow> (\<forall>at \<in> set S. parseRoster (servedStatement at) = Inr (servedValue at))"

lemma parsed_wf: "parsed S \<Longrightarrow> at \<in> set S \<Longrightarrow> roster_wf (servedValue at)"
  by (auto simp: parsed_def roster.reads_iff_writes rosterStatement_wf)

lemma rosters_step:
  assumes step: "advances P S st st'" and S: "parsed S" and inv: "rosters_judged P S h0 st"
  shows "rosters_judged P S h0 st'"
proof -
  have t: "ties_in_order P st" and j: "\<And>i. h0 \<le> i \<Longrightarrow> i < length (held st) \<Longrightarrow> judged P S st i"
    using inv by (simp_all add: rosters_judged_def)
  have t': "ties_in_order P st'" by (rule ties_step [OF step t])
  from step have "h0 \<le> i \<Longrightarrow> i < length (held st') \<Longrightarrow> judged P S st' i" for i
  proof (cases rule: advances.cases)
    case (Take s)
    then show "h0 \<le> i \<Longrightarrow> i < length (held st') \<Longrightarrow> judged P S st' i"
      using judged_take [OF t Take(2)] j by simp
  next
    case (Hold at)
    have "1 \<le> groupKeyVersion (servedValue at)"
      using parsed_wf [OF S Hold(3)] by (simp add: roster_wf_def is_version_def)
    note new = judged_new [OF t Hold(4,5,3) this]
    have "length (held st') = Suc (length (held st))" unfolding Hold(1) by (simp add: hold_def)
    then show "h0 \<le> i \<Longrightarrow> i < length (held st') \<Longrightarrow> judged P S st' i"
      using new j judged_hold [of i st P S at] unfolding Hold(1) by (auto simp: less_Suc_eq)
  qed
  with t' show ?thesis by (simp add: rosters_judged_def)
qed

text \<open>The ledger of the areas, folded from the rosters held.\<close>

definition areas_run :: "state \<Rightarrow> state \<Rightarrow> bool" where
  "areas_run st0 st \<longleftrightarrow> (\<exists>hs. held st = held st0 @ hs
     \<and> ledger.runs (stAreas st0, map_option heldRoster (last_held st0)) (map heldRoster hs)
          (stAreas st, map_option heldRoster (last_held st)))"

lemma areas_step:
  assumes step: "advances P S st st'" and S: "parsed S" and inv: "areas_run st0 st"
  shows "areas_run st0 st'"
  using step
proof (cases rule: advances.cases)
  case (Take s)
  with inv show ?thesis by (simp add: areas_run_def)
next
  case (Hold at)
  from inv obtain hs where hs: "held st = held st0 @ hs"
    "ledger.runs (stAreas st0, map_option heldRoster (last_held st0)) (map heldRoster hs)
      (stAreas st, map_option heldRoster (last_held st))" by (auto simp: areas_run_def)
  have "strictly (map workspaceId (areas (servedValue at)))"
    using parsed_wf [OF S Hold(3)] by (simp add: roster_wf_def)
  then have "ledger_check (stAreas st, map_option heldRoster (last_held st)) (servedValue at) = Inr ()"
    using rosterRules_Inr(8) [OF Hold(5) [unfolded roster_ok_def]] by (simp add: ledger_check_Inr)
  note ledger.runs_snoc [OF hs(2) this]
  then show ?thesis unfolding Hold(1) areas_run_def
    using hs(1) by (intro exI [of _ "hs @ [last (held (hold st at))]"]) (simp add: hold_def ledger_add_def last_held_def)
qed

section \<open>Invariants of a whole run\<close>

interpretation growth: machine "advances P S" "grown st0" for P S st0
  by unfold_locales (rule grown_step)

interpretation order: machine "advances P S" "ties_in_order P" for P S
  by unfold_locales (rule ties_step)

interpretation key_chain: machine "advances P S" "keys_proved P k0" for P S k0
  by unfold_locales (rule keys_step)

interpretation roster_chain: machine "advances P S" "\<lambda>st. parsed S \<and> rosters_judged P S h0 st" for P S h0
  by unfold_locales (auto intro: rosters_step)

interpretation area_chain: machine "advances P S" "\<lambda>st. parsed S \<and> areas_run st0 st" for P S st0
  by unfold_locales (auto intro: areas_step)

end
