(* ===== verification/Accepted_Chain.thy ===== *)
theory Accepted_Chain
  imports Chain_Rules
begin

text \<open>
  From an acceptance that returned to the machine of \<open>Chain\<close>: the served statements by digest, the
  path linked from the head down, the state the pass starts from, and so the rules every accepted
  chain keeps.
\<close>

section \<open>An acceptance that returned\<close>

definition starting :: "accept_input \<Rightarrow> accept_given \<Rightarrow> own_marks \<Rightarrow> roster served list
    \<Rightarrow> group_key_succession served list \<Rightarrow> state" where
  "starting input given m rosters successions =
     start_state (gvGroupId given) (inMlDsaKeys input) (gvCached given)
       (extends_cache (gvCached given) rosters) (inFirstKeys input) (keyMarkSides m) successions"

definition continued_of :: "accept_given \<Rightarrow> roster served list \<Rightarrow> cached option" where
  "continued_of given rosters = (if extends_cache (gvCached given) rosters then gvCached given else None)"

definition accepts :: "primitives \<Rightarrow> accept_input \<Rightarrow> accept_given \<Rightarrow> own_marks \<Rightarrow> roster served list
    \<Rightarrow> group_key_succession served list \<Rightarrow> roster served list \<Rightarrow> state \<Rightarrow> bool" where
  "accepts P input given m rosters successions path st \<longleftrightarrow>
     check_given P input = Inr given \<and> own_marks_of P given = Inr m \<and> marks_agree m = Inr ()
     \<and> read_served P input given m = Inr (rosters, successions)
     \<and> chain_path (gvCached given) rosters = Inr path
     \<and> verify_chain P (starting input given m rosters successions) path = Inr st
     \<and> marks_met P input given m (head_of (gvCached given) rosters)
         (chain_digest (gvCached given) (bottom_of (gvCached given) rosters) path) st = Inr ()"

lemma refused_by_Inr [returns, simp]: "refused_by m = Inr x \<longleftrightarrow> m = Inr x"
  by (cases m) (simp_all add: refused_by_def)

lemma accept_Inr:
  "accept P input = Inr (body, st) \<longleftrightarrow> (\<exists>given m rosters successions path.
     accepts P input given m rosters successions path st
     \<and> finish P input given (continued_of given rosters) rosters path st = Inr body)"
proof -
  have U: "(\<exists>u. Q u) \<longleftrightarrow> Q ()" for Q :: "unit \<Rightarrow> bool" by auto
  show ?thesis
    unfolding accept_def accepts_def starting_def continued_of_def Let_def bindE_Inr U refused_by_Inr
    by (auto simp: bindE_Inr U split: prod.splits)
qed

section \<open>Served statements\<close>

definition served_one :: "primitives \<Rightarrow> (bytes \<Rightarrow> crypto_error + 'a) \<Rightarrow> signed_statement list \<Rightarrow> 'a served \<Rightarrow> bool" where
  "served_one P parse given s \<longleftrightarrow>
     parse (servedStatement s) = Inr (servedValue s) \<and> servedDigest s = digest P (servedStatement s)
     \<and> (\<forall>c \<in> set (copies s). c \<in> set given \<and> digest P (statement c) = servedDigest s)"

definition served_ok :: "primitives \<Rightarrow> (bytes \<Rightarrow> crypto_error + 'a) \<Rightarrow> signed_statement list \<Rightarrow> 'a served list \<Rightarrow> bool" where
  "served_ok P parse given out \<longleftrightarrow> distinct (map servedDigest out) \<and> (\<forall>s \<in> set out. served_one P parse given s)"

lemma add_copy_digests: "servedDigest ` set (add_copy out value key copy) = insert key (servedDigest ` set out)"
  by (induction out) auto

lemma add_copy_one:
  "s \<in> set (add_copy out value (digest P (statement copy)) copy) \<Longrightarrow> parse (statement copy) = Inr value \<Longrightarrow>
     copy \<in> set given \<Longrightarrow> (\<forall>s \<in> set out. served_one P parse given s) \<Longrightarrow> served_one P parse given s"
proof (induction out)
  case Nil
  then show ?case by (simp add: served_one_def)
next
  case (Cons h out)
  show ?case
  proof (cases "servedDigest h = digest P (statement copy)")
    case True
    have h: "served_one P parse given h" using Cons.prems(4) by simp
    with True Cons.prems(3) have "served_one P parse given (h\<lparr> copies := copies h @ [copy] \<rparr>)"
      unfolding served_one_def by auto
    with True Cons.prems(1,4) h show ?thesis by (auto split: if_splits)
  next
    case False
    with Cons show ?thesis by auto
  qed
qed

lemma add_copy_distinct:
  "distinct (map servedDigest out) \<Longrightarrow> distinct (map servedDigest (add_copy out value key copy))"
  by (induction out) (auto simp: add_copy_digests)

lemma byDigest_from_ok:
  "byDigest_from P parse out ss = Inr res \<Longrightarrow> served_ok P parse given out \<Longrightarrow> set ss \<subseteq> set given \<Longrightarrow>
     served_ok P parse given res"
proof (induction ss arbitrary: out)
  case (Cons copy ss)
  from Cons.prems(1) obtain val where v: "parse (statement copy) = Inr val"
    and r: "byDigest_from P parse (add_copy out val (digest P (statement copy)) copy) ss = Inr res"
    by (auto simp: returns)
  have "served_ok P parse given (add_copy out val (digest P (statement copy)) copy)"
    using Cons.prems(2,3) v add_copy_one [of _ out val P copy parse given]
    by (auto simp: served_ok_def add_copy_distinct)
  with Cons.IH [OF r] Cons.prems(3) show ?case by simp
qed simp

lemma byDigest_ok:
  assumes "byDigest P ss parse = Inr res"
  shows "served_ok P parse ss res"
proof -
  have "served_ok P parse ss []" by (simp add: served_ok_def)
  with assms byDigest_from_ok show ?thesis unfolding byDigest_def by blast
qed

section \<open>The path\<close>

lemma link_path_linked:
  "link_path rosters bottom version at path = Inr res \<Longrightarrow> bottom \<le> version \<Longrightarrow> set path \<subseteq> set rosters \<Longrightarrow>
     linked version None path \<Longrightarrow>
     (\<forall>s. at = Some s \<longrightarrow> s \<in> set rosters \<and> (path \<noteq> [] \<longrightarrow> previousRosterDigest (servedValue (hd path)) = servedDigest s)) \<Longrightarrow>
     set res \<subseteq> set rosters \<and> linked bottom None res \<and> length res = length path + (version - bottom)"
proof (induction rosters bottom version at path rule: link_path.induct)
  case (1 rosters bottom version at path)
  show ?case
  proof (cases "version \<le> bottom")
    case True
    with "1.prems" show ?thesis by (simp add: link_path.simps [of rosters bottom version])
  next
    case False
    from "1.prems"(1) False obtain s where s: "at = Some s" "rosterVersion (servedValue s) = version"
      and rest: "link_path rosters bottom (version - 1)
            (if version > 1
             then find (\<lambda>x. servedDigest x = previousRosterDigest (servedValue s)) rosters else None)
            (s # path) = Inr res"
      by (auto simp: link_path.simps [of rosters bottom version] split: option.splits if_splits)
    have sl: "linked version (Some (servedDigest s)) path"
      using "1.prems"(4,5) s(1) by (cases path) auto
    have l: "linked (version - 1) None (s # path)" using sl s(2) False by simp
    have nxt: "\<forall>t. (if version > 1
             then find (\<lambda>x. servedDigest x = previousRosterDigest (servedValue s)) rosters else None) = Some t \<longrightarrow>
          t \<in> set rosters \<and> (s # path \<noteq> [] \<longrightarrow> previousRosterDigest (servedValue (hd (s # path))) = servedDigest t)"
      by (auto simp: find_Some_iff split: if_splits)
    have ih: "set res \<subseteq> set rosters \<and> linked bottom None res \<and> length res = length (s # path) + (version - 1 - bottom)"
      by (rule "1.IH" [OF False s(1) _ rest _ _ l nxt]) (use False s "1.prems" in auto)
    with False show ?thesis by auto
  qed
qed

lemma foldl_max_ge: "(a :: nat) \<le> foldl max a xs" "x \<in> set xs \<Longrightarrow> x \<le> foldl max a xs"
  by (induction xs arbitrary: a) (auto intro: order_trans [OF max.cobounded1] order_trans [OF max.cobounded2])

lemma chain_path_linked:
  assumes "chain_path cached rosters = Inr path"
  shows "set path \<subseteq> set rosters"
    and "length path = head_of cached rosters - bottom_of cached rosters"
    and "bottom_of cached rosters \<le> head_of cached rosters"
    and "linked (bottom_of cached rosters) (if extends_cache cached rosters
          then map_option (\<lambda>c. last (cRosterDigests c)) cached else None) path"
    and "0 < head_of cached rosters"
proof -
  let ?b = "bottom_of cached rosters" and ?h = "head_of cached rosters"
  show le: "?b \<le> ?h" by (simp add: head_of_def foldl_max_ge)
  from assms have h: "?h \<noteq> 0" by (auto simp: chain_path_def Let_def split: if_splits)
  then show "0 < ?h" by simp
  have "set path \<subseteq> set rosters \<and> length path = ?h - ?b \<and> linked ?b (if extends_cache cached rosters
          then map_option (\<lambda>c. last (cRosterDigests c)) cached else None) path"
  proof (cases "?h > ?b")
    case False
    with assms h show ?thesis by (auto simp: chain_path_def Let_def)
  next
    case True
    define at where "at = (case filter (\<lambda>s. rosterVersion (servedValue s) = ?h) rosters of [] \<Rightarrow> None | t # _ \<Rightarrow> Some t)"
    from assms h True obtain p where p: "link_path rosters ?b ?h at [] = Inr p"
      and c: "(case cached of
             Some c \<Rightarrow>
               if extends_cache cached rosters
                 \<and> previousRosterDigest (servedValue (hd p)) \<noteq> last (cRosterDigests c)
               then Inl NOT_EXTENDING else Inr p
           | None \<Rightarrow> Inr p) = Inr path"
      by (auto simp: chain_path_def Let_def bindE_Inr at_def split: if_splits)
    have pp: "p = path" using c by (auto split: option.splits if_splits)
    have at: "at = Some s \<Longrightarrow> s \<in> set rosters" for s
    proof -
      assume s: "at = Some s"
      show ?thesis
      proof (cases "filter (\<lambda>s. rosterVersion (servedValue s) = ?h) rosters")
        case Nil
        with s show ?thesis by (simp add: at_def)
      next
        case (Cons t ts)
        then have "t \<in> set rosters" by (metis filter_is_subset list.set_intros(1) subsetD)
        with s Cons show ?thesis by (simp add: at_def)
      qed
    qed
    have l: "set path \<subseteq> set rosters \<and> linked ?b None path \<and> length path = ?h - ?b"
      using link_path_linked [OF p] le at by (simp add: pp)
    with True obtain s rest where "path = s # rest" by (cases path) auto
    with l c pp show ?thesis by (cases cached) (auto split: if_splits)
  qed
  then show "set path \<subseteq> set rosters" "length path = ?h - ?b" "linked ?b (if extends_cache cached rosters
          then map_option (\<lambda>c. last (cRosterDigests c)) cached else None) path" by auto
qed

section \<open>A cache that was taken\<close>

definition cached_ok :: "primitives \<Rightarrow> string \<Rightarrow> cached \<Rightarrow> bool" where
  "cached_ok P gid c \<longleftrightarrow> cGroupKeys c \<noteq> [] \<and> length (cSuccessions c) = length (cGroupKeys c) - 1
     \<and> nondecreasing_ties (cSuccessions c) (length (cRosterDigests c)) \<and> cRosterDigests c \<noteq> []
     \<and> rosterVersion (cRoster c) = length (cRosterDigests c) \<and> groupId (cRoster c) = gid
     \<and> rosterDigest P (cStatement c) = last (cRosterDigests c) \<and> parseRoster (cStatement c) = Inr (cRoster c)
     \<and> groupKeyVersion (cRoster c) \<le> length (cGroupKeys c)"

lemma check_cache_ok: "check_cache_parts P gid raw = Inr c \<Longrightarrow> cached_ok P gid c"
proof -
  have U: "(\<exists>u. Q u) \<longleftrightarrow> Q ()" for Q :: "unit \<Rightarrow> bool" by auto
  assume "check_cache_parts P gid raw = Inr c"
  then obtain digests rds stmt r gks raw_ss ss where
    d: "digests \<noteq> []" "mapE (\<lambda>at. digestOf at ''roster digest'') digests = Inr rds"
    and r: "parseRoster stmt = Inr r"
      "\<not> (groupId r \<noteq> gid \<or> rosterVersion r \<noteq> length rds \<or> rosterDigest P stmt \<noteq> last rds)"
    and k: "\<not> groupKeyVersion r > length gks" "\<not> length raw_ss \<noteq> length gks - 1"
      "mapE check_cached_succession raw_ss = Inr ss" "\<not> \<not> nondecreasing_ties ss (length rds)"
    and c: "cRosterDigests c = rds" "cStatement c = stmt" "cRoster c = r" "cGroupKeys c = gks" "cSuccessions c = ss"
    unfolding check_cache_parts_def Let_def bindE_Inr bad_if_def refuse_if_Inr U sum.inject
    apply (elim exE conjE)
    apply hypsubst
    subgoal premises p
      using p by (elim p(1)) auto
    done
  have "1 \<le> groupKeyVersion r"
    using r(1) by (auto simp: roster.reads_iff_writes rosterStatement_wf roster_wf_def is_version_def)
  then have "gks \<noteq> []" using k(1) by auto
  with d r k c mapE_length [OF d(2)] mapE_length [OF k(3)] show "cached_ok P gid c"
    by (auto simp: cached_ok_def)
qed

lemma given_cached:
  "check_given P input = Inr given \<Longrightarrow> gvCached given = Some c \<Longrightarrow> cached_ok P (gvGroupId given) c"
  by (auto simp: check_given_def checkCache_def returns dest: check_cache_ok
      split: option.splits sum.splits if_splits)

lemma given_groupId: "check_given P input = Inr given \<Longrightarrow> gvGroupId given = inGroupId input"
  by (auto simp: check_given_def returns uuid_def split: if_splits)

section \<open>Where the pass starts\<close>

lemma candidates_folded: "get_or [] (foldl add_candidate m ss) v = get_or [] m v @ filter (\<lambda>s. oldVersion (servedValue s) = v) ss"
proof (induction ss arbitrary: m)
  case (Cons s ss)
  have "get_or [] (add_candidate m s) v = get_or [] m v @ filter (\<lambda>s. oldVersion (servedValue s) = v) [s]"
    by (simp add: add_candidate_def map_of_alist_update)
  with Cons.IH [of "add_candidate m s"] show ?case by simp
qed simp

lemma starting_candidates:
  "candidates_at (starting input given m rosters successions) v = filter (\<lambda>s. oldVersion (servedValue s) = v) successions"
  using candidates_folded [of "[]" successions v]
  by (simp add: starting_def start_state_def Let_def candidates_at_def)

lemma starting_simps:
  "stGroupId (starting input given m rosters successions) = gvGroupId given"
  "mlDsaKeys (starting input given m rosters successions) = inMlDsaKeys input"
  "signatures (starting input given m rosters successions) = []"
  "groupKeys (starting input given m rosters successions) =
     (case continued_of given rosters of None \<Rightarrow> [inFirstKeys input] | Some c \<Rightarrow> cGroupKeys c)"
  "verified (starting input given m rosters successions) =
     (case continued_of given rosters of None \<Rightarrow> [] | Some c \<Rightarrow> List.enumerate 1 (cSuccessions c))"
  "held (starting input given m rosters successions) =
     (case continued_of given rosters of None \<Rightarrow> []
      | Some c \<Rightarrow> [\<lparr> heldRoster = cRoster c, heldStatement = cStatement c, heldDigest = last (cRosterDigests c),
          droppedHolder = cDroppedHolder c \<rparr>])"
  "stAreas (starting input given m rosters successions) = ledgerOf (continued_of given rosters)"
  "keyMarks (starting input given m rosters successions) =
     map (\<lambda>(version, all). (version, hd (sides all))) (keyMarkSides m)"
  by (auto simp: starting_def start_state_def stateOf_def Let_def continued_of_def extends_cache_def
      split: option.splits)

lemma continued_ok:
  "check_given P input = Inr given \<Longrightarrow> continued_of given rosters = Some c \<Longrightarrow> cached_ok P (gvGroupId given) c"
  by (auto simp: continued_of_def dest: given_cached split: if_splits)

lemma starting_ready:
  assumes "check_given P input = Inr given" "served_ok P parse ss successions"
  shows "ready P (starting input given m rosters successions)"
proof -
  have "inj_on servedDigest (set successions)" using assms(2) by (simp add: served_ok_def distinct_map)
  then have "digests_apart (starting input given m rosters successions)"
    by (auto simp: digests_apart_def starting_candidates dest: inj_onD)
  moreover have "groupKeys (starting input given m rosters successions) \<noteq> []"
    using continued_ok [OF assms(1)] by (auto simp: starting_simps cached_ok_def split: option.splits)
  ultimately show ?thesis by (simp add: ready_def memo_ok_def starting_simps)
qed

lemma nondecreasing: "nondecreasing_ties ss limit \<Longrightarrow>
    sorted (map lastRosterVersionOf ss) \<and> (\<forall>s \<in> set ss. lastRosterVersionOf s \<le> limit)"
  by (induction ss limit rule: nondecreasing_ties.induct) (auto intro: order_trans)

lemma starting_ties:
  assumes "check_given P input = Inr given"
  shows "ties_in_order P (starting input given m rosters successions)" (is "ties_in_order P ?st")
proof (cases "continued_of given rosters")
  case None
  have "\<not> choosable P ?st s" for s
    using None by (auto simp: choosable_def admissible_def Let_def tied_to_def starting_simps)
  with None show ?thesis
    by (simp add: ties_in_order_def starting_simps ties_of_def consecutive_def)
next
  case (Some c)
  note ok = continued_ok [OF assms Some]
  have last: "last_version ?st = rosterVersion (cRoster c)"
    by (simp add: last_version_def last_held_def starting_simps Some)
  have ties: "ties_of ?st = map lastRosterVersionOf (cSuccessions c)"
    by (simp add: ties_of_def starting_simps Some case_prod_unfold flip: map_map [unfolded comp_def])
  have "lastRosterVersion (servedValue s) = last_version ?st" if "choosable P ?st s" for s
    using that Some last by (auto simp: choosable_def admissible_def Let_def tied_to_def starting_simps split: if_splits)
  moreover have "map fst (verified ?st) = [1..<length (groupKeys ?st)]"
    using ok by (cases "cGroupKeys c") (simp_all add: starting_simps Some cached_ok_def)
  moreover have "sorted (ties_of ?st)" "\<forall>tie \<in> set (ties_of ?st). tie \<le> last_version ?st"
    using ok nondecreasing [of "cSuccessions c" "length (cRosterDigests c)"]
    unfolding ties last by (auto simp: cached_ok_def)
  ultimately show ?thesis
    using ok by (auto simp: ties_in_order_def starting_simps Some consecutive_def cached_ok_def)
qed

section \<open>The run of an acceptance\<close>

text \<open>Every acceptance is a run of the machine from where the pass starts to a state where no succession
  is left to take; \<open>st\<close> is its end, up to notes.\<close>

lemma accepts_run:
  assumes "accepts P input given m rosters successions path st"
  defines "st0 \<equiv> starting input given m rosters successions"
  shows "\<exists>x. reaches P rosters st0 x \<and> apart_notes x st" "settled P st"
    and "map heldDigest (held st) = map heldDigest (held st0) @ map servedDigest path"
    and "served_ok P parseRoster (inRosters input) rosters"
    and "served_ok P parseGroupSuccession (inSuccessions input) successions"
    and "\<forall>s \<in> set rosters. groupId (servedValue s) = gvGroupId given"
proof -
  note A = assms(1) [unfolded accepts_def]
  from A have "byDigest P (inRosters input) parseRoster = Inr rosters"
    "byDigest P (inSuccessions input) parseGroupSuccession = Inr successions"
    "\<forall>s \<in> set rosters. groupId (servedValue s) = gvGroupId given"
    by (auto simp: read_served_def returns list_ex_iff)
  note bd = byDigest_ok [OF this(1)] byDigest_ok [OF this(2)] this(3)
  then show "served_ok P parseRoster (inRosters input) rosters"
    "served_ok P parseGroupSuccession (inSuccessions input) successions"
    "\<forall>s \<in> set rosters. groupId (servedValue s) = gvGroupId given" by auto
  from A have cp: "chain_path (gvCached given) rosters = Inr path" by blast
  note l = chain_path_linked [OF cp]
  have lv: "last_version st0 = bottom_of (gvCached given) rosters"
    "map_option heldDigest (last_held st0) = (if extends_cache (gvCached given) rosters
          then map_option (\<lambda>c. last (cRosterDigests c)) (gvCached given) else None)"
    using A given_cached [of P input given]
    by (auto simp: st0_def last_version_def last_held_def starting_simps continued_of_def bottom_of_def
        extends_cache_def cached_ok_def split: option.splits)
  from A have v: "verify_chain P st0 path = Inr st" "check_given P input = Inr given" by (auto simp: st0_def)
  have "linked (last_version st0) (map_option heldDigest (last_held st0)) path"
    unfolding lv by (rule l(4))
  from verify_refines [OF v(1) _ l(1) this] starting_ready [OF v(2) bd(2)]
  show "\<exists>x. reaches P rosters st0 x \<and> apart_notes x st" "settled P st"
    "map heldDigest (held st) = map heldDigest (held st0) @ map servedDigest path"
    unfolding st0_def by blast+
qed

section \<open>The invariants of an accepted chain\<close>

lemma notes_invariants:
  assumes "apart_notes x st"
  shows "grown st0 x \<Longrightarrow> grown st0 st" "ties_in_order P x \<Longrightarrow> ties_in_order P st"
    "keys_proved P k0 x \<Longrightarrow> keys_proved P k0 st" "rosters_judged P S h0 x \<Longrightarrow> rosters_judged P S h0 st"
    "areas_run st0 x \<Longrightarrow> areas_run st0 st"
proof -
  from assms have eqs: "stGroupId st = stGroupId x" "mlDsaKeys st = mlDsaKeys x" "groupKeys st = groupKeys x"
    "verified st = verified x" "held st = held x" "candidates st = candidates x" "keyMarks st = keyMarks x"
    "stAreas st = stAreas x" by (simp_all add: apart_notes_def)
  have lv: "last_version st = last_version x" "ties_of st = ties_of x" "last_held st = last_held x"
    "candidates_at st v = candidates_at x v" "authority_of st i = authority_of x i" for v i
    by (simp_all add: last_version_def last_held_def ties_of_def candidates_at_def authority_of_def eqs)
  show "grown st0 x \<Longrightarrow> grown st0 st" unfolding grown_def eqs .
  show t: "ties_in_order P x \<Longrightarrow> ties_in_order P st"
    unfolding ties_in_order_def eqs lv by (simp add: notes_choosable [OF assms])
  show "keys_proved P k0 x \<Longrightarrow> keys_proved P k0 st"
    unfolding keys_proved_def key_proof_def eqs lv .
  show "rosters_judged P S h0 x \<Longrightarrow> rosters_judged P S h0 st"
    using t unfolding rosters_judged_def judged_def Let_def eqs lv by blast
  show "areas_run st0 x \<Longrightarrow> areas_run st0 st"
    unfolding areas_run_def eqs lv .
qed

lemma accepts_invariants:
  assumes a: "accepts P input given m rosters successions path st"
  defines "st0 \<equiv> starting input given m rosters successions"
  shows "grown st0 st" "keys_proved P (length (groupKeys st0)) st"
    "rosters_judged P rosters (length (held st0)) st" "areas_run st0 st"
proof -
  from accepts_run(1) [OF a] obtain x where x: "reaches P rosters st0 x" "apart_notes x st"
    unfolding st0_def by blast
  have given: "check_given P input = Inr given" using a by (simp add: accepts_def)
  have parsed: "parsed rosters" using accepts_run(4) [OF a] by (auto simp: parsed_def served_ok_def served_one_def)
  have ties: "ties_in_order P st0" unfolding st0_def by (rule starting_ties [OF given])
  have "grown st0 st0" "keys_proved P (length (groupKeys st0)) st0"
    "rosters_judged P rosters (length (held st0)) st0" "areas_run st0 st0"
    using ties by (auto simp: grown_def keys_proved_def rosters_judged_def areas_run_def ties_in_order_def
        intro: ledger.runs.stop)
  then have "grown st0 x" "keys_proved P (length (groupKeys st0)) x"
    "rosters_judged P rosters (length (held st0)) x" "areas_run st0 x"
    using growth.reached [OF x(1)] key_chain.reached [OF x(1)] roster_chain.reached [OF x(1)]
      area_chain.reached [OF x(1)] parsed by blast+
  then show "grown st0 st" "keys_proved P (length (groupKeys st0)) st"
    "rosters_judged P rosters (length (held st0)) st" "areas_run st0 st"
    by (auto intro: notes_invariants [OF x(2)])
qed

lemma accepts_fixed:
  assumes a: "accepts P input given m rosters successions path st"
  shows "stGroupId st = gvGroupId given" "mlDsaKeys st = inMlDsaKeys input" "gvGroupId given = inGroupId input"
    "candidates_at st v = filter (\<lambda>s. oldVersion (servedValue s) = v) successions"
    "\<exists>hs. held st = held (starting input given m rosters successions) @ hs"
    "\<exists>ks. groupKeys st = groupKeys (starting input given m rosters successions) @ ks"
    "map fst (verified st) = [1..<length (groupKeys st)]" "sorted (ties_of st)" "consecutive (held st)"
    "groupKeys st \<noteq> []"
proof -
  note g = accepts_invariants(1) [OF a, unfolded grown_def]
  from g show "stGroupId st = gvGroupId given" "mlDsaKeys st = inMlDsaKeys input"
    by (simp_all add: starting_simps)
  show "gvGroupId given = inGroupId input" using a given_groupId by (auto simp: accepts_def)
  have "candidates_at st v = candidates_at (starting input given m rosters successions) v"
    using g by (simp add: candidates_at_def)
  then show "candidates_at st v = filter (\<lambda>s. oldVersion (servedValue s) = v) successions"
    by (simp add: starting_candidates)
  show "\<exists>hs. held st = held (starting input given m rosters successions) @ hs"
    "\<exists>ks. groupKeys st = groupKeys (starting input given m rosters successions) @ ks" using g by blast+
  show "map fst (verified st) = [1..<length (groupKeys st)]" "sorted (ties_of st)" "consecutive (held st)"
    "groupKeys st \<noteq> []"
    using accepts_invariants(3) [OF a] by (simp_all add: rosters_judged_def ties_in_order_def)
qed

text \<open>No cache was given: the pass starts from version 1.\<close>

lemma uncached:
  assumes "accepts P input given m rosters successions path st" "inCache input = None"
  shows "gvCached given = None" "continued_of given rosters = None" "extends_cache (gvCached given) rosters = False"
    "bottom_of (gvCached given) rosters = 0"
  using assms by (auto simp: accepts_def check_given_def returns continued_of_def extends_cache_def bottom_of_def)

lemma held_start:
  assumes a: "accepts P input given m rosters successions path st"
    and "i = 0 \<Longrightarrow> inCache input = None"
  shows "length (held (starting input given m rosters successions)) \<le> i"
  using uncached [OF a] assms(2) by (cases i) (auto simp: starting_simps split: option.splits)

lemma signed_copy:
  assumes "signed_for P stmt key authority signer mlKeys (copies s)" "served_one P parse given s"
  shows "\<exists>copy \<in> set given. digest P (statement copy) = servedDigest s
    \<and> verifyGroup P stmt (signature copy) key \<and> signedByMember P authority signer copy mlKeys"
  using assms unfolding signed_for_def served_one_def by blast

lemma judged_signed:
  assumes a: "accepts P input given m rosters successions path st" and j: "judged P rosters st i"
  shows "let h = held st ! i; r = heldRoster h in groupId r = inGroupId input \<and> parseRoster (heldStatement h) = Inr r
    \<and> heldDigest h = digest P (heldStatement h)
    \<and> (\<exists>copy \<in> set (inRosters input). digest P (statement copy) = heldDigest h
         \<and> verifyGroup P (heldStatement h) (signature copy) (groupKeys st ! (groupKeyVersion r - 1))
         \<and> signedByMember P (authority_of st i) (signerUserId r) copy (inMlDsaKeys input))"
proof -
  from j obtain at where at: "at \<in> set rosters" "heldRoster (held st ! i) = servedValue at"
    "heldStatement (held st ! i) = servedStatement at" "heldDigest (held st ! i) = servedDigest at"
    "signed_for P (heldStatement (held st ! i)) (groupKeys st ! (groupKeyVersion (heldRoster (held st ! i)) - 1))
       (authority_of st i) (signerUserId (heldRoster (held st ! i))) (mlDsaKeys st) (copies at)"
    by (auto simp: judged_def Let_def)
  have s: "served_one P parseRoster (inRosters input) at" "groupId (servedValue at) = gvGroupId given"
    using accepts_run(4,6) [OF a] at(1) by (auto simp: served_ok_def)
  from signed_copy [OF at(5) s(1)] s at(2-4) show ?thesis
    unfolding Let_def accepts_fixed(2,3) [OF a] by (simp add: served_one_def)
qed

section \<open>Properties of accepted chains\<close>

text \<open>C1. Who may change a family's member list: every roster of an accepted chain (but the one a cache
  holds already) is a served one, its bytes parse to it, it is for this group, and a served copy of
  it is signed by the group key at its version and by its signer's own keys, and the signer is an
  active member who holds the group key on the roster before it (on itself, at version 1) and stays
  active on it.\<close>

theorem accepted_rosters_signed:
  assumes "accept P input = Inr (body, st)" and "i < length (held st)" and "i = 0 \<Longrightarrow> inCache input = None"
  shows "let h = held st ! i; r = heldRoster h; before = heldRoster (held st ! (i - 1)) in
    groupId r = inGroupId input \<and> parseRoster (heldStatement h) = Inr r
    \<and> heldDigest h = rosterDigest P (heldStatement h)
    \<and> (\<exists>copy \<in> set (inRosters input). digest P (statement copy) = heldDigest h
         \<and> verifyGroup P (heldStatement h) (signature copy) (groupKeys st ! (groupKeyVersion r - 1))
         \<and> signedByMember P before (signerUserId r) copy (inMlDsaKeys input))
    \<and> activeWith (rosterEntry before (signerUserId r)) (Some Members)
    \<and> (\<exists>e. rosterEntry r (signerUserId r) = Some e \<and> status e = Active)"
proof -
  from assms(1) obtain given m rosters successions path
    where a: "accepts P input given m rosters successions path st" by (auto simp: accept_Inr)
  have j: "judged P rosters st i"
    using accepts_invariants(3) [OF a] held_start [OF a assms(3)] assms(2) by (simp add: rosters_judged_def)
  then have "activeWith (rosterEntry (authority_of st i) (signerUserId (heldRoster (held st ! i)))) (Some Members)"
    "\<exists>e. rosterEntry (heldRoster (held st ! i)) (signerUserId (heldRoster (held st ! i))) = Some e \<and> status e = Active"
    by (simp_all only: judged_def Let_def)
  with judged_signed [OF a j] show ?thesis unfolding Let_def rosterDigest_def authority_of_def by blast
qed

text \<open>A member list only grows and follows: each roster of an accepted chain is the next version,
  names the digest of the one before, keeps the group's kind and everyone ever listed, and dates each
  entry at the version that last changed it.\<close>

theorem accepted_rosters_follow:
  assumes "accept P input = Inr (body, st)" and "Suc i < length (held st)"
  shows "let p = held st ! i; before = heldRoster p; r = heldRoster (held st ! Suc i) in
    rosterVersion r = Suc (rosterVersion before) \<and> previousRosterDigest r = heldDigest p \<and> kind r = kind before
    \<and> (\<forall>entry \<in> set (members before). rosterEntry r (userId entry) \<noteq> None)
    \<and> (\<forall>entry \<in> set (members r). sinceVersion entry = since_after before (rosterVersion r) entry)"
proof -
  from assms(1) obtain given m rosters successions path
    where a: "accepts P input given m rosters successions path st" by (auto simp: accept_Inr)
  have "length (held (starting input given m rosters successions)) \<le> Suc i"
    by (rule held_start [OF a]) simp
  with accepts_invariants(3) [OF a] assms(2) have "judged P rosters st (Suc i)" by (simp add: rosters_judged_def)
  then have "kind (heldRoster (held st ! Suc i)) = kind (heldRoster (held st ! i))"
    "checkEntries (heldRoster (held st ! i)) (heldRoster (held st ! Suc i)) = Inr ()"
    by (auto simp: judged_def Let_def authority_of_def)
  with accepts_fixed(9) [OF a] assms(2) show ?thesis
    by (auto simp: Let_def consecutive_def checkEntries_def returns list_ex_iff)
qed

text \<open>The group key changes only by a succession: every key an acceptance adds is one the chain never
  had, and a served succession names it and the key before, is tied by version and digest to a roster
  of the chain, and is signed by the key it replaces and by a member who held it on that roster.\<close>

theorem accepted_keys_proved:
  assumes "accept P input = Inr (body, st)" and "inCache input = None" and "1 \<le> v" "v < length (groupKeys st)"
  shows "groupKeys st ! v \<notin> set (take v (groupKeys st)) \<and>
    (\<exists>succession stmt lh. parseGroupSuccession stmt = Inr succession \<and> lh \<in> set (held st)
      \<and> oldVersion succession = v \<and> old_key_of succession = groupKeys st ! (v - 1)
      \<and> new_key_of succession = groupKeys st ! v
      \<and> rosterVersion (heldRoster lh) = lastRosterVersion succession \<and> heldDigest lh = lastRosterDigest succession
      \<and> activeWith (rosterEntry (heldRoster lh) (succSignerUserId succession)) (Some Members)
      \<and> (\<exists>copy \<in> set (inSuccessions input). digest P (statement copy) = digest P stmt
           \<and> verifyGroup P stmt (signature copy) (groupKeys st ! (v - 1))
           \<and> signedByMember P (heldRoster lh) (succSignerUserId succession) copy (inMlDsaKeys input)))"
proof -
  from assms(1) obtain given m rosters successions path
    where a: "accepts P input given m rosters successions path st" by (auto simp: accept_Inr)
  have "length (groupKeys (starting input given m rosters successions)) = 1"
    using uncached [OF a assms(2)] by (simp add: starting_simps)
  with accepts_invariants(2) [OF a] assms(3,4) have k: "groupKeys st ! v \<notin> set (take v (groupKeys st))" "key_proof P st v"
    by (auto simp: keys_proved_def)
  from k(2) obtain s lh where s: "s \<in> set (candidates_at st v)" "lh \<in> set (held st)"
    "old_key_of (servedValue s) = groupKeys st ! (v - 1)" "new_key_of (servedValue s) = groupKeys st ! v"
    "rosterVersion (heldRoster lh) = lastRosterVersion (servedValue s)"
    "heldDigest lh = lastRosterDigest (servedValue s)"
    "activeWith (rosterEntry (heldRoster lh) (succSignerUserId (servedValue s))) (Some Members)"
    "signed_for P (servedStatement s) (groupKeys st ! (v - 1)) (heldRoster lh)
       (succSignerUserId (servedValue s)) (mlDsaKeys st) (copies s)"
    by (auto simp: key_proof_def)
  from s(1) have c: "s \<in> set successions" "oldVersion (servedValue s) = v"
    by (auto simp: accepts_fixed(4) [OF a])
  with accepts_run(5) [OF a] have one: "served_one P parseGroupSuccession (inSuccessions input) s"
    by (simp add: served_ok_def)
  from signed_copy [OF s(8) one] one have "\<exists>copy \<in> set (inSuccessions input).
      digest P (statement copy) = digest P (servedStatement s)
      \<and> verifyGroup P (servedStatement s) (signature copy) (groupKeys st ! (v - 1))
      \<and> signedByMember P (heldRoster lh) (succSignerUserId (servedValue s)) copy (inMlDsaKeys input)"
    by (simp add: served_one_def accepts_fixed(2) [OF a])
  moreover have "parseGroupSuccession (servedStatement s) = Inr (servedValue s)" using one by (simp add: served_one_def)
  ultimately show ?thesis using s(2-7) c(2) k(1) by blast
qed

lemma kept_ties:
  assumes a: "accepts P input given m rosters successions path st"
    and "0 < i" "Suc i < length (held st)"
    and "dropsHolder (heldRoster (held st ! (i - 1))) (heldRoster (held st ! i))"
  shows "rosterVersion (heldRoster (held st ! i)) \<in> set (ties_of st)"
proof -
  have "length (held (starting input given m rosters successions)) \<le> i"
    by (rule held_start [OF a]) (use assms(2) in simp)
  with accepts_invariants(3) [OF a] assms(3)
  have "judged P rosters st i" "judged P rosters st (Suc i)" by (simp_all add: rosters_judged_def)
  with assms(2,4) show ?thesis by (auto simp: judged_def Let_def authority_of_def)
qed

lemma consecutive_less: "consecutive hs \<Longrightarrow> i < j \<Longrightarrow> j < length hs \<Longrightarrow>
    rosterVersion (heldRoster (hs ! i)) < rosterVersion (heldRoster (hs ! j))"
proof (induction j)
  case (Suc j)
  then have "rosterVersion (heldRoster (hs ! Suc j)) = Suc (rosterVersion (heldRoster (hs ! j)))"
    by (simp add: consecutive_def)
  with Suc show ?case by (cases "i = j") auto
qed simp

lemma keyVersionAt_less: "tie \<in> set ties \<Longrightarrow> \<not> tie < n \<Longrightarrow> tie < k \<Longrightarrow> n \<le> k \<Longrightarrow> keyVersionAt ties n < keyVersionAt ties k"
proof -
  assume a: "tie \<in> set ties" "\<not> tie < n" "tie < k" "n \<le> k"
  have "length (filter (\<lambda>t. t < n) ties) < length (filter (\<lambda>t. t < k) ties)"
    using a(1)
  proof (induction ties)
    case (Cons t ties)
    have le: "length (filter (\<lambda>t. t < n) xs) \<le> length (filter (\<lambda>t. t < k) xs)" for xs
      using a(4) by (induction xs) auto
    from Cons a le [of ties] show ?case by (cases "t = tie") auto
  qed simp
  then show ?thesis by (simp add: keyVersionAt_def)
qed


text \<open>The key version worked out from the ties is the one a roster names: codes compared over a
  roster are over the key it is under.\<close>

theorem roster_under_key_of_ties:
  assumes "accept P input = Inr (body, st)" and "i < length (held st)" and "i = 0 \<Longrightarrow> inCache input = None"
  shows "let r = heldRoster (held st ! i) in
    groupKeyVersion r = keyVersionAt (ties_of st) (rosterVersion r) \<and> groupKeyVersion r \<le> length (groupKeys st)
    \<and> sorted (ties_of st) \<and> length (ties_of st) = length (groupKeys st) - 1"
proof -
  from assms(1) obtain given m rosters successions path
    where a: "accepts P input given m rosters successions path st" by (auto simp: accept_Inr)
  have "judged P rosters st i"
    using accepts_invariants(3) [OF a] held_start [OF a assms(3)] assms(2) by (simp add: rosters_judged_def)
  then show ?thesis
    using accepts_fixed(8) [OF a] arg_cong [OF accepts_fixed(7) [OF a], of length]
    by (simp add: judged_def Let_def ties_of_def)
qed

text \<open>Across an accepted chain no folder key is ever used twice: its rosters are a run of the area
  ledger, from nothing, and the chain's area keys are the ledger's.\<close>

theorem accepted_areas_run:
  assumes "accept P input = Inr (body, st)" and "inCache input = None"
  shows "\<exists>previous. ledger.runs (empty_ledger, None) (map heldRoster (held st)) (stAreas st, previous)
    \<and> distinct (concat (map listed_keys (map heldRoster (held st)))) \<and> chAreaKeys body = keys (stAreas st)"
proof -
  from assms(1) obtain given m rosters successions path
    where a: "accepts P input given m rosters successions path st"
    and f: "finish P input given (continued_of given rosters) rosters path st = Inr body" by (auto simp: accept_Inr)
  note u = uncached [OF a assms(2)]
  have "ledger.runs (empty_ledger, None) (map heldRoster (held st)) (stAreas st, map_option heldRoster (last_held st))"
    using accepts_invariants(4) [OF a] u
    by (auto simp: areas_run_def starting_simps ledgerOf_def last_held_def)
  moreover from ledger_keys_mset [OF this] empty_ledger_inv
  have m: "mset (flat (keys (stAreas st))) = mset (concat (map listed_keys (map heldRoster (held st))))"
    by (simp add: empty_ledger_def flat_def)
  have "ledger_inv (stAreas st)" using runs_ledger_inv [OF calculation] by simp
  with mset_eq_imp_distinct_iff [OF m] have "distinct (concat (map listed_keys (map heldRoster (held st))))"
    by (simp add: ledger_inv_def)
  moreover have "chAreaKeys body = keys (stAreas st)"
    using f by (auto simp: finish_def Let_def returns body_of_def)
  ultimately show ?thesis by blast
qed

end
