(* ===== verification/Marks.thy ===== *)
theory Marks
  imports Accepted_Chain
begin

text \<open>
  A person's marks and an accepted chain: the pins and the cache, each met by the chain, the codes
  compared, and what vouches for the version 1 keys when nothing marks the family.
\<close>

section \<open>Sides and conflicts\<close>

lemma ex_unit: "(\<exists>u. Q u) \<longleftrightarrow> Q ()" for Q :: "unit \<Rightarrow> bool"
  by auto

lemma for_each_Inr: "for_each f xs = Inr () \<longleftrightarrow> (\<forall>x \<in> set xs. f x = Inr ())"
  by (induction xs) (auto simp: returns)

lemma merge_side_digests: "sideDigest ` set (merge_side ss s) = insert (sideDigest s) (sideDigest ` set ss)"
  by (induction ss) auto

lemma merge_side_distinct: "distinct (map sideDigest ss) \<Longrightarrow> distinct (map sideDigest (merge_side ss s))"
  by (induction ss) (auto simp: merge_side_digests)

lemma merged_sides:
  "distinct (map sideDigest ss) \<Longrightarrow> distinct (map sideDigest (foldl merge_side ss all))
     \<and> sideDigest ` set (foldl merge_side ss all) = sideDigest ` set ss \<union> sideDigest ` set all"
  by (induction all arbitrary: ss) (auto simp: merge_side_digests merge_side_distinct)

lemma sides_digests: "sideDigest ` set (sides all) = sideDigest ` set all" "distinct (map sideDigest (sides all))"
proof -
  note m = merged_sides [of "[]" all]
  then show "sideDigest ` set (sides all) = sideDigest ` set all" by (simp add: sides_def)
  have "mset (map sideDigest (sides all)) = mset (map sideDigest (foldl merge_side [] all))" by (simp add: sides_def)
  from mset_eq_imp_distinct_iff [OF this] m show "distinct (map sideDigest (sides all))" by simp
qed

lemma one_side: "length (sides all) \<le> 1 \<longleftrightarrow> (\<forall>a \<in> set all. \<forall>b \<in> set all. sideDigest a = sideDigest b)"
proof -
  have "length (sides all) = card (sideDigest ` set all)"
    using sides_digests [of all] distinct_card [of "map sideDigest (sides all)"] by simp
  also have "\<dots> \<le> 1 \<longleftrightarrow> (\<forall>x \<in> sideDigest ` set all. \<forall>y \<in> sideDigest ` set all. x = y)"
    by (rule card_le_Suc0_iff_eq [unfolded One_nat_def [symmetric]]) simp
  finally show ?thesis by simp
qed

lemma conflict_Inr: "conflict of_what v all = Inr () \<longleftrightarrow> (\<forall>a \<in> set all. \<forall>b \<in> set all. sideDigest a = sideDigest b)"
  by (simp add: conflict_def Let_def one_side [symmetric] not_less)

lemma conflict_pair: "conflict of_what v [a, b] = Inr () \<Longrightarrow> sideDigest a = sideDigest b"
  unfolding conflict_Inr by (drule bspec [of _ _ a], simp, drule bspec [of _ _ b], simp, assumption)

section \<open>The marks of a person\<close>

lemma add_mark_at: "get_or [] (add_mark m v side) w = (if w = v then get_or [] m v @ [side] else get_or [] m w)"
  by (simp add: add_mark_def map_of_alist_update)

lemma versions_in_iff: "v \<in> set (versions_in m) \<longleftrightarrow> map_of m v \<noteq> None"
  by (simp add: versions_in_def map_of_eq_None_iff image_iff)

lemma marked_version: "get_or [] m v \<noteq> [] \<Longrightarrow> v \<in> set (versions_in m)"
  by (auto simp: versions_in_iff split: option.splits)

text \<open>A digest among the marks at a version.\<close>

definition marked :: "marks \<Rightarrow> nat \<Rightarrow> string \<Rightarrow> bool" where
  "marked m v d \<longleftrightarrow> d \<in> sideDigest ` set (get_or [] m v)"

lemma marked_add: "marked (add_mark m v side) w d \<longleftrightarrow> (w = v \<and> d = sideDigest side) \<or> marked m w d"
  unfolding marked_def add_mark_at by auto

lemma marked_in: "marked m v d \<Longrightarrow> v \<in> set (versions_in m)"
proof -
  assume "marked m v d"
  then have "get_or [] m v \<noteq> []" unfolding marked_def by (metis empty_iff image_is_empty list.set(1))
  then show ?thesis by (rule marked_version)
qed

lemma pin_marks_marked:
  "marked (rosterMarks (foldl (pin_marks P) m pins)) v d \<longleftrightarrow>
     marked (rosterMarks m) v d \<or> (\<exists>pin \<in> set pins. v = pinRosterVersion pin \<and> d = pinRosterDigest pin)"
  "marked (keyMarkSides (foldl (pin_marks P) m pins)) v d \<longleftrightarrow>
     marked (keyMarkSides m) v d \<or> (\<exists>pin \<in> set pins. v = pinKeyVersion pin \<and> d = pinGroupKeyDigest pin)"
  by (induction pins arbitrary: m) (auto simp: pin_marks_def marked_add side_of_def)

lemma pin_marks_first:
  "sideDigest ` set (firstMarks (foldl (pin_marks P) m pins)) = sideDigest ` set (firstMarks m)
     \<union> (\<lambda>pin. firstKeysMark P (firstEd25519PublicKey pin) (Some (firstMlDsaPublicKeyDigest pin))) ` set pins"
  by (induction pins arbitrary: m) (auto simp: pin_marks_def side_of_def)

lemma cache_roster_marked:
  "marked (cache_roster_marks signer version ds m) v d \<longleftrightarrow>
     marked m v d \<or> (\<exists>i < length ds. v = version + i \<and> d = ds ! i)"
proof (induction signer version ds m rule: cache_roster_marks.induct)
  case (3 signer version x y ds m)
  show ?case
    unfolding cache_roster_marks.simps "3.IH"
    by (auto simp: marked_add side_of_def Ex_less_Suc2)
qed (auto simp: marked_add side_of_def)

lemma cache_key_marked:
  "cache_key_marks P ss index ks m = Inr m' \<Longrightarrow> marked m' v d \<longleftrightarrow> marked m v d
     \<or> (\<exists>i < length ks. v = index + i + 1 \<and> groupKeyDigest P (ks ! i) = Inr d)"
proof (induction ks arbitrary: index m)
  case (Cons k ks)
  from Cons.prems obtain kd where kd: "groupKeyDigest P k = Inr kd"
    and r: "cache_key_marks P ss (index + 1) ks (add_mark m (index + 1)
         (side_of kd From_Cache (if index = 0 \<or> length ss < index then None
           else Some (verifiedSigner (ss ! (index - 1)))))) = Inr m'" by (auto simp: returns)
  from Cons.IH [OF r] kd show ?case
    by (auto simp: marked_add side_of_def Ex_less_Suc2)
qed simp

lemma own_marks_marked:
  assumes "own_marks_of P given = Inr m"
  shows "marked (rosterMarks m) v d \<longleftrightarrow> (\<exists>pin \<in> set (gvPins given). v = pinRosterVersion pin \<and> d = pinRosterDigest pin)
      \<or> (\<exists>c i. gvCached given = Some c \<and> i < length (cRosterDigests c) \<and> v = Suc i \<and> d = cRosterDigests c ! i)"
    and "marked (keyMarkSides m) v d \<longleftrightarrow> (\<exists>pin \<in> set (gvPins given). v = pinKeyVersion pin \<and> d = pinGroupKeyDigest pin)
      \<or> (\<exists>c i. gvCached given = Some c \<and> i < length (cGroupKeys c) \<and> v = Suc i
            \<and> groupKeyDigest P (cGroupKeys c ! i) = Inr d)"
proof -
  let ?m0 = "foldl (pin_marks P) \<lparr> rosterMarks = [], keyMarkSides = [], firstMarks = [] \<rparr> (gvPins given)"
  have none: "\<not> marked [] v d" by (simp add: marked_def)
  have "(marked (rosterMarks m) v d \<longleftrightarrow> (\<exists>pin \<in> set (gvPins given). v = pinRosterVersion pin \<and> d = pinRosterDigest pin)
      \<or> (\<exists>c i. gvCached given = Some c \<and> i < length (cRosterDigests c) \<and> v = Suc i \<and> d = cRosterDigests c ! i))
    \<and> (marked (keyMarkSides m) v d \<longleftrightarrow> (\<exists>pin \<in> set (gvPins given). v = pinKeyVersion pin \<and> d = pinGroupKeyDigest pin)
      \<or> (\<exists>c i. gvCached given = Some c \<and> i < length (cGroupKeys c) \<and> v = Suc i
            \<and> groupKeyDigest P (cGroupKeys c ! i) = Inr d))"
  proof (cases "gvCached given")
    case None
    with assms have "m = ?m0" by (simp add: own_marks_of_def cache_marks_def)
    with None none show ?thesis by (auto simp: pin_marks_marked)
  next
    case (Some c)
    with assms obtain kms where k: "cache_key_marks P (cSuccessions c) 0 (cGroupKeys c) (keyMarkSides ?m0) = Inr kms"
      and m: "rosterMarks m = cache_roster_marks (signerUserId (cRoster c)) 1 (cRosterDigests c) (rosterMarks ?m0)"
        "keyMarkSides m = kms"
      by (auto simp: own_marks_of_def cache_marks_def Let_def returns)
    show ?thesis unfolding m cache_roster_marked cache_key_marked [OF k] using Some none
      by (auto simp: pin_marks_marked)
  qed
  then show "marked (rosterMarks m) v d \<longleftrightarrow> (\<exists>pin \<in> set (gvPins given). v = pinRosterVersion pin \<and> d = pinRosterDigest pin)
      \<or> (\<exists>c i. gvCached given = Some c \<and> i < length (cRosterDigests c) \<and> v = Suc i \<and> d = cRosterDigests c ! i)"
    "marked (keyMarkSides m) v d \<longleftrightarrow> (\<exists>pin \<in> set (gvPins given). v = pinKeyVersion pin \<and> d = pinGroupKeyDigest pin)
      \<or> (\<exists>c i. gvCached given = Some c \<and> i < length (cGroupKeys c) \<and> v = Suc i
            \<and> groupKeyDigest P (cGroupKeys c ! i) = Inr d)" by blast+
qed

section \<open>The marks against the chain\<close>

lemma name_signer_digest [simp]: "sideDigest (name_signer st side) = sideDigest side"
  by (simp add: name_signer_def)

lemma roster_marks_met_Inr:
  assumes "roster_marks_met st chainDigest head m = Inr ()" "marked m v d"
  shows "v \<le> head" "chainDigest v = d"
proof -
  from marked_in [OF assms(2)] assms(1) show le: "v \<le> head"
    by (auto simp: roster_marks_met_def returns list_ex_iff)
  with marked_in [OF assms(2)] assms(1) have c: "conflict Of_Roster v
     (map (name_signer st) (get_or [] m v) @ [name_signer st (side_of (chainDigest v) From_Served None)]) = Inr ()"
    by (auto simp: roster_marks_met_def returns for_each_Inr)
  obtain side where side: "side \<in> set (get_or [] m v)" "sideDigest side = d" using assms(2) unfolding marked_def by blast
  have "sideDigest (name_signer st side) = sideDigest (name_signer st (side_of (chainDigest v) From_Served None))"
    by (rule c [unfolded conflict_Inr, rule_format]) (use side in simp_all)
  with side(2) show "chainDigest v = d" by (simp add: side_of_def)
qed

lemma marks_agree_keys:
  assumes "marks_agree m = Inr ()" "marked (keyMarkSides m) v d"
  shows "\<exists>all. map_of (keyMarkSides m) v = Some all \<and> sideDigest (hd (sides all)) = d"
proof -
  from marked_in [OF assms(2)] obtain all where all: "map_of (keyMarkSides m) v = Some all"
    by (auto simp: versions_in_iff)
  with assms have "conflict Of_Group_Key v all = Inr ()" "d \<in> sideDigest ` set all"
    using marked_in [OF assms(2)] by (auto simp: marks_agree_def returns for_each_Inr marked_def)
  moreover have "sideDigest (hd (sides all)) \<in> sideDigest ` set all"
    using sides_digests(1) [of all] calculation(2) by (metis empty_iff hd_in_set image_eqI image_is_empty list.set(1))
  ultimately show ?thesis using all unfolding conflict_Inr by fastforce
qed

lemma key_marks_met_Inr:
  assumes "key_marks_met P st (keyMarkSides m) = Inr ()" "marks_agree m = Inr ()"
    "keyMarks st = map (\<lambda>(version, all). (version, hd (sides all))) (keyMarkSides m)" "marked (keyMarkSides m) v d"
  shows "v \<le> length (groupKeys st)" "groupKeyDigest P (groupKeys st ! (v - 1)) = Inr d"
proof -
  from marked_in [OF assms(4)] assms(1) show le: "v \<le> length (groupKeys st)"
    by (auto simp: key_marks_met_def returns list_ex_iff)
  from marks_agree_keys [OF assms(2,4)] obtain all where
    all: "map_of (keyMarkSides m) v = Some all" "sideDigest (hd (sides all)) = d" by blast
  have km: "map_of (keyMarks st) v = Some (hd (sides all))" using all(1) by (simp add: assms(3) map_of_map)
  then have "v \<in> set (versions_in (keyMarks st))" by (simp add: versions_in_iff)
  moreover have "\<forall>v \<in> set (versions_in (keyMarks st)).
      (if v > length (groupKeys st) then Inr ()
       else bindE (refused_by (groupKeyDigest P (groupKeys st ! (v - 1)))) (\<lambda>kd.
           conflict Of_Group_Key v [the (map_of (keyMarks st) v),
             side_of kd From_Served (map_option verifiedSigner (map_of (verified st) (v - 1)))])) = Inr ()"
    using assms(1) unfolding key_marks_met_def bindE_Inr ex_unit for_each_Inr by (rule conjunct1)
  ultimately have "(if v > length (groupKeys st) then Inr ()
       else bindE (refused_by (groupKeyDigest P (groupKeys st ! (v - 1)))) (\<lambda>kd.
           conflict Of_Group_Key v [the (map_of (keyMarks st) v),
             side_of kd From_Served (map_option verifiedSigner (map_of (verified st) (v - 1)))])) = Inr ()"
    by (rule bspec [rotated])
  then obtain kd where kd: "groupKeyDigest P (groupKeys st ! (v - 1)) = Inr kd"
    "conflict Of_Group_Key v [the (map_of (keyMarks st) v),
             side_of kd From_Served (map_option verifiedSigner (map_of (verified st) (v - 1)))] = Inr ()"
    unfolding bindE_Inr refused_by_Inr if_not_P [OF le [unfolded not_less [symmetric]]] by blast
  from conflict_pair [OF kd(2)] kd(1) km all(2) show "groupKeyDigest P (groupKeys st ! (v - 1)) = Inr d" by (simp add: side_of_def)
qed

section \<open>Properties of marks\<close>

text \<open>The digests of the chain returned: of the cache continued, then of the path.\<close>

lemma body_digests:
  assumes a: "accepts P input given m rosters successions path st"
    and f: "finish P input given (continued_of given rosters) rosters path st = Inr body"
  shows "length (chRosterDigests body) = head_of (gvCached given) rosters"
    and "\<And>v. 1 \<le> v \<Longrightarrow> v \<le> head_of (gvCached given) rosters \<Longrightarrow>
      chain_digest (gvCached given) (bottom_of (gvCached given) rosters) path v = chRosterDigests body ! (v - 1)"
    and "chGroupKeys body = groupKeys st" "chGroupKeyVersion body = length (groupKeys st)"
    and "chRosterDigests body = map heldDigest (held st) \<or> continued_of given rosters \<noteq> None"
proof -
  have cp: "chain_path (gvCached given) rosters = Inr path" using a by (simp add: accepts_def)
  note l = chain_path_linked [OF cp]
  have b: "chRosterDigests body = (case continued_of given rosters of None \<Rightarrow> [] | Some c \<Rightarrow> cRosterDigests c)
      @ map servedDigest path" "chGroupKeys body = groupKeys st" "chGroupKeyVersion body = length (groupKeys st)"
    using f by (auto simp: finish_def Let_def returns body_of_def cached_of_def)
  have bottom: "bottom_of (gvCached given) rosters
      = length (case continued_of given rosters of None \<Rightarrow> [] | Some c \<Rightarrow> cRosterDigests c)"
    by (auto simp: bottom_of_def continued_of_def extends_cache_def split: option.splits)
  show "length (chRosterDigests body) = head_of (gvCached given) rosters"
    using b(1) bottom l(2,3) by simp
  show "\<And>v. 1 \<le> v \<Longrightarrow> v \<le> head_of (gvCached given) rosters \<Longrightarrow>
      chain_digest (gvCached given) (bottom_of (gvCached given) rosters) path v = chRosterDigests body ! (v - 1)"
  proof -
    fix v :: nat assume v: "1 \<le> v" "v \<le> head_of (gvCached given) rosters"
    show "chain_digest (gvCached given) (bottom_of (gvCached given) rosters) path v = chRosterDigests body ! (v - 1)"
    proof (cases "v \<le> bottom_of (gvCached given) rosters")
      case True
      with v bottom have "continued_of given rosters \<noteq> None" by (auto split: option.splits)
      then obtain c where c: "continued_of given rosters = Some c" by blast
      then have "gvCached given = Some c" by (simp add: continued_of_def split: if_splits)
      moreover have "v - 1 < length (cRosterDigests c)" using c True v bottom by simp
      ultimately show ?thesis using c True v b(1) bottom by (simp add: chain_digest_def nth_append)
    next
      case False
      moreover have "\<not> v - 1 < length (case continued_of given rosters of None \<Rightarrow> [] | Some c \<Rightarrow> cRosterDigests c)"
        using False v bottom by simp
      ultimately show ?thesis using v b(1) bottom l(2,3) by (simp add: chain_digest_def nth_append)
    qed
  qed
  show "chGroupKeys body = groupKeys st" "chGroupKeyVersion body = length (groupKeys st)" by (rule b(2), rule b(3))
  show "chRosterDigests body = map heldDigest (held st) \<or> continued_of given rosters \<noteq> None"
    using accepts_run(3) [OF a] b(1) by (auto simp: starting_simps)
qed

lemma accepts_marked:
  assumes a: "accepts P input given m rosters successions path st"
    and f: "finish P input given (continued_of given rosters) rosters path st = Inr body"
  shows "marked (rosterMarks m) v d \<Longrightarrow> 1 \<le> v \<Longrightarrow> v \<le> length (chRosterDigests body) \<and> chRosterDigests body ! (v - 1) = d"
    and "marked (keyMarkSides m) v d \<Longrightarrow> v \<le> length (groupKeys st) \<and> groupKeyDigest P (groupKeys st ! (v - 1)) = Inr d"
proof -
  from a have met: "roster_marks_met st (chain_digest (gvCached given) (bottom_of (gvCached given) rosters) path)
      (head_of (gvCached given) rosters) (rosterMarks m) = Inr ()"
    "key_marks_met P st (keyMarkSides m) = Inr ()" "marks_agree m = Inr ()"
    by (auto simp: accepts_def marks_met_def returns)
  note d = body_digests [OF a f]
  show "marked (rosterMarks m) v d \<Longrightarrow> 1 \<le> v \<Longrightarrow> v \<le> length (chRosterDigests body) \<and> chRosterDigests body ! (v - 1) = d"
    using roster_marks_met_Inr [OF met(1)] d(1,2) by metis
  have km: "keyMarks st = map (\<lambda>(version, all). (version, hd (sides all))) (keyMarkSides m)"
    using accepts_invariants(1) [OF a] by (simp add: grown_def starting_simps)
  show "marked (keyMarkSides m) v d \<Longrightarrow> v \<le> length (groupKeys st) \<and> groupKeyDigest P (groupKeys st ! (v - 1)) = Inr d"
    using key_marks_met_Inr [OF met(2,3) km] by blast
qed

lemma mapE_mem: "mapE f xs = Inr ys \<Longrightarrow> x \<in> set xs \<Longrightarrow> \<exists>y. f x = Inr y \<and> y \<in> set ys"
  by (induction xs arbitrary: ys) (auto simp: returns)

lemma given_pin:
  assumes "check_given P input = Inr given" "raw \<in> set (inPins input)"
  shows "\<exists>pin. checkGroupPin (inGroupId input) raw = Inr pin \<and> pin \<in> set (gvPins given)"
proof -
  have "mapE (checkGroupPin (inGroupId input)) (inPins input) = Inr (gvPins given)"
    using assms(1) by (auto simp: check_given_def returns uuid_def split: if_splits)
  from mapE_mem [OF this assms(2)] show ?thesis by blast
qed

lemma checkGroupPin_versions: "checkGroupPin gid raw = Inr pin \<Longrightarrow> 1 \<le> pinRosterVersion pin \<and> 1 \<le> pinKeyVersion pin"
  by (auto simp: checkGroupPin_def returns integer_def split: option.splits json.splits if_splits)

text \<open>C3. No rollback and no second history: every pin a person holds is on the chain accepted, the
  roster it names at that roster's version and the group key it names at that key's version.\<close>

theorem accepted_pins_on_chain:
  assumes "accept P input = Inr (body, st)" and "raw \<in> set (inPins input)"
  shows "\<exists>pin. checkGroupPin (inGroupId input) raw = Inr pin
    \<and> pinRosterVersion pin \<le> length (chRosterDigests body)
    \<and> chRosterDigests body ! (pinRosterVersion pin - 1) = pinRosterDigest pin
    \<and> pinKeyVersion pin \<le> chGroupKeyVersion body
    \<and> groupKeyDigest P (chGroupKeys body ! (pinKeyVersion pin - 1)) = Inr (pinGroupKeyDigest pin)"
proof -
  from assms(1) obtain given m rosters successions path
    where a: "accepts P input given m rosters successions path st"
    and f: "finish P input given (continued_of given rosters) rosters path st = Inr body" by (auto simp: accept_Inr)
  from a have g: "check_given P input = Inr given" "own_marks_of P given = Inr m" by (auto simp: accepts_def)
  from given_pin [OF g(1) assms(2)] obtain pin where pin: "checkGroupPin (inGroupId input) raw = Inr pin"
    "pin \<in> set (gvPins given)" by blast
  have "marked (rosterMarks m) (pinRosterVersion pin) (pinRosterDigest pin)"
    "marked (keyMarkSides m) (pinKeyVersion pin) (pinGroupKeyDigest pin)"
    using own_marks_marked [OF g(2)] pin(2) by blast+
  with accepts_marked [OF a f] checkGroupPin_versions [OF pin(1)] body_digests(3,4) [OF a f] pin(1)
  show ?thesis by metis
qed

lemma cache_key_marks_all:
  "cache_key_marks P ss index ks m = Inr m' \<Longrightarrow> i < length ks \<Longrightarrow> \<exists>d. groupKeyDigest P (ks ! i) = Inr d"
  by (induction ks arbitrary: index m i) (auto simp: returns less_Suc_eq_0_disj)

lemma cache_keys_digest:
  "own_marks_of P given = Inr m \<Longrightarrow> gvCached given = Some c \<Longrightarrow> i < length (cGroupKeys c) \<Longrightarrow>
     \<exists>d. groupKeyDigest P (cGroupKeys c ! i) = Inr d"
  by (auto simp: own_marks_of_def cache_marks_def Let_def returns dest: cache_key_marks_all)

text \<open>The same of the cache a device kept: a chain accepted with it, continued or verified again from
  version 1, passes through every roster and every group key the cache holds.\<close>

theorem accepted_cache_on_chain:
  assumes "accept P input = Inr (body, st)" and "inCache input = Some raw"
  shows "\<exists>c. checkCache P (inGroupId input) (Some raw) (inServer input) = Inr c
    \<and> length (cRosterDigests c) \<le> length (chRosterDigests body)
    \<and> take (length (cRosterDigests c)) (chRosterDigests body) = cRosterDigests c
    \<and> length (cGroupKeys c) \<le> length (chGroupKeys body)
    \<and> (\<forall>i < length (cGroupKeys c). groupKeyDigest P (chGroupKeys body ! i) = groupKeyDigest P (cGroupKeys c ! i))"
proof -
  from assms(1) obtain given m rosters successions path
    where a: "accepts P input given m rosters successions path st"
    and f: "finish P input given (continued_of given rosters) rosters path st = Inr body" by (auto simp: accept_Inr)
  from a have g: "check_given P input = Inr given" "own_marks_of P given = Inr m" by (auto simp: accepts_def)
  obtain c where c: "checkCache P (inGroupId input) (Some raw) (inServer input) = Inr c" "gvCached given = Some c"
    using g(1) assms(2) given_groupId [OF g(1)] by (auto simp: check_given_def returns uuid_def split: if_splits)
  note ok = given_cached [OF g(1) c(2)]
  have r: "i < length (cRosterDigests c) \<Longrightarrow> Suc i \<le> length (chRosterDigests body) \<and> chRosterDigests body ! i = cRosterDigests c ! i" for i
    using accepts_marked(1) [OF a f, of "Suc i" "cRosterDigests c ! i"] own_marks_marked(1) [OF g(2)] c(2) by auto
  have k: "Suc i \<le> length (groupKeys st) \<and> groupKeyDigest P (groupKeys st ! i) = groupKeyDigest P (cGroupKeys c ! i)"
    if i: "i < length (cGroupKeys c)" for i
  proof -
    from cache_keys_digest [OF g(2) c(2) i] obtain d where d: "groupKeyDigest P (cGroupKeys c ! i) = Inr d" by blast
    with own_marks_marked(2) [OF g(2)] c(2) i have "marked (keyMarkSides m) (Suc i) d" by blast
    from accepts_marked(2) [OF a f this] d show ?thesis by simp
  qed
  have len: "length (cRosterDigests c) \<le> length (chRosterDigests body)"
    using r [of "length (cRosterDigests c) - 1"] ok by (cases "cRosterDigests c") (auto simp: cached_ok_def)
  moreover have "take (length (cRosterDigests c)) (chRosterDigests body) = cRosterDigests c"
    using len r by (intro nth_equalityI) auto
  moreover have "length (cGroupKeys c) \<le> length (groupKeys st)"
    using k [of "length (cGroupKeys c) - 1"] ok by (cases "cGroupKeys c") (auto simp: cached_ok_def)
  ultimately show ?thesis using c(1) k body_digests(3) [OF a f] by auto
qed


lemma joined_inj:
  assumes "list_all (\<lambda>w. CHR '' '' \<notin> set w) xs" "list_all (\<lambda>w. CHR '' '' \<notin> set w) ys" "length xs = length ys"
    and "joined xs = joined ys"
  shows "xs = ys"
  using assms(3,1,2,4)
proof (induction xs ys rule: list_induct2)
  case (Cons x xs y ys)
  have split: "a = b \<and> c = d" if "a @ c = b @ d" "CHR '' '' \<notin> set a" "CHR '' '' \<notin> set b"
    "c = [] \<or> hd c = CHR '' ''" "d = [] \<or> hd d = CHR '' ''" "(c = []) = (d = [])" for a b c d :: string
  proof -
    have t: "takeWhile (\<lambda>k. k \<noteq> CHR '' '') (a @ c) = a" if "CHR '' '' \<notin> set a" "c = [] \<or> hd c = CHR '' ''" for a c :: string
    proof -
      have "takeWhile (\<lambda>k. k \<noteq> CHR '' '') (a @ c) = a @ takeWhile (\<lambda>k. k \<noteq> CHR '' '') c"
        using that(1) by (intro takeWhile_append2) auto
      with that(2) show ?thesis by (cases c) auto
    qed
    from t [OF that(2,4)] t [OF that(3,5)] that(1) show ?thesis by auto
  qed
  show ?case
  proof (cases xs)
    case Nil
    with Cons show ?thesis by (simp add: joined_def)
  next
    case (Cons x' xs')
    then obtain y' ys' where ys: "ys = y' # ys'" using Cons.hyps by (cases ys) auto
    from Cons.prems(3) Cons ys have "x @ CHR '' '' # joined xs = y @ CHR '' '' # joined ys"
      by (simp add: joined_def)
    with split [of x "CHR '' '' # joined xs" y "CHR '' '' # joined ys"] Cons.prems(1,2)
    have "x = y" "joined xs = joined ys" by auto
    with Cons.IH Cons.prems(1,2) show ?thesis by simp
  qed
qed simp

lemma code_met_Inr:
  assumes "code_met st chainDigest head v ws source code_of = Inr ()"
  shows "v \<le> head \<and> (\<exists>code. code_of (chainDigest v) (groupKeys st ! (keyVersionAt (ties_of st) v - 1))
      (keyVersionAt (ties_of st) v) = Inr code \<and> joined code = joined ws)"
  using assms by (auto simp: code_met_def Let_def returns split: if_splits)

text \<open>C15. The twelve words a newcomer compared are the words of the chain accepted: of the roster at the
  version compared, under the group key that roster is under.\<close>

theorem join_code_on_chain:
  assumes "accept P input = Inr (body, st)" and "inJoinMark input = Some raw"
  shows "\<exists>mark code. checkJoinMark raw = Inr mark \<and> joinRosterVersion mark \<le> length (chRosterDigests body)
    \<and> (let kv = keyVersionAt (ties_of st) (joinRosterVersion mark) in
         joinCode P (chRosterDigests body ! (joinRosterVersion mark - 1)) (chGroupKeys body ! (kv - 1)) kv = Inr code)
    \<and> joined code = joined (joinWords mark)"
proof -
  from assms(1) obtain given m rosters successions path
    where a: "accepts P input given m rosters successions path st"
    and f: "finish P input given (continued_of given rosters) rosters path st = Inr body" by (auto simp: accept_Inr)
  from a have g: "check_given P input = Inr given" by (auto simp: accepts_def)
  obtain mark where mark: "checkJoinMark raw = Inr mark" "gvJoinMark given = Some mark"
    using g assms(2) by (auto simp: check_given_def returns)
  have v: "1 \<le> joinRosterVersion mark"
    using mark(1) by (auto simp: checkJoinMark_def returns integer_def split: option.splits json.splits if_splits)
  from a mark(2) have "code_met st (chain_digest (gvCached given) (bottom_of (gvCached given) rosters) path)
      (head_of (gvCached given) rosters) (joinRosterVersion mark) (joinWords mark) From_Join (joinCode P) = Inr ()"
    by (auto simp: accepts_def marks_met_def join_mark_met_def returns)
  from code_met_Inr [OF this] body_digests [OF a f] v mark(1) show ?thesis
    by (auto simp: Let_def)
qed

section \<open>The loop and the machine\<close>

text \<open>C16. What acceptance computes is a run of the machine of \<open>Chain\<close>: from the first keys alone, each
  step takes one admissible succession or holds one served roster that links and keeps the rules, and
  the state reached is the one returned, the notes (memo, refusals, rivals waiting) aside.\<close>

theorem accept_is_a_run:
  assumes "accept P input = Inr (body, st)" and "inCache input = None"
  shows "\<exists>start rosters x. byDigest P (inRosters input) parseRoster = Inr rosters
    \<and> groupKeys start = [inFirstKeys input] \<and> held start = [] \<and> verified start = [] \<and> stAreas start = empty_ledger
    \<and> reaches P rosters start x \<and> apart_notes x st"
proof -
  from assms(1) obtain given m rosters successions path
    where a: "accepts P input given m rosters successions path st" by (auto simp: accept_Inr)
  then have "byDigest P (inRosters input) parseRoster = Inr rosters"
    by (auto simp: accepts_def read_served_def returns)
  moreover obtain x where "reaches P rosters (starting input given m rosters successions) x" "apart_notes x st"
    using accepts_run(1) [OF a] by blast
  ultimately show ?thesis using uncached(2) [OF a assms(2)]
    by (intro exI [of _ "starting input given m rosters successions"] exI [of _ rosters] exI [of _ x])
      (simp add: starting_simps ledgerOf_def)
qed


section \<open>The latest roster of an accepted chain\<close>

lemma reaches_version: "reaches P S st x \<Longrightarrow> last_version x + length (held st) = last_version st + length (held x)"
proof (induction rule: rtranclp_induct)
  case (step y z)
  then show ?case by (auto elim!: advances.cases simp: links_version hold_def [of _ _, THEN arg_cong [of _ _ held]])
qed simp

lemma accepted_latest:
  assumes "accept P input = Inr (body, st)"
  shows "chRosterDigests body \<noteq> []" "last (chRosterDigests body) = chRosterDigest body"
    "rosterVersion (chRoster body) = length (chRosterDigests body)" "groupId (chRoster body) = chGroupId body"
    "chGroupId body = inGroupId input" "chGroupKeys body = groupKeys st" "chRoster body = heldRoster (last_of st)"
    "parseRoster (chStatement body) = Inr (chRoster body)"
    "chGroupKeyVersion body = length (chGroupKeys body)" "chGroupKey body = last (chGroupKeys body)"
    "\<exists>c. chCache body = cache_record (chGroupId body) c \<and> cRosterDigests c = chRosterDigests body
       \<and> cStatement c = chStatement body \<and> cGroupKeys c = chGroupKeys body"
proof -
  from assms obtain given m rosters successions path
    where a: "accepts P input given m rosters successions path st"
      and f: "finish P input given (continued_of given rosters) rosters path st = Inr body"
    by (auto simp: accept_Inr)
  define st0 where "st0 = starting input given m rosters successions"
  note d = body_digests [OF a f] and cp = accepts_run(3) [OF a, folded st0_def]
  have g: "check_given P input = Inr given" "chain_path (gvCached given) rosters = Inr path" using a by (auto simp: accepts_def)
  show "\<exists>c. chCache body = cache_record (chGroupId body) c \<and> cRosterDigests c = chRosterDigests body
       \<and> cStatement c = chStatement body \<and> cGroupKeys c = chGroupKeys body"
    using f by (auto simp: finish_def Let_def returns body_of_def cached_of_def)
  have b: "chRoster body = heldRoster (last_of st)" "chRosterDigest body = heldDigest (last_of st)"
    "chGroupId body = gvGroupId given" "chStatement body = heldStatement (last_of st)"
    "chRosterDigests body = (case continued_of given rosters of None \<Rightarrow> [] | Some c \<Rightarrow> cRosterDigests c) @ map servedDigest path"
    using f by (auto simp: finish_def Let_def returns body_of_def cached_of_def)
  have h0: "map heldDigest (held st0) = (case continued_of given rosters of None \<Rightarrow> [] | Some c \<Rightarrow> [last (cRosterDigests c)])"
    "last_version st0 = length (case continued_of given rosters of None \<Rightarrow> [] | Some c \<Rightarrow> cRosterDigests c)"
    "continued_of given rosters \<noteq> None \<Longrightarrow> (case continued_of given rosters of None \<Rightarrow> [] | Some c \<Rightarrow> cRosterDigests c) \<noteq> []"
    using continued_ok [OF g(1)]
    by (auto simp: st0_def starting_simps last_version_def last_held_def cached_ok_def split: option.splits)
  have len: "length (chRosterDigests body) = head_of (gvCached given) rosters" by (rule d(1))
  with chain_path_linked(5) [OF g(2)] show ne: "chRosterDigests body \<noteq> []" by auto
  have hne: "held st \<noteq> []"
    using cp ne h0(1) b(5) by (auto split: option.splits dest: arg_cong [of _ _ length])
  have "heldDigest (last (held st)) = last (map heldDigest (held st))" using hne by (simp add: last_map)
  also have "\<dots> = last (chRosterDigests body)"
    using cp h0(1,3) b(5) ne by (auto simp: last_append split: option.splits)
  finally show "last (chRosterDigests body) = chRosterDigest body" by (simp add: b last_of_def)
  from accepts_run(1) [OF a, folded st0_def] obtain x where x: "reaches P rosters st0 x" "apart_notes x st" by blast
  have "last_version st + length (held st0) = last_version st0 + length (held st)"
    using reaches_version [OF x(1)] notes_last_held [OF x(2)] x(2) by (simp add: apart_notes_def last_version_def)
  moreover have "length (held st) = length (held st0) + length path"
    using arg_cong [OF cp, of length] by simp
  ultimately have "last_version st = length (chRosterDigests body)" using h0(2) b(5) by simp
  moreover have "last_version st = rosterVersion (chRoster body)"
    using hne by (simp add: last_version_def last_held_def b last_of_def)
  ultimately show "rosterVersion (chRoster body) = length (chRosterDigests body)" by simp
  show "chGroupId body = inGroupId input" using given_groupId [OF g(1)] b(3) by simp
  show "chGroupKeys body = groupKeys st" by (rule d(3))
  show "chGroupKeyVersion body = length (chGroupKeys body)" using d(3,4) by simp
  show "chGroupKey body = last (chGroupKeys body)" using f by (auto simp: finish_def Let_def returns body_of_def)
  show "chRoster body = heldRoster (last_of st)" by (rule b(1))
  have "groupId (chRoster body) = chGroupId body \<and> parseRoster (chStatement body) = Inr (chRoster body)"
  proof (cases "length (held st0) \<le> length (held st) - 1")
    case True
    then have "judged P rosters st (length (held st) - 1)"
      using accepts_invariants(3) [OF a] hne by (simp add: rosters_judged_def st0_def)
    from judged_signed [OF a this] show ?thesis
      using hne given_groupId [OF g(1)] by (simp add: Let_def b last_of_def last_conv_nth)
  next
    case False
    moreover have "length (held st0) \<le> 1" by (auto simp: st0_def starting_simps split: option.splits)
    moreover have "0 < length (held st)" using hne by simp
    ultimately have "length (held st0) = 1" "length (held st) = 1" by linarith+
    moreover from this obtain c where c: "continued_of given rosters = Some c"
      by (auto simp: st0_def starting_simps split: option.splits)
    moreover obtain hs where "held st = held st0 @ hs" using accepts_fixed(5) [OF a] by (auto simp: st0_def)
    ultimately have "last_of st = last (held st0)" by (auto simp: last_of_def)
    then show ?thesis using continued_ok [OF g(1) c] c
      by (simp add: b st0_def starting_simps cached_ok_def)
  qed
  then show "groupId (chRoster body) = chGroupId body" "parseRoster (chStatement body) = Inr (chRoster body)" by simp_all
qed

end
