(* ===== verification/Sample_Chain.thy ===== *)
theory Sample_Chain
  imports Marks
begin

text \<open>
  A concrete chain for the witnesses: a family of two holders, the roster that removes the second one
  and rotates the folder, the succession that replaces the group key, and a roster under the new key.
  The primitives give statements digests by their version and other bytes by the first one, and take
  every signature of the right length.
\<close>

section \<open>Primitives\<close>

definition chain_hash :: "bytes \<Rightarrow> bytes" where
  "chain_hash b = replicate 32 (case b of [] \<Rightarrow> 0 | c # _ \<Rightarrow>
     if c \<noteq> 91 then c
     else case parseRoster b of Inr r \<Rightarrow> of_nat (rosterVersion r)
       | Inl _ \<Rightarrow> (case parseGroupSuccession b of Inr s \<Rightarrow> 100 + of_nat (oldVersion s) | Inl _ \<Rightarrow> 0))"

definition chain_words :: "string list" where
  "chain_words = map (\<lambda>n. map (\<lambda>d. char_of (97 + d mod 26)) [n div 676, n div 26, n]) [0..<2048]"

definition chain_primitives :: primitives where
  "chain_primitives = \<lparr> sha256 = chain_hash, hkdf = (\<lambda>key salt info. chain_hash key),
     crypto_sign_verify_detached = (\<lambda>sig msg key. True), ml_dsa65_verify = (\<lambda>sig msg key ctx. True),
     wordlist = chain_words \<rparr>"

section \<open>Keys and signatures\<close>

definition long_key :: "byte \<Rightarrow> string" where
  "long_key n = encode (replicate ML_DSA_PUBLIC_KEY_BYTES n)"

definition chain_key :: "byte \<Rightarrow> group_public_key" where
  "chain_key n = \<lparr> ed25519PublicKey = sample_key n, mlDsaPublicKey = long_key n \<rparr>"

definition chain_mlKeys :: ml_dsa_keys where
  "chain_mlKeys = [(sample_key 3, long_key 3)]"

definition chain_signed :: "bytes \<Rightarrow> signed_statement" where
  "chain_signed stmt = \<lparr> statement = stmt,
     signature = \<lparr> ed25519 = replicate SIGNATURE_BYTES 0, mlDsa = replicate ML_DSA_SIGNATURE_BYTES 0 \<rparr>,
     signerSignature = replicate HYBRID_SIGNATURE_BYTES 0 \<rparr>"

definition chain_copy :: "(crypto_error + bytes) \<Rightarrow> signed_statement" where
  "chain_copy written = chain_signed (case written of Inl _ \<Rightarrow> [] | Inr b \<Rightarrow> b)"

lemma decode_sample [simp]: "decode (sample_key n) (Some 32) = Inr (replicate 32 n)"
  "decode (sample_key n) None = Inr (replicate 32 n)"
  by (simp_all add: sample_key_def decode_Inr)

lemma decode_long [simp]: "decode (long_key n) (Some ML_DSA_PUBLIC_KEY_BYTES) = Inr (replicate ML_DSA_PUBLIC_KEY_BYTES n)"
  "decode (long_key n) None = Inr (replicate ML_DSA_PUBLIC_KEY_BYTES n)"
  by (simp_all add: long_key_def decode_Inr ML_DSA_PUBLIC_KEY_BYTES_def)

lemma long_key_eq [simp]: "long_key m = long_key n \<longleftrightarrow> m = n"
  using encode_inj [of "replicate ML_DSA_PUBLIC_KEY_BYTES m" "replicate ML_DSA_PUBLIC_KEY_BYTES n"]
  by (auto simp: long_key_def ML_DSA_PUBLIC_KEY_BYTES_def)

lemma long_key_ok [simp]: "is_key ML_DSA_PUBLIC_KEY_BYTES (long_key n)"
  by (auto simp: is_key_iff)

lemma chain_digest_key:
  "n \<noteq> 91 \<Longrightarrow> 0 < k \<Longrightarrow> digest chain_primitives (replicate k n @ b) = sample_key n"
  by (cases k) (simp_all add: digest_def chain_primitives_def chain_hash_def sample_key_def)

lemma chain_key_digest [simp]:
  "n \<noteq> 91 \<Longrightarrow> groupKeyDigest chain_primitives (chain_key n) = Inr (sample_key n)"
  by (simp add: groupKeyDigest_def chain_key_def bytesOf_def chain_digest_key)

lemma chain_key_eq [simp]: "chain_key m = chain_key n \<longleftrightarrow> m = n"
  by (auto simp: chain_key_def)

lemma chain_ml_digest [simp]:
  "n \<noteq> 91 \<Longrightarrow> digest chain_primitives (replicate ML_DSA_PUBLIC_KEY_BYTES n) = sample_key n"
  using chain_digest_key [of n ML_DSA_PUBLIC_KEY_BYTES "[]"] by (simp add: ML_DSA_PUBLIC_KEY_BYTES_def)

lemma chain_group_signed [simp]:
  "verifyGroup chain_primitives stmt (signature (chain_copy w)) (chain_key n)"
  by (simp add: verifyGroup_def chain_copy_def chain_signed_def chain_key_def verifyStatement_def mlDsaVerify_def
      SIGNING_PUBLIC_KEY_BYTES_def chain_primitives_def)

lemma chain_member_signed [simp]:
  "rosterEntry authority signer = Some entry \<Longrightarrow> signingPublicKey entry = sample_key n \<Longrightarrow>
     mlDsaPublicKeyDigest entry = sample_key 3 \<Longrightarrow>
     signedByMember chain_primitives authority signer (chain_copy w) chain_mlKeys"
  by (simp add: signedByMember_def chain_mlKeys_def verifyHybrid_def chain_copy_def chain_signed_def
      verifyStatement_def mlDsaVerify_def HYBRID_SIGNATURE_BYTES_def SIGNING_PUBLIC_KEY_BYTES_def)
    (simp add: chain_primitives_def)

section \<open>The statements\<close>

definition first_roster :: roster where
  "first_roster = sample_roster"

definition removal_roster :: roster where
  "removal_roster = sample_removal\<lparr> previousRosterDigest := sample_key 1 \<rparr>"

definition rekeyed_roster :: roster where
  "rekeyed_roster = removal_roster\<lparr> rosterVersion := 3, previousRosterDigest := sample_key 2,
     groupKeyVersion := 2, areas := [] \<rparr>"

definition chain_succession :: group_key_succession where
  "chain_succession = \<lparr> succGroupId = sample_uuid CHR ''f'', oldVersion = 1, newVersion = 2,
     oldEd25519PublicKey = sample_key 61, oldMlDsaPublicKey = long_key 61,
     newEd25519PublicKey = sample_key 62, newMlDsaPublicKey = long_key 62,
     lastRosterVersion = 2, lastRosterDigest = sample_key 2, succSignerUserId = sample_uuid CHR ''a'' \<rparr>"

definition roster_copy :: "roster \<Rightarrow> signed_statement" where
  "roster_copy r = chain_copy (rosterStatement r)"

definition succession_copy :: "group_key_succession \<Rightarrow> signed_statement" where
  "succession_copy s = chain_copy (groupSuccessionStatement s)"

lemma chain_rosters_wf: "roster_wf first_roster" "roster_wf removal_roster" "roster_wf rekeyed_roster"
proof -
  show "roster_wf first_roster" by (simp add: first_roster_def sample_roster_wf)
  have m: "member_wf Family v (sample_member CHR ''b'' \<lparr> status := Left, sinceVersion := 2 \<rparr>)" if "2 \<le> v" for v
    using sample_uuids that by (simp add: member_wf_def sample_member_def is_version_def MAX_SAFE_INTEGER_def roles_of_def)
  show "roster_wf removal_roster" "roster_wf rekeyed_roster"
    using sample_uuids sample_uuid_less m
    by (simp_all add: roster_wf_def removal_roster_def rekeyed_roster_def sample_removal_def sample_roster_def
        sample_member_ok sample_area_ok is_version_def
        MAX_SAFE_INTEGER_def ROSTER_FORMATS_def MAX_ROSTER_MEMBERS_def MAX_ROSTER_AREA_ROWS_def)
      (simp_all add: sample_member_def)
qed

lemma roster_copy_parses:
  assumes "roster_wf r"
  shows "parseRoster (statement (roster_copy r)) = Inr r"
    "digest chain_primitives (statement (roster_copy r)) = sample_key (of_nat (rosterVersion r))"
    "statement (roster_copy r) \<noteq> []"
proof -
  let ?b = "text_encode (stringify (JArr (roster_json r)))"
  from assms roster_statement_exists have s: "rosterStatement r = Inr ?b" by blast
  then have p: "parseRoster ?b = Inr r" by (simp add: roster_codec)
  with s show "parseRoster (statement (roster_copy r)) = Inr r"
    by (simp add: roster_copy_def chain_copy_def chain_signed_def)
  have h: "hd ?b = 91 \<and> ?b \<noteq> []" by (simp add: text_encode_def utf8_def)
  with s show "statement (roster_copy r) \<noteq> []" by (simp add: roster_copy_def chain_copy_def chain_signed_def)
  from h p have "chain_hash ?b = replicate 32 (of_nat (rosterVersion r))"
    by (cases ?b) (auto simp: chain_hash_def)
  with s show "digest chain_primitives (statement (roster_copy r)) = sample_key (of_nat (rosterVersion r))"
    by (simp add: roster_copy_def chain_copy_def chain_signed_def digest_def chain_primitives_def sample_key_def)
qed


lemma chain_succession_fields:
  "lastRosterVersion chain_succession = 2" "succSignerUserId chain_succession = sample_uuid CHR ''a''"
  by (simp_all add: chain_succession_def)

definition succession_json :: "group_key_succession \<Rightarrow> json list" where
  "succession_json s = [JStr SUCCESSION_DOMAIN, JNum 1, JStr (succGroupId s), num (oldVersion s), num (newVersion s),
     JStr (oldEd25519PublicKey s), JStr (oldMlDsaPublicKey s), JStr (newEd25519PublicKey s),
     JStr (newMlDsaPublicKey s), num (lastRosterVersion s), JStr (lastRosterDigest s), JStr (succSignerUserId s)]"

lemma plain_keys: "list_all plain_char (sample_key n)" "list_all plain_char (long_key n)"
  by (rule is_key_plain [OF sample_key_ok], rule is_key_plain [OF long_key_ok])

lemma chain_succession_encodes:
  "encodeStatement (succession_json chain_succession)
     = Inr (text_encode (stringify (JArr (succession_json chain_succession))))"
proof -
  let ?j = "succession_json chain_succession"
  have d: "list_all plain_char SUCCESSION_DOMAIN" "length SUCCESSION_DOMAIN = 27"
    by (simp_all add: SUCCESSION_DOMAIN_def plain_char_def)
  note plain = plain_keys d uuid_plain [OF sample_uuids(1)] uuid_plain [OF sample_uuids(4)]
  have l: "length (sample_key n) = 43" "length (long_key n) = 2603" for n
    by (simp_all add: sample_key_def long_key_def encode_length ML_DSA_PUBLIC_KEY_BYTES_def)
  have g: "grammatical (JArr ?j) 0"
    using plain by (simp add: succession_json_def chain_succession_def isSafeInteger_def MAX_SAFE_INTEGER_def)
  have "length (stringify (JArr ?j)) \<le> MAX_STATEMENT_BYTES"
    using plain by (simp add: succession_json_def chain_succession_def escape_plain l d(2) uuid_length [OF sample_uuids(1)]
        uuid_length [OF sample_uuids(4)] MAX_STATEMENT_BYTES_def decimal.simps)
  then show ?thesis
    using g text_encode_length [OF stringify_ascii [OF grammatical_clean [OF g]]]
    unfolding encodeStatement_Inr by simp
qed

lemma chain_succession_statement:
  "groupSuccessionStatement chain_succession = Inr (text_encode (stringify (JArr (succession_json chain_succession))))"
  using chain_succession_encodes sample_uuids
  by (simp add: groupSuccessionStatement_def succession_statement_def succession_fields_of_def chain_succession_def
      integer_def isSafeInteger_def MAX_SAFE_INTEGER_def uuid_def bytesOf_def digestOf_def succession_json_def)

lemma succession_copy_parses:
  "parseGroupSuccession (statement (succession_copy chain_succession)) = Inr chain_succession"
  "digest chain_primitives (statement (succession_copy chain_succession)) = sample_key 101"
proof -
  let ?b = "text_encode (stringify (JArr (succession_json chain_succession)))"
  note s = chain_succession_statement
  then have p: "parseGroupSuccession ?b = Inr chain_succession" by (simp add: succession_codec)
  with s show "parseGroupSuccession (statement (succession_copy chain_succession)) = Inr chain_succession"
    by (simp add: succession_copy_def chain_copy_def chain_signed_def)
  have "parseRoster ?b \<noteq> Inr r" for r
  proof
    assume "parseRoster ?b = Inr r"
    then have "encodeStatement (roster_json r) = Inr ?b" by (simp add: roster_codec rosterStatement_wf)
    from statement.one_value [OF this chain_succession_encodes] show False
      by (simp add: roster_json_def succession_json_def ROSTER_DOMAIN_def SUCCESSION_DOMAIN_def)
  qed
  moreover have "hd ?b = 91 \<and> ?b \<noteq> []" by (simp add: text_encode_def utf8_def)
  ultimately have "chain_hash ?b = replicate 32 101"
    using p by (cases ?b; cases "parseRoster ?b") (auto simp: chain_hash_def chain_succession_def)
  with s show "digest chain_primitives (statement (succession_copy chain_succession)) = sample_key 101"
    by (simp add: succession_copy_def chain_copy_def chain_signed_def digest_def chain_primitives_def sample_key_def)
qed


section \<open>Read and linked\<close>

definition served_copy :: "'a \<Rightarrow> byte \<Rightarrow> signed_statement \<Rightarrow> 'a served" where
  "served_copy x d copy = \<lparr> servedValue = x, servedStatement = statement copy, servedDigest = sample_key d, copies = [copy] \<rparr>"

definition chain_served :: "roster served list" where
  "chain_served = [served_copy first_roster 1 (roster_copy first_roster),
     served_copy removal_roster 2 (roster_copy removal_roster),
     served_copy rekeyed_roster 3 (roster_copy rekeyed_roster)]"

definition chain_succession_served :: "group_key_succession served" where
  "chain_succession_served = served_copy chain_succession 101 (succession_copy chain_succession)"

lemma roster_fields [simp]:
  "rosterVersion first_roster = 1" "rosterVersion removal_roster = 2" "rosterVersion rekeyed_roster = 3"
  "groupKeyVersion first_roster = 1" "groupKeyVersion removal_roster = 1" "groupKeyVersion rekeyed_roster = 2"
  "previousRosterDigest removal_roster = sample_key 1" "previousRosterDigest rekeyed_roster = sample_key 2"
  "kind first_roster = Family" "kind removal_roster = Family" "kind rekeyed_roster = Family"
  "groupId first_roster = sample_uuid CHR ''f''" "groupId removal_roster = sample_uuid CHR ''f''"
  "groupId rekeyed_roster = sample_uuid CHR ''f''"
  "signerUserId first_roster = sample_uuid CHR ''a''" "signerUserId removal_roster = sample_uuid CHR ''a''"
  "signerUserId rekeyed_roster = sample_uuid CHR ''a''"
  by (simp_all add: first_roster_def removal_roster_def rekeyed_roster_def sample_removal_def sample_roster_def)

lemma chain_rosters_read:
  "byDigest chain_primitives (map roster_copy [first_roster, removal_roster, rekeyed_roster]) parseRoster
     = Inr chain_served"
  using chain_rosters_wf
  by (simp add: byDigest_def roster_copy_parses chain_served_def served_copy_def)

lemma chain_successions_read:
  "byDigest chain_primitives [succession_copy chain_succession] parseGroupSuccession = Inr [chain_succession_served]"
  by (simp add: byDigest_def succession_copy_parses chain_succession_served_def served_copy_def)

lemma served_copy_simps [simp]:
  "servedValue (served_copy x d copy) = x" "servedStatement (served_copy x d copy) = statement copy"
  "servedDigest (served_copy x d copy) = sample_key d" "copies (served_copy x d copy) = [copy]"
  by (simp_all add: served_copy_def)

lemma chain_linked: "head_of None chain_served = 3" "bottom_of None chain_served = 0"
  "chain_path None chain_served = Inr chain_served"
proof -
  show h: "head_of None chain_served = 3" "bottom_of None chain_served = 0"
    by (simp_all add: head_of_def bottom_of_def chain_served_def)
  show "chain_path None chain_served = Inr chain_served"
    unfolding chain_path_def Let_def h
    by (simp add: chain_served_def link_path.simps)
qed

section \<open>Verified\<close>

definition held_of :: "roster \<Rightarrow> byte \<Rightarrow> bool \<Rightarrow> held_roster" where
  "held_of r d dropped = \<lparr> heldRoster = r, heldStatement = statement (roster_copy r), heldDigest = sample_key d,
     droppedHolder = dropped \<rparr>"

definition chain_start :: "(nat \<times> mark_side) list \<Rightarrow> state" where
  "chain_start km = \<lparr> stGroupId = sample_uuid CHR ''f'', mlDsaKeys = chain_mlKeys, groupKeys = [chain_key 61],
     verified = [], held = [], candidates = [(1, [chain_succession_served])], keyMarks = km, refused = [],
     waiting = [], signatures = [], stAreas = empty_ledger \<rparr>"

definition chain_replaced :: "(nat \<times> mark_side) list \<Rightarrow> bool" where
  "chain_replaced km \<longleftrightarrow> (case map_of km 2 of None \<Rightarrow> True | Some m \<Rightarrow> sideDigest m = sample_key 62)"

lemma no_more_keys:
  "candidates_at st (length (groupKeys st)) = [] \<Longrightarrow>
     establishAll P st = Inr (st\<lparr> refused := AList.update (length (groupKeys st)) NO_SUCCESSION (refused st) \<rparr>)"
  by (simp add: establishAll.simps establishNext_def nextSuccession_def Let_def successions_from_def
      choose_succession_def chosen_of_def split: option.splits)

lemma chain_not_tied:
  assumes "groupKeys st = [chain_key 61]" "candidates st = [(1, [chain_succession_served])]"
    "stGroupId st = sample_uuid CHR ''f''" "find (\<lambda>at. rosterVersion (heldRoster at) = 2) (held st) = None"
  shows "establishAll chain_primitives st = Inr (st\<lparr> refused := AList.update 1 NOT_TIED (refused st) \<rparr>)"
proof -
  have "admissibleSuccession chain_primitives st chain_succession_served 1 = (Inl NOT_TIED, st)"
    using assms by (simp add: admissibleSuccession_def chain_succession_served_def chain_succession_def
        sameGroupKey_def old_key_of_def new_key_of_def chain_key_def)
  with assms show ?thesis
    by (simp add: establishAll.simps establishNext_def nextSuccession_def Let_def successions_from_def candidates_at_def
      choose_succession_def chosen_of_def split: option.splits)
qed


definition chain_held :: "held_roster list" where
  "chain_held = [held_of first_roster 1 False, held_of removal_roster 2 True, held_of rekeyed_roster 3 False]"

definition chain_verified :: "(nat \<times> verified_succession) list" where
  "chain_verified = [(1, \<lparr> lastRosterVersionOf = 2, verifiedDigest = sample_key 101,
     verifiedSigner = sample_uuid CHR ''a'' \<rparr>)]"

definition chain_ledger :: area_ledger where
  "chain_ledger = foldAreas (foldAreas empty_ledger first_roster) removal_roster"

definition chain_end :: "(nat \<times> mark_side) list \<Rightarrow> state" where
  "chain_end km = (chain_start km)\<lparr> groupKeys := [chain_key 61, chain_key 62], verified := chain_verified,
     held := chain_held, refused := [(1, NOT_TIED), (2, NO_SUCCESSION)], signatures := [(sample_key 101, Held)],
     stAreas := chain_ledger \<rparr>"

lemma chain_entries [simp]:
  "members first_roster = [sample_member CHR ''a'', sample_member CHR ''b'']"
  "members removal_roster = [sample_member CHR ''a'', (sample_member CHR ''b'')\<lparr> status := Left, sinceVersion := 2 \<rparr>]"
  "members rekeyed_roster = members removal_roster"
  by (simp_all add: first_roster_def removal_roster_def rekeyed_roster_def sample_removal_def sample_roster_def)

lemma chain_member [simp]:
  "userId (sample_member c) = sample_uuid c" "status (sample_member c) = Active" "roles (sample_member c) = [Members]"
  "signingPublicKey (sample_member c) = sample_key 2" "mlDsaPublicKeyDigest (sample_member c) = sample_key 3"
  "sinceVersion (sample_member c) = 1"
  by (simp_all add: sample_member_def)

lemma chain_uuid_neq [simp]: "sample_uuid CHR ''a'' \<noteq> sample_uuid CHR ''b''" "sample_uuid CHR ''b'' \<noteq> sample_uuid CHR ''a''"
  using sample_uuid_less by auto

lemma chain_entry [simp]:
  "rosterEntry first_roster (sample_uuid CHR ''a'') = Some (sample_member CHR ''a'')"
  "rosterEntry first_roster (sample_uuid CHR ''b'') = Some (sample_member CHR ''b'')"
  "rosterEntry removal_roster (sample_uuid CHR ''a'') = Some (sample_member CHR ''a'')"
  "rosterEntry removal_roster (sample_uuid CHR ''b'')
     = Some ((sample_member CHR ''b'')\<lparr> status := Left, sinceVersion := 2 \<rparr>)"
  "rosterEntry rekeyed_roster = rosterEntry removal_roster"
  by (simp_all add: rosterEntry_def fun_eq_iff)

lemma chain_drops [simp]: "dropsHolder first_roster removal_roster" "\<not> dropsHolder removal_roster rekeyed_roster"
  by (simp_all add: dropsHolder_def activeWith_def)

lemma chain_areas:
  "checkAreas empty_ledger None first_roster = Inr ()"
  "checkAreas (foldAreas empty_ledger first_roster) (Some first_roster) removal_roster = Inr ()"
  "checkAreas chain_ledger (Some removal_roster) rekeyed_roster = Inr ()"
  "foldAreas chain_ledger rekeyed_roster = chain_ledger"
  by (simp_all add: checkAreas_def first_roster_def removal_roster_def rekeyed_roster_def sample_roster_def sample_removal_def
      sample_area_def empty_ledger_def live_after_def foldAreas_def fold_row_def chain_ledger_def
      versions_of_def set_add_def MAX_FAMILY_AREAS_def leaves_def admits_def dropsHolder_def
      rosterEntry_def activeWith_def refuse_if_def)

lemma chain_follows:
  "checkEntries first_roster removal_roster = Inr ()" "checkEntries removal_roster rekeyed_roster = Inr ()"
  by (simp_all add: checkEntries_def since_after_def sameEntry_def sameKeys_def)

lemma chain_roster_signed:
  "groupKeys st ! (groupKeyVersion r - 1) = chain_key n \<Longrightarrow> rosterEntry authority (signerUserId r) = Some (sample_member c) \<Longrightarrow>
     mlDsaKeys st = chain_mlKeys \<Longrightarrow> roster_signed chain_primitives st r stmt (Some [roster_copy q]) authority = Inr ()"
  by (simp add: roster_signed_def roster_copy_def)

lemma chain_rules_first:
  "rosterRules chain_primitives ((chain_start km)\<lparr> refused := rf \<rparr>) first_roster stmt (Some [roster_copy first_roster]) None
     = Inr ()"
  using chain_areas(1)
  by (simp add: rosterRules_def chain_start_def refused_by_def chain_roster_signed [where n = 61] activeWith_def)

lemma chain_rules_removal:
  "groupKeys st = [chain_key 61] \<Longrightarrow> verified st = [] \<Longrightarrow> mlDsaKeys st = chain_mlKeys \<Longrightarrow>
     stAreas st = foldAreas empty_ledger first_roster \<Longrightarrow>
     rosterRules chain_primitives st removal_roster stmt (Some [roster_copy removal_roster])
       (Some (held_of first_roster 1 False)) = Inr ()"
  using chain_areas(2) chain_follows(1)
  by (simp add: rosterRules_def held_of_def refused_by_def chain_roster_signed [where n = 61] activeWith_def)

lemma chain_rules_rekeyed:
  "groupKeys st = [chain_key 61, chain_key 62] \<Longrightarrow> verified st = chain_verified \<Longrightarrow> mlDsaKeys st = chain_mlKeys \<Longrightarrow>
     stAreas st = chain_ledger \<Longrightarrow>
     rosterRules chain_primitives st rekeyed_roster stmt (Some [roster_copy rekeyed_roster])
       (Some (held_of removal_roster 2 True)) = Inr ()"
  using chain_areas(3) chain_follows(2)
  by (simp add: rosterRules_def held_of_def refused_by_def chain_roster_signed [where n = 62] activeWith_def chain_verified_def)

lemma chain_takes_key:
  assumes "groupKeys st = [chain_key 61]" "candidates st = [(1, [chain_succession_served])]"
    "stGroupId st = sample_uuid CHR ''f''" "held st = [held_of first_roster 1 False, held_of removal_roster 2 True]"
    "verified st = []" "signatures st = []" "mlDsaKeys st = chain_mlKeys" "chain_replaced (keyMarks st)"
    "refused st = [(1, NOT_TIED)]"
  shows "establishAll chain_primitives st = Inr (st\<lparr> groupKeys := [chain_key 61, chain_key 62],
     verified := chain_verified, signatures := [(sample_key 101, Held)],
     refused := [(1, NOT_TIED), (2, NO_SUCCESSION)] \<rparr>)"
proof -
  let ?st = "st\<lparr> signatures := [(sample_key 101, Held)] \<rparr>"
  have s: "verifyGroup chain_primitives (statement (succession_copy chain_succession))
      (signature (succession_copy chain_succession)) (chain_key 61)"
    by (simp add: succession_copy_def)
  have m: "signedByMember chain_primitives removal_roster (sample_uuid CHR ''a'') (succession_copy chain_succession) chain_mlKeys"
    by (simp add: succession_copy_def)
  have "admissibleSuccession chain_primitives st chain_succession_served 1 = (Inr chain_succession, ?st)"
    using assms(1-7) s m by (simp add: admissibleSuccession_def chain_succession_served_def
        sameGroupKey_def old_key_of_def new_key_of_def chain_key_def held_of_def activeWith_def)
      (simp add: chain_succession_def)
  moreover have k: "new_key_of chain_succession = chain_key 62"
    by (simp add: new_key_of_def chain_succession_def chain_key_def)
  ultimately have n: "establishNext chain_primitives st
      = Inr (True, ?st\<lparr> verified := chain_verified, groupKeys := [chain_key 61, chain_key 62] \<rparr>)"
    using assms(1-7) assms(8) [unfolded chain_replaced_def numeral_2_eq_2]
    by (auto simp: establishNext_def nextSuccession_def Let_def successions_from_def candidates_at_def
      choose_succession_def chosen_of_def chain_verified_def chain_succession_served_def
      chain_succession_fields split: option.splits)
  show ?thesis
    by (subst establishAll.simps) (simp add: n no_more_keys candidates_at_def assms)
qed


lemma hold_copy:
  "hold st (served_copy r d (roster_copy r)) = st\<lparr> stAreas := foldAreas (stAreas st) r,
     held := held st @ [held_of r d (case last_held st of None \<Rightarrow> False
       | Some previous \<Rightarrow> dropsHolder (heldRoster previous) r)] \<rparr>"
  by (simp add: hold_def held_of_def split: option.splits)

lemma chain_start_update:
  "AList.update 1 NOT_TIED [(1::nat, NOT_TIED)] = [(1, NOT_TIED)]" "AList.update 2 NO_SUCCESSION [(1, NOT_TIED), (2::nat, NO_SUCCESSION)]
     = [(1, NOT_TIED), (2, NO_SUCCESSION)]"
  by simp_all

lemma chain_verifies:
  assumes "chain_replaced km"
  shows "verify_chain chain_primitives (chain_start km) chain_served = Inr (chain_end km)"
proof -
  let ?P = chain_primitives
  let ?s0 = "(chain_start km)\<lparr> refused := [(1, NOT_TIED)] \<rparr>"
  let ?h1 = "held_of first_roster 1 False" and ?h2 = "held_of removal_roster 2 True"
  let ?s1 = "?s0\<lparr> stAreas := foldAreas empty_ledger first_roster, held := [?h1] \<rparr>"
  let ?s2 = "?s0\<lparr> stAreas := chain_ledger, held := [?h1, ?h2] \<rparr>"
  let ?s3 = "?s2\<lparr> groupKeys := [chain_key 61, chain_key 62], verified := chain_verified,
     signatures := [(sample_key 101, Held)], refused := [(1, NOT_TIED), (2, NO_SUCCESSION)] \<rparr>"
  let ?s4 = "?s3\<lparr> held := chain_held \<rparr>"
  let ?c1 = "served_copy first_roster 1 (roster_copy first_roster)"
    and ?c2 = "served_copy removal_roster 2 (roster_copy removal_roster)"
    and ?c3 = "served_copy rekeyed_roster 3 (roster_copy rekeyed_roster)"
  have e0: "establishAll ?P (chain_start km) = Inr ?s0" by (subst chain_not_tied) (simp_all add: chain_start_def)
  have h: "hold ?s0 ?c1 = ?s1" "hold ?s1 ?c2 = ?s2" "hold ?s3 ?c3 = ?s4"
    by (simp_all add: hold_copy last_held_def chain_start_def chain_ledger_def held_of_def chain_held_def
        chain_areas(4) [unfolded chain_ledger_def])
  have e1: "establishAll ?P ?s1 = Inr ?s1" by (subst chain_not_tied) (simp_all add: chain_start_def held_of_def)
  have e2: "establishAll ?P ?s2 = Inr ?s3"
    by (subst chain_takes_key) (simp_all add: chain_start_def assms)
  have e3: "establishAll ?P ?s4 = Inr ?s4"
    by (subst no_more_keys) (simp_all add: chain_start_def candidates_at_def)
  have r1: "rosterRules ?P ?s0 first_roster stmt (Some [roster_copy first_roster]) (last_held ?s0) = Inr ()" for stmt
    using chain_rules_first by (simp add: last_held_def chain_start_def)
  have r2: "rosterRules ?P ?s1 removal_roster stmt (Some [roster_copy removal_roster]) (last_held ?s1) = Inr ()" for stmt
    by (simp add: last_held_def) (rule chain_rules_removal; simp add: chain_start_def)
  have r3: "rosterRules ?P ?s3 rekeyed_roster stmt (Some [roster_copy rekeyed_roster]) (last_held ?s3) = Inr ()" for stmt
    by (simp add: last_held_def) (rule chain_rules_rekeyed; simp add: chain_start_def)
  have "pass ?P ?s0 chain_served = Inr ?s4"
    unfolding chain_served_def pass.simps served_copy_simps r1 h e1 r2 e2 r3 e3 bindE_simps refused_by_def sum.case ..
  then show ?thesis
    unfolding verify_chain_def e0 by (simp add: refused_by_def chain_end_def)
qed

lemma chain_starts:
  "start_state (sample_uuid CHR ''f'') chain_mlKeys cached False (chain_key 61) m [chain_succession_served]
     = chain_start (map (\<lambda>(version, all). (version, hd (sides all))) m)"
  by (simp add: start_state_def stateOf_def ledgerOf_def chain_start_def add_candidate_def chain_succession_served_def)
    (simp add: chain_succession_def)

section \<open>Accepted\<close>

definition chain_input :: "anchor option \<Rightarrow> raw_group_pin option list \<Rightarrow> raw_mark option \<Rightarrow> raw_cache option \<Rightarrow> accept_input" where
  "chain_input vouching pins joinMark cache =
     \<lparr> inGroupId = sample_uuid CHR ''f'', inFirstKeys = chain_key 61, inPins = pins,
       inRosters = map roster_copy [first_roster, removal_roster, rekeyed_roster],
       inSuccessions = [succession_copy chain_succession], inMlDsaKeys = chain_mlKeys,
       inJoinMark = joinMark, inPairMarks = [], inAnchor = vouching, inMe = None, inCache = cache, inServer = False \<rparr>"

lemma chain_accepted:
  fixes input :: accept_input
  assumes "input = chain_input vouching pins joinMark cache"
    and "check_given chain_primitives input = Inr given" "gvGroupId given = sample_uuid CHR ''f''" "gvPairMarks given = []"
    and "gvCached given = None \<or> (\<exists>c. gvCached given = Some c \<and> cRosterDigests c \<noteq> [])"
    and "own_marks_of chain_primitives given = Inr m" "marks_agree m = Inr ()"
    and "first_keys_vouched chain_primitives m vouching [] (chain_key 61) = Inr ()"
    and "chain_replaced (map (\<lambda>(version, all). (version, hd (sides all))) (keyMarkSides m))"
    and "let st = chain_end (map (\<lambda>(version, all). (version, hd (sides all))) (keyMarkSides m)) in
      marks_met chain_primitives input given m 3 (chain_digest (gvCached given) 0 chain_served) st = Inr ()"
  shows "\<exists>body. accept chain_primitives input
    = Inr (body, chain_end (map (\<lambda>(version, all). (version, hd (sides all))) (keyMarkSides m)))"
proof -
  let ?st = "chain_end (map (\<lambda>(version, all). (version, hd (sides all))) (keyMarkSides m))"
  have x: "extends_cache (gvCached given) chain_served = False"
    using assms(5) by (auto simp: extends_cache_def chain_served_def neq_Nil_conv)
  then have cf: "continued_of given chain_served = None" by (simp add: continued_of_def)
  have b: "bottom_of (gvCached given) chain_served = 0" "head_of (gvCached given) chain_served = 3"
    using x by (auto simp: bottom_of_def head_of_def chain_served_def split: option.splits)
  have p: "chain_path (gvCached given) chain_served = Inr chain_served"
    using chain_linked x by (auto simp: chain_path_def Let_def b bindE_Inr split: option.splits)
  have read: "read_served chain_primitives input given m = Inr (chain_served, [chain_succession_served])"
    using assms(1,3,4,8) chain_rosters_read chain_successions_read
    by (simp add: read_served_def chain_input_def) (simp add: chain_served_def)
  have st: "starting input given m chain_served [chain_succession_served]
      = chain_start (map (\<lambda>(version, all). (version, hd (sides all))) (keyMarkSides m))"
    using assms(1,3) x by (simp add: starting_def chain_input_def chain_starts)
  have "accepts chain_primitives input given m chain_served [chain_succession_served] chain_served ?st"
    unfolding accepts_def b st using assms(2,6,7,10) read p chain_verifies [OF assms(9)] by (simp add: Let_def)
  moreover have "\<exists>body. finish chain_primitives input given (continued_of given chain_served) chain_served chain_served ?st
      = Inr body"
    by (simp add: finish_def Let_def chain_end_def)
  ultimately show ?thesis unfolding accept_Inr by blast
qed


subsection \<open>By the join code, with no pin and no cache\<close>

definition chain_code :: "string list" where
  "chain_code = (case joinCode chain_primitives (sample_key 2) (chain_key 61) 1 of Inl _ \<Rightarrow> [] | Inr ws \<Rightarrow> ws)"

definition chain_join :: raw_mark where
  "chain_join = \<lparr> rmRosterVersion = num 2, rmWith = None, rmCode = JArr (map JStr chain_code) \<rparr>"

lemma hex_unspaced: "filter (\<lambda>c. c \<noteq> CHR '' '') (hex_of bs) = hex_of bs"
proof -
  have "c \<noteq> CHR '' ''" if "c \<in> set (hex_of bs)" for c
    using that hex_of_chars [of bs] by (auto simp: list_all_iff hex_char_def)
  then show ?thesis by (simp add: filter_id_conv)
qed

lemma chain_words_length: "length chain_words = 2048"
  by (simp add: chain_words_def)

lemma chain_code_words: "length b \<noteq> 0 \<Longrightarrow>
    \<exists>ws. code_words chain_primitives b = Inr ws \<and> length ws = 12 \<and> set ws \<subseteq> set chain_words"
  using words_loop_set [OF chain_words_length, of 12 _ "[]"]
  by (simp add: code_words_def fingerprintWords_Inr Let_def hex_unspaced words_loop_length)
    (simp add: chain_primitives_def chain_hash_def)

lemma chain_joinCode:
  "joinCode chain_primitives (sample_key 2) (chain_key 61) 1 = Inr chain_code"
  "length chain_code = 12" "set chain_code \<subseteq> set chain_words"
proof -
  have d: "digestOf (JStr (sample_key n)) what = Inr (sample_key n)" for n what by (simp add: digestOf_def bytesOf_def)
  have "\<exists>ws. joinCode chain_primitives (sample_key 2) (chain_key 61) 1 = Inr ws \<and> length ws = 12 \<and> set ws \<subseteq> set chain_words"
    using chain_code_words [of "text_encode JOIN_CODE_DOMAIN @ replicate 32 2 @ replicate 32 61 @ uint64 1"]
    by (simp add: joinCode_def d integer_def isSafeInteger_def MAX_SAFE_INTEGER_def)
  then show "joinCode chain_primitives (sample_key 2) (chain_key 61) 1 = Inr chain_code"
    "length chain_code = 12" "set chain_code \<subseteq> set chain_words"
    by (auto simp: chain_code_def)
qed

lemma chain_join_checked: "checkJoinMark chain_join = Inr \<lparr> joinRosterVersion = 2, joinWords = chain_code \<rparr>"
proof -
  have w: "3 \<le> length w \<and> length w \<le> 8 \<and> list_all (\<lambda>c. CHR ''a'' \<le> c \<and> c \<le> CHR ''z'') w" if "w \<in> set chain_words" for w
  proof -
    have "CHR ''a'' \<le> char_of (97 + d mod 26) \<and> char_of (97 + d mod 26) \<le> CHR ''z''" for d :: nat
      by (simp add: less_eq_char_def)
    moreover from that obtain n where "w = map (\<lambda>d. char_of (97 + d mod 26)) [n div 676, n div 26, n :: nat]"
      unfolding chain_words_def set_map by blast
    ultimately show ?thesis by simp
  qed
  have "twelve_words (JArr (map JStr chain_code)) = Some chain_code"
    using chain_joinCode(2,3) w by (auto simp: twelve_words_def list_all_iff comp_def)
  then show ?thesis
    by (simp add: checkJoinMark_def chain_join_def integer_def isSafeInteger_def MAX_SAFE_INTEGER_def)
qed

definition joined_input :: accept_input where
  "joined_input = chain_input (Some Joined) [] (Some chain_join) None"

lemma chain_joined: "\<exists>body. accept chain_primitives joined_input = Inr (body, chain_end [])"
proof -
  let ?m = "\<lparr> rosterMarks = [], keyMarkSides = [], firstMarks = [] \<rparr>"
  let ?g = "\<lparr> gvGroupId = sample_uuid CHR ''f'', gvPins = [], gvCached = None,
    gvJoinMark = Some \<lparr> joinRosterVersion = 2, joinWords = chain_code \<rparr>, gvPairMarks = [] \<rparr>"
  have "ties_of (chain_end []) = [2]" by (simp add: ties_of_def chain_end_def chain_verified_def)
  then have "code_met (chain_end []) (chain_digest None 0 chain_served) 3 2 chain_code From_Join (joinCode chain_primitives) = Inr ()"
    using chain_joinCode(1)
    by (simp add: code_met_def keyVersionAt_def chain_digest_def chain_served_def refused_by_def)
      (simp add: chain_end_def)
  then have "marks_met chain_primitives joined_input ?g ?m 3 (chain_digest None 0 chain_served) (chain_end []) = Inr ()"
    by (simp add: marks_met_def roster_marks_met_def versions_in_def join_mark_met_def pair_marks_met_def first_use_met_def
        first_use_def key_marks_met_def joined_input_def chain_input_def) (simp add: chain_end_def chain_start_def)
  moreover have "check_given chain_primitives joined_input = Inr ?g"
    using sample_uuids by (simp add: check_given_def joined_input_def chain_input_def chain_join_checked uuid_def)
  ultimately show ?thesis
    using chain_accepted [OF joined_input_def, of ?g ?m]
    by (simp add: own_marks_of_def cache_marks_def marks_agree_def conflict_def sides_def versions_in_def
        first_keys_vouched_def chain_replaced_def)
qed


subsection \<open>By a pin\<close>

definition chain_pin :: raw_group_pin where
  "chain_pin = \<lparr> raw_firstEd25519PublicKey = JStr (sample_key 61), raw_firstMlDsaPublicKeyDigest = JStr (sample_key 61),
     raw_checkedAt = JStr ''2025-01-01T00:00:00.000Z'', raw_keyVersion = num 2, raw_groupKeyDigest = JStr (sample_key 62),
     raw_rosterVersion = num 2, raw_rosterDigest = JStr (sample_key 2), raw_areas = Some [] \<rparr>"

definition pinned_input :: accept_input where
  "pinned_input = chain_input None [Some chain_pin] None None"

lemma conflict_one [simp]: "conflict ofw v [s] = Inr ()"
  by (simp add: conflict_def sides_def)

lemma conflict_same: "sideDigest a = sideDigest b \<Longrightarrow> conflict ofw v [a, b] = Inr ()"
  by (simp add: conflict_def sides_def)

definition pinned_marks :: own_marks where
  "pinned_marks = \<lparr> rosterMarks = [(2, [side_of (sample_key 2) From_Pin None])],
     keyMarkSides = [(2, [side_of (sample_key 62) From_Pin None])],
     firstMarks = [side_of (sample_key 61) From_Pin None] \<rparr>"

lemma chain_firstKeysMark: "firstKeysMark chain_primitives (sample_key 61) (Some (sample_key 61)) = sample_key 61"
  by (simp add: firstKeysMark_def chain_digest_key)

lemma chain_mlDsaDigest: "mlDsaDigest chain_primitives (mlDsaPublicKey (chain_key 61)) = Some (sample_key 61)"
  by (simp add: mlDsaDigest_def chain_key_def)

lemma chain_pinned: "\<exists>body. accept chain_primitives pinned_input
    = Inr (body, chain_end [(2, side_of (sample_key 62) From_Pin None)])"
proof -
  let ?pin = "\<lparr> firstEd25519PublicKey = sample_key 61, firstMlDsaPublicKeyDigest = sample_key 61,
     checkedAt = ''2025-01-01T00:00:00.000Z'', pinKeyVersion = 2, pinGroupKeyDigest = sample_key 62,
     pinRosterVersion = 2, pinRosterDigest = sample_key 2, pinAreas = [] \<rparr>"
  let ?g = "\<lparr> gvGroupId = sample_uuid CHR ''f'', gvPins = [?pin], gvCached = None,
    gvJoinMark = None, gvPairMarks = [] \<rparr>"
  have "checkGroupPin (sample_uuid CHR ''f'') (Some chain_pin) = Inr ?pin"
    using sample_uuids by (simp add: checkGroupPin_def chain_pin_def checkTime_def check_time_def digits_between_def
        is_digit_def bytesOf_def digestOf_def integer_def isSafeInteger_def MAX_SAFE_INTEGER_def uuid_def nth_append)
  then have g: "check_given chain_primitives pinned_input = Inr ?g"
    using sample_uuids by (simp add: check_given_def pinned_input_def chain_input_def uuid_def)
  have m: "own_marks_of chain_primitives ?g = Inr pinned_marks"
    by (simp add: own_marks_of_def cache_marks_def pin_marks_def add_mark_def pinned_marks_def chain_firstKeysMark)
  have "marks_met chain_primitives pinned_input ?g pinned_marks 3 (chain_digest None 0 chain_served)
      (chain_end [(2, side_of (sample_key 62) From_Pin None)]) = Inr ()"
    by (simp add: marks_met_def roster_marks_met_def versions_in_def join_mark_met_def pair_marks_met_def first_use_met_def
        first_use_def key_marks_met_def pinned_input_def chain_input_def pinned_marks_def chain_digest_def chain_served_def
        conflict_same name_signer_def side_of_def chain_end_def chain_start_def refused_by_def)
  then show ?thesis
    using chain_accepted [OF pinned_input_def g _ _ _ m]
    by (simp add: marks_agree_def versions_in_def pinned_marks_def sides_def
        first_keys_vouched_def chain_replaced_def chain_mlDsaDigest)
      (simp add: side_of_def chain_key_def chain_firstKeysMark)
qed


subsection \<open>By a cache, verified again from version 1\<close>

definition chain_cached :: cached where
  "chain_cached = \<lparr> cRosterDigests = [sample_key 1], cStatement = statement (roster_copy first_roster),
     cRoster = first_roster, cDroppedHolder = False, cGroupKeys = [chain_key 61], cSuccessions = [],
     cCreatorUserId = sample_uuid CHR ''a'', cKeyHistory = [],
     cAreaKeys = [(sample_uuid CHR ''e'', [sample_key 11])], cAreaRoots = [(sample_uuid CHR ''e'', [Some (sample_key 10)])],
     cRetiredAreas = [], cOwnEntryWrongAt = [] \<rparr>"

definition chain_cache :: raw_cache where
  "chain_cache = cache_record (sample_uuid CHR ''f'') chain_cached"

definition cached_input :: accept_input where
  "cached_input = chain_input None [] None (Some chain_cache)"

definition cached_marks :: own_marks where
  "cached_marks = \<lparr> rosterMarks = [(1, [side_of (sample_key 1) From_Cache (Some (sample_uuid CHR ''a''))])],
     keyMarkSides = [(1, [side_of (sample_key 61) From_Cache None])],
     firstMarks = [side_of (sample_key 61) From_Cache (Some (sample_uuid CHR ''a''))] \<rparr>"

lemma chain_cache_checked:
  "checkCache chain_primitives (sample_uuid CHR ''f'') (Some chain_cache) False = Inr chain_cached"
proof -
  note r = roster_copy_parses [OF chain_rosters_wf(1)]
  from r(3) have d: "decode (encode (statement (roster_copy first_roster))) None = Inr (statement (roster_copy first_roster))"
    by (simp add: decode_Inr)
  have a: "areas first_roster = [sample_area 1 10]" by (simp add: first_roster_def sample_roster_def)
  have "check_cache_parts chain_primitives (sample_uuid CHR ''f'') chain_cache = Inr chain_cached"
    using r d sample_uuids
    by (simp add: check_cache_parts_def chain_cache_def cache_record_def chain_cached_def bad_if_def digestOf_def bytesOf_def
        rosterDigest_def check_cached_key_def chain_key_def uuid_def integer_def isSafeInteger_def MAX_SAFE_INTEGER_def
        CACHE_VERSION_def check_cached_area_def check_cached_roots_def ascending_def a row_agrees_def sample_area_def)
  then show ?thesis
    by (simp add: checkCache_def bad_if_def) (simp add: chain_cache_def cache_record_def)
qed

lemma chain_continued: "\<exists>body. accept chain_primitives cached_input
    = Inr (body, chain_end [(1, side_of (sample_key 61) From_Cache None)])"
proof -
  let ?g = "\<lparr> gvGroupId = sample_uuid CHR ''f'', gvPins = [], gvCached = Some chain_cached,
    gvJoinMark = None, gvPairMarks = [] \<rparr>"
  have g: "check_given chain_primitives cached_input = Inr ?g"
    using sample_uuids by (simp add: check_given_def cached_input_def chain_input_def uuid_def chain_cache_checked)
  have m: "own_marks_of chain_primitives ?g = Inr cached_marks"
    by (simp add: own_marks_of_def cache_marks_def chain_cached_def add_mark_def cached_marks_def chain_mlDsaDigest)
      (simp add: chain_key_def chain_firstKeysMark)
  have "marks_met chain_primitives cached_input ?g cached_marks 3 (chain_digest (Some chain_cached) 0 chain_served)
      (chain_end [(1, side_of (sample_key 61) From_Cache None)]) = Inr ()"
    by (simp add: marks_met_def roster_marks_met_def versions_in_def join_mark_met_def pair_marks_met_def first_use_met_def
        first_use_def key_marks_met_def cached_input_def chain_input_def cached_marks_def chain_digest_def chain_served_def
        conflict_same name_signer_def side_of_def chain_end_def chain_start_def refused_by_def)
  then show ?thesis
    using chain_accepted [OF cached_input_def g _ _ _ m]
    by (simp add: marks_agree_def versions_in_def cached_marks_def sides_def
        first_keys_vouched_def chain_replaced_def chain_mlDsaDigest)
      (simp add: side_of_def chain_key_def chain_firstKeysMark chain_cached_def)
qed


section \<open>The witnesses\<close>

lemma chain_end_held: "held (chain_end km) = [held_of first_roster 1 False, held_of removal_roster 2 True, held_of rekeyed_roster 3 False]"
  "groupKeys (chain_end km) = [chain_key 61, chain_key 62]"
  by (simp_all add: chain_end_def chain_held_def)

lemma joined_fields: "inCache joined_input = None" "inPins joined_input = []" "inJoinMark joined_input = Some chain_join"
  "inGroupId joined_input = sample_uuid CHR ''f''"
  by (simp_all add: joined_input_def chain_input_def)

theorem accepted_rosters_signed_witness:
  "\<exists>copy \<in> set (inRosters joined_input). digest chain_primitives (statement copy) = sample_key 3
     \<and> signedByMember chain_primitives removal_roster (sample_uuid CHR ''a'') copy (inMlDsaKeys joined_input)"
proof -
  obtain body where b: "accept chain_primitives joined_input = Inr (body, chain_end [])" using chain_joined by blast
  from accepted_rosters_signed [OF b, of 2] show ?thesis
    by (auto simp: chain_end_held held_of_def Let_def joined_fields)
qed

theorem accepted_rosters_follow_witness:
  "previousRosterDigest rekeyed_roster = sample_key 2
   \<and> list_all (\<lambda>entry. rosterEntry rekeyed_roster (userId entry) \<noteq> None) (members removal_roster)"
proof -
  obtain body where b: "accept chain_primitives joined_input = Inr (body, chain_end [])" using chain_joined by blast
  from accepted_rosters_follow [OF b, of 1] show ?thesis
    by (simp add: chain_end_held held_of_def Let_def list_all_iff)
qed

theorem accepted_keys_proved_witness:
  "\<exists>succession stmt. parseGroupSuccession stmt = Inr succession \<and> old_key_of succession = chain_key 61
     \<and> new_key_of succession = chain_key 62 \<and> oldVersion succession = 1"
proof -
  obtain body where b: "accept chain_primitives joined_input = Inr (body, chain_end [])" using chain_joined by blast
  from accepted_keys_proved [OF b, of 1] show ?thesis
    by (auto simp: chain_end_held held_of_def joined_fields)
qed


theorem roster_under_key_of_ties_witness:
  "\<exists>body. accept chain_primitives joined_input = Inr (body, chain_end [])
   \<and> groupKeyVersion rekeyed_roster = keyVersionAt (ties_of (chain_end [])) 3"
proof -
  obtain body where b: "accept chain_primitives joined_input = Inr (body, chain_end [])" using chain_joined by blast
  from roster_under_key_of_ties [OF b, of 2] b show ?thesis
    by (simp add: chain_end_held held_of_def Let_def)
qed

theorem accepted_areas_run_witness:
  "\<exists>previous. ledger.runs (empty_ledger, None) [first_roster, removal_roster, rekeyed_roster] (stAreas (chain_end []), previous)"
proof -
  obtain body where b: "accept chain_primitives joined_input = Inr (body, chain_end [])" using chain_joined by blast
  from accepted_areas_run [OF b joined_fields(1)] show ?thesis
    by (auto simp: chain_end_held held_of_def)
qed

theorem accepted_pins_on_chain_witness:
  "\<exists>body st pin. accept chain_primitives pinned_input = Inr (body, st)
     \<and> checkGroupPin (sample_uuid CHR ''f'') (Some chain_pin) = Inr pin
     \<and> chRosterDigests body ! (pinRosterVersion pin - 1) = pinRosterDigest pin"
proof -
  obtain body where b: "accept chain_primitives pinned_input
      = Inr (body, chain_end [(2, side_of (sample_key 62) From_Pin None)])" using chain_pinned by blast
  have "inGroupId pinned_input = sample_uuid CHR ''f''" "Some chain_pin \<in> set (inPins pinned_input)"
    by (simp_all add: pinned_input_def chain_input_def)
  with accepted_pins_on_chain [OF b, of "Some chain_pin"] b show ?thesis by metis
qed

theorem accepted_cache_on_chain_witness:
  "\<exists>body st. accept chain_primitives cached_input = Inr (body, st) \<and> take 1 (chRosterDigests body) = [sample_key 1]"
proof -
  obtain body where b: "accept chain_primitives cached_input
      = Inr (body, chain_end [(1, side_of (sample_key 61) From_Cache None)])" using chain_continued by blast
  have c: "inCache cached_input = Some chain_cache" "inGroupId cached_input = sample_uuid CHR ''f''" "inServer cached_input = False"
    by (simp_all add: cached_input_def chain_input_def)
  from accepted_cache_on_chain [OF b c(1)] c have "take 1 (chRosterDigests body) = [sample_key 1]"
    by (auto simp: chain_cache_checked) (simp_all add: chain_cached_def)
  with b show ?thesis by blast
qed


theorem join_code_on_chain_witness:
  "\<exists>body code. accept chain_primitives joined_input = Inr (body, chain_end [])
     \<and> joinCode chain_primitives (chRosterDigests body ! 1) (chGroupKeys body ! 0) 1 = Inr code \<and> joined code = joined chain_code"
proof -
  obtain body where b: "accept chain_primitives joined_input = Inr (body, chain_end [])" using chain_joined by blast
  have "keyVersionAt (ties_of (chain_end [])) 2 = 1" by (simp add: ties_of_def chain_end_def chain_verified_def keyVersionAt_def)
  with join_code_on_chain [OF b joined_fields(3)] b show ?thesis by (auto simp: chain_join_checked)
qed

theorem accept_is_a_run_witness:
  "\<exists>start rosters x. byDigest chain_primitives (inRosters joined_input) parseRoster = Inr rosters
    \<and> held start = [] \<and> reaches chain_primitives rosters start x \<and> apart_notes x (chain_end [])"
proof -
  obtain body where b: "accept chain_primitives joined_input = Inr (body, chain_end [])" using chain_joined by blast
  from accept_is_a_run [OF b joined_fields(1)] show ?thesis by blast
qed


end
