(* ===== verification/Succession_Path.thy ===== *)
theory Succession_Path
  imports Pins
begin

text \<open>
  \<open>packages/crypto/src/succession-path.ts\<close>, the walk along a member's succession links, with the checks
  of one link (\<open>verifySuccessionLink\<close>, \<open>verifySuccessionConsent\<close>) and the strict verifier personal pins
  follow (\<open>verifySuccessionChain\<close>) of \<open>identity.ts\<close>.
\<close>

section \<open>Links (identity.ts)\<close>

text \<open>A link as served; \<open>l_userId\<close> is not served, and is set when the link is verified.\<close>

record succession_link = identity_link +
  linkSignature :: string
  linkConsent :: "string option"

record pinned_keys =
  pk_keyVersion :: "int option"
  pk_encryptionPublicKey :: string
  pk_signingPublicKey :: string
  pk_mlDsaPublicKeyHash :: string

definition SUCCESSION_CONSENT_BYTES :: nat where
  "SUCCESSION_CONSENT_BYTES = 2 * HYBRID_SIGNATURE_BYTES"

definition link_statement_of :: "string \<Rightarrow> succession_link \<Rightarrow> identity_link" where
  "link_statement_of uid link = identity_link.truncate (link\<lparr> l_userId := uid \<rparr>)"

definition under_keys :: "string \<Rightarrow> string \<Rightarrow> crypto_error + hybrid_public_key" where
  "under_keys signing lattice =
     bindE (decode signing (Some 32)) (\<lambda>ed.
     bindE (decode lattice (Some ML_DSA_PUBLIC_KEY_BYTES)) (\<lambda>ml.
       Inr \<lparr> h_signingPublicKey = ed, h_mlDsaPublicKey = ml \<rparr>))"

text \<open>What throws inside \<open>try\<close> is false.\<close>

definition caught :: "crypto_error + bool \<Rightarrow> bool" where
  "caught m = (case m of Inl _ \<Rightarrow> False | Inr b \<Rightarrow> b)"

definition verifySuccessionLink :: "primitives \<Rightarrow> string \<Rightarrow> succession_link \<Rightarrow> string \<Rightarrow> string \<Rightarrow> bool" where
  "verifySuccessionLink P uid link signing lattice =
     caught (bindE (successionStatement P (link_statement_of uid link)) (\<lambda>message.
       bindE (decode (linkSignature link) (Some HYBRID_SIGNATURE_BYTES)) (\<lambda>sig.
       bindE (under_keys signing lattice) (\<lambda>ks. Inr (verifyHybrid P message sig ks)))))"

definition verifySuccessionConsent :: "primitives \<Rightarrow> string \<Rightarrow> succession_link \<Rightarrow> bool" where
  "verifySuccessionConsent P uid link =
     (case linkConsent link of None \<Rightarrow> False
      | Some text \<Rightarrow> caught (
          bindE (decode text (Some SUCCESSION_CONSENT_BYTES)) (\<lambda>consent.
          let fields = link_statement_of uid link in
          bindE (successionConsentStatement P fields OldRole) (\<lambda>as_old.
          bindE (under_keys (oldSigningPublicKey link) (l_oldMlDsaPublicKey link)) (\<lambda>old_keys.
            if \<not> verifyHybrid P as_old (take HYBRID_SIGNATURE_BYTES consent) old_keys then Inr False
            else
              bindE (successionConsentStatement P fields NewRole) (\<lambda>as_new.
              bindE (under_keys (newSigningPublicKey link) (l_newMlDsaPublicKey link)) (\<lambda>new_keys.
                Inr (verifyHybrid P as_new (drop HYBRID_SIGNATURE_BYTES consent) new_keys))))))))"

text \<open>\<open>mlDsaHash\<close>, and \<open>mlDsaDigestOf\<close> of \<open>identity.ts\<close>.\<close>

definition mlDsaHash :: "primitives \<Rightarrow> string \<Rightarrow> string option" where
  "mlDsaHash P publicKey =
     (case decode publicKey (Some ML_DSA_PUBLIC_KEY_BYTES) of Inl _ \<Rightarrow> None | Inr b \<Rightarrow> Some (keyDigest P b))"

section \<open>The strict chain of a personal pin (verifySuccessionChain)\<close>

record chain_at =
  at_keyVersion :: int
  at_encryptionPublicKey :: string
  at_signingPublicKey :: string
  at_mlDsaPublicKey :: string
  at_kemPublicKey :: "string option"

definition leaves_pin :: "primitives \<Rightarrow> pinned_keys \<Rightarrow> succession_link \<Rightarrow> bool" where
  "leaves_pin P pin link \<longleftrightarrow> oldEncryptionPublicKey link = pk_encryptionPublicKey pin
     \<and> oldSigningPublicKey link = pk_signingPublicKey pin
     \<and> mlDsaHash P (l_oldMlDsaPublicKey link) = Some (pk_mlDsaPublicKeyHash pin)"

definition after_link :: "succession_link \<Rightarrow> chain_at" where
  "after_link link = \<lparr> at_keyVersion = newKeyVersion link, at_encryptionPublicKey = newEncryptionPublicKey link,
     at_signingPublicKey = newSigningPublicKey link, at_mlDsaPublicKey = l_newMlDsaPublicKey link,
     at_kemPublicKey = Some (newKemPublicKey link) \<rparr>"

fun follow_chain :: "primitives \<Rightarrow> string \<Rightarrow> chain_at \<Rightarrow> succession_link list \<Rightarrow> chain_at option" where
  "follow_chain P uid at [] = Some at"
| "follow_chain P uid at (link # rest) =
     (if oldKeyVersion link < at_keyVersion at
        \<or> oldEncryptionPublicKey link \<noteq> at_encryptionPublicKey at
        \<or> oldSigningPublicKey link \<noteq> at_signingPublicKey at
        \<or> l_oldMlDsaPublicKey link \<noteq> at_mlDsaPublicKey at
        \<or> \<not> verifySuccessionLink P uid link (at_signingPublicKey at) (at_mlDsaPublicKey at)
      then None else follow_chain P uid (after_link link) rest)"

definition verifySuccessionChain ::
    "primitives \<Rightarrow> string \<Rightarrow> pinned_keys \<Rightarrow> served_keys \<Rightarrow> succession_link list \<Rightarrow> bool" where
  "verifySuccessionChain P uid pin served links =
     (case dropWhile (\<lambda>link. \<not> leaves_pin P pin link) links of
        [] \<Rightarrow> False
      | first # rest \<Rightarrow>
          (case follow_chain P uid
              \<lparr> at_keyVersion = (case pk_keyVersion pin of None \<Rightarrow> 0 | Some v \<Rightarrow> v),
                at_encryptionPublicKey = pk_encryptionPublicKey pin, at_signingPublicKey = pk_signingPublicKey pin,
                at_mlDsaPublicKey = l_oldMlDsaPublicKey first, at_kemPublicKey = None \<rparr> (first # rest) of
             None \<Rightarrow> False
           | Some at \<Rightarrow> sk_keyVersion served \<ge> at_keyVersion at
               \<and> at_encryptionPublicKey at = sk_encryptionPublicKey served
               \<and> at_signingPublicKey at = sk_signingPublicKey served
               \<and> at_mlDsaPublicKey at = sk_mlDsaPublicKey served
               \<and> at_kemPublicKey at = Some (sk_kemPublicKey served)))"

section \<open>The walk of the group core (succession-path.ts)\<close>

datatype succession_path = Path "succession_link list" | Identity_Fork | Stale | Too_Many | No_Path

definition MAX_SUCCESSION_LINKS :: nat where
  "MAX_SUCCESSION_LINKS = 64"

definition MAX_VERIFIED_LINKS :: nat where
  "MAX_VERIFIED_LINKS = 4096"

definition leadsTo :: "primitives \<Rightarrow> succession_link \<Rightarrow> pinned_keys \<Rightarrow> bool" where
  "leadsTo P link ks \<longleftrightarrow> newEncryptionPublicKey link = pk_encryptionPublicKey ks
     \<and> newSigningPublicKey link = pk_signingPublicKey ks
     \<and> mlDsaHash P (l_newMlDsaPublicKey link) = Some (pk_mlDsaPublicKeyHash ks)"

definition same_pinned :: "pinned_keys \<Rightarrow> pinned_keys \<Rightarrow> bool" where
  "same_pinned a b \<longleftrightarrow> pk_encryptionPublicKey a = pk_encryptionPublicKey b
     \<and> pk_signingPublicKey a = pk_signingPublicKey b \<and> pk_mlDsaPublicKeyHash a = pk_mlDsaPublicKeyHash b"

text \<open>A served value some field of which has not its type is \<open>None\<close>; an unsafe key version is not one.\<close>

definition snapshot :: "succession_link option \<Rightarrow> succession_link option" where
  "snapshot link =
     (case link of None \<Rightarrow> None
      | Some l \<Rightarrow> if isSafeInteger (oldKeyVersion l) \<and> isSafeInteger (newKeyVersion l) then Some l else None)"

subsection \<open>Verification results kept\<close>

type_synonym link_memo = "(string \<times> bool) list"

definition link_key :: "primitives \<Rightarrow> string \<Rightarrow> bool \<Rightarrow> succession_link \<Rightarrow> string" where
  "link_key P uid consent l = hex_of (sha256 P (text_encode
     (CHR ''['' # stringify (JStr uid) @ '','' @ (if consent then ''true'' else ''false'') @ '',''
      @ stringify_items [JNum (oldKeyVersion l), JNum (newKeyVersion l), JStr (oldEncryptionPublicKey l),
          JStr (oldSigningPublicKey l), JStr (l_oldMlDsaPublicKey l), JStr (newEncryptionPublicKey l),
          JStr (newSigningPublicKey l), JStr (l_newMlDsaPublicKey l), JStr (newKemPublicKey l),
          JStr (linkSignature l), (case linkConsent l of None \<Rightarrow> JOther | Some c \<Rightarrow> JStr c)] @ '']'')))"

text \<open>One link under its proof.\<close>

definition proves :: "primitives \<Rightarrow> string \<Rightarrow> bool \<Rightarrow> succession_link \<Rightarrow> bool" where
  "proves P uid consent l =
     (if consent then verifySuccessionConsent P uid l
      else verifySuccessionLink P uid l (oldSigningPublicKey l) (l_oldMlDsaPublicKey l))"

definition remember :: "link_memo \<Rightarrow> string \<Rightarrow> bool \<Rightarrow> link_memo" where
  "remember memo k was_held =
     (let memo = AList.delete k memo @ [(k, was_held)] in drop (length memo - MAX_VERIFIED_LINKS) memo)"

definition holds_link :: "primitives \<Rightarrow> string \<Rightarrow> bool \<Rightarrow> link_memo \<Rightarrow> succession_link option \<Rightarrow> bool \<times> link_memo" where
  "holds_link P uid consent memo snap =
     (case snap of None \<Rightarrow> (False, memo)
      | Some l \<Rightarrow>
          let k = link_key P uid consent l;
              was_held = (case map_of memo k of None \<Rightarrow> proves P uid consent l | Some h \<Rightarrow> h)
          in (was_held, remember memo k was_held))"

fun leaving_links :: "primitives \<Rightarrow> string \<Rightarrow> bool \<Rightarrow> link_memo \<Rightarrow> succession_link option list
    \<Rightarrow> succession_link list \<times> link_memo" where
  "leaving_links P uid consent memo [] = ([], memo)"
| "leaving_links P uid consent memo (snap # rest) =
     (let (ok, memo) = holds_link P uid consent memo snap;
          (ls, memo) = leaving_links P uid consent memo rest
      in (if ok then the snap # ls else ls, memo))"

subsection \<open>The walk\<close>

record walk_input =
  wkUser :: string
  wkStart :: pinned_keys
  wkServed :: served_keys
  wkLinks :: "succession_link option list"
  wkUntil :: "pinned_keys option"

definition next_keys :: "succession_link \<Rightarrow> string \<times> string \<times> string \<times> string" where
  "next_keys l = (newEncryptionPublicKey l, newSigningPublicKey l, l_newMlDsaPublicKey l, newKemPublicKey l)"

definition keys_served :: "served_keys \<Rightarrow> string \<times> string \<times> string \<times> string" where
  "keys_served s = (sk_encryptionPublicKey s, sk_signingPublicKey s, sk_mlDsaPublicKey s, sk_kemPublicKey s)"

definition leaves_set :: "primitives \<Rightarrow> succession_link option \<Rightarrow> pinned_keys \<Rightarrow> bool" where
  "leaves_set P snap ks = (case snap of None \<Rightarrow> False | Some l \<Rightarrow> leaves_pin P ks l)"

definition at_served :: "primitives \<Rightarrow> walk_input \<Rightarrow> succession_link option \<Rightarrow> bool" where
  "at_served P w at =
     (case at of
        None \<Rightarrow> pk_encryptionPublicKey (wkStart w) = sk_encryptionPublicKey (wkServed w)
          \<and> pk_signingPublicKey (wkStart w) = sk_signingPublicKey (wkServed w)
          \<and> mlDsaHash P (sk_mlDsaPublicKey (wkServed w)) = Some (pk_mlDsaPublicKeyHash (wkStart w))
      | Some l \<Rightarrow> next_keys l = keys_served (wkServed w))"

definition continues :: "primitives \<Rightarrow> walk_input \<Rightarrow> succession_link option \<Rightarrow> succession_link option \<Rightarrow> bool" where
  "continues P w at snap =
     (case snap of None \<Rightarrow> False
      | Some link \<Rightarrow>
          (case at of
             None \<Rightarrow> leaves_set P snap (wkStart w)
               \<and> oldKeyVersion link \<ge> (case pk_keyVersion (wkStart w) of None \<Rightarrow> 0 | Some v \<Rightarrow> v)
           | Some a \<Rightarrow> oldEncryptionPublicKey link = newEncryptionPublicKey a
               \<and> oldSigningPublicKey link = newSigningPublicKey a
               \<and> l_oldMlDsaPublicKey link = l_newMlDsaPublicKey a
               \<and> oldKeyVersion link \<ge> newKeyVersion a))"

definition still_consenting :: "primitives \<Rightarrow> walk_input \<Rightarrow> bool \<Rightarrow> succession_link \<Rightarrow> bool" where
  "still_consenting P w consenting nxt \<longleftrightarrow>
     consenting \<and> \<not> (case wkUntil w of None \<Rightarrow> False | Some u \<Rightarrow> leadsTo P nxt u)"

fun walk :: "primitives \<Rightarrow> walk_input \<Rightarrow> nat \<Rightarrow> succession_link option \<Rightarrow> bool
    \<Rightarrow> (string \<times> string \<times> string \<times> string) list \<Rightarrow> succession_link list \<Rightarrow> nat list \<Rightarrow> link_memo
    \<Rightarrow> succession_path \<times> link_memo" where
  "walk P w 0 at consenting seen path counted memo = (No_Path, memo)"
| "walk P w (Suc n) at consenting seen path counted memo =
     (let continuing = filter (\<lambda>i. continues P w at (wkLinks w ! i)) [0..<length (wkLinks w)];
          counted = List.union continuing counted
      in if length counted > MAX_SUCCESSION_LINKS then (Too_Many, memo)
         else let (leaving, memo) = leaving_links P (wkUser w) consenting memo (map (\<lambda>i. wkLinks w ! i) continuing)
      in if at_served P w at
         then (if leaving \<noteq> [] then Stale else case at of None \<Rightarrow> No_Path | Some _ \<Rightarrow> Path path, memo)
         else if length (remdups (map next_keys leaving)) > 1 then (Identity_Fork, memo)
         else case leaving of [] \<Rightarrow> (No_Path, memo)
           | nxt # _ \<Rightarrow>
               if next_keys nxt \<in> set seen then (No_Path, memo)
               else walk P w n (Some nxt) (still_consenting P w consenting nxt) (next_keys nxt # seen)
                 (path @ [nxt]) counted memo)"

definition successionPath :: "primitives \<Rightarrow> string \<Rightarrow> pinned_keys \<Rightarrow> served_keys \<Rightarrow> succession_link option list
    \<Rightarrow> link_memo \<Rightarrow> pinned_keys option \<Rightarrow> pinned_keys list \<Rightarrow> succession_path \<times> link_memo" where
  "successionPath P uid start served links memo consentUntil memberKeys =
     (let snaps = map snapshot links;
          counted = filter (\<lambda>i. list_ex (leaves_set P (snaps ! i)) (start # memberKeys)) [0..<length links]
      in if length counted > MAX_SUCCESSION_LINKS then (Too_Many, memo)
         else walk P \<lparr> wkUser = uid, wkStart = start, wkServed = served, wkLinks = snaps, wkUntil = consentUntil \<rparr>
           (length links + 1) None
           (case consentUntil of None \<Rightarrow> False | Some u \<Rightarrow> \<not> same_pinned start u) [] [] counted memo)"


section \<open>The results kept make no difference\<close>

text \<open>The links a walk may ask for, under both proofs; keys kept for them do not collide; what is kept
  of them is true.\<close>

definition queries :: "string \<Rightarrow> succession_link option list \<Rightarrow> (string \<times> bool \<times> succession_link) set" where
  "queries uid snaps = {uid} \<times> UNIV \<times> {l. Some l \<in> set snaps}"

definition collision_free :: "primitives \<Rightarrow> (string \<times> bool \<times> succession_link) set \<Rightarrow> bool" where
  "collision_free P Q \<longleftrightarrow> inj_on (\<lambda>(uid, consent, l). link_key P uid consent l) Q"

definition memo_true :: "primitives \<Rightarrow> (string \<times> bool \<times> succession_link) set \<Rightarrow> link_memo \<Rightarrow> bool" where
  "memo_true P Q memo \<longleftrightarrow> (\<forall>(k, h) \<in> set memo. \<forall>(uid, consent, l) \<in> Q.
     link_key P uid consent l = k \<longrightarrow> h = proves P uid consent l)"

lemma remember_mem: "e \<in> set (remember memo k h) \<Longrightarrow> e \<in> set memo \<or> e = (k, h)"
  by (auto simp: remember_def Let_def AList.delete_eq dest!: in_set_dropD)

lemma remember_bounded: "length (remember memo k h) \<le> MAX_VERIFIED_LINKS"
  by (simp add: remember_def Let_def)

lemma holds_link_true:
  assumes "collision_free P Q" "memo_true P Q memo" "\<And>l. snap = Some l \<Longrightarrow> (uid, consent, l) \<in> Q"
    and "holds_link P uid consent memo snap = (ok, memo')"
  shows "ok = (case snap of None \<Rightarrow> False | Some l \<Rightarrow> proves P uid consent l) \<and> memo_true P Q memo'"
proof (cases snap)
  case None
  with assms show ?thesis by (auto simp: holds_link_def)
next
  case (Some l)
  let ?k = "link_key P uid consent l"
  have q: "(uid, consent, l) \<in> Q" using assms(3) Some by blast
  have held: "ok = (case map_of memo ?k of None \<Rightarrow> proves P uid consent l | Some h \<Rightarrow> h)"
    and m: "memo' = remember memo ?k ok"
    using assms(4) Some by (auto simp: holds_link_def Let_def)
  have ok: "ok = proves P uid consent l"
  proof (cases "map_of memo ?k")
    case (Some h)
    then have "(?k, h) \<in> set memo" by (rule map_of_SomeD)
    with assms(2) q Some held show ?thesis by (auto simp: memo_true_def)
  qed (use held in simp)
  have "h = proves P u c l'" if e: "(k, h) \<in> set memo'" "(u, c, l') \<in> Q" "link_key P u c l' = k" for k h u c l'
  proof (cases "(k, h) \<in> set memo")
    case True
    with assms(2) e show ?thesis by (auto simp: memo_true_def)
  next
    case False
    with e(1) m remember_mem have "k = ?k" "h = ok" by blast+
    with e(2,3) q assms(1) have "(u, c, l') = (uid, consent, l)"
      unfolding collision_free_def inj_on_def by fastforce
    with ok \<open>h = ok\<close> show ?thesis by simp
  qed
  with ok Some show ?thesis by (auto simp: memo_true_def)
qed

definition proven :: "primitives \<Rightarrow> string \<Rightarrow> bool \<Rightarrow> succession_link option list \<Rightarrow> succession_link list" where
  "proven P uid consent snaps = filter (proves P uid consent) (map the (filter (\<lambda>s. s \<noteq> None) snaps))"

lemma leaving_links_true:
  assumes "collision_free P Q" "\<And>l. Some l \<in> set snaps \<Longrightarrow> (uid, consent, l) \<in> Q"
  shows "memo_true P Q memo \<Longrightarrow> leaving_links P uid consent memo snaps = (ls, memo') \<Longrightarrow>
     ls = proven P uid consent snaps \<and> memo_true P Q memo'"
  using assms(2)
proof (induction snaps arbitrary: memo ls memo')
  case (Cons snap snaps)
  obtain ok m1 where h: "holds_link P uid consent memo snap = (ok, m1)" by fastforce
  obtain ls1 m2 where l: "leaving_links P uid consent m1 snaps = (ls1, m2)" by fastforce
  from holds_link_true [OF assms(1) Cons.prems(1) _ h] Cons.prems(3)
  have ok: "ok = (case snap of None \<Rightarrow> False | Some l \<Rightarrow> proves P uid consent l)" "memo_true P Q m1" by auto
  from Cons.IH [OF ok(2) l] Cons.prems(3) have "ls1 = proven P uid consent snaps" "memo_true P Q m2" by auto
  with Cons.prems(2) h l ok(1) show ?case by (auto simp: proven_def split: option.splits)
qed (simp add: proven_def)

text \<open>The walk that keeps nothing.\<close>

fun plain_walk :: "primitives \<Rightarrow> walk_input \<Rightarrow> nat \<Rightarrow> succession_link option \<Rightarrow> bool
    \<Rightarrow> (string \<times> string \<times> string \<times> string) list \<Rightarrow> succession_link list \<Rightarrow> nat list \<Rightarrow> succession_path" where
  "plain_walk P w 0 at consenting seen path counted = No_Path"
| "plain_walk P w (Suc n) at consenting seen path counted =
     (let continuing = filter (\<lambda>i. continues P w at (wkLinks w ! i)) [0..<length (wkLinks w)];
          counted = List.union continuing counted;
          leaving = proven P (wkUser w) consenting (map (\<lambda>i. wkLinks w ! i) continuing)
      in if length counted > MAX_SUCCESSION_LINKS then Too_Many
         else if at_served P w at
         then (if leaving \<noteq> [] then Stale else case at of None \<Rightarrow> No_Path | Some _ \<Rightarrow> Path path)
         else if length (remdups (map next_keys leaving)) > 1 then Identity_Fork
         else case leaving of [] \<Rightarrow> No_Path
           | nxt # _ \<Rightarrow>
               if next_keys nxt \<in> set seen then No_Path
               else plain_walk P w n (Some nxt) (still_consenting P w consenting nxt) (next_keys nxt # seen)
                 (path @ [nxt]) counted)"

lemma walk_plain:
  assumes "collision_free P Q" "Q = queries (wkUser w) (wkLinks w)"
  shows "memo_true P Q memo \<Longrightarrow> fst (walk P w n at consenting seen path counted memo)
      = plain_walk P w n at consenting seen path counted
    \<and> memo_true P Q (snd (walk P w n at consenting seen path counted memo))"
proof (induction n arbitrary: at consenting seen path counted memo)
  case (Suc n)
  define continuing where "continuing = filter (\<lambda>i. continues P w at (wkLinks w ! i)) [0..<length (wkLinks w)]"
  obtain ls m where l: "leaving_links P (wkUser w) consenting memo (map (\<lambda>i. wkLinks w ! i) continuing) = (ls, m)"
    by fastforce
  have q: "Some l \<in> set (map (\<lambda>i. wkLinks w ! i) continuing) \<Longrightarrow> (wkUser w, consenting, l) \<in> Q" for l
    using assms(2) by (auto simp: queries_def continuing_def in_set_conv_nth)
  from leaving_links_true [OF assms(1) q Suc.prems l]
  have ls: "ls = proven P (wkUser w) consenting (map (\<lambda>i. wkLinks w ! i) continuing)" and m: "memo_true P Q m" by auto
  show ?case
    using Suc.IH [OF m] Suc.prems m
    unfolding walk.simps plain_walk.simps continuing_def [symmetric] Let_def l prod.case ls [symmetric]
    by (auto split: list.splits option.splits)
qed simp


section \<open>What a path is\<close>

text \<open>From where the walk is, each link taken continues the one before under the proof asked for, and every
  other link that does leads to the same keys.\<close>

fun followed :: "primitives \<Rightarrow> walk_input \<Rightarrow> succession_link option \<Rightarrow> bool \<Rightarrow> succession_link list \<Rightarrow> bool" where
  "followed P w at consenting [] = True"
| "followed P w at consenting (l # ls) \<longleftrightarrow>
     Some l \<in> set (wkLinks w) \<and> continues P w at (Some l) \<and> proves P (wkUser w) consenting l
     \<and> (\<forall>r. Some r \<in> set (wkLinks w) \<longrightarrow> continues P w at (Some r) \<longrightarrow> proves P (wkUser w) consenting r \<longrightarrow>
          next_keys r = next_keys l)
     \<and> followed P w (Some l) (still_consenting P w consenting l) ls"

fun ends_at :: "succession_link option \<Rightarrow> succession_link list \<Rightarrow> succession_link option" where
  "ends_at at [] = at"
| "ends_at at (l # ls) = ends_at (Some l) ls"

fun ends_consenting :: "primitives \<Rightarrow> walk_input \<Rightarrow> bool \<Rightarrow> succession_link list \<Rightarrow> bool" where
  "ends_consenting P w consenting [] = consenting"
| "ends_consenting P w consenting (l # ls) = ends_consenting P w (still_consenting P w consenting l) ls"

definition all_proven :: "primitives \<Rightarrow> walk_input \<Rightarrow> succession_link option \<Rightarrow> bool \<Rightarrow> succession_link list" where
  "all_proven P w at consenting = proven P (wkUser w) consenting
     (map (\<lambda>i. wkLinks w ! i) (filter (\<lambda>i. continues P w at (wkLinks w ! i)) [0..<length (wkLinks w)]))"

lemma nth_filter: "map (\<lambda>i. xs ! i) (filter (\<lambda>i. Q (xs ! i)) [0..<length xs]) = filter Q xs"
  using filter_map [of Q "(!) xs" "[0..<length xs]"] by (simp add: comp_def map_nth)

lemma all_proven_mem:
  "l \<in> set (all_proven P w at consenting) \<longleftrightarrow>
     Some l \<in> set (wkLinks w) \<and> continues P w at (Some l) \<and> proves P (wkUser w) consenting l"
  by (cases "continues P w at (Some l)") (auto simp: all_proven_def proven_def nth_filter intro: rev_image_eqI [of "Some l"])

lemma one_target:
  assumes "\<not> length (remdups (map next_keys ls)) > 1" "l \<in> set ls" "r \<in> set ls"
  shows "next_keys r = next_keys l"
proof -
  have "card (next_keys ` set ls) \<le> Suc 0" using assms(1) by (simp add: length_remdups_card_conv)
  from iffD1 [OF card_le_Suc0_iff_eq [OF finite_imageI [OF finite_set]] this]
  have "\<forall>a \<in> next_keys ` set ls. \<forall>b \<in> next_keys ` set ls. a = b" .
  then show ?thesis using assms(2,3) by blast
qed

lemma plain_walk_path:
  "plain_walk P w n at consenting seen path counted = Path res \<Longrightarrow>
     \<exists>ls. res = path @ ls \<and> followed P w at consenting ls \<and> at_served P w (ends_at at ls) \<and> ends_at at ls \<noteq> None
       \<and> all_proven P w (ends_at at ls) (ends_consenting P w consenting ls) = []
       \<and> distinct (map next_keys ls) \<and> next_keys ` set ls \<inter> set seen = {}"
proof (induction n arbitrary: at consenting seen path counted)
  case (Suc n)
  let ?leaving = "all_proven P w at consenting"
  have unfolded: "plain_walk P w (Suc n) at consenting seen path counted =
     (let counted = List.union (filter (\<lambda>i. continues P w at (wkLinks w ! i)) [0..<length (wkLinks w)]) counted in
      if length counted > MAX_SUCCESSION_LINKS then Too_Many
      else if at_served P w at
      then (if ?leaving \<noteq> [] then Stale else case at of None \<Rightarrow> No_Path | Some _ \<Rightarrow> Path path)
      else if length (remdups (map next_keys ?leaving)) > 1 then Identity_Fork
      else case ?leaving of [] \<Rightarrow> No_Path
        | nxt # _ \<Rightarrow> if next_keys nxt \<in> set seen then No_Path
            else plain_walk P w n (Some nxt) (still_consenting P w consenting nxt) (next_keys nxt # seen)
              (path @ [nxt]) counted)"
    by (simp add: Let_def all_proven_def)
  show ?case
  proof (cases "at_served P w at")
    case True
    with Suc.prems unfolded have "?leaving = []" "at \<noteq> None" "res = path"
      by (auto simp: Let_def split: if_splits option.splits)
    with True show ?thesis by (intro exI [of _ "[]"]) auto
  next
    case False
    with Suc.prems unfolded obtain nxt rest counted' where l: "?leaving = nxt # rest"
      and one: "\<not> length (remdups (map next_keys ?leaving)) > 1" and fresh: "next_keys nxt \<notin> set seen"
      and w: "plain_walk P w n (Some nxt) (still_consenting P w consenting nxt) (next_keys nxt # seen)
        (path @ [nxt]) counted' = Path res"
      by (auto simp: Let_def split: if_splits list.splits)
    from Suc.IH [OF w] obtain ls where ls: "res = (path @ [nxt]) @ ls"
      "followed P w (Some nxt) (still_consenting P w consenting nxt) ls" "at_served P w (ends_at (Some nxt) ls)"
      "ends_at (Some nxt) ls \<noteq> None"
      "all_proven P w (ends_at (Some nxt) ls) (ends_consenting P w (still_consenting P w consenting nxt) ls) = []"
      "distinct (map next_keys ls)" "next_keys ` set ls \<inter> set (next_keys nxt # seen) = {}" by blast
    have n: "nxt \<in> set ?leaving" using l by simp
    have "\<forall>r. Some r \<in> set (wkLinks w) \<longrightarrow> continues P w at (Some r) \<longrightarrow> proves P (wkUser w) consenting r \<longrightarrow>
        next_keys r = next_keys nxt"
      using one_target [OF one n] all_proven_mem by blast
    with ls(2) n have "followed P w at consenting (nxt # ls)"
      unfolding followed.simps all_proven_mem by blast
    with ls fresh show ?thesis by (intro exI [of _ "nxt # ls"]) (auto simp del: followed.simps)
  qed
qed simp

text \<open>The steps are enough: each adds new keys, and a link leads to each.\<close>

lemma leaving_links_sub: "leaving_links P uid consent memo snaps = (ls, memo') \<Longrightarrow> l \<in> set ls \<Longrightarrow> Some l \<in> set snaps"
proof (induction snaps arbitrary: memo ls memo')
  case (Cons snap snaps)
  obtain ok m1 where h: "holds_link P uid consent memo snap = (ok, m1)" by fastforce
  obtain ls1 m2 where l: "leaving_links P uid consent m1 snaps = (ls1, m2)" by fastforce
  have "ok \<Longrightarrow> snap \<noteq> None" using h by (auto simp: holds_link_def split: option.splits)
  with Cons.prems h l Cons.IH [OF l] show ?case by (auto split: if_splits)
qed simp

lemma walk_enough:
  assumes "distinct seen" "set seen \<subseteq> next_keys ` {l. Some l \<in> set (wkLinks w)}"
    and "length (wkLinks w) + 1 \<le> length seen + n" "n \<le> m"
  shows "walk P w m at consenting seen path counted memo = walk P w n at consenting seen path counted memo"
  using assms
proof (induction n arbitrary: m at consenting seen path counted memo)
  case 0
  have "next_keys ` {l. Some l \<in> set (wkLinks w)} \<subseteq> (next_keys \<circ> the) ` set (wkLinks w)"
    by (force intro: rev_image_eqI)
  with "0.prems"(2) have "set seen \<subseteq> (next_keys \<circ> the) ` set (wkLinks w)" by blast
  then have "card (set seen) \<le> card ((next_keys \<circ> the) ` set (wkLinks w))" by (rule card_mono [rotated]) simp
  also have "\<dots> \<le> card (set (wkLinks w))" by (rule card_image_le) simp
  also have "\<dots> \<le> length (wkLinks w)" by (rule card_length)
  finally have "card (set seen) \<le> length (wkLinks w)" .
  with "0.prems"(1,3) show ?case by (simp add: distinct_card)
next
  case (Suc n)
  then obtain m' where m: "m = Suc m'" "n \<le> m'" by (cases m) auto
  define snaps where "snaps = map (\<lambda>i. wkLinks w ! i) (filter (\<lambda>i. continues P w at (wkLinks w ! i)) [0..<length (wkLinks w)])"
  obtain ls memo' where l: "leaving_links P (wkUser w) consenting memo snaps = (ls, memo')" by fastforce
  have "Some nxt \<in> set (wkLinks w)" if "nxt \<in> set ls" for nxt
    using leaving_links_sub [OF l that] by (auto simp: snaps_def)
  then have step: "walk P w m' (Some nxt) c' (next_keys nxt # seen) p' counted' memo'
      = walk P w n (Some nxt) c' (next_keys nxt # seen) p' counted' memo'"
    if "nxt \<in> set ls" "next_keys nxt \<notin> set seen" for nxt c' p' counted'
    using that Suc.prems by (intro Suc.IH) (auto simp: m)
  show ?case unfolding m(1) walk.simps Let_def snaps_def [symmetric] l prod.case
    using step by (auto split: list.splits)
qed

section \<open>Properties\<close>

text \<open>The links as the walk takes them, and what it is given.\<close>

definition walk_of :: "string \<Rightarrow> pinned_keys \<Rightarrow> served_keys \<Rightarrow> succession_link option list \<Rightarrow> pinned_keys option \<Rightarrow> walk_input" where
  "walk_of uid start served links consentUntil =
     \<lparr> wkUser = uid, wkStart = start, wkServed = served, wkLinks = map snapshot links, wkUntil = consentUntil \<rparr>"

definition asks_consent :: "pinned_keys \<Rightarrow> pinned_keys option \<Rightarrow> bool" where
  "asks_consent start consentUntil = (case consentUntil of None \<Rightarrow> False | Some u \<Rightarrow> \<not> same_pinned start u)"

lemma successionPath_walk:
  "successionPath P uid start served links memo consentUntil memberKeys =
     (let counted = filter (\<lambda>i. list_ex (leaves_set P (map snapshot links ! i)) (start # memberKeys)) [0..<length links]
      in if length counted > MAX_SUCCESSION_LINKS then (Too_Many, memo)
         else walk P (walk_of uid start served links consentUntil) (length links + 1) None
           (asks_consent start consentUntil) [] [] counted memo)"
  by (simp add: successionPath_def walk_of_def asks_consent_def Let_def)

lemma path_followed:
  assumes "collision_free P (queries uid (map snapshot links))" and "memo_true P (queries uid (map snapshot links)) memo"
    and "fst (successionPath P uid start served links memo consentUntil memberKeys) = Path ls"
    and w: "w = walk_of uid start served links consentUntil" and c: "consenting = asks_consent start consentUntil"
  shows "ls \<noteq> []" "followed P w None consenting ls" "next_keys (last ls) = keys_served served"
    "all_proven P w (Some (last ls)) (ends_consenting P w consenting ls) = []" "distinct (map next_keys ls)"
proof -
  have q: "queries uid (map snapshot links) = queries (wkUser w) (wkLinks w)" by (simp add: walk_of_def w)
  from assms(3) obtain counted where
    "plain_walk P w (length links + 1) None consenting [] [] counted = Path ls"
    using walk_plain [OF assms(1) q assms(2)]
    by (auto simp: successionPath_walk Let_def w c simp del: walk.simps plain_walk.simps split: if_splits)
  from plain_walk_path [OF this] have ls: "followed P w None consenting ls"
    "at_served P w (ends_at None ls)" "ends_at None ls \<noteq> None"
    "all_proven P w (ends_at None ls) (ends_consenting P w consenting ls) = []"
    "distinct (map next_keys ls)" by auto
  have "ends_at at qs = (if qs = [] then at else Some (last qs))" for at qs by (induction qs arbitrary: at) auto
  with ls(3) have e: "ls \<noteq> []" "ends_at None ls = Some (last ls)" by auto
  with ls show "ls \<noteq> []" "followed P w None consenting ls" "next_keys (last ls) = keys_served served"
    "all_proven P w (Some (last ls)) (ends_consenting P w consenting ls) = []" "distinct (map next_keys ls)"
    by (simp_all add: at_served_def walk_of_def w)
qed

lemma successionPath_memo_true:
  assumes "collision_free P (queries uid (map snapshot ls))" and "memo_true P (queries uid (map snapshot ls)) memo"
    and "successionPath P uid start served ls memo until memberKeys = (outcome, memo')"
  shows "memo_true P (queries uid (map snapshot ls)) memo'"
proof -
  let ?w = "walk_of uid start served ls until"
  have w: "queries uid (map snapshot ls) = queries (wkUser ?w) (wkLinks ?w)" by (simp add: walk_of_def)
  have "memo_true P (queries uid (map snapshot ls)) (snd (walk P ?w n at c sn p cnt memo))" for n at c sn p cnt
    using walk_plain [OF assms(1) w assms(2)] by blast
  then have "memo_true P (queries uid (map snapshot ls)) (snd (successionPath P uid start served ls memo until memberKeys))"
    using assms(2) unfolding successionPath_walk Let_def by (simp del: walk.simps)
  with assms(3) show ?thesis by simp
qed

text \<open>C22. A path found is a proof: from the start each link continues the keys before it, holds under its own
  proof (the successor's consent until the keys asked for are reached), and is the only way on; it ends
  at the identity served, which no link that holds leaves, and comes to no keys twice.\<close>

theorem path_is_a_proof:
  assumes "collision_free P (queries uid (map snapshot links))" and "memo_true P (queries uid (map snapshot links)) memo"
    and "fst (successionPath P uid start served links memo consentUntil memberKeys) = Path ls"
  shows "let w = walk_of uid start served links consentUntil; consenting = asks_consent start consentUntil in
    ls \<noteq> [] \<and> followed P w None consenting ls \<and> next_keys (last ls) = keys_served served
    \<and> all_proven P w (Some (last ls)) (ends_consenting P w consenting ls) = [] \<and> distinct (map next_keys ls)"
  using path_followed [OF assms refl refl] unfolding Let_def by blast

text \<open>Verification results kept from earlier calls change nothing: as long as the keys they are kept
  under do not collide and what is kept is true, the walk gives what it gives with none kept, and what it
  keeps is true again.\<close>

theorem kept_results_change_nothing:
  assumes "collision_free P (queries uid (map snapshot links))" and "memo_true P (queries uid (map snapshot links)) memo"
  shows "fst (successionPath P uid start served links memo consentUntil memberKeys)
      = fst (successionPath P uid start served links [] consentUntil memberKeys)
    \<and> memo_true P (queries uid (map snapshot links)) (snd (successionPath P uid start served links memo consentUntil memberKeys))"
proof -
  let ?w = "walk_of uid start served links consentUntil"
  have w: "queries uid (map snapshot links) = queries (wkUser ?w) (wkLinks ?w)" by (simp add: walk_of_def)
  have none: "memo_true P (queries uid (map snapshot links)) []" by (simp add: memo_true_def)
  have "fst (walk P ?w n at c sn p cnt memo) = fst (walk P ?w n at c sn p cnt [])" for n at c sn p cnt
    using walk_plain [OF assms(1) w assms(2)] walk_plain [OF assms(1) w none] by simp
  then show ?thesis using successionPath_memo_true [OF assms surjective_pairing]
    by (simp add: successionPath_walk Let_def del: walk.simps)
qed


text \<open>The cap counts positions, not links: more than 64 served links that leave the start or a key set of
  the member, copies of one link among them, and the walk stops with nothing verified.\<close>

theorem many_links_stop_the_walk:
  assumes "length (filter (\<lambda>l. list_ex (leaves_set P (snapshot l)) (start # memberKeys)) links) > MAX_SUCCESSION_LINKS"
  shows "successionPath P uid start served links memo consentUntil memberKeys = (Too_Many, memo)"
proof -
  let ?Q = "\<lambda>s. list_ex (leaves_set P s) (start # memberKeys)"
  have "length (filter (\<lambda>i. ?Q (map snapshot links ! i)) [0..<length links]) = length (filter ?Q (map snapshot links))"
    using nth_filter [of "map snapshot links" ?Q] by (metis (no_types, lifting) length_map)
  with assms show ?thesis by (simp add: successionPath_def Let_def filter_map comp_def)
qed

fun joined_under :: "primitives \<Rightarrow> string \<Rightarrow> chain_at \<Rightarrow> succession_link list \<Rightarrow> bool" where
  "joined_under P uid at [] = True"
| "joined_under P uid at (l # ls) \<longleftrightarrow>
     at_keyVersion at \<le> oldKeyVersion l \<and> oldEncryptionPublicKey l = at_encryptionPublicKey at
     \<and> oldSigningPublicKey l = at_signingPublicKey at \<and> l_oldMlDsaPublicKey l = at_mlDsaPublicKey at
     \<and> verifySuccessionLink P uid l (at_signingPublicKey at) (at_mlDsaPublicKey at)
     \<and> joined_under P uid (after_link l) ls"

lemma follow_chain_joined:
  "follow_chain P uid at ls =
     (if joined_under P uid at ls then Some (if ls = [] then at else after_link (last ls)) else None)"
  by (induction ls arbitrary: at) (auto simp: not_less)

lemma dropWhile_Cons: "dropWhile Q xs = y # ys \<longleftrightarrow> (\<exists>zs. xs = zs @ y # ys \<and> list_all Q zs \<and> \<not> Q y)"
proof
  assume d: "dropWhile Q xs = y # ys"
  then have "\<not> Q y" using hd_dropWhile [of Q xs] by simp
  moreover have "xs = takeWhile Q xs @ y # ys" using takeWhile_dropWhile_id [of Q xs] d by simp
  moreover have "list_all Q (takeWhile Q xs)" by (auto simp: list_all_iff dest: set_takeWhileD)
  ultimately show "\<exists>zs. xs = zs @ y # ys \<and> list_all Q zs \<and> \<not> Q y" by blast
next
  assume "\<exists>zs. xs = zs @ y # ys \<and> list_all Q zs \<and> \<not> Q y"
  then show "dropWhile Q xs = y # ys" by (auto simp: list_all_iff)
qed

text \<open>The strict chain of a personal pin holds exactly for links that, from the first one leaving the
  pinned keys to the end of the list, each continue the keys before at no lower version, signed under
  those keys and never under keys only the link names, to the identity served at no lower version.\<close>

theorem strict_chain_exactly:
  "verifySuccessionChain P uid pin served links \<longleftrightarrow>
     (\<exists>skipped first rest. links = skipped @ first # rest
       \<and> list_all (\<lambda>l. \<not> leaves_pin P pin l) skipped \<and> leaves_pin P pin first
       \<and> (case pk_keyVersion pin of None \<Rightarrow> 0 | Some v \<Rightarrow> v) \<le> oldKeyVersion first
       \<and> verifySuccessionLink P uid first (pk_signingPublicKey pin) (l_oldMlDsaPublicKey first)
       \<and> joined_under P uid (after_link first) rest
       \<and> newKeyVersion (last (first # rest)) \<le> sk_keyVersion served
       \<and> next_keys (last (first # rest)) = keys_served served)"
proof -
  have "verifySuccessionChain P uid pin served links \<longleftrightarrow>
      (\<exists>first rest. dropWhile (\<lambda>l. \<not> leaves_pin P pin l) links = first # rest
       \<and> (case pk_keyVersion pin of None \<Rightarrow> 0 | Some v \<Rightarrow> v) \<le> oldKeyVersion first
       \<and> leaves_pin P pin first
       \<and> verifySuccessionLink P uid first (pk_signingPublicKey pin) (l_oldMlDsaPublicKey first)
       \<and> joined_under P uid (after_link first) rest
       \<and> newKeyVersion (last (first # rest)) \<le> sk_keyVersion served
       \<and> next_keys (last (first # rest)) = keys_served served)"
  proof (cases "dropWhile (\<lambda>l. \<not> leaves_pin P pin l) links")
    case (Cons first rest)
    then have "leaves_pin P pin first" by (auto simp: dropWhile_Cons)
    with Cons show ?thesis
      unfolding verifySuccessionChain_def
      by (auto simp: follow_chain_joined leaves_pin_def after_link_def next_keys_def keys_served_def split: option.splits)
  next
    case Nil
    then show ?thesis unfolding verifySuccessionChain_def Nil by simp
  qed
  then show ?thesis unfolding dropWhile_Cons by (simp only: not_not) blast
qed

end
