(* ===== verification/Signing.thy ===== *)
theory Signing
  imports Succession_Path Marks
begin

text \<open>
  \<open>group-trust.ts\<close>, what a signer makes: entries (\<open>newRosterEntry\<close>, \<open>ownRosterEntry\<close>, \<open>foldInEntry\<close>),
  the first roster and the next one (\<open>firstRoster\<close>, \<open>nextRoster\<close>), each held to the rules acceptance
  holds them to, signatures aside; the check of one's own entry (\<open>ownEntry\<close>), the pin taken from a
  group (\<open>trustAsGroupDoes\<close>) and the pair code at a version (\<open>pairCodeAt\<close>).
\<close>

section \<open>The pair code at a version\<close>

definition NOT_ON_HISTORY :: crypto_error where
  "NOT_ON_HISTORY = CryptoError (''This member list is not on the family'' @ rsquo @ ''s history.'')"

definition pairCodeAt :: "primitives \<Rightarrow> chain \<Rightarrow> int \<Rightarrow> string \<Rightarrow> string \<Rightarrow> crypto_error + string list" where
  "pairCodeAt P c version uid other =
     bindE (requireAccepted c) (\<lambda>chain.
       if \<not> isSafeInteger version \<or> version < 1 \<or> version > int (length (chRosterDigests chain))
       then Inl NOT_ON_HISTORY
       else
         let ties = (case rcSuccessions (chCache chain) of None \<Rightarrow> []
               | Some list \<Rightarrow> map (\<lambda>at. case at of Some (JNum v, _) \<Rightarrow> nat v | _ \<Rightarrow> 0) list);
             kv = keyVersionAt ties (nat version)
         in pairCodeOf P (chRosterDigests chain ! (nat version - 1)) (chGroupKeys chain ! (kv - 1)) kv uid other)"

section \<open>Entries\<close>

definition pinnedOf :: "key_set \<Rightarrow> crypto_error + pinned_keys" where
  "pinnedOf s =
     bindE (digestHex (ks_mlDsaPublicKeyDigest s)) (\<lambda>hash.
       Inr \<lparr> pk_keyVersion = None, pk_encryptionPublicKey = ks_encryptionPublicKey s,
         pk_signingPublicKey = ks_signingPublicKey s, pk_mlDsaPublicKeyHash = hash \<rparr>)"

record contact_pin = pin_keys +
  cpUserId :: string
  cpEmail :: string
  cpName :: string
  cpPinnedAt :: string
  cpTrustedVia :: "string option"

definition NOT_CHECKED_WORDS :: crypto_error where
  "NOT_CHECKED_WORDS = CryptoError ''These are not the keys whose words were checked.''"

definition served_key_hash :: "primitives \<Rightarrow> string \<Rightarrow> nat \<Rightarrow> crypto_error + string" where
  "served_key_hash P publicKey len = bindE (decode publicKey (Some len)) (\<lambda>b. Inr (keyDigest P b))"

definition newRosterEntry :: "primitives \<Rightarrow> contact_pin \<Rightarrow> served_identity \<Rightarrow> group_role list \<Rightarrow> nat
    \<Rightarrow> crypto_error + roster_member" where
  "newRosterEntry P pin served entry_roles version =
     (if cpTrustedVia pin \<noteq> None then Inl NOT_CHECKED_WORDS
      else
        let trust = pinTrust P (pin_keys.truncate pin) in
        if (trust \<noteq> Pin_Verified \<and> trust \<noteq> Pin_Seen) \<or> \<not> verifyIdentityKeys P (cpUserId pin) served
          \<or> sk_encryptionPublicKey served \<noteq> p_encryptionPublicKey pin
          \<or> sk_signingPublicKey served \<noteq> p_signingPublicKey pin
        then Inl NOT_CHECKED_WORDS
        else
          bindE (served_key_hash P (sk_mlDsaPublicKey served) ML_DSA_PUBLIC_KEY_BYTES) (\<lambda>ml.
          if Some ml \<noteq> p_mlDsaPublicKeyHash pin then Inl NOT_CHECKED_WORDS
          else bindE (served_key_hash P (sk_kemPublicKey served) 1184) (\<lambda>kem.
          if Some kem \<noteq> p_kemPublicKeyHash pin then Inl NOT_CHECKED_WORDS
          else bindE (digestBase64url (the (p_mlDsaPublicKeyHash pin))) (\<lambda>ml_digest.
          bindE (digestBase64url (the (p_kemPublicKeyHash pin))) (\<lambda>kem_digest.
            Inr \<lparr> userId = cpUserId pin, keyVersion = nat (sk_keyVersion served),
              encryptionPublicKey = sk_encryptionPublicKey served, signingPublicKey = sk_signingPublicKey served,
              mlDsaPublicKeyDigest = ml_digest, kemPublicKeyDigest = kem_digest, status = Active,
              roles = sort entry_roles, sinceVersion = version \<rparr>)))))"

definition NOT_OWN_KEYS :: crypto_error where
  "NOT_OWN_KEYS = CryptoError (''These are not this account'' @ rsquo @ ''s keys.'')"

definition served_key_digest :: "primitives \<Rightarrow> string \<Rightarrow> nat \<Rightarrow> crypto_error + string" where
  "served_key_digest P publicKey len = bindE (decode publicKey (Some len)) (\<lambda>b. Inr (digest P b))"

definition ownRosterEntry :: "primitives \<Rightarrow> string \<Rightarrow> served_identity \<Rightarrow> group_role list \<Rightarrow> crypto_error + roster_member" where
  "ownRosterEntry P uid identity entry_roles =
     (if \<not> verifyIdentityKeys P uid identity then Inl NOT_OWN_KEYS
      else
        bindE (served_key_digest P (sk_mlDsaPublicKey identity) ML_DSA_PUBLIC_KEY_BYTES) (\<lambda>ml.
        bindE (served_key_digest P (sk_kemPublicKey identity) 1184) (\<lambda>kem.
          Inr \<lparr> userId = uid, keyVersion = nat (sk_keyVersion identity),
            encryptionPublicKey = sk_encryptionPublicKey identity, signingPublicKey = sk_signingPublicKey identity,
            mlDsaPublicKeyDigest = ml, kemPublicKeyDigest = kem, status = Active,
            roles = sort entry_roles, sinceVersion = 1 \<rparr>)))"

record folded_entry =
  foldedEntry :: roster_member
  foldedChanged :: bool
  foldedNeedsCheck :: bool

definition foldInEntry :: "primitives \<Rightarrow> roster_member \<Rightarrow> served_identity \<Rightarrow> succession_link option list \<Rightarrow> nat
    \<Rightarrow> crypto_error + folded_entry" where
  "foldInEntry P entry served given_links version =
     (let unchanged = (\<lambda>needsCheck. Inr \<lparr> foldedEntry = entry, foldedChanged = False, foldedNeedsCheck = needsCheck \<rparr>) in
      if servedIsEntry P served entry then unchanged False
      else if \<not> verifyIdentityKeys P (userId entry) served then unchanged True
      else
        bindE (pinnedOf (keySetOf entry)) (\<lambda>from.
        case fst (successionPath P (userId entry) from (served_keys.truncate served) given_links [] None []) of
          Path _ \<Rightarrow>
            bindE (served_key_digest P (sk_kemPublicKey served) 1184) (\<lambda>kem.
              Inr \<lparr> foldedEntry = entry\<lparr> keyVersion := nat (sk_keyVersion served),
                  encryptionPublicKey := sk_encryptionPublicKey served, signingPublicKey := sk_signingPublicKey served,
                  mlDsaPublicKeyDigest := the (mlDsaDigest P (sk_mlDsaPublicKey served)),
                  kemPublicKeyDigest := kem, sinceVersion := version \<rparr>,
                foldedChanged = True, foldedNeedsCheck = False \<rparr>)
        | _ \<Rightarrow> unchanged True))"

datatype own_entry_check = Own_Ok | Own_Absent | Own_Wrong

definition ownEntry :: "primitives \<Rightarrow> roster \<Rightarrow> string \<Rightarrow> served_keys \<Rightarrow> own_entry_check" where
  "ownEntry P r uid mine =
     (case rosterEntry r uid of None \<Rightarrow> Own_Absent
      | Some entry \<Rightarrow> if servedIsEntry P mine entry then Own_Ok else Own_Wrong)"

section \<open>Rosters to sign\<close>

text \<open>The rules of acceptance with nothing served: no fork can come of them.\<close>

definition rules_unsigned :: "primitives \<Rightarrow> state \<Rightarrow> roster \<Rightarrow> bytes \<Rightarrow> held_roster option \<Rightarrow> crypto_error + unit" where
  "rules_unsigned P st r stmt previous =
     (case rosterRules P st r stmt None previous of
        Inr u \<Rightarrow> Inr u
      | Inl (Refused e) \<Rightarrow> Inl e
      | Inl (Forked _) \<Rightarrow> Inl NOT_FOLLOWING)"

definition firstRoster :: "primitives \<Rightarrow> string \<Rightarrow> roster_member \<Rightarrow> group_kind \<Rightarrow> area_key list \<Rightarrow> nat option
    \<Rightarrow> crypto_error + roster" where
  "firstRoster P gid creator group_of areaKeys fmt =
     bindE (case fmt of None \<Rightarrow> Inr 1 | Some f \<Rightarrow> rosterFormat f) (\<lambda>fmt.
     bindE (rowsAfter P NOTHING_LISTED areaKeys fmt []) (\<lambda>rows.
       let r = \<lparr> groupId = gid, kind = group_of, rosterVersion = 1, previousRosterDigest = [], groupKeyVersion = 1,
             signerUserId = userId creator,
             members = [creator\<lparr> roles := sort (roles creator), sinceVersion := 1 \<rparr>], areas = rows, format = fmt \<rparr>
       in bindE (rosterStatement r) (\<lambda>stmt.
          bindE (uuid (JStr gid) ''group id'') (\<lambda>gid.
            let st = stateOf gid [] None in
            bindE (rules_unsigned P (st\<lparr> groupKeys := groupKeys st @ [\<lparr> ed25519PublicKey = [], mlDsaPublicKey = [] \<rparr>] \<rparr>)
              r stmt None) (\<lambda>_. Inr r)))))"

definition listed_of :: "chain_body \<Rightarrow> listed_areas" where
  "listed_of chain = \<lparr> l_keys = chAreaKeys chain, l_roots = chAreaRoots chain, l_retired = chRetiredAreas chain \<rparr>"

text \<open>\<open>areaRows\<close> of \<open>groups.ts\<close>.\<close>

definition areaRows :: "primitives \<Rightarrow> chain \<Rightarrow> area_key list \<Rightarrow> nat option \<Rightarrow> string list \<Rightarrow> crypto_error + roster_area list" where
  "areaRows P c ks fmt retire =
     bindE (requireAccepted c) (\<lambda>chain.
     bindE (case fmt of Some f \<Rightarrow> Inr f | None \<Rightarrow> rosterFormat (format (chRoster chain))) (\<lambda>f.
       rowsAfter P (listed_of chain) ks f retire))"

record next_options =
  noSigner :: string
  noAreaKeys :: "area_key list"
  noRetire :: "string list"
  noFormat :: "nat option"

definition next_entry :: "roster \<Rightarrow> nat \<Rightarrow> roster_member \<Rightarrow> roster_member" where
  "next_entry before version m =
     (let entry = m\<lparr> roles := sort (roles m) \<rparr> in
      entry\<lparr> sinceVersion := (case rosterEntry before (userId m) of
          Some b \<Rightarrow> if sameEntry b entry then sinceVersion b else version
        | None \<Rightarrow> version) \<rparr>)"

definition next_of :: "chain_body \<Rightarrow> roster_member list \<Rightarrow> string \<Rightarrow> roster_area list \<Rightarrow> nat \<Rightarrow> roster" where
  "next_of chain ms signer rows fmt =
     (let version = rosterVersion (chRoster chain) + 1 in
      \<lparr> groupId = chGroupId chain, kind = chKind chain, rosterVersion = version,
        previousRosterDigest = chRosterDigest chain, groupKeyVersion = chGroupKeyVersion chain,
        signerUserId = signer,
        members = sort_key userId (map (next_entry (chRoster chain) version) ms), areas = rows, format = fmt \<rparr>)"

definition nextRoster :: "primitives \<Rightarrow> chain \<Rightarrow> roster_member list \<Rightarrow> next_options \<Rightarrow> crypto_error + roster" where
  "nextRoster P c ms options =
     bindE (requireAccepted c) (\<lambda>chain.
     bindE (rosterFormat (format (chRoster chain))) (\<lambda>latest.
     bindE (rosterFormat (case noFormat options of None \<Rightarrow> latest | Some f \<Rightarrow> f)) (\<lambda>fmt.
     bindE (refuse_if (fmt < latest) DOWNGRADE) (\<lambda>_.
     bindE (areaRows P c (noAreaKeys options) (Some fmt) (noRetire options)) (\<lambda>rows.
       let r = next_of chain ms (noSigner options) rows fmt in
       bindE (rosterStatement r) (\<lambda>stmt.
       bindE (checkCache P (chGroupId chain) (Some (chCache chain)) False) (\<lambda>cached.
         let st = stateOf (chGroupId chain) [] (Some cached) in
         bindE (rules_unsigned P st r stmt (last_held st)) (\<lambda>_. Inr r))))))))"

section \<open>Trust as the group does\<close>

definition NOT_ON_LIST :: crypto_error where
  "NOT_ON_LIST = CryptoError (''These are not the keys on the group'' @ rsquo @ ''s member list.'')"

record contact =
  ctEmail :: string
  ctName :: string
  ctPinnedAt :: string

definition trustAsGroupDoes :: "primitives \<Rightarrow> chain \<Rightarrow> string \<Rightarrow> served_identity \<Rightarrow> contact \<Rightarrow> crypto_error + contact_pin" where
  "trustAsGroupDoes P c uid served who =
     bindE (requireAccepted c) (\<lambda>chain.
     case rosterEntry (chRoster chain) uid of None \<Rightarrow> Inl NOT_ON_LIST
     | Some entry \<Rightarrow>
         if \<not> activeWith (Some entry) None \<or> \<not> servedIsEntry P served entry
           \<or> \<not> verifyIdentityKeys P (userId entry) served
         then Inl NOT_ON_LIST
         else
           bindE (digestHex (mlDsaPublicKeyDigest entry)) (\<lambda>ml_hash.
           bindE (digestHex (kemPublicKeyDigest entry)) (\<lambda>kem_hash.
           bindE (decode (encryptionPublicKey entry) (Some 32)) (\<lambda>enc.
           bindE (decode (signingPublicKey entry) (Some 32)) (\<lambda>sig.
           bindE (decode (mlDsaPublicKeyDigest entry) (Some 32)) (\<lambda>ml.
           bindE (decode (kemPublicKeyDigest entry) (Some 32)) (\<lambda>kem.
           bindE (fingerprint P enc sig ml kem) (\<lambda>print.
             Inr \<lparr> p_keyVersion = Some (int (keyVersion entry)), p_encryptionPublicKey = encryptionPublicKey entry,
               p_signingPublicKey = signingPublicKey entry, p_mlDsaPublicKeyHash = Some ml_hash,
               p_kemPublicKeyHash = Some kem_hash, p_fingerprint = print,
               cpUserId = userId entry, cpEmail = ctEmail who, cpName = ctName who,
               cpPinnedAt = ctPinnedAt who, cpTrustedVia = Some (chGroupId chain) \<rparr>))))))))"

end
