(* ===== verification/Next_Roster.thy ===== *)
theory Next_Roster
  imports Signing
begin

text \<open>
  The roster a holder builds (\<open>nextRoster\<close>) and the roster a device takes (\<open>acceptRosters\<close> from its
  cache): what one signs, the other accepts.
\<close>

section \<open>A cache read back\<close>

lemma mapE_same: "mapE f (map g xs) = Inr ys \<Longrightarrow> (\<And>x y. x \<in> set xs \<Longrightarrow> f (g x) = Inr y \<Longrightarrow> y = x) \<Longrightarrow> ys = xs"
  by (induction xs arbitrary: ys) (auto simp: returns)

lemma bytesOf_back: "bytesOf (JStr s) n what = Inr t \<Longrightarrow> t = s \<and> (\<exists>b. decode s None = Inr b)"
  by (auto simp: bytesOf_def decode_Inr split: sum.splits if_splits)

lemma checked_key_back:
  assumes "check_cached_key (Some (JStr (ed25519PublicKey k), JStr (mlDsaPublicKey k))) = Inr k'"
  shows "k' = k \<and> (\<exists>d. groupKeyDigest P k = Inr d)"
proof -
  from assms have b: "bytesOf (JStr (ed25519PublicKey k)) 32 ''group key'' = Inr (ed25519PublicKey k')"
    "bytesOf (JStr (mlDsaPublicKey k)) ML_DSA_PUBLIC_KEY_BYTES ''group key'' = Inr (mlDsaPublicKey k')"
    by (auto simp: check_cached_key_def returns)
  from bytesOf_back [OF b(1)] bytesOf_back [OF b(2)] obtain x y where k: "k' = k"
    "decode (ed25519PublicKey k) None = Inr x" "decode (mlDsaPublicKey k) None = Inr y"
    by (cases k; cases k') auto
  with b show ?thesis by (simp add: groupKeyDigest_def)
qed

lemma cache_read_back:
  assumes "checkCache P gid (Some (cache_record gid c)) False = Inr c'"
  shows "cRosterDigests c' = cRosterDigests c" "cGroupKeys c' = cGroupKeys c" "cStatement c' = cStatement c"
    "cached_ok P gid c'" "\<And>k. k \<in> set (cGroupKeys c) \<Longrightarrow> \<exists>d. groupKeyDigest P k = Inr d"
proof -
  have U: "(\<exists>u. Q u) \<longleftrightarrow> Q ()" for Q :: "unit \<Rightarrow> bool" by auto
  from assms have p: "check_cache_parts P gid (cache_record gid c) = Inr c'"
    by (auto simp: checkCache_def returns split: sum.splits)
  then show "cached_ok P gid c'" by (rule check_cache_ok)
  from p obtain digests rds txt_of stmt raw_ks gks where
    t: "typed (rcRosterDigests (cache_record gid c)) = Inr digests" "raw_string (rcStatement (cache_record gid c)) = Inr txt_of"
      "typed (rcGroupKeys (cache_record gid c)) = Inr raw_ks"
    and rds: "mapE (\<lambda>at. digestOf at ''roster digest'') digests = Inr rds" "cRosterDigests c' = rds"
    and stmt: "decode txt_of None = Inr stmt" "cStatement c' = stmt"
    and gks: "mapE check_cached_key raw_ks = Inr gks" "cGroupKeys c' = gks"
    unfolding check_cache_parts_def Let_def bindE_Inr bad_if_def refuse_if_Inr U sum.inject
    apply (elim exE conjE)
    apply hypsubst
    subgoal premises p
      using p by (elim p(1)) auto
    done
  from t rds stmt gks have r: "mapE (\<lambda>at. digestOf at ''roster digest'') (map JStr (cRosterDigests c)) = Inr rds" "cRosterDigests c' = rds"
    and s: "decode (encode (cStatement c)) None = Inr stmt" "cStatement c' = stmt"
    and g: "mapE check_cached_key (map (\<lambda>k. Some (JStr (ed25519PublicKey k), JStr (mlDsaPublicKey k))) (cGroupKeys c)) = Inr gks"
      "cGroupKeys c' = gks"
    by (simp_all add: cache_record_def)
  show "cRosterDigests c' = cRosterDigests c"
    unfolding r(2) by (rule mapE_same [OF r(1)]) (auto simp: digestOf_def bytesOf_def returns split: sum.splits if_splits)
  show "cGroupKeys c' = cGroupKeys c"
    unfolding g(2) by (rule mapE_same [OF g(1)]) (use checked_key_back in blast)
  show "cStatement c' = cStatement c" using s by (auto simp: decode_Inr dest: encode_inj)
  show "\<exists>d. groupKeyDigest P k = Inr d" if "k \<in> set (cGroupKeys c)" for k
  proof -
    have "Some (JStr (ed25519PublicKey k), JStr (mlDsaPublicKey k))
      \<in> set (map (\<lambda>k. Some (JStr (ed25519PublicKey k), JStr (mlDsaPublicKey k))) (cGroupKeys c))"
      using that by simp
    from mapE_mem [OF g(1) this] checked_key_back show ?thesis by blast
  qed
qed

section \<open>The marks of a cache alone\<close>

lemma add_mark_versions: "v' \<in> set (versions_in (add_mark m v side)) \<longleftrightarrow> v' = v \<or> v' \<in> set (versions_in m)"
  by (simp add: versions_in_iff add_mark_def map_of_alist_update)

lemma cache_roster_versions:
  "set (versions_in (cache_roster_marks signer version ds m)) = set (versions_in m) \<union> {version..<version + length ds}"
  by (induction signer version ds m rule: cache_roster_marks.induct) (auto simp: add_mark_versions)

lemma cache_key_versions:
  "cache_key_marks P ss index ks m = Inr m' \<Longrightarrow>
     set (versions_in m') = set (versions_in m) \<union> {index + 1..<index + 1 + length ks}"
  by (induction ks arbitrary: index m) (auto simp: returns add_mark_versions)

lemma cache_key_marks_exist:
  "(\<And>k. k \<in> set ks \<Longrightarrow> \<exists>d. groupKeyDigest P k = Inr d) \<Longrightarrow> \<exists>m'. cache_key_marks P ss index ks m = Inr m'"
  by (induction ks arbitrary: index m) (force simp: returns)+


text \<open>The marks a cache makes agree with each other and with any chain that continues it.\<close>

lemma cache_only_marks:
  assumes ok: "cached_ok P gid c" and keyed: "\<And>k. k \<in> set (cGroupKeys c) \<Longrightarrow> \<exists>d. groupKeyDigest P k = Inr d"
    and g: "gvPins given = []" "gvCached given = Some c"
  obtains m where "own_marks_of P given = Inr m" "marks_agree m = Inr ()"
    "firstMarks m = [side_of (firstKeysMark P (ed25519PublicKey (hd (cGroupKeys c)))
       (mlDsaDigest P (mlDsaPublicKey (hd (cGroupKeys c))))) From_Cache (Some (cCreatorUserId c))]"
    "set (versions_in (rosterMarks m)) = {1..<1 + length (cRosterDigests c)}"
    "set (versions_in (keyMarkSides m)) = {1..<1 + length (cGroupKeys c)}"
proof -
  from cache_key_marks_exist [OF keyed] obtain kms where k: "cache_key_marks P (cSuccessions c) 0 (cGroupKeys c) [] = Inr kms" by blast
  let ?m = "\<lparr> rosterMarks = cache_roster_marks (signerUserId (cRoster c)) 1 (cRosterDigests c) [], keyMarkSides = kms,
    firstMarks = [side_of (firstKeysMark P (ed25519PublicKey (hd (cGroupKeys c)))
       (mlDsaDigest P (mlDsaPublicKey (hd (cGroupKeys c))))) From_Cache (Some (cCreatorUserId c))] \<rparr>"
  have m: "own_marks_of P given = Inr ?m" using k g by (simp add: own_marks_of_def cache_marks_def Let_def)
  have r: "sideDigest a = sideDigest b" if "a \<in> set (get_or [] (rosterMarks ?m) v)" "b \<in> set (get_or [] (rosterMarks ?m) v)" for a b v
    using that own_marks_marked(1) [OF m, of v "sideDigest a"] own_marks_marked(1) [OF m, of v "sideDigest b"] g
    by (auto simp: marked_def)
  have ks: "sideDigest a = sideDigest b" if "a \<in> set (get_or [] (keyMarkSides ?m) v)" "b \<in> set (get_or [] (keyMarkSides ?m) v)" for a b v
    using that own_marks_marked(2) [OF m, of v "sideDigest a"] own_marks_marked(2) [OF m, of v "sideDigest b"] g
    by (auto simp: marked_def)
  have "marks_agree ?m = Inr ()"
    unfolding marks_agree_def bindE_Inr ex_unit for_each_Inr conflict_Inr
    by (intro conjI ballI) (simp, erule (1) r, erule (1) ks)
  moreover have "versions_in ([] :: marks) = []" by (simp add: versions_in_def)
  ultimately show thesis
    using that [OF m] cache_key_versions [OF k] cache_roster_versions [of "signerUserId (cRoster c)" 1 "cRosterDigests c" "[]"]
    by simp
qed


section \<open>The rules with a signed copy\<close>

lemma rules_with_copy:
  assumes "rules_unsigned P st r stmt (Some previous) = Inr ()"
    and "groupKeys st' = groupKeys st" "verified st' = verified st" "stAreas st' = stAreas st"
    and "verifyGroup P stmt (signature copy) (groupKeys st ! (groupKeyVersion r - 1))"
    and "signedByMember P (heldRoster previous) (signerUserId r) copy (mlDsaKeys st')"
  shows "rosterRules P st' r stmt (Some [copy]) (Some previous) = Inr ()"
proof -
  have "rosterRules P st r stmt None (Some previous) = Inr ()"
    using assms(1) by (auto simp: rules_unsigned_def split: sum.splits failure.splits)
  moreover have "roster_signed P st' r stmt (Some [copy]) (heldRoster previous) = Inr ()"
    using assms(2,5,6) by (simp add: roster_signed_def)
  ultimately show ?thesis
    unfolding rosterRules_def Let_def option.case assms(2-4)
    by (auto simp: bindE_Inr refused_by_Inr split: if_splits)
qed

lemma establish_none:
  assumes "candidates_at st (length (groupKeys st)) = []"
  shows "\<exists>st'. establishAll P st = Inr st' \<and> apart_notes st st'"
proof -
  have "establishAll P st = Inr (st\<lparr> refused := AList.update (length (groupKeys st)) NO_SUCCESSION (refused st) \<rparr>)"
    using assms by (simp add: establishAll.simps establishNext_def nextSuccession_def Let_def successions_from_def
        choose_succession_def chosen_of_def split: option.splits)
  then show ?thesis by (auto simp: apart_notes_def)
qed

lemma one_served: "parse (statement copy) = Inr value \<Longrightarrow>
  byDigest P [copy] parse = Inr [\<lparr> servedValue = value, servedStatement = statement copy,
    servedDigest = digest P (statement copy), copies = [copy] \<rparr>]"
  by (simp add: byDigest_def)


section \<open>The acceptance of one roster more\<close>

text \<open>One roster served to a device that continues from its cache, naming the next version and the last digest.\<close>

lemma one_more_path:
  assumes "rosterVersion (servedValue s) = length (cRosterDigests c) + 1"
    and "previousRosterDigest (servedValue s) = last (cRosterDigests c)"
  shows "extends_cache (Some c) [s]" "bottom_of (Some c) [s] = length (cRosterDigests c)"
    "head_of (Some c) [s] = length (cRosterDigests c) + 1" "chain_path (Some c) [s] = Inr [s]"
proof -
  show x: "extends_cache (Some c) [s]" using assms(1) by (simp add: extends_cache_def)
  then show b: "bottom_of (Some c) [s] = length (cRosterDigests c)" by (simp add: bottom_of_def)
  then show h: "head_of (Some c) [s] = length (cRosterDigests c) + 1" using assms(1) by (simp add: head_of_def)
  show "chain_path (Some c) [s] = Inr [s]"
    using assms x by (simp add: chain_path_def Let_def b h link_path.simps)
qed

lemma one_more_marks:
  assumes m: "own_marks_of P given = Inr m" "marks_agree m = Inr ()"
    and g: "gvPins given = []" "gvCached given = Some c" "gvJoinMark given = None" "gvPairMarks given = []"
    and first: "firstMarks m \<noteq> []"
    and versions: "set (versions_in (rosterMarks m)) = {1..<1 + length (cRosterDigests c)}"
      "set (versions_in (keyMarkSides m)) = {1..<1 + length (cGroupKeys c)}"
    and st: "groupKeys st = cGroupKeys c" "keyMarks st = map (\<lambda>(version, all). (version, hd (sides all))) (keyMarkSides m)"
    and keyed: "\<And>k. k \<in> set (cGroupKeys c) \<Longrightarrow> \<exists>d. groupKeyDigest P k = Inr d"
    and head: "length (cRosterDigests c) \<le> head"
    and digests: "\<And>v. 1 \<le> v \<Longrightarrow> v \<le> length (cRosterDigests c) \<Longrightarrow> chainDigest v = cRosterDigests c ! (v - 1)"
  shows "marks_met P input given m head chainDigest st = Inr ()"
proof -
  have ok: "\<not> list_ex (\<lambda>v. head < v) (versions_in (rosterMarks m))" using versions(1) head by (auto simp: list_ex_iff)
  have "sideDigest a = chainDigest v" if "a \<in> set (get_or [] (rosterMarks m) v)" for a v
    using that own_marks_marked(1) [OF m(1), of v "sideDigest a"] g digests by (auto simp: marked_def)
  then have "conflict Of_Roster v (map (name_signer st) (get_or [] (rosterMarks m) v)
      @ [name_signer st (side_of (chainDigest v) From_Served None)]) = Inr ()" for v
    unfolding conflict_Inr by (auto simp: side_of_def)
  with ok have 1: "roster_marks_met st chainDigest head (rosterMarks m) = Inr ()"
    by (simp add: roster_marks_met_def returns for_each_Inr)
  have 2: "(if v > length (groupKeys st) then Inr ()
         else bindE (refused_by (groupKeyDigest P (groupKeys st ! (v - 1)))) (\<lambda>kd.
           conflict Of_Group_Key v [the (map_of (keyMarks st) v),
             side_of kd From_Served (map_option verifiedSigner (map_of (verified st) (v - 1)))])) = Inr ()"
    if v: "v \<in> set (versions_in (keyMarkSides m))" for v
  proof -
    from v versions(2) have i: "v - 1 < length (cGroupKeys c)" "v = Suc (v - 1)" by auto
    then obtain d where d: "groupKeyDigest P (cGroupKeys c ! (v - 1)) = Inr d" using keyed nth_mem by blast
    with i g have "marked (keyMarkSides m) v d" unfolding own_marks_marked(2) [OF m(1)] by blast
    from marks_agree_keys [OF m(2) this] obtain all where
      all: "map_of (keyMarkSides m) v = Some all" "sideDigest (hd (sides all)) = d" by blast
    then have "map_of (keyMarks st) v = Some (hd (sides all))" by (simp add: st map_of_map)
    with all(2) d i show ?thesis
      by (simp add: st refused_by_def bindE_def conflict_Inr side_of_def)
  qed
  have "versions_in (keyMarks st) = versions_in (keyMarkSides m)"
    by (simp add: versions_in_def st comp_def case_prod_unfold)
  with 2 versions(2) have 3: "key_marks_met P st (keyMarkSides m) = Inr ()"
    unfolding key_marks_met_def bindE_Inr ex_unit for_each_Inr refuse_if_Inr by (auto simp: list_ex_iff st)
  show ?thesis using 1 3 g first
    by (simp add: marks_met_def join_mark_met_def pair_marks_met_def first_use_met_def first_use_def)
qed


text \<open>From a chain's record, the rules hold for one roster more once it is signed, and it is the latest.\<close>

lemma one_more_verified:
  assumes st0: "groupKeys st0 = cGroupKeys c" "verified st0 = verified (stateOf gid [] (Some c))"
    "stAreas st0 = stAreas (stateOf gid [] (Some c))" "held st0 = held (stateOf gid [] (Some c))"
    "mlDsaKeys st0 = mlKeys" "\<And>v. candidates_at st0 v = []"
    and rules: "rules_unsigned P (stateOf gid [] (Some c)) r (statement copy) (last_held (stateOf gid [] (Some c))) = Inr ()"
    and keyed: "groupKeyVersion r = length (cGroupKeys c)" "cGroupKeys c \<noteq> []"
    and signed_by: "verifyGroup P (statement copy) (signature copy) (last (cGroupKeys c))"
      "signedByMember P (cRoster c) (signerUserId r) copy mlKeys"
    and s: "servedValue s = r" "servedStatement s = statement copy" "copies s = [copy]"
  obtains st where "verify_chain P st0 [s] = Inr st" "groupKeys st = groupKeys st0" "keyMarks st = keyMarks st0"
    "heldRoster (last_of st) = r"
proof -
  let ?kept = "stateOf gid [] (Some c)"
  obtain st1 where st1: "establishAll P st0 = Inr st1" "apart_notes st0 st1" using establish_none st0(6) by blast
  obtain st2 where st2: "establishAll P (hold st1 s) = Inr st2" "apart_notes (hold st1 s) st2"
    using establish_none [of "hold st1 s" P] notes_candidates [OF st1(2)] st0(6) by (auto simp: candidates_at_def hold_def)
  have lh: "last_held st1 = last_held ?kept" "last_held ?kept = Some (last (held ?kept))"
    "heldRoster (last (held ?kept)) = cRoster c"
    using st1(2) st0(4) by (simp_all add: apart_notes_def last_held_def stateOf_def)
  have "rosterRules P st1 r (statement copy) (Some [copy]) (last_held st1) = Inr ()"
    unfolding lh(1,2)
    by (rule rules_with_copy [OF rules [unfolded lh(2)]])
      (use st1(2) st0 signed_by keyed lh(3) in \<open>simp_all add: apart_notes_def last_conv_nth stateOf_def\<close>)
  then have "verify_chain P st0 [s] = Inr st2"
    using st1(1) st2(1) s by (simp add: verify_chain_def refused_by_def)
  moreover have "groupKeys st2 = groupKeys st0" "keyMarks st2 = keyMarks st0" "heldRoster (last_of st2) = r"
    using st1(2) st2(2) s by (simp_all add: last_of_def apart_notes_def hold_def)
  ultimately show thesis by (rule that)
qed

text \<open>The chain's record read back is the chain's.\<close>

lemma accepted_record:
  assumes "accept P input = Inr (body, st)" and c': "checkCache P (chGroupId body) (Some (chCache body)) False = Inr c'"
  shows "cRosterDigests c' = chRosterDigests body" "cGroupKeys c' = chGroupKeys body" "cRoster c' = chRoster body"
    "cached_ok P (chGroupId body) c'" "chGroupKeys body \<noteq> []" "\<And>k. k \<in> set (chGroupKeys body) \<Longrightarrow> \<exists>d. groupKeyDigest P k = Inr d"
proof -
  note latest = accepted_latest [OF assms(1)]
  obtain c where c: "chCache body = cache_record (chGroupId body) c" "cRosterDigests c = chRosterDigests body"
    "cStatement c = chStatement body" "cGroupKeys c = chGroupKeys body" using latest(11) by blast
  note read_back = cache_read_back [OF c' [unfolded c(1)]]
  show "cRosterDigests c' = chRosterDigests body" "cGroupKeys c' = chGroupKeys body" "cRoster c' = chRoster body"
    "cached_ok P (chGroupId body) c'" "chGroupKeys body \<noteq> []"
    using read_back(1-4) c latest(8) by (auto simp: cached_ok_def)
  show "\<exists>d. groupKeyDigest P k = Inr d" if "k \<in> set (chGroupKeys body)" for k using read_back(5) that c(4) by simp
qed

section \<open>Properties\<close>


text \<open>C4. What a holder signs, every device takes: the roster \<open>nextRoster\<close> builds on an accepted chain, once
  signed with the group key and by the signer's own keys, is accepted by a device that continues from the
  same chain's record, and becomes its latest roster. A holder never signs a list the family cannot take.\<close>

theorem next_roster_accepted:
  assumes "accept P input = Inr (body, st)" and "nextRoster P (Accepted_Rosters body) ms options = Inr r"
    and "rosterStatement r = Inr (statement copy)"
    and "verifyGroup P (statement copy) (signature copy) (chGroupKey body)"
    and "signedByMember P (chRoster body) (noSigner options) copy mlKeys"
  shows "\<exists>body' st'. Accepted.extend P (Accepted_Rosters body) [copy] [] mlKeys = Inr (body', st') \<and> chRoster body' = r"
proof -
  note latest = accepted_latest [OF assms(1)]
  from assms(2) obtain rows fmt c' where r: "r = next_of body ms (noSigner options) rows fmt"
    and c': "checkCache P (chGroupId body) (Some (chCache body)) False = Inr c'"
    and rules: "rules_unsigned P (stateOf (chGroupId body) [] (Some c')) r (statement copy)
      (last_held (stateOf (chGroupId body) [] (Some c'))) = Inr ()"
    using assms(3) by (auto simp: nextRoster_def requireAccepted_def Let_def bindE_Inr)
  note ok = accepted_record [OF assms(1) c']
  have rv: "rosterVersion r = length (cRosterDigests c') + 1" "previousRosterDigest r = last (cRosterDigests c')"
    "groupId r = chGroupId body" "groupKeyVersion r = length (cGroupKeys c')" "signerUserId r = noSigner options"
    using latest(2,3,9) ok(1,2) by (simp_all add: r next_of_def Let_def)
  have uid: "uuid (JStr (chGroupId body)) what = Inr (chGroupId body)" for what
    using assms(3) rv(3) by (auto simp: rosterStatement_wf roster_wf_def uuid_def)
  let ?s = "\<lparr> servedValue = r, servedStatement = statement copy, servedDigest = digest P (statement copy), copies = [copy] \<rparr>"
  let ?given = "\<lparr> gvGroupId = chGroupId body, gvPins = [], gvCached = Some c', gvJoinMark = None, gvPairMarks = [] \<rparr>"
  let ?input = "chain_step (Accepted_Rosters body) [copy] [] mlKeys"
  obtain m where m: "own_marks_of P ?given = Inr m" "marks_agree m = Inr ()"
    "firstMarks m = [side_of (firstKeysMark P (ed25519PublicKey (hd (cGroupKeys c')))
       (mlDsaDigest P (mlDsaPublicKey (hd (cGroupKeys c'))))) From_Cache (Some (cCreatorUserId c'))]"
    "set (versions_in (rosterMarks m)) = {1..<1 + length (cRosterDigests c')}"
    "set (versions_in (keyMarkSides m)) = {1..<1 + length (cGroupKeys c')}"
    using cache_only_marks [OF ok(4), of ?given] ok(2,6) by auto
  have given: "check_given P ?input = Inr ?given" using uid c' by (simp add: check_given_def chain_step_def)
  have parse: "parseRoster (statement copy) = Inr r" using assms(3) by (simp add: roster.reads_iff_writes)
  have read: "read_served P ?input ?given m = Inr ([?s], [])"
    using one_served [of parseRoster copy r P, OF parse] rv(3) m(3) ok(2)
    by (simp add: read_served_def chain_step_def first_keys_vouched_def side_of_def byDigest_def)
  have "rosterVersion (servedValue ?s) = length (cRosterDigests c') + 1"
    "previousRosterDigest (servedValue ?s) = last (cRosterDigests c')" using rv(1,2) by simp_all
  note path = one_more_path [OF this]
  define st0 where "st0 = starting ?input ?given m [?s] []"
  have st0: "groupKeys st0 = cGroupKeys c'" "verified st0 = verified (stateOf (chGroupId body) [] (Some c'))"
    "stAreas st0 = stAreas (stateOf (chGroupId body) [] (Some c'))" "held st0 = held (stateOf (chGroupId body) [] (Some c'))"
    "mlDsaKeys st0 = mlKeys" "candidates_at st0 v = []"
    "keyMarks st0 = map (\<lambda>(version, all). (version, hd (sides all))) (keyMarkSides m)" for v
    using path(1) by (simp_all add: st0_def starting_simps continued_of_def stateOf_def starting_candidates chain_step_def)
  obtain st2 where st2: "verify_chain P st0 [?s] = Inr st2" "groupKeys st2 = groupKeys st0" "keyMarks st2 = keyMarks st0"
    "heldRoster (last_of st2) = r"
    by (rule one_more_verified [OF st0(1-6) rules rv(4), of ?s])
      (use assms(4,5) latest(10) ok(2,3,5) rv(5) in simp_all)
  have "marks_met P ?input ?given m (head_of (Some c') [?s]) (chain_digest (Some c') (bottom_of (Some c') [?s]) [?s]) st2 = Inr ()"
    by (rule one_more_marks [OF m(1,2) _ _ _ _ _ m(4,5)])
      (use st2 st0 ok(2,6) path m(3) in \<open>simp_all add: chain_digest_def\<close>)
  then have a: "accepts P ?input ?given m [?s] [] [?s] st2"
    using given m(1,2) read path(4) st2(1) by (simp add: accepts_def st0_def)
  from st2(2) st0(1) obtain d where "groupKeyDigest P (last (groupKeys st2)) = Inr d" using ok(2,5,6) by (metis last_in_set)
  then obtain body' where "finish P ?input ?given (continued_of ?given [?s]) [?s] [?s] st2 = Inr body'"
    by (simp add: finish_def Let_def)
  with a have took: "accept P ?input = Inr (body', st2)" unfolding accept_Inr by blast
  with accepted_latest(7) [OF took] st2(4) show ?thesis by (auto simp: Accepted.extend_def)
qed

end
