(* ===== verification/Sealing.thy ===== *)
theory Sealing
  imports Pins
begin

text \<open>
  \<open>packages/crypto/src/sealing.ts\<close>, the hybrid seal shares and group seals are made with (X25519 and
  ML-KEM-768, signed with the sealer's identity), with what it uses of \<open>hybrid.ts\<close>, \<open>aead.ts\<close>, \<open>pq.ts\<close>
  and \<open>signatures.ts\<close>, and \<open>shares.ts\<close>. What libsodium and noble compute, randomness included, is an
  argument.
\<close>

section \<open>Primitives\<close>

record seal_primitives =
  \<comment> \<open>private key, public key; \<open>None\<close> where libsodium throws (an all-zero agreement)\<close>
  crypto_scalarmult :: "bytes \<Rightarrow> bytes \<Rightarrow> bytes option"
  crypto_scalarmult_base :: "bytes \<Rightarrow> bytes"
  \<comment> \<open>public key, coins; the ciphertext and the shared secret, or \<open>None\<close> where noble throws\<close>
  ml_kem768_encapsulate :: "bytes \<Rightarrow> bytes \<Rightarrow> (bytes \<times> bytes) option"
  ml_kem768_decapsulate :: "bytes \<Rightarrow> bytes \<Rightarrow> bytes"
  \<comment> \<open>text, associated data, nonce, key\<close>
  aead_encrypt :: "bytes \<Rightarrow> bytes \<Rightarrow> bytes \<Rightarrow> bytes \<Rightarrow> bytes"
  aead_decrypt :: "bytes \<Rightarrow> bytes \<Rightarrow> bytes \<Rightarrow> bytes \<Rightarrow> bytes option"
  \<comment> \<open>message, secret key\<close>
  crypto_sign_detached :: "bytes \<Rightarrow> bytes \<Rightarrow> bytes"
  \<comment> \<open>message, secret key, context, coins\<close>
  ml_dsa65_sign :: "bytes \<Rightarrow> bytes \<Rightarrow> bytes \<Rightarrow> bytes \<Rightarrow> bytes"
  \<comment> \<open>seed; the public and the secret key\<close>
  crypto_sign_seed_keypair :: "bytes \<Rightarrow> bytes \<times> bytes"
  ml_dsa65_keygen :: "bytes \<Rightarrow> bytes \<times> bytes"
  ml_dsa65_getPublicKey :: "bytes \<Rightarrow> bytes option"

section \<open>Key encapsulation and signing (pq.ts, signatures.ts)\<close>

definition KEM_PUBLIC_KEY_BYTES :: nat where "KEM_PUBLIC_KEY_BYTES = 1184"
definition KEM_SECRET_KEY_BYTES :: nat where "KEM_SECRET_KEY_BYTES = 2400"
definition KEM_CIPHERTEXT_BYTES :: nat where "KEM_CIPHERTEXT_BYTES = 1088"
definition ML_DSA_SEED_BYTES :: nat where "ML_DSA_SEED_BYTES = 32"
definition ML_DSA_SECRET_KEY_BYTES :: nat where "ML_DSA_SECRET_KEY_BYTES = 4032"
definition SIGNING_SECRET_KEY_BYTES :: nat where "SIGNING_SECRET_KEY_BYTES = 64"

definition INVALID_IDENTITY_KEY :: crypto_error where
  "INVALID_IDENTITY_KEY = invalid ''identity key''"

definition INVALID_SIGNING_KEY :: crypto_error where
  "INVALID_SIGNING_KEY = invalid ''signing key''"

definition kemEncapsulate :: "seal_primitives \<Rightarrow> bytes \<Rightarrow> bytes \<Rightarrow> crypto_error + bytes \<times> bytes" where
  "kemEncapsulate S publicKey kem_coins =
     (if length publicKey \<noteq> KEM_PUBLIC_KEY_BYTES then Inl INVALID_IDENTITY_KEY
      else case ml_kem768_encapsulate S publicKey kem_coins of
        None \<Rightarrow> Inl INVALID_IDENTITY_KEY | Some out \<Rightarrow> Inr out)"

definition kemDecapsulate :: "seal_primitives \<Rightarrow> bytes \<Rightarrow> bytes \<Rightarrow> crypto_error + bytes" where
  "kemDecapsulate S ciphertext secretKey =
     (if length ciphertext \<noteq> KEM_CIPHERTEXT_BYTES then Inl (invalid ''share envelope'')
      else if length secretKey \<noteq> KEM_SECRET_KEY_BYTES then Inl INVALID_IDENTITY_KEY
      else Inr (ml_kem768_decapsulate S ciphertext secretKey))"

definition mlDsaKeypair :: "seal_primitives \<Rightarrow> bytes \<Rightarrow> crypto_error + bytes \<times> bytes" where
  "mlDsaKeypair S seed =
     (if length seed \<noteq> ML_DSA_SEED_BYTES then Inl (invalid ''key seed'') else Inr (ml_dsa65_keygen S seed))"

definition mlDsaSign :: "seal_primitives \<Rightarrow> bytes \<Rightarrow> bytes \<Rightarrow> string \<Rightarrow> bytes \<Rightarrow> crypto_error + bytes" where
  "mlDsaSign S message secretKey ctx sign_coins =
     (if length secretKey \<noteq> ML_DSA_SECRET_KEY_BYTES then Inl INVALID_SIGNING_KEY
      else Inr (ml_dsa65_sign S message secretKey (text_encode ctx) sign_coins))"

definition signStatement :: "seal_primitives \<Rightarrow> bytes \<Rightarrow> bytes \<Rightarrow> crypto_error + bytes" where
  "signStatement S message signingKey =
     (if length signingKey \<noteq> SIGNING_SECRET_KEY_BYTES then Inl INVALID_SIGNING_KEY
      else Inr (crypto_sign_detached S message signingKey))"

record hybrid_signing_key =
  hs_signingKey :: bytes
  hs_mlDsaSecretKey :: bytes

text \<open>The two halves of their fixed lengths, set side by side.\<close>

definition signHybrid :: "seal_primitives \<Rightarrow> bytes \<Rightarrow> hybrid_signing_key \<Rightarrow> bytes \<Rightarrow> crypto_error + bytes" where
  "signHybrid S message ks sign_coins =
     bindE (signStatement S message (hs_signingKey ks)) (\<lambda>classical.
     bindE (mlDsaSign S message (hs_mlDsaSecretKey ks) IDENTITY_SIGNATURE_CONTEXT sign_coins) (\<lambda>lattice.
       Inr (classical @ lattice)))"

section \<open>The body key (hybrid.ts, aead.ts)\<close>

definition hybridKeyWithSalt :: "primitives \<Rightarrow> bytes \<Rightarrow> bytes \<Rightarrow> bytes \<Rightarrow> string \<Rightarrow> bytes" where
  "hybridKeyWithSalt P pair kemSecret salt info = hkdf P (pair @ kemSecret) salt (text_encode info)"

definition NOT_OPENED :: crypto_error where
  "NOT_OPENED = CryptoError
     ''This encrypted key could not be opened. It may belong to a different account or version, or it may be damaged.''"

definition decryptKey :: "seal_primitives \<Rightarrow> bytes \<Rightarrow> bytes \<Rightarrow> bytes \<Rightarrow> bytes \<Rightarrow> crypto_error + bytes" where
  "decryptKey S ciphertext key nonce ctx =
     (case aead_decrypt S ciphertext ctx nonce key of None \<Rightarrow> Inl NOT_OPENED | Some m \<Rightarrow> Inr m)"

section \<open>Sealing (sealing.ts)\<close>

record grantee_keys =
  gr_encryptionPublicKey :: bytes
  gr_kemPublicKey :: "bytes option"

record grantee_secrets =
  gs_privateKey :: bytes
  gs_kemSecretKey :: "bytes option"

definition agree :: "seal_primitives \<Rightarrow> bytes \<Rightarrow> bytes \<Rightarrow> crypto_error + bytes" where
  "agree S myPrivateKey theirPublicKey =
     (if length theirPublicKey \<noteq> 32 \<or> length myPrivateKey \<noteq> 32 then Inl INVALID_IDENTITY_KEY
      else case crypto_scalarmult S myPrivateKey theirPublicKey of
        None \<Rightarrow> Inl INVALID_IDENTITY_KEY | Some dh \<Rightarrow> Inr dh)"

definition hybridSealKey :: "primitives \<Rightarrow> bytes \<Rightarrow> bytes \<Rightarrow> bytes \<Rightarrow> bytes \<Rightarrow> bytes \<Rightarrow> string \<Rightarrow> bytes" where
  "hybridSealKey P dh kemSecret kemCiphertext ephemeralPublicKey granteePublicKey info =
     hybridKeyWithSalt P dh kemSecret (sha256 P (kemCiphertext @ ephemeralPublicKey @ granteePublicKey)) info"

record hybrid_seal_kind =
  kindInfo :: string
  kindData :: bytes
  kindStatement :: "bytes \<Rightarrow> crypto_error + bytes"
  kindNoun :: string
  kindInvalid :: crypto_error
  kindUnsigned :: crypto_error

definition hybridSealBytes :: "nat \<Rightarrow> nat" where
  "hybridSealBytes payloadBytes = 32 + KEM_CIPHERTEXT_BYTES + 24 + payloadBytes + 16 + HYBRID_SIGNATURE_BYTES"

text \<open>What is drawn for one seal: the ephemeral key pair, the encapsulation's and the signature's coins, the nonce.\<close>

record seal_coins =
  ephemeralPrivate :: bytes
  kemCoins :: bytes
  sealNonce :: bytes
  signCoins :: bytes

definition NO_KEM_KEY :: crypto_error where
  "NO_KEM_KEY = CryptoError ''This person has no post-quantum key yet, so nothing was shared.''"

definition sealHybrid :: "primitives \<Rightarrow> seal_primitives \<Rightarrow> seal_coins \<Rightarrow> bytes \<Rightarrow> grantee_keys \<Rightarrow> hybrid_signing_key
    \<Rightarrow> hybrid_seal_kind \<Rightarrow> crypto_error + bytes" where
  "sealHybrid P S coins payload recipient sealer kd =
     (case gr_kemPublicKey recipient of None \<Rightarrow> Inl NO_KEM_KEY
      | Some kemPublicKey \<Rightarrow>
          if length kemPublicKey \<noteq> KEM_PUBLIC_KEY_BYTES then Inl INVALID_IDENTITY_KEY
          else
            let ephemeralPublic = crypto_scalarmult_base S (ephemeralPrivate coins) in
            bindE (agree S (ephemeralPrivate coins) (gr_encryptionPublicKey recipient)) (\<lambda>dh.
            bindE (kemEncapsulate S kemPublicKey (kemCoins coins)) (\<lambda>(ciphertext, sharedSecret).
              let key = hybridSealKey P dh sharedSecret ciphertext ephemeralPublic
                    (gr_encryptionPublicKey recipient) (kindInfo kd);
                  body = aead_encrypt S payload (kindData kd) (sealNonce coins) key;
                  signed_part = ephemeralPublic @ ciphertext @ sealNonce coins @ body
              in bindE (kindStatement kd signed_part) (\<lambda>stmt.
                 bindE (signHybrid S stmt sealer (signCoins coins)) (\<lambda>sig.
                   Inr (signed_part @ sig))))))"

definition sealed_to_missing_key :: "string \<Rightarrow> crypto_error" where
  "sealed_to_missing_key noun = CryptoError
     (''This '' @ noun @ '' was sealed to a key this account does not hold yet. Unlock again and retry.'')"

definition sealer_holds :: "primitives \<Rightarrow> bytes \<Rightarrow> bytes \<Rightarrow> hybrid_public_key \<Rightarrow> bool" where
  "sealer_holds P stmt sig sealer \<longleftrightarrow> length (h_signingPublicKey sealer) = 32
     \<and> length (h_mlDsaPublicKey sealer) = 1952 \<and> verifyHybrid P stmt sig sealer"

definition openHybrid :: "primitives \<Rightarrow> seal_primitives \<Rightarrow> bytes \<Rightarrow> nat \<Rightarrow> hybrid_public_key list \<Rightarrow> grantee_secrets
    \<Rightarrow> hybrid_seal_kind \<Rightarrow> crypto_error + bytes" where
  "openHybrid P S envelope payloadBytes sealers recipient kd =
     (if length envelope \<noteq> hybridSealBytes payloadBytes then Inl (kindInvalid kd)
      else
        let at = length envelope - HYBRID_SIGNATURE_BYTES; signed_part = take at envelope; sig = drop at envelope in
        bindE (kindStatement kd signed_part) (\<lambda>stmt.
          if \<not> list_ex (sealer_holds P stmt sig) sealers then Inl (kindUnsigned kd)
          else case gs_kemSecretKey recipient of None \<Rightarrow> Inl (sealed_to_missing_key (kindNoun kd))
          | Some kemSecretKey \<Rightarrow>
              if length kemSecretKey \<noteq> KEM_SECRET_KEY_BYTES then Inl (sealed_to_missing_key (kindNoun kd))
              else
                let ephemeralPublic = take 32 envelope;
                    ciphertext = take KEM_CIPHERTEXT_BYTES (drop 32 envelope);
                    nonce = take 24 (drop (32 + KEM_CIPHERTEXT_BYTES) envelope);
                    body = drop (32 + KEM_CIPHERTEXT_BYTES + 24) signed_part in
                bindE (agree S (gs_privateKey recipient) ephemeralPublic) (\<lambda>dh.
                bindE (kemDecapsulate S ciphertext kemSecretKey) (\<lambda>sharedSecret.
                  let key = hybridSealKey P dh sharedSecret ciphertext ephemeralPublic
                        (crypto_scalarmult_base S (gs_privateKey recipient)) (kindInfo kd)
                  in decryptKey S body key nonce (kindData kd)))))"

section \<open>Shares (shares.ts)\<close>

definition SIGNED_SHARE_ENVELOPE_BYTES :: nat where
  "SIGNED_SHARE_ENVELOPE_BYTES = 32 + KEM_CIPHERTEXT_BYTES + 24 + 32 + 16 + HYBRID_SIGNATURE_BYTES"

definition SIGNED_SHARE_KEY_INFO :: string where
  "SIGNED_SHARE_KEY_INFO = ''hushos/drive/share-key/v4''"

definition shareSuite :: "bytes \<Rightarrow> crypto_error + nat" where
  "shareSuite envelope =
     (if length envelope = SIGNED_SHARE_ENVELOPE_BYTES then Inr 4 else Inl (invalid ''share envelope''))"

definition shareContext :: "share_statement \<Rightarrow> nat \<Rightarrow> bytes" where
  "shareContext ctx share_suite = statement_bytes [JStr ''hushos/drive/share'', num share_suite,
     JStr (toLowerCase (sh_workspaceId ctx)), JStr (toLowerCase (sh_nodeId ctx)), JNum (sh_keyEpoch ctx),
     JStr (toLowerCase (sh_granteeUserId ctx)), JStr (toLowerCase (sh_granterUserId ctx))]"

definition NOT_SHARED_BY :: crypto_error where
  "NOT_SHARED_BY = CryptoError ''This share is not signed by the person who shared it.''"

definition shareKind :: "primitives \<Rightarrow> share_statement \<Rightarrow> hybrid_seal_kind" where
  "shareKind P ctx = \<lparr> kindInfo = SIGNED_SHARE_KEY_INFO, kindData = shareContext ctx 4,
     kindStatement = shareStatement P ctx, kindNoun = ''share'', kindInvalid = invalid ''share envelope'',
     kindUnsigned = NOT_SHARED_BY \<rparr>"

definition sealShareKey :: "primitives \<Rightarrow> seal_primitives \<Rightarrow> seal_coins \<Rightarrow> bytes \<Rightarrow> grantee_keys \<Rightarrow> hybrid_signing_key
    \<Rightarrow> share_statement \<Rightarrow> crypto_error + bytes" where
  "sealShareKey P S coins nodeKey grantee granter ctx =
     (if length nodeKey \<noteq> 32 then Inl (invalid ''node key'')
      else sealHybrid P S coins nodeKey grantee granter (shareKind P ctx))"

definition NEEDS_SHARER_KEY :: crypto_error where
  "NEEDS_SHARER_KEY = CryptoError ''This share needs the key of the person who shared it.''"

definition openShareKey :: "primitives \<Rightarrow> seal_primitives \<Rightarrow> bytes \<Rightarrow> hybrid_public_key \<Rightarrow> grantee_secrets
    \<Rightarrow> share_statement \<Rightarrow> crypto_error + bytes" where
  "openShareKey P S envelope granter grantee ctx =
     bindE (shareSuite envelope) (\<lambda>_.
       if length (h_signingPublicKey granter) \<noteq> 32 \<or> length (h_mlDsaPublicKey granter) \<noteq> 1952
       then Inl NEEDS_SHARER_KEY
       else openHybrid P S envelope 32 [granter] grantee (shareKind P ctx))"

section \<open>What the primitives promise\<close>

text \<open>X25519 on 32-byte private keys agrees on both sides, and its public keys have 32 bytes.\<close>

definition x25519_agrees :: "seal_primitives \<Rightarrow> bool" where
  "x25519_agrees S \<longleftrightarrow>
     (\<forall>a b. length a = 32 \<longrightarrow> length b = 32 \<longrightarrow>
        crypto_scalarmult S a (crypto_scalarmult_base S b) = crypto_scalarmult S b (crypto_scalarmult_base S a))
     \<and> (\<forall>a. length a = 32 \<longrightarrow> length (crypto_scalarmult_base S a) = 32)"

text \<open>A KEM key pair: the secret key finds what was encapsulated to the public one.\<close>

definition kem_pair :: "seal_primitives \<Rightarrow> bytes \<Rightarrow> bytes \<Rightarrow> bool" where
  "kem_pair S public secret \<longleftrightarrow> (\<forall>kem_coins c s. ml_kem768_encapsulate S public kem_coins = Some (c, s) \<longrightarrow>
     length c = KEM_CIPHERTEXT_BYTES \<and> ml_kem768_decapsulate S c secret = s)"

text \<open>XChaCha20-Poly1305 with its 24-byte nonce and 32-byte key opens what it sealed, sixteen bytes longer.\<close>

definition aead_correct :: "seal_primitives \<Rightarrow> bool" where
  "aead_correct S \<longleftrightarrow> (\<forall>m ctx n k. length n = 24 \<longrightarrow> length k = 32 \<longrightarrow>
     length (aead_encrypt S m ctx n k) = length m + 16
     \<and> aead_decrypt S (aead_encrypt S m ctx n k) ctx n k = Some m)"

text \<open>A hybrid key pair: what the secret halves sign verifies under the public ones.\<close>

definition hybrid_pair :: "primitives \<Rightarrow> seal_primitives \<Rightarrow> hybrid_signing_key \<Rightarrow> hybrid_public_key \<Rightarrow> bool" where
  "hybrid_pair P S secret public \<longleftrightarrow> (\<forall>m sign_coins sig. signHybrid S m secret sign_coins = Inr sig \<longrightarrow>
     verifyHybrid P m sig public)"

section \<open>Lemmas\<close>

lemma verifyHybrid_length: "verifyHybrid P m sig ks \<Longrightarrow> length sig = HYBRID_SIGNATURE_BYTES"
  by (simp add: verifyHybrid_def split: if_splits)

lemma sealHybrid_Inr:
  "sealHybrid P S coins payload recipient sealer kd = Inr env \<longleftrightarrow>
     (\<exists>kemPublic dh ciphertext sharedSecret stmt sig.
        gr_kemPublicKey recipient = Some kemPublic \<and> length kemPublic = KEM_PUBLIC_KEY_BYTES
        \<and> agree S (ephemeralPrivate coins) (gr_encryptionPublicKey recipient) = Inr dh
        \<and> kemEncapsulate S kemPublic (kemCoins coins) = Inr (ciphertext, sharedSecret)
        \<and> (let ep = crypto_scalarmult_base S (ephemeralPrivate coins);
               body = aead_encrypt S payload (kindData kd) (sealNonce coins)
                 (hybridSealKey P dh sharedSecret ciphertext ep (gr_encryptionPublicKey recipient) (kindInfo kd));
               signed_part = ep @ ciphertext @ sealNonce coins @ body
           in kindStatement kd signed_part = Inr stmt \<and> signHybrid S stmt sealer (signCoins coins) = Inr sig
              \<and> env = signed_part @ sig))"
  by (auto simp: sealHybrid_def Let_def returns split: option.splits)

lemma openHybrid_signed:
  assumes "openHybrid P S envelope n sealers recipient kd = Inr payload"
  shows "length envelope = hybridSealBytes n
    \<and> (\<exists>sealer \<in> set sealers. \<exists>stmt. kindStatement kd (take (length envelope - HYBRID_SIGNATURE_BYTES) envelope) = Inr stmt
        \<and> verifyHybrid P stmt (drop (length envelope - HYBRID_SIGNATURE_BYTES) envelope) sealer)"
  using assms by (auto simp: openHybrid_def Let_def returns list_ex_iff sealer_holds_def split: if_splits option.splits)


lemma seal_opens:
  assumes "sealHybrid P S coins payload recipient sealer kd = Inr envelope"
    and "x25519_agrees S" and "aead_correct S" and "hkdf_32 P" and "hybrid_pair P S sealer sealer_public"
    and "gr_encryptionPublicKey recipient = crypto_scalarmult_base S (gs_privateKey secrets)"
    and "gs_kemSecretKey secrets = Some kemSecret" and "length kemSecret = KEM_SECRET_KEY_BYTES"
    and "\<And>public. gr_kemPublicKey recipient = Some public \<Longrightarrow> kem_pair S public kemSecret"
    and "length (gs_privateKey secrets) = 32" and "length (sealNonce coins) = 24"
    and "sealer_public \<in> set sealers" and "length (h_signingPublicKey sealer_public) = 32"
    and "length (h_mlDsaPublicKey sealer_public) = 1952"
  shows "openHybrid P S envelope (length payload) sealers secrets kd = Inr payload
    \<and> length envelope = hybridSealBytes (length payload)"
proof -
  let ?ep = "crypto_scalarmult_base S (ephemeralPrivate coins)"
  from assms(1) [unfolded sealHybrid_Inr Let_def] obtain kemPublic dh ciphertext sharedSecret stmt sig where
    k: "gr_kemPublicKey recipient = Some kemPublic" "length kemPublic = KEM_PUBLIC_KEY_BYTES"
    and dh: "agree S (ephemeralPrivate coins) (gr_encryptionPublicKey recipient) = Inr dh"
    and kem: "kemEncapsulate S kemPublic (kemCoins coins) = Inr (ciphertext, sharedSecret)"
    and st: "kindStatement kd (?ep @ ciphertext @ sealNonce coins @ aead_encrypt S payload (kindData kd) (sealNonce coins)
        (hybridSealKey P dh sharedSecret ciphertext ?ep (gr_encryptionPublicKey recipient) (kindInfo kd))) = Inr stmt"
    and sig: "signHybrid S stmt sealer (signCoins coins) = Inr sig"
    and env: "envelope = (?ep @ ciphertext @ sealNonce coins @ aead_encrypt S payload (kindData kd) (sealNonce coins)
        (hybridSealKey P dh sharedSecret ciphertext ?ep (gr_encryptionPublicKey recipient) (kindInfo kd))) @ sig" by blast
  let ?key = "hybridSealKey P dh sharedSecret ciphertext ?ep (gr_encryptionPublicKey recipient) (kindInfo kd)"
  let ?body = "aead_encrypt S payload (kindData kd) (sealNonce coins) ?key"
  let ?part = "?ep @ ciphertext @ sealNonce coins @ ?body"
  have v: "verifyHybrid P stmt sig sealer_public" using assms(5) sig by (simp add: hybrid_pair_def)
  have eph: "length (ephemeralPrivate coins) = 32" using dh by (simp add: agree_def split: if_splits)
  then have ep: "length ?ep = 32" using assms(2) by (simp add: x25519_agrees_def)
  have e: "ml_kem768_encapsulate S kemPublic (kemCoins coins) = Some (ciphertext, sharedSecret)"
    using kem by (auto simp: kemEncapsulate_def split: if_splits option.splits)
  with assms(9) [OF k(1)] have c: "length ciphertext = KEM_CIPHERTEXT_BYTES" "ml_kem768_decapsulate S ciphertext kemSecret = sharedSecret"
    by (auto simp: kem_pair_def)
  have b: "length ?body = length payload + 16" "aead_decrypt S ?body (kindData kd) (sealNonce coins) ?key = Some payload"
    using assms(3,4,11) by (simp_all add: aead_correct_def hkdf_32_def hybridSealKey_def hybridKeyWithSalt_def)
  have sl: "length sig = HYBRID_SIGNATURE_BYTES" using v by (rule verifyHybrid_length)
  have len: "length envelope = hybridSealBytes (length payload)"
    using ep c(1) b(1) assms(11) sl by (simp add: env hybridSealBytes_def)
  have part: "length envelope - HYBRID_SIGNATURE_BYTES = length ?part" by (simp add: env sl)
  have at: "take (length ?part) envelope = ?part" "drop (length ?part) envelope = sig"
    "take 32 envelope = ?ep" "take KEM_CIPHERTEXT_BYTES (drop 32 envelope) = ciphertext"
    "take 24 (drop (32 + KEM_CIPHERTEXT_BYTES) envelope) = sealNonce coins"
    "drop (32 + KEM_CIPHERTEXT_BYTES + 24) ?part = ?body"
    using ep c(1) assms(11) by (simp_all add: env drop_append)
  have "agree S (gs_privateKey secrets) ?ep = Inr dh"
    using dh assms(2,6,10) ep eph by (auto simp: agree_def x25519_agrees_def split: if_splits option.splits)
  moreover have "list_ex (sealer_holds P stmt sig) sealers"
    using v assms(12-14) by (auto simp: list_ex_iff sealer_holds_def)
  ultimately have "openHybrid P S envelope (length payload) sealers secrets kd = Inr payload"
    using len assms(7,8) st c b(2)
    unfolding openHybrid_def Let_def part at assms(6) [symmetric]
    by (simp add: kemDecapsulate_def decryptKey_def)
  with len show ?thesis by blast
qed

section \<open>Properties\<close>

text \<open>What is sealed opens, to the payload, for the recipient who holds both private halves and trusts
  the sealer's keys, and the envelope has the length its kind says.\<close>

theorem sealed_opens:
  assumes "sealHybrid P S coins payload recipient sealer kd = Inr envelope"
    and "x25519_agrees S" and "aead_correct S" and "hkdf_32 P" and "hybrid_pair P S sealer sealer_public"
    and "gr_encryptionPublicKey recipient = crypto_scalarmult_base S (gs_privateKey secrets)"
    and "gs_kemSecretKey secrets = Some kemSecret" and "length kemSecret = KEM_SECRET_KEY_BYTES"
    and "\<And>public. gr_kemPublicKey recipient = Some public \<Longrightarrow> kem_pair S public kemSecret"
    and "length (gs_privateKey secrets) = 32" and "length (sealNonce coins) = 24"
    and "sealer_public \<in> set sealers" and "length (h_signingPublicKey sealer_public) = 32"
    and "length (h_mlDsaPublicKey sealer_public) = 1952"
  shows "openHybrid P S envelope (length payload) sealers secrets kd = Inr payload
    \<and> length envelope = hybridSealBytes (length payload)"
  using assms by (rule seal_opens)

text \<open>C34. A share opens only when the person who shared it signed exactly what was sealed, in this place, to
  this grantee, with both halves of the keys given: nothing is decapsulated before.\<close>

theorem opened_share_was_signed:
  assumes "openShareKey P S envelope granter grantee ctx = Inr nodeKey"
  shows "\<exists>stmt. shareStatement P ctx (take (length envelope - HYBRID_SIGNATURE_BYTES) envelope) = Inr stmt
    \<and> verifyHybrid P stmt (drop (length envelope - HYBRID_SIGNATURE_BYTES) envelope) granter
    \<and> length envelope = SIGNED_SHARE_ENVELOPE_BYTES"
proof -
  from assms have o: "openHybrid P S envelope 32 [granter] grantee (shareKind P ctx) = Inr nodeKey"
    by (auto simp: openShareKey_def returns split: if_splits)
  from openHybrid_signed [OF o] show ?thesis
    by (auto simp: shareKind_def hybridSealBytes_def SIGNED_SHARE_ENVELOPE_BYTES_def)
qed

end
