(* ===== verification/Group_Seals.thy ===== *)
theory Group_Seals
  imports Signing Sealing
begin

text \<open>
  \<open>groups.ts\<close>, what rests on an accepted chain: a member's signature and its earlier keys
  (\<open>memberSigner\<close>, \<open>signersThrough\<close>), the group key pair and what it signs, the two seals (the group key
  to its holders, an area's key to a member) with their openings, and the areas as a member uses them.
\<close>

section \<open>Signers on a roster\<close>

definition NOT_LISTED :: crypto_error where
  "NOT_LISTED = CryptoError (''This person'' @ rsquo @ ''s keys are not the ones on the group'' @ rsquo @ ''s member list.'')"

definition NOT_A_MEMBER :: crypto_error where
  "NOT_A_MEMBER = CryptoError (''This person is not on the group'' @ rsquo @ ''s member list.'')"

definition signerOnRoster :: "primitives \<Rightarrow> roster \<Rightarrow> string \<Rightarrow> bytes \<Rightarrow> crypto_error + hybrid_public_key" where
  "signerOnRoster P r uid served_ml =
     (case rosterEntry r uid of None \<Rightarrow> Inl NOT_A_MEMBER
      | Some entry \<Rightarrow>
          if length served_ml \<noteq> ML_DSA_PUBLIC_KEY_BYTES \<or> digest P served_ml \<noteq> mlDsaPublicKeyDigest entry
          then Inl NOT_LISTED
          else bindE (decode (signingPublicKey entry) (Some 32)) (\<lambda>ed.
            Inr \<lparr> h_signingPublicKey = ed, h_mlDsaPublicKey = served_ml \<rparr>))"

definition memberSigner :: "primitives \<Rightarrow> chain \<Rightarrow> string \<Rightarrow> bytes \<Rightarrow> crypto_error + hybrid_public_key" where
  "memberSigner P c uid served_ml =
     bindE (requireAccepted c) (\<lambda>chain. signerOnRoster P (chRoster chain) uid served_ml)"

definition verifyMemberSignature :: "primitives \<Rightarrow> chain \<Rightarrow> string \<Rightarrow> bytes \<Rightarrow> bytes \<Rightarrow> bytes \<Rightarrow> crypto_error + bool" where
  "verifyMemberSignature P c uid served_ml message sig =
     bindE (requireAccepted c) (\<lambda>chain.
       Inr (caught (bindE (signerOnRoster P (chRoster chain) uid served_ml) (\<lambda>ks. Inr (verifyHybrid P message sig ks)))))"

record signer_history =
  shServed :: served_keys
  shLinks :: "succession_link option list"

definition is_entry_keys :: "primitives \<Rightarrow> roster_member \<Rightarrow> string \<Rightarrow> string \<Rightarrow> string \<Rightarrow> crypto_error + bool" where
  "is_entry_keys P entry enc signing ml =
     (if enc \<noteq> encryptionPublicKey entry \<or> signing \<noteq> signingPublicKey entry then Inr False
      else bindE (decode ml (Some ML_DSA_PUBLIC_KEY_BYTES)) (\<lambda>b. Inr (digest P b = mlDsaPublicKeyDigest entry)))"

text \<open>Each link's old keys, up to the entry's own; whether they were reached.\<close>

fun path_signers :: "primitives \<Rightarrow> roster_member \<Rightarrow> succession_link list \<Rightarrow> crypto_error + (hybrid_public_key list \<times> bool)" where
  "path_signers P entry [] = Inr ([], False)"
| "path_signers P entry (link # rest) =
     bindE (under_keys (oldSigningPublicKey link) (l_oldMlDsaPublicKey link)) (\<lambda>ks.
     bindE (is_entry_keys P entry (oldEncryptionPublicKey link) (oldSigningPublicKey link) (l_oldMlDsaPublicKey link))
       (\<lambda>reached.
         if reached then Inr ([ks], True)
         else bindE (path_signers P entry rest) (\<lambda>(more_keys, reached). Inr (ks # more_keys, reached))))"

definition first_keys_of :: "chain_body \<Rightarrow> roster_member \<Rightarrow> key_set" where
  "first_keys_of chain entry =
     (case map_of (chKeyHistory chain) (userId entry) of Some (f # _) \<Rightarrow> f | _ \<Rightarrow> keySetOf entry)"

definition history_signers :: "primitives \<Rightarrow> chain_body \<Rightarrow> roster_member \<Rightarrow> signer_history
    \<Rightarrow> crypto_error + hybrid_public_key list" where
  "history_signers P chain entry past =
     bindE (pinnedOf (first_keys_of chain entry)) (\<lambda>from.
     bindE (pinnedOf (keySetOf entry)) (\<lambda>until.
     case fst (successionPath P (userId entry) from (shServed past) (shLinks past) [] (Some until) []) of
       Path ls \<Rightarrow>
         bindE (path_signers P entry ls) (\<lambda>(signers, reached).
         bindE (if reached then Inr True
           else is_entry_keys P entry (sk_encryptionPublicKey (shServed past)) (sk_signingPublicKey (shServed past))
             (sk_mlDsaPublicKey (shServed past))) (\<lambda>reached.
           Inr (if reached then signers else [])))
     | _ \<Rightarrow> Inr []))"

definition own_signer :: "primitives \<Rightarrow> roster_member \<Rightarrow> bytes option \<Rightarrow> crypto_error + hybrid_public_key list" where
  "own_signer P entry served_ml =
     (case served_ml of None \<Rightarrow> Inr []
      | Some ml \<Rightarrow>
          if length ml = ML_DSA_PUBLIC_KEY_BYTES \<and> digest P ml = mlDsaPublicKeyDigest entry
          then bindE (decode (signingPublicKey entry) (Some 32)) (\<lambda>ed.
            Inr [\<lparr> h_signingPublicKey = ed, h_mlDsaPublicKey = ml \<rparr>])
          else Inr [])"

definition signersThrough :: "primitives \<Rightarrow> chain_body \<Rightarrow> string \<Rightarrow> bytes option \<Rightarrow> signer_history option
    \<Rightarrow> crypto_error + hybrid_public_key list" where
  "signersThrough P chain uid served_ml past =
     (case rosterEntry (chRoster chain) uid of None \<Rightarrow> Inl NOT_A_MEMBER
      | Some entry \<Rightarrow>
          bindE (own_signer P entry served_ml) (\<lambda>own.
          bindE (case past of None \<Rightarrow> Inr [] | Some p \<Rightarrow> history_signers P chain entry p) (\<lambda>earlier.
            if own @ earlier = [] then Inl NOT_LISTED else Inr (own @ earlier))))"

definition NOT_SEALERS_KEYS :: crypto_error where
  "NOT_SEALERS_KEYS = CryptoError (''These are not the sealer'' @ rsquo @ ''s keys on the group'' @ rsquo @ ''s member list.'')"

definition sealerHolds :: "primitives \<Rightarrow> seal_primitives \<Rightarrow> chain_body \<Rightarrow> string \<Rightarrow> hybrid_signing_key \<Rightarrow> crypto_error + unit" where
  "sealerHolds P S chain uid sealer =
     (if length (hs_signingKey sealer) \<noteq> 64 then Inl NOT_SEALERS_KEYS
      else
        let derived = fst (crypto_sign_seed_keypair S (take 32 (hs_signingKey sealer))) in
        if drop 32 (hs_signingKey sealer) \<noteq> derived then Inl NOT_SEALERS_KEYS
        else case ml_dsa65_getPublicKey S (hs_mlDsaSecretKey sealer) of None \<Rightarrow> Inl NOT_SEALERS_KEYS
        | Some ml \<Rightarrow>
            (case rosterEntry (chRoster chain) uid of None \<Rightarrow> Inl NOT_SEALERS_KEYS
             | Some entry \<Rightarrow>
                 refuse_if (signingPublicKey entry \<noteq> encode derived \<or> mlDsaPublicKeyDigest entry \<noteq> digest P ml)
                   NOT_SEALERS_KEYS))"

definition memberRecipient :: "primitives \<Rightarrow> roster_member \<Rightarrow> bytes \<Rightarrow> crypto_error + grantee_keys" where
  "memberRecipient P entry kemPublicKey =
     (if length kemPublicKey \<noteq> KEM_PUBLIC_KEY_BYTES \<or> digest P kemPublicKey \<noteq> kemPublicKeyDigest entry
      then Inl NOT_LISTED
      else bindE (decode (encryptionPublicKey entry) (Some 32)) (\<lambda>enc.
        Inr \<lparr> gr_encryptionPublicKey = enc, gr_kemPublicKey = Some kemPublicKey \<rparr>))"

section \<open>The group key pair\<close>

definition GROUP_SEED_BYTES :: nat where
  "GROUP_SEED_BYTES = 64"

record group_key_pair =
  gkPublicKey :: group_public_key
  gkSigningKey :: bytes
  gkMlDsaSecretKey :: bytes

definition groupKeyPair :: "seal_primitives \<Rightarrow> bytes \<Rightarrow> crypto_error + group_key_pair" where
  "groupKeyPair S seed =
     (if length seed \<noteq> GROUP_SEED_BYTES then Inl (invalid ''group key'')
      else
        let (ed_public, ed_secret) = crypto_sign_seed_keypair S (take 32 seed) in
        bindE (mlDsaKeypair S (drop 32 seed)) (\<lambda>(ml_public, ml_secret).
          Inr \<lparr> gkPublicKey = \<lparr> ed25519PublicKey = encode ed_public, mlDsaPublicKey = encode ml_public \<rparr>,
            gkSigningKey = ed_secret, gkMlDsaSecretKey = ml_secret \<rparr>))"

definition signGroup :: "seal_primitives \<Rightarrow> bytes \<Rightarrow> group_key_pair \<Rightarrow> bytes \<Rightarrow> crypto_error + group_signature" where
  "signGroup S message key sign_coins =
     bindE (signStatement S message (gkSigningKey key)) (\<lambda>ed.
     bindE (mlDsaSign S message (gkMlDsaSecretKey key) GROUP_SIGNATURE_CONTEXT sign_coins) (\<lambda>ml.
       Inr \<lparr> ed25519 = ed, mlDsa = ml \<rparr>))"

definition signRoster :: "seal_primitives \<Rightarrow> roster \<Rightarrow> group_key_pair \<Rightarrow> hybrid_signing_key \<Rightarrow> bytes \<times> bytes
    \<Rightarrow> crypto_error + signed_statement" where
  "signRoster S r groupKey signer sign_coins =
     bindE (rosterStatement r) (\<lambda>stmt.
     bindE (signGroup S stmt groupKey (fst sign_coins)) (\<lambda>sig.
     bindE (signHybrid S stmt signer (snd sign_coins)) (\<lambda>signer_sig.
       Inr \<lparr> statement = stmt, signature = sig, signerSignature = signer_sig \<rparr>)))"

definition NOT_REPLACED_KEY :: crypto_error where
  "NOT_REPLACED_KEY = CryptoError ''This is not the group key being replaced.''"

definition signGroupSuccession :: "seal_primitives \<Rightarrow> group_key_succession \<Rightarrow> group_key_pair \<Rightarrow> hybrid_signing_key
    \<Rightarrow> bytes \<times> bytes \<Rightarrow> crypto_error + signed_statement" where
  "signGroupSuccession S succession oldKey signer sign_coins =
     bindE (groupSuccessionStatement succession) (\<lambda>stmt.
     if \<not> sameGroupKey (gkPublicKey oldKey) (old_key_of succession) then Inl NOT_REPLACED_KEY
     else
       bindE (signGroup S stmt oldKey (fst sign_coins)) (\<lambda>sig.
       bindE (signHybrid S stmt signer (snd sign_coins)) (\<lambda>signer_sig.
         Inr \<lparr> statement = stmt, signature = sig, signerSignature = signer_sig \<rparr>)))"

section \<open>Seals: what they name\<close>

definition KEY_SEAL_INFO :: string where
  "KEY_SEAL_INFO = ''hushos/group/key-seal/v1''"

definition AREA_GRANT_INFO :: string where
  "AREA_GRANT_INFO = ''hushos/group/area-grant/v1''"

definition GROUP_KEY_SEAL_BYTES :: nat where
  "GROUP_KEY_SEAL_BYTES = hybridSealBytes GROUP_SEED_BYTES"

definition AREA_GRANT_BYTES :: nat where
  "AREA_GRANT_BYTES = hybridSealBytes 32"

record seal_place =
  sealGroupId :: string
  sealRosterVersion :: int
  sealRosterDigest :: string

record key_seal_context = seal_place +
  ksGroupKeyVersion :: int
  ksHolderUserId :: string
  ksHolderKeyVersion :: int
  ksSealerUserId :: string

record area_grant_context = seal_place +
  agWorkspaceId :: string
  agWorkspaceKeyVersion :: int
  agGranteeUserId :: string
  agGranteeKeyVersion :: int
  agGranterUserId :: string

definition keySealParts :: "key_seal_context \<Rightarrow> crypto_error + json list" where
  "keySealParts ctx =
     bindE (uuid (JStr (sealGroupId ctx)) ''group id'') (\<lambda>gid.
     bindE (integer (JNum (ksGroupKeyVersion ctx)) ''group key version'') (\<lambda>gkv.
     bindE (uuid (JStr (ksHolderUserId ctx)) ''user id'') (\<lambda>holder.
     bindE (integer (JNum (ksHolderKeyVersion ctx)) ''key version'') (\<lambda>hkv.
     bindE (uuid (JStr (ksSealerUserId ctx)) ''user id'') (\<lambda>sealer.
     bindE (integer (JNum (sealRosterVersion ctx)) ''roster version'') (\<lambda>rv.
     bindE (digestOf (JStr (sealRosterDigest ctx)) ''roster digest'') (\<lambda>rd.
       Inr [JStr ''hushos/group/key-seal'', JNum 1, JStr gid, num gkv, JStr holder, num hkv, JStr sealer,
         num rv, JStr rd])))))))"

definition areaGrantParts :: "area_grant_context \<Rightarrow> crypto_error + json list" where
  "areaGrantParts ctx =
     bindE (uuid (JStr (sealGroupId ctx)) ''group id'') (\<lambda>gid.
     bindE (uuid (JStr (agWorkspaceId ctx)) ''workspace id'') (\<lambda>wid.
     bindE (integer (JNum (agWorkspaceKeyVersion ctx)) ''workspace key version'') (\<lambda>wkv.
     bindE (uuid (JStr (agGranteeUserId ctx)) ''user id'') (\<lambda>grantee.
     bindE (integer (JNum (agGranteeKeyVersion ctx)) ''key version'') (\<lambda>gkv.
     bindE (uuid (JStr (agGranterUserId ctx)) ''user id'') (\<lambda>granter.
     bindE (integer (JNum (sealRosterVersion ctx)) ''roster version'') (\<lambda>rv.
     bindE (digestOf (JStr (sealRosterDigest ctx)) ''roster digest'') (\<lambda>rd.
       Inr [JStr ''hushos/group/area-grant'', JNum 1, JStr gid, JStr wid, num wkv, JStr grantee, num gkv,
         JStr granter, num rv, JStr rd]))))))))"

definition groupKeySealStatement :: "primitives \<Rightarrow> key_seal_context \<Rightarrow> bytes \<Rightarrow> crypto_error + bytes" where
  "groupKeySealStatement P ctx sealed =
     bindE (keySealParts ctx) (\<lambda>parts. encodeStatement (parts @ [JStr (digest P sealed)]))"

definition areaGrantStatement :: "primitives \<Rightarrow> area_grant_context \<Rightarrow> bytes \<Rightarrow> crypto_error + bytes" where
  "areaGrantStatement P ctx sealed =
     bindE (areaGrantParts ctx) (\<lambda>parts. encodeStatement (parts @ [JStr (digest P sealed)]))"

definition groupKeySealContext :: "key_seal_context \<Rightarrow> crypto_error + bytes" where
  "groupKeySealContext ctx = bindE (keySealParts ctx) encodeStatement"

definition areaGrantContext :: "area_grant_context \<Rightarrow> crypto_error + bytes" where
  "areaGrantContext ctx = bindE (areaGrantParts ctx) encodeStatement"

definition NOT_SEALED_BY_HOLDER :: crypto_error where
  "NOT_SEALED_BY_HOLDER = CryptoError ''This group key was not sealed by a member who holds it.''"

definition NOT_SIGNED_BY_GRANTER :: crypto_error where
  "NOT_SIGNED_BY_GRANTER = CryptoError ''This grant is not signed by the member who made it.''"

definition keySealKind :: "primitives \<Rightarrow> key_seal_context \<Rightarrow> crypto_error + hybrid_seal_kind" where
  "keySealKind P ctx =
     bindE (groupKeySealContext ctx) (\<lambda>data.
       Inr \<lparr> kindInfo = KEY_SEAL_INFO, kindData = data, kindStatement = groupKeySealStatement P ctx,
         kindNoun = ''group key'', kindInvalid = invalid ''group key seal'', kindUnsigned = NOT_SEALED_BY_HOLDER \<rparr>)"

definition areaGrantKind :: "primitives \<Rightarrow> area_grant_context \<Rightarrow> crypto_error + hybrid_seal_kind" where
  "areaGrantKind P ctx =
     bindE (areaGrantContext ctx) (\<lambda>data.
       Inr \<lparr> kindInfo = AREA_GRANT_INFO, kindData = data, kindStatement = areaGrantStatement P ctx,
         kindNoun = ''grant'', kindInvalid = invalid ''area grant'', kindUnsigned = NOT_SIGNED_BY_GRANTER \<rparr>)"

definition ANOTHER_GROUP :: crypto_error where
  "ANOTHER_GROUP = CryptoError ''This is for another group.''"

definition sameGroup :: "chain \<Rightarrow> string \<Rightarrow> crypto_error + chain_body" where
  "sameGroup c gid =
     bindE (requireAccepted c) (\<lambda>chain.
     bindE (uuid (JStr gid) ''group id'') (\<lambda>gid.
     bindE (refuse_if (gid \<noteq> chGroupId chain \<or> groupId (chRoster chain) \<noteq> chGroupId chain) ANOTHER_GROUP) (\<lambda>_.
       Inr chain)))"

definition NOT_AT_LATEST :: crypto_error where
  "NOT_AT_LATEST = CryptoError ''A seal names the latest member list this device accepted.''"

definition sealedAtLatest :: "chain_body \<Rightarrow> 'a seal_place_scheme \<Rightarrow> crypto_error + unit" where
  "sealedAtLatest chain ctx =
     refuse_if (sealRosterVersion ctx \<noteq> int (rosterVersion (chRoster chain)) \<or> sealRosterDigest ctx \<noteq> chRosterDigest chain)
       NOT_AT_LATEST"

definition NOT_SEALED_HERE :: crypto_error where
  "NOT_SEALED_HERE = CryptoError ''This was sealed on a member list this device does not have.''"

definition at_index :: "'a list \<Rightarrow> int \<Rightarrow> 'a option" where
  "at_index xs i = (if 0 \<le> i \<and> i < int (length xs) then Some (xs ! nat i) else None)"

definition sealedOnChain :: "chain_body \<Rightarrow> 'a seal_place_scheme \<Rightarrow> crypto_error + unit" where
  "sealedOnChain chain ctx =
     bindE (integer (JNum (sealRosterVersion ctx)) ''roster version'') (\<lambda>v.
       refuse_if (at_index (chRosterDigests chain) (int v - 1) \<noteq> Some (sealRosterDigest ctx)) NOT_SEALED_HERE)"

definition NOT_GROUPS_AREA :: crypto_error where
  "NOT_GROUPS_AREA = CryptoError ''This area does not belong to the group.''"

definition areaOf :: "primitives \<Rightarrow> string \<Rightarrow> string \<Rightarrow> string \<Rightarrow> crypto_error + unit" where
  "areaOf P gid wid areaIdSeed =
     (case checkId P ''workspace'' gid areaIdSeed wid of Inl _ \<Rightarrow> Inl NOT_GROUPS_AREA | Inr _ \<Rightarrow> Inr ())"

section \<open>Areas as a member uses them\<close>

definition areaCommitments :: "chain_body \<Rightarrow> string \<Rightarrow> string list option" where
  "areaCommitments chain wid =
     (case uuid (JStr wid) ''workspace id'' of Inl _ \<Rightarrow> None | Inr _ \<Rightarrow> map_of (chAreaKeys chain) wid)"

definition listedArea :: "chain_body \<Rightarrow> string \<Rightarrow> int \<Rightarrow> string option" where
  "listedArea chain wid version =
     (if \<not> isSafeInteger version \<or> version < 1 then None
      else case areaCommitments chain wid of None \<Rightarrow> None | Some list \<Rightarrow> at_index list (version - 1))"

definition areaWriteVersion :: "chain \<Rightarrow> string \<Rightarrow> crypto_error + nat option" where
  "areaWriteVersion c wid =
     bindE (requireAccepted c) (\<lambda>chain.
       Inr (if wid \<in> set (chRetiredAreas chain) then None else map_option length (areaCommitments chain wid)))"

definition VERSION_NOT_LISTED :: crypto_error where
  "VERSION_NOT_LISTED = CryptoError (''This area key version is not on the group'' @ rsquo @ ''s member list.'')"

definition NOT_LISTED_ROOT :: crypto_error where
  "NOT_LISTED_ROOT = CryptoError (''This folder'' @ rsquo @ ''s key is not the one the group'' @ rsquo @ ''s member list names.'')"

definition NOT_LISTED_KEY :: crypto_error where
  "NOT_LISTED_KEY = CryptoError (''This area key is not the one the group'' @ rsquo @ ''s member list names.'')"

definition checkAreaRoot :: "primitives \<Rightarrow> chain \<Rightarrow> string \<Rightarrow> int \<Rightarrow> bytes \<Rightarrow> crypto_error + bool" where
  "checkAreaRoot P c wid version rootKey =
     bindE (requireAccepted c) (\<lambda>chain.
     bindE (integer (JNum version) ''workspace key version'') (\<lambda>_.
     bindE (refuse_if (wid \<in> set (chRetiredAreas chain)) RETIRED) (\<lambda>_.
     bindE (refuse_if (listedArea chain wid version \<in> {None, Some []}) VERSION_NOT_LISTED) (\<lambda>_.
     case at_index (get_or [] (chAreaRoots chain) wid) (version - 1) of
       None \<Rightarrow> Inl NOT_LISTED_ROOT
     | Some None \<Rightarrow> Inr False
     | Some (Some listed) \<Rightarrow>
         bindE (areaRootCommitment P rootKey) (\<lambda>committed.
         bindE (refuse_if (committed \<noteq> listed) NOT_LISTED_ROOT) (\<lambda>_. Inr True))))))"

definition nextAreaKey :: "primitives \<Rightarrow> chain \<Rightarrow> string \<Rightarrow> bytes \<Rightarrow> bytes option \<Rightarrow> crypto_error + roster_area" where
  "nextAreaKey P c wid workspaceKey rootKey =
     bindE (areaRows P c [\<lparr> k_workspaceId = wid, k_workspaceKey = workspaceKey, k_rootKey = rootKey \<rparr>]
       (if rootKey \<noteq> None then Some 2 else None) []) (\<lambda>rows. Inr (hd rows))"

definition areasToRotate :: "chain \<Rightarrow> roster_member list \<Rightarrow> crypto_error + string list" where
  "areasToRotate c ms =
     bindE (requireAccepted c) (\<lambda>chain.
       Inr (if chKind chain \<noteq> Family then []
         else if list_ex (\<lambda>entry. status entry = Left
             \<and> (case rosterEntry (chRoster chain) (userId entry) of None \<Rightarrow> False | Some m \<Rightarrow> status m = Active)) ms
         then sort (filter (\<lambda>wid. wid \<notin> set (chRetiredAreas chain)) (map fst (chAreaKeys chain)))
         else []))"

section \<open>Sealing and opening\<close>

definition ONLY_HOLDERS_SEAL :: crypto_error where
  "ONLY_HOLDERS_SEAL = CryptoError ''The group key is sealed only by a member who holds it.''"
definition ONLY_TO_HOLDERS :: crypto_error where
  "ONLY_TO_HOLDERS = CryptoError ''The group key is sealed only to members who hold it.''"
definition NOT_THIS_HOLDER :: crypto_error where
  "NOT_THIS_HOLDER = CryptoError (''This group key was not sealed to this account'' @ rsquo @ ''s keys.'')"
definition NOT_PUBLISHED :: crypto_error where
  "NOT_PUBLISHED = CryptoError ''This group key is not one the group has published.''"
definition NOT_THE_PUBLISHED :: crypto_error where
  "NOT_THE_PUBLISHED = CryptoError (''This group key is not the group'' @ rsquo @ ''s published key.'')"

text \<open>Whether a member may seal the group key: a holder, or the creator while active, for version 1.\<close>

definition may_seal_key :: "chain_body \<Rightarrow> int \<Rightarrow> string \<Rightarrow> bool" where
  "may_seal_key chain version uid \<longleftrightarrow>
     (let sealing = rosterEntry (chRoster chain) uid in
      activeWith sealing (Some Members)
      \<or> (version = 1 \<and> activeWith sealing None \<and> chCreatorUserId chain = uid))"

definition sealGroupKey :: "primitives \<Rightarrow> seal_primitives \<Rightarrow> seal_coins \<Rightarrow> bytes \<Rightarrow> key_seal_context \<Rightarrow> chain \<Rightarrow> bytes
    \<Rightarrow> hybrid_signing_key \<Rightarrow> crypto_error + bytes" where
  "sealGroupKey P S coins seed ctx c holderKemPublicKey sealer =
     (if length seed \<noteq> GROUP_SEED_BYTES then Inl (invalid ''group key'')
      else
        bindE (sameGroup c (sealGroupId ctx)) (\<lambda>chain.
        bindE (sealedAtLatest chain ctx) (\<lambda>_.
        bindE (refuse_if (\<not> may_seal_key chain (ksGroupKeyVersion ctx) (ksSealerUserId ctx)) ONLY_HOLDERS_SEAL) (\<lambda>_.
        bindE (sealerHolds P S chain (ksSealerUserId ctx) sealer) (\<lambda>_.
        case rosterEntry (chRoster chain) (ksHolderUserId ctx) of None \<Rightarrow> Inl ONLY_TO_HOLDERS
        | Some holder \<Rightarrow>
            if \<not> activeWith (Some holder) (Some Members) \<or> int (keyVersion holder) \<noteq> ksHolderKeyVersion ctx
            then Inl ONLY_TO_HOLDERS
            else
              bindE (memberRecipient P holder holderKemPublicKey) (\<lambda>recipient.
              bindE (keySealKind P ctx) (\<lambda>kd. sealHybrid P S coins seed recipient sealer kd)))))))"

record reader_keys =
  readerUserId :: string
  readerKeyVersion :: int

definition openGroupKey :: "primitives \<Rightarrow> seal_primitives \<Rightarrow> bytes \<Rightarrow> key_seal_context \<Rightarrow> chain \<Rightarrow> bytes
    \<Rightarrow> signer_history option \<Rightarrow> reader_keys \<Rightarrow> grantee_secrets \<Rightarrow> crypto_error + bytes" where
  "openGroupKey P S envelope ctx c sealerMlDsa past reader holder =
     bindE (sameGroup c (sealGroupId ctx)) (\<lambda>chain.
     bindE (sealedOnChain chain ctx) (\<lambda>_.
     bindE (refuse_if (ksHolderUserId ctx \<noteq> readerUserId reader \<or> ksHolderKeyVersion ctx \<noteq> readerKeyVersion reader)
       NOT_THIS_HOLDER) (\<lambda>_.
     case at_index (chGroupKeys chain) (ksGroupKeyVersion ctx - 1) of None \<Rightarrow> Inl NOT_PUBLISHED
     | Some groupKey \<Rightarrow>
         bindE (refuse_if (\<not> may_seal_key chain (ksGroupKeyVersion ctx) (ksSealerUserId ctx)) NOT_SEALED_BY_HOLDER) (\<lambda>_.
         bindE (signersThrough P chain (ksSealerUserId ctx) (Some sealerMlDsa) past) (\<lambda>signers.
         bindE (keySealKind P ctx) (\<lambda>kd.
         bindE (openHybrid P S envelope GROUP_SEED_BYTES signers holder kd) (\<lambda>seed.
         bindE (groupKeyPair S seed) (\<lambda>derived.
         bindE (refuse_if (\<not> sameGroupKey (gkPublicKey derived) groupKey) NOT_THE_PUBLISHED) (\<lambda>_.
           Inr seed))))))))) "

definition ONLY_ACTIVE_GRANT :: crypto_error where
  "ONLY_ACTIVE_GRANT = CryptoError ''Areas are granted only by active members.''"
definition ONLY_TO_ACTIVE :: crypto_error where
  "ONLY_TO_ACTIVE = CryptoError ''Areas are granted only to active members.''"
definition NOT_THIS_GRANTEE :: crypto_error where
  "NOT_THIS_GRANTEE = CryptoError (''This grant is not for this account'' @ rsquo @ ''s keys.'')"
definition GRANTER_NOT_ACTIVE :: crypto_error where
  "GRANTER_NOT_ACTIVE = CryptoError ''This grant is not from an active member of the group.''"

definition sealAreaGrant :: "primitives \<Rightarrow> seal_primitives \<Rightarrow> seal_coins \<Rightarrow> bytes \<Rightarrow> area_grant_context \<Rightarrow> chain
    \<Rightarrow> string \<Rightarrow> bytes \<Rightarrow> hybrid_signing_key \<Rightarrow> crypto_error + bytes" where
  "sealAreaGrant P S coins workspaceKey ctx c areaIdSeed granteeKemPublicKey granter =
     (if length workspaceKey \<noteq> 32 then Inl (invalid ''workspace key'')
      else
        bindE (sameGroup c (sealGroupId ctx)) (\<lambda>chain.
        bindE (sealedAtLatest chain ctx) (\<lambda>_.
        bindE (refuse_if (\<not> activeWith (rosterEntry (chRoster chain) (agGranterUserId ctx)) None) ONLY_ACTIVE_GRANT) (\<lambda>_.
        bindE (sealerHolds P S chain (agGranterUserId ctx) granter) (\<lambda>_.
        bindE (areaOf P (sealGroupId ctx) (agWorkspaceId ctx) areaIdSeed) (\<lambda>_.
        bindE (refuse_if (agWorkspaceId ctx \<in> set (chRetiredAreas chain)) RETIRED) (\<lambda>_.
        bindE (areaKeyCommitment P workspaceKey) (\<lambda>committed.
        bindE (refuse_if (listedArea chain (agWorkspaceId ctx) (agWorkspaceKeyVersion ctx) \<noteq> Some committed)
          NOT_LISTED_KEY) (\<lambda>_.
        case rosterEntry (chRoster chain) (agGranteeUserId ctx) of None \<Rightarrow> Inl ONLY_TO_ACTIVE
        | Some grantee \<Rightarrow>
            if \<not> activeWith (Some grantee) None \<or> int (keyVersion grantee) \<noteq> agGranteeKeyVersion ctx
            then Inl ONLY_TO_ACTIVE
            else
              bindE (memberRecipient P grantee granteeKemPublicKey) (\<lambda>recipient.
              bindE (areaGrantKind P ctx) (\<lambda>kd. sealHybrid P S coins workspaceKey recipient granter kd)))))))))))"

definition openAreaGrant :: "primitives \<Rightarrow> seal_primitives \<Rightarrow> bytes \<Rightarrow> area_grant_context \<Rightarrow> chain \<Rightarrow> string \<Rightarrow> bytes
    \<Rightarrow> signer_history option \<Rightarrow> reader_keys \<Rightarrow> grantee_secrets \<Rightarrow> crypto_error + bytes" where
  "openAreaGrant P S envelope ctx c areaIdSeed granterMlDsa past reader grantee =
     bindE (sameGroup c (sealGroupId ctx)) (\<lambda>chain.
     bindE (sealedOnChain chain ctx) (\<lambda>_.
     bindE (areaOf P (sealGroupId ctx) (agWorkspaceId ctx) areaIdSeed) (\<lambda>_.
     bindE (refuse_if (agGranteeUserId ctx \<noteq> readerUserId reader \<or> agGranteeKeyVersion ctx \<noteq> readerKeyVersion reader)
       NOT_THIS_GRANTEE) (\<lambda>_.
     bindE (refuse_if (\<not> activeWith (rosterEntry (chRoster chain) (agGranterUserId ctx)) None) GRANTER_NOT_ACTIVE) (\<lambda>_.
     case listedArea chain (agWorkspaceId ctx) (agWorkspaceKeyVersion ctx) of None \<Rightarrow> Inl VERSION_NOT_LISTED
     | Some listed \<Rightarrow>
         if listed = [] then Inl VERSION_NOT_LISTED
         else
           bindE (signersThrough P chain (agGranterUserId ctx) (Some granterMlDsa) past) (\<lambda>signers.
           bindE (areaGrantKind P ctx) (\<lambda>kd.
           bindE (openHybrid P S envelope 32 signers grantee kd) (\<lambda>workspaceKey.
           bindE (areaKeyCommitment P workspaceKey) (\<lambda>committed.
           bindE (refuse_if (committed \<noteq> listed) NOT_LISTED_KEY) (\<lambda>_.
             Inr workspaceKey))))))))))"

section \<open>Lemmas: openings\<close>

lemma sameGroup_Inr:
  "sameGroup c gid = Inr chain \<longleftrightarrow> c = Accepted_Rosters chain \<and> uuid (JStr gid) ''group id'' = Inr gid
     \<and> gid = chGroupId chain \<and> groupId (chRoster chain) = chGroupId chain"
  by (cases c) (auto simp: sameGroup_def requireAccepted_def returns uuid_def)

lemma at_index_Some: "at_index xs i = Some x \<longleftrightarrow> 0 \<le> i \<and> nat i < length xs \<and> xs ! nat i = x"
  by (auto simp: at_index_def)

lemma sealedOnChain_Inr:
  "sealedOnChain chain ctx = Inr u \<longleftrightarrow>
     isSafeInteger (sealRosterVersion ctx) \<and> 1 \<le> sealRosterVersion ctx
     \<and> at_index (chRosterDigests chain) (sealRosterVersion ctx - 1) = Some (sealRosterDigest ctx)"
  by (auto simp: sealedOnChain_def returns integer_def)

lemma keySealKind_Inr:
  "keySealKind P ctx = Inr kd \<longleftrightarrow> (\<exists>data. groupKeySealContext ctx = Inr data \<and> kd = \<lparr> kindInfo = KEY_SEAL_INFO,
     kindData = data, kindStatement = groupKeySealStatement P ctx, kindNoun = ''group key'',
     kindInvalid = invalid ''group key seal'', kindUnsigned = NOT_SEALED_BY_HOLDER \<rparr>)"
  by (auto simp: keySealKind_def returns)

lemma areaGrantKind_Inr:
  "areaGrantKind P ctx = Inr kd \<longleftrightarrow> (\<exists>data. areaGrantContext ctx = Inr data \<and> kd = \<lparr> kindInfo = AREA_GRANT_INFO,
     kindData = data, kindStatement = areaGrantStatement P ctx, kindNoun = ''grant'',
     kindInvalid = invalid ''area grant'', kindUnsigned = NOT_SIGNED_BY_GRANTER \<rparr>)"
  by (auto simp: areaGrantKind_def returns)

text \<open>The part of an envelope its signature is over, and the signature.\<close>

definition signed_part_of :: "bytes \<Rightarrow> bytes" where
  "signed_part_of envelope = take (length envelope - HYBRID_SIGNATURE_BYTES) envelope"

definition signature_of :: "bytes \<Rightarrow> bytes" where
  "signature_of envelope = drop (length envelope - HYBRID_SIGNATURE_BYTES) envelope"

lemma openGroupKey_Inr:
  "openGroupKey P S envelope ctx c ml past reader holder = Inr seed \<longleftrightarrow>
     (\<exists>chain gk signers kd derived. sameGroup c (sealGroupId ctx) = Inr chain \<and> sealedOnChain chain ctx = Inr ()
      \<and> ksHolderUserId ctx = readerUserId reader \<and> ksHolderKeyVersion ctx = readerKeyVersion reader
      \<and> at_index (chGroupKeys chain) (ksGroupKeyVersion ctx - 1) = Some gk
      \<and> may_seal_key chain (ksGroupKeyVersion ctx) (ksSealerUserId ctx)
      \<and> signersThrough P chain (ksSealerUserId ctx) (Some ml) past = Inr signers
      \<and> keySealKind P ctx = Inr kd \<and> openHybrid P S envelope GROUP_SEED_BYTES signers holder kd = Inr seed
      \<and> groupKeyPair S seed = Inr derived \<and> sameGroupKey (gkPublicKey derived) gk)"
  by (auto simp: openGroupKey_def returns split: option.splits)

lemma openAreaGrant_Inr:
  "openAreaGrant P S envelope ctx c areaIdSeed ml past reader grantee = Inr key \<longleftrightarrow>
     (\<exists>chain listed signers kd. sameGroup c (sealGroupId ctx) = Inr chain \<and> sealedOnChain chain ctx = Inr ()
      \<and> areaOf P (sealGroupId ctx) (agWorkspaceId ctx) areaIdSeed = Inr ()
      \<and> agGranteeUserId ctx = readerUserId reader \<and> agGranteeKeyVersion ctx = readerKeyVersion reader
      \<and> activeWith (rosterEntry (chRoster chain) (agGranterUserId ctx)) None
      \<and> listedArea chain (agWorkspaceId ctx) (agWorkspaceKeyVersion ctx) = Some listed \<and> listed \<noteq> []
      \<and> signersThrough P chain (agGranterUserId ctx) (Some ml) past = Inr signers
      \<and> areaGrantKind P ctx = Inr kd \<and> openHybrid P S envelope 32 signers grantee kd = Inr key
      \<and> areaKeyCommitment P key = Inr listed)"
  by (auto simp: openAreaGrant_def returns split: option.splits)

section \<open>Properties\<close>

text \<open>C8. A group key opens only as the one the group published: sealed on a roster of the chain this device
  accepted, to the reader's own keys, by a member who may seal it, signed by one of their keys over exactly
  what was sealed, and the seed derives the public key the verified key chain has at that version.\<close>

theorem opened_group_key_published:
  assumes "openGroupKey P S envelope ctx c ml past reader holder = Inr seed"
  shows "\<exists>chain signers signer stmt derived. c = Accepted_Rosters chain \<and> sealGroupId ctx = chGroupId chain
    \<and> at_index (chRosterDigests chain) (sealRosterVersion ctx - 1) = Some (sealRosterDigest ctx)
    \<and> ksHolderUserId ctx = readerUserId reader \<and> ksHolderKeyVersion ctx = readerKeyVersion reader
    \<and> may_seal_key chain (ksGroupKeyVersion ctx) (ksSealerUserId ctx)
    \<and> signersThrough P chain (ksSealerUserId ctx) (Some ml) past = Inr signers \<and> signer \<in> set signers
    \<and> groupKeySealStatement P ctx (signed_part_of envelope) = Inr stmt
    \<and> verifyHybrid P stmt (signature_of envelope) signer
    \<and> groupKeyPair S seed = Inr derived
    \<and> at_index (chGroupKeys chain) (ksGroupKeyVersion ctx - 1) = Some (gkPublicKey derived)"
proof -
  from assms obtain chain gk signers kd derived
    where g: "sameGroup c (sealGroupId ctx) = Inr chain" "sealedOnChain chain ctx = Inr ()"
      and r: "ksHolderUserId ctx = readerUserId reader" "ksHolderKeyVersion ctx = readerKeyVersion reader"
      and k: "at_index (chGroupKeys chain) (ksGroupKeyVersion ctx - 1) = Some gk"
      and m: "may_seal_key chain (ksGroupKeyVersion ctx) (ksSealerUserId ctx)"
      and s: "signersThrough P chain (ksSealerUserId ctx) (Some ml) past = Inr signers"
      and kd: "keySealKind P ctx = Inr kd" and o: "openHybrid P S envelope GROUP_SEED_BYTES signers holder kd = Inr seed"
      and d: "groupKeyPair S seed = Inr derived" "sameGroupKey (gkPublicKey derived) gk"
    unfolding openGroupKey_Inr by blast
  from openHybrid_signed [OF o] kd obtain signer stmt where "signer \<in> set signers"
    "groupKeySealStatement P ctx (signed_part_of envelope) = Inr stmt" "verifyHybrid P stmt (signature_of envelope) signer"
    by (auto simp: keySealKind_Inr signed_part_of_def signature_of_def)
  moreover have "gk = gkPublicKey derived" using d(2) by (simp add: sameGroupKey_def)
  ultimately show ?thesis using g r k m s d(1) unfolding sameGroup_Inr sealedOnChain_Inr by blast
qed

text \<open>C23. An area's key opens only for an area derived under the group, as the key the member list names for that
  version: sealed on a roster of the accepted chain, to the reader's own keys, by an active member, signed
  by one of their keys over exactly what was sealed, and its commitment is the one listed.\<close>

theorem opened_area_key_listed:
  assumes "openAreaGrant P S envelope ctx c areaIdSeed ml past reader grantee = Inr key"
  shows "\<exists>chain signers signer stmt. c = Accepted_Rosters chain \<and> sealGroupId ctx = chGroupId chain
    \<and> at_index (chRosterDigests chain) (sealRosterVersion ctx - 1) = Some (sealRosterDigest ctx)
    \<and> deriveId P ''workspace'' (chGroupId chain) areaIdSeed = Inr (agWorkspaceId ctx)
    \<and> agGranteeUserId ctx = readerUserId reader \<and> agGranteeKeyVersion ctx = readerKeyVersion reader
    \<and> activeWith (rosterEntry (chRoster chain) (agGranterUserId ctx)) None
    \<and> signersThrough P chain (agGranterUserId ctx) (Some ml) past = Inr signers \<and> signer \<in> set signers
    \<and> areaGrantStatement P ctx (signed_part_of envelope) = Inr stmt
    \<and> verifyHybrid P stmt (signature_of envelope) signer
    \<and> (\<exists>listed. listedArea chain (agWorkspaceId ctx) (agWorkspaceKeyVersion ctx) = Some listed
        \<and> areaKeyCommitment P key = Inr listed)"
proof -
  from assms obtain chain listed signers kd
    where g: "sameGroup c (sealGroupId ctx) = Inr chain" "sealedOnChain chain ctx = Inr ()"
      and a: "areaOf P (sealGroupId ctx) (agWorkspaceId ctx) areaIdSeed = Inr ()"
      and r: "agGranteeUserId ctx = readerUserId reader" "agGranteeKeyVersion ctx = readerKeyVersion reader"
      and m: "activeWith (rosterEntry (chRoster chain) (agGranterUserId ctx)) None"
      and l: "listedArea chain (agWorkspaceId ctx) (agWorkspaceKeyVersion ctx) = Some listed" "areaKeyCommitment P key = Inr listed"
      and s: "signersThrough P chain (agGranterUserId ctx) (Some ml) past = Inr signers"
      and kd: "areaGrantKind P ctx = Inr kd" and o: "openHybrid P S envelope 32 signers grantee kd = Inr key"
    unfolding openAreaGrant_Inr by blast
  from openHybrid_signed [OF o] kd obtain signer stmt where "signer \<in> set signers"
    "areaGrantStatement P ctx (signed_part_of envelope) = Inr stmt" "verifyHybrid P stmt (signature_of envelope) signer"
    by (auto simp: areaGrantKind_Inr signed_part_of_def signature_of_def)
  moreover have "sealGroupId ctx = chGroupId chain" using g(1) by (simp add: sameGroup_Inr)
  moreover have "deriveId P ''workspace'' (sealGroupId ctx) areaIdSeed = Inr (agWorkspaceId ctx)"
    using a by (auto simp: areaOf_def checkId_def returns split: sum.splits if_splits)
  ultimately show ?thesis using g r l m s unfolding sameGroup_Inr sealedOnChain_Inr by metis
qed

text \<open>The two seals a member signs, and what each signs.\<close>

datatype group_seal = Key_Seal key_seal_context | Area_Grant area_grant_context

fun seal_statement :: "primitives \<Rightarrow> group_seal \<Rightarrow> bytes \<Rightarrow> crypto_error + bytes" where
  "seal_statement P (Key_Seal ctx) sealed = groupKeySealStatement P ctx sealed"
| "seal_statement P (Area_Grant ctx) sealed = areaGrantStatement P ctx sealed"

fun seal_parts :: "group_seal \<Rightarrow> crypto_error + json list" where
  "seal_parts (Key_Seal ctx) = keySealParts ctx"
| "seal_parts (Area_Grant ctx) = areaGrantParts ctx"

lemma seal_parts_inj: "seal_parts a = Inr parts \<Longrightarrow> seal_parts b = Inr parts \<Longrightarrow> a = b"
  by (cases a; cases b) (auto simp: keySealParts_def areaGrantParts_def returns integer_def digestOf_def uuid_def bytesOf_def
    intro: key_seal_context.equality area_grant_context.equality split: if_splits sum.splits)

text \<open>A seal's signature says all of it: two seals with one statement are of one kind and name the same
  group, key version, people, roster and sealed bytes (by their digest).\<close>

theorem seals_say_all:
  assumes "seal_statement P a x = Inr stmt" and "seal_statement P b y = Inr stmt"
  shows "a = b \<and> digest P x = digest P y"
proof -
  have *: "seal_statement P a x = bindE (seal_parts a) (\<lambda>parts. encodeStatement (parts @ [JStr (digest P x)]))" for a x
    by (cases a) (simp_all add: groupKeySealStatement_def areaGrantStatement_def)
  from assms obtain parts_a parts_b where p: "seal_parts a = Inr parts_a" "seal_parts b = Inr parts_b"
    and "encodeStatement (parts_a @ [JStr (digest P x)]) = Inr stmt" "encodeStatement (parts_b @ [JStr (digest P y)]) = Inr stmt"
    by (auto simp: * returns)
  then have "parts_a @ [JStr (digest P x)] = parts_b @ [JStr (digest P y)]" using statement.one_value by blast
  with p seal_parts_inj show ?thesis by auto
qed

section \<open>Lemmas: signers\<close>

text \<open>The keys an entry names: its Ed25519 key, and an ML-DSA key with the entry's digest.\<close>

definition named_by :: "primitives \<Rightarrow> roster_member \<Rightarrow> hybrid_public_key \<Rightarrow> bool" where
  "named_by P entry s \<longleftrightarrow> decode (signingPublicKey entry) (Some 32) = Inr (h_signingPublicKey s)
     \<and> digest P (h_mlDsaPublicKey s) = mlDsaPublicKeyDigest entry"

lemma own_signer_named:
  "own_signer P entry ml = Inr signers \<Longrightarrow> s \<in> set signers \<Longrightarrow> named_by P entry s"
  by (auto simp: own_signer_def returns named_by_def split: option.splits if_splits)

text \<open>The link leaves the keys its entry names.\<close>

definition leaves_entry :: "primitives \<Rightarrow> roster_member \<Rightarrow> succession_link \<Rightarrow> bool" where
  "leaves_entry P entry link \<longleftrightarrow>
     is_entry_keys P entry (oldEncryptionPublicKey link) (oldSigningPublicKey link) (l_oldMlDsaPublicKey link) = Inr True"

lemma leaves_entry_named:
  assumes "leaves_entry P entry link" and "under_keys (oldSigningPublicKey link) (l_oldMlDsaPublicKey link) = Inr s"
  shows "named_by P entry s"
  using assms by (auto simp: leaves_entry_def is_entry_keys_def under_keys_def named_by_def returns split: if_splits)

text \<open>The signers of a path are the old keys of its links, up to the first link leaving the entry's keys.\<close>

lemma path_signers_prefix:
  "path_signers P entry ls = Inr (signers, reached) \<Longrightarrow> s \<in> set signers \<Longrightarrow>
     \<exists>before link after. ls = before @ link # after \<and> (\<forall>l \<in> set before. \<not> leaves_entry P entry l)
       \<and> under_keys (oldSigningPublicKey link) (l_oldMlDsaPublicKey link) = Inr s"
proof (induction ls arbitrary: signers reached)
  case (Cons l ls)
  from Cons.prems(1) obtain ks at where k: "under_keys (oldSigningPublicKey l) (l_oldMlDsaPublicKey l) = Inr ks"
    and at: "is_entry_keys P entry (oldEncryptionPublicKey l) (oldSigningPublicKey l) (l_oldMlDsaPublicKey l) = Inr at"
    by (auto simp: returns)
  show ?case
  proof (cases "s = ks")
    case True
    with k show ?thesis by (intro exI [of _ "[]"]) auto
  next
    case False
    with Cons.prems k at obtain rest r where at': "\<not> at" and "path_signers P entry ls = Inr (rest, r)" "s \<in> set rest"
      by (cases at) (auto simp: returns)
    from Cons.IH [OF this(2,3)] obtain before link after where *: "ls = before @ link # after"
      "\<forall>l \<in> set before. \<not> leaves_entry P entry l"
      "under_keys (oldSigningPublicKey link) (l_oldMlDsaPublicKey link) = Inr s" by blast
    have "\<not> leaves_entry P entry l" using at at' by (simp add: leaves_entry_def)
    with * show ?thesis by (intro exI [of _ "l # before"] exI [of _ link] exI [of _ after]) auto
  qed
qed simp

text \<open>Until a link leaves the entry's keys, every link is taken on both sides' consent.\<close>

definition entry_leaves_next :: "primitives \<Rightarrow> roster_member \<Rightarrow> walk_input \<Rightarrow> succession_link option \<Rightarrow> bool" where
  "entry_leaves_next P entry w at \<longleftrightarrow> (\<forall>l. continues P w at (Some l) \<longrightarrow> leaves_entry P entry l)"

lemma consent_before_entry:
  assumes "wkUntil w = Some until" and "\<And>a. leadsTo P a until \<Longrightarrow> entry_leaves_next P entry w (Some a)"
  shows "followed P w at consenting (before @ link # after) \<Longrightarrow> \<forall>l \<in> set before. \<not> leaves_entry P entry l \<Longrightarrow>
    consenting \<or> entry_leaves_next P entry w at \<Longrightarrow> leaves_entry P entry link \<or> proves P (wkUser w) True link"
proof (induction before arbitrary: at consenting)
  case Nil
  then have "continues P w at (Some link)" "proves P (wkUser w) consenting link" by simp_all
  with Nil.prems(3) show ?case by (cases consenting) (auto simp: entry_leaves_next_def)
next
  case (Cons b before)
  then have b: "continues P w at (Some b)" "\<not> leaves_entry P entry b"
    and f: "followed P w (Some b) (still_consenting P w consenting b) (before @ link # after)" by simp_all
  with Cons.prems(3) have c: "consenting" by (auto simp: entry_leaves_next_def)
  have "still_consenting P w consenting b \<or> entry_leaves_next P entry w (Some b)"
    using c assms by (auto simp: still_consenting_def)
  with Cons.IH [OF f] Cons.prems(2) show ?case by auto
qed

lemma same_digest:
  assumes "sha256_32 P" and "digestHex d = Inr (keyDigest P b)"
  shows "digest P b = d"
proof -
  have "digestHex (digest P b) = Inr (keyDigest P b)"
    using digest_keyDigest [OF assms(1)] by (simp add: sameKeyDigest_iff)
  with assms(2) show ?thesis using key_digest.reads_iff_writes by (metis sum.inject(2))
qed

lemma entry_keys_left:
  assumes "sha256_32 P" and "pinnedOf (keySetOf entry) = Inr until"
    and "oldEncryptionPublicKey l = pk_encryptionPublicKey until" "oldSigningPublicKey l = pk_signingPublicKey until"
    and "mlDsaHash P (l_oldMlDsaPublicKey l) = Some (pk_mlDsaPublicKeyHash until)"
  shows "leaves_entry P entry l"
proof -
  from assms(2) obtain h where h: "digestHex (mlDsaPublicKeyDigest entry) = Inr h"
    and u: "pk_encryptionPublicKey until = encryptionPublicKey entry" "pk_signingPublicKey until = signingPublicKey entry"
      "pk_mlDsaPublicKeyHash until = h"
    by (auto simp: pinnedOf_def keySetOf_def returns simp del: digestHex_Inr)
  from assms(5) obtain b where b: "decode (l_oldMlDsaPublicKey l) (Some ML_DSA_PUBLIC_KEY_BYTES) = Inr b"
    "keyDigest P b = pk_mlDsaPublicKeyHash until" by (auto simp: mlDsaHash_def split: sum.splits)
  then have "digest P b = mlDsaPublicKeyDigest entry" using same_digest [OF assms(1)] h u by simp
  with assms(3,4) u b show ?thesis by (simp add: leaves_entry_def is_entry_keys_def)
qed

lemma history_signers_vouched:
  assumes sha: "sha256_32 P" and free: "collision_free P (queries (userId entry) (map snapshot (shLinks past)))"
    and h: "history_signers P chain entry past = Inr signers" and s: "s \<in> set signers"
  shows "named_by P entry s \<or> (\<exists>l. Some l \<in> set (shLinks past) \<and> verifySuccessionConsent P (userId entry) l
    \<and> under_keys (oldSigningPublicKey l) (l_oldMlDsaPublicKey l) = Inr s)"
proof -
  from h obtain begins until
    where f: "pinnedOf (first_keys_of chain entry) = Inr begins" and u: "pinnedOf (keySetOf entry) = Inr until"
      and *: "(case fst (successionPath P (userId entry) begins (shServed past) (shLinks past) [] (Some until) []) of
         Path ls \<Rightarrow> bindE (path_signers P entry ls) (\<lambda>(signers, reached).
           bindE (if reached then Inr True
             else is_entry_keys P entry (sk_encryptionPublicKey (shServed past)) (sk_signingPublicKey (shServed past))
               (sk_mlDsaPublicKey (shServed past))) (\<lambda>reached. Inr (if reached then signers else [])))
       | _ \<Rightarrow> Inr []) = Inr signers"
    unfolding history_signers_def bindE_Inr by blast
  obtain ls where p: "fst (successionPath P (userId entry) begins (shServed past) (shLinks past) [] (Some until) []) = Path ls"
    using * s by (auto split: succession_path.splits)
  obtain reached where ps: "path_signers P entry ls = Inr (signers, reached)"
    using * s by (auto simp: p bindE_Inr simp del: path_signers.simps split: if_splits)
  define w where "w = walk_of (userId entry) begins (shServed past) (shLinks past) (Some until)"
  have fol: "followed P w None (asks_consent begins (Some until)) ls"
    by (rule path_followed(2) [OF free _ p w_def refl]) (simp add: memo_true_def)
  from path_signers_prefix [OF ps s] obtain before link after where l: "ls = before @ link # after"
    "\<forall>l \<in> set before. \<not> leaves_entry P entry l"
    "under_keys (oldSigningPublicKey link) (l_oldMlDsaPublicKey link) = Inr s" by blast
  have a: "entry_leaves_next P entry w (Some a)" if "leadsTo P a until" for a
    using that entry_keys_left [OF sha u] by (auto simp: entry_leaves_next_def continues_def leadsTo_def)
  have n: "asks_consent begins (Some until) \<or> entry_leaves_next P entry w None"
    using entry_keys_left [OF sha u]
    by (auto simp: asks_consent_def same_pinned_def entry_leaves_next_def continues_def leaves_set_def leaves_pin_def w_def walk_of_def)
  have "wkUntil w = Some until" "wkUser w = userId entry" by (simp_all add: w_def walk_of_def)
  with consent_before_entry [OF _ a] fol [unfolded l(1)] l(2) n
  have "leaves_entry P entry link \<or> verifySuccessionConsent P (userId entry) link" by (fastforce simp: proves_def)
  moreover have "Some link \<in> set (shLinks past)"
  proof -
    have "followed P w at c (before @ link # after) \<Longrightarrow> Some link \<in> set (wkLinks w)" for at c
      by (induction before arbitrary: at c) auto
    then have "Some link \<in> set (map snapshot (shLinks past))" using fol l(1) by (simp add: w_def walk_of_def)
    then show ?thesis by (auto simp: snapshot_def split: option.splits if_splits)
  qed
  ultimately show ?thesis using l(3) leaves_entry_named by blast
qed

section \<open>Properties of signers\<close>

text \<open>No key vouches for a member's seal on a holder's word alone: every key a seal may be signed with is the
  one their entry names now (Ed25519, and ML-DSA by digest), or an earlier one whose replacement both the
  old and the new keys consented to.\<close>

theorem signers_are_vouched:
  assumes "signersThrough P chain uid ml past = Inr signers" and "s \<in> set signers" and "sha256_32 P"
    and "\<And>p. past = Some p \<Longrightarrow> collision_free P (queries uid (map snapshot (shLinks p)))"
  shows "\<exists>entry. rosterEntry (chRoster chain) uid = Some entry \<and> (named_by P entry s
    \<or> (\<exists>p l. past = Some p \<and> Some l \<in> set (shLinks p) \<and> verifySuccessionConsent P uid l
        \<and> under_keys (oldSigningPublicKey l) (l_oldMlDsaPublicKey l) = Inr s))"
proof -
  from assms(1) obtain entry own earlier where e: "rosterEntry (chRoster chain) uid = Some entry"
    and o: "own_signer P entry ml = Inr own" and p: "(case past of None \<Rightarrow> Inr [] | Some p \<Rightarrow> history_signers P chain entry p) = Inr earlier"
    and s: "signers = own @ earlier"
    by (auto simp: signersThrough_def returns split: option.splits if_splits)
  have u: "userId entry = uid" using e by (auto simp: rosterEntry_def find_Some_iff)
  show ?thesis
  proof (cases "s \<in> set own")
    case True
    with own_signer_named [OF o] e show ?thesis by blast
  next
    case False
    with assms(2) s have "s \<in> set earlier" by auto
    with p obtain h where h: "past = Some h" "history_signers P chain entry h = Inr earlier" by (cases past) auto
    from history_signers_vouched [OF assms(3) _ h(2)] assms(4) [OF h(1)] u \<open>s \<in> set earlier\<close> e h(1) show ?thesis by blast
  qed
qed

section \<open>A sealed group key reaches its holder\<close>

lemma sealGroupKey_Inr:
  "sealGroupKey P S coins seed ctx c kem sealer = Inr envelope \<longleftrightarrow>
     (\<exists>chain holder recipient kd. length seed = GROUP_SEED_BYTES \<and> sameGroup c (sealGroupId ctx) = Inr chain
      \<and> sealedAtLatest chain ctx = Inr () \<and> may_seal_key chain (ksGroupKeyVersion ctx) (ksSealerUserId ctx)
      \<and> sealerHolds P S chain (ksSealerUserId ctx) sealer = Inr ()
      \<and> rosterEntry (chRoster chain) (ksHolderUserId ctx) = Some holder
      \<and> activeWith (Some holder) (Some Members) \<and> int (keyVersion holder) = ksHolderKeyVersion ctx
      \<and> memberRecipient P holder kem = Inr recipient \<and> keySealKind P ctx = Inr kd
      \<and> sealHybrid P S coins seed recipient sealer kd = Inr envelope)"
  by (auto simp: sealGroupKey_def returns split: option.splits)

lemma sealerHolds_signer:
  assumes "sealerHolds P S chain uid sealer = Inr ()" and "ml_dsa65_getPublicKey S (hs_mlDsaSecretKey sealer) = Some ml"
    and "length ml = ML_DSA_PUBLIC_KEY_BYTES"
  shows "signersThrough P chain uid (Some ml) None
    = Inr [\<lparr> h_signingPublicKey = drop 32 (hs_signingKey sealer), h_mlDsaPublicKey = ml \<rparr>]"
proof -
  from assms(1,2) obtain entry where e: "rosterEntry (chRoster chain) uid = Some entry"
    "signingPublicKey entry = encode (drop 32 (hs_signingKey sealer))" "mlDsaPublicKeyDigest entry = digest P ml"
    "length (hs_signingKey sealer) = 64"
    by (auto simp: sealerHolds_def Let_def returns split: if_splits option.splits)
  have "decode (signingPublicKey entry) (Some 32) = Inr (drop 32 (hs_signingKey sealer))"
    using e(2,4) by (auto simp: decode_Inr)
  with e assms(3) show ?thesis by (simp add: signersThrough_def own_signer_def)
qed

text \<open>What a member of the roster holds: the private halves of the X25519 and ML-KEM keys their entry names.\<close>

definition holds_keys :: "seal_primitives \<Rightarrow> roster_member \<Rightarrow> bytes \<Rightarrow> grantee_secrets \<Rightarrow> bool" where
  "holds_keys S entry kem secrets \<longleftrightarrow> length (gs_privateKey secrets) = 32
     \<and> encryptionPublicKey entry = encode (crypto_scalarmult_base S (gs_privateKey secrets))
     \<and> (case gs_kemSecretKey secrets of None \<Rightarrow> False
        | Some kemSecret \<Rightarrow> length kemSecret = KEM_SECRET_KEY_BYTES \<and> kem_pair S kem kemSecret)"

definition signs_as :: "primitives \<Rightarrow> seal_primitives \<Rightarrow> hybrid_signing_key \<Rightarrow> bytes \<Rightarrow> bool" where
  "signs_as P S sealer ml \<longleftrightarrow> ml_dsa65_getPublicKey S (hs_mlDsaSecretKey sealer) = Some ml
     \<and> length ml = ML_DSA_PUBLIC_KEY_BYTES
     \<and> hybrid_pair P S sealer \<lparr> h_signingPublicKey = drop 32 (hs_signingKey sealer), h_mlDsaPublicKey = ml \<rparr>"

text \<open>A payload sealed to a member's entry opens with the keys the entry names.\<close>

lemma sealed_to_member_opens:
  assumes "sealHybrid P S coins payload recipient sealer kd = Inr envelope" and "memberRecipient P entry kem = Inr recipient"
    and "x25519_agrees S" "aead_correct S" "hkdf_32 P" and "signs_as P S sealer ml" and "holds_keys S entry kem secrets"
    and "length (sealNonce coins) = 24" and "length (hs_signingKey sealer) = 64"
  shows "openHybrid P S envelope (length payload) [\<lparr> h_signingPublicKey = drop 32 (hs_signingKey sealer), h_mlDsaPublicKey = ml \<rparr>]
    secrets kd = Inr payload"
proof -
  from assms(7) obtain kemSecret where k: "gs_kemSecretKey secrets = Some kemSecret" "length kemSecret = KEM_SECRET_KEY_BYTES"
    "kem_pair S kem kemSecret" and p: "length (gs_privateKey secrets) = 32"
    "encryptionPublicKey entry = encode (crypto_scalarmult_base S (gs_privateKey secrets))"
    by (auto simp: holds_keys_def split: option.splits)
  have "length (crypto_scalarmult_base S (gs_privateKey secrets)) = 32" using assms(3) p(1) by (simp add: x25519_agrees_def)
  then have "decode (encryptionPublicKey entry) (Some 32) = Inr (crypto_scalarmult_base S (gs_privateKey secrets))"
    using p(2) by (auto simp: decode_Inr)
  with assms(2) have r: "gr_encryptionPublicKey recipient = crypto_scalarmult_base S (gs_privateKey secrets)"
    "gr_kemPublicKey recipient = Some kem"
    by (auto simp: memberRecipient_def returns)
  show ?thesis
    by (rule seal_opens [OF assms(1,3-5) _ r(1) k(1,2) _ p(1) assms(8), THEN conjunct1])
      (use assms(6,9) r(2) k(3) in \<open>auto simp: signs_as_def ML_DSA_PUBLIC_KEY_BYTES_def\<close>)
qed

lemma sealed_key_opens:
  assumes "accept P input = Inr (chain, st)"
    and "sealGroupKey P S coins seed ctx (Accepted_Rosters chain) kem sealer = Inr envelope"
    and "x25519_agrees S" "aead_correct S" "hkdf_32 P" and "signs_as P S sealer ml"
    and "rosterEntry (chRoster chain) (ksHolderUserId ctx) = Some entry" and "holds_keys S entry kem secrets"
    and "length (sealNonce coins) = 24"
    and "groupKeyPair S seed = Inr derived"
    and "at_index (chGroupKeys chain) (ksGroupKeyVersion ctx - 1) = Some (gkPublicKey derived)"
  shows "openGroupKey P S envelope ctx (Accepted_Rosters chain) ml None
    \<lparr> readerUserId = ksHolderUserId ctx, readerKeyVersion = ksHolderKeyVersion ctx \<rparr> secrets = Inr seed"
proof -
  note latest = accepted_latest [OF assms(1)]
  from assms(2) obtain recipient kd where s: "length seed = GROUP_SEED_BYTES"
    "sameGroup (Accepted_Rosters chain) (sealGroupId ctx) = Inr chain" "sealedAtLatest chain ctx = Inr ()"
    "may_seal_key chain (ksGroupKeyVersion ctx) (ksSealerUserId ctx)"
    "sealerHolds P S chain (ksSealerUserId ctx) sealer = Inr ()"
    "memberRecipient P entry kem = Inr recipient" "keySealKind P ctx = Inr kd"
    "sealHybrid P S coins seed recipient sealer kd = Inr envelope"
    using assms(7) unfolding sealGroupKey_Inr sameGroup_Inr by auto
  have at: "sealRosterVersion ctx = int (length (chRosterDigests chain))"
    "sealRosterDigest ctx = last (chRosterDigests chain)"
    using s(3) latest(2,3) by (simp_all add: sealedAtLatest_def returns)
  have "at_index (chRosterDigests chain) (sealRosterVersion ctx - 1) = Some (sealRosterDigest ctx)"
    using latest(1) unfolding at by (cases "chRosterDigests chain" rule: rev_cases) (auto simp: at_index_Some)
  moreover have "isSafeInteger (sealRosterVersion ctx) \<and> 1 \<le> sealRosterVersion ctx"
    using s(7) by (auto simp: keySealKind_Inr groupKeySealContext_def keySealParts_def returns integer_def)
  ultimately have "sealedOnChain chain ctx = Inr ()" by (simp add: sealedOnChain_Inr)
  moreover have "signersThrough P chain (ksSealerUserId ctx) (Some ml) None
      = Inr [\<lparr> h_signingPublicKey = drop 32 (hs_signingKey sealer), h_mlDsaPublicKey = ml \<rparr>]"
    using sealerHolds_signer [OF s(5)] assms(6) by (auto simp: signs_as_def)
  moreover have "length (hs_signingKey sealer) = 64" using s(5) by (auto simp: sealerHolds_def split: if_splits)
  note sealed_to_member_opens [OF s(8,6) assms(3-6,8,9) this]
  ultimately show ?thesis
    using s(1,2,4,7) assms(10,11) unfolding openGroupKey_Inr by (auto simp: sameGroupKey_def)
qed

text \<open>C20. A group key sealed reaches its holder: on an accepted chain, what a member who holds the group's
  published key seals to another holder at the latest roster opens on that holder's device, from the same
  chain and with no history of the sealer asked for, to the same seed.\<close>

theorem group_key_reaches_holder:
  assumes "accept P input = Inr (chain, st)"
    and "sealGroupKey P S coins seed ctx (Accepted_Rosters chain) kem sealer = Inr envelope"
    and "x25519_agrees S" "aead_correct S" "hkdf_32 P" and "signs_as P S sealer ml"
    and "rosterEntry (chRoster chain) (ksHolderUserId ctx) = Some entry" and "holds_keys S entry kem secrets"
    and "length (sealNonce coins) = 24"
    and "groupKeyPair S seed = Inr derived"
    and "at_index (chGroupKeys chain) (ksGroupKeyVersion ctx - 1) = Some (gkPublicKey derived)"
  shows "openGroupKey P S envelope ctx (Accepted_Rosters chain) ml None
    \<lparr> readerUserId = ksHolderUserId ctx, readerKeyVersion = ksHolderKeyVersion ctx \<rparr> secrets = Inr seed"
  by (rule sealed_key_opens [OF assms])

end
