(* ===== verification/Sample_Seals.thy ===== *)
theory Sample_Seals
  imports Sample_Chain Next_Roster Group_Seals
begin

text \<open>
  The witnesses of the seals: seal primitives that agree, encapsulate and encrypt as the real ones promise
  (and hide nothing), and a family of one roster that the device of its creator accepts.
\<close>

section \<open>Seal primitives\<close>

definition sample_seals :: seal_primitives where
  "sample_seals = \<lparr> crypto_scalarmult = (\<lambda>a b. Some (map2 (+) a b)), crypto_scalarmult_base = id,
     ml_kem768_encapsulate = (\<lambda>public kem_coins. Some (take 1088 public, take 32 public)),
     ml_kem768_decapsulate = (\<lambda>ciphertext secret. take 32 ciphertext),
     aead_encrypt = (\<lambda>m ctx n k. m @ replicate 16 0),
     aead_decrypt = (\<lambda>c ctx n k. Some (take (length c - 16) c)),
     crypto_sign_detached = (\<lambda>m sk. replicate 64 0), ml_dsa65_sign = (\<lambda>m sk ctx sign_coins. replicate 3309 0),
     crypto_sign_seed_keypair = (\<lambda>seed. (seed, seed @ seed)),
     ml_dsa65_keygen = (\<lambda>seed. (replicate 1952 (hd seed), replicate 4032 (hd seed))),
     ml_dsa65_getPublicKey = (\<lambda>secret. Some (replicate 1952 (hd secret))) \<rparr>"

lemma map2_add_commute: "map2 (+) a b = map2 (+) b (a :: byte list)"
  by (induction a b rule: list_induct2') (simp_all add: add.commute)

lemma sample_base [simp]: "crypto_scalarmult_base sample_seals b = b"
  by (simp add: sample_seals_def)

lemma sample_seals_promise: "x25519_agrees sample_seals" "aead_correct sample_seals" "hkdf_32 chain_primitives" "sha256_32 chain_primitives"
  using map2_add_commute
  by (auto simp: x25519_agrees_def aead_correct_def hkdf_32_def sha256_32_def sample_seals_def chain_primitives_def chain_hash_def)

lemma sample_kem: "length public = KEM_PUBLIC_KEY_BYTES \<Longrightarrow> kem_pair sample_seals public secret"
  by (simp add: kem_pair_def sample_seals_def KEM_PUBLIC_KEY_BYTES_def KEM_CIPHERTEXT_BYTES_def)

definition sample_signer :: "byte \<Rightarrow> byte \<Rightarrow> hybrid_signing_key" where
  "sample_signer n m = \<lparr> hs_signingKey = replicate 64 n, hs_mlDsaSecretKey = replicate 4032 m \<rparr>"

definition sample_signs_under :: "byte \<Rightarrow> byte \<Rightarrow> hybrid_public_key" where
  "sample_signs_under n m = \<lparr> h_signingPublicKey = replicate 32 n, h_mlDsaPublicKey = replicate 1952 m \<rparr>"

lemma sample_sign: "signHybrid sample_seals msg (sample_signer n m) sign_coins = Inr (replicate 3373 0)"
  by (simp add: signHybrid_def signStatement_def mlDsaSign_def sample_signer_def sample_seals_def
      SIGNING_SECRET_KEY_BYTES_def ML_DSA_SECRET_KEY_BYTES_def replicate_add [symmetric])

lemma sample_verifies: "verifyHybrid chain_primitives msg (replicate 3373 0) (sample_signs_under n m)"
  by (simp add: verifyHybrid_def verifyStatement_def mlDsaVerify_def sample_signs_under_def HYBRID_SIGNATURE_BYTES_def
      SIGNATURE_BYTES_def ML_DSA_SIGNATURE_BYTES_def SIGNING_PUBLIC_KEY_BYTES_def ML_DSA_PUBLIC_KEY_BYTES_def)
    (simp add: chain_primitives_def)

lemma sample_pair: "hybrid_pair chain_primitives sample_seals (sample_signer n m) (sample_signs_under n m)"
  by (simp add: hybrid_pair_def sample_sign sample_verifies)

lemma sample_signs_as: "signs_as chain_primitives sample_seals (sample_signer n m) (replicate 1952 m)"
  using sample_pair [of n m]
  by (simp add: signs_as_def sample_signer_def sample_signs_under_def ML_DSA_PUBLIC_KEY_BYTES_def) (simp add: sample_seals_def)

definition sample_coins :: seal_coins where
  "sample_coins = \<lparr> ephemeralPrivate = replicate 32 7, kemCoins = [], sealNonce = replicate 24 0, signCoins = [] \<rparr>"

definition sample_secrets :: grantee_secrets where
  "sample_secrets = \<lparr> gs_privateKey = replicate 32 1, gs_kemSecretKey = Some (replicate 2400 0) \<rparr>"

definition sample_recipient :: grantee_keys where
  "sample_recipient = \<lparr> gr_encryptionPublicKey = replicate 32 1, gr_kemPublicKey = Some (replicate 1184 4) \<rparr>"

lemma sample_seals_to:
  assumes "\<And>part. \<exists>stmt. kindStatement kd part = Inr stmt"
  shows "\<exists>envelope. sealHybrid chain_primitives sample_seals sample_coins payload sample_recipient (sample_signer n m) kd = Inr envelope"
proof -
  let ?S = sample_seals
  let ?public = "replicate 1184 (4 :: byte)"
  have k: "kemEncapsulate ?S ?public [] = Inr (take 1088 ?public, take 32 ?public)"
    by (simp add: kemEncapsulate_def KEM_PUBLIC_KEY_BYTES_def sample_seals_def)
  obtain dh where dh: "agree ?S (replicate 32 7) (replicate 32 1) = Inr dh"
    by (simp add: agree_def sample_seals_def)
  let ?part = "crypto_scalarmult_base ?S (replicate 32 7) @ take 1088 ?public @ replicate 24 0
    @ aead_encrypt ?S payload (kindData kd) (replicate 24 0)
      (hybridSealKey chain_primitives dh (take 32 ?public) (take 1088 ?public) (crypto_scalarmult_base ?S (replicate 32 7))
        (replicate 32 1) (kindInfo kd))"
  obtain stmt where st: "kindStatement kd ?part = Inr stmt" using assms by blast
  have "sealHybrid chain_primitives ?S sample_coins payload sample_recipient (sample_signer n m) kd
      = Inr (?part @ replicate 3373 0)"
    unfolding sealHybrid_Inr Let_def sample_recipient_def sample_coins_def grantee_keys.simps seal_coins.simps
    by (rule exI [of _ ?public], rule exI [of _ dh], rule exI [of _ "take 1088 ?public"], rule exI [of _ "take 32 ?public"],
        rule exI [of _ stmt], rule exI [of _ "replicate 3373 0"])
      (use k dh st sample_sign in \<open>simp add: KEM_PUBLIC_KEY_BYTES_def\<close>)
  then show ?thesis by blast
qed

section \<open>A share\<close>

definition sample_share :: share_statement where
  "sample_share = \<lparr> sh_workspaceId = sample_uuid CHR ''e'', sh_nodeId = sample_uuid CHR ''c'', sh_keyEpoch = 1,
     sh_granteeUserId = sample_uuid CHR ''b'', sh_granterUserId = sample_uuid CHR ''a'' \<rparr>"

lemma sample_share_statement: "\<exists>stmt. shareStatement chain_primitives sample_share part = Inr stmt"
  by (simp add: shareStatement_def sample_share_def text_field_def count_field_def isSafeInteger_def MAX_SAFE_INTEGER_def
      sample_uuid_def)

lemma sample_share_kind: "\<exists>stmt. kindStatement (shareKind chain_primitives sample_share) part = Inr stmt"
  using sample_share_statement by (simp add: shareKind_def)

lemma sample_opens:
  assumes "sealHybrid chain_primitives sample_seals sample_coins payload sample_recipient (sample_signer n m) kd = Inr envelope"
  shows "openHybrid chain_primitives sample_seals envelope (length payload) [sample_signs_under n m] sample_secrets kd = Inr payload
    \<and> length envelope = hybridSealBytes (length payload)"
  by (rule seal_opens [OF assms sample_seals_promise(1-3) sample_pair, where kemSecret = "replicate 2400 0"])
    (auto simp: sample_recipient_def sample_secrets_def sample_coins_def sample_signs_under_def
      KEM_SECRET_KEY_BYTES_def sample_kem [unfolded KEM_PUBLIC_KEY_BYTES_def])

theorem sealed_opens_witness:
  "\<exists>envelope. sealHybrid chain_primitives sample_seals sample_coins (replicate 32 9) sample_recipient (sample_signer 2 3)
       (shareKind chain_primitives sample_share) = Inr envelope
     \<and> openHybrid chain_primitives sample_seals envelope 32 [sample_signs_under 2 3] sample_secrets
         (shareKind chain_primitives sample_share) = Inr (replicate 32 9)
     \<and> length envelope = hybridSealBytes 32"
proof -
  obtain envelope where e: "sealHybrid chain_primitives sample_seals sample_coins (replicate 32 9) sample_recipient
      (sample_signer 2 3) (shareKind chain_primitives sample_share) = Inr envelope"
    using sample_seals_to [OF sample_share_kind] by blast
  have "gr_encryptionPublicKey sample_recipient = crypto_scalarmult_base sample_seals (gs_privateKey sample_secrets)"
    "gs_kemSecretKey sample_secrets = Some (replicate 2400 0)" "length (replicate 2400 0 :: bytes) = KEM_SECRET_KEY_BYTES"
    "\<And>public. gr_kemPublicKey sample_recipient = Some public \<Longrightarrow> kem_pair sample_seals public (replicate 2400 0)"
    by (auto simp: sample_recipient_def sample_secrets_def sample_kem KEM_PUBLIC_KEY_BYTES_def KEM_SECRET_KEY_BYTES_def)
  from sealed_opens [OF e sample_seals_promise(1-3) sample_pair this, of "[sample_signs_under 2 3]"] e show ?thesis
    by (simp add: sample_secrets_def sample_coins_def sample_signs_under_def)
qed

theorem opened_share_was_signed_witness:
  "\<exists>envelope stmt. length envelope = SIGNED_SHARE_ENVELOPE_BYTES
     \<and> shareStatement chain_primitives sample_share (take (length envelope - HYBRID_SIGNATURE_BYTES) envelope) = Inr stmt
     \<and> verifyHybrid chain_primitives stmt (drop (length envelope - HYBRID_SIGNATURE_BYTES) envelope) (sample_signs_under 2 3)"
proof -
  obtain envelope where e: "sealHybrid chain_primitives sample_seals sample_coins (replicate 32 9) sample_recipient
      (sample_signer 2 3) (shareKind chain_primitives sample_share) = Inr envelope"
    using sample_seals_to [OF sample_share_kind] by blast
  from sample_opens [OF e]
  have "openShareKey chain_primitives sample_seals envelope (sample_signs_under 2 3) sample_secrets sample_share = Inr (replicate 32 9)"
    by (simp add: openShareKey_def shareSuite_def SIGNED_SHARE_ENVELOPE_BYTES_def hybridSealBytes_def sample_signs_under_def)
  from opened_share_was_signed [OF this] show ?thesis by blast
qed

section \<open>A family of one roster\<close>

definition created_input :: accept_input where
  "created_input = \<lparr> inGroupId = sample_uuid CHR ''f'', inFirstKeys = chain_key 61, inPins = [],
     inRosters = [roster_copy first_roster], inSuccessions = [], inMlDsaKeys = chain_mlKeys,
     inJoinMark = None, inPairMarks = [], inAnchor = Some Created, inMe = None, inCache = None, inServer = False \<rparr>"

definition created_end :: state where
  "created_end = (chain_start [])\<lparr> candidates := [], held := [held_of first_roster 1 False],
     refused := [(1, NO_SUCCESSION)], stAreas := foldAreas empty_ledger first_roster \<rparr>"

definition created_cached :: cached where
  "created_cached = cached_of created_end [sample_key 1] (sample_uuid CHR ''a'') (own_walk chain_primitives None None [first_roster])"

definition created_body :: chain_body where
  "created_body = body_of (sample_uuid CHR ''f'') created_end created_cached (sample_key 61)
     (own_walk chain_primitives None None [first_roster]) [] (Some \<lparr> checkedHow = Checked_Created, checkedRosterVersion = 1 \<rparr>)"

lemma created: "accept chain_primitives created_input = Inr (created_body, created_end)"
proof -
  let ?given = "\<lparr> gvGroupId = sample_uuid CHR ''f'', gvPins = [], gvCached = None, gvJoinMark = None, gvPairMarks = [] \<rparr>"
  let ?m = "\<lparr> rosterMarks = [], keyMarkSides = [], firstMarks = [] \<rparr>"
  let ?c = "served_copy first_roster 1 (roster_copy first_roster)"
  let ?s = "(chain_start [])\<lparr> candidates := [] \<rparr>"
  let ?ready = "?s\<lparr> refused := [(1, NO_SUCCESSION)] \<rparr>"
  have g: "check_given chain_primitives created_input = Inr ?given"
    using sample_uuids by (simp add: check_given_def created_input_def uuid_def)
  have m: "own_marks_of chain_primitives ?given = Inr ?m" by (simp add: own_marks_of_def cache_marks_def)
  have agree: "marks_agree ?m = Inr ()" by (simp add: marks_agree_def versions_in_def conflict_def sides_def)
  have read: "read_served chain_primitives created_input ?given ?m = Inr ([?c], [])"
    using chain_rosters_wf(1)
    by (simp add: read_served_def created_input_def byDigest_def roster_copy_parses served_copy_def first_keys_vouched_def)
  have p: "chain_path None [?c] = Inr [?c]" "head_of None [?c] = 1" "bottom_of None [?c] = 0" "extends_cache None [?c] = False"
    by (simp_all add: chain_path_def Let_def head_of_def bottom_of_def link_path.simps extends_cache_def)
  have st: "start_state (sample_uuid CHR ''f'') chain_mlKeys None False (chain_key 61) [] [] = ?s"
    unfolding start_state_def stateOf_def ledgerOf_def chain_start_def by (rule state.equality) simp_all
  have e: "establishAll chain_primitives st = Inr (st\<lparr> refused := AList.update (length (groupKeys st)) NO_SUCCESSION (refused st) \<rparr>)"
    if "candidates st = []" for st using that by (intro no_more_keys) (simp add: candidates_at_def)
  have "rosterRules chain_primitives ?ready first_roster stmt (Some [roster_copy first_roster]) None = Inr ()" for stmt
    using chain_areas(1)
    by (simp add: rosterRules_def chain_start_def refused_by_def chain_roster_signed [where n = 61] activeWith_def)
  then have v: "verify_chain chain_primitives ?s [?c] = Inr created_end"
    by (simp add: verify_chain_def e refused_by_def last_held_def chain_start_def hold_copy created_end_def)
  have marks: "keyMarks created_end = []" by (simp add: created_end_def chain_start_def)
  have met: "marks_met chain_primitives created_input ?given ?m 1 d created_end = Inr ()" for d
    by (simp add: marks_met_def roster_marks_met_def versions_in_def join_mark_met_def pair_marks_met_def first_use_met_def
        first_use_def key_marks_met_def created_input_def marks)
  have "finish chain_primitives created_input ?given None [?c] [?c] created_end = Inr created_body"
    by (simp add: finish_def created_body_def created_cached_def)
      (simp add: created_end_def chain_start_def dead_branches_def how_vouched_def created_input_def held_of_def Let_def)
  then show ?thesis
    unfolding accept_def g m agree read bindE_simps refused_by_def sum.case prod.case accept_given.simps p Let_def if_False
    using st v met by (simp add: created_input_def)
qed

lemma created_latest:
  "chRosterDigests created_body = [sample_key 1]" "chRosterDigest created_body = sample_key 1"
  "chRoster created_body = first_roster" "chGroupId created_body = sample_uuid CHR ''f''"
  "chGroupKeys created_body = [chain_key 61]" "chCreatorUserId created_body = sample_uuid CHR ''a''"
  by (simp_all add: created_body_def body_of_def created_cached_def cached_of_def Let_def created_end_def chain_start_def
      last_of_def held_of_def)

section \<open>The group key sealed to a holder\<close>

definition created_seal :: key_seal_context where
  "created_seal = \<lparr> sealGroupId = sample_uuid CHR ''f'', sealRosterVersion = 1, sealRosterDigest = sample_key 1,
     ksGroupKeyVersion = 1, ksHolderUserId = sample_uuid CHR ''b'', ksHolderKeyVersion = 1,
     ksSealerUserId = sample_uuid CHR ''a'' \<rparr>"

definition created_seed :: bytes where
  "created_seed = replicate 64 61"

lemma created_seed_key: "groupKeyPair sample_seals created_seed
    = Inr \<lparr> gkPublicKey = chain_key 61, gkSigningKey = replicate 64 61, gkMlDsaSecretKey = replicate 4032 61 \<rparr>"
  by (simp add: groupKeyPair_def GROUP_SEED_BYTES_def created_seed_def mlDsaKeypair_def ML_DSA_SEED_BYTES_def)
    (simp add: sample_seals_def chain_key_def sample_key_def long_key_def ML_DSA_PUBLIC_KEY_BYTES_def replicate_add [symmetric])

text \<open>Short statements encode: plain strings and small numbers, far below the limit.\<close>

fun short_part :: "json \<Rightarrow> bool" where
  "short_part (JStr s) \<longleftrightarrow> list_all plain_char s \<and> length s \<le> 43"
| "short_part (JNum n) \<longleftrightarrow> 0 \<le> n \<and> n < 10"
| "short_part _ = False"

lemma short_encodes:
  assumes "list_all short_part parts" and "length parts \<le> 20"
  shows "\<exists>b. encodeStatement parts = Inr b"
proof -
  have g: "grammatical (JArr parts) 0"
  proof -
    have "short_part j \<Longrightarrow> grammatical j (Suc 0)" for j
      by (cases j) (auto simp: isSafeInteger_def MAX_SAFE_INTEGER_def)
    with assms(1) show ?thesis by (auto simp: list_all_iff)
  qed
  have "length (stringify j) < 46" if "short_part j" for j
    using that by (cases j) (auto simp: escape_plain decimal.simps [of "nat _"])
  then have "length (stringify_items parts) \<le> 46 * length parts"
    using assms(1) by (intro items_length) (auto simp: list_all_iff)
  with assms(2) have "length (stringify (JArr parts)) \<le> 1000" by simp
  moreover have "length (text_encode (stringify (JArr parts))) = length (stringify (JArr parts))"
    by (rule text_encode_length, rule stringify_ascii, rule grammatical_clean [OF g])
  ultimately have "length (text_encode (stringify (JArr parts))) \<le> MAX_STATEMENT_BYTES"
    by (simp add: MAX_STATEMENT_BYTES_def)
  with g show ?thesis unfolding encodeStatement_Inr by blast
qed

lemma created_seal_parts: "\<exists>parts. keySealParts created_seal = Inr parts \<and> list_all short_part parts \<and> length parts = 9"
  using sample_uuids uuid_plain [OF sample_uuids(1)] uuid_plain [OF sample_uuids(2)] uuid_plain [OF sample_uuids(4)]
    uuid_length [OF sample_uuids(1)] uuid_length [OF sample_uuids(2)] uuid_length [OF sample_uuids(4)]
  by (simp add: keySealParts_def created_seal_def uuid_def integer_def isSafeInteger_def MAX_SAFE_INTEGER_def
      digestOf_def bytesOf_def plain_keys key_length plain_char_def)

lemma short_digest: "short_part (JStr (digest chain_primitives b))"
proof -
  have "digest chain_primitives b = sample_key n" if "sha256 chain_primitives b = replicate 32 n" for n
    using that by (simp add: digest_def sample_key_def)
  moreover have "\<exists>n. sha256 chain_primitives b = replicate 32 n" by (simp add: chain_primitives_def chain_hash_def)
  ultimately show ?thesis using plain_keys(1) by (auto simp: key_length sample_key_def encode_length)
qed

lemma created_seal_kind: "\<exists>kd. keySealKind chain_primitives created_seal = Inr kd \<and> (\<forall>part. \<exists>stmt. kindStatement kd part = Inr stmt)"
proof -
  obtain parts where p: "keySealParts created_seal = Inr parts" "list_all short_part parts" "length parts = 9"
    using created_seal_parts by blast
  have "\<exists>b. encodeStatement (parts @ [JStr (digest chain_primitives x)]) = Inr b" for x
    using p short_digest by (intro short_encodes) simp_all
  moreover from short_encodes [OF p(2)] p(3) obtain data where "encodeStatement parts = Inr data" by auto
  ultimately show ?thesis using p(1) by (simp add: keySealKind_def groupKeySealContext_def groupKeySealStatement_def)
qed

lemma created_sealed: "\<exists>envelope. sealGroupKey chain_primitives sample_seals sample_coins created_seed created_seal
    (Accepted_Rosters created_body) (replicate 1184 4) (sample_signer 2 3) = Inr envelope"
proof -
  obtain kd where kd: "keySealKind chain_primitives created_seal = Inr kd" "\<And>part. \<exists>stmt. kindStatement kd part = Inr stmt"
    using created_seal_kind by blast
  obtain envelope where e: "sealHybrid chain_primitives sample_seals sample_coins created_seed sample_recipient (sample_signer 2 3) kd = Inr envelope"
    using sample_seals_to [OF kd(2)] by blast
  have d: "digest chain_primitives (replicate 1184 4) = sample_key 4"
    using chain_digest_key [of 4 1184 "[]"] by simp
  have ml: "digest chain_primitives (replicate 1952 3) = sample_key 3"
    using chain_digest_key [of 3 1952 "[]"] by simp
  have h: "sealerHolds chain_primitives sample_seals created_body (sample_uuid CHR ''a'') (sample_signer 2 3) = Inr ()"
    by (simp add: sealerHolds_def sample_signer_def)
      (simp add: sample_seals_def ml created_latest refuse_if_def sample_key_def [symmetric])
  have "memberRecipient chain_primitives (sample_member CHR ''b'') (replicate 1184 4) = Inr sample_recipient"
    by (simp add: memberRecipient_def KEM_PUBLIC_KEY_BYTES_def d sample_member_def sample_recipient_def)
  then show ?thesis
    using kd(1) e h sample_uuids unfolding sealGroupKey_Inr sameGroup_Inr
    by (simp add: created_latest created_seed_def GROUP_SEED_BYTES_def created_seal_def uuid_def sealedAtLatest_def
      may_seal_key_def activeWith_def sample_member_def)
qed

theorem group_key_reaches_holder_witness:
  "\<exists>envelope. sealGroupKey chain_primitives sample_seals sample_coins created_seed created_seal
       (Accepted_Rosters created_body) (replicate 1184 4) (sample_signer 2 3) = Inr envelope
     \<and> openGroupKey chain_primitives sample_seals envelope created_seal (Accepted_Rosters created_body) (replicate 1952 3) None
         \<lparr> readerUserId = sample_uuid CHR ''b'', readerKeyVersion = 1 \<rparr> sample_secrets = Inr created_seed"
proof -
  obtain envelope where e: "sealGroupKey chain_primitives sample_seals sample_coins created_seed created_seal
    (Accepted_Rosters created_body) (replicate 1184 4) (sample_signer 2 3) = Inr envelope"
    using created_sealed by blast
  have h: "holds_keys sample_seals (sample_member CHR ''b'') (replicate 1184 4) sample_secrets"
    by (simp add: holds_keys_def sample_secrets_def sample_member_def sample_key_def KEM_SECRET_KEY_BYTES_def
        sample_kem KEM_PUBLIC_KEY_BYTES_def)
  have i: "rosterEntry (chRoster created_body) (ksHolderUserId created_seal) = Some (sample_member CHR ''b'')"
    by (simp add: created_latest created_seal_def)
  from group_key_reaches_holder [OF created e sample_seals_promise(1-3) sample_signs_as i h _ created_seed_key] e
  show ?thesis by (simp add: sample_coins_def created_latest created_seal_def at_index_def)
qed

theorem opened_group_key_published_witness:
  "\<exists>envelope stmt derived. groupKeySealStatement chain_primitives created_seal (signed_part_of envelope) = Inr stmt
     \<and> groupKeyPair sample_seals created_seed = Inr derived \<and> gkPublicKey derived = chain_key 61"
proof -
  obtain envelope where e: "sealGroupKey chain_primitives sample_seals sample_coins created_seed created_seal
    (Accepted_Rosters created_body) (replicate 1184 4) (sample_signer 2 3) = Inr envelope"
    using created_sealed by blast
  have h: "holds_keys sample_seals (sample_member CHR ''b'') (replicate 1184 4) sample_secrets"
    by (simp add: holds_keys_def sample_secrets_def sample_member_def sample_key_def KEM_SECRET_KEY_BYTES_def
        sample_kem KEM_PUBLIC_KEY_BYTES_def)
  have i: "rosterEntry (chRoster created_body) (ksHolderUserId created_seal) = Some (sample_member CHR ''b'')"
    by (simp add: created_latest created_seal_def)
  have o: "openGroupKey chain_primitives sample_seals envelope created_seal (Accepted_Rosters created_body) (replicate 1952 3) None
         \<lparr> readerUserId = sample_uuid CHR ''b'', readerKeyVersion = 1 \<rparr> sample_secrets = Inr created_seed"
    using sealed_key_opens [OF created e sample_seals_promise(1-3) sample_signs_as i h _ created_seed_key]
    by (simp add: sample_coins_def created_latest created_seal_def at_index_def)
  from opened_group_key_published [OF o] created_seed_key show ?thesis by auto
qed

section \<open>An area's key granted to a member\<close>

definition granted_seed :: string where
  "granted_seed = encode (replicate ID_SEED_BYTES 7)"

definition granted_area :: string where
  "granted_area = uuidV8 (sha256 chain_primitives (id_statement ''workspace'' (sample_uuid CHR ''f'') granted_seed))"

definition granted_key :: bytes where
  "granted_key = replicate 32 9"

definition granted_body :: chain_body where
  "granted_body = created_body\<lparr> chAreaKeys := [(granted_area, [commit chain_primitives granted_key AREA_COMMIT_INFO])] \<rparr>"

definition granted :: area_grant_context where
  "granted = \<lparr> sealGroupId = sample_uuid CHR ''f'', sealRosterVersion = 1, sealRosterDigest = sample_key 1,
     agWorkspaceId = granted_area, agWorkspaceKeyVersion = 1, agGranteeUserId = sample_uuid CHR ''b'',
     agGranteeKeyVersion = 1, agGranterUserId = sample_uuid CHR ''a'' \<rparr>"

lemma granted_area_ok: "is_uuid granted_area" "deriveId chain_primitives ''workspace'' (sample_uuid CHR ''f'') granted_seed = Inr granted_area"
proof -
  have "decode granted_seed (Some ID_SEED_BYTES) = Inr (replicate ID_SEED_BYTES 7)"
    by (simp add: decode_Inr ID_SEED_BYTES_def granted_seed_def)
  then show "deriveId chain_primitives ''workspace'' (sample_uuid CHR ''f'') granted_seed = Inr granted_area"
    by (simp add: deriveId_def KINDS_def granted_area_def sample_uuid_def)
  show "is_uuid granted_area" unfolding granted_area_def
    by (rule uuidV8_is_uuid) (simp add: chain_primitives_def chain_hash_def)
qed

lemma granted_parts: "\<exists>parts. areaGrantParts granted = Inr parts \<and> list_all short_part parts \<and> length parts = 10"
  using sample_uuids uuid_plain [OF sample_uuids(1)] uuid_plain [OF sample_uuids(2)] uuid_plain [OF sample_uuids(4)]
    uuid_length [OF sample_uuids(1)] uuid_length [OF sample_uuids(2)] uuid_length [OF sample_uuids(4)]
    granted_area_ok(1) uuid_plain [OF granted_area_ok(1)] uuid_length [OF granted_area_ok(1)]
  by (simp add: areaGrantParts_def granted_def uuid_def integer_def isSafeInteger_def MAX_SAFE_INTEGER_def
      digestOf_def bytesOf_def plain_keys key_length plain_char_def)

lemma granted_kind: "\<exists>kd. areaGrantKind chain_primitives granted = Inr kd \<and> (\<forall>part. \<exists>stmt. kindStatement kd part = Inr stmt)"
proof -
  obtain parts where p: "areaGrantParts granted = Inr parts" "list_all short_part parts" "length parts = 10"
    using granted_parts by blast
  have "\<exists>b. encodeStatement (parts @ [JStr (digest chain_primitives x)]) = Inr b" for x
    using p short_digest by (intro short_encodes) simp_all
  moreover from short_encodes [OF p(2)] p(3) obtain data where "encodeStatement parts = Inr data" by auto
  ultimately show ?thesis using p(1) by (simp add: areaGrantKind_def areaGrantContext_def areaGrantStatement_def)
qed

lemma granted_opens: "\<exists>envelope. openAreaGrant chain_primitives sample_seals envelope granted (Accepted_Rosters granted_body)
    granted_seed (replicate 1952 3) None \<lparr> readerUserId = sample_uuid CHR ''b'', readerKeyVersion = 1 \<rparr> sample_secrets
  = Inr granted_key"
proof -
  obtain kd where kd: "areaGrantKind chain_primitives granted = Inr kd" "\<And>part. \<exists>stmt. kindStatement kd part = Inr stmt"
    using granted_kind by blast
  obtain envelope where e: "sealHybrid chain_primitives sample_seals sample_coins granted_key sample_recipient (sample_signer 2 3) kd = Inr envelope"
    using sample_seals_to [OF kd(2)] by blast
  have o: "openHybrid chain_primitives sample_seals envelope 32 [sample_signs_under 2 3] sample_secrets kd = Inr granted_key"
    using sample_opens [OF e] by (simp add: granted_key_def)
  have ml: "digest chain_primitives (replicate 1952 3) = sample_key 3"
    using chain_digest_key [of 3 1952 "[]"] by simp
  have b: "chRoster granted_body = first_roster" "chGroupId granted_body = sample_uuid CHR ''f''"
    "chRosterDigests granted_body = [sample_key 1]"
    "chAreaKeys granted_body = [(granted_area, [commit chain_primitives granted_key AREA_COMMIT_INFO])]"
    by (simp_all add: granted_body_def created_latest)
  have s: "signersThrough chain_primitives granted_body (sample_uuid CHR ''a'') (Some (replicate 1952 3)) None
      = Inr [sample_signs_under 2 3]"
    by (simp add: signersThrough_def b own_signer_def ML_DSA_PUBLIC_KEY_BYTES_def ml sample_signs_under_def)
  have l: "listedArea granted_body granted_area 1 = Some (commit chain_primitives granted_key AREA_COMMIT_INFO)"
    using granted_area_ok(1) by (simp add: listedArea_def areaCommitments_def uuid_def b at_index_def isSafeInteger_def MAX_SAFE_INTEGER_def)
  have c: "areaKeyCommitment chain_primitives granted_key = Inr (commit chain_primitives granted_key AREA_COMMIT_INFO)"
    "commit chain_primitives granted_key AREA_COMMIT_INFO \<noteq> []"
    by (simp_all add: areaKeyCommitment_def granted_key_def commit_def)
      (simp add: chain_primitives_def chain_hash_def)
  show ?thesis
    unfolding openAreaGrant_Inr
    by (rule exI [of _ envelope], rule exI [of _ granted_body], rule exI [of _ "commit chain_primitives granted_key AREA_COMMIT_INFO"],
        rule exI [of _ "[sample_signs_under 2 3]"], rule exI [of _ kd])
      (use kd(1) o s l c b granted_area_ok sample_uuids in \<open>simp add: granted_def sameGroup_Inr uuid_def sealedOnChain_Inr
        at_index_def isSafeInteger_def MAX_SAFE_INTEGER_def areaOf_def checkId_def activeWith_def\<close>)
qed

theorem opened_area_key_listed_witness:
  "\<exists>envelope listed. openAreaGrant chain_primitives sample_seals envelope granted (Accepted_Rosters granted_body)
       granted_seed (replicate 1952 3) None \<lparr> readerUserId = sample_uuid CHR ''b'', readerKeyVersion = 1 \<rparr> sample_secrets
       = Inr granted_key
     \<and> listedArea granted_body granted_area 1 = Some listed \<and> areaKeyCommitment chain_primitives granted_key = Inr listed"
proof -
  obtain envelope where o: "openAreaGrant chain_primitives sample_seals envelope granted (Accepted_Rosters granted_body)
       granted_seed (replicate 1952 3) None \<lparr> readerUserId = sample_uuid CHR ''b'', readerKeyVersion = 1 \<rparr> sample_secrets
       = Inr granted_key" using granted_opens by blast
  have a: "agWorkspaceId granted = granted_area" "agWorkspaceKeyVersion granted = 1" by (simp_all add: granted_def)
  from opened_area_key_listed [OF o] o show ?thesis by (auto simp: a)
qed

theorem seals_say_all_witness:
  "\<exists>stmt other. groupKeySealStatement chain_primitives created_seal [1] = Inr stmt
     \<and> groupKeySealStatement chain_primitives created_seal [2] = Inr other \<and> stmt \<noteq> other"
proof -
  obtain kd stmt other where kd: "keySealKind chain_primitives created_seal = Inr kd" "kindStatement kd [1] = Inr stmt"
    "kindStatement kd [2] = Inr other"
    using created_seal_kind by blast
  then have s: "seal_statement chain_primitives (Key_Seal created_seal) [1] = Inr stmt"
    "seal_statement chain_primitives (Key_Seal created_seal) [2] = Inr other" by (auto simp: keySealKind_Inr)
  have "digest chain_primitives [1] \<noteq> digest chain_primitives [2]"
    by (simp add: digest_def chain_primitives_def chain_hash_def flip: sample_key_def)
  with seals_say_all [OF s(1), of "Key_Seal created_seal" "[2]"] s show ?thesis by auto
qed

end
