(* ===== verification/Verdicts.thy ===== *)
theory Verdicts
  imports Signing
begin

text \<open>
  \<open>group-trust.ts\<close>, scoped verdicts: whose key a writer's signature in a group's area is checked under
  (\<open>groupWriterTrust\<close>) and what a reader shows for it (\<open>groupIntegrityOf\<close>).
\<close>

section \<open>What the reader has\<close>

datatype group_reading = Reading_Accepted chain | Reading_Fork | Reading_Unavailable

text \<open>\<open>trustedVia\<close>: \<open>None\<close> is \<open>undefined\<close>, \<open>Some None\<close> is \<open>null\<close> (the reader's entry_keys words check).\<close>

record writer_pin = pinned_keys +
  wpTrustedVia :: "string option option"

datatype writer_trust =
    Trust_Outside
  | Trust_Unchecked
  | Trust_Roster trusted_signer "string option" "served_keys option" bool
  | Trust_Key_Conflict
  | Trust_Former_Member trusted_signer bool

record writer_input =
  wiGroupId :: string
  wiAreas :: "(string \<times> nat) list"
  wiReading :: group_reading
  wiWorkspaceId :: string
  wiWriterUserId :: string
  wiPinned :: "writer_pin option"
  wiServed :: "served_keys option"
  wiLinks :: "succession_link option list option"
  wiVerified :: link_memo

section \<open>Keys a chain retired\<close>

definition signing_bytes :: "string \<Rightarrow> crypto_error + bytes" where
  "signing_bytes key = decode key (Some 32)"

definition retiredAlong :: "'a pinned_keys_scheme \<Rightarrow> succession_link list \<Rightarrow> crypto_error + bytes list" where
  "retiredAlong start ls =
     bindE (signing_bytes (pk_signingPublicKey start)) (\<lambda>head_key.
     bindE (mapE (\<lambda>l. signing_bytes (newSigningPublicKey l)) (butlast ls)) (\<lambda>more_keys. Inr (head_key # more_keys)))"

definition leads_to_keys :: "primitives \<Rightarrow> succession_link \<Rightarrow> 'a pinned_keys_scheme \<Rightarrow> bool" where
  "leads_to_keys P link ks \<longleftrightarrow> newEncryptionPublicKey link = pk_encryptionPublicKey ks
     \<and> newSigningPublicKey link = pk_signingPublicKey ks
     \<and> sameKeyDigest (Some (pk_mlDsaPublicKeyHash ks))
         (case mlDsaDigest P (l_newMlDsaPublicKey link) of None \<Rightarrow> [] | Some d \<Rightarrow> d)"

fun upTo :: "primitives \<Rightarrow> succession_link list \<Rightarrow> 'a pinned_keys_scheme \<Rightarrow> succession_link list option" where
  "upTo P [] ks = None"
| "upTo P (l # ls) ks = (if leads_to_keys P l ks then Some [l] else map_option ((#) l) (upTo P ls ks))"

definition retiredBefore :: "primitives \<Rightarrow> pinned_keys \<Rightarrow> succession_link list \<Rightarrow> 'a pinned_keys_scheme
    \<Rightarrow> crypto_error + bytes list" where
  "retiredBefore P start ls pinned =
     (case upTo P ls pinned of None \<Rightarrow> Inr [] | Some before \<Rightarrow> retiredAlong start before)"

section \<open>groupWriterTrust\<close>

text \<open>What the walks note: the results kept, an identity forked or rolled back, too many links.\<close>

record walk_notes =
  wnVerified :: link_memo
  wnForked :: bool
  wnOverflow :: bool

definition writer_path :: "primitives \<Rightarrow> writer_input \<Rightarrow> key_set \<Rightarrow> key_set list \<Rightarrow> pinned_keys \<Rightarrow> bool \<Rightarrow> bool
    \<Rightarrow> walk_notes \<Rightarrow> crypto_error + (succession_link list option \<times> walk_notes)" where
  "writer_path P input entry_keys key_sets start fromFirstKeys consent notes =
     (case (wiServed input, wiLinks input) of
        (Some served, Some given_links) \<Rightarrow>
          bindE (if consent then bindE (pinnedOf entry_keys) (\<lambda>u. Inr (Some u)) else Inr None) (\<lambda>until.
          bindE (mapE pinnedOf key_sets) (\<lambda>memberKeys.
            let (outcome, memo) = successionPath P (wiWriterUserId input) start served given_links (wnVerified notes)
                  until memberKeys
            in Inr (case outcome of Path ls \<Rightarrow> Some ls | _ \<Rightarrow> None,
              notes\<lparr> wnVerified := memo,
                wnForked := wnForked notes \<or> (\<not> fromFirstKeys \<and> (outcome = Identity_Fork \<or> outcome = Stale)),
                wnOverflow := wnOverflow notes \<or> (\<not> fromFirstKeys \<and> outcome = Too_Many) \<rparr>)))
      | _ \<Rightarrow> Inr (None, notes))"

text \<open>The walks, in the order they are made: from the first keys (with the part up to the entry's), from the entry's
  keys (the lag), from the pin.\<close>

record writer_walks =
  wwFirst :: "key_set option"
  wwFromFirst :: "succession_link list option"
  wwToEntry :: "succession_link list option"
  wwLag :: "succession_link list option"
  wwFromPin :: "succession_link list option"

definition writer_walks_of :: "primitives \<Rightarrow> writer_input \<Rightarrow> chain_body \<Rightarrow> roster_member
    \<Rightarrow> crypto_error + (writer_walks \<times> walk_notes)" where
  "writer_walks_of P input chain entry =
     (let entry_keys = keySetOf entry; key_sets = get_or [] (chKeyHistory chain) (userId entry);
          head_key = (case map_of (chKeyHistory chain) (userId entry) of Some (f # _) \<Rightarrow> Some f | _ \<Rightarrow> None);
          notes = \<lparr> wnVerified = wiVerified input, wnForked = False, wnOverflow = False \<rparr> in
      bindE (case head_key of None \<Rightarrow> Inr (None, notes)
        | Some f \<Rightarrow> if sameKeySet f entry_keys then Inr (None, notes)
            else bindE (pinnedOf f) (\<lambda>start. writer_path P input entry_keys key_sets start True True notes)) (\<lambda>(fromFirst, notes).
      bindE (case fromFirst of None \<Rightarrow> Inr None
        | Some ls \<Rightarrow> bindE (pinnedOf entry_keys) (\<lambda>at. Inr (upTo P ls at))) (\<lambda>toEntry.
      bindE (bindE (pinnedOf entry_keys) (\<lambda>start. writer_path P input entry_keys key_sets start False False notes)) (\<lambda>(lag, notes).
      bindE (case wiPinned input of None \<Rightarrow> Inr (None, notes)
        | Some pin \<Rightarrow> writer_path P input entry_keys key_sets (pinned_keys.truncate pin) False (wpTrustedVia pin \<noteq> Some None) notes)
        (\<lambda>(fromPin, notes).
      Inr (\<lparr> wwFirst = head_key, wwFromFirst = fromFirst, wwToEntry = toEntry, wwLag = lag, wwFromPin = fromPin \<rparr>, notes))))))"

text \<open>The keys retired: with a pin, along the chain from it, and before it along the member's entry_keys; without one,
  along the member's entry_keys chain alone.\<close>

definition retired_keys :: "primitives \<Rightarrow> writer_pin option \<Rightarrow> roster_member \<Rightarrow> writer_walks \<Rightarrow> crypto_error + bytes list" where
  "retired_keys P pin entry w =
     (case pin of
        Some pinned \<Rightarrow>
          bindE (case wwFromPin w of None \<Rightarrow> Inr [] | Some ls \<Rightarrow> retiredAlong pinned ls) (\<lambda>along.
          bindE (case wwLag w of None \<Rightarrow> Inr []
            | Some ls \<Rightarrow> bindE (pinnedOf (keySetOf entry)) (\<lambda>at. retiredBefore P at ls pinned)) (\<lambda>lagging.
          bindE (case wwToEntry w of None \<Rightarrow> Inr []
            | Some toEntry \<Rightarrow>
                bindE (pinnedOf (the (wwFirst w))) (\<lambda>f.
                bindE (retiredBefore P f toEntry pinned) (\<lambda>beforePin.
                  if beforePin \<noteq> [] then Inr beforePin
                  else bindE (retiredBefore P f (the (wwFromFirst w)) pinned) (\<lambda>past.
                    if past \<noteq> [] then retiredAlong f toEntry else Inr [])))) (\<lambda>earlier.
            Inr (along @ lagging @ earlier))))
      | None \<Rightarrow>
          bindE (case wwLag w of None \<Rightarrow> Inr []
            | Some ls \<Rightarrow> bindE (pinnedOf (keySetOf entry)) (\<lambda>at. retiredAlong at ls)) (\<lambda>lagging.
          bindE (case wwToEntry w of None \<Rightarrow> Inr []
            | Some toEntry \<Rightarrow> bindE (pinnedOf (the (wwFirst w))) (\<lambda>f. retiredAlong f toEntry)) (\<lambda>earlier.
            Inr (lagging @ earlier))))"

definition pin_agrees :: "'a pinned_keys_scheme \<Rightarrow> string \<Rightarrow> string \<Rightarrow> string \<Rightarrow> bool" where
  "pin_agrees pinned enc signing dig \<longleftrightarrow> pk_encryptionPublicKey pinned = enc \<and> pk_signingPublicKey pinned = signing
     \<and> sameKeyDigest (Some (pk_mlDsaPublicKeyHash pinned)) dig"

text \<open>The trust, once the walks are made and the identity is neither forked nor rolled back.\<close>

definition writer_verdict :: "primitives \<Rightarrow> chain_body \<Rightarrow> roster_member \<Rightarrow> writer_pin option \<Rightarrow> served_keys option \<Rightarrow> bool
    \<Rightarrow> writer_walks \<Rightarrow> crypto_error + writer_trust" where
  "writer_verdict P chain entry pin served linksLoaded w =
     (let lagging = wwLag w \<noteq> None in
      bindE (retired_keys P pin entry w) (\<lambda>retired_list.
      bindE (signing_bytes (if lagging then sk_signingPublicKey (the served) else signingPublicKey entry)) (\<lambda>current.
        let signer = \<lparr> t_current = current, t_retired = retired_list, t_seen = False \<rparr> in
        if status entry = Left then Inr (Trust_Former_Member signer linksLoaded)
        else case pin of None \<Rightarrow> Inr (Trust_Roster signer (Some (chGroupId chain)) None linksLoaded)
        | Some pinned \<Rightarrow>
            let via = (case wpTrustedVia pinned of None \<Rightarrow> None | Some v \<Rightarrow> v) in
            if pin_agrees pinned (encryptionPublicKey entry) (signingPublicKey entry) (mlDsaPublicKeyDigest entry)
            then Inr (Trust_Roster signer via (if lagging then served else None) linksLoaded)
            else if lagging \<and> (case served of None \<Rightarrow> False
                | Some s \<Rightarrow> pin_agrees pinned (sk_encryptionPublicKey s) (sk_signingPublicKey s)
                    (case mlDsaDigest P (sk_mlDsaPublicKey s) of None \<Rightarrow> [] | Some d \<Rightarrow> d))
            then Inr (Trust_Roster signer via None linksLoaded)
            else if \<not> linksLoaded then Inr Trust_Unchecked
            else if (servedKeysAreEntry P (the served) entry \<or> lagging) \<and> wwFromPin w \<noteq> None
            then Inr (Trust_Roster signer (Some (chGroupId chain)) served linksLoaded)
            else Inr Trust_Key_Conflict)))"

definition groupWriterTrust :: "primitives \<Rightarrow> writer_input \<Rightarrow> crypto_error + (writer_trust \<times> link_memo)" where
  "groupWriterTrust P input =
     (let plain = (\<lambda>t. Inr (t, wiVerified input)) in
      if wiWorkspaceId input \<notin> fst ` set (wiAreas input) then plain Trust_Outside
      else case wiReading input of
        Reading_Unavailable \<Rightarrow> plain Trust_Unchecked
      | Reading_Fork \<Rightarrow> plain Trust_Outside
      | Reading_Accepted c \<Rightarrow>
          bindE (requireAccepted c) (\<lambda>chain.
          if chGroupId chain \<noteq> wiGroupId input then plain Trust_Unchecked
          else case rosterEntry (chRoster chain) (wiWriterUserId input) of None \<Rightarrow> plain Trust_Outside
          | Some entry \<Rightarrow>
              if (case wiPinned input of None \<Rightarrow> False
                  | Some pin \<Rightarrow> wpTrustedVia pin = Some (Some []) \<or> wpTrustedVia pin = None)
              then plain Trust_Unchecked
              else
                bindE (writer_walks_of P input chain entry) (\<lambda>(w, notes).
                if wnForked notes then Inr (Trust_Unchecked, wnVerified notes)
                else
                  let overflow = wnOverflow notes;
                      served = (if overflow then None else wiServed input);
                      w = (if overflow then w\<lparr> wwFromFirst := None, wwToEntry := None, wwLag := None, wwFromPin := None \<rparr> else w);
                      linksLoaded = (\<not> overflow \<and> wiServed input \<noteq> None \<and> wiLinks input \<noteq> None)
                  in bindE (writer_verdict P chain entry (wiPinned input) served linksLoaded w) (\<lambda>trust.
                    Inr (trust, wnVerified notes)))))"

section \<open>What a reader shows\<close>

datatype group_integrity = Shown integrity | Key_Conflict | Former_Member

definition unknown_unless :: "integrity \<Rightarrow> bool \<Rightarrow> integrity" where
  "unknown_unless i linksLoaded = (if i = BadSignature \<and> \<not> linksLoaded then Unchecked else i)"

definition groupVerdictOf :: "writer_trust \<Rightarrow> trusted_signer option \<Rightarrow> bool \<Rightarrow> (trusted_signer option \<Rightarrow> integrity)
    \<Rightarrow> group_integrity \<times> string option" where
  "groupVerdictOf trust personal was_signed check =
     (if \<not> was_signed then (Shown Unsigned, None)
      else case trust of
        Trust_Outside \<Rightarrow> (Shown (check personal), None)
      | Trust_Unchecked \<Rightarrow> (Shown Unchecked, None)
      | Trust_Key_Conflict \<Rightarrow> (Key_Conflict, None)
      | Trust_Former_Member signer linksLoaded \<Rightarrow>
          let i = unknown_unless (check (Some signer)) linksLoaded in
          (if i \<in> {Verified, Seen, SavedFromLink, Resealed, RetiredKey} then Former_Member else Shown i, None)
      | Trust_Roster signer via _ linksLoaded \<Rightarrow>
          let i = unknown_unless (check (Some signer)) linksLoaded in
          (Shown i, if i = Verified \<or> i = SavedFromLink then via else None))"

definition groupIntegrityOf :: "primitives \<Rightarrow> (thrown + statement_forms) \<Rightarrow> bytes option \<Rightarrow> writer_trust
    \<Rightarrow> trusted_signer option \<Rightarrow> group_integrity \<times> string option" where
  "groupIntegrityOf P statements sig trust personal =
     groupVerdictOf trust personal (sig \<noteq> None) (integrityOf P statements sig)"

section \<open>What a walk that found a path proves\<close>

definition proven_path :: "primitives \<Rightarrow> writer_input \<Rightarrow> pinned_keys option \<Rightarrow> pinned_keys \<Rightarrow> succession_link list \<Rightarrow> bool" where
  "proven_path P input until start ls =
     (case (wiServed input, wiLinks input) of
        (Some served, Some given_links) \<Rightarrow>
          let w = walk_of (wiWriterUserId input) start served given_links until in
          ls \<noteq> [] \<and> followed P w None (asks_consent start until) ls \<and> next_keys (last ls) = keys_served served
      | _ \<Rightarrow> False)"

text \<open>The results a session kept for this writer's links are true, under keys that do not collide.\<close>

definition kept_true :: "primitives \<Rightarrow> writer_input \<Rightarrow> link_memo \<Rightarrow> bool" where
  "kept_true P input memo =
     (case wiLinks input of None \<Rightarrow> True
      | Some given_links \<Rightarrow> collision_free P (queries (wiWriterUserId input) (map snapshot given_links))
          \<and> memo_true P (queries (wiWriterUserId input) (map snapshot given_links)) memo)"

definition until_of :: "key_set \<Rightarrow> bool \<Rightarrow> crypto_error + pinned_keys option" where
  "until_of entry_keys consent = (if consent then bindE (pinnedOf entry_keys) (\<lambda>u. Inr (Some u)) else Inr None)"

lemma writer_path_sound:
  assumes "writer_path P input entry_keys key_sets start fromFirstKeys consent notes = Inr (res, notes')"
    and "kept_true P input (wnVerified notes)"
  shows "kept_true P input (wnVerified notes')
    \<and> (\<forall>ls. res = Some ls \<longrightarrow> (\<exists>until. until_of entry_keys consent = Inr until \<and> proven_path P input until start ls))"
proof (cases "(wiServed input, wiLinks input)")
  case (Pair so lo)
  then have so: "wiServed input = so" and lo: "wiLinks input = lo" by simp_all
  show ?thesis
  proof (cases "so = None \<or> lo = None")
    case True
    with assms so lo show ?thesis by (auto simp: writer_path_def split: option.splits)
  next
    case False
    then obtain served given_links where s: "wiServed input = Some served" "wiLinks input = Some given_links"
      using so lo by auto
    from assms(1) obtain until memberKeys where u: "until_of entry_keys consent = Inr until"
      and rest: "(let (found, memo) = successionPath P (wiWriterUserId input) start served given_links (wnVerified notes)
                  until memberKeys
            in Inr (case found of Path ls \<Rightarrow> Some ls | _ \<Rightarrow> None,
              notes\<lparr> wnVerified := memo,
                wnForked := wnForked notes \<or> (\<not> fromFirstKeys \<and> (found = Identity_Fork \<or> found = Stale)),
                wnOverflow := wnOverflow notes \<or> (\<not> fromFirstKeys \<and> found = Too_Many) \<rparr>)) = (Inr (res, notes') :: crypto_error + _)"
      unfolding writer_path_def s prod.case option.case bindE_Inr until_of_def by blast
    obtain outcome memo' where p: "successionPath P (wiWriterUserId input) start served given_links (wnVerified notes)
        until memberKeys = (outcome, memo')" by fastforce
    from rest p have r: "res = (case outcome of Path ls \<Rightarrow> Some ls | _ \<Rightarrow> None)" "wnVerified notes' = memo'"
      by (auto simp: Let_def)
    from assms(2) s have k: "collision_free P (queries (wiWriterUserId input) (map snapshot given_links))"
      "memo_true P (queries (wiWriterUserId input) (map snapshot given_links)) (wnVerified notes)"
      by (auto simp: kept_true_def)
    from successionPath_memo_true [OF k p] k(1) r(2) s have "kept_true P input (wnVerified notes')"
      by (simp add: kept_true_def)
    moreover have "proven_path P input until start ls" if "res = Some ls" for ls
    proof -
      from that r(1) p have "fst (successionPath P (wiWriterUserId input) start served given_links (wnVerified notes)
        until memberKeys) = Path ls" by (auto split: succession_path.splits)
      from path_followed [OF k this refl refl] s show ?thesis by (simp add: proven_path_def)
    qed
    ultimately show ?thesis using u by blast
  qed
qed

section \<open>The keys a walk retires\<close>

definition along_key :: "pinned_keys \<Rightarrow> succession_link list \<Rightarrow> bytes \<Rightarrow> bool" where
  "along_key start ls k \<longleftrightarrow> signing_bytes (pk_signingPublicKey start) = Inr k
     \<or> (\<exists>l \<in> set (butlast ls). signing_bytes (newSigningPublicKey l) = Inr k)"

lemma mapE_mem_back: "mapE g xs = Inr ys \<Longrightarrow> y \<in> set ys \<Longrightarrow> \<exists>x \<in> set xs. g x = Inr y"
  by (induction xs arbitrary: ys) (auto simp: bindE_Inr)

lemma retiredAlong_mem: "retiredAlong start ls = Inr ks \<Longrightarrow> k \<in> set ks \<Longrightarrow> along_key (pinned_keys.truncate start) ls k"
  by (auto simp: retiredAlong_def along_key_def bindE_Inr pinned_keys.defs dest: mapE_mem_back)

lemma truncate_id [simp]: "pinned_keys.truncate (ks :: pinned_keys) = ks"
  by (simp add: pinned_keys.defs)

lemma upTo_prefix: "upTo P ls ks = Some qs \<Longrightarrow> \<exists>zs. ls = qs @ zs \<and> qs \<noteq> []"
  by (induction ls arbitrary: qs) (auto split: if_splits)

lemma along_key_prefix: "along_key start qs k \<Longrightarrow> qs \<noteq> [] \<Longrightarrow> along_key start (qs @ zs) k"
  by (auto simp: along_key_def butlast_append dest: in_set_butlastD)

lemma retiredBefore_mem:
  assumes "retiredBefore P start ls pinned = Inr ks" and "k \<in> set ks"
  shows "along_key start ls k"
proof -
  from assms obtain qs where q: "upTo P ls pinned = Some qs" "retiredAlong start qs = Inr ks"
    by (auto simp: retiredBefore_def split: option.splits)
  from upTo_prefix [OF q(1)] retiredAlong_mem [OF q(2) assms(2)] show ?thesis
    by (auto intro: along_key_prefix)
qed

section \<open>The keys a writer's signature is checked under\<close>

fun signer_of :: "writer_trust \<Rightarrow> trusted_signer option" where
  "signer_of (Trust_Roster s via follow loaded) = Some s"
| "signer_of (Trust_Former_Member s loaded) = Some s"
| "signer_of _ = None"

text \<open>Where a walk starts, and up to which keys the successor must consent: the entry's keys; the member's
  first keys on the chain; the reader's own pin of the member, or one of a group.\<close>

definition walk_from :: "writer_input \<Rightarrow> chain_body \<Rightarrow> roster_member \<Rightarrow> pinned_keys option \<Rightarrow> pinned_keys \<Rightarrow> bool" where
  "walk_from input chain entry until start \<longleftrightarrow>
     (pinnedOf (keySetOf entry) = Inr start \<and> until = None)
     \<or> (\<exists>f rest. map_of (chKeyHistory chain) (userId entry) = Some (f # rest) \<and> pinnedOf f = Inr start
          \<and> until_of (keySetOf entry) True = Inr until)
     \<or> (\<exists>pin. wiPinned input = Some pin \<and> start = pinned_keys.truncate pin
          \<and> until_of (keySetOf entry) (wpTrustedVia pin \<noteq> Some None) = Inr until)"

text \<open>What the walks made for a writer prove; nothing, once they are dropped.\<close>

definition walks_prove :: "primitives \<Rightarrow> writer_input \<Rightarrow> chain_body \<Rightarrow> roster_member \<Rightarrow> writer_walks \<Rightarrow> bool" where
  "walks_prove P input chain entry w \<longleftrightarrow>
     (\<forall>ls. wwLag w = Some ls \<longrightarrow> (\<exists>start. pinnedOf (keySetOf entry) = Inr start \<and> proven_path P input None start ls))
     \<and> (\<forall>ls. wwFromPin w = Some ls \<longrightarrow> (\<exists>pin until. wiPinned input = Some pin
          \<and> until_of (keySetOf entry) (wpTrustedVia pin \<noteq> Some None) = Inr until
          \<and> proven_path P input until (pinned_keys.truncate pin) ls))
     \<and> (\<forall>qs. wwToEntry w = Some qs \<longrightarrow> (\<exists>f rest start until ls zs. wwFirst w = Some f \<and> wwFromFirst w = Some ls
          \<and> map_of (chKeyHistory chain) (userId entry) = Some (f # rest) \<and> pinnedOf f = Inr start
          \<and> until_of (keySetOf entry) True = Inr until \<and> proven_path P input until start ls
          \<and> ls = qs @ zs \<and> qs \<noteq> []))"

lemma until_own: "until_of ks False = Inr until \<longleftrightarrow> until = None"
  by (auto simp: until_of_def)

lemma writer_walks_prove:
  assumes "writer_walks_of P input chain entry = Inr (w, notes)" and "kept_true P input (wiVerified input)"
  shows "walks_prove P input chain entry w \<and> kept_true P input (wnVerified notes)"
proof -
  let ?own = "keySetOf entry" and ?sets = "get_or [] (chKeyHistory chain) (userId entry)"
  let ?head = "case map_of (chKeyHistory chain) (userId entry) of Some (f # _) \<Rightarrow> Some f | _ \<Rightarrow> None"
  let ?n0 = "\<lparr> wnVerified = wiVerified input, wnForked = False, wnOverflow = False \<rparr>"
  from assms(1) obtain ff n1 te lag n2 fp where
    1: "(case ?head of None \<Rightarrow> Inr (None, ?n0) | Some f \<Rightarrow> if sameKeySet f ?own then Inr (None, ?n0)
            else bindE (pinnedOf f) (\<lambda>start. writer_path P input ?own ?sets start True True ?n0)) = Inr (ff, n1)" and
    2: "(case ff of None \<Rightarrow> Inr None | Some ls \<Rightarrow> bindE (pinnedOf ?own) (\<lambda>at. Inr (upTo P ls at))) = (Inr te :: crypto_error + _)" and
    3: "bindE (pinnedOf ?own) (\<lambda>start. writer_path P input ?own ?sets start False False n1) = Inr (lag, n2)" and
    4: "(case wiPinned input of None \<Rightarrow> Inr (None, n2)
        | Some pin \<Rightarrow> writer_path P input ?own ?sets (pinned_keys.truncate pin) False (wpTrustedVia pin \<noteq> Some None) n2) = Inr (fp, notes)" and
    5: "w = \<lparr> wwFirst = ?head, wwFromFirst = ff, wwToEntry = te, wwLag = lag, wwFromPin = fp \<rparr>"
    unfolding writer_walks_of_def Let_def bindE_Inr by (auto simp: bindE_Inr)
  have k0: "kept_true P input (wnVerified ?n0)" using assms(2) by simp
  have one: "kept_true P input (wnVerified n1) \<and> (\<forall>ls. ff = Some ls \<longrightarrow>
      (\<exists>f rest start until. ?head = Some f \<and> map_of (chKeyHistory chain) (userId entry) = Some (f # rest)
        \<and> pinnedOf f = Inr start \<and> until_of ?own True = Inr until \<and> proven_path P input until start ls))"
  proof (cases ?head)
    case None
    with 1 k0 show ?thesis by simp
  next
    case (Some f)
    then obtain rest where f: "map_of (chKeyHistory chain) (userId entry) = Some (f # rest)"
      by (auto split: option.splits list.splits)
    show ?thesis
    proof (cases "sameKeySet f ?own")
      case True
      with 1 Some k0 show ?thesis by simp
    next
      case False
      with 1 obtain start where s: "pinnedOf f = Inr start"
        "writer_path P input ?own ?sets start True True ?n0 = Inr (ff, n1)"
        unfolding Some option.case if_not_P [OF False] bindE_Inr by blast
      from writer_path_sound [OF s(2) k0] s(1) f Some show ?thesis by blast
    qed
  qed
  from 3 obtain start where s: "pinnedOf ?own = Inr start"
    "writer_path P input ?own ?sets start False False n1 = Inr (lag, n2)" unfolding bindE_Inr by blast
  from one have "kept_true P input (wnVerified n1)" by (rule conjunct1)
  from writer_path_sound [OF s(2) this, unfolded until_own]
  have two: "kept_true P input (wnVerified n2)" "\<forall>ls. lag = Some ls \<longrightarrow> proven_path P input None start ls"
    by blast+
  have three: "kept_true P input (wnVerified notes) \<and> (\<forall>ls. fp = Some ls \<longrightarrow> (\<exists>pin until. wiPinned input = Some pin
          \<and> until_of ?own (wpTrustedVia pin \<noteq> Some None) = Inr until
          \<and> proven_path P input until (pinned_keys.truncate pin) ls))"
  proof (cases "wiPinned input")
    case None
    with 4 two(1) show ?thesis by auto
  next
    case (Some pin)
    with 4 have "writer_path P input ?own ?sets (pinned_keys.truncate pin) False (wpTrustedVia pin \<noteq> Some None) n2 = Inr (fp, notes)"
      by simp
    from writer_path_sound [OF this two(1)] Some show ?thesis by blast
  qed
  have four: "\<exists>ls zs. ff = Some ls \<and> ls = qs @ zs \<and> qs \<noteq> []" if q: "te = Some qs" for qs
  proof -
    from 2 q obtain ls and at :: pinned_keys where "ff = Some ls" "upTo P ls at = Some qs"
      by (cases ff) (auto simp: bindE_Inr)
    with upTo_prefix show ?thesis by blast
  qed
  have "\<exists>f rest start until ls zs. ?head = Some f \<and> ff = Some ls
      \<and> map_of (chKeyHistory chain) (userId entry) = Some (f # rest) \<and> pinnedOf f = Inr start
      \<and> until_of ?own True = Inr until \<and> proven_path P input until start ls \<and> ls = qs @ zs \<and> qs \<noteq> []"
    if q: "te = Some qs" for qs
  proof -
    from four [OF q] obtain ls zs where "ff = Some ls" "ls = qs @ zs" "qs \<noteq> []" by blast
    with one show ?thesis by blast
  qed
  with two(2) s(1) three show ?thesis unfolding walks_prove_def 5 writer_walks.simps by blast
qed

lemma retired_keys_mem:
  assumes "walks_prove P input chain entry w" and "retired_keys P (wiPinned input) entry w = Inr ks" and "k \<in> set ks"
  shows "\<exists>until start ls. walk_from input chain entry until start \<and> proven_path P input until start ls \<and> along_key start ls k"
proof -
  have lag: "\<exists>until start ls. walk_from input chain entry until start \<and> proven_path P input until start ls \<and> along_key start ls k"
    if "wwLag w = Some ls" "pinnedOf (keySetOf entry) = Inr at" "along_key at ls k" for ls at
    using assms(1) that unfolding walks_prove_def walk_from_def by auto
  have pin: "\<exists>until start ls. walk_from input chain entry until start \<and> proven_path P input until start ls \<and> along_key start ls k"
    if "wwFromPin w = Some ls" "wiPinned input = Some pin" "along_key (pinned_keys.truncate pin) ls k" for ls pin
    using assms(1) that unfolding walks_prove_def walk_from_def by fastforce
  have first_keys: "\<exists>until start ls. walk_from input chain entry until start \<and> proven_path P input until start ls \<and> along_key start ls k"
    if "wwToEntry w = Some qs" "pinnedOf (the (wwFirst w)) = Inr at" "along_key at qs k" for qs at
  proof -
    from assms(1) that(1) obtain f rest start until ls zs where f: "wwFirst w = Some f"
      "map_of (chKeyHistory chain) (userId entry) = Some (f # rest)" "pinnedOf f = Inr start"
      "until_of (keySetOf entry) True = Inr until" "proven_path P input until start ls" "ls = qs @ zs" "qs \<noteq> []"
      unfolding walks_prove_def by blast
    from f that along_key_prefix have "along_key start ls k" by auto
    with f show ?thesis unfolding walk_from_def by blast
  qed
  show ?thesis
  proof (cases "wiPinned input")
    case None
    with assms(2) obtain a b where ab: "ks = a @ b"
      "(case wwLag w of None \<Rightarrow> Inr [] | Some ls \<Rightarrow> bindE (pinnedOf (keySetOf entry)) (\<lambda>at. retiredAlong at ls)) = Inr a"
      "(case wwToEntry w of None \<Rightarrow> Inr []
              | Some qs \<Rightarrow> bindE (pinnedOf (the (wwFirst w))) (\<lambda>f. retiredAlong f qs)) = Inr b"
      by (auto simp: retired_keys_def bindE_Inr)
    from assms(3) ab(1) consider "k \<in> set a" | "k \<in> set b" by auto
    then show ?thesis
    proof cases
      case 1
      with ab(2) obtain ls and at :: pinned_keys where "wwLag w = Some ls" "pinnedOf (keySetOf entry) = Inr at" "retiredAlong at ls = Inr a"
        by (auto simp: bindE_Inr split: option.splits)
      with 1 retiredAlong_mem lag show ?thesis by fastforce
    next
      case 2
      with ab(3) obtain qs and at :: pinned_keys where "wwToEntry w = Some qs" "pinnedOf (the (wwFirst w)) = Inr at" "retiredAlong at qs = Inr b"
        by (auto simp: bindE_Inr split: option.splits)
      with 2 retiredAlong_mem first_keys show ?thesis by fastforce
    qed
  next
    case (Some pin)
    with assms(2) obtain a b c where abc: "ks = a @ b @ c"
      "(case wwFromPin w of None \<Rightarrow> Inr [] | Some ls \<Rightarrow> retiredAlong pin ls) = Inr a"
      "(case wwLag w of None \<Rightarrow> Inr []
            | Some ls \<Rightarrow> bindE (pinnedOf (keySetOf entry)) (\<lambda>at. retiredBefore P at ls pin)) = Inr b"
      "(case wwToEntry w of None \<Rightarrow> Inr []
            | Some toEntry \<Rightarrow>
                bindE (pinnedOf (the (wwFirst w))) (\<lambda>f.
                bindE (retiredBefore P f toEntry pin) (\<lambda>beforePin.
                  if beforePin \<noteq> [] then Inr beforePin
                  else bindE (retiredBefore P f (the (wwFromFirst w)) pin) (\<lambda>past.
                    if past \<noteq> [] then retiredAlong f toEntry else Inr [])))) = Inr c"
      by (auto simp: retired_keys_def bindE_Inr)
    from assms(3) abc(1) consider "k \<in> set a" | "k \<in> set b" | "k \<in> set c" by auto
    then show ?thesis
    proof cases
      case 1
      with abc(2) obtain ls where "wwFromPin w = Some ls" "retiredAlong pin ls = Inr a"
        by (auto split: option.splits)
      with 1 retiredAlong_mem pin Some show ?thesis by fastforce
    next
      case 2
      with abc(3) obtain ls and at :: pinned_keys where "wwLag w = Some ls" "pinnedOf (keySetOf entry) = Inr at" "retiredBefore P at ls pin = Inr b"
        by (auto simp: bindE_Inr split: option.splits)
      with 2 retiredBefore_mem lag show ?thesis by blast
    next
      case 3
      with abc(4) obtain qs and at :: pinned_keys where q: "wwToEntry w = Some qs" "pinnedOf (the (wwFirst w)) = Inr at"
        "retiredBefore P at qs pin = Inr c \<or> retiredAlong at qs = Inr c"
        by (auto simp: bindE_Inr split: option.splits if_splits)
      with 3 retiredBefore_mem retiredAlong_mem have "along_key at qs k" by fastforce
      with q first_keys show ?thesis by blast
    qed
  qed
qed


text \<open>What one writer's trust was decided from. Too many links drop every walk made.\<close>

definition dropped_walks :: "writer_walks \<Rightarrow> writer_walks" where
  "dropped_walks w = w\<lparr> wwFromFirst := None, wwToEntry := None, wwLag := None, wwFromPin := None \<rparr>"

lemma trust_decided:
  assumes "groupWriterTrust P input = Inr (trust, memo)" and "trust \<noteq> Trust_Outside" "trust \<noteq> Trust_Unchecked"
  obtains c chain entry w0 kept overflow served where "wiReading input = Reading_Accepted c" "requireAccepted c = Inr chain"
    "chGroupId chain = wiGroupId input" "rosterEntry (chRoster chain) (wiWriterUserId input) = Some entry"
    "writer_walks_of P input chain entry = Inr (w0, kept)"
    "writer_verdict P chain entry (wiPinned input) served (\<not> overflow \<and> wiServed input \<noteq> None \<and> wiLinks input \<noteq> None)
       (if overflow then dropped_walks w0 else w0) = Inr trust"
    "served = (if overflow then None else wiServed input)" "wiWorkspaceId input \<in> fst ` set (wiAreas input)"
    "\<forall>pin. wiPinned input = Some pin \<longrightarrow> wpTrustedVia pin \<noteq> None \<and> wpTrustedVia pin \<noteq> Some (Some [])"
proof -
  have area: "wiWorkspaceId input \<in> fst ` set (wiAreas input)"
    by (rule ccontr) (use assms in \<open>simp add: groupWriterTrust_def\<close>)
  from assms area obtain c where c: "wiReading input = Reading_Accepted c"
    by (cases "wiReading input") (simp_all add: groupWriterTrust_def)
  from assms(1) area c obtain chain where ch: "requireAccepted c = Inr chain"
    by (cases "requireAccepted c") (simp_all add: groupWriterTrust_def)
  have g: "chGroupId chain = wiGroupId input"
    by (rule ccontr) (use assms area c ch in \<open>simp add: groupWriterTrust_def\<close>)
  from assms area c ch g obtain entry where
    e: "rosterEntry (chRoster chain) (wiWriterUserId input) = Some entry"
    by (cases "rosterEntry (chRoster chain) (wiWriterUserId input)") (simp_all add: groupWriterTrust_def)
  have v: "\<not> (case wiPinned input of None \<Rightarrow> False
      | Some pin \<Rightarrow> wpTrustedVia pin = Some (Some []) \<or> wpTrustedVia pin = None)"
    by (rule notI) (use assms area c ch g e in \<open>simp add: groupWriterTrust_def\<close>)
  from assms(1) have "bindE (writer_walks_of P input chain entry) (\<lambda>(w, kept).
      if wnForked kept then Inr (Trust_Unchecked, wnVerified kept)
      else bindE (writer_verdict P chain entry (wiPinned input) (if wnOverflow kept then None else wiServed input)
            (\<not> wnOverflow kept \<and> wiServed input \<noteq> None \<and> wiLinks input \<noteq> None)
            (if wnOverflow kept then dropped_walks w else w))
          (\<lambda>trust. Inr (trust, wnVerified kept))) = Inr (trust, memo)"
    using v c ch g e area by (simp add: groupWriterTrust_def Let_def dropped_walks_def cong: if_cong)
  then obtain w0 kept where w: "writer_walks_of P input chain entry = Inr (w0, kept)"
    and rest: "(if wnForked kept then Inr (Trust_Unchecked, wnVerified kept)
      else bindE (writer_verdict P chain entry (wiPinned input) (if wnOverflow kept then None else wiServed input)
            (\<not> wnOverflow kept \<and> wiServed input \<noteq> None \<and> wiLinks input \<noteq> None)
            (if wnOverflow kept then dropped_walks w0 else w0))
          (\<lambda>trust. Inr (trust, wnVerified kept))) = Inr (trust, memo)" unfolding bindE_Inr by auto
  have "\<not> wnForked kept" by (rule notI) (use rest assms(3) in simp)
  with rest have "writer_verdict P chain entry (wiPinned input) (if wnOverflow kept then None else wiServed input)
            (\<not> wnOverflow kept \<and> wiServed input \<noteq> None \<and> wiLinks input \<noteq> None)
            (if wnOverflow kept then dropped_walks w0 else w0) = Inr trust"
    unfolding bindE_Inr if_not_P [OF \<open>\<not> wnForked kept\<close>] by blast
  from that [OF c ch g e w this refl area] v show thesis by (auto split: option.splits)
qed

lemma walks_still_prove:
  assumes "writer_walks_of P input chain entry = Inr (w0, kept)" and "kept_true P input (wiVerified input)"
  shows "walks_prove P input chain entry (if overflow then dropped_walks w0 else w0)"
  using writer_walks_prove [OF assms] by (simp add: walks_prove_def dropped_walks_def)

lemma verdict_signer:
  assumes "writer_verdict P chain entry pin served loaded w = Inr trust" and "signer_of trust = Some s"
  shows "\<exists>ks current. retired_keys P pin entry w = Inr ks \<and> s = \<lparr> t_current = current, t_retired = ks, t_seen = False \<rparr>
    \<and> signing_bytes (if wwLag w \<noteq> None then sk_signingPublicKey (the served) else signingPublicKey entry) = Inr current"
proof -
  from assms(1) obtain ks current where
    "retired_keys P pin entry w = Inr ks"
    "signing_bytes (if wwLag w \<noteq> None then sk_signingPublicKey (the served) else signingPublicKey entry) = Inr current"
    unfolding writer_verdict_def Let_def bindE_Inr by blast
  with assms show ?thesis
    by (auto simp: writer_verdict_def Let_def split: if_splits option.splits)
qed

text \<open>The entry's key, or the served one a proven path reaches from the entry's keys.\<close>

definition member_key :: "primitives \<Rightarrow> writer_input \<Rightarrow> roster_member \<Rightarrow> bytes \<Rightarrow> bool" where
  "member_key P input entry k \<longleftrightarrow> signing_bytes (signingPublicKey entry) = Inr k
     \<or> (\<exists>served start ls. wiServed input = Some served \<and> signing_bytes (sk_signingPublicKey served) = Inr k
          \<and> pinnedOf (keySetOf entry) = Inr start \<and> proven_path P input None start ls)"

lemma current_member_key:
  assumes "walks_prove P input chain entry w" and "wwLag w \<noteq> None \<longrightarrow> served = wiServed input"
    and "signing_bytes (if wwLag w \<noteq> None then sk_signingPublicKey (the served) else signingPublicKey entry) = Inr k"
  shows "member_key P input entry k"
proof (cases "wwLag w")
  case None
  with assms(3) show ?thesis by (simp add: member_key_def)
next
  case (Some ls)
  with assms(1) obtain start where "pinnedOf (keySetOf entry) = Inr start" "proven_path P input None start ls"
    unfolding walks_prove_def by blast
  moreover from this(2) obtain sv where "wiServed input = Some sv" by (auto simp: proven_path_def split: option.splits)
  ultimately show ?thesis using assms(2,3) Some unfolding member_key_def by auto
qed

text \<open>Whatever a writer's signature is checked under in a group's area comes from the accepted roster: the
  current key is the entry's, or that of the identity served now when a proven path of successions leads to it
  from the entry's keys; and a key is retired only along a proven path from the entry's keys, from the member's
  first keys on the chain (with the successor's consent up to the entry's), or from the reader's own pin.\<close>

theorem writer_keys_come_from_the_roster:
  assumes "groupWriterTrust P input = Inr (trust, memo)" and "kept_true P input (wiVerified input)"
    and "signer_of trust = Some s"
  shows "\<exists>c chain entry. wiReading input = Reading_Accepted c \<and> requireAccepted c = Inr chain
    \<and> chGroupId chain = wiGroupId input \<and> rosterEntry (chRoster chain) (wiWriterUserId input) = Some entry
    \<and> member_key P input entry (t_current s)
    \<and> (\<forall>k \<in> set (t_retired s). \<exists>until start ls. walk_from input chain entry until start
        \<and> proven_path P input until start ls \<and> along_key start ls k)"
proof -
  from assms(3) have "trust \<noteq> Trust_Outside" "trust \<noteq> Trust_Unchecked" by auto
  then obtain c chain entry w0 kept overflow served where
    d: "wiReading input = Reading_Accepted c" "requireAccepted c = Inr chain"
    "chGroupId chain = wiGroupId input" "rosterEntry (chRoster chain) (wiWriterUserId input) = Some entry"
    "writer_walks_of P input chain entry = Inr (w0, kept)"
    "writer_verdict P chain entry (wiPinned input) served (\<not> overflow \<and> wiServed input \<noteq> None \<and> wiLinks input \<noteq> None)
       (if overflow then dropped_walks w0 else w0) = Inr trust"
    "served = (if overflow then None else wiServed input)" "wiWorkspaceId input \<in> fst ` set (wiAreas input)"
    "\<forall>pin. wiPinned input = Some pin \<longrightarrow> wpTrustedVia pin \<noteq> None \<and> wpTrustedVia pin \<noteq> Some (Some [])"
    by (rule trust_decided [OF assms(1)])
  define w where "w = (if overflow then dropped_walks w0 else w0)"
  have p: "walks_prove P input chain entry w" unfolding w_def by (rule walks_still_prove [OF d(5) assms(2)])
  have sv: "wwLag w \<noteq> None \<longrightarrow> served = wiServed input" using d(7) by (simp add: w_def dropped_walks_def)
  from verdict_signer [OF d(6) [folded w_def] assms(3)] obtain ks current where
    s: "retired_keys P (wiPinned input) entry w = Inr ks" "s = \<lparr> t_current = current, t_retired = ks, t_seen = False \<rparr>"
    "signing_bytes (if wwLag w \<noteq> None then sk_signingPublicKey (the served) else signingPublicKey entry) = Inr current"
    by blast
  from current_member_key [OF p sv s(3)] retired_keys_mem [OF p s(1)] d(1-4) s(2) show ?thesis by auto
qed

text \<open>C19. Whoever left the group is never shown as clean in its areas: with the roster accepted and their entry
  marked left, every record of theirs reads as a former member's, as unsigned, as bad or as unchecked, whatever
  the reader pinned and whatever keys are served, and never as vouched for by the group.\<close>

theorem former_member_never_clean:
  assumes "groupWriterTrust P input = Inr (trust, memo)"
    and "wiWorkspaceId input \<in> fst ` set (wiAreas input)" and "wiReading input = Reading_Accepted c"
    and "requireAccepted c = Inr chain" and "rosterEntry (chRoster chain) (wiWriterUserId input) = Some entry"
    and "status entry = Left"
  shows "fst (groupIntegrityOf P statements sig trust personal)
      \<in> {Former_Member, Shown Unsigned, Shown BadSignature, Shown Unchecked}
    \<and> snd (groupIntegrityOf P statements sig trust personal) = None"
proof -
  have out: "trust \<noteq> Trust_Outside"
  proof
    assume "trust = Trust_Outside"
    with assms have "bindE (writer_walks_of P input chain entry) (\<lambda>(w, kept).
      if wnForked kept then Inr (Trust_Unchecked, wnVerified kept)
      else bindE (writer_verdict P chain entry (wiPinned input) (if wnOverflow kept then None else wiServed input)
            (\<not> wnOverflow kept \<and> wiServed input \<noteq> None \<and> wiLinks input \<noteq> None)
            (if wnOverflow kept then dropped_walks w else w))
          (\<lambda>trust. Inr (trust, wnVerified kept))) = Inr (Trust_Outside, memo)"
      by (simp add: groupWriterTrust_def Let_def dropped_walks_def cong: if_cong split: if_splits)
    with assms(6) show False
      by (auto simp: bindE_Inr writer_verdict_def Let_def split: if_splits)
  qed
  have t: "trust = Trust_Unchecked \<or> (\<exists>s loaded. trust = Trust_Former_Member s loaded)"
  proof (cases "trust = Trust_Unchecked")
    case False
    show ?thesis
      by (rule trust_decided [OF assms(1) out False])
        (use assms(3-6) in \<open>auto simp: writer_verdict_def Let_def bindE_Inr\<close>)
  qed simp
  have "integrityOf P statements sig (Some s) \<noteq> UnknownSigner" "sig \<noteq> None \<longrightarrow> integrityOf P statements sig (Some s) \<noteq> Unsigned" for s
    by (auto simp: integrityOf_def split: option.splits sum.splits thrown.splits)
  with t show ?thesis
    by (cases "integrityOf P statements sig (signer_of trust)")
      (auto simp: groupIntegrityOf_def groupVerdictOf_def unknown_unless_def Let_def split: if_splits)
qed

text \<open>C7. A record shown as vouched for by a group was signed by a member: the roster is accepted, the writer's
  entry on it is not marked left, the signature holds over the record's own or its saved statement, and the key
  it holds under is the entry's or one a proven path of successions reaches from it; the group named is this
  group, or the one the reader's pin was trusted through.\<close>

theorem vouched_record_was_signed_by_a_member:
  assumes "groupWriterTrust P input = Inr (trust, memo)" and "kept_true P input (wiVerified input)"
    and "groupIntegrityOf P statements sig trust personal = (shown, Some g)"
  shows "\<exists>c chain entry k forms signed_with. wiReading input = Reading_Accepted c \<and> requireAccepted c = Inr chain
    \<and> rosterEntry (chRoster chain) (wiWriterUserId input) = Some entry \<and> status entry \<noteq> Left
    \<and> sig = Some signed_with \<and> statements = Inr forms \<and> member_key P input entry k
    \<and> (verifyStatement P (f_ordinary forms) signed_with k \<and> shown = Shown Verified
       \<or> verifyStatement P (f_saved forms) signed_with k \<and> shown = Shown SavedFromLink)
    \<and> (g = wiGroupId input \<or> (\<exists>pin. wiPinned input = Some pin \<and> wpTrustedVia pin = Some (Some g)))"
proof -
  from assms(3) obtain s follow loaded where tr: "trust = Trust_Roster s (Some g) follow loaded"
    and sg: "sig \<noteq> None" and sh: "shown = Shown (unknown_unless (integrityOf P statements sig (Some s)) loaded)"
    and ok: "unknown_unless (integrityOf P statements sig (Some s)) loaded \<in> {Verified, SavedFromLink}"
    by (cases trust) (auto simp: groupIntegrityOf_def groupVerdictOf_def Let_def split: if_splits)
  have i: "integrityOf P statements sig (Some s) \<in> {Verified, SavedFromLink}"
    "shown = Shown (integrityOf P statements sig (Some s))"
    using ok sh by (auto simp: unknown_unless_def split: if_splits)
  from tr have signer: "signer_of trust = Some s" and "trust \<noteq> Trust_Outside" "trust \<noteq> Trust_Unchecked" by auto
  from this(2,3) obtain c chain entry w0 kept overflow served where
    d: "wiReading input = Reading_Accepted c" "requireAccepted c = Inr chain"
    "chGroupId chain = wiGroupId input" "rosterEntry (chRoster chain) (wiWriterUserId input) = Some entry"
    "writer_walks_of P input chain entry = Inr (w0, kept)"
    "writer_verdict P chain entry (wiPinned input) served (\<not> overflow \<and> wiServed input \<noteq> None \<and> wiLinks input \<noteq> None)
       (if overflow then dropped_walks w0 else w0) = Inr trust"
    "served = (if overflow then None else wiServed input)" "wiWorkspaceId input \<in> fst ` set (wiAreas input)"
    "\<forall>pin. wiPinned input = Some pin \<longrightarrow> wpTrustedVia pin \<noteq> None \<and> wpTrustedVia pin \<noteq> Some (Some [])"
    by (rule trust_decided [OF assms(1)])
  define w where "w = (if overflow then dropped_walks w0 else w0)"
  have p: "walks_prove P input chain entry w" unfolding w_def by (rule walks_still_prove [OF d(5) assms(2)])
  have sv: "wwLag w \<noteq> None \<longrightarrow> served = wiServed input" using d(7) by (simp add: w_def dropped_walks_def)
  from verdict_signer [OF d(6) [folded w_def] signer]
  have k: "member_key P input entry (t_current s)" "\<not> t_seen s" using current_member_key [OF p sv] by auto
  have st: "status entry \<noteq> Left"
    and via: "g = wiGroupId input \<or> (\<exists>pin. wiPinned input = Some pin \<and> wpTrustedVia pin = Some (Some g))"
    using d(3,6) unfolding tr by (auto simp: writer_verdict_def Let_def bindE_Inr split: if_splits option.splits)
  from i k(2) sg obtain forms y where "sig = Some y" "statements = Inr forms"
    "verifyStatement P (f_ordinary forms) y (t_current s) \<and> shown = Shown Verified
       \<or> verifyStatement P (f_saved forms) y (t_current s) \<and> shown = Shown SavedFromLink"
    by (auto simp: integrityOf_def split: option.splits sum.splits thrown.splits if_splits)
  with d(1,2,4) k(1) st via show ?thesis by blast
qed


text \<open>A key conflict is only ever the reader's own pin against keys nothing joins it to: the member is on the
  accepted roster and has not left, the pin has other keys than their entry, their identity and links did load,
  and no proven path leads from the pin to the identity served, or that identity is neither the entry's nor
  reached from it.\<close>

theorem conflict_only_without_a_path:
  assumes "groupWriterTrust P input = Inr (Trust_Key_Conflict, memo)"
  shows "\<exists>c chain entry pin served w kept. wiReading input = Reading_Accepted c \<and> requireAccepted c = Inr chain
    \<and> rosterEntry (chRoster chain) (wiWriterUserId input) = Some entry \<and> status entry \<noteq> Left
    \<and> wiPinned input = Some pin \<and> wiServed input = Some served \<and> wiLinks input \<noteq> None
    \<and> \<not> pin_agrees pin (encryptionPublicKey entry) (signingPublicKey entry) (mlDsaPublicKeyDigest entry)
    \<and> writer_walks_of P input chain entry = Inr (w, kept)
    \<and> (wwFromPin w = None \<or> (\<not> servedKeysAreEntry P served entry \<and> wwLag w = None))"
proof -
  obtain c chain entry w0 kept overflow served where
    d: "wiReading input = Reading_Accepted c" "requireAccepted c = Inr chain"
    "chGroupId chain = wiGroupId input" "rosterEntry (chRoster chain) (wiWriterUserId input) = Some entry"
    "writer_walks_of P input chain entry = Inr (w0, kept)"
    "writer_verdict P chain entry (wiPinned input) served (\<not> overflow \<and> wiServed input \<noteq> None \<and> wiLinks input \<noteq> None)
       (if overflow then dropped_walks w0 else w0) = Inr Trust_Key_Conflict"
    "served = (if overflow then None else wiServed input)" "wiWorkspaceId input \<in> fst ` set (wiAreas input)"
    "\<forall>pin. wiPinned input = Some pin \<longrightarrow> wpTrustedVia pin \<noteq> None \<and> wpTrustedVia pin \<noteq> Some (Some [])"
    by (rule trust_decided [OF assms]) simp_all
  define w where "w = (if overflow then dropped_walks w0 else w0)"
  have "\<not> overflow \<and> status entry \<noteq> Left \<and> (\<exists>pin sv. wiPinned input = Some pin \<and> wiServed input = Some sv
    \<and> wiLinks input \<noteq> None
    \<and> \<not> pin_agrees pin (encryptionPublicKey entry) (signingPublicKey entry) (mlDsaPublicKeyDigest entry)
    \<and> (wwFromPin w = None \<or> (\<not> servedKeysAreEntry P sv entry \<and> wwLag w = None)))"
    using d(6) d(7) unfolding w_def [symmetric]
    by (auto simp: writer_verdict_def Let_def bindE_Inr split: if_splits option.splits)
  with d(1,2,4,5) show ?thesis by (auto simp: w_def)
qed

end
