(* ===== verification/Sample_Links.thy ===== *)
theory Sample_Links
  imports Sample_Seals Verdicts
begin

text \<open>
  The witnesses of the next roster, of the walks along an identity's successions and of the verdicts: the
  created family's second roster, a member who replaced their identity once (with the successor's consent),
  and readers of a record of theirs for whom links loaded, did not load, or disagree with a pin.
\<close>

section \<open>The next roster of a created family\<close>

definition created_sets :: "key_set list" where
  "created_sets = [\<lparr> ks_encryptionPublicKey = sample_key 1, ks_signingPublicKey = sample_key 2, ks_mlDsaPublicKeyDigest = sample_key 3 \<rparr>]"

lemma created_cached_is:
  "created_cached = \<lparr> cRosterDigests = [sample_key 1], cStatement = statement (roster_copy first_roster),
     cRoster = first_roster, cDroppedHolder = False, cGroupKeys = [chain_key 61], cSuccessions = [],
     cCreatorUserId = sample_uuid CHR ''a'',
     cKeyHistory = [(sample_uuid CHR ''a'', created_sets), (sample_uuid CHR ''b'', created_sets)],
     cAreaKeys = [(sample_uuid CHR ''e'', [sample_key 11])], cAreaRoots = [(sample_uuid CHR ''e'', [Some (sample_key 10)])],
     cRetiredAreas = [], cOwnEntryWrongAt = [] \<rparr>"
proof -
  have h: "walkHistory (own_walk chain_primitives None None [first_roster])
      = [(sample_uuid CHR ''a'', created_sets), (sample_uuid CHR ''b'', created_sets)]"
    "walkWrongAt (own_walk chain_primitives None None [first_roster]) = []"
    by (simp_all add: own_walk_def walk_step_def mineAt_def Let_def see_keys_def keySetOf_def sample_member_def created_sets_def)
  have a: "keys (foldAreas empty_ledger first_roster) = [(sample_uuid CHR ''e'', [sample_key 11])]"
    "roots (foldAreas empty_ledger first_roster) = [(sample_uuid CHR ''e'', [Some (sample_key 10)])]"
    "retired (foldAreas empty_ledger first_roster) = []"
    by (simp_all add: foldAreas_def fold_row_def first_roster_def sample_roster_def sample_area_def empty_ledger_def Let_def)
  show ?thesis
    by (simp add: created_cached_def cached_of_def Let_def created_end_def chain_start_def last_of_def held_of_def h a)
qed

lemma created_cache_back: "checkCache chain_primitives (sample_uuid CHR ''f'') (Some (chCache created_body)) False = Inr created_cached"
proof -
  note r = roster_copy_parses [OF chain_rosters_wf(1)]
  from r(3) have d: "decode (encode (statement (roster_copy first_roster))) None = Inr (statement (roster_copy first_roster))"
    by (simp add: decode_Inr)
  have a: "areas first_roster = [sample_area 1 10]" by (simp add: first_roster_def sample_roster_def)
  have c: "chCache created_body = cache_record (sample_uuid CHR ''f'') created_cached"
    by (simp add: created_body_def body_of_def Let_def)
  have h: "check_cached_history (u, Some (map (\<lambda>s. Some (JStr (ks_encryptionPublicKey s), JStr (ks_signingPublicKey s),
      JStr (ks_mlDsaPublicKeyDigest s))) created_sets)) = Inr (u, created_sets)" if "is_uuid u" for u
    using that by (simp add: check_cached_history_def created_sets_def check_cached_set_def bytesOf_def digestOf_def uuid_def)
  have "check_cache_parts chain_primitives (sample_uuid CHR ''f'') (cache_record (sample_uuid CHR ''f'') created_cached) = Inr created_cached"
    using r d sample_uuids h [OF sample_uuids(1)] h [OF sample_uuids(2)] unfolding created_cached_is
    by (simp add: check_cache_parts_def cache_record_def bad_if_def digestOf_def bytesOf_def
        rosterDigest_def check_cached_key_def chain_key_def uuid_def integer_def isSafeInteger_def MAX_SAFE_INTEGER_def
        CACHE_VERSION_def check_cached_area_def check_cached_roots_def ascending_def a row_agrees_def sample_area_def)
  then show ?thesis
    unfolding c by (simp add: checkCache_def bad_if_def) (simp add: cache_record_def)
qed

definition created_options :: next_options where
  "created_options = \<lparr> noSigner = sample_uuid CHR ''a'', noAreaKeys = [], noRetire = [], noFormat = None \<rparr>"

definition second_roster :: roster where
  "second_roster = next_of created_body (members first_roster) (sample_uuid CHR ''a'') [] 2"

lemma second_roster_is:
  "second_roster = first_roster\<lparr> rosterVersion := 2, previousRosterDigest := sample_key 1, areas := [] \<rparr>"
proof -
  have s: "sort_key userId [sample_member CHR ''a'', sample_member CHR ''b''] = [sample_member CHR ''a'', sample_member CHR ''b'']"
    using sample_uuid_less by simp
  have "next_entry first_roster v (sample_member CHR ''a'') = sample_member CHR ''a''"
    "next_entry first_roster v (sample_member CHR ''b'') = sample_member CHR ''b''" for v
    by (simp_all add: next_entry_def Let_def sameEntry_def sameKeys_def sample_member_def)
  with s have m: "sort_key userId (map (next_entry first_roster v) (members first_roster)) = members first_roster" for v
    by simp
  have b: "chKind created_body = Family" "chGroupKeyVersion created_body = 1"
    by (simp_all add: created_body_def body_of_def Let_def created_end_def chain_start_def last_of_def held_of_def)
  show ?thesis
    unfolding second_roster_def next_of_def Let_def created_latest m
    by (rule roster.equality) (simp_all add: b, simp add: first_roster_def sample_roster_def)
qed

lemma second_roster_ok: "roster_wf second_roster"
  using chain_rosters_wf(1) unfolding second_roster_is
  by (simp add: roster_wf_def first_roster_def sample_roster_def is_version_def MAX_SAFE_INTEGER_def member_wf_def sample_member_def)

definition second_copy :: signed_statement where
  "second_copy = roster_copy second_roster"

lemma second_statement: "rosterStatement second_roster = Inr (statement second_copy)"
  using second_roster_ok roster_copy_parses(1) [OF second_roster_ok] by (simp add: second_copy_def roster_codec)

lemma created_next: "nextRoster chain_primitives (Accepted_Rosters created_body) (members first_roster) created_options = Inr second_roster"
proof -
  let ?st = "stateOf (sample_uuid CHR ''f'') [] (Some created_cached)"
  have f: "rosterFormat (format first_roster) = Inr 2"
    by (simp add: first_roster_def sample_roster_def rosterFormat_def ROSTER_FORMATS_def)
  have rows: "areaRows chain_primitives (Accepted_Rosters created_body) [] (Some 2) [] = Inr []"
    by (simp add: areaRows_def requireAccepted_def rowsAfter_def)
  have l: "last_held ?st = Some (held_of first_roster 1 False)"
    by (simp add: stateOf_def last_held_def created_cached_is held_of_def)
  have st: "groupKeys ?st = [chain_key 61]" "verified ?st = []"
    "stAreas ?st = ledgerOf (Some created_cached)"
    by (simp_all add: stateOf_def created_cached_is)
  have e: "rosterEntry second_roster = rosterEntry first_roster" "signerUserId second_roster = sample_uuid CHR ''a''"
    "groupKeyVersion second_roster = 1" "kind second_roster = Family" "members second_roster = members first_roster"
    by (simp_all add: second_roster_is rosterEntry_def fun_eq_iff)
  have "checkEntries first_roster second_roster = Inr ()"
    using e(1) by (simp add: checkEntries_def e(5) since_after_def sameEntry_def sameKeys_def)
  moreover have "checkAreas (ledgerOf (Some created_cached)) (Some first_roster) second_roster = Inr ()"
    by (simp add: checkAreas_def second_roster_is created_cached_is ledgerOf_def live_after_def
        versions_of_def MAX_FAMILY_AREAS_def leaves_def admits_def dropsHolder_def activeWith_def rosterEntry_def f)
  ultimately have rules: "rosterRules chain_primitives ?st second_roster stmt None (Some (held_of first_roster 1 False)) = Inr ()" for stmt
    by (simp add: rosterRules_def held_of_def e st refused_by_def activeWith_def roster_signed_def)
  have n: "next_of created_body [sample_member CHR ''a'', sample_member CHR ''b''] (sample_uuid CHR ''a'') [] 2 = second_roster"
    by (simp add: second_roster_def)
  show ?thesis
    unfolding nextRoster_def
    by (simp add: requireAccepted_def created_latest created_options_def f rows created_cache_back l rules rules_unsigned_def
      n second_statement Let_def)
qed

theorem next_roster_accepted_witness:
  "\<exists>body' st'. Accepted.extend chain_primitives (Accepted_Rosters created_body) [second_copy] [] chain_mlKeys = Inr (body', st')
     \<and> chRoster body' = second_roster"
proof -
  have k: "chGroupKey created_body = chain_key 61"
    by (simp add: created_body_def body_of_def Let_def created_end_def chain_start_def)
  have v: "verifyGroup chain_primitives (statement second_copy) (signature second_copy) (chGroupKey created_body)"
    unfolding k second_copy_def roster_copy_def by (rule chain_group_signed)
  have m: "signedByMember chain_primitives (chRoster created_body) (noSigner created_options) second_copy chain_mlKeys"
    unfolding second_copy_def roster_copy_def
    by (rule chain_member_signed [where entry = "sample_member CHR ''a''" and n = 2])
      (simp_all add: created_latest created_options_def)
  from next_roster_accepted [OF created created_next second_statement v m] show ?thesis .
qed

section \<open>A succession of identity\<close>

text \<open>Primitives that take every signature and give bytes the digest of their byte at 40: of an ML-DSA key,
  its byte; of the key a link is kept under, the first letter of the proof asked for.\<close>

definition link_hash :: "bytes \<Rightarrow> bytes" where
  "link_hash b = replicate 32 (if 40 < length b then b ! 40 else 0)"

definition link_primitives :: primitives where
  "link_primitives = \<lparr> sha256 = link_hash, hkdf = (\<lambda>key salt info. link_hash key),
     crypto_sign_verify_detached = (\<lambda>sig msg key. True), ml_dsa65_verify = (\<lambda>sig msg key ctx. True),
     wordlist = chain_words \<rparr>"

definition sample_link :: succession_link where
  "sample_link = \<lparr> l_userId = [], oldKeyVersion = 1, newKeyVersion = 2,
     oldEncryptionPublicKey = sample_key 1, oldSigningPublicKey = sample_key 2, l_oldMlDsaPublicKey = long_key 3,
     newEncryptionPublicKey = sample_key 5, newSigningPublicKey = sample_key 6, l_newMlDsaPublicKey = long_key 7,
     newKemPublicKey = encode (replicate 1184 8), linkSignature = encode (replicate 3373 0),
     linkConsent = Some (encode (replicate 6746 0)) \<rparr>"

definition link_start :: pinned_keys where
  "link_start = \<lparr> pk_keyVersion = None, pk_encryptionPublicKey = sample_key 1, pk_signingPublicKey = sample_key 2,
     pk_mlDsaPublicKeyHash = hex_of (replicate 32 3) \<rparr>"

definition link_served :: served_keys where
  "link_served = \<lparr> sk_keyVersion = 2, sk_encryptionPublicKey = sample_key 5, sk_signingPublicKey = sample_key 6,
     sk_mlDsaPublicKey = long_key 7, sk_kemPublicKey = encode (replicate 1184 8) \<rparr>"

lemma link_fields [simp]:
  "oldKeyVersion sample_link = 1" "newKeyVersion sample_link = 2" "oldEncryptionPublicKey sample_link = sample_key 1"
  "oldSigningPublicKey sample_link = sample_key 2" "l_oldMlDsaPublicKey sample_link = long_key 3"
  "newEncryptionPublicKey sample_link = sample_key 5" "newSigningPublicKey sample_link = sample_key 6"
  "l_newMlDsaPublicKey sample_link = long_key 7" "newKemPublicKey sample_link = encode (replicate 1184 8)"
  "linkSignature sample_link = encode (replicate 3373 0)" "linkConsent sample_link = Some (encode (replicate 6746 0))"
  by (simp_all add: sample_link_def)

lemma sample_kem_key [simp]: "decode (encode (replicate 1184 n)) (Some 1184) = Inr (replicate 1184 n)"
  by (simp add: decode_Inr)

lemma link_hash_key [simp]: "sha256 link_primitives (replicate ML_DSA_PUBLIC_KEY_BYTES n) = replicate 32 n"
  by (simp add: link_primitives_def link_hash_def ML_DSA_PUBLIC_KEY_BYTES_def)

lemma link_mlDsaHash [simp]: "mlDsaHash link_primitives (long_key n) = Some (hex_of (replicate 32 n))"
  by (simp add: mlDsaHash_def keyDigest_def)

lemma link_signed [simp]: "verifyHybrid link_primitives msg (replicate 3373 n) \<lparr> h_signingPublicKey = replicate 32 a,
    h_mlDsaPublicKey = replicate ML_DSA_PUBLIC_KEY_BYTES b \<rparr>"
  by (simp add: verifyHybrid_def verifyStatement_def mlDsaVerify_def HYBRID_SIGNATURE_BYTES_def
      SIGNATURE_BYTES_def ML_DSA_SIGNATURE_BYTES_def SIGNING_PUBLIC_KEY_BYTES_def)
    (simp add: link_primitives_def)

lemma link_proved [simp]: "proves link_primitives (sample_uuid c) consent sample_link"
proof -
  have f: "\<exists>stmt. successionFields link_primitives domain parts (link_statement_of (sample_uuid c) sample_link) = Inr stmt"
    for domain parts
    by (simp add: successionFields_def link_statement_of_def identity_link.defs count_field_def text_field_def key_field_def
        isSafeInteger_def MAX_SAFE_INTEGER_def SIGNING_PUBLIC_KEY_BYTES_def sample_uuid_def sample_kem_key)
  have d: "decode (encode (replicate 3373 0)) (Some HYBRID_SIGNATURE_BYTES) = Inr (replicate 3373 0)"
    "decode (encode (replicate 6746 0)) (Some SUCCESSION_CONSENT_BYTES) = Inr (replicate 6746 0)"
    by (simp_all add: decode_Inr HYBRID_SIGNATURE_BYTES_def SUCCESSION_CONSENT_BYTES_def SIGNATURE_BYTES_def ML_DSA_SIGNATURE_BYTES_def)
  have h: "HYBRID_SIGNATURE_BYTES = 3373"
    by (simp add: HYBRID_SIGNATURE_BYTES_def SIGNATURE_BYTES_def ML_DSA_SIGNATURE_BYTES_def)
  from f obtain a where a: "successionStatement link_primitives (link_statement_of (sample_uuid c) sample_link) = Inr a"
    by (auto simp: successionStatement_def)
  from f obtain b where b: "successionConsentStatement link_primitives (link_statement_of (sample_uuid c) sample_link) OldRole = Inr b"
    by (auto simp: successionConsentStatement_def)
  from f obtain e where e: "successionConsentStatement link_primitives (link_statement_of (sample_uuid c) sample_link) NewRole = Inr e"
    by (auto simp: successionConsentStatement_def)
  show ?thesis
    by (simp add: proves_def verifySuccessionLink_def verifySuccessionConsent_def caught_def under_keys_def d d(1) [unfolded h] a b e h Let_def)
qed

lemma link_snapshot [simp]: "snapshot (Some sample_link) = Some sample_link"
  by (simp add: snapshot_def isSafeInteger_def MAX_SAFE_INTEGER_def)

lemma link_kept_apart: "collision_free link_primitives (queries (sample_uuid CHR ''a'') [Some sample_link])"
proof -
  define head_text where "head_text = CHR ''['' # stringify (JStr (sample_uuid CHR ''a'')) @ '',''"
  have len: "length (text_encode head_text) = 40"
    unfolding head_text_def using uuid_plain [OF sample_uuids(1)] uuid_length [OF sample_uuids(1)]
    by (simp add: escape_plain) (simp add: text_encode_def utf8_def text_encode_length [OF plain_ascii, unfolded text_encode_def])
  have app: "text_encode (x @ y) = text_encode x @ text_encode y" for x y by (simp add: text_encode_def)
  have k: "link_key link_primitives (sample_uuid CHR ''a'') consent sample_link
      = hex_of (replicate 32 (if consent then 116 else 102))" for consent
  proof -
    obtain rest where r: "link_key link_primitives (sample_uuid CHR ''a'') consent sample_link
      = hex_of (link_hash (text_encode (head_text @ (if consent then ''true'' else ''false'') @ rest)))"
      by (simp add: link_key_def link_primitives_def head_text_def)
    show ?thesis unfolding r app link_hash_def
      by (cases consent) (simp_all add: len nth_append utf8_def)
  qed
  have r: "replicate 32 x = x # replicate 31 x" for x :: byte by (simp add: numeral_eq_Suc)
  have "hd (hex_of (replicate 32 116)) \<noteq> hd (hex_of (replicate 32 (102 :: byte)))"
    unfolding r by (simp add: hex_of_def hex_byte_def hex_digit_def)
  then have "hex_of (replicate 32 116) \<noteq> hex_of (replicate 32 (102 :: byte))" by metis
  then show ?thesis
    by (auto simp: collision_free_def queries_def inj_on_def k split: if_splits)
qed

lemma link_walk_at:
  "leaves_pin link_primitives link_start sample_link"
  "continues link_primitives (walk_of uid link_start served given_links until) None (Some sample_link)"
  "\<not> continues link_primitives (walk_of uid link_start served given_links until) (Some sample_link) (Some sample_link)"
  "next_keys sample_link = keys_served link_served"
  by (simp_all add: leaves_pin_def link_start_def continues_def walk_of_def leaves_set_def next_keys_def keys_served_def link_served_def)

lemma link_walk: "fst (successionPath link_primitives (sample_uuid CHR ''a'') link_start link_served [Some sample_link] [] until memberKeys)
   = Path [sample_link]"
proof -
  let ?w = "walk_of (sample_uuid CHR ''a'') link_start link_served [Some sample_link] until"
  have w: "wkLinks ?w = [Some sample_link]" "wkUser ?w = sample_uuid CHR ''a''" "wkServed ?w = link_served" "wkStart ?w = link_start"
    by (simp_all add: walk_of_def)
  have u: "[0..<Suc 0] = [0]" by simp
  have s: "\<not> at_served link_primitives ?w None" "at_served link_primitives ?w (Some sample_link)"
    by (simp_all add: at_served_def w link_walk_at(4)) (simp add: link_start_def link_served_def)
  have h: "holds_link link_primitives (sample_uuid CHR ''a'') consent [] (Some sample_link)
      = (True, remember [] (link_key link_primitives (sample_uuid CHR ''a'') consent sample_link) True)" for consent
    by (simp add: holds_link_def Let_def)
  have "fst (walk link_primitives ?w (Suc (Suc 0)) None consenting [] [] [0] []) = Path [sample_link]" for consenting
    by (simp add: w u s h link_walk_at Let_def MAX_SUCCESSION_LINKS_def List.union_def List.insert_def)
  moreover have "filter (\<lambda>i. list_ex (leaves_set link_primitives (map snapshot [Some sample_link] ! i)) (link_start # memberKeys)) [0..<1] = [0]"
    by (simp add: leaves_set_def link_walk_at(1))
  ultimately show ?thesis unfolding successionPath_walk Let_def
    by (simp add: MAX_SUCCESSION_LINKS_def del: walk.simps)
qed

lemma link_memo_none: "memo_true link_primitives Q []"
  by (simp add: memo_true_def)

lemma link_snapshots: "collision_free link_primitives (queries (sample_uuid CHR ''a'') (map snapshot [Some sample_link]))"
  using link_kept_apart by simp

theorem path_is_a_proof_witness:
  "fst (successionPath link_primitives (sample_uuid CHR ''a'') link_start link_served [Some sample_link] [] None []) = Path [sample_link]
   \<and> followed link_primitives (walk_of (sample_uuid CHR ''a'') link_start link_served [Some sample_link] None) None False [sample_link]"
  using path_is_a_proof [OF link_snapshots link_memo_none link_walk [of None "[]"]] link_walk
  by (simp add: Let_def asks_consent_def del: followed.simps)

theorem kept_results_change_nothing_witness:
  "\<exists>memo. successionPath link_primitives (sample_uuid CHR ''a'') link_start link_served [Some sample_link] [] None []
       = (Path [sample_link], memo)
     \<and> fst (successionPath link_primitives (sample_uuid CHR ''a'') link_start link_served [Some sample_link] memo (Some link_start) [])
       = Path [sample_link]"
proof -
  let ?path = "successionPath link_primitives (sample_uuid CHR ''a'') link_start link_served [Some sample_link]"
  have m: "memo_true link_primitives (queries (sample_uuid CHR ''a'') (map snapshot [Some sample_link])) (snd (?path [] None []))"
    using kept_results_change_nothing [OF link_snapshots link_memo_none] by blast
  have "?path [] None [] = (Path [sample_link], snd (?path [] None []))" using link_walk [of None "[]"] by (simp add: prod_eq_iff)
  moreover have "fst (?path (snd (?path [] None [])) (Some link_start) []) = Path [sample_link]"
    using kept_results_change_nothing [OF link_snapshots m] link_walk by metis
  ultimately show ?thesis by metis
qed

theorem many_links_stop_the_walk_witness:
  "successionPath link_primitives (sample_uuid CHR ''a'') link_start link_served (replicate 65 (Some sample_link)) [] None []
     = (Too_Many, [])"
proof -
  have "filter (\<lambda>l. list_ex (leaves_set link_primitives (snapshot l)) [link_start]) (replicate n (Some sample_link))
      = replicate n (Some sample_link)" for n
    by (induction n) (simp_all add: leaves_set_def link_walk_at(1))
  then have "length (filter (\<lambda>l. list_ex (leaves_set link_primitives (snapshot l)) [link_start]) (replicate 65 (Some sample_link))) = 65"
    by (metis length_replicate)
  then show ?thesis by (intro many_links_stop_the_walk) (simp add: MAX_SUCCESSION_LINKS_def)
qed

section \<open>A member's earlier keys\<close>

definition moved_member :: roster_member where
  "moved_member = (sample_member CHR ''a'')\<lparr> encryptionPublicKey := sample_key 5, signingPublicKey := sample_key 6,
     mlDsaPublicKeyDigest := sample_key 7 \<rparr>"

definition moved_body :: chain_body where
  "moved_body = created_body\<lparr> chRoster := first_roster\<lparr> members := [moved_member] \<rparr>,
     chKeyHistory := [(sample_uuid CHR ''a'', [keySetOf (sample_member CHR ''a'')])] \<rparr>"

definition moved_history :: signer_history where
  "moved_history = \<lparr> shServed = link_served, shLinks = [Some sample_link] \<rparr>"

lemma sample_digestHex [simp]: "digestHex (sample_key n) = Inr (hex_of (replicate 32 n))"
  unfolding digestHex_Inr by (rule exI [of _ "replicate 32 n"]) (simp add: sample_key_def)

lemma moved_pins:
  "pinnedOf (keySetOf (sample_member CHR ''a'')) = Inr link_start"
  "\<exists>u. pinnedOf (keySetOf moved_member) = Inr u"
  by (simp_all add: pinnedOf_def keySetOf_def moved_member_def) (simp add: sample_member_def link_start_def)

lemma moved_signers: "signersThrough link_primitives moved_body (sample_uuid CHR ''a'') None (Some moved_history)
    = Inr [\<lparr> h_signingPublicKey = replicate 32 2, h_mlDsaPublicKey = replicate ML_DSA_PUBLIC_KEY_BYTES 3 \<rparr>]"
proof -
  have e: "rosterEntry (chRoster moved_body) (sample_uuid CHR ''a'') = Some moved_member"
    by (simp add: moved_body_def rosterEntry_def moved_member_def)
  have u: "userId moved_member = sample_uuid CHR ''a''" by (simp add: moved_member_def)
  have f: "first_keys_of moved_body moved_member = keySetOf (sample_member CHR ''a'')"
    by (simp add: first_keys_of_def moved_body_def u)
  have k: "under_keys (sample_key 2) (long_key 3) = Inr \<lparr> h_signingPublicKey = replicate 32 2,
      h_mlDsaPublicKey = replicate ML_DSA_PUBLIC_KEY_BYTES 3 \<rparr>" by (simp add: under_keys_def)
  have "path_signers link_primitives moved_member [sample_link] = Inr ([\<lparr> h_signingPublicKey = replicate 32 2,
      h_mlDsaPublicKey = replicate ML_DSA_PUBLIC_KEY_BYTES 3 \<rparr>], False)"
    by (simp add: k is_entry_keys_def moved_member_def)
  moreover have "is_entry_keys link_primitives moved_member (sk_encryptionPublicKey link_served) (sk_signingPublicKey link_served)
      (sk_mlDsaPublicKey link_served) = Inr True"
    by (simp add: is_entry_keys_def moved_member_def link_served_def digest_def) (simp add: sample_key_def)
  moreover obtain at where "pinnedOf (keySetOf moved_member) = Inr at" using moved_pins(2) by blast
  ultimately have "history_signers link_primitives moved_body moved_member moved_history
      = Inr [\<lparr> h_signingPublicKey = replicate 32 2, h_mlDsaPublicKey = replicate ML_DSA_PUBLIC_KEY_BYTES 3 \<rparr>]"
    by (simp add: history_signers_def f u moved_pins(1) moved_history_def link_walk del: path_signers.simps)
  then show ?thesis by (simp add: signersThrough_def e own_signer_def)
qed

theorem signers_are_vouched_witness:
  "rosterEntry (chRoster moved_body) (sample_uuid CHR ''a'') = Some moved_member
   \<and> verifySuccessionConsent link_primitives (sample_uuid CHR ''a'') sample_link"
proof -
  have e: "rosterEntry (chRoster moved_body) (sample_uuid CHR ''a'') = Some moved_member"
    by (simp add: moved_body_def rosterEntry_def moved_member_def)
  have h: "sha256_32 link_primitives" by (simp add: sha256_32_def link_primitives_def link_hash_def)
  have c: "collision_free link_primitives (queries (sample_uuid CHR ''a'') (map snapshot (shLinks p)))" if "Some moved_history = Some p" for p
    using that link_snapshots by (auto simp: moved_history_def)
  have n: "\<not> named_by link_primitives moved_member \<lparr> h_signingPublicKey = replicate 32 2, h_mlDsaPublicKey = replicate ML_DSA_PUBLIC_KEY_BYTES 3 \<rparr>"
    by (simp add: named_by_def moved_member_def)
  from signers_are_vouched [OF moved_signers _ h c] e n show ?thesis by (auto simp: moved_history_def)
qed

section \<open>Verdicts\<close>

text \<open>A writer with the keys of the first roster, their identity replaced since; one whose links did not load;
  one who left; one the reader pinned with other keys.\<close>

definition sample_reading :: "chain_body \<Rightarrow> writer_pin option \<Rightarrow> (served_keys \<times> succession_link option list) option
    \<Rightarrow> writer_input" where
  "sample_reading body pin loaded = \<lparr> wiGroupId = sample_uuid CHR ''f'', wiAreas = [(sample_uuid CHR ''e'', 1)],
     wiReading = Reading_Accepted (Accepted_Rosters body), wiWorkspaceId = sample_uuid CHR ''e'',
     wiWriterUserId = sample_uuid CHR ''a'', wiPinned = pin, wiServed = map_option fst loaded,
     wiLinks = map_option snd loaded, wiVerified = [] \<rparr>"

definition replaced_input :: writer_input where
  "replaced_input = sample_reading created_body None (Some (link_served, [Some sample_link]))"

lemma replaced_input_fields [simp]:
  "wiGroupId replaced_input = sample_uuid CHR ''f''" "wiAreas replaced_input = [(sample_uuid CHR ''e'', 1)]"
  "wiReading replaced_input = Reading_Accepted (Accepted_Rosters created_body)" "wiWorkspaceId replaced_input = sample_uuid CHR ''e''"
  "wiWriterUserId replaced_input = sample_uuid CHR ''a''" "wiPinned replaced_input = None" "wiServed replaced_input = Some link_served"
  "wiLinks replaced_input = Some [Some sample_link]" "wiVerified replaced_input = []"
  by (simp_all add: replaced_input_def sample_reading_def)

lemma created_history: "chKeyHistory created_body = [(sample_uuid CHR ''a'', [keySetOf (sample_member CHR ''a'')]),
    (sample_uuid CHR ''b'', [keySetOf (sample_member CHR ''b'')])]"
  by (simp add: created_body_def body_of_def Let_def own_walk_def walk_step_def mineAt_def see_keys_def)

lemma sample_head: "sameKeySet s s"
  by (simp add: sameKeySet_def)

lemma replaced_trust: "\<exists>memo. groupWriterTrust link_primitives replaced_input
    = Inr (Trust_Roster \<lparr> t_current = replicate 32 6, t_retired = [replicate 32 2], t_seen = False \<rparr>
        (Some (sample_uuid CHR ''f'')) None True, memo)"
proof -
  let ?m = "sample_member CHR ''a''"
  obtain memo where p: "successionPath link_primitives (sample_uuid CHR ''a'') link_start link_served [Some sample_link] [] None [link_start]
      = (Path [sample_link], memo)"
    using link_walk [of None "[link_start]"] by (metis prod.collapse)
  have w: "writer_walks_of link_primitives replaced_input created_body ?m
      = Inr (\<lparr> wwFirst = Some (keySetOf ?m), wwFromFirst = None, wwToEntry = None, wwLag = Some [sample_link], wwFromPin = None \<rparr>,
          \<lparr> wnVerified = memo, wnForked = False, wnOverflow = False \<rparr>)"
    by (simp add: writer_walks_of_def created_history  sample_head moved_pins(1)
        writer_path_def p)
  have r: "retired_keys link_primitives None ?m \<lparr> wwFirst = Some (keySetOf ?m), wwFromFirst = None, wwToEntry = None,
      wwLag = Some [sample_link], wwFromPin = None \<rparr> = Inr [replicate 32 2]"
    by (simp add: retired_keys_def moved_pins(1) retiredAlong_def signing_bytes_def) (simp add: link_start_def)
  have v: "writer_verdict link_primitives created_body ?m None (Some link_served) True \<lparr> wwFirst = Some (keySetOf ?m),
      wwFromFirst = None, wwToEntry = None, wwLag = Some [sample_link], wwFromPin = None \<rparr>
    = Inr (Trust_Roster \<lparr> t_current = replicate 32 6, t_retired = [replicate 32 2], t_seen = False \<rparr>
        (Some (sample_uuid CHR ''f'')) None True)"
    by (simp add: writer_verdict_def r signing_bytes_def created_latest) (simp add: link_served_def)
  show ?thesis
    unfolding groupWriterTrust_def using w v
    by (simp add: requireAccepted_def created_latest)
qed

lemma replaced_kept: "kept_true link_primitives replaced_input (wiVerified replaced_input)"
  using link_snapshots by (simp add: kept_true_def link_memo_none)

theorem writer_keys_come_from_the_roster_witness:
  "\<exists>trust memo s. groupWriterTrust link_primitives replaced_input = Inr (trust, memo) \<and> signer_of trust = Some s
     \<and> t_current s = replicate 32 6
     \<and> (\<exists>until start ls. walk_from replaced_input created_body (sample_member CHR ''a'') until start
          \<and> proven_path link_primitives replaced_input until start ls \<and> along_key start ls (replicate 32 2))"
proof -
  obtain memo where t: "groupWriterTrust link_primitives replaced_input
    = Inr (Trust_Roster \<lparr> t_current = replicate 32 6, t_retired = [replicate 32 2], t_seen = False \<rparr>
        (Some (sample_uuid CHR ''f'')) None True, memo)" using replaced_trust by blast
  from writer_keys_come_from_the_roster [OF t replaced_kept] obtain c chain entry where
    "wiReading replaced_input = Reading_Accepted c" "requireAccepted c = Inr chain"
    "rosterEntry (chRoster chain) (wiWriterUserId replaced_input) = Some entry"
    "\<exists>until start ls. walk_from replaced_input chain entry until start
        \<and> proven_path link_primitives replaced_input until start ls \<and> along_key start ls (replicate 32 2)" by (simp, blast)
  moreover from this have "chain = created_body" "entry = sample_member CHR ''a''"
    by (auto simp: requireAccepted_def created_latest)
  ultimately have path: "\<exists>until start ls. walk_from replaced_input created_body (sample_member CHR ''a'') until start
      \<and> proven_path link_primitives replaced_input until start ls \<and> along_key start ls (replicate 32 2)" by blast
  let ?signer = "\<lparr> t_current = replicate 32 6, t_retired = [replicate 32 2], t_seen = False \<rparr>"
  show ?thesis
    by (rule exI [of _ "Trust_Roster ?signer (Some (sample_uuid CHR ''f'')) None True"], rule exI [of _ memo],
        rule exI [of _ ?signer], intro conjI t path) simp_all
qed

definition sample_forms :: statement_forms where
  "sample_forms = \<lparr> f_ordinary = [1], f_saved = [2], f_resealed = [3] \<rparr>"

theorem vouched_record_was_signed_by_a_member_witness:
  "\<exists>trust memo. groupWriterTrust link_primitives replaced_input = Inr (trust, memo)
     \<and> groupIntegrityOf link_primitives (Inr sample_forms) (Some (replicate 64 0)) trust None
         = (Shown Verified, Some (sample_uuid CHR ''f''))
     \<and> (\<exists>k. member_key link_primitives replaced_input (sample_member CHR ''a'') k
          \<and> verifyStatement link_primitives [1] (replicate 64 0) k)"
proof -
  let ?trust = "Trust_Roster \<lparr> t_current = replicate 32 6, t_retired = [replicate 32 2], t_seen = False \<rparr>
        (Some (sample_uuid CHR ''f'')) None True"
  obtain memo where t: "groupWriterTrust link_primitives replaced_input = Inr (?trust, memo)" using replaced_trust by blast
  have "verifyStatement link_primitives [1] (replicate 64 0) (replicate 32 6)"
    by (simp add: verifyStatement_def SIGNATURE_BYTES_def SIGNING_PUBLIC_KEY_BYTES_def) (simp add: link_primitives_def)
  then have g: "groupIntegrityOf link_primitives (Inr sample_forms) (Some (replicate 64 0)) ?trust None
      = (Shown Verified, Some (sample_uuid CHR ''f''))"
    by (simp add: groupIntegrityOf_def groupVerdictOf_def integrityOf_def sample_forms_def unknown_unless_def)
  from vouched_record_was_signed_by_a_member [OF t replaced_kept g]
  have "\<exists>k. member_key link_primitives replaced_input (sample_member CHR ''a'') k
      \<and> verifyStatement link_primitives [1] (replicate 64 0) k"
    by (auto simp: requireAccepted_def created_latest sample_forms_def)
  with t g show ?thesis by blast
qed

subsection \<open>Nothing loaded\<close>

definition unloaded_input :: writer_input where
  "unloaded_input = sample_reading created_body None None"

lemma unloaded_input_fields [simp]:
  "wiGroupId unloaded_input = sample_uuid CHR ''f''" "wiAreas unloaded_input = [(sample_uuid CHR ''e'', 1)]"
  "wiReading unloaded_input = Reading_Accepted (Accepted_Rosters created_body)" "wiWorkspaceId unloaded_input = sample_uuid CHR ''e''"
  "wiWriterUserId unloaded_input = sample_uuid CHR ''a''" "wiPinned unloaded_input = None" "wiServed unloaded_input = None"
  "wiLinks unloaded_input = None" "wiVerified unloaded_input = []"
  by (simp_all add: unloaded_input_def sample_reading_def)

lemma no_walk: "wiServed input = None \<Longrightarrow> writer_path P input entry_keys key_sets start fromFirst consent notes = Inr (None, notes)"
  by (simp add: writer_path_def)

lemma unloaded_trust: "groupWriterTrust link_primitives unloaded_input
    = Inr (Trust_Roster \<lparr> t_current = replicate 32 2, t_retired = [], t_seen = False \<rparr> (Some (sample_uuid CHR ''f'')) None False, [])"
proof -
  let ?m = "sample_member CHR ''a''"
  have w: "writer_walks_of link_primitives unloaded_input created_body ?m
      = Inr (\<lparr> wwFirst = Some (keySetOf ?m), wwFromFirst = None, wwToEntry = None, wwLag = None, wwFromPin = None \<rparr>,
          \<lparr> wnVerified = [], wnForked = False, wnOverflow = False \<rparr>)"
    by (simp add: writer_walks_of_def created_history  sample_head moved_pins(1) no_walk)
  show ?thesis
    by (simp add: groupWriterTrust_def w requireAccepted_def created_latest
      writer_verdict_def retired_keys_def signing_bytes_def)
qed


subsection \<open>A former member\<close>

definition left_body :: chain_body where
  "left_body = created_body\<lparr> chRoster := removal_roster \<rparr>"

definition left_input :: writer_input where
  "left_input = (sample_reading left_body None None)\<lparr> wiWriterUserId := sample_uuid CHR ''b'' \<rparr>"

theorem former_member_never_clean_witness:
  "\<exists>trust memo. groupWriterTrust link_primitives left_input = Inr (trust, memo)
     \<and> groupIntegrityOf link_primitives (Inr sample_forms) (Some (replicate 64 0)) trust None = (Former_Member, None)"
proof -
  let ?m = "(sample_member CHR ''b'')\<lparr> status := Left, sinceVersion := 2 \<rparr>"
  let ?trust = "Trust_Former_Member \<lparr> t_current = replicate 32 2, t_retired = [], t_seen = False \<rparr> False"
  have f: "wiGroupId left_input = sample_uuid CHR ''f''" "wiAreas left_input = [(sample_uuid CHR ''e'', 1)]"
    "wiReading left_input = Reading_Accepted (Accepted_Rosters left_body)" "wiWorkspaceId left_input = sample_uuid CHR ''e''"
    "wiWriterUserId left_input = sample_uuid CHR ''b''" "wiPinned left_input = None" "wiServed left_input = None"
    "wiLinks left_input = None" "wiVerified left_input = []"
    by (simp_all add: left_input_def sample_reading_def)
  have b: "chRoster left_body = removal_roster" "chGroupId left_body = sample_uuid CHR ''f''"
    "chKeyHistory left_body = chKeyHistory created_body" by (simp_all add: left_body_def created_latest)
  have k: "keySetOf ?m = keySetOf (sample_member CHR ''a'')" "keySetOf (sample_member CHR ''b'') = keySetOf (sample_member CHR ''a'')"
    by (simp_all add: keySetOf_def sample_member_def)
  have w: "writer_walks_of link_primitives left_input left_body ?m
      = Inr (\<lparr> wwFirst = Some (keySetOf ?m), wwFromFirst = None, wwToEntry = None, wwLag = None, wwFromPin = None \<rparr>,
          \<lparr> wnVerified = [], wnForked = False, wnOverflow = False \<rparr>)"
    by (simp add: writer_walks_of_def b created_history f k sample_head moved_pins(1) no_walk)
  have t: "groupWriterTrust link_primitives left_input = Inr (?trust, [])"
    by (simp add: groupWriterTrust_def f w requireAccepted_def b writer_verdict_def retired_keys_def signing_bytes_def)
  have r: "requireAccepted (Accepted_Rosters left_body) = Inr left_body" by (simp add: requireAccepted_def)
  have e: "rosterEntry (chRoster left_body) (wiWriterUserId left_input) = Some ?m" by (simp add: b f)
  have "verifyStatement link_primitives [1] (replicate 64 0) (replicate 32 2)"
    by (simp add: verifyStatement_def SIGNATURE_BYTES_def SIGNING_PUBLIC_KEY_BYTES_def) (simp add: link_primitives_def)
  then have "groupIntegrityOf link_primitives (Inr sample_forms) (Some (replicate 64 0)) ?trust None = (Former_Member, None)"
    using former_member_never_clean [OF t _ f(3) r e, of "Inr sample_forms" "Some (replicate 64 0)" None]
    by (simp add: groupIntegrityOf_def groupVerdictOf_def integrityOf_def sample_forms_def unknown_unless_def f)
  with t show ?thesis by blast
qed

subsection \<open>A pin with other keys\<close>

definition other_pin :: writer_pin where
  "other_pin = \<lparr> pk_keyVersion = None, pk_encryptionPublicKey = sample_key 9, pk_signingPublicKey = sample_key 9,
     pk_mlDsaPublicKeyHash = hex_of (replicate 32 9), wpTrustedVia = Some None \<rparr>"

definition conflict_input :: writer_input where
  "conflict_input = sample_reading created_body (Some other_pin) (Some (link_served, []))"

lemma no_links: "successionPath P uid start served [] memo until memberKeys = (No_Path, memo)"
  by (simp add: successionPath_walk Let_def walk_of_def MAX_SUCCESSION_LINKS_def List.union_def)

theorem conflict_only_without_a_path_witness:
  "\<exists>memo. groupWriterTrust link_primitives conflict_input = Inr (Trust_Key_Conflict, memo)
     \<and> \<not> pin_agrees other_pin (sample_key 1) (sample_key 2) (sample_key 3)
     \<and> status (sample_member CHR ''a'') \<noteq> Left"
proof -
  let ?m = "sample_member CHR ''a''"
  have f: "wiGroupId conflict_input = sample_uuid CHR ''f''" "wiAreas conflict_input = [(sample_uuid CHR ''e'', 1)]"
    "wiReading conflict_input = Reading_Accepted (Accepted_Rosters created_body)" "wiWorkspaceId conflict_input = sample_uuid CHR ''e''"
    "wiWriterUserId conflict_input = sample_uuid CHR ''a''" "wiPinned conflict_input = Some other_pin"
    "wiServed conflict_input = Some link_served" "wiLinks conflict_input = Some []" "wiVerified conflict_input = []"
    by (simp_all add: conflict_input_def sample_reading_def)
  have w: "writer_walks_of link_primitives conflict_input created_body ?m
      = Inr (\<lparr> wwFirst = Some (keySetOf ?m), wwFromFirst = None, wwToEntry = None, wwLag = None, wwFromPin = None \<rparr>,
          \<lparr> wnVerified = [], wnForked = False, wnOverflow = False \<rparr>)"
    by (simp add: writer_walks_of_def created_history f sample_head moved_pins(1) writer_path_def no_links)
      (simp add: other_pin_def until_of_def)
  have t: "groupWriterTrust link_primitives conflict_input = Inr (Trust_Key_Conflict, [])"
    by (simp add: groupWriterTrust_def f w requireAccepted_def created_latest writer_verdict_def retired_keys_def signing_bytes_def)
      (simp add: other_pin_def pin_agrees_def servedKeysAreEntry_def link_served_def sample_member_def)
  from conflict_only_without_a_path [OF t] obtain c chain entry where
    "wiReading conflict_input = Reading_Accepted c" "requireAccepted c = Inr chain"
    "rosterEntry (chRoster chain) (wiWriterUserId conflict_input) = Some entry" "status entry \<noteq> Left"
    "\<not> pin_agrees other_pin (encryptionPublicKey entry) (signingPublicKey entry) (mlDsaPublicKeyDigest entry)"
    by (auto simp: f)
  moreover from this have "entry = ?m" by (auto simp: f requireAccepted_def created_latest)
  ultimately have "\<not> pin_agrees other_pin (sample_key 1) (sample_key 2) (sample_key 3) \<and> status ?m \<noteq> Left"
    by (simp add: sample_member_def)
  with t show ?thesis by blast
qed

end
