(* ===== verification/Drive_Envelopes.thy ===== *)
theory Drive_Envelopes
  imports Sealing
begin

text \<open>
  \<open>packages/crypto/src/drive.ts\<close>, its envelopes: the associated data that bind each to its place, node
  keys and an area root's previous key under their parent's, a version's content key with its sizes, and
  what re-keyed records need: the raw bytes of an envelope, and the key (HChaCha20 of the sealing key) that
  opens one envelope alone. Random nonces are arguments. Sealing is total here: libsodium refuses keys of
  another length than 32 by a \<open>TypeError\<close>, and every key the operations seal under was checked or made
  with that length.
\<close>

section \<open>Constants\<close>

definition DRIVE_ENVELOPE_SUITE :: int where "DRIVE_ENVELOPE_SUITE = 1"
definition CONTENT_SUITE :: int where "CONTENT_SUITE = 3"
definition UNPADDED_CONTENT_SUITE :: int where "UNPADDED_CONTENT_SUITE = 2"
definition LEGACY_CONTENT_SUITE :: int where "LEGACY_CONTENT_SUITE = 1"
definition READABLE_CONTENT_SUITES :: "int list" where
  "READABLE_CONTENT_SUITES = [LEGACY_CONTENT_SUITE, UNPADDED_CONTENT_SUITE, CONTENT_SUITE]"
definition CHUNK_TAG_BYTES :: nat where "CHUNK_TAG_BYTES = 16"
definition ENVELOPE_NONCE_BYTES :: nat where "ENVELOPE_NONCE_BYTES = 24"
definition KEY_BYTES :: nat where "KEY_BYTES = 32"
definition KEY_ENVELOPE_BYTES :: nat where
  "KEY_ENVELOPE_BYTES = ENVELOPE_NONCE_BYTES + KEY_BYTES + CHUNK_TAG_BYTES"
definition VERSION_RECORD_BYTES :: nat where "VERSION_RECORD_BYTES = KEY_BYTES + 8 + 4"
definition VERSION_ENVELOPE_BYTES :: nat where
  "VERSION_ENVELOPE_BYTES = ENVELOPE_NONCE_BYTES + VERSION_RECORD_BYTES + CHUNK_TAG_BYTES"
definition THUMBNAIL_MAX_BYTES :: nat where "THUMBNAIL_MAX_BYTES = 64 * 1024"
definition METADATA_MAX_BYTES :: nat where "METADATA_MAX_BYTES = 4096"
definition METADATA_ENVELOPE_MAX_BYTES :: nat where
  "METADATA_ENVELOPE_MAX_BYTES = ENVELOPE_NONCE_BYTES + METADATA_MAX_BYTES + CHUNK_TAG_BYTES"

lemmas drive_sizes = CHUNK_TAG_BYTES_def ENVELOPE_NONCE_BYTES_def KEY_BYTES_def KEY_ENVELOPE_BYTES_def
  VERSION_RECORD_BYTES_def VERSION_ENVELOPE_BYTES_def

lemmas drive_suites = CONTENT_SUITE_def UNPADDED_CONTENT_SUITE_def LEGACY_CONTENT_SUITE_def READABLE_CONTENT_SUITES_def

section \<open>Fields and associated data\<close>

definition drive_id :: "string \<Rightarrow> string \<Rightarrow> crypto_error + string" where
  "drive_id value what = (if is_uuid value then Inr value else Inl (invalid what))"

definition epoch_field :: "int \<Rightarrow> string \<Rightarrow> crypto_error + int" where
  "epoch_field value what = (if \<not> isSafeInteger value \<or> value < 1 then Inl (invalid what) else Inr value)"

definition UNSUPPORTED_SUITE :: crypto_error where
  "UNSUPPORTED_SUITE = CryptoError ''This file was stored in a way this app does not support.''"

definition checkSuite :: "int \<Rightarrow> crypto_error + int" where
  "checkSuite value = (if value \<notin> set READABLE_CONTENT_SUITES then Inl UNSUPPORTED_SUITE else Inr value)"

definition byteCount :: "int \<Rightarrow> string \<Rightarrow> crypto_error + int" where
  "byteCount value what = (if \<not> isSafeInteger value \<or> value < 0 then Inl (invalid what) else Inr value)"

record node_key_context =
  nkWorkspaceId :: string
  nkNodeId :: string
  nkParentId :: string
  nkParentKeyEpoch :: int
  nkKeyEpoch :: int

record content_key_context =
  ckWorkspaceId :: string
  ckNodeId :: string
  ckVersionId :: string
  ckObjectId :: string
  ckSuite :: int

definition node_key_parts :: "string \<Rightarrow> node_key_context \<Rightarrow> crypto_error + bytes" where
  "node_key_parts label ctx =
     bindE (drive_id (nkWorkspaceId ctx) ''workspace id'') (\<lambda>wid.
     bindE (drive_id (nkNodeId ctx) ''node id'') (\<lambda>nid.
     bindE (drive_id (nkParentId ctx) ''parent id'') (\<lambda>pid.
     bindE (epoch_field (nkParentKeyEpoch ctx) ''parent key epoch'') (\<lambda>pe.
     bindE (epoch_field (nkKeyEpoch ctx) ''key epoch'') (\<lambda>ke.
       Inr (statement_bytes [JStr label, JNum DRIVE_ENVELOPE_SUITE, JStr wid, JStr nid, JStr pid, JNum pe, JNum ke]))))))"

definition NODE_KEY_LABEL :: string where "NODE_KEY_LABEL = ''hushos/drive/node-key''"
definition PREVIOUS_ROOT_KEY_LABEL :: string where "PREVIOUS_ROOT_KEY_LABEL = ''hushos/drive/previous-root-key''"

definition nodeKeyContext :: "node_key_context \<Rightarrow> crypto_error + bytes" where
  "nodeKeyContext = node_key_parts NODE_KEY_LABEL"

definition previousRootKeyContext :: "node_key_context \<Rightarrow> crypto_error + bytes" where
  "previousRootKeyContext = node_key_parts PREVIOUS_ROOT_KEY_LABEL"

definition metadataContext :: "string \<Rightarrow> string \<Rightarrow> int \<Rightarrow> crypto_error + bytes" where
  "metadataContext wsId nodeId version =
     bindE (drive_id wsId ''workspace id'') (\<lambda>wid.
     bindE (drive_id nodeId ''node id'') (\<lambda>nid.
     bindE (epoch_field version ''metadata version'') (\<lambda>v.
       Inr (statement_bytes [JStr ''hushos/drive/node-meta'', JNum DRIVE_ENVELOPE_SUITE, JStr wid, JStr nid, JNum v]))))"

definition document_kind_char :: "char \<Rightarrow> bool" where
  "document_kind_char c \<longleftrightarrow> (let n = (of_char c :: nat) in (97 \<le> n \<and> n \<le> 122) \<or> (48 \<le> n \<and> n \<le> 57) \<or> n = 45)"

text \<open>\<open>DOCUMENT_KIND\<close>: a lower-case letter, then at most 31 letters, digits or hyphens.\<close>

definition document_kind :: "string \<Rightarrow> bool" where
  "document_kind k \<longleftrightarrow> (case k of [] \<Rightarrow> False
     | c # cs \<Rightarrow> (97::nat) \<le> of_char c \<and> of_char c \<le> (122::nat) \<and> length cs \<le> 31 \<and> list_all document_kind_char cs)"

definition documentContext :: "string \<Rightarrow> string \<Rightarrow> int \<Rightarrow> crypto_error + bytes" where
  "documentContext wsId kd version =
     (if \<not> document_kind kd then Inl (invalid ''document kind'')
      else bindE (drive_id wsId ''workspace id'') (\<lambda>wid.
        bindE (epoch_field version ''document version'') (\<lambda>v.
          Inr (statement_bytes [JStr ''hushos/drive/workspace-doc'', JNum DRIVE_ENVELOPE_SUITE, JStr wid, JStr kd, JNum v]))))"

definition contentKeyContext :: "content_key_context \<Rightarrow> crypto_error + bytes" where
  "contentKeyContext ctx =
     bindE (checkSuite (ckSuite ctx)) (\<lambda>csuite.
     bindE (drive_id (ckWorkspaceId ctx) ''workspace id'') (\<lambda>wid.
     bindE (drive_id (ckNodeId ctx) ''node id'') (\<lambda>nid.
     bindE (drive_id (ckVersionId ctx) ''version id'') (\<lambda>vid.
     bindE (drive_id (ckObjectId ctx) ''object id'') (\<lambda>oid.
       Inr (statement_bytes [JStr ''hushos/drive/content-key'', JNum csuite, JStr wid, JStr nid, JStr vid, JStr oid]))))))"

section \<open>Envelopes: nonce and body\<close>

definition ENVELOPE_DAMAGED :: crypto_error where
  "ENVELOPE_DAMAGED = CryptoError ''This encrypted envelope is damaged.''"

definition split_envelope :: "bytes \<Rightarrow> nat option \<Rightarrow> crypto_error + bytes \<times> bytes" where
  "split_envelope envelope bodyLength =
     (if length envelope \<le> ENVELOPE_NONCE_BYTES + CHUNK_TAG_BYTES
         \<or> (case bodyLength of None \<Rightarrow> False | Some n \<Rightarrow> length envelope \<noteq> ENVELOPE_NONCE_BYTES + n)
      then Inl ENVELOPE_DAMAGED
      else Inr (take ENVELOPE_NONCE_BYTES envelope, drop ENVELOPE_NONCE_BYTES envelope))"

definition seal_envelope :: "seal_primitives \<Rightarrow> bytes \<Rightarrow> bytes \<Rightarrow> bytes \<Rightarrow> bytes \<Rightarrow> bytes" where
  "seal_envelope S nonce plaintext key aad = nonce @ aead_encrypt S plaintext aad nonce key"

definition INVALID_NODE_KEY :: crypto_error where "INVALID_NODE_KEY = invalid ''node key''"

definition wrapNodeKey :: "seal_primitives \<Rightarrow> bytes \<Rightarrow> bytes \<Rightarrow> bytes \<Rightarrow> node_key_context \<Rightarrow> crypto_error + bytes" where
  "wrapNodeKey S nonce nodeKey parentKey ctx =
     (if length nodeKey \<noteq> KEY_BYTES then Inl INVALID_NODE_KEY
      else bindE (nodeKeyContext ctx) (\<lambda>aad. Inr (seal_envelope S nonce nodeKey parentKey aad)))"

text \<open>A key under a key: the body has the length of one, and what opens is one.\<close>

definition open_key :: "seal_primitives \<Rightarrow> bytes \<Rightarrow> bytes \<Rightarrow> (crypto_error + bytes) \<Rightarrow> crypto_error \<Rightarrow> crypto_error + bytes" where
  "open_key S envelope wrapKey aad wrong_length =
     bindE (split_envelope envelope (Some (KEY_BYTES + CHUNK_TAG_BYTES))) (\<lambda>(nonce, body).
     bindE aad (\<lambda>aad.
     bindE (decryptKey S body wrapKey nonce aad) (\<lambda>key.
       if length key \<noteq> KEY_BYTES then Inl wrong_length else Inr key)))"

definition openNodeKey :: "seal_primitives \<Rightarrow> bytes \<Rightarrow> bytes \<Rightarrow> node_key_context \<Rightarrow> crypto_error + bytes" where
  "openNodeKey S envelope parentKey ctx = open_key S envelope parentKey (nodeKeyContext ctx) INVALID_NODE_KEY"

definition wrapPreviousRootKey :: "seal_primitives \<Rightarrow> bytes \<Rightarrow> bytes \<Rightarrow> bytes \<Rightarrow> node_key_context \<Rightarrow> crypto_error + bytes" where
  "wrapPreviousRootKey S nonce rootKey areaKey ctx =
     (if length rootKey \<noteq> KEY_BYTES then Inl INVALID_NODE_KEY
      else if nkParentId ctx \<noteq> nkWorkspaceId ctx then Inl INVALID_NODE_KEY
      else bindE (previousRootKeyContext ctx) (\<lambda>aad. Inr (seal_envelope S nonce rootKey areaKey aad)))"

definition openPreviousRootKey :: "seal_primitives \<Rightarrow> bytes \<Rightarrow> bytes \<Rightarrow> node_key_context \<Rightarrow> crypto_error + bytes" where
  "openPreviousRootKey S envelope areaKey ctx = open_key S envelope areaKey (previousRootKeyContext ctx) INVALID_NODE_KEY"

section \<open>Padding and workspace documents\<close>

definition METADATA_PAD_STEP :: nat where "METADATA_PAD_STEP = 256"
definition DOCUMENT_MAX_BYTES :: nat where "DOCUMENT_MAX_BYTES = 1024 * 1024"

definition documentPadStep :: "nat \<Rightarrow> nat" where
  "documentPadStep len =
     (if len \<le> 64 * 1024 then 1024 else if len \<le> 256 * 1024 then 4 * 1024 else 16 * 1024)"

text \<open>\<open>Math.ceil(length / step) * step\<close>, at most \<open>max\<close>; the filling is spaces, which JSON ignores.\<close>

definition padded :: "bytes \<Rightarrow> nat \<Rightarrow> nat \<Rightarrow> bytes" where
  "padded plaintext step most =
     (let target = min ((length plaintext + step - 1) div step * step) most in
      if target \<le> length plaintext then plaintext
      else plaintext @ replicate (target - length plaintext) 0x20)"

text \<open>\<open>sealDocument\<close>, given what \<open>JSON.stringify\<close> wrote: \<open>None\<close> where it throws or the document is \<open>undefined\<close>
  (\<open>JSON.stringify\<close> gives no text for it, and it is refused as too large).\<close>

datatype document_text = Document_Throws | Document_Undefined | Document_Text bytes

definition CANNOT_BE_SAVED :: crypto_error where
  "CANNOT_BE_SAVED = CryptoError ''This document cannot be saved.''"
definition DOCUMENT_TOO_LARGE :: crypto_error where
  "DOCUMENT_TOO_LARGE = CryptoError ''This document is too large to save.''"
definition DOCUMENT_NOT_OPENED :: crypto_error where
  "DOCUMENT_NOT_OPENED = CryptoError ''This document could not be opened. It may be damaged.''"

definition sealDocument :: "seal_primitives \<Rightarrow> bytes \<Rightarrow> document_text \<Rightarrow> bytes \<Rightarrow> string \<Rightarrow> string \<Rightarrow> int \<Rightarrow> crypto_error + bytes" where
  "sealDocument S nonce document workspaceKey wsId kd version =
     (case document of
        Document_Throws \<Rightarrow> Inl CANNOT_BE_SAVED
      | Document_Undefined \<Rightarrow> Inl DOCUMENT_TOO_LARGE
      | Document_Text plaintext \<Rightarrow>
          if length plaintext > DOCUMENT_MAX_BYTES then Inl DOCUMENT_TOO_LARGE
          else bindE (documentContext wsId kd version) (\<lambda>aad.
            Inr (seal_envelope S nonce (padded plaintext (documentPadStep (length plaintext)) DOCUMENT_MAX_BYTES)
              workspaceKey aad)))"

text \<open>\<open>openDocument\<close>; \<open>parse\<close> is \<open>JSON.parse\<close> of the strict UTF-8 text, \<open>None\<close> where either throws.\<close>

definition openDocument :: "seal_primitives \<Rightarrow> (bytes \<Rightarrow> 'j option) \<Rightarrow> bytes \<Rightarrow> bytes \<Rightarrow> string \<Rightarrow> string \<Rightarrow> int \<Rightarrow> crypto_error + 'j" where
  "openDocument S parse envelope workspaceKey wsId kd version =
     bindE (split_envelope envelope None) (\<lambda>(nonce, body).
       if length body > DOCUMENT_MAX_BYTES + CHUNK_TAG_BYTES then Inl ENVELOPE_DAMAGED
       else bindE (documentContext wsId kd version) (\<lambda>aad.
         case aead_decrypt S body aad nonce workspaceKey of None \<Rightarrow> Inl DOCUMENT_NOT_OPENED
         | Some plaintext \<Rightarrow> (case parse plaintext of None \<Rightarrow> Inl DOCUMENT_NOT_OPENED | Some j \<Rightarrow> Inr j)))"

section \<open>Content keys and versions\<close>

definition INVALID_CONTENT_KEY :: crypto_error where "INVALID_CONTENT_KEY = invalid ''content key''"

definition wrapContentKey :: "seal_primitives \<Rightarrow> bytes \<Rightarrow> bytes \<Rightarrow> bytes \<Rightarrow> content_key_context \<Rightarrow> crypto_error + bytes" where
  "wrapContentKey S nonce contentKey nodeKey ctx =
     (if length contentKey \<noteq> KEY_BYTES then Inl INVALID_CONTENT_KEY
      else bindE (contentKeyContext (ctx\<lparr> ckSuite := LEGACY_CONTENT_SUITE \<rparr>)) (\<lambda>aad.
        Inr (seal_envelope S nonce contentKey nodeKey aad)))"

definition openContentKey :: "seal_primitives \<Rightarrow> bytes \<Rightarrow> bytes \<Rightarrow> content_key_context \<Rightarrow> crypto_error + bytes" where
  "openContentKey S envelope nodeKey ctx =
     open_key S envelope nodeKey (contentKeyContext (ctx\<lparr> ckSuite := LEGACY_CONTENT_SUITE \<rparr>)) INVALID_CONTENT_KEY"

text \<open>\<open>DataView\<close>'s big-endian integers.\<close>

fun big_endian :: "nat \<Rightarrow> nat \<Rightarrow> bytes" where
  "big_endian 0 v = []"
| "big_endian (Suc n) v = big_endian n (v div 256) @ [of_nat (v mod 256)]"

definition big_endian_value :: "bytes \<Rightarrow> nat" where
  "big_endian_value bs = foldl (\<lambda>acc b. acc * 256 + unat b) 0 bs"

record version_record =
  vrContentKey :: bytes
  vrPlaintextSize :: int
  vrThumbnailBytes :: int

record opened_version =
  ovContentKey :: bytes
  ovPlaintextSize :: "nat option"
  ovThumbnailBytes :: nat

definition INVALID_THUMBNAIL_SIZE :: crypto_error where "INVALID_THUMBNAIL_SIZE = invalid ''thumbnail size''"
definition NO_ROOM_FOR_THUMBNAIL :: crypto_error where
  "NO_ROOM_FOR_THUMBNAIL = CryptoError ''This file was stored without room for a thumbnail.''"
definition INVALID_VERSION_ENVELOPE :: crypto_error where "INVALID_VERSION_ENVELOPE = invalid ''version envelope''"

definition sealVersion :: "seal_primitives \<Rightarrow> bytes \<Rightarrow> version_record \<Rightarrow> bytes \<Rightarrow> content_key_context \<Rightarrow> crypto_error + bytes" where
  "sealVersion S nonce record nodeKey ctx =
     (if length (vrContentKey record) \<noteq> KEY_BYTES then Inl INVALID_CONTENT_KEY
      else bindE (checkSuite (ckSuite ctx)) (\<lambda>csuite.
        if csuite = LEGACY_CONTENT_SUITE then
          if vrThumbnailBytes record \<noteq> 0 then Inl NO_ROOM_FOR_THUMBNAIL
          else wrapContentKey S nonce (vrContentKey record) nodeKey ctx
        else bindE (byteCount (vrPlaintextSize record) ''file size'') (\<lambda>size.
          if \<not> isSafeInteger (vrThumbnailBytes record) \<or> vrThumbnailBytes record < 0
             \<or> vrThumbnailBytes record > int THUMBNAIL_MAX_BYTES then Inl INVALID_THUMBNAIL_SIZE
          else bindE (contentKeyContext ctx) (\<lambda>aad.
            Inr (seal_envelope S nonce (vrContentKey record @ big_endian 8 (nat size)
              @ big_endian 4 (nat (vrThumbnailBytes record))) nodeKey aad)))))"

definition openVersion :: "seal_primitives \<Rightarrow> bytes \<Rightarrow> bytes \<Rightarrow> content_key_context \<Rightarrow> crypto_error + opened_version" where
  "openVersion S envelope nodeKey ctx =
     bindE (checkSuite (ckSuite ctx)) (\<lambda>csuite.
       if csuite = LEGACY_CONTENT_SUITE then
         bindE (openContentKey S envelope nodeKey ctx) (\<lambda>key.
           Inr \<lparr> ovContentKey = key, ovPlaintextSize = None, ovThumbnailBytes = 0 \<rparr>)
       else
         bindE (split_envelope envelope (Some (VERSION_RECORD_BYTES + CHUNK_TAG_BYTES))) (\<lambda>(nonce, body).
         bindE (contentKeyContext ctx) (\<lambda>aad.
         bindE (decryptKey S body nodeKey nonce aad) (\<lambda>record.
           if length record \<noteq> VERSION_RECORD_BYTES then Inl INVALID_VERSION_ENVELOPE
           else
             let size = big_endian_value (take 8 (drop KEY_BYTES record));
                 thumbnailBytes = big_endian_value (take 4 (drop (KEY_BYTES + 8) record)) in
             if int size > MAX_SAFE_INTEGER \<or> thumbnailBytes > THUMBNAIL_MAX_BYTES
             then Inl INVALID_VERSION_ENVELOPE
             else Inr \<lparr> ovContentKey = take KEY_BYTES record, ovPlaintextSize = Some size,
               ovThumbnailBytes = thumbnailBytes \<rparr>))))"

definition versionEnvelopeBytes :: "int \<Rightarrow> crypto_error + nat" where
  "versionEnvelopeBytes csuite =
     bindE (checkSuite csuite) (\<lambda>n.
       Inr (if n = LEGACY_CONTENT_SUITE then KEY_ENVELOPE_BYTES else VERSION_ENVELOPE_BYTES))"

section \<open>Raw bytes, and the key of one envelope\<close>

definition key32 :: "bytes \<Rightarrow> string \<Rightarrow> crypto_error + bytes" where
  "key32 key what = (if length key \<noteq> KEY_BYTES then Inl (invalid what) else Inr key)"

definition openEnvelopeBytes :: "seal_primitives \<Rightarrow> bytes \<Rightarrow> bytes \<Rightarrow> bytes \<Rightarrow> crypto_error + bytes" where
  "openEnvelopeBytes S envelope key aad =
     bindE (split_envelope envelope None) (\<lambda>(nonce, body).
     bindE (key32 key ''key'') (\<lambda>key. decryptKey S body key nonce aad))"

definition rekeyEnvelope :: "seal_primitives \<Rightarrow> bytes \<Rightarrow> bytes \<Rightarrow> bytes \<Rightarrow> bytes \<Rightarrow> bytes \<Rightarrow> crypto_error + bytes" where
  "rekeyEnvelope S fresh_nonce envelope oldKey newKey aad =
     bindE (key32 newKey ''key'') (\<lambda>_.
     bindE (openEnvelopeBytes S envelope oldKey aad) (\<lambda>plaintext.
       Inr (seal_envelope S fresh_nonce plaintext newKey aad)))"

text \<open>ChaCha20's quarter round on a state of sixteen 32-bit words, and HChaCha20.\<close>

definition rotl :: "32 word \<Rightarrow> nat \<Rightarrow> 32 word" where
  "rotl value n = push_bit n value OR drop_bit (32 - n) value"

definition quarter :: "nat \<Rightarrow> nat \<Rightarrow> nat \<Rightarrow> nat \<Rightarrow> 32 word list \<Rightarrow> 32 word list" where
  "quarter a b c d x0 =
     (let x1 = x0[a := x0 ! a + x0 ! b]; x2 = x1[d := rotl (x1 ! d XOR x1 ! a) 16];
          x3 = x2[c := x2 ! c + x2 ! d]; x4 = x3[b := rotl (x3 ! b XOR x3 ! c) 12];
          x5 = x4[a := x4 ! a + x4 ! b]; x6 = x5[d := rotl (x5 ! d XOR x5 ! a) 8];
          x7 = x6[c := x6 ! c + x6 ! d]
      in x7[b := rotl (x7 ! b XOR x7 ! c) 7])"

definition double_round :: "32 word list \<Rightarrow> 32 word list" where
  "double_round x = quarter 3 4 9 14 (quarter 2 7 8 13 (quarter 1 6 11 12 (quarter 0 5 10 15
     (quarter 3 7 11 15 (quarter 2 6 10 14 (quarter 1 5 9 13 (quarter 0 4 8 12 x)))))))"

text \<open>\<open>DataView\<close>'s little-endian 32-bit words.\<close>

definition get_word :: "bytes \<Rightarrow> nat \<Rightarrow> 32 word" where
  "get_word bs i = foldr (\<lambda>b acc. push_bit 8 acc OR ucast b) (take 4 (drop (4 * i) bs)) 0"

definition word_bytes :: "32 word \<Rightarrow> bytes" where
  "word_bytes w = map (\<lambda>i. ucast (drop_bit (8 * i) w)) [0..<4]"

definition hchacha20 :: "bytes \<Rightarrow> bytes \<Rightarrow> bytes" where
  "hchacha20 key input =
     (let x = (double_round ^^ 10) ([0x61707865, 0x3320646e, 0x79622d32, 0x6b206574]
            @ map (get_word key) [0..<8] @ map (get_word input) [0..<4])
      in concat (map (\<lambda>i. word_bytes (x ! i)) [0, 1, 2, 3, 12, 13, 14, 15]))"

definition originOpeningKey :: "bytes \<Rightarrow> bytes \<Rightarrow> crypto_error + bytes" where
  "originOpeningKey envelope key =
     bindE (split_envelope envelope None) (\<lambda>(nonce, body).
     bindE (key32 key ''node key'') (\<lambda>key. Inr (hchacha20 key (take 16 nonce))))"

text \<open>libsodium's ChaCha20-Poly1305 (IETF), key derivation and keyed BLAKE2b: text or body, associated data,
  12-byte nonce, key; length, index, context, key; length, text, key.\<close>

record drive_primitives =
  chacha20poly1305_ietf_decrypt :: "bytes \<Rightarrow> bytes \<Rightarrow> bytes \<Rightarrow> bytes \<Rightarrow> bytes option"
  crypto_kdf_derive_from_key :: "nat \<Rightarrow> nat \<Rightarrow> string \<Rightarrow> bytes \<Rightarrow> bytes"
  crypto_generichash :: "nat \<Rightarrow> bytes \<Rightarrow> bytes \<Rightarrow> bytes"

definition ITEM_NOT_OPENED :: crypto_error where
  "ITEM_NOT_OPENED = CryptoError ''This item could not be opened. It may be damaged.''"

definition openWithOriginKey :: "drive_primitives \<Rightarrow> bytes \<Rightarrow> bytes \<Rightarrow> bytes \<Rightarrow> crypto_error + bytes" where
  "openWithOriginKey D envelope originKey aad =
     bindE (split_envelope envelope None) (\<lambda>(nonce, body).
     bindE (key32 originKey ''origin key'') (\<lambda>key.
       case chacha20poly1305_ietf_decrypt D body aad (replicate 4 0 @ drop 16 nonce) key of
         None \<Rightarrow> Inl ITEM_NOT_OPENED | Some m \<Rightarrow> Inr m))"

datatype origin_record = Origin_Metadata int | Origin_Version string

record origin_key_context =
  okWorkspaceId :: string
  okNodeId :: string
  okKeyEpoch :: int
  okRecord :: origin_record
  okOriginEnvelope :: bytes

definition originKeyContext :: "primitives \<Rightarrow> origin_key_context \<Rightarrow> crypto_error + bytes" where
  "originKeyContext P ctx =
     bindE (case okRecord ctx of
        Origin_Metadata version \<Rightarrow> bindE (epoch_field version ''metadata version'') (\<lambda>v. Inr [JStr ''metadata'', JNum v])
      | Origin_Version vid \<Rightarrow> bindE (drive_id vid ''version id'') (\<lambda>v. Inr [JStr ''version'', JStr v])) (\<lambda>position.
     bindE (drive_id (okWorkspaceId ctx) ''workspace id'') (\<lambda>wid.
     bindE (drive_id (okNodeId ctx) ''node id'') (\<lambda>nid.
     bindE (epoch_field (okKeyEpoch ctx) ''key epoch'') (\<lambda>ke.
       Inr (statement_bytes ([JStr ''hushos/drive/origin-key'', JNum DRIVE_ENVELOPE_SUITE, JStr wid, JStr nid]
         @ position @ [JNum ke, JStr (digest P (okOriginEnvelope ctx))]))))))"

definition wrapOriginKey :: "primitives \<Rightarrow> seal_primitives \<Rightarrow> bytes \<Rightarrow> bytes \<Rightarrow> bytes \<Rightarrow> origin_key_context \<Rightarrow> crypto_error + bytes" where
  "wrapOriginKey P S nonce originKey nodeKey ctx =
     bindE (key32 originKey ''origin key'') (\<lambda>_.
     bindE (key32 nodeKey ''node key'') (\<lambda>key.
     bindE (originKeyContext P ctx) (\<lambda>aad. Inr (seal_envelope S nonce originKey key aad))))"

definition openOriginKey :: "primitives \<Rightarrow> seal_primitives \<Rightarrow> bytes \<Rightarrow> bytes \<Rightarrow> origin_key_context \<Rightarrow> crypto_error + bytes" where
  "openOriginKey P S envelope nodeKey ctx =
     open_key S envelope nodeKey
       (bindE (key32 nodeKey ''node key'') (\<lambda>_. originKeyContext P ctx)) (invalid ''origin key'')"

end
