(* ===== verification/Drive_Content.thy ===== *)
theory Drive_Content
  imports Drive_Envelopes
begin

text \<open>
  \<open>packages/crypto/src/padding.ts\<close> (Padme) and the content framing of \<open>drive.ts\<close>: chunks of 8 MiB, the
  thumbnail trailer, the ranges a reader fetches, with what the crypto worker (\<open>session.ts\<close>) does of an
  upload's and a download's bytes. Sizes are integers; JavaScript's numbers round past 2^53, which no
  object reaches.
\<close>

section \<open>Padme (padding.ts)\<close>

definition INVALID_FILE_SIZE :: crypto_error where "INVALID_FILE_SIZE = invalid ''file size''"

text \<open>\<open>value.toString(2).length\<close>.\<close>

fun binary_digits :: "nat \<Rightarrow> nat" where
  "binary_digits n = (if n < 2 then 1 else Suc (binary_digits (n div 2)))"

declare binary_digits.simps [simp del]

definition paddedLength :: "int \<Rightarrow> crypto_error + int" where
  "paddedLength len =
     (if \<not> isSafeInteger len \<or> len < 0 then Inl INVALID_FILE_SIZE
      else if len \<le> 256 then Inr 256
      else
        let e = binary_digits (nat len) - 1;
            s = binary_digits e;
            mask = push_bit (e - s) 1 - 1;
            out = (len + mask) AND NOT mask in
        if out > MAX_SAFE_INTEGER then Inl INVALID_FILE_SIZE else Inr out)"

section \<open>Chunk arithmetic\<close>

definition CHUNK_SIZE :: int where "CHUNK_SIZE = 8 * 1024 * 1024"

abbreviation tag_bytes :: int where "tag_bytes \<equiv> int CHUNK_TAG_BYTES"

definition chunkCount :: "int \<Rightarrow> crypto_error + int" where
  "chunkCount len =
     (if \<not> isSafeInteger len \<or> len < 0 then Inl INVALID_FILE_SIZE
      else Inr (max 1 (- ((- len) div CHUNK_SIZE))))"

definition trailerLength :: "int \<Rightarrow> crypto_error + int" where
  "trailerLength thumbnailBytes =
     (if \<not> isSafeInteger thumbnailBytes \<or> thumbnailBytes < 0 \<or> thumbnailBytes > int THUMBNAIL_MAX_BYTES
      then Inl INVALID_THUMBNAIL_SIZE
      else Inr (if thumbnailBytes > 0 then thumbnailBytes + tag_bytes else 0))"

definition contentLength :: "int \<Rightarrow> int \<Rightarrow> int \<Rightarrow> crypto_error + int" where
  "contentLength csuite plaintextSize thumbnailBytes =
     bindE (byteCount plaintextSize ''file size'') (\<lambda>_.
     bindE (trailerLength thumbnailBytes) (\<lambda>trailer.
     bindE (checkSuite csuite) (\<lambda>n.
       if n < CONTENT_SUITE then Inr plaintextSize
       else bindE (paddedLength (plaintextSize + trailer)) (\<lambda>bucket. Inr (bucket - trailer)))))"

definition ciphertextSize :: "int \<Rightarrow> int \<Rightarrow> int \<Rightarrow> crypto_error + int" where
  "ciphertextSize csuite plaintextSize thumbnailBytes =
     bindE (contentLength csuite plaintextSize thumbnailBytes) (\<lambda>len.
     bindE (chunkCount len) (\<lambda>count.
     bindE (trailerLength thumbnailBytes) (\<lambda>trailer.
       Inr (len + tag_bytes * count + trailer))))"

record range =
  rangeStart :: int
  rangeEnd :: int

definition NO_THUMBNAIL :: crypto_error where "NO_THUMBNAIL = CryptoError ''This file has no thumbnail.''"

definition thumbnailRange :: "int \<Rightarrow> int \<Rightarrow> int \<Rightarrow> crypto_error + range" where
  "thumbnailRange csuite plaintextSize thumbnailBytes =
     (if thumbnailBytes < 1 then Inl NO_THUMBNAIL
      else bindE (ciphertextSize csuite plaintextSize thumbnailBytes) (\<lambda>size.
        bindE (trailerLength (int THUMBNAIL_MAX_BYTES)) (\<lambda>most.
          Inr \<lparr> rangeStart = max 0 (size - 1 + 1 - most), rangeEnd = size - 1 \<rparr>)))"

definition INVALID_PART_NUMBER :: crypto_error where "INVALID_PART_NUMBER = invalid ''part number''"

definition partLength :: "int \<Rightarrow> int \<Rightarrow> int \<Rightarrow> crypto_error + int" where
  "partLength osize count partNumber =
     (if \<not> isSafeInteger partNumber \<or> partNumber < 1 \<or> partNumber > count then Inl INVALID_PART_NUMBER
      else if partNumber < count then Inr (CHUNK_SIZE + tag_bytes)
      else Inr (osize - (count - 1) * (CHUNK_SIZE + tag_bytes)))"

definition validObjectSize :: "int \<Rightarrow> int \<Rightarrow> crypto_error + bool" where
  "validObjectSize osize count =
     (if \<not> isSafeInteger osize \<or> \<not> isSafeInteger count \<or> count < 1 \<or> osize < 0 then Inr False
      else bindE (partLength osize count count) (\<lambda>last_part.
        let least = (if count = 1 then tag_bytes else tag_bytes + 1) in
        Inr (last_part \<ge> least
          \<and> last_part \<le> CHUNK_SIZE + tag_bytes + int THUMBNAIL_MAX_BYTES + tag_bytes)))"

definition INVALID_CHUNK_INDEX :: crypto_error where "INVALID_CHUNK_INDEX = invalid ''chunk index''"

definition chunkPlaintextLength :: "int \<Rightarrow> int \<Rightarrow> crypto_error + int" where
  "chunkPlaintextLength len index =
     bindE (chunkCount len) (\<lambda>count.
       if \<not> isSafeInteger index \<or> index < 0 \<or> index \<ge> count then Inl INVALID_CHUNK_INDEX
       else Inr (if index < count - 1 then CHUNK_SIZE else len - index * CHUNK_SIZE))"

definition chunkCiphertextLength :: "int \<Rightarrow> int \<Rightarrow> crypto_error + int" where
  "chunkCiphertextLength len index = bindE (chunkPlaintextLength len index) (\<lambda>n. Inr (n + tag_bytes))"

definition chunkRange :: "int \<Rightarrow> int \<Rightarrow> int \<Rightarrow> int \<Rightarrow> crypto_error + range" where
  "chunkRange csuite plaintextSize thumbnailBytes index =
     bindE (contentLength csuite plaintextSize thumbnailBytes) (\<lambda>len.
     bindE (chunkCount len) (\<lambda>count.
       let start = index * (CHUNK_SIZE + tag_bytes) in
       if index = count - 1 then
         bindE (ciphertextSize csuite plaintextSize thumbnailBytes) (\<lambda>size.
           Inr \<lparr> rangeStart = start, rangeEnd = size - 1 \<rparr>)
       else bindE (chunkCiphertextLength len index) (\<lambda>n.
         Inr \<lparr> rangeStart = start, rangeEnd = start + n - 1 \<rparr>)))"

definition fileBytesOf :: "bytes \<Rightarrow> int \<Rightarrow> int \<Rightarrow> bytes" where
  "fileBytesOf chunk plaintextSize index =
     (let start = index * CHUNK_SIZE in take (nat (max 0 (min (int (length chunk)) (plaintextSize - start)))) chunk)"

section \<open>Chunks and the trailer\<close>

record chunk_context =
  ccWorkspaceId :: string
  ccObjectId :: string
  ccSuite :: int
  ccIndex :: int
  ccChunkCount :: int
  ccPlaintextSize :: int
  ccThumbnailBytes :: int

record thumbnail_context =
  tcWorkspaceId :: string
  tcObjectId :: string
  tcSuite :: int
  tcPlaintextSize :: int
  tcThumbnailBytes :: int

definition CONTENT_NONCE_BYTES :: nat where "CONTENT_NONCE_BYTES = 16"

text \<open>The last eight bytes are the index as an unsigned 64-bit integer (\<open>setBigUint64\<close> takes it modulo 2^64).\<close>

definition chunkNonce :: "bytes \<Rightarrow> int \<Rightarrow> crypto_error + bytes" where
  "chunkNonce contentNonce index =
     (if length contentNonce \<noteq> CONTENT_NONCE_BYTES then Inl (invalid ''content nonce'')
      else Inr (contentNonce @ big_endian 8 (nat (index mod 2 ^ 64))))"

definition chunkContext :: "chunk_context \<Rightarrow> crypto_error + bytes" where
  "chunkContext ctx =
     bindE (checkSuite (ccSuite ctx)) (\<lambda>csuite.
     bindE (drive_id (ccWorkspaceId ctx) ''workspace id'') (\<lambda>wid.
     bindE (drive_id (ccObjectId ctx) ''object id'') (\<lambda>oid.
       Inr (statement_bytes [JStr ''hushos/drive/content'', JNum csuite, JStr wid, JStr oid,
         JNum (ccIndex ctx), JNum (ccChunkCount ctx), JNum (ccPlaintextSize ctx)]))))"

definition thumbnailContext :: "thumbnail_context \<Rightarrow> crypto_error + bytes" where
  "thumbnailContext ctx =
     bindE (checkSuite (tcSuite ctx)) (\<lambda>csuite.
       if csuite = LEGACY_CONTENT_SUITE then Inl NO_ROOM_FOR_THUMBNAIL
       else
         bindE (drive_id (tcWorkspaceId ctx) ''workspace id'') (\<lambda>wid.
         bindE (drive_id (tcObjectId ctx) ''object id'') (\<lambda>oid.
           Inr (statement_bytes [JStr ''hushos/drive/thumbnail'', JNum (tcSuite ctx), JStr wid, JStr oid,
             JNum (tcThumbnailBytes ctx)]))))"

definition INVALID_CHUNK :: crypto_error where "INVALID_CHUNK = invalid ''chunk''"

definition checkChunkContext :: "chunk_context \<Rightarrow> crypto_error + int" where
  "checkChunkContext ctx =
     bindE (contentLength (ccSuite ctx) (ccPlaintextSize ctx) (ccThumbnailBytes ctx)) (\<lambda>len.
     bindE (chunkCount len) (\<lambda>count.
       if ccChunkCount ctx \<noteq> count then Inl INVALID_CHUNK else Inr len))"

definition encryptChunk :: "seal_primitives \<Rightarrow> bytes \<Rightarrow> bytes \<Rightarrow> bytes \<Rightarrow> chunk_context \<Rightarrow> crypto_error + bytes" where
  "encryptChunk S plaintext contentKey contentNonce ctx =
     bindE (checkChunkContext ctx) (\<lambda>len.
     bindE (chunkPlaintextLength len (ccIndex ctx)) (\<lambda>n.
       if int (length plaintext) \<noteq> n then Inl INVALID_CHUNK
       else bindE (chunkContext ctx) (\<lambda>aad.
         bindE (chunkNonce contentNonce (ccIndex ctx)) (\<lambda>nonce.
           Inr (aead_encrypt S plaintext aad nonce contentKey)))))"

definition FILE_NOT_DECRYPTED :: crypto_error where
  "FILE_NOT_DECRYPTED = CryptoError ''This file could not be decrypted. It may be damaged.''"

definition decryptChunk :: "seal_primitives \<Rightarrow> bytes \<Rightarrow> bytes \<Rightarrow> bytes \<Rightarrow> chunk_context \<Rightarrow> crypto_error + bytes" where
  "decryptChunk S ciphertext contentKey contentNonce ctx =
     (case bindE (checkChunkContext ctx) (\<lambda>len. chunkCiphertextLength len (ccIndex ctx)) of
        Inl _ \<Rightarrow> Inl FILE_NOT_DECRYPTED
      | Inr n \<Rightarrow>
          if (if ccIndex ctx = ccChunkCount ctx - 1 then int (length ciphertext) < n else int (length ciphertext) \<noteq> n)
          then Inl FILE_NOT_DECRYPTED
          else (case bindE (chunkContext ctx) (\<lambda>aad.
                bindE (chunkNonce contentNonce (ccIndex ctx)) (\<lambda>nonce.
                  Inr (aead_decrypt S (take (nat n) ciphertext) aad nonce contentKey))) of
              Inr (Some plaintext) \<Rightarrow> Inr plaintext
            | _ \<Rightarrow> Inl FILE_NOT_DECRYPTED))"

definition thumbnailKey :: "drive_primitives \<Rightarrow> bytes \<Rightarrow> crypto_error + bytes" where
  "thumbnailKey D contentKey =
     (if length contentKey \<noteq> KEY_BYTES then Inl INVALID_CONTENT_KEY
      else Inr (crypto_kdf_derive_from_key D KEY_BYTES 1 ''hushthmb'' contentKey))"

text \<open>The trailer's nonce index is the one after the last chunk's.\<close>

definition trailer_nonce :: "bytes \<Rightarrow> int \<Rightarrow> int \<Rightarrow> int \<Rightarrow> crypto_error + bytes" where
  "trailer_nonce contentNonce csuite plaintextSize thumbnailBytes =
     bindE (contentLength csuite plaintextSize thumbnailBytes) (\<lambda>len.
     bindE (chunkCount len) (\<lambda>count. chunkNonce contentNonce count))"

definition encryptThumbnail :: "seal_primitives \<Rightarrow> drive_primitives \<Rightarrow> bytes \<Rightarrow> bytes \<Rightarrow> bytes \<Rightarrow> thumbnail_context
    \<Rightarrow> crypto_error + bytes" where
  "encryptThumbnail S D webp contentKey contentNonce ctx =
     (if length webp < 1 \<or> length webp > THUMBNAIL_MAX_BYTES then Inl INVALID_THUMBNAIL_SIZE
      else bindE (thumbnailKey D contentKey) (\<lambda>key.
        bindE (thumbnailContext (ctx\<lparr> tcThumbnailBytes := int (length webp) \<rparr>)) (\<lambda>aad.
        bindE (trailer_nonce contentNonce (tcSuite ctx) (tcPlaintextSize ctx) (int (length webp))) (\<lambda>nonce.
          Inr (aead_encrypt S webp aad nonce key)))))"

definition THUMBNAIL_NOT_DECRYPTED :: crypto_error where
  "THUMBNAIL_NOT_DECRYPTED = CryptoError ''This thumbnail could not be decrypted. It may be damaged.''"

definition decryptThumbnail :: "seal_primitives \<Rightarrow> drive_primitives \<Rightarrow> bytes \<Rightarrow> bytes \<Rightarrow> bytes \<Rightarrow> thumbnail_context
    \<Rightarrow> crypto_error + bytes" where
  "decryptThumbnail S D fetched contentKey contentNonce ctx =
     bindE (trailerLength (tcThumbnailBytes ctx)) (\<lambda>len.
       if int (length fetched) < len \<or> tcThumbnailBytes ctx < 1 then Inl THUMBNAIL_NOT_DECRYPTED
       else bindE (thumbnailKey D contentKey) (\<lambda>key.
         case bindE (thumbnailContext ctx) (\<lambda>aad.
              bindE (trailer_nonce contentNonce (tcSuite ctx) (tcPlaintextSize ctx) (tcThumbnailBytes ctx)) (\<lambda>nonce.
                Inr (aead_decrypt S (drop (length fetched - nat len) fetched) aad nonce key))) of
           Inr (Some webp) \<Rightarrow> Inr webp
         | _ \<Rightarrow> Inl THUMBNAIL_NOT_DECRYPTED))"

definition chunkDigest :: "drive_primitives \<Rightarrow> bytes \<Rightarrow> bytes \<Rightarrow> bytes" where
  "chunkDigest D plaintext contentKey =
     crypto_generichash D 32 plaintext (crypto_kdf_derive_from_key D 32 2 ''hushjrnl'' contentKey)"

section \<open>Uploads and downloads (session.ts)\<close>

text \<open>A file as the worker is handed it: one blob, or the parts moved into it.\<close>

datatype upload_bytes = Blob bytes | Source "bytes list"

record upload =
  upWorkspaceId :: string
  upContentKey :: bytes
  upContentNonce :: bytes
  upPlaintextSize :: int
  upContentLength :: int
  upChunkCount :: int
  upThumbnailBytes :: int
  upThumbnail :: "bytes option"

definition FILE_CHANGED :: crypto_error where
  "FILE_CHANGED = CryptoError ''The file changed since the upload started.''"

fun source_size :: "upload_bytes \<Rightarrow> nat" where
  "source_size (Blob b) = length b"
| "source_size (Source parts) = sum_list (map length parts)"

text \<open>\<open>Uint8Array.set(bytes, at)\<close>.\<close>

definition set_at :: "bytes \<Rightarrow> nat \<Rightarrow> bytes \<Rightarrow> bytes" where
  "set_at target at bs = take at target @ bs @ drop (at + length bs) target"

fun copy_parts :: "nat \<Rightarrow> nat \<Rightarrow> nat \<Rightarrow> bytes list \<Rightarrow> bytes \<Rightarrow> bytes" where
  "copy_parts start finish offset [] chunk = chunk"
| "copy_parts start finish offset (part # parts) chunk =
     (let lo = max start offset; hi = min finish (offset + length part);
          chunk' = (if lo < hi then set_at chunk (lo - start) (take (hi - lo) (drop (lo - offset) part)) else chunk);
          offset' = offset + length part in
      if offset' \<ge> finish then chunk' else copy_parts start finish offset' parts chunk')"

definition readChunk :: "upload \<Rightarrow> upload_bytes \<Rightarrow> int \<Rightarrow> crypto_error + bytes" where
  "readChunk up file index =
     (if int (source_size file) \<noteq> upPlaintextSize up then Inl FILE_CHANGED
      else bindE (chunkPlaintextLength (upContentLength up) index) (\<lambda>n.
        let start = index * CHUNK_SIZE;
            chunk = replicate (nat n) 0;
            finish = min (upPlaintextSize up) (start + n) in
        if finish \<le> start then Inr chunk
        else case file of
            Blob b \<Rightarrow> Inr (set_at chunk 0 (take (nat (finish - start)) (drop (nat start) b)))
          | Source parts \<Rightarrow> Inr (copy_parts (nat start) (nat finish) 0 parts chunk)))"

text \<open>What \<open>driveUploadPrepare\<close> keeps of an object's content: the trailer sealed now, the layout fixed.\<close>

definition prepare_upload :: "seal_primitives \<Rightarrow> drive_primitives \<Rightarrow> bytes \<Rightarrow> bytes \<Rightarrow> string \<Rightarrow> string \<Rightarrow> int
    \<Rightarrow> bytes option \<Rightarrow> crypto_error + upload" where
  "prepare_upload S D contentKey contentNonce wsId objectId plaintextSize given =
     (let webp = (case given of None \<Rightarrow> None
            | Some b \<Rightarrow> if b \<noteq> [] \<and> length b \<le> THUMBNAIL_MAX_BYTES then Some b else None) in
      bindE (case webp of None \<Rightarrow> Inr None
        | Some b \<Rightarrow> bindE (encryptThumbnail S D b contentKey contentNonce \<lparr> tcWorkspaceId = wsId, tcObjectId = objectId,
            tcSuite = CONTENT_SUITE, tcPlaintextSize = plaintextSize, tcThumbnailBytes = 0 \<rparr>) (\<lambda>t. Inr (Some t))) (\<lambda>thumbnail.
      let thumbnailBytes = (case webp of None \<Rightarrow> 0 | Some b \<Rightarrow> int (length b)) in
      bindE (contentLength CONTENT_SUITE plaintextSize thumbnailBytes) (\<lambda>len.
      bindE (chunkCount len) (\<lambda>count.
        Inr \<lparr> upWorkspaceId = wsId, upContentKey = contentKey, upContentNonce = contentNonce,
          upPlaintextSize = plaintextSize, upContentLength = len, upChunkCount = count,
          upThumbnailBytes = thumbnailBytes, upThumbnail = thumbnail \<rparr>))))"

definition upload_chunk_context :: "upload \<Rightarrow> string \<Rightarrow> int \<Rightarrow> chunk_context" where
  "upload_chunk_context up objectId index = \<lparr> ccWorkspaceId = upWorkspaceId up, ccObjectId = objectId,
     ccSuite = CONTENT_SUITE, ccIndex = index, ccChunkCount = upChunkCount up,
     ccPlaintextSize = upPlaintextSize up, ccThumbnailBytes = upThumbnailBytes up \<rparr>"

text \<open>\<open>driveUploadEncrypt\<close>: one part; the last carries the trailer after the last chunk.\<close>

definition upload_part :: "seal_primitives \<Rightarrow> upload \<Rightarrow> string \<Rightarrow> upload_bytes \<Rightarrow> int \<Rightarrow> crypto_error + bytes" where
  "upload_part S up objectId file index =
     bindE (readChunk up file index) (\<lambda>plaintext.
     bindE (encryptChunk S plaintext (upContentKey up) (upContentNonce up) (upload_chunk_context up objectId index)) (\<lambda>chunk.
       Inr (case upThumbnail up of
           None \<Rightarrow> chunk
         | Some t \<Rightarrow> if index = upChunkCount up - 1 then chunk @ t else chunk)))"

record download =
  dlWorkspaceId :: string
  dlObjectId :: string
  dlSuite :: int
  dlContentKey :: bytes
  dlContentNonce :: bytes
  dlPlaintextSize :: int
  dlThumbnailBytes :: int
  dlChunkCount :: int

text \<open>What a range request comes to: no answer (aborted by the reader or not), or a status and a body; and what
  the worker answers: no chunk, with whether to try again, or the file's bytes of the chunk.\<close>

datatype fetched = Dropped bool | Answered int "bytes option"

datatype download_answer = Not_Taken int bool | Taken bytes

definition NO_DATA_SENT :: crypto_error where
  "NO_DATA_SENT = CryptoError ''The storage server sent no data.''"

text \<open>\<open>driveDownloadOpen\<close>, given the version it opened.\<close>

definition open_download :: "string \<Rightarrow> string \<Rightarrow> int \<Rightarrow> bytes \<Rightarrow> bytes \<Rightarrow> int \<Rightarrow> int \<Rightarrow> crypto_error + download" where
  "open_download wsId objectId csuite contentKey contentNonce plaintextSize thumbnailBytes =
     bindE (contentLength csuite plaintextSize thumbnailBytes) (\<lambda>len.
     bindE (chunkCount len) (\<lambda>count.
       Inr \<lparr> dlWorkspaceId = wsId, dlObjectId = objectId, dlSuite = csuite, dlContentKey = contentKey,
         dlContentNonce = contentNonce, dlPlaintextSize = plaintextSize, dlThumbnailBytes = thumbnailBytes,
         dlChunkCount = count \<rparr>))"

text \<open>\<open>driveDownloadChunk\<close>: what the store sent for the range, taken only at exactly its length.\<close>

definition download_chunk :: "seal_primitives \<Rightarrow> download \<Rightarrow> (range \<Rightarrow> fetched) \<Rightarrow> int \<Rightarrow> crypto_error + download_answer" where
  "download_chunk S dl fetch index =
     bindE (chunkRange (dlSuite dl) (dlPlaintextSize dl) (dlThumbnailBytes dl) index) (\<lambda>r.
       case fetch r of
         Dropped aborted \<Rightarrow> Inr (Not_Taken 0 (\<not> aborted))
       | Answered code body \<Rightarrow>
           if code \<noteq> 206 \<and> code \<noteq> 200 then Inr (Not_Taken code (code = 408 \<or> code = 429 \<or> code \<ge> 500))
           else case body of None \<Rightarrow> Inl NO_DATA_SENT
             | Some received \<Rightarrow>
                 let expected = rangeEnd r - rangeStart r + 1 in
                 if int (length received) > expected then Inr (Not_Taken code False)
                 else if int (length received) \<noteq> expected then Inr (Not_Taken code True)
                 else bindE (decryptChunk S received (dlContentKey dl) (dlContentNonce dl)
                     \<lparr> ccWorkspaceId = dlWorkspaceId dl, ccObjectId = dlObjectId dl, ccSuite = dlSuite dl, ccIndex = index,
                       ccChunkCount = dlChunkCount dl, ccPlaintextSize = dlPlaintextSize dl,
                       ccThumbnailBytes = dlThumbnailBytes dl \<rparr>) (\<lambda>plaintext.
                   Inr (Taken (fileBytesOf plaintext (dlPlaintextSize dl) index))))"

section \<open>Lemmas: Padme\<close>

lemma binary_digits_bounds: "0 < n \<Longrightarrow> 2 ^ (binary_digits n - 1) \<le> n \<and> n < 2 ^ binary_digits n \<and> 0 < binary_digits n"
proof (induction n rule: binary_digits.induct)
  case (1 n)
  show ?case
  proof (cases "n < 2")
    case True
    with 1(2) show ?thesis by (simp add: binary_digits.simps [of n])
  next
    case False
    with 1(1) have "2 ^ (binary_digits (n div 2) - 1) \<le> n div 2 \<and> n div 2 < 2 ^ binary_digits (n div 2)
      \<and> 0 < binary_digits (n div 2)" by simp
    then show ?thesis using False
      by (cases "binary_digits (n div 2)") (auto simp: binary_digits.simps [of n])
  qed
qed

lemma binary_digits_exactly: "2 ^ d \<le> n \<Longrightarrow> n < 2 ^ Suc d \<Longrightarrow> binary_digits n = Suc d"
proof (induction d arbitrary: n)
  case 0
  then show ?case by (simp add: binary_digits.simps)
next
  case (Suc d)
  then have "2 ^ d \<le> n div 2" "n div 2 < 2 ^ Suc d" by auto
  with Suc.IH [of "n div 2"] Suc.prems show ?case
    by (simp add: binary_digits.simps [of n])
qed

lemma and_not_below: "(x :: int) AND NOT (2 ^ k - 1) = x div 2 ^ k * 2 ^ k"
proof -
  have "x AND NOT (mask k) = push_bit k (drop_bit k x)"
    by (rule bit_eqI) (auto simp: bit_simps)
  then show ?thesis by (simp add: mask_eq_exp_minus_1 push_bit_eq_mult drop_bit_eq_div)
qed

definition exponent_of :: "int \<Rightarrow> nat" where
  "exponent_of len = binary_digits (nat len) - 1"

definition padme_step :: "int \<Rightarrow> nat" where
  "padme_step len = exponent_of len - binary_digits (exponent_of len)"

definition rounded_up :: "int \<Rightarrow> nat \<Rightarrow> int" where
  "rounded_up len k = (len + (2 ^ k - 1)) div 2 ^ k * 2 ^ k"

lemma rounded_up_bounds: "len \<le> rounded_up len k" "rounded_up len k < len + 2 ^ k" "2 ^ k dvd rounded_up len k"
proof -
  have p: "(0::int) < 2 ^ k" by simp
  have "(len + (2 ^ k - 1)) div 2 ^ k * 2 ^ k + (len + (2 ^ k - 1)) mod 2 ^ k = len + (2 ^ k - 1)"
    by (rule div_mult_mod_eq)
  moreover have "0 \<le> (len + (2 ^ k - 1)) mod 2 ^ k" "(len + (2 ^ k - 1)) mod 2 ^ k < 2 ^ k"
    using p by simp_all
  ultimately show "len \<le> rounded_up len k" "rounded_up len k < len + 2 ^ k"
    unfolding rounded_up_def by linarith+
  show "2 ^ k dvd rounded_up len k" by (simp add: rounded_up_def)
qed

lemma rounded_up_le: assumes "len \<le> m" "2 ^ k dvd m" shows "rounded_up len k \<le> m"
proof -
  from assms(2) obtain q where q: "m = 2 ^ k * q" ..
  with assms(1) have "(len + (2 ^ k - 1)) div 2 ^ k \<le> (q * 2 ^ k + (2 ^ k - 1)) div 2 ^ k"
    by (intro zdiv_mono1) (simp_all add: mult.commute)
  also have "\<dots> = q" by (simp add: div_pos_pos_trivial)
  finally show ?thesis by (simp add: rounded_up_def q mult.commute)
qed

lemma rounded_up_same: "2 ^ k dvd len \<Longrightarrow> rounded_up len k = len"
  using rounded_up_le [of len len k] rounded_up_bounds(1) [of len k] by simp

lemma rounded_up_mono: "len \<le> len' \<Longrightarrow> rounded_up len k \<le> rounded_up len' k"
  using rounded_up_bounds(1) [of len' k] rounded_up_bounds(3) [of k len'] by (intro rounded_up_le) auto

lemma exponent_bounds:
  assumes "256 < len"
  shows "2 ^ exponent_of len \<le> len" "len < 2 ^ Suc (exponent_of len)" "8 \<le> exponent_of len"
    "binary_digits (exponent_of len) \<le> exponent_of len"
proof -
  have b: "2 ^ (binary_digits (nat len) - 1) \<le> nat len" "nat len < 2 ^ binary_digits (nat len)" "0 < binary_digits (nat len)"
    using binary_digits_bounds [of "nat len"] assms by auto
  then have s: "Suc (exponent_of len) = binary_digits (nat len)" by (simp add: exponent_of_def)
  have l: "int (2 ^ exponent_of len) \<le> int (nat len)" "int (nat len) < int (2 ^ Suc (exponent_of len))"
    using b s by (simp_all only: of_nat_le_iff of_nat_less_iff) (simp_all add: exponent_of_def)
  with assms show 1: "2 ^ exponent_of len \<le> len" "len < 2 ^ Suc (exponent_of len)" by simp_all
  have "(2::int) ^ 8 < 2 ^ Suc (exponent_of len)" using 1(2) assms by simp
  then have "8 < Suc (exponent_of len)" by (rule power_less_imp_less_exp [rotated]) simp
  then show 8: "8 \<le> exponent_of len" by simp
  let ?d = "binary_digits (exponent_of len)"
  from 8 binary_digits_bounds [of "exponent_of len"] have "2 ^ (?d - 1) \<le> exponent_of len" by simp
  moreover have "?d - 1 < 2 ^ (?d - 1)" by (rule less_exp)
  ultimately show "?d \<le> exponent_of len" by linarith
qed

lemma exponent_exactly: "2 ^ e \<le> len \<Longrightarrow> len < 2 ^ Suc e \<Longrightarrow> exponent_of len = e"
proof -
  assume a: "2 ^ e \<le> len" "len < 2 ^ Suc e"
  then have "int (2 ^ e) \<le> int (nat len)" "int (nat len) < int (2 ^ Suc e)" by auto
  then have "2 ^ e \<le> nat len" "nat len < 2 ^ Suc e" by (simp_all only: of_nat_le_iff of_nat_less_iff)
  then show ?thesis by (simp add: exponent_of_def binary_digits_exactly)
qed

lemma padme_and: "(len + (push_bit k 1 - 1)) AND NOT (push_bit k 1 - 1) = rounded_up len k"
  unfolding rounded_up_def push_bit_eq_mult mult_1 by (rule and_not_below)

lemma paddedLength_eq:
  "paddedLength len =
     (if \<not> isSafeInteger len \<or> len < 0 then Inl INVALID_FILE_SIZE
      else if len \<le> 256 then Inr 256
      else if rounded_up len (padme_step len) > MAX_SAFE_INTEGER then Inl INVALID_FILE_SIZE
      else Inr (rounded_up len (padme_step len)))"
  unfolding paddedLength_def Let_def padme_and by (simp only: padme_step_def exponent_of_def)

lemma paddedLength_Inr:
  "paddedLength len = Inr out \<longleftrightarrow> 0 \<le> len \<and> len \<le> MAX_SAFE_INTEGER
     \<and> (if len \<le> 256 then out = 256 else out = rounded_up len (padme_step len) \<and> out \<le> MAX_SAFE_INTEGER)"
  by (auto simp: paddedLength_eq isSafeInteger_def)

lemma padded_within: "256 < len \<Longrightarrow> rounded_up len (padme_step len) \<le> 2 ^ Suc (exponent_of len)"
  using exponent_bounds [of len]
  by (intro rounded_up_le) (simp_all add: padme_step_def le_imp_power_dvd)

lemma padded_again:
  assumes "256 < len"
  shows "256 < rounded_up len (padme_step len)"
    "rounded_up (rounded_up len (padme_step len)) (padme_step (rounded_up len (padme_step len)))
       = rounded_up len (padme_step len)"
proof -
  let ?out = "rounded_up len (padme_step len)" and ?e = "exponent_of len"
  have r: "len \<le> ?out" "2 ^ padme_step len dvd ?out" by (rule rounded_up_bounds)+
  then show "256 < ?out" using assms by simp
  have b: "2 ^ ?e \<le> len" using exponent_bounds [OF assms] by simp
  show "rounded_up ?out (padme_step ?out) = ?out"
  proof (cases "?out < 2 ^ Suc ?e")
    case True
    then have "exponent_of ?out = ?e" using b r(1) by (intro exponent_exactly) auto
    then have "padme_step ?out = padme_step len" by (simp add: padme_step_def)
    with r(2) show ?thesis by (simp add: rounded_up_same)
  next
    case False
    with padded_within [OF assms] have o: "?out = 2 ^ Suc ?e" by simp
    then have "exponent_of ?out = Suc ?e" by (intro exponent_exactly) simp_all
    then have "padme_step ?out \<le> Suc ?e" by (simp add: padme_step_def)
    then have "2 ^ padme_step ?out dvd ?out" by (subst (2) o) (rule le_imp_power_dvd)
    then show ?thesis by (rule rounded_up_same)
  qed
qed

lemma padded_overhead:
  assumes "256 < len"
  shows "(rounded_up len (padme_step len) - len) * 2 ^ binary_digits (exponent_of len) < len"
proof -
  let ?e = "exponent_of len" and ?s = "binary_digits (exponent_of len)"
  have b: "2 ^ ?e \<le> len" "?s \<le> ?e" using exponent_bounds [OF assms] by simp_all
  have "rounded_up len (padme_step len) - len < 2 ^ (?e - ?s)"
    using rounded_up_bounds(2) [of len "padme_step len"] by (simp add: padme_step_def)
  then have "(rounded_up len (padme_step len) - len) * 2 ^ ?s < 2 ^ (?e - ?s) * 2 ^ ?s" by simp
  also have "\<dots> = 2 ^ ?e" using b(2) by (simp add: power_add [symmetric])
  finally show ?thesis using b(1) by linarith
qed

lemma padded_ordered:
  assumes "256 < len" "len \<le> len'"
  shows "rounded_up len (padme_step len) \<le> rounded_up len' (padme_step len')"
proof (cases "exponent_of len = exponent_of len'")
  case True
  then show ?thesis using assms(2) by (simp add: padme_step_def rounded_up_mono)
next
  case False
  have l: "256 < len'" using assms by simp
  note e = exponent_bounds [OF assms(1)] exponent_bounds [OF l]
  have "(2::int) ^ exponent_of len < 2 ^ Suc (exponent_of len')" using e(1,6) assms(2) by linarith
  then have "exponent_of len < Suc (exponent_of len')" by (rule power_less_imp_less_exp [rotated]) simp
  with False have "Suc (exponent_of len) \<le> exponent_of len'" by simp
  then have "(2::int) ^ Suc (exponent_of len) \<le> 2 ^ exponent_of len'" by (rule power_increasing) simp
  with padded_within [OF assms(1)] e(5) rounded_up_bounds(1) [of len' "padme_step len'"] show ?thesis by linarith
qed

section \<open>Lemmas: chunks\<close>

lemma chunk_pos: "0 < CHUNK_SIZE" "CHUNK_SIZE = int (nat CHUNK_SIZE)" "0 < nat CHUNK_SIZE"
  by (simp_all add: CHUNK_SIZE_def)

lemma ceil_div: "0 < d \<Longrightarrow> (- ((- n) div d) - 1) * d < n \<and> n \<le> - ((- n) div d) * (d :: int)"
proof -
  assume "0 < d"
  then have "0 \<le> (- n) mod d" "(- n) mod d < d" by simp_all
  moreover have "(- n) div d * d + (- n) mod d = - n" by (rule div_mult_mod_eq)
  moreover have "(- ((- n) div d) - 1) * d = - ((- n) div d * d) - d" "- ((- n) div d) * d = - ((- n) div d * d)"
    by (simp_all add: left_diff_distrib)
  ultimately show ?thesis by linarith
qed

lemma chunkCount_Inr:
  "chunkCount len = Inr count \<longleftrightarrow> 0 \<le> len \<and> len \<le> MAX_SAFE_INTEGER \<and> count = max 1 (- ((- len) div CHUNK_SIZE))"
  by (auto simp: chunkCount_def isSafeInteger_def)

lemma chunkCount_bounds:
  assumes "chunkCount len = Inr count"
  shows "1 \<le> count" "len \<le> count * CHUNK_SIZE" "(count - 1) * CHUNK_SIZE \<le> len" "count \<noteq> 1 \<Longrightarrow> (count - 1) * CHUNK_SIZE < len"
    "count \<le> MAX_SAFE_INTEGER" "0 \<le> len"
proof -
  let ?c = "- ((- len) div CHUNK_SIZE)"
  from assms have l: "0 \<le> len" "len \<le> MAX_SAFE_INTEGER" "count = max 1 ?c" by (simp_all add: chunkCount_Inr)
  note d = ceil_div [OF chunk_pos(1), of len]
  show "1 \<le> count" "0 \<le> len" using l by simp_all
  have "?c * CHUNK_SIZE \<le> count * CHUNK_SIZE" using l(3) chunk_pos(1) by (intro mult_right_mono) simp_all
  then show "len \<le> count * CHUNK_SIZE" using d by linarith
  show 3: "count \<noteq> 1 \<Longrightarrow> (count - 1) * CHUNK_SIZE < len" using d l(3) by (auto simp: max_def split: if_splits)
  show "(count - 1) * CHUNK_SIZE \<le> len" using 3 l(1) by (cases "count = 1") auto
  have "(count - 1) * 1 \<le> (count - 1) * CHUNK_SIZE" using l(3) chunk_pos(1) by (intro mult_left_mono) simp_all
  with 3 l(2) show "count \<le> MAX_SAFE_INTEGER" by (cases "count = 1") (simp_all add: MAX_SAFE_INTEGER_def)
qed

lemma trailerLength_Inr:
  "trailerLength t = Inr n \<longleftrightarrow> 0 \<le> t \<and> t \<le> int THUMBNAIL_MAX_BYTES \<and> n = (if t > 0 then t + tag_bytes else 0)"
  by (auto simp: trailerLength_def isSafeInteger_def MAX_SAFE_INTEGER_def THUMBNAIL_MAX_BYTES_def)

lemma byteCount_Inr: "byteCount n what = Inr m \<longleftrightarrow> m = n \<and> 0 \<le> n \<and> n \<le> MAX_SAFE_INTEGER"
  by (auto simp: byteCount_def isSafeInteger_def)

lemma checkSuite_Inr: "checkSuite n = Inr m \<longleftrightarrow> m = n \<and> n \<in> {1, 2, 3}"
  by (auto simp: checkSuite_def drive_suites)

lemma padded_at_least: "paddedLength len = Inr out \<Longrightarrow> len \<le> out \<and> 256 \<le> out \<and> out \<le> MAX_SAFE_INTEGER"
  using rounded_up_bounds(1) [of len "padme_step len"]
  by (auto simp: paddedLength_Inr MAX_SAFE_INTEGER_def split: if_splits)

lemma contentLength_Inr:
  "contentLength csuite n t = Inr len \<longleftrightarrow> 0 \<le> n \<and> n \<le> MAX_SAFE_INTEGER \<and> csuite \<in> {1, 2, 3}
     \<and> (\<exists>trailer. trailerLength t = Inr trailer
        \<and> (if csuite < 3 then len = n else paddedLength (n + trailer) = Inr (len + trailer)))"
  by (auto simp: contentLength_def returns byteCount_Inr checkSuite_Inr CONTENT_SUITE_def split: if_splits)

lemma contentLength_covers: "contentLength csuite n t = Inr len \<Longrightarrow> n \<le> len"
  using padded_at_least by (fastforce simp: contentLength_Inr split: if_splits)

text \<open>Pieces of one length, and lists cut into them.\<close>

lemma concat_slices: "concat (map (\<lambda>i. take c (drop (i * c) xs)) [0..<m]) = take (m * c) xs"
proof (induction m)
  case (Suc m)
  have "take (Suc m * c) xs = take (m * c + c) xs" by (simp add: add.commute)
  with Suc show ?case by (simp only: take_add) simp
qed simp

lemma concat_drop:
  "i \<le> length parts \<Longrightarrow> (\<And>j. j < i \<Longrightarrow> length (parts ! j) = l) \<Longrightarrow> drop (i * l) (concat parts) = concat (drop i parts)"
proof (induction parts arbitrary: i)
  case (Cons p ps)
  then show ?case
  proof (cases i)
    case (Suc k)
    have "length p = l" using Cons.prems(2) [of 0] Suc by simp
    moreover have "drop (k * l) (concat ps) = concat (drop k ps)"
      using Cons.prems(1) Cons.prems(2) [of "Suc _"] Suc by (intro Cons.IH) auto
    ultimately show ?thesis using Suc by simp
  qed simp
qed simp

lemma concat_part:
  assumes "i < length parts" "\<And>j. j < i \<Longrightarrow> length (parts ! j) = l"
  shows "take (length (parts ! i)) (drop (i * l) (concat parts)) = parts ! i"
  using concat_drop [of i parts l] assms by (simp add: Cons_nth_drop_Suc [symmetric])

lemma concat_lengths:
  "(\<And>j. j < length parts - 1 \<Longrightarrow> length (parts ! j) = l) \<Longrightarrow> parts \<noteq> [] \<Longrightarrow>
     length (concat parts) = (length parts - 1) * l + length (last parts)"
proof (induction parts)
  case (Cons p ps)
  show ?case
  proof (cases "ps = []")
    case False
    have "length p = l" using Cons.prems(1) [of 0] False by simp
    moreover have "length (concat ps) = (length ps - 1) * l + length (last ps)"
      using Cons.prems(1) [of "Suc _"] False by (intro Cons.IH) auto
    moreover have "0 < length ps" using False by simp
    ultimately show ?thesis using False by (cases "length ps") (simp_all add: algebra_simps)
  qed simp
qed simp

section \<open>Lemmas: a file cut into parts\<close>

text \<open>The bytes an object's chunks cover: the file, then zeros up to its bucket.\<close>

definition covered :: "bytes \<Rightarrow> int \<Rightarrow> bytes" where
  "covered f len = f @ replicate (nat len - length f) 0"

definition slice :: "bytes \<Rightarrow> nat \<Rightarrow> bytes" where
  "slice xs i = take (nat CHUNK_SIZE) (drop (i * nat CHUNK_SIZE) xs)"

lemma covered_length: "int (length f) \<le> len \<Longrightarrow> int (length (covered f len)) = len"
  by (simp add: covered_def)

lemma slices_whole:
  assumes "chunkCount (int (length xs)) = Inr count"
  shows "concat (map (slice xs) [0..<nat count]) = xs"
proof -
  have "int (length xs) \<le> int (nat count) * int (nat CHUNK_SIZE)"
    using chunkCount_bounds(1,2) [OF assms] chunk_pos(2) by simp
  then have "length xs \<le> nat count * nat CHUNK_SIZE" unfolding of_nat_mult [symmetric] by (simp only: of_nat_le_iff)
  then show ?thesis unfolding slice_def concat_slices by simp
qed

lemma slice_length:
  assumes "chunkCount (int (length xs)) = Inr count" and "i < nat count"
  shows "chunkPlaintextLength (int (length xs)) (int i) = Inr (int (length (slice xs i)))"
proof -
  note b = chunkCount_bounds [OF assms(1)]
  have i: "int i < count" "isSafeInteger (int i)"
    using assms(2) b(5) by (auto simp: isSafeInteger_def MAX_SAFE_INTEGER_def)
  have at: "int (i * nat CHUNK_SIZE) = int i * CHUNK_SIZE" using chunk_pos(2) by simp
  show ?thesis
  proof (cases "int i < count - 1")
    case True
    then have "(int i + 1) * CHUNK_SIZE \<le> (count - 1) * CHUNK_SIZE"
      using chunk_pos(1) by (intro mult_right_mono) simp_all
    with b(3) have "int i * CHUNK_SIZE + CHUNK_SIZE \<le> int (length xs)" by (simp add: distrib_right)
    with at chunk_pos(2) have "i * nat CHUNK_SIZE + nat CHUNK_SIZE \<le> length xs" by linarith
    then show ?thesis using True i assms(1) chunk_pos(2) by (simp add: chunkPlaintextLength_def slice_def)
  next
    case False
    with i(1) have l: "int i = count - 1" by simp
    define k m where "k = i * nat CHUNK_SIZE" and "m = nat CHUNK_SIZE"
    have k: "int k = int i * CHUNK_SIZE" "int m = CHUNK_SIZE" using at chunk_pos(2) by (simp_all only: k_def m_def)
    have "int k \<le> int (length xs)" using b(3) by (simp only: k l)
    moreover have "int (length xs) \<le> int k + int m" using b(2) by (simp add: k l left_diff_distrib)
    ultimately have "length xs - i * nat CHUNK_SIZE \<le> nat CHUNK_SIZE" "i * nat CHUNK_SIZE \<le> length xs"
      unfolding k_def [symmetric] unfolding m_def [symmetric] by linarith+
    then show ?thesis using l i assms(1) at chunk_pos(1) by (simp add: chunkPlaintextLength_def slice_def of_nat_diff)
  qed
qed

lemma set_at_start: "length bs \<le> length target \<Longrightarrow> set_at target 0 bs = bs @ drop (length bs) target"
  by (simp add: set_at_def)

lemma slice_covered:
  assumes "int (length f) \<le> len"
  shows "slice (covered f len) i
    = take (nat CHUNK_SIZE) (drop (i * nat CHUNK_SIZE) f)
      @ replicate (length (slice (covered f len) i) - length (take (nat CHUNK_SIZE) (drop (i * nat CHUNK_SIZE) f))) 0"
proof -
  let ?a = "take (nat CHUNK_SIZE) (drop (i * nat CHUNK_SIZE) f)"
  have "slice (covered f len) i = ?a @ replicate (min (nat CHUNK_SIZE - (length f - i * nat CHUNK_SIZE))
      (nat len - length f - (i * nat CHUNK_SIZE - length f))) 0"
    by (simp add: slice_def covered_def)
  then show ?thesis by simp
qed

lemma set_at_twice: "at \<le> length target \<Longrightarrow> set_at (set_at target at bs) (at + length bs) bs' = set_at target at (bs @ bs')"
  by (simp add: set_at_def ac_simps)

lemma copy_parts_eq:
  assumes "finish \<le> offset + length (concat parts)" "finish - start \<le> length chunk"
  shows "copy_parts start finish offset parts chunk =
    (if max start offset < finish
     then set_at chunk (max start offset - start) (take (finish - max start offset) (drop (max start offset - offset) (concat parts)))
     else chunk)"
  using assms
proof (induction parts arbitrary: offset chunk)
  case Nil
  then show ?case by auto
next
  case (Cons p ps)
  let ?lo = "max start offset" and ?next = "offset + length p"
  show ?case
  proof (cases "finish \<le> ?next")
    case True
    then show ?thesis by (auto simp: Let_def min_def)
  next
    case False
    then have hi: "min finish ?next = ?next" by simp
    show ?thesis
    proof (cases "?lo < ?next")
      case True
      let ?X = "drop (?lo - offset) p" and ?at = "?lo - start"
      have x: "take (?next - ?lo) ?X = ?X" "?at + length ?X = ?next - start" "max start ?next = ?next"
        using True by auto
      have at: "?at \<le> length chunk" using Cons.prems(2) False True by auto
      have "length (set_at chunk ?at ?X) = max (length chunk) (?next - start)" using at x(2) True by (simp add: set_at_def)
      then have "copy_parts start finish ?next ps (set_at chunk ?at ?X)
          = set_at (set_at chunk ?at ?X) (?next - start) (take (finish - ?next) (concat ps))"
        using Cons.IH [of ?next "set_at chunk ?at ?X"] Cons.prems False x(3) by simp
      also have "\<dots> = set_at chunk ?at (?X @ take (finish - ?next) (concat ps))"
        using set_at_twice [OF at, of ?X] x(2) by simp
      also have "?X @ take (finish - ?next) (concat ps) = take (finish - ?lo) (drop (?lo - offset) (concat (p # ps)))"
        using True False by (simp add: add.commute)
      finally show ?thesis using True False x(1) by (simp add: Let_def)
    next
      case lo: False
      then have "max start ?next = ?lo" by arith
      then show ?thesis using Cons.IH [of ?next chunk] Cons.prems False lo by (auto simp: Let_def)
    qed
  qed
qed

lemma source_as_blob: "readChunk up (Source parts) index = readChunk up (Blob (concat parts)) index"
proof (cases "int (length (concat parts)) = upPlaintextSize up")
  case same: True
  show ?thesis
  proof (cases "chunkPlaintextLength (upContentLength up) index")
    case (Inr n)
    then have i: "0 \<le> index" by (auto simp: chunkPlaintextLength_def returns split: if_splits)
    let ?start = "index * CHUNK_SIZE"
    let ?finish = "min (upPlaintextSize up) (?start + n)"
    have s: "0 \<le> ?start" using i chunk_pos(1) by simp
    show ?thesis
    proof (cases "?finish \<le> ?start")
      case False
      then have f: "nat ?start < nat ?finish" "nat ?finish - nat ?start = nat (?finish - ?start)" using s by auto
      have "nat ?finish \<le> 0 + length (concat parts)" using same by simp
      moreover have "nat ?finish - nat ?start \<le> length (replicate (nat n) (0 :: byte))" using s by simp
      ultimately have "copy_parts (nat ?start) (nat ?finish) 0 parts (replicate (nat n) 0)
          = set_at (replicate (nat n) 0) 0 (take (nat (?finish - ?start)) (drop (nat ?start) (concat parts)))"
        unfolding f(2) [symmetric] by (subst copy_parts_eq) (use f(1) in simp_all)
      then show ?thesis using same Inr False by (simp add: readChunk_def Let_def length_concat)
    qed (use same Inr in \<open>simp add: readChunk_def Let_def length_concat\<close>)
  qed (use same in \<open>simp add: readChunk_def length_concat\<close>)
qed (simp add: readChunk_def length_concat)

lemma blob_chunk:
  assumes "upPlaintextSize up = int (length f)" "int (length f) \<le> upContentLength up"
    and "chunkCount (upContentLength up) = Inr count" "i < nat count"
  shows "readChunk up (Blob f) (int i) = Inr (slice (covered f (upContentLength up)) i)"
proof -
  let ?len = "upContentLength up"
  let ?sl = "slice (covered f ?len) i"
  let ?start = "int i * CHUNK_SIZE" and ?n = "int (length ?sl)"
  let ?a = "take (nat CHUNK_SIZE) (drop (i * nat CHUNK_SIZE) f)"
  have c: "int (length (covered f ?len)) = ?len" using assms(2) by (rule covered_length)
  have n: "chunkPlaintextLength ?len (int i) = Inr ?n" using slice_length [of "covered f ?len" count i] assms(3,4) c by simp
  have at: "nat ?start = i * nat CHUNK_SIZE" by (simp add: nat_mult_distrib)
  have sl: "?sl = ?a @ replicate (length ?sl - length ?a) 0" using assms(2) by (rule slice_covered)
  have "length f \<le> length (covered f ?len)" by (simp add: covered_def)
  then have le: "length ?a \<le> length ?sl" "length ?sl \<le> nat CHUNK_SIZE"
    by (simp_all add: slice_def)
  have s0: "0 \<le> ?start" using chunk_pos(1) by simp
  show ?thesis
  proof (cases "min (int (length f)) (?start + ?n) \<le> ?start")
    case True
    then have "int (length f) \<le> ?start \<or> length ?sl = 0" by linarith
    then have "?a = []" using at le(1) by auto
    with sl have "?sl = replicate (length ?sl) 0" by simp
    then show ?thesis using True n assms(1) by (simp add: readChunk_def Let_def)
  next
    case False
    have "take (nat (min (int (length f)) (?start + ?n) - ?start)) (drop (nat ?start) f) = take (length ?sl) (drop (i * nat CHUNK_SIZE) f)"
      unfolding at using False at s0 by (auto simp: min_def nat_diff_distrib nat_add_distrib)
    also have "\<dots> = ?a" using le by (cases "length (drop (i * nat CHUNK_SIZE) f) \<le> nat CHUNK_SIZE") auto
    finally have "set_at (replicate (length ?sl) 0) 0 (take (nat (min (int (length f)) (?start + ?n) - ?start)) (drop (nat ?start) f)) = ?sl"
      using le(1) by (subst (2) sl) (simp add: set_at_def)
    then show ?thesis using False n assms(1) by (simp add: readChunk_def Let_def)
  qed
qed

section \<open>Lemmas: an upload's parts\<close>

lemma big_endian_length [simp]: "length (big_endian n v) = n"
  by (induction n arbitrary: v) simp_all

lemma chunkNonce_24: "chunkNonce contentNonce index = Inr nn \<Longrightarrow> length nn = 24"
  by (auto simp: chunkNonce_def CONTENT_NONCE_BYTES_def split: if_splits)

definition trailer_of :: "upload \<Rightarrow> bytes" where
  "trailer_of up = (case upThumbnail up of None \<Rightarrow> [] | Some t \<Rightarrow> t)"

text \<open>What a prepared upload says of its layout.\<close>

definition laid_out :: "upload \<Rightarrow> bool" where
  "laid_out up \<longleftrightarrow> contentLength CONTENT_SUITE (upPlaintextSize up) (upThumbnailBytes up) = Inr (upContentLength up)
     \<and> chunkCount (upContentLength up) = Inr (upChunkCount up)
     \<and> trailerLength (upThumbnailBytes up) = Inr (int (length (trailer_of up)))"

lemma encryptThumbnail_length:
  assumes "encryptThumbnail S D webp key contentNonce ctx = Inr t" "aead_correct S" "\<And>k. length (crypto_kdf_derive_from_key D 32 1 k key) = 32"
  shows "length t = length webp + 16 \<and> webp \<noteq> [] \<and> length webp \<le> THUMBNAIL_MAX_BYTES"
  using assms by (auto simp: encryptThumbnail_def thumbnailKey_def trailer_nonce_def returns aead_correct_def KEY_BYTES_def
      dest!: chunkNonce_24 split: if_splits)

lemma prepared:
  assumes "prepare_upload S D key contentNonce wsId objectId n given = Inr up" "aead_correct S"
    and "\<And>k. length (crypto_kdf_derive_from_key D 32 1 k key) = 32"
  shows "laid_out up" "upWorkspaceId up = wsId" "upContentKey up = key" "upContentNonce up = contentNonce" "upPlaintextSize up = n"
proof -
  let ?webp = "case given of None \<Rightarrow> None | Some b \<Rightarrow> if b \<noteq> [] \<and> length b \<le> THUMBNAIL_MAX_BYTES then Some b else None"
  show "upWorkspaceId up = wsId" "upContentKey up = key" "upContentNonce up = contentNonce" "upPlaintextSize up = n"
    using assms(1) by (auto simp: prepare_upload_def Let_def returns)
  show "laid_out up"
  proof (cases ?webp)
    case None
    with assms(1) show ?thesis
      by (auto simp: prepare_upload_def Let_def returns laid_out_def trailer_of_def trailerLength_Inr)
  next
    case (Some b)
    from assms(1) [unfolded prepare_upload_def Let_def Some] obtain t where
      t: "encryptThumbnail S D b key contentNonce \<lparr> tcWorkspaceId = wsId, tcObjectId = objectId,
            tcSuite = CONTENT_SUITE, tcPlaintextSize = n, tcThumbnailBytes = 0 \<rparr> = Inr t"
      and up: "upThumbnail up = Some t" "upThumbnailBytes up = int (length b)" "upPlaintextSize up = n"
        "contentLength CONTENT_SUITE n (int (length b)) = Inr (upContentLength up)"
        "chunkCount (upContentLength up) = Inr (upChunkCount up)"
      by (auto simp: returns)
    from encryptThumbnail_length [OF t assms(2,3)] up show ?thesis
      by (simp add: laid_out_def trailer_of_def trailerLength_Inr CHUNK_TAG_BYTES_def)
  qed
qed

definition chunk_aad :: "upload \<Rightarrow> string \<Rightarrow> nat \<Rightarrow> bytes" where
  "chunk_aad up objectId i = projr (chunkContext (upload_chunk_context up objectId (int i)))"

definition chunk_nonce :: "upload \<Rightarrow> nat \<Rightarrow> bytes" where
  "chunk_nonce up i = projr (chunkNonce (upContentNonce up) (int i))"

definition sealed_chunk :: "seal_primitives \<Rightarrow> upload \<Rightarrow> string \<Rightarrow> bytes \<Rightarrow> nat \<Rightarrow> bytes" where
  "sealed_chunk S up objectId f i =
     aead_encrypt S (slice (covered f (upContentLength up)) i) (chunk_aad up objectId i) (chunk_nonce up i) (upContentKey up)"

definition part_of :: "seal_primitives \<Rightarrow> upload \<Rightarrow> string \<Rightarrow> bytes \<Rightarrow> nat \<Rightarrow> bytes" where
  "part_of S up objectId f i = sealed_chunk S up objectId f i @ (if int i = upChunkCount up - 1 then trailer_of up else [])"

definition upload_for :: "seal_primitives \<Rightarrow> upload \<Rightarrow> string \<Rightarrow> bytes \<Rightarrow> bool" where
  "upload_for S up objectId f \<longleftrightarrow> laid_out up \<and> aead_correct S \<and> upPlaintextSize up = int (length f)
     \<and> is_uuid (upWorkspaceId up) \<and> is_uuid objectId \<and> length (upContentNonce up) = 16 \<and> length (upContentKey up) = 32"

lemma contexts_build:
  assumes "upload_for S up objectId f"
  shows "chunkContext (upload_chunk_context up objectId (int i)) = Inr (chunk_aad up objectId i)"
    "chunkNonce (upContentNonce up) (int i) = Inr (chunk_nonce up i)" "length (chunk_nonce up i) = 24"
  using assms by (simp_all add: upload_for_def chunk_aad_def chunk_nonce_def chunkContext_def upload_chunk_context_def
      checkSuite_def drive_suites drive_id_def chunkNonce_def CONTENT_NONCE_BYTES_def)

lemma layout:
  assumes "upload_for S up objectId f"
  shows "int (length f) \<le> upContentLength up" "chunkCount (upContentLength up) = Inr (upChunkCount up)"
    "int (length (covered f (upContentLength up))) = upContentLength up"
    "checkChunkContext (upload_chunk_context up objectId (int i)) = Inr (upContentLength up)"
proof -
  from assms have c: "contentLength CONTENT_SUITE (int (length f)) (upThumbnailBytes up) = Inr (upContentLength up)"
    "chunkCount (upContentLength up) = Inr (upChunkCount up)" "upPlaintextSize up = int (length f)"
    unfolding upload_for_def laid_out_def by metis+
  from contentLength_covers [OF c(1)] show le: "int (length f) \<le> upContentLength up" .
  from c(2) show "chunkCount (upContentLength up) = Inr (upChunkCount up)" .
  from covered_length [OF le] show "int (length (covered f (upContentLength up))) = upContentLength up" .
  show "checkChunkContext (upload_chunk_context up objectId (int i)) = Inr (upContentLength up)"
    using c by (simp add: checkChunkContext_def upload_chunk_context_def)
qed

lemma upload_part_ok:
  assumes u: "upload_for S up objectId f" and i: "i < nat (upChunkCount up)"
  shows "upload_part S up objectId (Blob f) (int i) = Inr (part_of S up objectId f i)"
    "length (sealed_chunk S up objectId f i) = length (slice (covered f (upContentLength up)) i) + 16"
    "chunkPlaintextLength (upContentLength up) (int i) = Inr (int (length (slice (covered f (upContentLength up)) i)))"
proof -
  note l = layout [OF u] and x = contexts_build [OF u]
  from slice_length [of "covered f (upContentLength up)" "upChunkCount up" i] l(2,3) i
  show p: "chunkPlaintextLength (upContentLength up) (int i) = Inr (int (length (slice (covered f (upContentLength up)) i)))" by simp
  have r: "readChunk up (Blob f) (int i) = Inr (slice (covered f (upContentLength up)) i)"
    using u l(1,2) i by (intro blob_chunk) (auto simp: upload_for_def)
  have e: "encryptChunk S (slice (covered f (upContentLength up)) i) (upContentKey up) (upContentNonce up)
      (upload_chunk_context up objectId (int i)) = Inr (sealed_chunk S up objectId f i)"
    using l(4) [of i] p x by (simp add: encryptChunk_def sealed_chunk_def) (simp add: upload_chunk_context_def)
  show "upload_part S up objectId (Blob f) (int i) = Inr (part_of S up objectId f i)"
    by (simp add: upload_part_def r e part_of_def trailer_of_def split: option.splits)
  show "length (sealed_chunk S up objectId f i) = length (slice (covered f (upContentLength up)) i) + 16"
    using u x(3) by (simp add: upload_for_def aead_correct_def sealed_chunk_def)
qed


lemma part_lengths:
  assumes u: "upload_for S up objectId f" and i: "i < nat (upChunkCount up)"
  shows "int i < upChunkCount up - 1 \<Longrightarrow> length (part_of S up objectId f i) = nat (CHUNK_SIZE + tag_bytes)"
    "int i = upChunkCount up - 1 \<Longrightarrow> int (length (part_of S up objectId f i))
       = upContentLength up - int i * CHUNK_SIZE + tag_bytes + int (length (trailer_of up))"
  using upload_part_ok(2,3) [OF u i] layout(2) [OF u] chunk_pos(1)
  by (auto simp: part_of_def chunkPlaintextLength_def returns CHUNK_TAG_BYTES_def nat_add_distrib split: if_splits)

definition object_of :: "seal_primitives \<Rightarrow> upload \<Rightarrow> string \<Rightarrow> bytes \<Rightarrow> bytes" where
  "object_of S up objectId f = concat (map (part_of S up objectId f) [0..<nat (upChunkCount up)])"

lemma count_pos: "upload_for S up objectId f \<Longrightarrow> 1 \<le> upChunkCount up"
  using chunkCount_bounds(1) layout(2) by blast

lemma object_length:
  assumes "upload_for S up objectId f"
  shows "int (length (object_of S up objectId f))
      = upContentLength up + tag_bytes * upChunkCount up + int (length (trailer_of up))"
    "ciphertextSize CONTENT_SUITE (int (length f)) (upThumbnailBytes up) = Inr (int (length (object_of S up objectId f)))"
proof -
  let ?parts = "map (part_of S up objectId f) [0..<nat (upChunkCount up)]"
  let ?l = "nat (CHUNK_SIZE + tag_bytes)"
  obtain m where m: "upChunkCount up = int m + 1" 
    using count_pos [OF assms] zero_le_imp_eq_int [of "upChunkCount up - 1"] by (metis diff_add_cancel diff_ge_0_iff_ge)
  then have n: "nat (upChunkCount up) = Suc m" by simp
  have "length (concat ?parts) = (length ?parts - 1) * ?l + length (last ?parts)"
    using part_lengths(1) [OF assms] m by (intro concat_lengths) auto
  then have "int (length (object_of S up objectId f)) = int m * int ?l + int (length (part_of S up objectId f m))"
    unfolding object_of_def n by (simp add: last_map)
  moreover have "int ?l = CHUNK_SIZE + tag_bytes" using chunk_pos(1) by simp
  moreover have "int (length (part_of S up objectId f m))
      = upContentLength up - int m * CHUNK_SIZE + tag_bytes + int (length (trailer_of up))"
    by (rule part_lengths(2) [OF assms]) (simp_all add: m)
  ultimately show 1: "int (length (object_of S up objectId f))
      = upContentLength up + tag_bytes * upChunkCount up + int (length (trailer_of up))"
    unfolding m by (simp add: algebra_simps)
  have "contentLength CONTENT_SUITE (int (length f)) (upThumbnailBytes up) = Inr (upContentLength up)"
    "trailerLength (upThumbnailBytes up) = Inr (int (length (trailer_of up)))"
    using assms unfolding upload_for_def laid_out_def by metis+
  then show "ciphertextSize CONTENT_SUITE (int (length f)) (upThumbnailBytes up) = Inr (int (length (object_of S up objectId f)))"
    using layout(2) [OF assms] unfolding 1 by (simp add: ciphertextSize_def)
qed

text \<open>What a store that holds the object answers a range request with.\<close>

definition stored :: "bytes \<Rightarrow> range \<Rightarrow> bytes" where
  "stored obj r = take (nat (rangeEnd r - rangeStart r + 1)) (drop (nat (rangeStart r)) obj)"

definition store :: "bytes \<Rightarrow> range \<Rightarrow> fetched" where
  "store obj r = Answered 206 (Some (stored obj r))"

lemma stored_part:
  assumes u: "upload_for S up objectId f" and i: "i < nat (upChunkCount up)"
  obtains r where "chunkRange CONTENT_SUITE (int (length f)) (upThumbnailBytes up) (int i) = Inr r"
    "stored (object_of S up objectId f) r = part_of S up objectId f i"
    "rangeEnd r - rangeStart r + 1 = int (length (part_of S up objectId f i))"
proof -
  let ?parts = "map (part_of S up objectId f) [0..<nat (upChunkCount up)]"
  let ?l = "nat (CHUNK_SIZE + tag_bytes)"
  have c: "contentLength CONTENT_SUITE (int (length f)) (upThumbnailBytes up) = Inr (upContentLength up)"
    using u unfolding upload_for_def laid_out_def by metis
  have at: "nat (int i * (CHUNK_SIZE + tag_bytes)) = i * ?l" using chunk_pos(1) by (simp add: nat_mult_distrib)
  have part: "take (length (part_of S up objectId f i)) (drop (i * ?l) (object_of S up objectId f)) = part_of S up objectId f i"
    using concat_part [of i ?parts ?l] i part_lengths(1) [OF u] by (auto simp: object_of_def)
  have l: "int (length (part_of S up objectId f i)) = (if int i = upChunkCount up - 1
      then int (length (object_of S up objectId f)) - int i * (CHUNK_SIZE + tag_bytes) else CHUNK_SIZE + tag_bytes)"
  proof (cases "int i = upChunkCount up - 1")
    case True
    then have "upChunkCount up = int i + 1" by simp
    then show ?thesis using part_lengths(2) [OF u i] object_length(1) [OF u] by (simp add: algebra_simps)
  next
    case False
    then show ?thesis using part_lengths(1) [OF u i] i chunk_pos(1) by simp
  qed
  let ?r = "\<lparr> rangeStart = int i * (CHUNK_SIZE + tag_bytes),
     rangeEnd = int i * (CHUNK_SIZE + tag_bytes) + int (length (part_of S up objectId f i)) - 1 \<rparr>"
  have "chunkRange CONTENT_SUITE (int (length f)) (upThumbnailBytes up) (int i) = Inr ?r"
  proof (cases "int i = upChunkCount up - 1")
    case True
    then show ?thesis using c layout(2) [OF u] object_length(2) [OF u] l by (simp add: chunkRange_def Let_def)
  next
    case False
    then have "chunkPlaintextLength (upContentLength up) (int i) = Inr CHUNK_SIZE"
      using upload_part_ok(3) [OF u i] layout(2) [OF u] by (auto simp: chunkPlaintextLength_def split: if_splits)
    then show ?thesis using c layout(2) [OF u] False l by (simp add: chunkRange_def chunkCiphertextLength_def Let_def)
  qed
  moreover have "stored (object_of S up objectId f) ?r = part_of S up objectId f i"
    using part at by (simp add: stored_def)
  moreover have "rangeEnd ?r - rangeStart ?r + 1 = int (length (part_of S up objectId f i))" by simp
  ultimately show thesis by (rule that)
qed

definition opened_as :: "upload \<Rightarrow> string \<Rightarrow> download \<Rightarrow> bool" where
  "opened_as up objectId dl \<longleftrightarrow> open_download (upWorkspaceId up) objectId CONTENT_SUITE (upContentKey up)
     (upContentNonce up) (upPlaintextSize up) (upThumbnailBytes up) = Inr dl"

lemma opened_fields:
  assumes "opened_as up objectId dl" "upload_for S up objectId f"
  shows "dl = \<lparr> dlWorkspaceId = upWorkspaceId up, dlObjectId = objectId, dlSuite = CONTENT_SUITE,
    dlContentKey = upContentKey up, dlContentNonce = upContentNonce up, dlPlaintextSize = int (length f),
    dlThumbnailBytes = upThumbnailBytes up, dlChunkCount = upChunkCount up \<rparr>"
proof -
  have c: "contentLength CONTENT_SUITE (int (length f)) (upThumbnailBytes up) = Inr (upContentLength up)"
    "upPlaintextSize up = int (length f)" using assms(2) unfolding upload_for_def laid_out_def by metis+
  then show ?thesis using assms(1) layout(2) [OF assms(2)] by (auto simp: opened_as_def open_download_def)
qed

lemma opens: "upload_for S up objectId f \<Longrightarrow> \<exists>dl. opened_as up objectId dl"
  using layout(2) [of S up objectId f] by (auto simp: upload_for_def laid_out_def opened_as_def open_download_def)

lemma file_bytes:
  assumes "sl = take (nat CHUNK_SIZE) (drop (i * nat CHUNK_SIZE) f) @ z" "length sl \<le> nat CHUNK_SIZE"
  shows "fileBytesOf sl (int (length f)) (int i) = take (nat CHUNK_SIZE) (drop (i * nat CHUNK_SIZE) f)"
proof -
  define k c where "k = i * nat CHUNK_SIZE" and "c = nat CHUNK_SIZE"
  have at: "int i * CHUNK_SIZE = int k" using chunk_pos(2) by (simp add: k_def)
  have "nat (max 0 (min (int (length sl)) (int (length f) - int k))) = min (length sl) (length f - k)" by linarith
  also have "\<dots> = length (take c (drop k f))" using assms unfolding k_def [symmetric] unfolding c_def [symmetric] by auto
  finally show ?thesis using assms(1) unfolding fileBytesOf_def Let_def at k_def [symmetric] unfolding c_def [symmetric] by (auto simp: min_def)
qed

lemma downloaded_chunk:
  assumes u: "upload_for S up objectId f" and i: "i < nat (upChunkCount up)" and d: "opened_as up objectId dl"
  shows "download_chunk S dl (store (object_of S up objectId f)) (int i)
    = Inr (Taken (take (nat CHUNK_SIZE) (drop (i * nat CHUNK_SIZE) f)))"
proof -
  let ?sl = "slice (covered f (upContentLength up)) i"
  let ?ctx = "upload_chunk_context up objectId (int i)"
  note dl = opened_fields [OF d u]
  from stored_part [OF u i] obtain r where r: "chunkRange CONTENT_SUITE (int (length f)) (upThumbnailBytes up) (int i) = Inr r"
    "stored (object_of S up objectId f) r = part_of S up objectId f i"
    "rangeEnd r - rangeStart r + 1 = int (length (part_of S up objectId f i))" .
  note p = upload_part_ok(2,3) [OF u i] and x = contexts_build [OF u] and l = layout(4) [OF u, of i]
  have t: "take (length ?sl + 16) (part_of S up objectId f i) = sealed_chunk S up objectId f i"
    using p(1) by (simp add: part_of_def)
  have "aead_decrypt S (sealed_chunk S up objectId f i) (chunk_aad up objectId i) (chunk_nonce up i) (upContentKey up) = Some ?sl"
    using u x(3) [of i] by (simp add: upload_for_def aead_correct_def sealed_chunk_def)
  moreover have "bindE (checkChunkContext ?ctx) (\<lambda>len. chunkCiphertextLength len (int i)) = Inr (int (length ?sl) + tag_bytes)"
    using l p(2) by (simp add: chunkCiphertextLength_def)
  moreover have "\<not> (if int i = upChunkCount up - 1 then int (length (part_of S up objectId f i)) < int (length ?sl) + tag_bytes
      else int (length (part_of S up objectId f i)) \<noteq> int (length ?sl) + tag_bytes)"
    using p(1) by (simp add: part_of_def CHUNK_TAG_BYTES_def)
  moreover have "nat (int (length ?sl) + tag_bytes) = length ?sl + 16" by (simp add: CHUNK_TAG_BYTES_def)
  ultimately have dc: "decryptChunk S (part_of S up objectId f i) (upContentKey up) (upContentNonce up) ?ctx = Inr ?sl"
    using t x(1,2) [of i] by (simp add: decryptChunk_def upload_chunk_context_def)
  have s: "?sl = take (nat CHUNK_SIZE) (drop (i * nat CHUNK_SIZE) f)
      @ replicate (length ?sl - length (take (nat CHUNK_SIZE) (drop (i * nat CHUNK_SIZE) f))) 0"
    using layout(1) [OF u] by (rule slice_covered)
  from s have "fileBytesOf ?sl (int (length f)) (int i) = take (nat CHUNK_SIZE) (drop (i * nat CHUNK_SIZE) f)"
    by (rule file_bytes) (simp add: slice_def)
  moreover have "upPlaintextSize up = int (length f)" using u by (simp add: upload_for_def)
  ultimately show ?thesis using r dc unfolding dl by (simp add: download_chunk_def store_def Let_def upload_chunk_context_def)
qed

lemma ends_in: "length t \<le> k \<Longrightarrow> k \<le> length obj \<Longrightarrow> drop (length obj - length t) obj = t \<Longrightarrow>
    drop (k - length t) (drop (length obj - k) obj) = t"
  by (simp add: add.commute)

lemma object_ends:
  assumes "upload_for S up objectId f"
  shows "drop (length (object_of S up objectId f) - length (trailer_of up)) (object_of S up objectId f) = trailer_of up"
proof -
  obtain m where m: "upChunkCount up = int m + 1"
    using count_pos [OF assms] zero_le_imp_eq_int [of "upChunkCount up - 1"] by (metis diff_add_cancel diff_ge_0_iff_ge)
  then have "nat (upChunkCount up) = Suc m" by simp
  then obtain pre where "object_of S up objectId f = pre @ trailer_of up"
    using m by (simp add: object_of_def part_of_def)
  then show ?thesis by simp
qed

lemma thumbnail_window:
  assumes u: "upload_for S up objectId f" and t: "1 \<le> upThumbnailBytes up"
  obtains r where "thumbnailRange CONTENT_SUITE (int (length f)) (upThumbnailBytes up) = Inr r"
    "length (trailer_of up) \<le> length (stored (object_of S up objectId f) r)"
    "drop (length (stored (object_of S up objectId f) r) - length (trailer_of up)) (stored (object_of S up objectId f) r) = trailer_of up"
proof -
  let ?obj = "object_of S up objectId f" and ?most = "int THUMBNAIL_MAX_BYTES + tag_bytes"
  let ?k = "min (length ?obj) (THUMBNAIL_MAX_BYTES + 16)"
  let ?r = "\<lparr> rangeStart = max 0 (int (length ?obj) - ?most), rangeEnd = int (length ?obj) - 1 \<rparr>"
  have tl: "trailerLength (int THUMBNAIL_MAX_BYTES) = Inr ?most"
    by (simp add: trailerLength_Inr THUMBNAIL_MAX_BYTES_def)
  have "trailerLength (upThumbnailBytes up) = Inr (int (length (trailer_of up)))"
    using u unfolding upload_for_def laid_out_def by metis
  then have "length (trailer_of up) \<le> THUMBNAIL_MAX_BYTES + 16"
    by (auto simp: trailerLength_Inr CHUNK_TAG_BYTES_def split: if_splits)
  moreover have "int (length (trailer_of up)) \<le> int (length ?obj)"
    using object_length(1) [OF u] count_pos [OF u] layout(1) [OF u] by (simp add: CHUNK_TAG_BYTES_def)
  ultimately have k: "length (trailer_of up) \<le> ?k" by simp
  have at: "nat (rangeStart ?r) = length ?obj - ?k" by (simp add: CHUNK_TAG_BYTES_def)
  have most: "length ?obj - (length ?obj - ?k) \<le> nat (rangeEnd ?r - rangeStart ?r + 1)" by (simp add: CHUNK_TAG_BYTES_def)
  have s: "stored ?obj ?r = drop (length ?obj - ?k) ?obj"
    unfolding stored_def at by (rule take_all) (use most in simp)
  have "thumbnailRange CONTENT_SUITE (int (length f)) (upThumbnailBytes up) = Inr ?r"
    using t object_length(2) [OF u] tl by (simp add: thumbnailRange_def)
  moreover have "length (trailer_of up) \<le> length (stored ?obj ?r)" using k by (simp add: s)
  moreover have "drop (length (stored ?obj ?r) - length (trailer_of up)) (stored ?obj ?r) = trailer_of up"
    using ends_in [OF k _ object_ends [OF u]] unfolding s by simp
  ultimately show thesis by (rule that)
qed

lemma prepared_thumbnail:
  assumes "prepare_upload S D key contentNonce wsId objectId n (Some webp) = Inr up" "webp \<noteq> []" "length webp \<le> THUMBNAIL_MAX_BYTES"
  obtains t where "encryptThumbnail S D webp key contentNonce \<lparr> tcWorkspaceId = wsId, tcObjectId = objectId,
      tcSuite = CONTENT_SUITE, tcPlaintextSize = n, tcThumbnailBytes = 0 \<rparr> = Inr t" "trailer_of up = t"
    "upThumbnailBytes up = int (length webp)"
  using assms by (auto simp: prepare_upload_def Let_def returns trailer_of_def)

lemma thumbnail_opens:
  assumes e: "encryptThumbnail S D webp key contentNonce ctx = Inr t" and "aead_correct S"
    and "\<And>c. length (crypto_kdf_derive_from_key D 32 1 c key) = 32"
    and "length t \<le> length fetched" "drop (length fetched - length t) fetched = t"
  shows "decryptThumbnail S D fetched key contentNonce (ctx\<lparr> tcThumbnailBytes := int (length webp) \<rparr>) = Inr webp"
proof -
  have l: "length t = length webp + 16" "webp \<noteq> []" "length webp \<le> THUMBNAIL_MAX_BYTES"
    using encryptThumbnail_length [OF e assms(2,3)] by simp_all
  from e l obtain aad nn where x: "thumbnailKey D key = Inr (crypto_kdf_derive_from_key D 32 1 ''hushthmb'' key)"
    "thumbnailContext (ctx\<lparr> tcThumbnailBytes := int (length webp) \<rparr>) = Inr aad"
    "trailer_nonce contentNonce (tcSuite ctx) (tcPlaintextSize ctx) (int (length webp)) = Inr nn"
    "t = aead_encrypt S webp aad nn (crypto_kdf_derive_from_key D 32 1 ''hushthmb'' key)"
    by (auto simp: encryptThumbnail_def thumbnailKey_def KEY_BYTES_def returns split: if_splits)
  have nn: "length nn = 24" using x(3) by (auto simp: trailer_nonce_def returns dest!: chunkNonce_24)
  have tl: "trailerLength (int (length webp)) = Inr (int (length t))" using l by (simp add: trailerLength_Inr CHUNK_TAG_BYTES_def)
  have "aead_decrypt S t aad nn (crypto_kdf_derive_from_key D 32 1 ''hushthmb'' key) = Some webp"
    using assms(2,3) nn by (simp add: x(4) aead_correct_def)
  then show ?thesis using l(2) tl x(1-3) assms(4,5) by (simp add: decryptThumbnail_def)
qed

section \<open>Properties\<close>

text \<open>C36. A length is rounded up to a bucket that costs less than the length over 2^S, S the number of binary
  digits of its logarithm; buckets stay where they are, keep the order of lengths, and begin at 256.\<close>

theorem padme_buckets:
  assumes "paddedLength len = Inr bucket"
  shows "len \<le> bucket \<and> 256 \<le> bucket \<and> paddedLength bucket = Inr bucket
    \<and> (256 < len \<longrightarrow> (bucket - len) * 2 ^ binary_digits (binary_digits (nat len) - 1) < len)
    \<and> (\<forall>shorter b. paddedLength shorter = Inr b \<and> shorter \<le> len \<longrightarrow> b \<le> bucket)"
proof -
  have s: "bucket \<le> MAX_SAFE_INTEGER" "len \<le> bucket" "256 \<le> bucket" using padded_at_least [OF assms] by simp_all
  moreover have "paddedLength bucket = Inr bucket"
  proof (cases "len \<le> 256")
    case True
    with assms have "bucket = 256" by (simp add: paddedLength_Inr)
    then show ?thesis by (simp add: paddedLength_Inr MAX_SAFE_INTEGER_def)
  next
    case False
    with assms have b: "bucket = rounded_up len (padme_step len)" by (simp add: paddedLength_Inr)
    with padded_again [of len] False s show ?thesis by (simp add: paddedLength_Inr)
  qed
  moreover have "(bucket - len) * 2 ^ binary_digits (binary_digits (nat len) - 1) < len" if "256 < len"
    using padded_overhead [OF that] assms that by (simp add: paddedLength_Inr exponent_of_def)
  moreover have "b \<le> bucket" if p: "paddedLength shorter = Inr b" "shorter \<le> len" for shorter b
  proof (cases "shorter \<le> 256")
    case True
    with p s show ?thesis by (simp add: paddedLength_Inr)
  next
    case False
    with p assms padded_ordered [of shorter len] show ?thesis by (simp add: paddedLength_Inr)
  qed
  ultimately show ?thesis by blast
qed

text \<open>What a reader fetches of a stored object says its padded bucket and the number of its chunks, and
  nothing more of the file's size: two files that agree on them are fetched by the same ranges.\<close>

theorem ranges_say_only_the_bucket:
  assumes "contentLength CONTENT_SUITE n t = Inr len" "contentLength CONTENT_SUITE n' t' = Inr len'"
    and "trailerLength t = Inr trailer" "trailerLength t' = Inr trailer'"
    and "len + trailer = len' + trailer'" "chunkCount len = chunkCount len'"
  shows "ciphertextSize CONTENT_SUITE n t = ciphertextSize CONTENT_SUITE n' t'
    \<and> chunkRange CONTENT_SUITE n t index = chunkRange CONTENT_SUITE n' t' index
    \<and> (1 \<le> t \<and> 1 \<le> t' \<longrightarrow> thumbnailRange CONTENT_SUITE n t = thumbnailRange CONTENT_SUITE n' t')"
proof -
  have c: "ciphertextSize CONTENT_SUITE n t = ciphertextSize CONTENT_SUITE n' t'"
    using assms by (cases "chunkCount len'") (simp_all add: ciphertextSize_def)
  moreover have "chunkRange CONTENT_SUITE n t index = chunkRange CONTENT_SUITE n' t' index"
  proof (cases "chunkCount len'")
    case (Inr count)
    then have "chunkPlaintextLength len index = chunkPlaintextLength len' index" if "index \<noteq> count - 1"
      using that assms(6) by (auto simp: chunkPlaintextLength_def)
    with Inr c assms show ?thesis by (simp add: chunkRange_def chunkCiphertextLength_def Let_def)
  qed (use assms in \<open>simp add: chunkRange_def\<close>)
  ultimately show ?thesis by (auto simp: thumbnailRange_def)
qed

text \<open>C12. A file uploaded part by part and read back range by range is the file, and its thumbnail the
  thumbnail.\<close>

theorem uploaded_file_reads_back:
  assumes "prepare_upload S D key contentNonce wsId objectId (int (length f)) given = Inr up"
    and "aead_correct S" and "\<And>c. length (crypto_kdf_derive_from_key D 32 1 c key) = 32"
    and "length key = 32" "length contentNonce = 16" "is_uuid wsId" "is_uuid objectId"
  shows "\<exists>parts dl pieces.
      mapE (\<lambda>i. upload_part S up objectId (Blob f) (int i)) [0..<nat (upChunkCount up)] = Inr parts
    \<and> open_download wsId objectId CONTENT_SUITE key contentNonce (int (length f)) (upThumbnailBytes up) = Inr dl
    \<and> mapE (\<lambda>i. download_chunk S dl (store (concat parts)) (int i)) [0..<nat (dlChunkCount dl)] = Inr (map Taken pieces)
    \<and> concat pieces = f
    \<and> (\<forall>webp. given = Some webp \<and> webp \<noteq> [] \<and> length webp \<le> THUMBNAIL_MAX_BYTES \<longrightarrow>
        (\<exists>r. thumbnailRange CONTENT_SUITE (int (length f)) (int (length webp)) = Inr r
          \<and> decryptThumbnail S D (stored (concat parts) r) key contentNonce \<lparr> tcWorkspaceId = wsId,
              tcObjectId = objectId, tcSuite = CONTENT_SUITE, tcPlaintextSize = int (length f),
              tcThumbnailBytes = int (length webp) \<rparr> = Inr webp))"
proof -
  note p = prepared [OF assms(1,2,3)]
  have u: "upload_for S up objectId f" using p assms by (simp add: upload_for_def)
  obtain dl where dl: "opened_as up objectId dl" using opens [OF u] ..
  let ?m = "nat (upChunkCount up)"
  have "mapE (\<lambda>i. upload_part S up objectId (Blob f) (int i)) [0..<?m] = Inr (map (part_of S up objectId f) [0..<?m])"
    by (rule mapE_map) (simp add: upload_part_ok(1) [OF u])
  moreover have "open_download wsId objectId CONTENT_SUITE key contentNonce (int (length f)) (upThumbnailBytes up) = Inr dl"
    using dl p by (simp add: opened_as_def)
  moreover have "dlChunkCount dl = upChunkCount up" using opened_fields [OF dl u] by simp
  moreover have "mapE (\<lambda>i. download_chunk S dl (store (object_of S up objectId f)) (int i)) [0..<?m]
      = Inr (map Taken (map (\<lambda>i. take (nat CHUNK_SIZE) (drop (i * nat CHUNK_SIZE) f)) [0..<?m]))"
    unfolding map_map comp_def by (rule mapE_map) (simp add: downloaded_chunk [OF u _ dl])
  moreover have "concat (map (\<lambda>i. take (nat CHUNK_SIZE) (drop (i * nat CHUNK_SIZE) f)) [0..<?m]) = f"
  proof -
    have "int (length f) \<le> int ?m * int (nat CHUNK_SIZE)"
      using layout(1) [OF u] chunkCount_bounds(1,2) [OF layout(2) [OF u]] chunk_pos(2) by simp
    then have "length f \<le> ?m * nat CHUNK_SIZE" unfolding of_nat_mult [symmetric] by (simp only: of_nat_le_iff)
    then show ?thesis unfolding concat_slices by simp
  qed
  moreover have "\<exists>r. thumbnailRange CONTENT_SUITE (int (length f)) (int (length webp)) = Inr r
      \<and> decryptThumbnail S D (stored (object_of S up objectId f) r) key contentNonce \<lparr> tcWorkspaceId = wsId,
          tcObjectId = objectId, tcSuite = CONTENT_SUITE, tcPlaintextSize = int (length f),
          tcThumbnailBytes = int (length webp) \<rparr> = Inr webp"
    if "given = Some webp \<and> webp \<noteq> [] \<and> length webp \<le> THUMBNAIL_MAX_BYTES" for webp
  proof -
    from that have g: "prepare_upload S D key contentNonce wsId objectId (int (length f)) (Some webp) = Inr up"
      "webp \<noteq> []" "length webp \<le> THUMBNAIL_MAX_BYTES" using assms(1) by simp_all
    from prepared_thumbnail [OF this] obtain t where t: "encryptThumbnail S D webp key contentNonce
        \<lparr> tcWorkspaceId = wsId, tcObjectId = objectId, tcSuite = CONTENT_SUITE, tcPlaintextSize = int (length f),
          tcThumbnailBytes = 0 \<rparr> = Inr t" "trailer_of up = t" "upThumbnailBytes up = int (length webp)" .
    have "1 \<le> upThumbnailBytes up" using t(3) g(2) by (cases webp) simp_all
    from thumbnail_window [OF u this] obtain r where
      r: "thumbnailRange CONTENT_SUITE (int (length f)) (upThumbnailBytes up) = Inr r"
        "length (trailer_of up) \<le> length (stored (object_of S up objectId f) r)"
        "drop (length (stored (object_of S up objectId f) r) - length (trailer_of up)) (stored (object_of S up objectId f) r)
          = trailer_of up" .
    from thumbnail_opens [OF t(1) assms(2,3)] r(2,3) r(1) t show ?thesis by auto
  qed
  ultimately show ?thesis unfolding object_of_def by metis
qed

text \<open>The parts of an upload are what the server counts: their lengths are those it works out from the
  object's size and chunk count, which it takes for a possible object.\<close>

theorem parts_are_as_declared:
  assumes "prepare_upload S D key contentNonce wsId objectId (int (length f)) given = Inr up"
    and "aead_correct S" and "\<And>c. length (crypto_kdf_derive_from_key D 32 1 c key) = 32"
    and "length key = 32" "length contentNonce = 16" "is_uuid wsId" "is_uuid objectId"
    and "mapE (\<lambda>i. upload_part S up objectId (Blob f) (int i)) [0..<nat (upChunkCount up)] = Inr parts"
    and "int (length (concat parts)) \<le> MAX_SAFE_INTEGER"
  shows "ciphertextSize CONTENT_SUITE (int (length f)) (upThumbnailBytes up) = Inr (int (length (concat parts)))
    \<and> validObjectSize (int (length (concat parts))) (upChunkCount up) = Inr True
    \<and> (\<forall>i < length parts. partLength (int (length (concat parts))) (upChunkCount up) (int i + 1)
          = Inr (int (length (parts ! i))))"
proof -
  note p = prepared [OF assms(1,2,3)]
  have u: "upload_for S up objectId f" using p assms by (simp add: upload_for_def)
  let ?m = "nat (upChunkCount up)"
  have "mapE (\<lambda>i. upload_part S up objectId (Blob f) (int i)) [0..<?m] = Inr (map (part_of S up objectId f) [0..<?m])"
    by (rule mapE_map) (simp add: upload_part_ok(1) [OF u])
  with assms(8) have parts: "parts = map (part_of S up objectId f) [0..<?m]" by simp
  then have obj: "concat parts = object_of S up objectId f" by (simp add: object_of_def)
  note b = chunkCount_bounds [OF layout(2) [OF u]]
  have s: "isSafeInteger (int (length (concat parts)))" "isSafeInteger (upChunkCount up)"
    using assms(9) b(1,5) by (simp_all add: isSafeInteger_def MAX_SAFE_INTEGER_def)
  have len: "int (length (concat parts)) = upContentLength up + tag_bytes * upChunkCount up + int (length (trailer_of up))"
    using object_length(1) [OF u] obj by simp
  let ?rest = "upContentLength up - (upChunkCount up - 1) * CHUNK_SIZE"
  have t: "int (length (trailer_of up)) \<le> int THUMBNAIL_MAX_BYTES + tag_bytes"
    using u by (auto simp: upload_for_def laid_out_def trailerLength_Inr CHUNK_TAG_BYTES_def split: if_splits)
  have "int (length (concat parts)) - (upChunkCount up - 1) * (CHUNK_SIZE + tag_bytes)
      = ?rest + tag_bytes + int (length (trailer_of up))"
    unfolding len by (simp add: algebra_simps)
  with s b(1) have last_part: "partLength (int (length (concat parts))) (upChunkCount up) (upChunkCount up)
      = Inr (?rest + tag_bytes + int (length (trailer_of up)))" by (simp add: partLength_def)
  have rest: "0 \<le> ?rest" "upChunkCount up \<noteq> 1 \<Longrightarrow> 1 \<le> ?rest" "?rest \<le> CHUNK_SIZE"
    using b(2,3,4) by (simp_all add: left_diff_distrib)
  have "validObjectSize (int (length (concat parts))) (upChunkCount up)
      = Inr ((if upChunkCount up = 1 then tag_bytes else tag_bytes + 1) \<le> ?rest + tag_bytes + int (length (trailer_of up))
        \<and> ?rest + tag_bytes + int (length (trailer_of up)) \<le> CHUNK_SIZE + tag_bytes + int THUMBNAIL_MAX_BYTES + tag_bytes)"
    using s b(1) last_part by (simp add: validObjectSize_def Let_def)
  also have "\<dots> = Inr True" using rest t by auto
  finally have "validObjectSize (int (length (concat parts))) (upChunkCount up) = Inr True" .
  moreover have "partLength (int (length (concat parts))) (upChunkCount up) (int i + 1) = Inr (int (length (parts ! i)))"
    if i: "i < length parts" for i
  proof -
    have m: "i < ?m" "parts ! i = part_of S up objectId f i" using i by (simp_all add: parts)
    have "isSafeInteger (int i + 1)" using m(1) b(5) by (auto simp: isSafeInteger_def MAX_SAFE_INTEGER_def)
    then show ?thesis
    proof (cases "int i = upChunkCount up - 1")
      case True
      then have c: "upChunkCount up = int i + 1" by simp
      have "int (length (part_of S up objectId f i)) = int (length (concat parts)) - (upChunkCount up - 1) * (CHUNK_SIZE + tag_bytes)"
        using part_lengths(2) [OF u m(1)] unfolding len c by (simp add: algebra_simps)
      with True m \<open>isSafeInteger (int i + 1)\<close> show ?thesis by (simp add: partLength_def)
    next
      case False
      with m \<open>isSafeInteger (int i + 1)\<close> part_lengths(1) [OF u m(1)] chunk_pos(1) show ?thesis by (simp add: partLength_def)
    qed
  qed
  ultimately show ?thesis using object_length(2) [OF u] obj by simp
qed

text \<open>It makes no difference how a file's bytes are held: a chunk read from the parts they were moved in
  is the chunk of the whole file.\<close>

theorem chunk_from_parts:
  "readChunk up (Source parts) index = readChunk up (Blob (concat parts)) index"
  by (rule source_as_blob)

end
