(* ===== verification/Drive_Bindings.thy ===== *)
theory Drive_Bindings
  imports Drive_Content
begin

text \<open>
  What the envelopes of \<open>drive.ts\<close> promise: what is wrapped or sealed opens to the same, the key handed out
  for a re-keyed record's origin opens that envelope as the key it was sealed under does, and no two places
  of a drive (node keys, previous roots, metadata, documents, content keys, chunks, thumbnails, origin keys)
  share associated data.
\<close>

section \<open>Lemmas: what is wrapped opens\<close>

lemma split_sealed:
  assumes "aead_correct S" "length nonce = 24" "length key = 32" "length m > 0"
  shows "split_envelope (seal_envelope S nonce m key aad) None = Inr (nonce, aead_encrypt S m aad nonce key)"
    "split_envelope (seal_envelope S nonce m key aad) (Some (length m + CHUNK_TAG_BYTES)) = Inr (nonce, aead_encrypt S m aad nonce key)"
    "aead_decrypt S (aead_encrypt S m aad nonce key) aad nonce key = Some m"
    "length (seal_envelope S nonce m key aad) = 24 + length m + 16"
  using assms by (simp_all add: split_envelope_def seal_envelope_def aead_correct_def drive_sizes)

lemma open_key_sealed:
  assumes "aead_correct S" "length nonce = 24" "length key = 32" "length m = KEY_BYTES"
  shows "open_key S (seal_envelope S nonce m key aad) key (Inr aad) e = Inr m"
  using split_sealed [OF assms(1-3), of m aad] assms(4) by (simp add: open_key_def decryptKey_def KEY_BYTES_def)

lemma node_key_opens:
  assumes "aead_correct S" "length nonce = 24" "length parentKey = 32" "wrapNodeKey S nonce nodeKey parentKey ctx = Inr envelope"
  shows "openNodeKey S envelope parentKey ctx = Inr nodeKey" "length envelope = KEY_ENVELOPE_BYTES"
  using assms open_key_sealed [OF assms(1-3), of nodeKey] split_sealed(4) [OF assms(1-3), of nodeKey]
  by (auto simp: wrapNodeKey_def openNodeKey_def returns KEY_ENVELOPE_BYTES_def KEY_BYTES_def ENVELOPE_NONCE_BYTES_def
      CHUNK_TAG_BYTES_def split: if_splits)

lemma big_endian_snoc: "big_endian_value (bs @ [b]) = big_endian_value bs * 256 + unat b"
  by (simp add: big_endian_value_def)

lemma big_endian_reads: "big_endian_value (big_endian n v) = v mod 256 ^ n"
proof (induction n arbitrary: v)
  case 0
  then show ?case by (simp add: big_endian_value_def)
next
  case (Suc n)
  have "unat (of_nat (v mod 256) :: byte) = v mod 256" by (simp add: unat_of_nat)
  then have "big_endian_value (big_endian (Suc n) v) = (v div 256) mod 256 ^ n * 256 + v mod 256"
    using Suc by (simp add: big_endian_snoc)
  then show ?case using mod_mult2_eq [of v 256 "256 ^ n"] by (simp add: mult.commute)
qed

lemma version_opens:
  assumes "aead_correct S" "length nonce = 24" "length nodeKey = 32" "sealVersion S nonce record nodeKey ctx = Inr envelope"
  shows "openVersion S envelope nodeKey ctx = Inr \<lparr> ovContentKey = vrContentKey record,
      ovPlaintextSize = (if ckSuite ctx = LEGACY_CONTENT_SUITE then None else Some (nat (vrPlaintextSize record))),
      ovThumbnailBytes = nat (vrThumbnailBytes record) \<rparr>"
    "versionEnvelopeBytes (ckSuite ctx) = Inr (length envelope)"
proof -
  from assms(4) have k: "length (vrContentKey record) = 32" and s: "checkSuite (ckSuite ctx) = Inr (ckSuite ctx)"
    by (auto simp: sealVersion_def KEY_BYTES_def returns checkSuite_Inr split: if_splits)
  have "openVersion S envelope nodeKey ctx = Inr \<lparr> ovContentKey = vrContentKey record,
      ovPlaintextSize = (if ckSuite ctx = LEGACY_CONTENT_SUITE then None else Some (nat (vrPlaintextSize record))),
      ovThumbnailBytes = nat (vrThumbnailBytes record) \<rparr>
    \<and> versionEnvelopeBytes (ckSuite ctx) = Inr (length envelope)"
  proof (cases "ckSuite ctx = LEGACY_CONTENT_SUITE")
    case True
    with assms(4) s k obtain aad where "contentKeyContext (ctx\<lparr> ckSuite := LEGACY_CONTENT_SUITE \<rparr>) = Inr aad"
      "envelope = seal_envelope S nonce (vrContentKey record) nodeKey aad" "vrThumbnailBytes record = 0"
      by (auto simp: sealVersion_def wrapContentKey_def returns KEY_BYTES_def split: if_splits)
    with open_key_sealed [OF assms(1-3), of "vrContentKey record"] split_sealed(4) [OF assms(1-3), of "vrContentKey record"] k s True
    show ?thesis by (simp add: openVersion_def openContentKey_def KEY_BYTES_def versionEnvelopeBytes_def KEY_ENVELOPE_BYTES_def
          ENVELOPE_NONCE_BYTES_def CHUNK_TAG_BYTES_def)
  next
    case False
    let ?n = "nat (vrPlaintextSize record)" and ?t = "nat (vrThumbnailBytes record)"
    let ?body = "vrContentKey record @ big_endian 8 ?n @ big_endian 4 ?t"
    from assms(4) s k False obtain aad where a: "contentKeyContext ctx = Inr aad"
        "envelope = seal_envelope S nonce ?body nodeKey aad"
      and n: "0 \<le> vrPlaintextSize record" "vrPlaintextSize record \<le> MAX_SAFE_INTEGER"
      and t: "0 \<le> vrThumbnailBytes record" "vrThumbnailBytes record \<le> int THUMBNAIL_MAX_BYTES"
      by (auto simp: sealVersion_def returns byteCount_Inr KEY_BYTES_def split: if_splits)
    have l: "length ?body = VERSION_RECORD_BYTES" using k by (simp add: VERSION_RECORD_BYTES_def KEY_BYTES_def)
    have "big_endian_value (big_endian 8 ?n) = ?n" "big_endian_value (big_endian 4 ?t) = ?t"
      using n t by (simp_all add: big_endian_reads MAX_SAFE_INTEGER_def THUMBNAIL_MAX_BYTES_def)
    moreover have "int ?n \<le> MAX_SAFE_INTEGER" "?t \<le> THUMBNAIL_MAX_BYTES" using n t by simp_all
    ultimately show ?thesis
      using False s k a split_sealed [OF assms(1-3), of ?body aad] l
      by (simp add: openVersion_def decryptKey_def Let_def KEY_BYTES_def versionEnvelopeBytes_def VERSION_ENVELOPE_BYTES_def
          VERSION_RECORD_BYTES_def ENVELOPE_NONCE_BYTES_def CHUNK_TAG_BYTES_def)
  qed
  then show "openVersion S envelope nodeKey ctx = Inr \<lparr> ovContentKey = vrContentKey record,
      ovPlaintextSize = (if ckSuite ctx = LEGACY_CONTENT_SUITE then None else Some (nat (vrPlaintextSize record))),
      ovThumbnailBytes = nat (vrThumbnailBytes record) \<rparr>"
    "versionEnvelopeBytes (ckSuite ctx) = Inr (length envelope)" by simp_all
qed

lemma hchacha20_length: "length (hchacha20 key input) = 32"
  by (simp add: hchacha20_def Let_def word_bytes_def)

text \<open>XChaCha20-Poly1305 is ChaCha20-Poly1305 (IETF) under the subkey HChaCha20 derives from the key and the
  nonce's first sixteen bytes, with its last eight behind four zero bytes.\<close>

definition xchacha_is_chacha :: "seal_primitives \<Rightarrow> drive_primitives \<Rightarrow> bool" where
  "xchacha_is_chacha S D \<longleftrightarrow> (\<forall>body aad nonce key. length nonce = 24 \<longrightarrow> length key = 32 \<longrightarrow>
     aead_decrypt S body aad nonce key
       = chacha20poly1305_ietf_decrypt D body aad (replicate 4 0 @ drop 16 nonce) (hchacha20 key (take 16 nonce)))"

lemma split_lengths: "split_envelope envelope n = Inr (nonce, body) \<Longrightarrow> length nonce = 24 \<and> envelope = nonce @ body \<and> 16 < length body"
  by (auto simp: split_envelope_def ENVELOPE_NONCE_BYTES_def CHUNK_TAG_BYTES_def split: if_splits)

lemma origin_key_opens:
  assumes "xchacha_is_chacha S D" "length key = 32" "split_envelope envelope None = Inr (nonce, body)"
  shows "originOpeningKey envelope key = Inr (hchacha20 key (take 16 nonce))"
    "openWithOriginKey D envelope (hchacha20 key (take 16 nonce)) aad = Inr m
       \<longleftrightarrow> openEnvelopeBytes S envelope key aad = Inr m"
proof -
  have n: "length nonce = 24" using split_lengths [OF assms(3)] by simp
  show "originOpeningKey envelope key = Inr (hchacha20 key (take 16 nonce))"
    using assms(2,3) by (simp add: originOpeningKey_def key32_def KEY_BYTES_def)
  show "openWithOriginKey D envelope (hchacha20 key (take 16 nonce)) aad = Inr m
       \<longleftrightarrow> openEnvelopeBytes S envelope key aad = Inr m"
    using assms n by (simp add: openWithOriginKey_def openEnvelopeBytes_def key32_def KEY_BYTES_def hchacha20_length
        decryptKey_def xchacha_is_chacha_def split: option.splits)
qed

section \<open>Places\<close>

text \<open>Everything an envelope of a drive may be bound to.\<close>

datatype drive_place =
    Node_Key_At node_key_context
  | Previous_Root_At node_key_context
  | Metadata_At string string int
  | Document_At string string int
  | Content_Key_At content_key_context
  | Chunk_At chunk_context
  | Thumbnail_At thumbnail_context
  | Origin_Key_At origin_key_context

fun place_bytes :: "primitives \<Rightarrow> drive_place \<Rightarrow> crypto_error + bytes" where
  "place_bytes P (Node_Key_At c) = nodeKeyContext c"
| "place_bytes P (Previous_Root_At c) = previousRootKeyContext c"
| "place_bytes P (Metadata_At w n v) = metadataContext w n v"
| "place_bytes P (Document_At w k v) = documentContext w k v"
| "place_bytes P (Content_Key_At c) = contentKeyContext c"
| "place_bytes P (Chunk_At c) = chunkContext c"
| "place_bytes P (Thumbnail_At c) = thumbnailContext c"
| "place_bytes P (Origin_Key_At c) = originKeyContext P c"

text \<open>A chunk's index, count and size, and a trailer's length, are not negative: \<open>encryptChunk\<close>,
  \<open>decryptChunk\<close>, \<open>encryptThumbnail\<close> and \<open>decryptThumbnail\<close> refuse others before they are bound.\<close>

fun counted :: "drive_place \<Rightarrow> bool" where
  "counted (Chunk_At c) \<longleftrightarrow> 0 \<le> ccIndex c \<and> 0 \<le> ccChunkCount c \<and> 0 \<le> ccPlaintextSize c"
| "counted (Thumbnail_At c) \<longleftrightarrow> 0 \<le> tcThumbnailBytes c"
| "counted p \<longleftrightarrow> True"

text \<open>What the associated data does not name: a chunk's trailer length, a trailer's file size; an origin
  stands for its SHA-256.\<close>

fun named_part :: "primitives \<Rightarrow> drive_place \<Rightarrow> drive_place" where
  "named_part P (Chunk_At c) = Chunk_At (c\<lparr> ccThumbnailBytes := 0 \<rparr>)"
| "named_part P (Thumbnail_At c) = Thumbnail_At (c\<lparr> tcPlaintextSize := 0 \<rparr>)"
| "named_part P (Origin_Key_At c) = Origin_Key_At (c\<lparr> okOriginEnvelope := sha256 P (okOriginEnvelope c) \<rparr>)"
| "named_part P p = p"

fun place_parts :: "primitives \<Rightarrow> drive_place \<Rightarrow> json list" where
  "place_parts P (Node_Key_At c) = [JStr NODE_KEY_LABEL, JNum 1, JStr (nkWorkspaceId c), JStr (nkNodeId c),
     JStr (nkParentId c), JNum (nkParentKeyEpoch c), JNum (nkKeyEpoch c)]"
| "place_parts P (Previous_Root_At c) = [JStr PREVIOUS_ROOT_KEY_LABEL, JNum 1, JStr (nkWorkspaceId c), JStr (nkNodeId c),
     JStr (nkParentId c), JNum (nkParentKeyEpoch c), JNum (nkKeyEpoch c)]"
| "place_parts P (Metadata_At w n v) = [JStr ''hushos/drive/node-meta'', JNum 1, JStr w, JStr n, JNum v]"
| "place_parts P (Document_At w k v) = [JStr ''hushos/drive/workspace-doc'', JNum 1, JStr w, JStr k, JNum v]"
| "place_parts P (Content_Key_At c) = [JStr ''hushos/drive/content-key'', JNum (ckSuite c), JStr (ckWorkspaceId c),
     JStr (ckNodeId c), JStr (ckVersionId c), JStr (ckObjectId c)]"
| "place_parts P (Chunk_At c) = [JStr ''hushos/drive/content'', JNum (ccSuite c), JStr (ccWorkspaceId c),
     JStr (ccObjectId c), JNum (ccIndex c), JNum (ccChunkCount c), JNum (ccPlaintextSize c)]"
| "place_parts P (Thumbnail_At c) = [JStr ''hushos/drive/thumbnail'', JNum (tcSuite c), JStr (tcWorkspaceId c),
     JStr (tcObjectId c), JNum (tcThumbnailBytes c)]"
| "place_parts P (Origin_Key_At c) = [JStr ''hushos/drive/origin-key'', JNum 1, JStr (okWorkspaceId c), JStr (okNodeId c)]
     @ (case okRecord c of Origin_Metadata v \<Rightarrow> [JStr ''metadata'', JNum v] | Origin_Version v \<Rightarrow> [JStr ''version'', JStr v])
     @ [JNum (okKeyEpoch c), JStr (digest P (okOriginEnvelope c))]"

lemma drive_fields:
  "drive_id s what = Inr t \<longleftrightarrow> t = s \<and> is_uuid s"
  "epoch_field n what = Inr m \<longleftrightarrow> m = n \<and> isSafeInteger n \<and> 1 \<le> n"
  by (auto simp: drive_id_def epoch_field_def)

lemma place_bytes_Inr:
  "place_bytes P p = Inr x \<Longrightarrow> counted p \<Longrightarrow> x = statement_bytes (place_parts P p) \<and> list_all atom (place_parts P p)"
  by (cases p) (auto simp: nodeKeyContext_def previousRootKeyContext_def node_key_parts_def metadataContext_def
      documentContext_def contentKeyContext_def chunkContext_def thumbnailContext_def originKeyContext_def returns drive_fields
      checkSuite_Inr DRIVE_ENVELOPE_SUITE_def split: if_splits origin_record.splits)


lemma digest_bytes:
  "sha256_32 P \<Longrightarrow> digest P x = digest P y \<longleftrightarrow> sha256 P x = sha256 P y"
proof
  assume s: "sha256_32 P" and d: "digest P x = digest P y"
  have n: "sha256 P z \<noteq> []" for z using s unfolding sha256_32_def by (metis list.size(3) zero_neq_numeral)
  have "decode (encode (sha256 P z)) None = Inr (sha256 P z)" for z by (rule decode_encode) (simp_all add: n)
  then show "sha256 P x = sha256 P y" using d unfolding digest_def by (metis sum.inject(2))
qed (simp add: digest_def)

fun place_kind :: "drive_place \<Rightarrow> nat" where
  "place_kind (Node_Key_At _) = 0"
| "place_kind (Previous_Root_At _) = 1"
| "place_kind (Metadata_At _ _ _) = 2"
| "place_kind (Document_At _ _ _) = 3"
| "place_kind (Content_Key_At _) = 4"
| "place_kind (Chunk_At _) = 5"
| "place_kind (Thumbnail_At _) = 6"
| "place_kind (Origin_Key_At _) = 7"

definition place_labels :: "string list" where
  "place_labels = [NODE_KEY_LABEL, PREVIOUS_ROOT_KEY_LABEL, ''hushos/drive/node-meta'', ''hushos/drive/workspace-doc'',
     ''hushos/drive/content-key'', ''hushos/drive/content'', ''hushos/drive/thumbnail'', ''hushos/drive/origin-key'']"

lemma place_labels_distinct: "distinct place_labels" "length place_labels = 8"
  by code_simp+

lemma place_label: "hd (place_parts P p) = JStr (place_labels ! place_kind p)" "place_kind p < 8"
  by (cases p; simp add: place_labels_def)+

lemma same_kind: "place_parts P p = place_parts P q \<Longrightarrow> place_kind p = place_kind q"
  using place_label(1) [of P p] place_label(1) [of P q] place_label(2) [of p] place_label(2) [of q] place_labels_distinct
    nth_eq_iff_index_eq [of place_labels "place_kind p" "place_kind q"]
  by simp

lemma same_parts:
  assumes "place_parts P p = place_parts P q" "sha256_32 P"
  shows "named_part P p = named_part P q"
  using assms(1) same_kind [OF assms(1)]
  by (cases p; cases q) (simp_all add: digest_bytes [OF assms(2)] split: origin_record.splits)

section \<open>Properties\<close>

text \<open>C13. An envelope is bound to one place: two places of a drive with the same associated data, of whatever
  kinds, are the same place, up to what it does not name and to the SHA-256 of an origin.\<close>

theorem one_place_one_binding:
  assumes "place_bytes P p = Inr aad" "place_bytes P q = Inr aad" "counted p" "counted q" "sha256_32 P"
  shows "named_part P p = named_part P q"
proof -
  note p = place_bytes_Inr [OF assms(1,3)] and q = place_bytes_Inr [OF assms(2,4)]
  have "place_parts P r \<noteq> []" for r by (cases r) simp_all
  then have "place_parts P p = place_parts P q" using p q by (intro statement_bytes_inj) simp_all
  then show ?thesis using assms(5) by (rule same_parts)
qed

text \<open>A node's key wrapped under its parent's opens there, in 72 bytes.\<close>

theorem wrapped_node_key_opens:
  assumes "aead_correct S" "length nonce = 24" "length parentKey = 32" "wrapNodeKey S nonce nodeKey parentKey ctx = Inr envelope"
  shows "openNodeKey S envelope parentKey ctx = Inr nodeKey \<and> length envelope = 72"
  using node_key_opens [OF assms] by (simp add: drive_sizes)

text \<open>A version's envelope opens to the content key and the sizes it was sealed with (suite 1 never sealed
  them), and has the length of its suite.\<close>

theorem sealed_version_opens:
  assumes "aead_correct S" "length nonce = 24" "length nodeKey = 32" "sealVersion S nonce record nodeKey ctx = Inr envelope"
  shows "openVersion S envelope nodeKey ctx = Inr \<lparr> ovContentKey = vrContentKey record,
      ovPlaintextSize = (if ckSuite ctx = LEGACY_CONTENT_SUITE then None else Some (nat (vrPlaintextSize record))),
      ovThumbnailBytes = nat (vrThumbnailBytes record) \<rparr>
    \<and> versionEnvelopeBytes (ckSuite ctx) = Inr (length envelope)"
  using version_opens [OF assms] by simp


end
