(* ===== verification/Rekeyed.thy ===== *)
theory Rekeyed
  imports Verdicts Drive_Bindings
begin

text \<open>
  Re-keyed records: \<open>signatures.ts\<close> (what binds a writer's record to the envelope a rotation sealed again, the
  verdicts on its writer and on who re-keyed it, the next rotation of it), \<open>groupRekeyedIntegrityOf\<close> of
  \<open>group-trust.ts\<close>, and \<open>group-verdicts.ts\<close>, which judges a family folder's records under the group's trust.
  Only refusals (\<open>CryptoError\<close>) are thrown here: nothing the checks call throws anything else in this model.
\<close>

section \<open>A re-keyed record and its origin (signatures.ts)\<close>

record served_origin =
  soEnvelope :: bytes
  soSignerId :: "string option"
  soSignature :: "bytes option"
  soKeyEnvelope :: bytes

datatype rekeyed_position = Rekeyed_Metadata metadata_statement | Rekeyed_Version version_statement

record rekeyed_record =
  rrPosition :: rekeyed_position
  rrKeyEpoch :: int
  rrEnvelope :: bytes
  rrOrigin :: served_origin
  rrRekeySignature :: "bytes option"

datatype unbound = Current_Refused | Origin_Refused | Bytes_Differ

datatype opened_origin = Origin_Key bytes | Unbound unbound

fun position_ids :: "rekeyed_position \<Rightarrow> string \<times> string" where
  "position_ids (Rekeyed_Metadata m) = (m_workspaceId m, m_nodeId m)"
| "position_ids (Rekeyed_Version v) = (v_workspaceId v, v_nodeId v)"

fun position_aad :: "rekeyed_position \<Rightarrow> crypto_error + bytes" where
  "position_aad (Rekeyed_Metadata m) = metadataContext (m_workspaceId m) (m_nodeId m) (metadataVersion m)"
| "position_aad (Rekeyed_Version v) = contentKeyContext \<lparr> ckWorkspaceId = v_workspaceId v, ckNodeId = v_nodeId v,
     ckVersionId = v_versionId v, ckObjectId = v_objectId v, ckSuite = contentSuite v \<rparr>"

fun position_fits :: "rekeyed_position \<Rightarrow> bytes \<Rightarrow> bool" where
  "position_fits (Rekeyed_Metadata m) envelope = (length envelope \<le> METADATA_ENVELOPE_MAX_BYTES)"
| "position_fits (Rekeyed_Version v) envelope = (versionEnvelopeBytes (contentSuite v) = Inr (length envelope))"

fun position_origin :: "rekeyed_position \<Rightarrow> origin_record" where
  "position_origin (Rekeyed_Metadata m) = Origin_Metadata (metadataVersion m)"
| "position_origin (Rekeyed_Version v) = Origin_Version (v_versionId v)"

definition origin_context :: "rekeyed_record \<Rightarrow> int \<Rightarrow> origin_key_context" where
  "origin_context record keyEpoch = \<lparr> okWorkspaceId = fst (position_ids (rrPosition record)),
     okNodeId = snd (position_ids (rrPosition record)), okKeyEpoch = keyEpoch,
     okRecord = position_origin (rrPosition record), okOriginEnvelope = soEnvelope (rrOrigin record) \<rparr>"

definition openOrigin :: "primitives \<Rightarrow> seal_primitives \<Rightarrow> drive_primitives \<Rightarrow> bytes \<Rightarrow> rekeyed_record \<Rightarrow> int \<Rightarrow> opened_origin" where
  "openOrigin P S D nodeKey record keyEpoch =
     (let origin = rrOrigin record; fits = position_fits (rrPosition record) in
      case position_aad (rrPosition record) of Inl _ \<Rightarrow> Unbound Current_Refused
      | Inr aad \<Rightarrow>
          if length nodeKey \<noteq> 32 \<or> \<not> fits (rrEnvelope record) then Unbound Current_Refused
          else (case openEnvelopeBytes S (rrEnvelope record) nodeKey aad of Inl _ \<Rightarrow> Unbound Current_Refused
            | Inr current \<Rightarrow>
                if \<not> fits (soEnvelope origin) \<or> length (soKeyEnvelope origin) \<noteq> KEY_ENVELOPE_BYTES
                then Unbound Origin_Refused
                else (case openOriginKey P S (soKeyEnvelope origin) nodeKey (origin_context record keyEpoch) of
                    Inl _ \<Rightarrow> Unbound Origin_Refused
                  | Inr key \<Rightarrow>
                      (case openWithOriginKey D (soEnvelope origin) key aad of Inl _ \<Rightarrow> Unbound Origin_Refused
                      | Inr written \<Rightarrow> if written = current then Origin_Key key else Unbound Bytes_Differ))))"

section \<open>The checks, and what a reader shows\<close>

definition refusal :: "crypto_error + 'a \<Rightarrow> thrown + 'a" where
  "refusal r = (case r of Inl e \<Rightarrow> Inl (Refusal e) | Inr x \<Rightarrow> Inr x)"

fun bound_of :: "opened_origin \<Rightarrow> bool \<Rightarrow> bool option" where
  "bound_of (Origin_Key key) attested = Some True"
| "bound_of (Unbound Bytes_Differ) attested = Some False"
| "bound_of (Unbound Origin_Refused) attested = (if attested then Some False else None)"
| "bound_of (Unbound Current_Refused) attested = None"

definition origin_statements :: "primitives \<Rightarrow> rekeyed_record \<Rightarrow> crypto_error + statement_forms" where
  "origin_statements P record =
     (case rrPosition record of
        Rekeyed_Metadata m \<Rightarrow> metadataStatements P m (soEnvelope (rrOrigin record))
      | Rekeyed_Version v \<Rightarrow> versionStatements P v (soEnvelope (rrOrigin record)))"

definition NO_ORIGIN_SIGNATURE :: crypto_error where
  "NO_ORIGIN_SIGNATURE = CryptoError (''This record'' @ rsquo @ ''s origin carries no signature.'')"

text \<open>\<open>named\<close>; \<open>signerId!\<close> is never missing where it is used, the re-keyer's verdict having asked first.\<close>

definition named_origin :: "served_origin \<Rightarrow> crypto_error + record_origin" where
  "named_origin origin =
     (case soSignature origin of None \<Rightarrow> Inl NO_ORIGIN_SIGNATURE
      | Some sig \<Rightarrow> Inr \<lparr> o_envelope = soEnvelope origin,
          o_signerId = (case soSignerId origin of None \<Rightarrow> [] | Some s \<Rightarrow> s), o_signature = sig,
          o_keyEnvelope = soKeyEnvelope origin \<rparr>)"

definition rekeyed_statement :: "primitives \<Rightarrow> rekeyed_record \<Rightarrow> crypto_error + bytes" where
  "rekeyed_statement P record =
     bindE (named_origin (rrOrigin record)) (\<lambda>origin.
       case rrPosition record of
         Rekeyed_Metadata m \<Rightarrow> metadataRekeyedStatement P m (rrKeyEpoch record) (rrEnvelope record) origin
       | Rekeyed_Version v \<Rightarrow> versionRekeyedStatement P v (rrKeyEpoch record) (rrEnvelope record) origin)"

record rekeyed_checks =
  rcOpened :: opened_origin
  rcOriginSigned :: bool
  rcOriginSignerGone :: bool
  rcRekeySigned :: bool
  rcOriginVerdict :: "trusted_signer option \<Rightarrow> integrity"
  rcRekeyerVerdict :: "trusted_signer option \<Rightarrow> integrity"

definition rekeyedChecks :: "primitives \<Rightarrow> seal_primitives \<Rightarrow> drive_primitives \<Rightarrow> rekeyed_record \<Rightarrow> bytes \<Rightarrow> rekeyed_checks" where
  "rekeyedChecks P S D record nodeKey =
     (let origin = rrOrigin record; signerGone = (soSignerId origin = None) in
      \<lparr> rcOpened = openOrigin P S D nodeKey record (rrKeyEpoch record),
        rcOriginSigned = (soSignature origin \<noteq> None), rcOriginSignerGone = signerGone,
        rcRekeySigned = (rrRekeySignature record \<noteq> None),
        rcOriginVerdict = (\<lambda>trusted. integrityOf P (refusal (origin_statements P record)) (soSignature origin)
          (if signerGone then None else trusted)),
        rcRekeyerVerdict = (\<lambda>trusted. rekeyerIntegrityOf P (refusal (rekeyed_statement P record))
          (rrRekeySignature record) trusted signerGone) \<rparr>)"

record rekeyed_verdict =
  rvOrigin :: integrity
  rvRekeyer :: integrity
  rvBound :: "bool option"

definition unchecked_record :: rekeyed_verdict where
  "unchecked_record = \<lparr> rvOrigin = Unchecked, rvRekeyer = Unchecked, rvBound = None \<rparr>"

text \<open>The keys a reader trusts for the origin's signer and for the re-keyer.\<close>

definition rekeyedIntegrityOf :: "primitives \<Rightarrow> seal_primitives \<Rightarrow> drive_primitives \<Rightarrow> rekeyed_record \<Rightarrow> bytes option
    \<Rightarrow> (trusted_signer option \<times> trusted_signer option) option \<Rightarrow> rekeyed_verdict" where
  "rekeyedIntegrityOf P S D record nodeKey trust =
     (case (nodeKey, trust) of
        (Some key, Some (origin_trust, rekeyer_trust)) \<Rightarrow>
          let checks = rekeyedChecks P S D record key;
              rekeyer = rcRekeyerVerdict checks rekeyer_trust;
              bnd = bound_of (rcOpened checks) (rekeyer = Verified \<or> rekeyer = Seen);
              origin = (case bnd of Some True \<Rightarrow> rcOriginVerdict checks origin_trust
                | Some False \<Rightarrow> BadSignature | None \<Rightarrow> Unchecked)
          in \<lparr> rvOrigin = origin, rvRekeyer = rekeyer, rvBound = bnd \<rparr>
      | _ \<Rightarrow> unchecked_record)"

definition NOT_UNDER_THIS_KEY :: crypto_error where
  "NOT_UNDER_THIS_KEY = CryptoError
     ''This item does not open under the key this rotation holds. Load the folder again.''"

definition carryOrigin :: "primitives \<Rightarrow> seal_primitives \<Rightarrow> drive_primitives \<Rightarrow> bytes \<Rightarrow> rekeyed_record \<Rightarrow> bytes \<Rightarrow> bytes \<Rightarrow> int
    \<Rightarrow> crypto_error + bytes option" where
  "carryOrigin P S D nonce record oldKey newKey targetEpoch =
     (if length newKey \<noteq> 32 then Inl INVALID_NODE_KEY
      else bindE (originKeyContext P (origin_context record targetEpoch)) (\<lambda>_.
        case openOrigin P S D oldKey record (rrKeyEpoch record) of
          Unbound Current_Refused \<Rightarrow> Inl NOT_UNDER_THIS_KEY
        | Unbound _ \<Rightarrow> Inr None
        | Origin_Key key \<Rightarrow>
            bindE (wrapOriginKey P S nonce key newKey (origin_context record targetEpoch)) (\<lambda>wrap. Inr (Some wrap))))"

section \<open>In a group's area (group-trust.ts)\<close>

record group_rekeyed_trust =
  gtOrigin :: writer_trust
  gtOriginPersonal :: "trusted_signer option"
  gtRekeyer :: writer_trust
  gtRekeyerPersonal :: "trusted_signer option"

record group_rekeyed_verdict =
  gvOrigin :: "group_integrity \<times> string option"
  gvRekeyer :: "group_integrity \<times> string option"
  gvBound :: "bool option"

definition unchecked_in_group :: group_rekeyed_verdict where
  "unchecked_in_group = \<lparr> gvOrigin = (Shown Unchecked, None), gvRekeyer = (Shown Unchecked, None), gvBound = None \<rparr>"

text \<open>The keys \<open>groupVerdictOf\<close> runs its check under, when it runs it: \<open>None\<close> where it answers without.\<close>

definition asked_under :: "writer_trust \<Rightarrow> trusted_signer option \<Rightarrow> bool \<Rightarrow> trusted_signer option option" where
  "asked_under trust personal was_signed =
     (if \<not> was_signed then None
      else case trust of
        Trust_Outside \<Rightarrow> Some personal
      | Trust_Unchecked \<Rightarrow> None
      | Trust_Key_Conflict \<Rightarrow> None
      | Trust_Former_Member signer _ \<Rightarrow> Some (Some signer)
      | Trust_Roster signer _ _ _ \<Rightarrow> Some (Some signer))"

definition groupRekeyedIntegrityOf :: "primitives \<Rightarrow> seal_primitives \<Rightarrow> drive_primitives \<Rightarrow> rekeyed_record \<Rightarrow> bytes option
    \<Rightarrow> group_rekeyed_trust \<Rightarrow> group_rekeyed_verdict" where
  "groupRekeyedIntegrityOf P S D record nodeKey trust =
     (case nodeKey of None \<Rightarrow> unchecked_in_group
      | Some key \<Rightarrow>
          let checks = rekeyedChecks P S D record key;
              rekeyer = groupVerdictOf (gtRekeyer trust) (gtRekeyerPersonal trust) (rcRekeySigned checks) (rcRekeyerVerdict checks);
              attested = (case asked_under (gtRekeyer trust) (gtRekeyerPersonal trust) (rcRekeySigned checks) of
                None \<Rightarrow> False
              | Some signer \<Rightarrow> rcRekeyerVerdict checks signer = Verified \<or> rcRekeyerVerdict checks signer = Seen);
              bnd = bound_of (rcOpened checks) attested
          in case bnd of
            Some False \<Rightarrow> \<lparr> gvOrigin = (Shown BadSignature, None), gvRekeyer = rekeyer, gvBound = bnd \<rparr>
          | None \<Rightarrow> \<lparr> gvOrigin = (Shown Unchecked, None), gvRekeyer = rekeyer, gvBound = bnd \<rparr>
          | Some True \<Rightarrow> \<lparr> gvOrigin = (if rcOriginSignerGone checks
                then groupVerdictOf Trust_Outside None (rcOriginSigned checks) (rcOriginVerdict checks)
                else groupVerdictOf (gtOrigin trust) (gtOriginPersonal trust) (rcOriginSigned checks) (rcOriginVerdict checks)),
              gvRekeyer = rekeyer, gvBound = bnd \<rparr>)"

section \<open>A family folder's records (group-verdicts.ts)\<close>

record group_writer =
  gwUserId :: string
  gwPinned :: "writer_pin option"
  gwServed :: "served_keys option"
  gwLinks :: "succession_link option list option"

record verdict_input =
  viGroupId :: string
  viWorkspaceId :: string
  viReading :: group_reading
  viWriters :: "group_writer list"
  viTrusted :: "(string \<times> trusted_signer) list"
  viMe :: string
  viAreas :: "(string \<times> nat) list"

text \<open>What one judge keeps as it answers: the writers' trust once looked up (none where the lookup threw), and
  the session's link verifications.\<close>

record verdict_state =
  vsTrust :: "(string \<times> writer_trust option) list"
  vsVerified :: link_memo

text \<open>\<open>new Map(writers.map(...))\<close>: of two writers with one id, the later.\<close>

definition writer_by_id :: "verdict_input \<Rightarrow> string \<Rightarrow> group_writer option" where
  "writer_by_id vi uid = find (\<lambda>w. toLowerCase (gwUserId w) = uid) (rev (viWriters vi))"

definition trustOf :: "primitives \<Rightarrow> verdict_input \<Rightarrow> verdict_state \<Rightarrow> string \<Rightarrow> writer_trust option \<times> verdict_state" where
  "trustOf P vi s uid =
     (case map_of (vsTrust s) uid of
        Some t \<Rightarrow> (t, s)
      | None \<Rightarrow>
          let w = writer_by_id vi uid;
              input = \<lparr> wiGroupId = viGroupId vi, wiAreas = viAreas vi, wiReading = viReading vi,
                wiWorkspaceId = viWorkspaceId vi, wiWriterUserId = uid, wiPinned = Option.bind w gwPinned,
                wiServed = Option.bind w gwServed, wiLinks = Option.bind w gwLinks, wiVerified = vsVerified s \<rparr>;
              (t, memo) = (case groupWriterTrust P input of
                Inl _ \<Rightarrow> (None, vsVerified s) | Inr (trust, memo) \<Rightarrow> (Some trust, memo))
          in (t, s\<lparr> vsTrust := (uid, t) # vsTrust s, vsVerified := memo \<rparr>))"

definition rekeyedTrustOf :: "primitives \<Rightarrow> verdict_input \<Rightarrow> verdict_state \<Rightarrow> string option
    \<Rightarrow> (writer_trust \<times> trusted_signer option) \<times> verdict_state" where
  "rekeyedTrustOf P vi s userId_given =
     (case map_option toLowerCase userId_given of
        None \<Rightarrow> ((Trust_Outside, None), s)
      | Some uid \<Rightarrow>
          if uid = [] then ((Trust_Outside, None), s)
          else if uid = toLowerCase (viMe vi) then ((Trust_Outside, map_of (viTrusted vi) uid), s)
          else let (t, s') = trustOf P vi s uid in
            ((case t of None \<Rightarrow> Trust_Unchecked | Some trust \<Rightarrow> trust, map_of (viTrusted vi) uid), s'))"

definition rekeyed_verdict_of :: "primitives \<Rightarrow> seal_primitives \<Rightarrow> drive_primitives \<Rightarrow> verdict_input \<Rightarrow> verdict_state
    \<Rightarrow> rekeyed_record \<Rightarrow> bytes option \<Rightarrow> string option \<Rightarrow> group_rekeyed_verdict \<times> verdict_state" where
  "rekeyed_verdict_of P S D vi s record nodeKey rekeyer =
     (let ((origin_trust, origin_personal), s1) = rekeyedTrustOf P vi s (soSignerId (rrOrigin record));
          ((by_trust, by_personal), s2) = rekeyedTrustOf P vi s1 rekeyer
      in (groupRekeyedIntegrityOf P S D record nodeKey \<lparr> gtOrigin = origin_trust, gtOriginPersonal = origin_personal,
            gtRekeyer = by_trust, gtRekeyerPersonal = by_personal \<rparr>, s2))"

text \<open>A served signature: none (or an empty text) is unsigned before any trust is looked up, and one that does
  not decode is bytes no key verifies.\<close>

definition signature_bytes :: "string option \<Rightarrow> bytes option" where
  "signature_bytes given =
     (case given of None \<Rightarrow> None
      | Some t \<Rightarrow> if t = [] then None else (case decode t None of Inl _ \<Rightarrow> Some [] | Inr b \<Rightarrow> Some b))"

definition record_verdict_of :: "primitives \<Rightarrow> verdict_input \<Rightarrow> verdict_state \<Rightarrow> (thrown + statement_forms) \<Rightarrow> string option
    \<Rightarrow> string option \<Rightarrow> (group_integrity \<times> string option) \<times> verdict_state" where
  "record_verdict_of P vi s statements signer given =
     (case signature_bytes given of None \<Rightarrow> ((Shown Unsigned, None), s)
      | Some sig \<Rightarrow>
          let uid = (case map_option toLowerCase signer of Some [] \<Rightarrow> None | t \<Rightarrow> t) in
          case uid of
            None \<Rightarrow> ((Shown (integrityOf P statements (Some sig) None), None), s)
          | Some uid \<Rightarrow>
              if uid = toLowerCase (viMe vi)
              then ((Shown (integrityOf P statements (Some sig) (map_of (viTrusted vi) uid)), None), s)
              else (case trustOf P vi s uid of
                  (None, s') \<Rightarrow> ((Shown Unchecked, None), s')
                | (Some trust, s') \<Rightarrow> (groupIntegrityOf P statements (Some sig) trust (map_of (viTrusted vi) uid), s')))"

text \<open>\<open>judgeWith\<close>: how a copy signs the record it copies.\<close>

datatype judged_record =
    Plain_Record "thrown + statement_forms" "string option" "string option"
  | Rekeyed_Record rekeyed_record "bytes option" "string option"

definition copy_form_of :: "group_integrity \<Rightarrow> crypto_error + signature_form" where
  "copy_form_of i = (case i of Key_Conflict \<Rightarrow> Inr ResealedForm | Former_Member \<Rightarrow> Inr ResealedForm | Shown v \<Rightarrow> resealForm v)"

definition judgeWith :: "primitives \<Rightarrow> seal_primitives \<Rightarrow> drive_primitives \<Rightarrow> verdict_input \<Rightarrow> verdict_state \<Rightarrow> judged_record
    \<Rightarrow> (crypto_error + signature_form) \<times> verdict_state" where
  "judgeWith P S D vi s record =
     (case record of
        Rekeyed_Record r nodeKey rekeyer \<Rightarrow>
          let (checked, s') = rekeyed_verdict_of P S D vi s r nodeKey rekeyer in
          (if gvBound checked \<noteq> Some True then Inr ResealedForm else copy_form_of (fst (gvOrigin checked)), s')
      | Plain_Record statements signer given \<Rightarrow>
          let (v, s') = record_verdict_of P vi s statements signer given in (copy_form_of (fst v), s'))"

section \<open>Lemmas\<close>

lemma openOrigin_key:
  "openOrigin P S D nodeKey record epoch = Origin_Key key \<longleftrightarrow>
     (\<exists>aad current. position_aad (rrPosition record) = Inr aad \<and> length nodeKey = 32
        \<and> position_fits (rrPosition record) (rrEnvelope record)
        \<and> openEnvelopeBytes S (rrEnvelope record) nodeKey aad = Inr current
        \<and> position_fits (rrPosition record) (soEnvelope (rrOrigin record))
        \<and> length (soKeyEnvelope (rrOrigin record)) = KEY_ENVELOPE_BYTES
        \<and> openOriginKey P S (soKeyEnvelope (rrOrigin record)) nodeKey (origin_context record epoch) = Inr key
        \<and> openWithOriginKey D (soEnvelope (rrOrigin record)) key aad = Inr current)"
  by (auto simp: openOrigin_def Let_def split: sum.splits)

text \<open>What an AEAD opens is sixteen bytes shorter than what was sealed.\<close>

definition aead_shortens :: "seal_primitives \<Rightarrow> bool" where
  "aead_shortens S \<longleftrightarrow> (\<forall>c ctx n k m. 16 \<le> length c \<longrightarrow> aead_decrypt S c ctx n k = Some m \<longrightarrow> length c = length m + 16)"

lemma opened_length:
  assumes "aead_shortens S" "openEnvelopeBytes S envelope key aad = Inr m"
  shows "length envelope = 24 + length m + 16" "m \<noteq> []" "length key = 32"
proof -
  from assms(2) obtain nonce body where s: "split_envelope envelope None = Inr (nonce, body)" and k: "length key = 32"
    and d: "aead_decrypt S body aad nonce key = Some m"
    by (auto simp: openEnvelopeBytes_def returns key32_def KEY_BYTES_def decryptKey_def split: if_splits option.splits)
  from split_lengths [OF s] have l: "length nonce = 24" "envelope = nonce @ body" "16 < length body" by simp_all
  from assms(1) d l(3) have "length body = length m + 16" unfolding aead_shortens_def by (meson less_imp_le)
  with l k show "length envelope = 24 + length m + 16" "m \<noteq> []" "length key = 32" by auto
qed

lemma resealed_bytes:
  assumes "aead_correct S" "aead_shortens S" "length nonce = 24" "rekeyEnvelope S nonce envelope oldKey newKey aad = Inr resealed"
    and "openEnvelopeBytes S envelope oldKey aad = Inr m"
  shows "openEnvelopeBytes S resealed newKey aad = Inr m" "length resealed = length envelope"
proof -
  from assms(4,5) have k: "length newKey = 32" and r: "resealed = seal_envelope S nonce m newKey aad"
    by (auto simp: rekeyEnvelope_def returns key32_def KEY_BYTES_def split: if_splits)
  note o = opened_length [OF assms(2,5)]
  from o(2) have m: "0 < length m" by simp
  note s = split_sealed [OF assms(1,3) k m, of aad]
  show "length resealed = length envelope" using s(4) o(1) by (simp add: r)
  show "openEnvelopeBytes S resealed newKey aad = Inr m"
    using s(1,3) k by (simp add: r openEnvelopeBytes_def key32_def KEY_BYTES_def decryptKey_def)
qed

lemma rekeyer_verified:
  assumes "rekeyerIntegrityOf P st given trusted gone \<in> {Verified, Seen}"
  obtains sig signer bytes where "given = Some sig" "trusted = Some signer" "\<not> gone" "st = Inr bytes"
    "verifyStatement P bytes sig (t_current signer)"
  using assms by (auto simp: rekeyerIntegrityOf_def split: option.splits sum.splits thrown.splits if_splits)

lemma refusal_Inr: "refusal r = Inr x \<longleftrightarrow> r = Inr x"
  by (cases r) (simp_all add: refusal_def)

lemma bound_of_False:
  "bound_of opened attested = Some False \<longleftrightarrow> opened = Unbound Bytes_Differ \<or> (opened = Unbound Origin_Refused \<and> attested)"
  by (cases "(opened, attested)" rule: bound_of.cases) auto

lemma bound_of_True: "bound_of opened attested = Some True \<longleftrightarrow> (\<exists>key. opened = Origin_Key key)"
  by (cases "(opened, attested)" rule: bound_of.cases) auto

text \<open>What wraps an origin's key opens to it, in 72 bytes.\<close>

lemma wrapped_origin_opens:
  assumes "aead_correct S" "length nonce = 24" "wrapOriginKey P S nonce key newKey ctx = Inr wrap"
  shows "length wrap = KEY_ENVELOPE_BYTES" "openOriginKey P S wrap newKey ctx = Inr key" "length newKey = 32"
proof -
  from assms(3) obtain aad where c: "originKeyContext P ctx = Inr aad" "wrap = seal_envelope S nonce key newKey aad"
    and k: "length key = KEY_BYTES" "length newKey = 32"
    by (auto simp: wrapOriginKey_def returns key32_def KEY_BYTES_def split: if_splits)
  show "length wrap = KEY_ENVELOPE_BYTES" using split_sealed(4) [OF assms(1,2) k(2), of key aad] k c(2) by (simp add: drive_sizes)
  show "openOriginKey P S wrap newKey ctx = Inr key"
    using open_key_sealed [OF assms(1,2) k(2,1), of aad "invalid ''origin key''"] c k
    by (simp add: openOriginKey_def key32_def KEY_BYTES_def)
qed (use assms(3) in \<open>auto simp: wrapOriginKey_def returns key32_def KEY_BYTES_def split: if_splits\<close>)

section \<open>Properties\<close>

text \<open>The next rotation of a re-keyed record keeps it bound: the wrap it makes and the envelope it seals
  again hold, under the new node key and epoch, the same origin and the same bytes.\<close>

theorem carried_origin_stays_bound:
  assumes "carryOrigin P S D nonce record oldKey newKey targetEpoch = Inr (Some wrap)"
    and "position_aad (rrPosition record) = Inr aad"
    and "rekeyEnvelope S fresh_nonce (rrEnvelope record) oldKey newKey aad = Inr resealed"
    and "aead_correct S" "aead_shortens S" "length nonce = 24" "length fresh_nonce = 24"
  shows "\<exists>key. openOrigin P S D oldKey record (rrKeyEpoch record) = Origin_Key key
    \<and> openOrigin P S D newKey (record\<lparr> rrKeyEpoch := targetEpoch, rrEnvelope := resealed,
          rrOrigin := (rrOrigin record)\<lparr> soKeyEnvelope := wrap \<rparr> \<rparr>) targetEpoch = Origin_Key key"
proof -
  from assms(1) obtain key where o: "openOrigin P S D oldKey record (rrKeyEpoch record) = Origin_Key key"
    and n: "length newKey = 32" and w: "wrapOriginKey P S nonce key newKey (origin_context record targetEpoch) = Inr wrap"
    by (auto simp: carryOrigin_def returns split: if_splits opened_origin.splits unbound.splits)
  from o assms(2) obtain m where m: "position_fits (rrPosition record) (rrEnvelope record)"
      "openEnvelopeBytes S (rrEnvelope record) oldKey aad = Inr m"
      "position_fits (rrPosition record) (soEnvelope (rrOrigin record))"
      "openWithOriginKey D (soEnvelope (rrOrigin record)) key aad = Inr m"
    by (auto simp: openOrigin_key)
  note r = resealed_bytes [OF assms(4,5,7,3) m(2)]
  note l = wrapped_origin_opens(1) [OF assms(4,6) w]
  have "openOriginKey P S wrap newKey (origin_context record targetEpoch) = Inr key" by (rule wrapped_origin_opens(2) [OF assms(4,6) w])
  moreover have "position_fits (rrPosition record) resealed" using m(1) r(2) by (cases "rrPosition record") simp_all
  moreover have "origin_context (record\<lparr> rrKeyEpoch := targetEpoch, rrEnvelope := resealed,
      rrOrigin := (rrOrigin record)\<lparr> soKeyEnvelope := wrap \<rparr> \<rparr>) targetEpoch = origin_context record targetEpoch"
    by (simp add: origin_context_def)
  ultimately show ?thesis using o m n l r(1) assms(2) by (simp add: openOrigin_key)
qed

text \<open>C10. A record shown as written by its writer holds what they wrote: where the origin's verdict is verified,
  the bytes under the reader's node key are those the origin holds, and the writer's signature is over it.\<close>

theorem rekeyed_record_is_what_was_written:
  assumes "rvOrigin (rekeyedIntegrityOf P S D record nodeKey trust) = Verified"
  shows "\<exists>key signer rekeyer aad m originKey sig forms. nodeKey = Some key \<and> trust = Some (Some signer, rekeyer)
    \<and> position_aad (rrPosition record) = Inr aad
    \<and> openEnvelopeBytes S (rrEnvelope record) key aad = Inr m
    \<and> openOriginKey P S (soKeyEnvelope (rrOrigin record)) key (origin_context record (rrKeyEpoch record)) = Inr originKey
    \<and> openWithOriginKey D (soEnvelope (rrOrigin record)) originKey aad = Inr m
    \<and> soSignerId (rrOrigin record) \<noteq> None \<and> soSignature (rrOrigin record) = Some sig
    \<and> origin_statements P record = Inr forms
    \<and> verifyStatement P (f_ordinary forms) sig (t_current signer)"
proof -
  from assms obtain key origin_trust rekeyer where n: "nodeKey = Some key" "trust = Some (origin_trust, rekeyer)"
    by (auto simp: rekeyedIntegrityOf_def unchecked_record_def split: option.splits)
  let ?checks = "rekeyedChecks P S D record key"
  from assms n have b: "bound_of (rcOpened ?checks) (rcRekeyerVerdict ?checks rekeyer = Verified \<or> rcRekeyerVerdict ?checks rekeyer = Seen)
      = Some True" and v: "rcOriginVerdict ?checks origin_trust = Verified"
    by (auto simp: rekeyedIntegrityOf_def Let_def split: option.splits if_splits bool.splits)
  from b obtain originKey where o: "openOrigin P S D key record (rrKeyEpoch record) = Origin_Key originKey"
    by (auto simp: bound_of_True rekeyedChecks_def Let_def)
  from v obtain signer sig forms where "origin_trust = Some signer" "soSignerId (rrOrigin record) \<noteq> None"
    "soSignature (rrOrigin record) = Some sig" "origin_statements P record = Inr forms"
    "verifyStatement P (f_ordinary forms) sig (t_current signer)"
    by (auto simp: rekeyedChecks_def Let_def integrityOf_def refusal_Inr split: option.splits sum.splits thrown.splits if_splits)
  with o n show ?thesis by (auto simp: openOrigin_key)
qed


end
