(* ===== verification/Sample_Drive.thy ===== *)
theory Sample_Drive
  imports Sample_Seals Rekeyed
begin

text \<open>
  The witnesses of drives: libsodium's other primitives as the real ones promise, a small file, places, an
  envelope and a record re-keyed once.
\<close>

definition sample_drive :: drive_primitives where
  "sample_drive = \<lparr> chacha20poly1305_ietf_decrypt = (\<lambda>c aad n k. Some (take (length c - 16) c)),
     crypto_kdf_derive_from_key = (\<lambda>len index ctx key. replicate len 0),
     crypto_generichash = (\<lambda>len text key. replicate len 0) \<rparr>"

lemma sample_drive_promises:
  "xchacha_is_chacha sample_seals sample_drive" "aead_shortens sample_seals"
  "length (crypto_kdf_derive_from_key sample_drive 32 1 c key) = 32"
  by (auto simp: xchacha_is_chacha_def aead_shortens_def sample_drive_def sample_seals_def)

lemma sample_ids: "is_uuid (sample_uuid CHR ''a'')" "is_uuid (sample_uuid CHR ''c'')" "is_uuid (sample_uuid CHR ''e'')"
  by (simp_all add: sample_uuid_ok hex_char_def)

section \<open>Sizes and files\<close>

lemma digits_1000: "binary_digits 1000 = 10" "binary_digits 10 = 4" "binary_digits 9 = 4" "binary_digits 4 = 3"
  by (simp_all add: binary_digits.simps)

lemma padded_1000: "paddedLength 1000 = Inr 1024"
  by (simp add: paddedLength_def) code_simp

lemma padded_999: "paddedLength 999 = Inr 1024"
  by (simp add: paddedLength_def) code_simp

theorem padme_buckets_witness:
  "paddedLength 1000 = Inr 1024 \<and> paddedLength 1024 = Inr 1024 \<and> (\<exists>b. paddedLength 999 = Inr b \<and> b \<le> 1024)"
proof -
  have "(1024 :: int) \<le> 1024"
    using padme_buckets [OF padded_1000] padded_999 by (elim conjE allE [of _ 999] allE [of _ 1024]) simp
  then show ?thesis using padme_buckets [OF padded_1000] padded_1000 padded_999 by simp
qed

definition sample_upload :: upload where
  "sample_upload = \<lparr> upWorkspaceId = sample_uuid CHR ''e'', upContentKey = replicate 32 1, upContentNonce = replicate 16 2,
     upPlaintextSize = 3, upContentLength = 256, upChunkCount = 1, upThumbnailBytes = 0, upThumbnail = None \<rparr>"

lemma sample_prepared:
  "prepare_upload sample_seals sample_drive (replicate 32 1) (replicate 16 2) (sample_uuid CHR ''e'') (sample_uuid CHR ''c'')
     (int (length ([1, 2, 3] :: bytes))) None = Inr sample_upload"
proof -
  have "paddedLength 3 = Inr 256" by (simp add: paddedLength_Inr MAX_SAFE_INTEGER_def)
  then have "contentLength CONTENT_SUITE 3 0 = Inr 256"
    by (simp add: contentLength_Inr CONTENT_SUITE_def trailerLength_def isSafeInteger_def MAX_SAFE_INTEGER_def)
  moreover have "chunkCount 256 = Inr 1" by (simp add: chunkCount_Inr CHUNK_SIZE_def MAX_SAFE_INTEGER_def)
  ultimately show ?thesis by (simp add: prepare_upload_def sample_upload_def)
qed

theorem uploaded_file_reads_back_witness:
  "\<exists>parts dl pieces.
      mapE (\<lambda>i. upload_part sample_seals sample_upload (sample_uuid CHR ''c'') (Blob [1, 2, 3]) (int i)) [0..<1] = Inr parts
    \<and> open_download (sample_uuid CHR ''e'') (sample_uuid CHR ''c'') CONTENT_SUITE (replicate 32 1) (replicate 16 2) 3 0 = Inr dl
    \<and> mapE (\<lambda>i. download_chunk sample_seals dl (store (concat parts)) (int i)) [0..<nat (dlChunkCount dl)] = Inr (map Taken pieces)
    \<and> concat pieces = [1, 2, 3]"
proof -
  have "length (replicate 32 1 :: bytes) = 32" "length (replicate 16 2 :: bytes) = 16" by simp_all
  from uploaded_file_reads_back [OF sample_prepared sample_seals_promise(2) sample_drive_promises(3) this]
  have "\<exists>parts dl pieces.
      mapE (\<lambda>i. upload_part sample_seals sample_upload (sample_uuid CHR ''c'') (Blob [1, 2, 3]) (int i)) [0..<nat (upChunkCount sample_upload)] = Inr parts
    \<and> open_download (sample_uuid CHR ''e'') (sample_uuid CHR ''c'') CONTENT_SUITE (replicate 32 1) (replicate 16 2)
        (int (length ([1, 2, 3] :: bytes))) (upThumbnailBytes sample_upload) = Inr dl
    \<and> mapE (\<lambda>i. download_chunk sample_seals dl (store (concat parts)) (int i)) [0..<nat (dlChunkCount dl)] = Inr (map Taken pieces)
    \<and> concat pieces = [1, 2, 3]"
    using sample_ids(2,3) by blast
  then show ?thesis by (simp add: sample_upload_def)
qed

section \<open>Places and envelopes\<close>

definition sample_chunk :: "int \<Rightarrow> chunk_context" where
  "sample_chunk t = \<lparr> ccWorkspaceId = sample_uuid CHR ''e'', ccObjectId = sample_uuid CHR ''c'', ccSuite = 3,
     ccIndex = 0, ccChunkCount = 1, ccPlaintextSize = 3, ccThumbnailBytes = t \<rparr>"

lemma sample_chunk_bound: "\<exists>aad. chunkContext (sample_chunk 0) = Inr aad \<and> chunkContext (sample_chunk 5) = Inr aad"
  using sample_ids by (simp add: chunkContext_def sample_chunk_def drive_id_def checkSuite_def drive_suites)

theorem one_place_one_binding_witness:
  "\<exists>aad. place_bytes chain_primitives (Chunk_At (sample_chunk 0)) = Inr aad
    \<and> place_bytes chain_primitives (Chunk_At (sample_chunk 5)) = Inr aad
    \<and> named_part chain_primitives (Chunk_At (sample_chunk 0)) = named_part chain_primitives (Chunk_At (sample_chunk 5))"
proof -
  obtain aad where a: "place_bytes chain_primitives (Chunk_At (sample_chunk 0)) = Inr aad"
    "place_bytes chain_primitives (Chunk_At (sample_chunk 5)) = Inr aad" using sample_chunk_bound by auto
  have "counted (Chunk_At (sample_chunk 0))" "counted (Chunk_At (sample_chunk 5))" by (simp_all add: sample_chunk_def)
  from one_place_one_binding [OF a this sample_seals_promise(4)] a show ?thesis by blast
qed


section \<open>A re-keyed record\<close>

definition sample_envelope :: "byte \<Rightarrow> bytes" where
  "sample_envelope n = replicate 24 0 @ replicate 20 n @ replicate 16 0"

definition sample_position :: metadata_statement where
  "sample_position = \<lparr> m_workspaceId = sample_uuid CHR ''e'', m_nodeId = sample_uuid CHR ''c'', m_kind = ''file'', metadataVersion = 1 \<rparr>"

definition sample_rekeyed :: "byte \<Rightarrow> rekeyed_record" where
  "sample_rekeyed n = \<lparr> rrPosition = Rekeyed_Metadata sample_position, rrKeyEpoch = 2, rrEnvelope = sample_envelope 5,
     rrOrigin = \<lparr> soEnvelope = sample_envelope n, soSignerId = Some (sample_uuid CHR ''a''), soSignature = Some (replicate 64 0),
       soKeyEnvelope = replicate 24 0 @ replicate 32 4 @ replicate 16 0 \<rparr>,
     rrRekeySignature = None \<rparr>"

lemma sample_opened:
  "openOrigin chain_primitives sample_seals sample_drive (replicate 32 1) (sample_rekeyed n) 2
     = (if n = 5 then Origin_Key (replicate 32 4) else Unbound Bytes_Differ)"
proof -
  have a: "\<exists>aad. position_aad (rrPosition (sample_rekeyed n)) = Inr aad"
    using sample_ids by (simp add: sample_rekeyed_def sample_position_def metadataContext_def drive_id_def epoch_field_def
        isSafeInteger_def MAX_SAFE_INTEGER_def)
  have o: "\<exists>aad. originKeyContext chain_primitives (origin_context (sample_rekeyed n) 2) = Inr aad"
    using sample_ids by (simp add: originKeyContext_def origin_context_def sample_rekeyed_def sample_position_def drive_id_def
        epoch_field_def isSafeInteger_def MAX_SAFE_INTEGER_def)
  have m: "openEnvelopeBytes sample_seals (sample_envelope k) (replicate 32 1) aad = Inr (replicate 20 k)" for k aad
    by (simp add: openEnvelopeBytes_def split_envelope_def sample_envelope_def key32_def drive_sizes decryptKey_def)
      (simp add: sample_seals_def)
  have w: "openWithOriginKey sample_drive (sample_envelope k) (replicate 32 4) aad = Inr (replicate 20 k)" for k aad
    by (simp add: openWithOriginKey_def split_envelope_def sample_envelope_def key32_def drive_sizes)
      (simp add: sample_drive_def)
  have k: "openOriginKey chain_primitives sample_seals (soKeyEnvelope (rrOrigin (sample_rekeyed n))) (replicate 32 1)
      (origin_context (sample_rekeyed n) 2) = Inr (replicate 32 4)"
    using o by (auto simp: openOriginKey_def open_key_def split_envelope_def key32_def drive_sizes decryptKey_def sample_rekeyed_def)
      (simp add: sample_seals_def)
  have f: "position_fits (rrPosition (sample_rekeyed n)) (sample_envelope k)" for k
    by (simp add: sample_rekeyed_def sample_envelope_def METADATA_ENVELOPE_MAX_BYTES_def METADATA_MAX_BYTES_def drive_sizes)
  have s: "rrEnvelope (sample_rekeyed n) = sample_envelope 5" "soEnvelope (rrOrigin (sample_rekeyed n)) = sample_envelope n"
    "length (soKeyEnvelope (rrOrigin (sample_rekeyed n))) = 72"
    by (simp_all add: sample_rekeyed_def)
  obtain aad where "position_aad (rrPosition (sample_rekeyed n)) = Inr aad" using a by blast
  then show ?thesis by (simp add: openOrigin_def Let_def s f m w k drive_sizes)
qed

theorem carried_origin_stays_bound_witness:
  "\<exists>wrap resealed key. carryOrigin chain_primitives sample_seals sample_drive (replicate 24 0) (sample_rekeyed 5) (replicate 32 1)
      (replicate 32 6) 3 = Inr (Some wrap)
    \<and> openOrigin chain_primitives sample_seals sample_drive (replicate 32 6) ((sample_rekeyed 5)\<lparr> rrKeyEpoch := 3, rrEnvelope := resealed,
        rrOrigin := (rrOrigin (sample_rekeyed 5))\<lparr> soKeyEnvelope := wrap \<rparr> \<rparr>) 3 = Origin_Key key"
proof -
  have e: "rrKeyEpoch (sample_rekeyed 5) = 2" by (simp add: sample_rekeyed_def)
  have c: "\<exists>aad. originKeyContext chain_primitives (origin_context (sample_rekeyed 5) 3) = Inr aad"
    using sample_ids by (simp add: originKeyContext_def origin_context_def sample_rekeyed_def sample_position_def drive_id_def
        epoch_field_def isSafeInteger_def MAX_SAFE_INTEGER_def)
  then obtain wrap where w: "carryOrigin chain_primitives sample_seals sample_drive (replicate 24 0) (sample_rekeyed 5) (replicate 32 1)
      (replicate 32 6) 3 = Inr (Some wrap)"
    by (auto simp: carryOrigin_def e sample_opened wrapOriginKey_def key32_def drive_sizes)
  obtain aad where a: "position_aad (rrPosition (sample_rekeyed 5)) = Inr aad"
    using sample_ids by (simp add: sample_rekeyed_def sample_position_def metadataContext_def drive_id_def epoch_field_def
        isSafeInteger_def MAX_SAFE_INTEGER_def)
  have "\<exists>resealed. rekeyEnvelope sample_seals (replicate 24 0) (rrEnvelope (sample_rekeyed 5)) (replicate 32 1) (replicate 32 6) aad = Inr resealed"
    by (simp add: rekeyEnvelope_def openEnvelopeBytes_def split_envelope_def sample_envelope_def key32_def drive_sizes decryptKey_def sample_rekeyed_def)
      (simp add: sample_seals_def)
  then obtain resealed where r: "rekeyEnvelope sample_seals (replicate 24 0) (rrEnvelope (sample_rekeyed 5)) (replicate 32 1) (replicate 32 6) aad = Inr resealed"
    by blast
  from carried_origin_stays_bound [OF w a r sample_seals_promise(2) sample_drive_promises(2)] w show ?thesis by auto
qed


theorem rekeyed_record_is_what_was_written_witness:
  "rvOrigin (rekeyedIntegrityOf chain_primitives sample_seals sample_drive (sample_rekeyed 5) (Some (replicate 32 1))
      (Some (Some \<lparr> t_current = replicate 32 2, t_retired = [], t_seen = False \<rparr>, None))) = Verified
    \<and> (\<exists>forms. origin_statements chain_primitives (sample_rekeyed 5) = Inr forms
        \<and> verifyStatement chain_primitives (f_ordinary forms) (replicate 64 0) (replicate 32 2))"
proof -
  let ?trust = "Some (Some \<lparr> t_current = replicate 32 2, t_retired = [], t_seen = False \<rparr>, None)"
  have e: "rrKeyEpoch (sample_rekeyed 5) = 2" "soSignature (rrOrigin (sample_rekeyed 5)) = Some (replicate 64 0)"
    "soSignerId (rrOrigin (sample_rekeyed 5)) = Some (sample_uuid CHR ''a'')" by (simp_all add: sample_rekeyed_def)
  have "sample_uuid c \<noteq> []" for c by (simp add: sample_uuid_def)
  then obtain forms where f: "origin_statements chain_primitives (sample_rekeyed 5) = Inr forms"
    by (auto simp: origin_statements_def sample_rekeyed_def sample_position_def metadataStatements_def metadataStatement_def
      metadataSavedStatement_def metadataResealedStatement_def metadataParts_def node_kind_def text_field_def count_field_def
      isSafeInteger_def MAX_SAFE_INTEGER_def)
  have "verifyStatement chain_primitives m (replicate 64 0) (replicate 32 2)" for m
    by (simp add: verifyStatement_def SIGNATURE_BYTES_def SIGNING_PUBLIC_KEY_BYTES_def) (simp add: chain_primitives_def)
  then have "rvOrigin (rekeyedIntegrityOf chain_primitives sample_seals sample_drive (sample_rekeyed 5) (Some (replicate 32 1)) ?trust) = Verified"
    by (simp add: rekeyedIntegrityOf_def Let_def rekeyedChecks_def e sample_opened integrityOf_def f refusal_def)
  from rekeyed_record_is_what_was_written [OF this] this show ?thesis by (auto simp: e)
qed

end
