(* ===== verification/Rotation_Records.thy ===== *)
theory Rotation_Records
  imports Rekeyed
begin

text \<open>
  \<open>packages/crypto/src/rotation-records.ts\<close> with \<open>rekeyed-scope.ts\<close>: one node's key, metadata and versions sealed
  again by a rotation in a family folder, each record kept as its writer's where it can be (\<open>rekeyRecord\<close>,
  \<open>rekeyNode\<close>). What a personal workspace's rotation runs instead is in
  \<open>Rotated_Links\<close>. The judge of the worker (\<open>group-verdicts.ts\<close>) is an argument: it answers with the form of a
  legacy signature, or with none. Nonces are arguments.
\<close>

section \<open>What is rotated\<close>

record served_rekey =
  kkEnvelope :: string
  kkSignerId :: "string option"
  kkSignature :: string
  kkKeyEnvelope :: string
  kkRekeySignature :: string

record rotation_signer =
  rsUserId :: string
  rsSigningKey :: bytes
  rsHybridKeys :: hybrid_signing_key

record reseal_input =
  riPosition :: rekeyed_position
  riAad :: bytes
  riEnvelope :: bytes
  riSigner :: "string option"
  riSignature :: "string option"
  riRekey :: "served_rekey option"
  riKeyEpoch :: int
  riTargetEpoch :: int
  riOld :: bytes
  riFresh :: bytes

type_synonym record_judge = "(crypto_error + statement_forms) \<Rightarrow> string option \<Rightarrow> string option \<Rightarrow> crypto_error + signature_form option"

text \<open>\<open>{ envelope } & RotatedRecord\<close>; a re-key is the origin key's envelope and the signature.\<close>

record resealed_record =
  reEnvelope :: bytes
  reSignature :: "string option"
  reRekey :: "(string \<times> string) option"
  reDropOrigin :: bool

datatype workspace_owner = Personal_Owner | Group_Owner

definition rekeyedFor :: "workspace_owner \<Rightarrow> bool" where
  "rekeyedFor owner \<longleftrightarrow> owner = Group_Owner"

section \<open>One record (rekeyRecord)\<close>

definition sign_rotation :: "seal_primitives \<Rightarrow> crypto_error + rotation_signer \<Rightarrow> bytes \<Rightarrow> crypto_error + string" where
  "sign_rotation S signer st =
     bindE signer (\<lambda>by. bindE (signStatement S st (rsSigningKey by)) (\<lambda>sig. Inr (encode sig)))"

definition statements_over :: "primitives \<Rightarrow> rekeyed_position \<Rightarrow> bytes \<Rightarrow> crypto_error + statement_forms" where
  "statements_over P position_of envelope =
     (case position_of of Rekeyed_Metadata m \<Rightarrow> metadataStatements P m envelope | Rekeyed_Version v \<Rightarrow> versionStatements P v envelope)"

definition legacy_over :: "primitives \<Rightarrow> seal_primitives \<Rightarrow> crypto_error + rotation_signer \<Rightarrow> rekeyed_position \<Rightarrow> bytes
    \<Rightarrow> signature_form \<Rightarrow> crypto_error + string" where
  "legacy_over P S signer position_of envelope form =
     bindE (case position_of of Rekeyed_Metadata m \<Rightarrow> metadataStatementAs P form m envelope
       | Rekeyed_Version v \<Rightarrow> versionStatementAs P form v envelope) (sign_rotation S signer)"

definition rekeyed_over :: "primitives \<Rightarrow> rekeyed_position \<Rightarrow> int \<Rightarrow> bytes \<Rightarrow> record_origin \<Rightarrow> crypto_error + bytes" where
  "rekeyed_over P position_of epoch envelope origin =
     (case position_of of Rekeyed_Metadata m \<Rightarrow> metadataRekeyedStatement P m epoch envelope origin
      | Rekeyed_Version v \<Rightarrow> versionRekeyedStatement P v epoch envelope origin)"

text \<open>The served record as the reader's check takes it; \<open>decode\<close> refuses what is no base64url.\<close>

definition carried_record :: "reseal_input \<Rightarrow> served_rekey \<Rightarrow> crypto_error + rekeyed_record" where
  "carried_record input served =
     bindE (decode (kkEnvelope served) None) (\<lambda>envelope.
     bindE (decode (kkSignature served) None) (\<lambda>sig.
     bindE (decode (kkKeyEnvelope served) None) (\<lambda>wrap.
     bindE (decode (kkRekeySignature served) None) (\<lambda>rekey_sig.
       Inr \<lparr> rrPosition = riPosition input, rrKeyEpoch = riKeyEpoch input, rrEnvelope = riEnvelope input,
         rrOrigin = \<lparr> soEnvelope = envelope, soSignerId = kkSignerId served, soSignature = Some sig, soKeyEnvelope = wrap \<rparr>,
         rrRekeySignature = Some rekey_sig \<rparr>))))"

text \<open>The origin a rotation keeps: the one carried on, the record itself, or none (dropped, or never there).\<close>

datatype kept_origin = Kept record_origin | Not_Kept bool

definition own_context :: "reseal_input \<Rightarrow> origin_key_context" where
  "own_context input = \<lparr> okWorkspaceId = fst (position_ids (riPosition input)), okNodeId = snd (position_ids (riPosition input)),
     okKeyEpoch = riTargetEpoch input, okRecord = position_origin (riPosition input), okOriginEnvelope = riEnvelope input \<rparr>"

definition origin_to_keep :: "primitives \<Rightarrow> seal_primitives \<Rightarrow> drive_primitives \<Rightarrow> bytes \<Rightarrow> reseal_input \<Rightarrow> crypto_error + kept_origin" where
  "origin_to_keep P S D nonce input =
     (case riRekey input of
        Some served \<Rightarrow>
          if falsy (kkSignerId served) \<or> kkSignature served = [] then Inr (Not_Kept True)
          else bindE (carried_record input served) (\<lambda>carried.
            bindE (carryOrigin P S D nonce carried (riOld input) (riFresh input) (riTargetEpoch input)) (\<lambda>wrapped.
              case wrapped of None \<Rightarrow> Inr (Not_Kept True)
              | Some wrap \<Rightarrow> Inr (Kept \<lparr> o_envelope = soEnvelope (rrOrigin carried), o_signerId = the (kkSignerId served),
                  o_signature = the (soSignature (rrOrigin carried)), o_keyEnvelope = wrap \<rparr>)))
      | None \<Rightarrow>
          if falsy (riSigner input) \<or> falsy (riSignature input) then Inr (Not_Kept False)
          else bindE (originOpeningKey (riEnvelope input) (riOld input)) (\<lambda>opening.
            bindE (decode (the (riSignature input)) None) (\<lambda>sig.
            bindE (wrapOriginKey P S nonce opening (riFresh input) (own_context input)) (\<lambda>wrap.
              Inr (Kept \<lparr> o_envelope = riEnvelope input, o_signerId = the (riSigner input), o_signature = sig,
                o_keyEnvelope = wrap \<rparr>)))))"

definition rekeyRecord :: "primitives \<Rightarrow> seal_primitives \<Rightarrow> drive_primitives \<Rightarrow> crypto_error + rotation_signer \<Rightarrow> record_judge
    \<Rightarrow> bytes \<times> bytes \<Rightarrow> reseal_input \<Rightarrow> crypto_error + resealed_record" where
  "rekeyRecord P S D signer judge nonces input =
     bindE (rekeyEnvelope S (fst nonces) (riEnvelope input) (riOld input) (riFresh input) (riAad input)) (\<lambda>sealed_again.
     bindE (origin_to_keep P S D (snd nonces) input) (\<lambda>kept.
       case kept of
         Not_Kept dropped \<Rightarrow>
           bindE (legacy_over P S signer (riPosition input) sealed_again ResealedForm) (\<lambda>sig.
             Inr \<lparr> reEnvelope = sealed_again, reSignature = Some sig, reRekey = None, reDropOrigin = dropped \<rparr>)
       | Kept origin \<Rightarrow>
           bindE (rekeyed_over P (riPosition input) (riTargetEpoch input) sealed_again origin) (\<lambda>st.
           bindE (judge (statements_over P (riPosition input) (o_envelope origin)) (Some (o_signerId origin))
             (Some (encode (o_signature origin)))) (\<lambda>legacy.
           bindE (case legacy of None \<Rightarrow> Inr None
             | Some form \<Rightarrow> bindE (legacy_over P S signer (riPosition input) sealed_again form) (\<lambda>sig. Inr (Some sig))) (\<lambda>sig.
           bindE (sign_rotation S signer st) (\<lambda>rekey_sig.
             Inr \<lparr> reEnvelope = sealed_again, reSignature = sig,
               reRekey = Some (encode (o_keyEnvelope origin), rekey_sig), reDropOrigin = False \<rparr>))))))"

section \<open>One node (rekeyNode, in a family folder)\<close>

record rotate_version =
  roVersionId :: string
  roObjectId :: string
  roContentKeyEnvelope :: string
  roContentSuite :: int
  roSigner :: "string option"
  roSignature :: "string option"
  roRekey :: "served_rekey option"

record rotate_node_input =
  rnId :: string
  rnKind :: string
  rnParentId :: string
  rnParentKeyEpoch :: int
  rnKeyEpoch :: int
  rnMetadataVersion :: int
  rnMetadataEnvelope :: string
  rnMetadataSigner :: "string option"
  rnMetadataSignature :: "string option"
  rnMetadataRekey :: "served_rekey option"
  rnVersions :: "rotate_version list"
  rnShareIds :: "string list"
  rnLinkIds :: "string list"

record rekeyed_node =
  knId :: string
  knKeyEnvelope :: string
  knMetadata :: resealed_record
  knVersions :: "(string \<times> resealed_record) list"

definition SHARED_IN_FAMILY :: crypto_error where
  "SHARED_IN_FAMILY = CryptoError ''This item has shares or links, which a family folder never has, so it was not re-keyed.''"

definition metadata_of :: "string \<Rightarrow> rotate_node_input \<Rightarrow> metadata_statement" where
  "metadata_of w node = \<lparr> m_workspaceId = w, m_nodeId = rnId node, m_kind = rnKind node, metadataVersion = rnMetadataVersion node \<rparr>"

definition version_of :: "string \<Rightarrow> rotate_node_input \<Rightarrow> rotate_version \<Rightarrow> version_statement" where
  "version_of w node version = \<lparr> v_workspaceId = w, v_nodeId = rnId node, v_versionId = roVersionId version,
     v_objectId = roObjectId version, contentSuite = roContentSuite version \<rparr>"

definition metadata_input :: "string \<Rightarrow> int \<Rightarrow> bytes \<Rightarrow> bytes \<Rightarrow> rotate_node_input \<Rightarrow> crypto_error + reseal_input" where
  "metadata_input w targetEpoch old fresh node =
     bindE (position_aad (Rekeyed_Metadata (metadata_of w node))) (\<lambda>aad.
     bindE (decode (rnMetadataEnvelope node) None) (\<lambda>envelope.
       Inr \<lparr> riPosition = Rekeyed_Metadata (metadata_of w node), riAad = aad, riEnvelope = envelope,
         riSigner = rnMetadataSigner node, riSignature = rnMetadataSignature node, riRekey = rnMetadataRekey node,
         riKeyEpoch = rnKeyEpoch node, riTargetEpoch = targetEpoch, riOld = old, riFresh = fresh \<rparr>))"

definition version_input :: "string \<Rightarrow> int \<Rightarrow> bytes \<Rightarrow> bytes \<Rightarrow> rotate_node_input \<Rightarrow> rotate_version \<Rightarrow> crypto_error + reseal_input" where
  "version_input w targetEpoch old fresh node version =
     bindE (decode (roContentKeyEnvelope version)
       (Some (if roContentSuite version = LEGACY_CONTENT_SUITE then KEY_ENVELOPE_BYTES else VERSION_ENVELOPE_BYTES))) (\<lambda>envelope.
     bindE (position_aad (Rekeyed_Version (version_of w node version))) (\<lambda>aad.
       Inr \<lparr> riPosition = Rekeyed_Version (version_of w node version), riAad = aad, riEnvelope = envelope,
         riSigner = roSigner version, riSignature = roSignature version, riRekey = roRekey version,
         riKeyEpoch = rnKeyEpoch node, riTargetEpoch = targetEpoch, riOld = old, riFresh = fresh \<rparr>))"

text \<open>The nonces drawn: the key envelope's, the metadata's two, and two for each version, by its place.\<close>

record rotation_nonces =
  nnKey :: bytes
  nnMetadata :: "bytes \<times> bytes"
  nnVersions :: "nat \<Rightarrow> bytes \<times> bytes"

definition rekeyNode :: "primitives \<Rightarrow> seal_primitives \<Rightarrow> drive_primitives \<Rightarrow> crypto_error + rotation_signer \<Rightarrow> record_judge
    \<Rightarrow> rotation_nonces \<Rightarrow> string \<Rightarrow> int \<Rightarrow> rotate_node_input \<Rightarrow> bytes \<Rightarrow> bytes \<Rightarrow> bytes \<Rightarrow> crypto_error + rekeyed_node" where
  "rekeyNode P S D signer judge nonces w targetEpoch node old fresh parentKey =
     bindE signer (\<lambda>_.
     bindE (refuse_if (rnShareIds node \<noteq> [] \<or> rnLinkIds node \<noteq> []) SHARED_IN_FAMILY) (\<lambda>_.
     bindE (wrapNodeKey S (nnKey nonces) fresh parentKey \<lparr> nkWorkspaceId = w, nkNodeId = rnId node, nkParentId = rnParentId node,
       nkParentKeyEpoch = rnParentKeyEpoch node, nkKeyEpoch = targetEpoch \<rparr>) (\<lambda>keyEnvelope.
     bindE (metadata_input w targetEpoch old fresh node) (\<lambda>input.
     bindE (rekeyRecord P S D signer judge (nnMetadata nonces) input) (\<lambda>metadata.
     bindE (mapE (\<lambda>(i, version).
       bindE (version_input w targetEpoch old fresh node version) (\<lambda>input.
       bindE (rekeyRecord P S D signer judge (nnVersions nonces i) input) (\<lambda>record.
         Inr (roVersionId version, record)))) (enumerate 0 (rnVersions node))) (\<lambda>versions.
       Inr \<lparr> knId = rnId node, knKeyEnvelope = encode keyEnvelope, knMetadata = metadata, knVersions = versions \<rparr>))))))"

section \<open>Read again\<close>

text \<open>The record its writer made, as the origin kept names it: the record itself, or the origin served with it.\<close>

definition written_origin :: "reseal_input \<Rightarrow> crypto_error + bytes \<times> string \<times> bytes" where
  "written_origin input =
     (case riRekey input of
        None \<Rightarrow> bindE (decode (the (riSignature input)) None) (\<lambda>sig. Inr (riEnvelope input, the (riSigner input), sig))
      | Some served \<Rightarrow>
          bindE (decode (kkEnvelope served) None) (\<lambda>envelope.
          bindE (decode (kkSignature served) None) (\<lambda>sig. Inr (envelope, the (kkSignerId served), sig))))"

text \<open>What the server serves a reader after the rotation: the origin beside what was sealed again.\<close>

definition read_again :: "reseal_input \<Rightarrow> resealed_record \<Rightarrow> crypto_error + rekeyed_record" where
  "read_again input out =
     bindE (written_origin input) (\<lambda>(envelope, who, sig).
     bindE (decode (fst (the (reRekey out))) None) (\<lambda>wrap.
     bindE (decode (snd (the (reRekey out))) None) (\<lambda>rekey_sig.
       Inr \<lparr> rrPosition = riPosition input, rrKeyEpoch = riTargetEpoch input, rrEnvelope = reEnvelope out,
         rrOrigin = \<lparr> soEnvelope = envelope, soSignerId = Some who, soSignature = Some sig, soKeyEnvelope = wrap \<rparr>,
         rrRekeySignature = Some rekey_sig \<rparr>)))"

text \<open>What the open identity signs verifies under its public key.\<close>

definition signs :: "primitives \<Rightarrow> seal_primitives \<Rightarrow> bytes \<Rightarrow> bytes \<Rightarrow> bool" where
  "signs P S secret public \<longleftrightarrow> (\<forall>m sig. signStatement S m secret = Inr sig \<longrightarrow> verifyStatement P m sig public)"

definition kept_context :: "reseal_input \<Rightarrow> record_origin \<Rightarrow> origin_key_context" where
  "kept_context input origin = (own_context input)\<lparr> okOriginEnvelope := o_envelope origin \<rparr>"

lemma kept_origin_opens:
  assumes "origin_to_keep P S D nonce input = Inr (Kept origin)" "openEnvelopeBytes S (riEnvelope input) (riOld input) aad = Inr m"
    and "position_aad (riPosition input) = Inr aad" "position_fits (riPosition input) (riEnvelope input)" "xchacha_is_chacha S D"
  obtains key where "openWithOriginKey D (o_envelope origin) key aad = Inr m" "position_fits (riPosition input) (o_envelope origin)"
    "wrapOriginKey P S nonce key (riFresh input) (kept_context input origin) = Inr (o_keyEnvelope origin)"
    "written_origin input = Inr (o_envelope origin, o_signerId origin, o_signature origin)"
proof (cases "riRekey input")
  case None
  with assms(1) obtain unlocking sig wrap where o: "originOpeningKey (riEnvelope input) (riOld input) = Inr unlocking"
    "decode (the (riSignature input)) None = Inr sig" "wrapOriginKey P S nonce unlocking (riFresh input) (own_context input) = Inr wrap"
    "origin = \<lparr> o_envelope = riEnvelope input, o_signerId = the (riSigner input), o_signature = sig, o_keyEnvelope = wrap \<rparr>"
    by (auto simp: origin_to_keep_def returns split: if_splits)
  from o(1) obtain nonce' body where s: "split_envelope (riEnvelope input) None = Inr (nonce', body)"
    and k: "length (riOld input) = 32" "unlocking = hchacha20 (riOld input) (take 16 nonce')"
    by (auto simp: originOpeningKey_def returns key32_def KEY_BYTES_def split: if_splits)
  have "openWithOriginKey D (riEnvelope input) unlocking aad = Inr m"
    using origin_key_opens(2) [OF assms(5) k(1) s] assms(2) k(2) by simp
  with o None assms(4) show thesis
    by (intro that [of unlocking]) (simp_all add: kept_context_def own_context_def written_origin_def)
next
  case (Some served)
  with assms(1) obtain carried wrap where c: "carried_record input served = Inr carried"
    "carryOrigin P S D nonce carried (riOld input) (riFresh input) (riTargetEpoch input) = Inr (Some wrap)"
    "origin = \<lparr> o_envelope = soEnvelope (rrOrigin carried), o_signerId = the (kkSignerId served),
       o_signature = the (soSignature (rrOrigin carried)), o_keyEnvelope = wrap \<rparr>"
    by (auto simp: origin_to_keep_def returns split: if_splits option.splits)
  have f: "rrPosition carried = riPosition input" "rrEnvelope carried = riEnvelope input" using c(1) by (auto simp: carried_record_def returns)
  from c(2) obtain key where o: "openOrigin P S D (riOld input) carried (rrKeyEpoch carried) = Origin_Key key"
    and w: "wrapOriginKey P S nonce key (riFresh input) (origin_context carried (riTargetEpoch input)) = Inr wrap"
    by (auto simp: carryOrigin_def returns split: if_splits opened_origin.splits unbound.splits)
  have "origin_context carried (riTargetEpoch input) = kept_context input origin"
    by (simp add: origin_context_def kept_context_def own_context_def f c(3))
  moreover have "written_origin input = Inr (o_envelope origin, o_signerId origin, o_signature origin)"
    using c(1) by (auto simp: written_origin_def Some c(3) carried_record_def returns)
  ultimately show thesis using o w assms(2,3) by (intro that [of key]) (auto simp: openOrigin_key f c(3))
qed

section \<open>Properties\<close>

text \<open>C11. A rotation keeps a record its writer's: what a reader is served after it, a record re-keyed for the first time or
  one re-keyed before, is bound to what its writer made, with the verdict on the writer that record had, and names who
  re-keyed it, whose signature holds.\<close>

theorem rotation_keeps_the_writer:
  assumes "rekeyRecord P S D (Inr by) judge nonces input = Inr out" "reRekey out \<noteq> None"
    and "position_aad (riPosition input) = Inr (riAad input)" "position_fits (riPosition input) (riEnvelope input)"
    and "aead_correct S" "aead_shortens S" "xchacha_is_chacha S D" "signs P S (rsSigningKey by) public"
    and "length (fst nonces) = 24" "length (snd nonces) = 24"
  shows "\<exists>record envelope who sig. written_origin input = Inr (envelope, who, sig) \<and> read_again input out = Inr record
    \<and> rekeyedIntegrityOf P S D record (Some (riFresh input)) (Some (trust, Some \<lparr> t_current = public, t_retired = [], t_seen = False \<rparr>))
      = \<lparr> rvOrigin = integrityOf P (refusal (statements_over P (riPosition input) envelope)) (Some sig) trust,
          rvRekeyer = Verified, rvBound = Some True \<rparr>"
proof -
  from assms(1) obtain kept where kept: "origin_to_keep P S D (snd nonces) input = Inr kept"
    by (auto simp: rekeyRecord_def returns)
  from assms(1,2) kept obtain origin where origin: "kept = Kept origin" by (cases kept) (auto simp: rekeyRecord_def returns)
  from assms(1) kept origin obtain st rekey_sig where o: "origin_to_keep P S D (snd nonces) input = Inr (Kept origin)"
    and r: "rekeyEnvelope S (fst nonces) (riEnvelope input) (riOld input) (riFresh input) (riAad input) = Inr (reEnvelope out)"
    and st: "rekeyed_over P (riPosition input) (riTargetEpoch input) (reEnvelope out) origin = Inr st"
    and sg: "signStatement S st (rsSigningKey by) = Inr rekey_sig"
    and out: "reRekey out = Some (encode (o_keyEnvelope origin), encode rekey_sig)"
    by (auto simp: rekeyRecord_def sign_rotation_def returns)
  from r obtain m where m: "openEnvelopeBytes S (riEnvelope input) (riOld input) (riAad input) = Inr m" by (auto simp: rekeyEnvelope_def returns)
  obtain key where k: "openWithOriginKey D (o_envelope origin) key (riAad input) = Inr m" "position_fits (riPosition input) (o_envelope origin)"
    "wrapOriginKey P S (snd nonces) key (riFresh input) (kept_context input origin) = Inr (o_keyEnvelope origin)"
    "written_origin input = Inr (o_envelope origin, o_signerId origin, o_signature origin)"
    using kept_origin_opens [OF o m assms(3,4,7)] .
  note again = resealed_bytes [OF assms(5,6,9) r m] and wrap = wrapped_origin_opens [OF assms(5,10) k(3)]
  have v: "verifyStatement P st rekey_sig public" using assms(8) sg by (auto simp: signs_def)
  have ne: "rekey_sig \<noteq> []" "o_keyEnvelope origin \<noteq> []"
    using v wrap(1) by (auto simp: verifyStatement_def SIGNATURE_BYTES_def drive_sizes split: if_splits)
  let ?served = "\<lparr> rrPosition = riPosition input, rrKeyEpoch = riTargetEpoch input, rrEnvelope = reEnvelope out,
    rrOrigin = \<lparr> soEnvelope = o_envelope origin, soSignerId = Some (o_signerId origin), soSignature = Some (o_signature origin),
      soKeyEnvelope = o_keyEnvelope origin \<rparr>, rrRekeySignature = Some rekey_sig \<rparr>"
  have read: "read_again input out = Inr ?served" using ne by (simp add: read_again_def k(4) out decode_encode)
  have "position_fits (riPosition input) (reEnvelope out)" using assms(4) again(2) by (cases "riPosition input") simp_all
  moreover have "origin_context ?served (riTargetEpoch input) = kept_context input origin"
    by (simp add: origin_context_def kept_context_def own_context_def)
  ultimately have opened: "openOrigin P S D (riFresh input) ?served (riTargetEpoch input) = Origin_Key key"
    using assms(3) again(1) k(1,2) wrap by (simp add: openOrigin_key)
  have itself: "\<lparr> o_envelope = o_envelope origin, o_signerId = o_signerId origin, o_signature = o_signature origin,
    o_keyEnvelope = o_keyEnvelope origin \<rparr> = origin" by simp
  have "rekeyed_statement P ?served = Inr st"
    using st by (cases "riPosition input") (simp_all add: rekeyed_statement_def named_origin_def rekeyed_over_def itself)
  then have "rcRekeyerVerdict (rekeyedChecks P S D ?served (riFresh input)) (Some \<lparr> t_current = public, t_retired = [], t_seen = False \<rparr>) = Verified"
    using v by (simp add: rekeyedChecks_def Let_def rekeyerIntegrityOf_def refusal_def)
  moreover have "rcOriginVerdict (rekeyedChecks P S D ?served (riFresh input)) trust
      = integrityOf P (refusal (statements_over P (riPosition input) (o_envelope origin))) (Some (o_signature origin)) trust"
    by (simp add: rekeyedChecks_def Let_def origin_statements_def statements_over_def split: rekeyed_position.splits)
  moreover have "rcOpened (rekeyedChecks P S D ?served (riFresh input)) = Origin_Key key" by (simp add: rekeyedChecks_def Let_def opened)
  ultimately have "rekeyedIntegrityOf P S D ?served (Some (riFresh input)) (Some (trust, Some \<lparr> t_current = public, t_retired = [], t_seen = False \<rparr>))
      = \<lparr> rvOrigin = integrityOf P (refusal (statements_over P (riPosition input) (o_envelope origin))) (Some (o_signature origin)) trust,
          rvRekeyer = Verified, rvBound = Some True \<rparr>" by (simp add: rekeyedIntegrityOf_def Let_def)
  with read k(4) show ?thesis by blast
qed

text \<open>A family folder's node with a share or a link listed for it is not re-keyed: the fresh key is sealed to nobody.\<close>

theorem shared_node_is_not_rekeyed:
  "rnShareIds node \<noteq> [] \<or> rnLinkIds node \<noteq> [] \<Longrightarrow> rekeyNode P S D (Inr by) judge nonces w targetEpoch node old fresh parentKey = Inl SHARED_IN_FAMILY"
  by (simp add: rekeyNode_def)

end
