(* ===== verification/Links.thy ===== *)
theory Links
  imports Drive_Bindings
begin

text \<open>
  \<open>packages/crypto/src/links.ts\<close>: a node key sealed under a link's secret and its password, and the owner's copy of what
  makes the link, sealed under the node key. Argon2id under the account's profile is an argument (\<open>argon2id\<close>: password, salt);
  salts, secrets, tokens and nonces drawn are arguments.
\<close>

definition LINK_SECRET_BYTES :: nat where "LINK_SECRET_BYTES = 32"
definition LINK_SALT_BYTES :: nat where "LINK_SALT_BYTES = 16"
definition LINK_ENVELOPE_BYTES :: nat where "LINK_ENVELOPE_BYTES = 24 + 32 + 16"
definition LINK_KDF_VERSION :: int where "LINK_KDF_VERSION = 2"
definition LINK_KEY_LABEL :: bytes where "LINK_KEY_LABEL = text_encode ''hushos/drive/link/key/v2''"
definition LINK_PASSWORD_MIN_LENGTH :: nat where "LINK_PASSWORD_MIN_LENGTH = 8"
definition LINK_TOKEN_BYTES :: nat where "LINK_TOKEN_BYTES = 32"
definition LINK_SECRET_ENVELOPE_BYTES :: nat where
  "LINK_SECRET_ENVELOPE_BYTES = 24 + LINK_SECRET_BYTES + LINK_TOKEN_BYTES + LINK_SECRET_BYTES + 16"
definition LINK_SECRET_ENVELOPE_LEGACY_BYTES :: nat where
  "LINK_SECRET_ENVELOPE_LEGACY_BYTES = 24 + LINK_SECRET_BYTES + LINK_TOKEN_BYTES + 16"

lemmas link_sizes = LINK_SECRET_BYTES_def LINK_SALT_BYTES_def LINK_ENVELOPE_BYTES_def LINK_TOKEN_BYTES_def
  LINK_SECRET_ENVELOPE_BYTES_def LINK_SECRET_ENVELOPE_LEGACY_BYTES_def

definition SHORT_LINK_PASSWORD :: crypto_error where
  "SHORT_LINK_PASSWORD = CryptoError ''A link password needs at least 8 characters.''"

definition checkLinkPassword :: "string option \<Rightarrow> crypto_error + unit" where
  "checkLinkPassword password = refuse_if (case password of None \<Rightarrow> False | Some p \<Rightarrow> length p < LINK_PASSWORD_MIN_LENGTH) SHORT_LINK_PASSWORD"

record link_context =
  lcWorkspaceId :: string
  lcNodeId :: string
  lcKeyEpoch :: int
  lcLinkId :: string

definition linkContext :: "link_context \<Rightarrow> bytes" where
  "linkContext ctx = statement_bytes [JStr ''hushos/drive/link'', JNum LINK_KDF_VERSION, JStr (toLowerCase (lcWorkspaceId ctx)),
     JStr (toLowerCase (lcNodeId ctx)), JNum (lcKeyEpoch ctx), JStr (toLowerCase (lcLinkId ctx))]"

definition secretContext :: "link_context \<Rightarrow> bytes" where
  "secretContext ctx = statement_bytes [JStr ''hushos/drive/link-secret'', JNum LINK_KDF_VERSION,
     JStr (toLowerCase (lcWorkspaceId ctx)), JStr (toLowerCase (lcNodeId ctx)), JNum (lcKeyEpoch ctx), JStr (toLowerCase (lcLinkId ctx))]"

section \<open>The key of a link\<close>

type_synonym stretching = "string \<Rightarrow> bytes \<Rightarrow> bytes"

definition passwordKey :: "stretching \<Rightarrow> string option \<Rightarrow> bytes \<Rightarrow> crypto_error + bytes" where
  "passwordKey argon2id password salt =
     (case password of None \<Rightarrow> Inr (replicate 32 0)
      | Some p \<Rightarrow> if length salt \<noteq> LINK_SALT_BYTES then Inl (invalid ''link salt'') else Inr (argon2id p salt))"

definition linkKeyFrom :: "drive_primitives \<Rightarrow> bytes \<Rightarrow> bytes \<Rightarrow> crypto_error + bytes" where
  "linkKeyFrom D secret fromPassword =
     (if length secret \<noteq> LINK_SECRET_BYTES then Inl (invalid ''link secret'')
      else if length fromPassword \<noteq> 32 then Inl (invalid ''link password key'')
      else Inr (crypto_generichash D 32 (LINK_KEY_LABEL @ secret @ fromPassword) []))"

definition linkKey :: "stretching \<Rightarrow> drive_primitives \<Rightarrow> bytes \<Rightarrow> string option \<Rightarrow> bytes \<Rightarrow> crypto_error + bytes" where
  "linkKey argon2id D secret password salt = bindE (passwordKey argon2id password salt) (linkKeyFrom D secret)"

text \<open>The envelope's length is fixed: \<open>set\<close> throws a \<open>RangeError\<close> for a body too long, and leaves zeros after one too
  short.\<close>

definition OFFSET_OUT_OF_BOUNDS :: crypto_error where
  "OFFSET_OUT_OF_BOUNDS = CryptoError ''offset is out of bounds''"

definition sealUnderLinkKey :: "seal_primitives \<Rightarrow> bytes \<Rightarrow> bytes \<Rightarrow> bytes \<Rightarrow> link_context \<Rightarrow> crypto_error + bytes" where
  "sealUnderLinkKey S nonce nodeKey key ctx =
     (let body = aead_encrypt S nodeKey (linkContext ctx) nonce key in
      if 24 + length body > LINK_ENVELOPE_BYTES then Inl OFFSET_OUT_OF_BOUNDS
      else Inr (nonce @ body @ replicate (LINK_ENVELOPE_BYTES - 24 - length body) 0))"

definition sealLinkKey :: "stretching \<Rightarrow> drive_primitives \<Rightarrow> seal_primitives \<Rightarrow> bytes \<Rightarrow> bytes \<Rightarrow> bytes \<Rightarrow> string option \<Rightarrow> bytes
    \<Rightarrow> link_context \<Rightarrow> crypto_error + bytes" where
  "sealLinkKey argon2id D S nonce nodeKey secret password salt ctx =
     bindE (checkLinkPassword password) (\<lambda>_.
     bindE (linkKey argon2id D secret password salt) (\<lambda>key. sealUnderLinkKey S nonce nodeKey key ctx))"

definition sealLinkKeyWith :: "drive_primitives \<Rightarrow> seal_primitives \<Rightarrow> bytes \<Rightarrow> bytes \<Rightarrow> bytes \<Rightarrow> bytes \<Rightarrow> link_context
    \<Rightarrow> crypto_error + bytes" where
  "sealLinkKeyWith D S nonce nodeKey secret fromPassword ctx =
     bindE (linkKeyFrom D secret fromPassword) (\<lambda>key. sealUnderLinkKey S nonce nodeKey key ctx)"

definition openLinkKey :: "stretching \<Rightarrow> drive_primitives \<Rightarrow> seal_primitives \<Rightarrow> bytes \<Rightarrow> bytes \<Rightarrow> string option \<Rightarrow> bytes
    \<Rightarrow> link_context \<Rightarrow> crypto_error + bytes" where
  "openLinkKey argon2id D S envelope secret password salt ctx =
     (if length envelope \<noteq> LINK_ENVELOPE_BYTES then Inl (invalid ''link envelope'')
      else bindE (linkKey argon2id D secret password salt) (\<lambda>key.
        decryptKey S (drop 24 envelope) key (take 24 envelope) (linkContext ctx)))"

section \<open>The owner's copy\<close>

record link_secret =
  lsSecret :: bytes
  lsToken :: bytes
  lsFromPassword :: "bytes option"

definition sealLinkSecret :: "seal_primitives \<Rightarrow> bytes \<Rightarrow> bytes \<Rightarrow> bytes \<Rightarrow> bytes \<Rightarrow> bytes \<Rightarrow> link_context \<Rightarrow> crypto_error + bytes" where
  "sealLinkSecret S nonce secret token fromPassword nodeKey ctx =
     (if length secret \<noteq> LINK_SECRET_BYTES \<or> length token \<noteq> LINK_TOKEN_BYTES \<or> length fromPassword \<noteq> 32
      then Inl (invalid ''link secret'')
      else Inr (nonce @ aead_encrypt S (secret @ token @ fromPassword) (secretContext ctx) nonce nodeKey))"

definition openLinkSecret :: "seal_primitives \<Rightarrow> bytes \<Rightarrow> bytes \<Rightarrow> link_context \<Rightarrow> crypto_error + link_secret" where
  "openLinkSecret S envelope nodeKey ctx =
     (if length envelope \<noteq> LINK_SECRET_ENVELOPE_BYTES \<and> length envelope \<noteq> LINK_SECRET_ENVELOPE_LEGACY_BYTES
      then Inl (invalid ''link secret envelope'')
      else bindE (decryptKey S (drop 24 envelope) nodeKey (take 24 envelope) (secretContext ctx)) (\<lambda>plaintext.
        Inr \<lparr> lsSecret = take LINK_SECRET_BYTES plaintext,
          lsToken = take LINK_TOKEN_BYTES (drop LINK_SECRET_BYTES plaintext),
          lsFromPassword = (if length envelope = LINK_SECRET_ENVELOPE_LEGACY_BYTES then None
            else Some (drop (LINK_SECRET_BYTES + LINK_TOKEN_BYTES) plaintext)) \<rparr>))"

section \<open>Lemmas\<close>

text \<open>BLAKE2b gives as many bytes as asked for.\<close>

definition generichash_32 :: "drive_primitives \<Rightarrow> bool" where
  "generichash_32 D \<longleftrightarrow> (\<forall>text key. length (crypto_generichash D 32 text key) = 32)"

lemma link_key_length: "generichash_32 D \<Longrightarrow> linkKeyFrom D secret fromPassword = Inr key \<Longrightarrow> length key = 32"
  by (auto simp: linkKeyFrom_def generichash_32_def split: if_splits)

lemma sealed_link:
  assumes "aead_correct S" "length nonce = 24" "length key = 32" "sealUnderLinkKey S nonce nodeKey key ctx = Inr envelope" "length nodeKey = 32"
  shows "length envelope = LINK_ENVELOPE_BYTES" "decryptKey S (drop 24 envelope) key (take 24 envelope) (linkContext ctx) = Inr nodeKey"
  using assms by (auto simp: sealUnderLinkKey_def Let_def aead_correct_def link_sizes decryptKey_def split: if_splits)

lemma linkKey_Inr:
  "linkKey argon2id D secret password salt = Inr key \<longleftrightarrow>
     (\<exists>stretched. passwordKey argon2id password salt = Inr stretched \<and> linkKeyFrom D secret stretched = Inr key)"
  by (auto simp: linkKey_def returns)

lemma sealed_with_opens:
  assumes "aead_correct S" "generichash_32 D" "length nonce = 24" "length nodeKey = 32"
    and "sealLinkKeyWith D S nonce nodeKey secret stretched ctx = Inr envelope" "passwordKey argon2id password salt = Inr stretched"
  shows "length envelope = LINK_ENVELOPE_BYTES" "openLinkKey argon2id D S envelope secret password salt ctx = Inr nodeKey"
proof -
  from assms(5) obtain key where k: "linkKeyFrom D secret stretched = Inr key" "sealUnderLinkKey S nonce nodeKey key ctx = Inr envelope"
    by (auto simp: sealLinkKeyWith_def returns)
  note s = sealed_link [OF assms(1,3) link_key_length [OF assms(2) k(1)] k(2) assms(4)]
  show "length envelope = LINK_ENVELOPE_BYTES" by (rule s(1))
  show "openLinkKey argon2id D S envelope secret password salt ctx = Inr nodeKey"
    using s k(1) assms(6) by (simp add: openLinkKey_def linkKey_def)
qed

lemma secret_opens:
  assumes "aead_correct S" "length nonce = 24" "length nodeKey = 32" "sealLinkSecret S nonce secret token stretched nodeKey ctx = Inr envelope"
  shows "length envelope = LINK_SECRET_ENVELOPE_BYTES"
    "openLinkSecret S envelope nodeKey ctx = Inr \<lparr> lsSecret = secret, lsToken = token, lsFromPassword = Some stretched \<rparr>"
  using assms by (auto simp: sealLinkSecret_def openLinkSecret_def aead_correct_def link_sizes decryptKey_def split: if_splits)

section \<open>Properties\<close>

text \<open>A link opens, with its secret and its password, to the node key it was made for, and the owner's copy opens to
  the secret, the token and the password's key.\<close>

theorem link_opens_to_its_key:
  assumes "aead_correct S" "generichash_32 D" "length nonce = 24" "length nodeKey = 32"
    and "sealLinkKey argon2id D S nonce nodeKey secret password salt ctx = Inr envelope"
  shows "openLinkKey argon2id D S envelope secret password salt ctx = Inr nodeKey"
proof -
  from assms(5) obtain stretched where "passwordKey argon2id password salt = Inr stretched"
    "sealLinkKeyWith D S nonce nodeKey secret stretched ctx = Inr envelope"
    by (auto simp: sealLinkKey_def linkKey_def sealLinkKeyWith_def returns)
  with sealed_with_opens(2) [OF assms(1-4)] show ?thesis by blast
qed

text \<open>What a link is sealed for is one place: two links with the same associated data are of the same workspace, node,
  epoch and id, and a link's envelope is never an owner's copy.\<close>

theorem one_link_one_context:
  "linkContext ctx \<noteq> secretContext ctx'
    \<and> (linkContext ctx = linkContext ctx' \<or> secretContext ctx = secretContext ctx' \<longrightarrow> lcKeyEpoch ctx = lcKeyEpoch ctx'
      \<and> toLowerCase (lcWorkspaceId ctx) = toLowerCase (lcWorkspaceId ctx') \<and> toLowerCase (lcNodeId ctx) = toLowerCase (lcNodeId ctx')
      \<and> toLowerCase (lcLinkId ctx) = toLowerCase (lcLinkId ctx'))"
  if "0 \<le> lcKeyEpoch ctx" "0 \<le> lcKeyEpoch ctx'"
  using that by (auto simp: linkContext_def secretContext_def LINK_KDF_VERSION_def dest!: statement_bytes_inj)

end
