(* ===== verification/Rotated_Links.thy ===== *)
theory Rotated_Links
  imports Rotation_Records Links
begin

text \<open>
  The rest of \<open>packages/crypto/src/rotation-records.ts\<close> that a personal workspace's rotation runs: a version sealed again the
  way rotations wrote it before re-keyed records (\<open>openVersionUnder\<close>, \<open>legacyRecord\<close> on a version), and each share and
  each link sealed again under the fresh key (the loops of \<open>rekeyNode\<close>). \<open>legacyRecord\<close> on a metadata record opens a JSON
  object and is not modelled.
\<close>

section \<open>A version (openVersionUnder, legacyRecord)\<close>

record version_under =
  vuContentKey :: bytes
  vuPlaintextSize :: int
  vuThumbnailBytes :: nat
  vuSuite :: int

definition NO_SIZE :: crypto_error where
  "NO_SIZE = CryptoError ''This file has no size on record.''"

definition version_context :: "version_statement \<Rightarrow> content_key_context" where
  "version_context v = \<lparr> ckWorkspaceId = v_workspaceId v, ckNodeId = v_nodeId v, ckVersionId = v_versionId v,
     ckObjectId = v_objectId v, ckSuite = contentSuite v \<rparr>"

text \<open>\<open>opened.plaintextSize ?? version.plaintextSize\<close>: the row's size counts only where the envelope has none.\<close>

definition openVersionUnder :: "seal_primitives \<Rightarrow> bytes \<Rightarrow> version_statement \<Rightarrow> string \<Rightarrow> int option \<Rightarrow> crypto_error + version_under" where
  "openVersionUnder S nodeKey v contentKeyEnvelope row_size =
     bindE (decode contentKeyEnvelope
       (Some (if contentSuite v = LEGACY_CONTENT_SUITE then KEY_ENVELOPE_BYTES else VERSION_ENVELOPE_BYTES))) (\<lambda>envelope.
     bindE (openVersion S envelope nodeKey (version_context v)) (\<lambda>opened.
       case (case ovPlaintextSize opened of Some n \<Rightarrow> Some (int n) | None \<Rightarrow> row_size) of
         None \<Rightarrow> Inl NO_SIZE
       | Some n \<Rightarrow>
           if \<not> isSafeInteger n \<or> n < 0 then Inl NO_SIZE
           else Inr \<lparr> vuContentKey = ovContentKey opened, vuPlaintextSize = n, vuThumbnailBytes = ovThumbnailBytes opened,
             vuSuite = contentSuite v \<rparr>))"

definition legacyVersion :: "primitives \<Rightarrow> seal_primitives \<Rightarrow> crypto_error + rotation_signer \<Rightarrow> record_judge \<Rightarrow> bytes
    \<Rightarrow> version_statement \<Rightarrow> int option \<Rightarrow> reseal_input \<Rightarrow> crypto_error + resealed_record" where
  "legacyVersion P S signer judge nonce v row_size input =
     bindE (judge (versionStatements P v (riEnvelope input)) (riSigner input) (riSignature input)) (\<lambda>judged.
     bindE (openVersionUnder S (riOld input) v (encode (riEnvelope input)) row_size) (\<lambda>opened.
     bindE (sealVersion S nonce \<lparr> vrContentKey = vuContentKey opened, vrPlaintextSize = vuPlaintextSize opened,
       vrThumbnailBytes = int (vuThumbnailBytes opened) \<rparr> (riFresh input) (version_context v)) (\<lambda>sealed_again.
     bindE (legacy_over P S signer (Rekeyed_Version v) sealed_again (case judged of None \<Rightarrow> ResealedForm | Some form \<Rightarrow> form)) (\<lambda>sig.
       Inr \<lparr> reEnvelope = sealed_again, reSignature = Some sig, reRekey = None, reDropOrigin = False \<rparr>))))"

section \<open>Shares and links (rekeyNode)\<close>

record rotate_share =
  shId :: string
  shGranteeUserId :: string
  shGranteePublicKey :: string
  shGranteeKemPublicKey :: "string option"

definition OPEN_IDENTITY_FIRST :: crypto_error where
  "OPEN_IDENTITY_FIRST = CryptoError ''Open your identity first.''"

definition resealShare :: "primitives \<Rightarrow> seal_primitives \<Rightarrow> crypto_error + rotation_signer \<Rightarrow> seal_coins \<Rightarrow> string option \<Rightarrow> string
    \<Rightarrow> string \<Rightarrow> int \<Rightarrow> bytes \<Rightarrow> rotate_share \<Rightarrow> crypto_error + string \<times> string" where
  "resealShare P S signer coins granterUserId w nodeId targetEpoch fresh share =
     (if falsy granterUserId then Inl OPEN_IDENTITY_FIRST
      else bindE signer (\<lambda>by.
      bindE (refuse_if (granterUserId \<noteq> Some (rsUserId by)) OPEN_IDENTITY_FIRST) (\<lambda>_.
      bindE (decode (shGranteePublicKey share) (Some 32)) (\<lambda>public.
      bindE (if falsy (shGranteeKemPublicKey share) then Inr None
        else bindE (decode (the (shGranteeKemPublicKey share)) (Some KEM_PUBLIC_KEY_BYTES)) (\<lambda>kem. Inr (Some kem))) (\<lambda>kem.
      bindE (sealShareKey P S coins fresh \<lparr> gr_encryptionPublicKey = public, gr_kemPublicKey = kem \<rparr> (rsHybridKeys by)
        \<lparr> sh_workspaceId = w, sh_nodeId = nodeId, sh_keyEpoch = targetEpoch, sh_granteeUserId = shGranteeUserId share,
          sh_granterUserId = the granterUserId \<rparr>) (\<lambda>envelope.
        Inr (shId share, encode envelope)))))))"

record rotate_link =
  rlId :: string
  rlHasPassword :: bool
  rlSecretEnvelope :: "string option"

datatype rotated_link = Link_Sealed string string string | Link_Unsealable string

text \<open>The nonces are the link envelope's and the secret envelope's.\<close>

definition resealLink :: "drive_primitives \<Rightarrow> seal_primitives \<Rightarrow> bytes \<times> bytes \<Rightarrow> string \<Rightarrow> string \<Rightarrow> int \<Rightarrow> int \<Rightarrow> bytes \<Rightarrow> bytes
    \<Rightarrow> rotate_link \<Rightarrow> crypto_error + rotated_link" where
  "resealLink D S nonces w nodeId keyEpoch targetEpoch old fresh link =
     (if falsy (rlSecretEnvelope link) then Inr (Link_Unsealable (rlId link))
      else
        let ctx = \<lambda>epoch. \<lparr> lcWorkspaceId = w, lcNodeId = nodeId, lcKeyEpoch = epoch, lcLinkId = rlId link \<rparr> in
        bindE (decode (the (rlSecretEnvelope link)) None) (\<lambda>envelope.
        bindE (openLinkSecret S envelope old (ctx keyEpoch)) (\<lambda>held.
          if rlHasPassword link \<and> lsFromPassword held = None then Inr (Link_Unsealable (rlId link))
          else
            let stretched = (case lsFromPassword held of None \<Rightarrow> replicate 32 0 | Some k \<Rightarrow> k) in
            bindE (sealLinkKeyWith D S (fst nonces) fresh (lsSecret held) stretched (ctx targetEpoch)) (\<lambda>linkEnvelope.
            bindE (sealLinkSecret S (snd nonces) (lsSecret held) (lsToken held) stretched fresh (ctx targetEpoch)) (\<lambda>secretEnvelope.
              Inr (Link_Sealed (rlId link) (encode linkEnvelope) (encode secretEnvelope)))))))"

section \<open>Properties\<close>


text \<open>A version sealed again by a personal workspace's rotation opens under the fresh key to the content key, the size and
  the thumbnail it had.\<close>

theorem legacy_version_keeps_its_content:
  assumes "legacyVersion P S signer judge nonce v row_size input = Inr out"
    and "aead_correct S" "length nonce = 24" "length (riFresh input) = 32"
  shows "openVersionUnder S (riFresh input) v (encode (reEnvelope out)) row_size
    = openVersionUnder S (riOld input) v (encode (riEnvelope input)) row_size"
proof -
  from assms(1) obtain opened where o: "openVersionUnder S (riOld input) v (encode (riEnvelope input)) row_size = Inr opened"
    and s: "sealVersion S nonce \<lparr> vrContentKey = vuContentKey opened, vrPlaintextSize = vuPlaintextSize opened,
       vrThumbnailBytes = int (vuThumbnailBytes opened) \<rparr> (riFresh input) (version_context v) = Inr (reEnvelope out)"
    by (auto simp: legacyVersion_def returns)
  note v = version_opens [OF assms(2-4) s]
  have suite: "checkSuite (contentSuite v) = Inr (contentSuite v)" using s
    by (auto simp: sealVersion_def version_context_def checkSuite_Inr returns split: if_splits)
  then have n: "length (reEnvelope out) = (if contentSuite v = LEGACY_CONTENT_SUITE then KEY_ENVELOPE_BYTES else VERSION_ENVELOPE_BYTES)"
    using v(2) by (simp add: versionEnvelopeBytes_def version_context_def split: if_splits)
  then have "reEnvelope out \<noteq> []" by (auto simp: drive_sizes split: if_splits)
  with n have d: "decode (encode (reEnvelope out))
      (Some (if contentSuite v = LEGACY_CONTENT_SUITE then KEY_ENVELOPE_BYTES else VERSION_ENVELOPE_BYTES)) = Inr (reEnvelope out)"
    by (simp add: decode_encode)
  show ?thesis
  proof (cases "contentSuite v = LEGACY_CONTENT_SUITE")
    case True
    have "openVersion S envelope key (version_context v)
        = bindE (openContentKey S envelope key (version_context v)) (\<lambda>key. Inr \<lparr> ovContentKey = key, ovPlaintextSize = None, ovThumbnailBytes = 0 \<rparr>)"
      for envelope key using suite True by (simp add: openVersion_def version_context_def)
    with o have "row_size = Some (vuPlaintextSize opened) \<and> isSafeInteger (vuPlaintextSize opened) \<and> 0 \<le> vuPlaintextSize opened
        \<and> vuThumbnailBytes opened = 0 \<and> vuSuite opened = contentSuite v"
      by (auto simp: openVersionUnder_def returns split: option.splits if_splits)
    with True d v(1) o show ?thesis
      by (cases opened) (simp add: openVersionUnder_def version_context_def)
  next
    case False
    with o have "isSafeInteger (vuPlaintextSize opened) \<and> 0 \<le> vuPlaintextSize opened \<and> vuSuite opened = contentSuite v"
      by (auto simp: openVersionUnder_def returns split: option.splits if_splits)
    with False d v(1) o show ?thesis
      by (cases opened) (simp add: openVersionUnder_def version_context_def)
  qed
qed

end
