(* ===== verification/Sample_Rotation.thy ===== *)
theory Sample_Rotation
  imports Sample_Drive Rotated_Links
begin

text \<open>The witnesses of a rotation: a metadata record of a family folder re-keyed for the first time, and a link with a
  password.\<close>

definition sample_signer :: rotation_signer where
  "sample_signer = \<lparr> rsUserId = sample_uuid CHR ''c'', rsSigningKey = replicate 64 2,
     rsHybridKeys = \<lparr> hs_signingKey = replicate 64 2, hs_mlDsaSecretKey = replicate 4032 2 \<rparr> \<rparr>"

definition sample_record :: "bytes \<Rightarrow> reseal_input" where
  "sample_record aad = \<lparr> riPosition = Rekeyed_Metadata sample_position, riAad = aad, riEnvelope = sample_envelope 5,
     riSigner = Some (sample_uuid CHR ''a''), riSignature = Some (encode (replicate 64 0)), riRekey = None,
     riKeyEpoch = 2, riTargetEpoch = 3, riOld = replicate 32 1, riFresh = replicate 32 6 \<rparr>"

lemma sample_signs: "signs chain_primitives sample_seals (replicate 64 2) (replicate 32 2)"
  by (simp add: signs_def signStatement_def verifyStatement_def SIGNATURE_BYTES_def SIGNING_PUBLIC_KEY_BYTES_def)
    (auto simp: chain_primitives_def sample_seals_def split: if_splits)

lemma sample_rotated:
  "\<exists>out. rekeyRecord chain_primitives sample_seals sample_drive (Inr sample_signer) (\<lambda>_ _ _. Inr None) (replicate 24 0, replicate 24 0)
      (sample_record aad) = Inr out \<and> reRekey out \<noteq> None"
proof -
  let ?S = sample_seals and ?P = chain_primitives
  let ?key = "hchacha20 (replicate 32 1) (replicate 16 0)"
  have e: "sample_envelope 5 = replicate 24 0 @ replicate 20 5 @ replicate 16 0" by (simp add: sample_envelope_def)
  have s: "split_envelope (sample_envelope 5) None = Inr (replicate 24 0, replicate 20 5 @ replicate 16 0)"
    by (simp add: split_envelope_def e drive_sizes)
  have "\<exists>resealed. rekeyEnvelope ?S (replicate 24 0) (sample_envelope 5) (replicate 32 1) (replicate 32 6) aad = Inr resealed"
    by (simp add: rekeyEnvelope_def openEnvelopeBytes_def s key32_def drive_sizes decryptKey_def) (simp add: sample_seals_def)
  then obtain resealed where r: "rekeyEnvelope ?S (replicate 24 0) (sample_envelope 5) (replicate 32 1) (replicate 32 6) aad = Inr resealed"
    by blast
  have o: "originOpeningKey (sample_envelope 5) (replicate 32 1) = Inr ?key" by (simp add: originOpeningKey_def s key32_def drive_sizes)
  have d: "decode (encode (replicate 64 0)) None = Inr (replicate 64 0)" by (rule decode_encode) simp_all
  have ne: "encode (replicate 64 0) \<noteq> []" "sample_uuid CHR ''a'' \<noteq> []" using d by (auto simp: decode_def sample_uuid_def)
  have "\<exists>wrap. wrapOriginKey ?P ?S (replicate 24 0) ?key (replicate 32 6) (own_context (sample_record aad)) = Inr wrap"
    using sample_ids by (simp add: wrapOriginKey_def key32_def drive_sizes hchacha20_length originKeyContext_def own_context_def
      sample_record_def sample_position_def drive_id_def epoch_field_def isSafeInteger_def MAX_SAFE_INTEGER_def)
  then obtain wrap where w: "wrapOriginKey ?P ?S (replicate 24 0) ?key (replicate 32 6) (own_context (sample_record aad)) = Inr wrap" by blast
  let ?origin = "\<lparr> o_envelope = sample_envelope 5, o_signerId = sample_uuid CHR ''a'', o_signature = replicate 64 0, o_keyEnvelope = wrap \<rparr>"
  have k: "origin_to_keep ?P ?S sample_drive (replicate 24 0) (sample_record aad) = Inr (Kept ?origin)"
    using w ne by (simp add: origin_to_keep_def falsy_def o d sample_record_def)
  have "\<exists>st. rekeyed_over ?P (Rekeyed_Metadata sample_position) 3 resealed ?origin = Inr st"
    by (simp add: rekeyed_over_def metadataRekeyedStatement_def rekeyedTail_def sample_position_def node_kind_def text_field_def
      count_field_def isSafeInteger_def MAX_SAFE_INTEGER_def sample_uuid_def)
  then obtain st where "rekeyed_over ?P (Rekeyed_Metadata sample_position) 3 resealed ?origin = Inr st" by blast
  moreover have "signStatement ?S m (replicate 64 2) = Inr (replicate 64 0)" for m
    by (simp add: signStatement_def SIGNING_SECRET_KEY_BYTES_def) (simp add: sample_seals_def)
  moreover have "riEnvelope (sample_record aad) = sample_envelope 5" "riOld (sample_record aad) = replicate 32 1"
    "riFresh (sample_record aad) = replicate 32 6" "riAad (sample_record aad) = aad"
    "riPosition (sample_record aad) = Rekeyed_Metadata sample_position" "riTargetEpoch (sample_record aad) = 3"
    "rsSigningKey sample_signer = replicate 64 2" by (simp_all add: sample_record_def sample_signer_def)
  ultimately show ?thesis by (simp add: rekeyRecord_def sign_rotation_def r k)
qed

theorem rotation_keeps_the_writer_witness:
  "\<exists>aad out record envelope who sig trust. rekeyRecord chain_primitives sample_seals sample_drive (Inr sample_signer) (\<lambda>_ _ _. Inr None)
      (replicate 24 0, replicate 24 0) (sample_record aad) = Inr out
    \<and> written_origin (sample_record aad) = Inr (envelope, who, sig) \<and> read_again (sample_record aad) out = Inr record
    \<and> rvBound (rekeyedIntegrityOf chain_primitives sample_seals sample_drive record (Some (replicate 32 6))
        (Some (trust, Some \<lparr> t_current = replicate 32 2, t_retired = [], t_seen = False \<rparr>))) = Some True"
proof -
  obtain aad where a: "position_aad (Rekeyed_Metadata sample_position) = Inr aad"
    using sample_ids by (auto simp: sample_position_def metadataContext_def drive_id_def epoch_field_def isSafeInteger_def
      MAX_SAFE_INTEGER_def)
  have f: "position_fits (Rekeyed_Metadata sample_position) (sample_envelope 5)"
    by (simp add: sample_envelope_def METADATA_ENVELOPE_MAX_BYTES_def METADATA_MAX_BYTES_def drive_sizes)
  have s: "riPosition (sample_record aad) = Rekeyed_Metadata sample_position" "riAad (sample_record aad) = aad"
    "riEnvelope (sample_record aad) = sample_envelope 5" "riFresh (sample_record aad) = replicate 32 6"
    "rsSigningKey sample_signer = replicate 64 2" by (simp_all add: sample_record_def sample_signer_def)
  obtain out where o: "rekeyRecord chain_primitives sample_seals sample_drive (Inr sample_signer) (\<lambda>_ _ _. Inr None)
      (replicate 24 0, replicate 24 0) (sample_record aad) = Inr out" "reRekey out \<noteq> None" using sample_rotated by blast
  from rotation_keeps_the_writer [OF o(1) o(2) _ _ sample_seals_promise(2) sample_drive_promises(2) sample_drive_promises(1), of "replicate 32 2" None]
  have "\<exists>record envelope who sig. written_origin (sample_record aad) = Inr (envelope, who, sig) \<and> read_again (sample_record aad) out = Inr record
    \<and> rvBound (rekeyedIntegrityOf chain_primitives sample_seals sample_drive record (Some (replicate 32 6))
        (Some (None, Some \<lparr> t_current = replicate 32 2, t_retired = [], t_seen = False \<rparr>))) = Some True"
    using a f sample_signs by (auto simp: s)
  with o(1) show ?thesis by blast
qed

section \<open>A link with a password\<close>

definition sample_copy :: bytes where
  "sample_copy = replicate 24 0 @ (replicate 32 7 @ replicate 32 8 @ replicate 32 9) @ replicate 16 0"

definition sample_link :: rotate_link where
  "sample_link = \<lparr> rlId = sample_uuid CHR ''a'', rlHasPassword = True, rlSecretEnvelope = Some (encode sample_copy) \<rparr>"

definition sample_place :: "int \<Rightarrow> link_context" where
  "sample_place epoch = \<lparr> lcWorkspaceId = sample_uuid CHR ''e'', lcNodeId = sample_uuid CHR ''c'', lcKeyEpoch = epoch,
     lcLinkId = sample_uuid CHR ''a'' \<rparr>"


end
