(* ===== verification/Drive_Ledger.thy ===== *)
theory Drive_Ledger
  imports Group_Seals Drive_Bindings
begin

text \<open>
  \<open>packages/crypto/src/area-ledger.ts\<close>: the crypto worker's Drive keys and the family write rules that hold
  them. One record is the closure's state; each function of the closure is a function of it.

  A slot \<open>${a}/${b}\<close> is the pair of its ids (ids hold no slash), a prefix or suffix test a test of one of them. A
  \<open>Map\<close> is an association list in insertion order. Keys are values: zeroing one the ledger drops has no
  counterpart. An operation that awaits takes, for each await, what the session did to the ledger meanwhile
  (\<open>during\<close>), and goes on from there with the variables it had read before, as the source does.
\<close>

section \<open>State\<close>

record held_key =
  heldKey :: bytes
  heldEpoch :: int
  heldOwn :: bool

record pending_key =
  pnFresh :: bytes
  pnEpoch :: int
  pnOld :: bytes
  pnOldEpoch :: int
  pnRootedAt :: "int option"

record workspace_entry =
  weCurrent :: int
  weKeys :: "(int \<times> bytes) list"

datatype area_block = No_Grant_At_Latest | Server_Behind | Server_Ahead | Root_Unknown | Root_Behind

type_synonym area_slot = "string \<times> string"
type_synonym node_pool = "(area_slot \<times> held_key) list"

record ledger =
  lgWorkspaceKeys :: "(string \<times> workspace_entry) list"
  lgOwnNodeKeys :: node_pool
  lgGuestNodeKeys :: node_pool
  lgLineage :: "(area_slot \<times> int option) list"
  lgOwnPrevNodeKeys :: node_pool
  lgGuestPrevNodeKeys :: node_pool
  lgPending :: "(area_slot \<times> pending_key) list"
  lgRootOpenedUnder :: "(area_slot \<times> int) list"
  lgChains :: "(string \<times> chain_body) list"
  lgFloors :: "(string \<times> chain_body) list"
  lgOpened :: "(string \<times> (string \<times> int) list) list"
  lgAreaWrite :: "(area_slot \<times> int) list"
  lgBlocked :: "(area_slot \<times> area_block) list"
  lgGuardOwed :: "string list"
  lgRootSeenAt :: "(area_slot \<times> int) list"
  lgRootIds :: "(area_slot \<times> string) list"
  lgPersonal :: "string list"

definition new_ledger :: ledger where
  "new_ledger = \<lparr> lgWorkspaceKeys = [], lgOwnNodeKeys = [], lgGuestNodeKeys = [], lgLineage = [],
     lgOwnPrevNodeKeys = [], lgGuestPrevNodeKeys = [], lgPending = [], lgRootOpenedUnder = [], lgChains = [],
     lgFloors = [], lgOpened = [], lgAreaWrite = [], lgBlocked = [], lgGuardOwed = [], lgRootSeenAt = [],
     lgRootIds = [], lgPersonal = [] \<rparr>"

text \<open>\<open>Map.delete\<close> of the keys a test names.\<close>

definition drop_keys :: "('k \<Rightarrow> bool) \<Rightarrow> ('k \<times> 'v) list \<Rightarrow> ('k \<times> 'v) list" where
  "drop_keys Q m = filter (\<lambda>(k, _). \<not> Q k) m"

abbreviation has_key :: "'k \<Rightarrow> ('k \<times> 'v) list \<Rightarrow> bool" where
  "has_key k m \<equiv> k \<in> fst ` set m"

section \<open>Messages\<close>

definition KEYS_CHANGED :: crypto_error where
  "KEYS_CHANGED = CryptoError (''This folder'' @ rsquo @ ''s keys changed. Reload to continue.'')"
definition NOT_CHECKED_KEYS :: crypto_error where
  "NOT_CHECKED_KEYS = CryptoError (''Couldn'' @ rsquo @ ''t check this folder'' @ rsquo @ ''s keys. Reload to continue.'')"
definition AREA_ROOT :: crypto_error where
  "AREA_ROOT = CryptoError (''A family folder'' @ rsquo @ ''s top level changes only with the family'' @ rsquo @ ''s member list.'')"
definition NOT_COMMITTED_ROOT :: crypto_error where
  "NOT_COMMITTED_ROOT = CryptoError (''This folder'' @ rsquo @ ''s key is not the one the family'' @ rsquo @ ''s member list names.'')"
definition NO_CHAIN :: crypto_error where
  "NO_CHAIN = CryptoError (''Check the family'' @ rsquo @ ''s member list first.'')"
definition NOT_THE_FAMILYS :: crypto_error where
  "NOT_THE_FAMILYS = CryptoError ''This folder does not belong to the family.''"
definition AREA_NOT_LISTED :: crypto_error where
  "AREA_NOT_LISTED = CryptoError (''This folder is not on the family'' @ rsquo @ ''s member list.'')"
definition ITEM_CHANGED :: crypto_error where
  "ITEM_CHANGED = CryptoError ''This item changed since it was opened. Refresh and retry.''"
definition FAMILY_FOLDER :: crypto_error where
  "FAMILY_FOLDER = CryptoError ''This was refused: it is a family folder.''"
definition OWN_WORKSPACE_NAMED :: crypto_error where
  "OWN_WORKSPACE_NAMED = CryptoError ''This was refused: it claims to be a folder of your own.''"
definition OPEN_DRIVE_AGAIN :: crypto_error where
  "OPEN_DRIVE_AGAIN = CryptoError ''Open Drive again to continue.''"
definition OLDER_WORKSPACE_KEY :: crypto_error where
  "OLDER_WORKSPACE_KEY = CryptoError ''This folder was wrapped under an older workspace key.''"
definition OLDER_FOLDER_KEY :: crypto_error where
  "OLDER_FOLDER_KEY = CryptoError ''This item was wrapped under an older folder key.''"
definition OPEN_CONTAINING :: crypto_error where
  "OPEN_CONTAINING = CryptoError ''Open the containing folder first.''"
definition GUARD_NOT_KEPT :: crypto_error where
  "GUARD_NOT_KEPT = CryptoError (''HushOS couldn'' @ rsquo @ ''t save this on this device. Free up some space, then try again.'')"
definition KEY_CHANGE_PENDING :: crypto_error where
  "KEY_CHANGE_PENDING = CryptoError (''This folder'' @ rsquo @ ''s keys changed: the key change has not reached it yet.'')"
definition NOT_CARRIED :: crypto_error where
  "NOT_CARRIED = CryptoError ''This item was added under a key the key change replaces, so it is not carried over.''"
definition OLDER_CHAIN :: crypto_error where
  "OLDER_CHAIN = CryptoError ''This device already holds a later member list for this family. Sync again.''"
definition SPLIT_CHAIN :: crypto_error where
  "SPLIT_CHAIN = CryptoError (''This family'' @ rsquo @ ''s member list was shown differently to this device.'')"

section \<open>Which workspaces are family folders, and the version each is written under\<close>

definition overtakenBy :: "chain_body \<Rightarrow> chain_body \<Rightarrow> crypto_error option" where
  "overtakenBy holding chain =
     (if rosterVersion (chRoster holding) > rosterVersion (chRoster chain) then Some OLDER_CHAIN
      else if at_index (chRosterDigests chain) (int (rosterVersion (chRoster holding)) - 1) \<noteq> Some (chRosterDigest holding)
      then Some SPLIT_CHAIN
      else if chGroupKeyVersion holding > chGroupKeyVersion chain then Some OLDER_CHAIN
      else case at_index (chGroupKeys chain) (int (chGroupKeyVersion holding) - 1) of
          None \<Rightarrow> Some SPLIT_CHAIN
        | Some key \<Rightarrow> if \<not> sameGroupKey key (chGroupKey holding) then Some SPLIT_CHAIN else None)"

definition openedBy :: "ledger \<Rightarrow> string \<Rightarrow> string list" where
  "openedBy L w = map fst (filter (\<lambda>(_, opened_areas). has_key w opened_areas) (lgOpened L))"

definition listings :: "ledger \<Rightarrow> string \<Rightarrow> nat" where
  "listings L w = length (filter (\<lambda>(_, chain). has_key w (chAreaKeys chain)) (lgChains L))"

definition familyOf :: "ledger \<Rightarrow> string \<Rightarrow> string option" where
  "familyOf L w = (case openedBy L w of [g] \<Rightarrow> Some g | _ \<Rightarrow> None)"

definition heldBack :: "ledger \<Rightarrow> string \<Rightarrow> bool" where
  "heldBack L w = list_ex (\<lambda>g. \<not> has_key g (lgChains L)) (openedBy L w)"

definition openedByFamily :: "ledger \<Rightarrow> string \<Rightarrow> bool" where
  "openedByFamily L w \<longleftrightarrow> openedBy L w \<noteq> []"

record foreign_listing =
  flGroupId :: string
  flWorkspaceId :: string
  flOpenedBy :: "string option"

text \<open>\<open>foreignListings\<close>, before it is sorted for display.\<close>

definition foreignListings :: "ledger \<Rightarrow> foreign_listing list" where
  "foreignListings L = concat (map (\<lambda>(g, chain). concat (map (\<lambda>w.
       let families = openedBy L w in
       if w \<in> set (lgPersonal L) then [\<lparr> flGroupId = g, flWorkspaceId = w, flOpenedBy = None \<rparr>]
       else if families \<noteq> [] \<and> g \<notin> set families
       then [\<lparr> flGroupId = g, flWorkspaceId = w, flOpenedBy = Some (hd families) \<rparr>] else [])
     (map fst (chAreaKeys chain)))) (lgChains L))"

definition isArea :: "ledger \<Rightarrow> string \<Rightarrow> bool" where
  "isArea L w =
     (if w \<in> set (lgPersonal L) then False
      else openedBy L w \<noteq> [] \<or> listings L w > 0
        \<or> list_ex (\<lambda>(at, _). snd at = w) (lgAreaWrite L) \<or> list_ex (\<lambda>(at, _). snd at = w) (lgBlocked L)
        \<or> list_ex (\<lambda>(at, _). snd at = w) (lgRootSeenAt L))"

definition readAt :: "ledger \<Rightarrow> string \<Rightarrow> crypto_error + (string \<times> int) option" where
  "readAt L w =
     (if \<not> isArea L w then Inr None
      else case familyOf L w of None \<Rightarrow> Inl NOT_CHECKED_KEYS
      | Some g \<Rightarrow> (case map_of (lgAreaWrite L) (g, w) of None \<Rightarrow> Inl NOT_CHECKED_KEYS | Some v \<Rightarrow> Inr (Some (g, v))))"

definition readVersion :: "ledger \<Rightarrow> string \<Rightarrow> crypto_error + int option" where
  "readVersion L w = bindE (readAt L w) (\<lambda>at. Inr (map_option snd at))"

definition writeVersion :: "ledger \<Rightarrow> string \<Rightarrow> crypto_error + int option" where
  "writeVersion L w =
     bindE (readAt L w) (\<lambda>at. case at of None \<Rightarrow> Inr None
       | Some (g, v) \<Rightarrow>
           if has_key (g, w) (lgBlocked L) then Inl KEYS_CHANGED
           else case map_of (lgRootSeenAt L) (g, w) of
               None \<Rightarrow> Inl KEYS_CHANGED
             | Some seen_at \<Rightarrow>
                 if seen_at < v then Inl KEY_CHANGE_PENDING else if seen_at \<noteq> v then Inl KEYS_CHANGED else Inr (Some v))"

definition unwritable :: "ledger \<Rightarrow> string \<Rightarrow> string \<Rightarrow> int \<Rightarrow> area_block option" where
  "unwritable L g w latest =
     (case map_of (lgBlocked L) (g, w) of Some reason \<Rightarrow> Some reason
      | None \<Rightarrow> (case map_of (lgRootSeenAt L) (g, w) of
            None \<Rightarrow> Some Root_Unknown
          | Some seen_at \<Rightarrow> if seen_at = latest then None else Some Root_Behind))"

definition requireGuardKept :: "ledger \<Rightarrow> string \<Rightarrow> crypto_error + unit" where
  "requireGuardKept L w = refuse_if (list_ex (\<lambda>g. g \<in> set (lgGuardOwed L)) (openedBy L w)) GUARD_NOT_KEPT"

section \<open>Workspace and node keys\<close>

definition workspaceKey :: "ledger \<Rightarrow> string \<Rightarrow> int \<Rightarrow> bytes option" where
  "workspaceKey L w v = Option.bind (map_of (lgWorkspaceKeys L) w) (\<lambda>entry. map_of (weKeys entry) v)"

definition holdWorkspaceKey :: "string \<Rightarrow> int \<Rightarrow> bytes \<Rightarrow> ledger \<Rightarrow> ledger" where
  "holdWorkspaceKey w v key L =
     (let entry = (case map_of (lgWorkspaceKeys L) w of
            None \<Rightarrow> \<lparr> weCurrent = v, weKeys = [] \<rparr> | Some entry \<Rightarrow> entry) in
      L\<lparr> lgWorkspaceKeys := AList.update w
         \<lparr> weCurrent = max (weCurrent entry) v, weKeys = AList.update v key (weKeys entry) \<rparr> (lgWorkspaceKeys L) \<rparr>)"

definition workspaceVersions :: "ledger \<Rightarrow> string \<Rightarrow> int list option" where
  "workspaceVersions L w = map_option (\<lambda>entry. rev (sort (map fst (weKeys entry)))) (map_of (lgWorkspaceKeys L) w)"

definition hasWorkspace :: "ledger \<Rightarrow> string \<Rightarrow> bool" where
  "hasWorkspace L w = has_key w (lgWorkspaceKeys L)"

definition dropWorkspace :: "string \<Rightarrow> ledger \<Rightarrow> ledger" where
  "dropWorkspace w L =
     (let under_w = (\<lambda>at. fst at = w) in
      L\<lparr> lgWorkspaceKeys := AList.delete w (lgWorkspaceKeys L),
        lgOwnNodeKeys := drop_keys under_w (lgOwnNodeKeys L), lgGuestNodeKeys := drop_keys under_w (lgGuestNodeKeys L),
        lgOwnPrevNodeKeys := drop_keys under_w (lgOwnPrevNodeKeys L),
        lgGuestPrevNodeKeys := drop_keys under_w (lgGuestPrevNodeKeys L),
        lgRootOpenedUnder := drop_keys under_w (lgRootOpenedUnder L), lgLineage := drop_keys under_w (lgLineage L),
        lgPending := drop_keys under_w (lgPending L) \<rparr>)"

text \<open>\<open>clear\<close>: a lock.\<close>

definition clear_keys :: "ledger \<Rightarrow> ledger" where
  "clear_keys L = L\<lparr> lgWorkspaceKeys := [], lgOwnNodeKeys := [], lgGuestNodeKeys := [], lgOwnPrevNodeKeys := [],
     lgGuestPrevNodeKeys := [], lgPending := [], lgRootOpenedUnder := [], lgLineage := [], lgPersonal := [] \<rparr>"

text \<open>\<open>nodeKeysOf\<close>: the pool of the account's own workspaces, or the guests'.\<close>

definition nodeKeysOf :: "ledger \<Rightarrow> string \<Rightarrow> node_pool" where
  "nodeKeysOf L w = (if hasWorkspace L w then lgOwnNodeKeys L else lgGuestNodeKeys L)"

definition with_node_keys :: "string \<Rightarrow> (node_pool \<Rightarrow> node_pool) \<Rightarrow> ledger \<Rightarrow> ledger" where
  "with_node_keys w f L = (if hasWorkspace L w then L\<lparr> lgOwnNodeKeys := f (lgOwnNodeKeys L) \<rparr>
     else L\<lparr> lgGuestNodeKeys := f (lgGuestNodeKeys L) \<rparr>)"

definition prevNodeKeysOf :: "ledger \<Rightarrow> string \<Rightarrow> node_pool" where
  "prevNodeKeysOf L w = (if hasWorkspace L w then lgOwnPrevNodeKeys L else lgGuestPrevNodeKeys L)"

definition nodeKey :: "ledger \<Rightarrow> string \<Rightarrow> string \<Rightarrow> held_key option" where
  "nodeKey L w n = (if heldBack L w then None else map_of (nodeKeysOf L w) (w, n))"

definition prevNodeKey :: "ledger \<Rightarrow> string \<Rightarrow> string \<Rightarrow> held_key option" where
  "prevNodeKey L w n = (if heldBack L w then None else map_of (prevNodeKeysOf L w) (w, n))"

definition forgetNodeKey :: "string \<Rightarrow> string \<Rightarrow> ledger \<Rightarrow> ledger" where
  "forgetNodeKey w n = with_node_keys w (AList.delete (w, n))"

definition keyAtEpoch :: "ledger \<Rightarrow> string \<Rightarrow> string \<Rightarrow> int \<Rightarrow> bytes option" where
  "keyAtEpoch L w n epoch =
     (case nodeKey L w n of
        Some h \<Rightarrow> if heldEpoch h = epoch then Some (heldKey h)
          else (case prevNodeKey L w n of None \<Rightarrow> None | Some h \<Rightarrow> if heldEpoch h = epoch then Some (heldKey h) else None)
      | None \<Rightarrow> (case prevNodeKey L w n of None \<Rightarrow> None | Some h \<Rightarrow> if heldEpoch h = epoch then Some (heldKey h) else None))"

definition refuseOwnWorkspace :: "ledger \<Rightarrow> string \<Rightarrow> crypto_error + unit" where
  "refuseOwnWorkspace L w = refuse_if (hasWorkspace L w) OWN_WORKSPACE_NAMED"

definition lineage_of :: "ledger \<Rightarrow> string \<Rightarrow> string \<Rightarrow> int option" where
  "lineage_of L w n = (case map_of (lgLineage L) (w, n) of None \<Rightarrow> None | Some r \<Rightarrow> r)"

definition parentKeyAndRoot :: "ledger \<Rightarrow> string \<Rightarrow> string \<Rightarrow> int \<Rightarrow> crypto_error + bytes \<times> int option" where
  "parentKeyAndRoot L w parent epoch =
     (if parent = w then
        (case map_of (lgWorkspaceKeys L) w of None \<Rightarrow> Inl OPEN_DRIVE_AGAIN
         | Some entry \<Rightarrow> (case map_of (weKeys entry) epoch of None \<Rightarrow> Inl OLDER_WORKSPACE_KEY
             | Some key \<Rightarrow> Inr (key, Some epoch)))
      else
        let held_parent = (\<lambda>_::unit. case nodeKey L w parent of None \<Rightarrow> Inl OPEN_CONTAINING
            | Some h \<Rightarrow>
                if heldEpoch h = epoch then Inr (heldKey h, lineage_of L w parent)
                else (case map_of (prevNodeKeysOf L w) (w, parent) of
                    Some previous \<Rightarrow> if heldEpoch previous = epoch then Inr (heldKey previous, None) else Inl OLDER_FOLDER_KEY
                  | None \<Rightarrow> Inl OLDER_FOLDER_KEY))
        in case map_of (lgPending L) (w, parent) of
            Some p \<Rightarrow> if pnEpoch p = epoch then Inr (pnFresh p, pnRootedAt p)
              else if pnOldEpoch p = epoch then Inr (pnOld p, None) else held_parent ()
          | None \<Rightarrow> held_parent ())"

definition parentKeyFor :: "ledger \<Rightarrow> string \<Rightarrow> string \<Rightarrow> int \<Rightarrow> crypto_error + bytes" where
  "parentKeyFor L w parent epoch = bindE (parentKeyAndRoot L w parent epoch) (\<lambda>(key, _). Inr key)"

definition rootOf :: "ledger \<Rightarrow> string \<Rightarrow> string \<Rightarrow> int \<Rightarrow> crypto_error + int option" where
  "rootOf L w parent epoch = bindE (parentKeyAndRoot L w parent epoch) (\<lambda>(_, r). Inr r)"

text \<open>\<open>rootedNow\<close>, which may refuse where the write version does.\<close>

definition rootedNow :: "ledger \<Rightarrow> string \<Rightarrow> int option \<Rightarrow> crypto_error + bool" where
  "rootedNow L w r = (case r of None \<Rightarrow> Inr False | Some v \<Rightarrow> bindE (writeVersion L w) (\<lambda>wv. Inr (wv = Some v)))"

definition rootedAtWriteVersion :: "ledger \<Rightarrow> string \<Rightarrow> string \<Rightarrow> crypto_error + bool" where
  "rootedAtWriteVersion L w n = rootedNow L w (lineage_of L w n)"

definition writableNodeKey :: "ledger \<Rightarrow> string \<Rightarrow> string \<Rightarrow> crypto_error + held_key option" where
  "writableNodeKey L w n =
     (if heldBack L w then Inl NO_CHAIN
      else bindE (requireGuardKept L w) (\<lambda>_.
        case nodeKey L w n of None \<Rightarrow> Inr None
        | Some h \<Rightarrow>
            if isArea L w then bindE (rootedAtWriteVersion L w n) (\<lambda>ok. if \<not> ok then Inl KEY_CHANGE_PENDING else Inr (Some h))
            else Inr (Some h)))"

definition writeVersionOf :: "ledger \<Rightarrow> string \<Rightarrow> crypto_error + int \<times> bytes" where
  "writeVersionOf L w =
     bindE (requireGuardKept L w) (\<lambda>_.
       case map_of (lgWorkspaceKeys L) w of None \<Rightarrow> Inl OPEN_DRIVE_AGAIN
       | Some entry \<Rightarrow>
           bindE (writeVersion L w) (\<lambda>wv.
             let v = (case wv of None \<Rightarrow> weCurrent entry | Some v \<Rightarrow> v) in
             case map_of (weKeys entry) v of None \<Rightarrow> Inl KEYS_CHANGED | Some key \<Rightarrow> Inr (v, key)))"

definition requireWritable :: "ledger \<Rightarrow> string \<Rightarrow> crypto_error + unit" where
  "requireWritable L w =
     bindE (requireGuardKept L w) (\<lambda>_.
     bindE (writeVersion L w) (\<lambda>wv. case wv of None \<Rightarrow> Inr ()
       | Some v \<Rightarrow> refuse_if (workspaceKey L w v = None) KEYS_CHANGED))"

text \<open>\<open>wrapKeyFor\<close>: the key a new or re-wrapped node goes under.\<close>

definition wrapKeyFor :: "ledger \<Rightarrow> string \<Rightarrow> string \<Rightarrow> int \<Rightarrow> crypto_error + bytes" where
  "wrapKeyFor L w parent epoch =
     bindE (requireGuardKept L w) (\<lambda>_.
       if parent = w then
         if isArea L w then Inl AREA_ROOT
         else bindE (writeVersionOf L w) (\<lambda>(v, key). if v \<noteq> epoch then Inl KEYS_CHANGED else Inr key)
       else if \<not> isArea L w then parentKeyFor L w parent epoch
       else
         let held_parent = (\<lambda>_::unit. case nodeKey L w parent of None \<Rightarrow> Inl OPEN_CONTAINING
             | Some h \<Rightarrow> bindE (rootedAtWriteVersion L w parent) (\<lambda>ok.
                 if \<not> ok then Inl KEY_CHANGE_PENDING
                 else if heldEpoch h = epoch \<and> map_option pnOldEpoch (map_of (lgPending L) (w, parent)) \<noteq> Some epoch
                 then Inr (heldKey h) else Inl KEYS_CHANGED))
         in case map_of (lgPending L) (w, parent) of
             Some p \<Rightarrow> if pnEpoch p = epoch
               then bindE (rootedNow L w (pnRootedAt p)) (\<lambda>ok. if \<not> ok then Inl KEY_CHANGE_PENDING else Inr (pnFresh p))
               else held_parent ()
           | None \<Rightarrow> held_parent ())"

definition rememberNodeKey :: "string \<Rightarrow> string \<Rightarrow> bytes \<Rightarrow> int \<Rightarrow> int option \<Rightarrow> ledger \<Rightarrow> ledger" where
  "rememberNodeKey w n key epoch rootedAt L =
     (with_node_keys w (AList.update (w, n) \<lparr> heldKey = key, heldEpoch = epoch, heldOwn = False \<rparr>) L)
       \<lparr> lgLineage := AList.update (w, n) rootedAt (lgLineage L),
         lgRootOpenedUnder := AList.delete (w, n) (lgRootOpenedUnder L) \<rparr>"

definition rememberPrevNodeKey :: "string \<Rightarrow> string \<Rightarrow> bytes \<Rightarrow> int \<Rightarrow> bool \<Rightarrow> ledger \<Rightarrow> ledger" where
  "rememberPrevNodeKey w n key epoch is_own L =
     (let h = \<lparr> heldKey = key, heldEpoch = epoch, heldOwn = is_own \<rparr> in
      if hasWorkspace L w then L\<lparr> lgOwnPrevNodeKeys := AList.update (w, n) h (lgOwnPrevNodeKeys L) \<rparr>
      else L\<lparr> lgGuestPrevNodeKeys := AList.update (w, n) h (lgGuestPrevNodeKeys L) \<rparr>)"

section \<open>Chains, guards and areas\<close>

definition openPersonalWorkspace :: "string \<Rightarrow> int \<Rightarrow> bytes \<Rightarrow> ledger \<Rightarrow> crypto_error + ledger" where
  "openPersonalWorkspace w v key L =
     (if openedByFamily L w then Inl FAMILY_FOLDER
      else Inr (holdWorkspaceKey w v key (L\<lparr> lgPersonal := List.insert w (lgPersonal L) \<rparr>)))"

definition checkCommit :: "ledger \<Rightarrow> chain_body \<Rightarrow> crypto_error + unit" where
  "checkCommit L chain =
     bindE (mapE (\<lambda>holding. case Option.bind holding (\<lambda>h. overtakenBy h chain) of None \<Rightarrow> Inr () | Some e \<Rightarrow> Inl e)
       [map_of (lgFloors L) (chGroupId chain), map_of (lgChains L) (chGroupId chain)]) (\<lambda>_. Inr ())"

definition past_floor :: "chain_body option \<Rightarrow> chain_body \<Rightarrow> bool" where
  "past_floor flr chain \<longleftrightarrow> (case flr of None \<Rightarrow> True
     | Some f \<Rightarrow> rosterVersion (chRoster f) < rosterVersion (chRoster chain)
         \<or> (rosterVersion (chRoster f) = rosterVersion (chRoster chain) \<and> chGroupKeyVersion f < chGroupKeyVersion chain))"

text \<open>One listed area of a committed chain: written under its version there, or no more when it is retired.\<close>

definition commit_area :: "chain_body \<Rightarrow> string \<Rightarrow> ledger \<Rightarrow> ledger" where
  "commit_area chain w L =
     (let at = (chGroupId chain, w) in
      case areaWriteVersion (Accepted_Rosters chain) w of
        Inr (Some v) \<Rightarrow> L\<lparr> lgAreaWrite := AList.update at (int v) (lgAreaWrite L) \<rparr>
      | _ \<Rightarrow> L\<lparr> lgAreaWrite := AList.delete at (lgAreaWrite L), lgRootSeenAt := AList.delete at (lgRootSeenAt L) \<rparr>)"

definition commit_chain :: "chain_body \<Rightarrow> ledger \<Rightarrow> crypto_error + ledger" where
  "commit_chain chain L =
     bindE (checkCommit L chain) (\<lambda>_.
       let g = chGroupId chain;
           flr = map_of (lgFloors L) g;
           L1 = L\<lparr> lgChains := AList.update g chain (lgChains L),
             lgFloors := (if past_floor flr chain then AList.update g chain (lgFloors L) else lgFloors L) \<rparr>
       in Inr (fold (commit_area chain) (map fst (chAreaKeys chain)) L1))"

definition uncommit :: "string \<Rightarrow> ledger \<Rightarrow> ledger" where
  "uncommit g L = L\<lparr> lgAreaWrite := drop_keys (\<lambda>at. fst at = g) (lgAreaWrite L), lgChains := AList.delete g (lgChains L) \<rparr>"

definition owe :: "string \<Rightarrow> ledger \<Rightarrow> ledger" where
  "owe g L = L\<lparr> lgGuardOwed := List.insert g (lgGuardOwed L) \<rparr>"

definition guard_kept :: "string \<Rightarrow> ledger \<Rightarrow> ledger" where
  "guard_kept g L = L\<lparr> lgGuardOwed := removeAll g (lgGuardOwed L) \<rparr>"

definition owes :: "ledger \<Rightarrow> string \<Rightarrow> bool" where
  "owes L g \<longleftrightarrow> g \<in> set (lgGuardOwed L)"

definition forgetGroup :: "string \<Rightarrow> ledger \<Rightarrow> ledger" where
  "forgetGroup g L =
     (let L1 = guard_kept g L;
          L2 = fold dropWorkspace (case map_of (lgOpened L1) g of None \<Rightarrow> [] | Some opened_areas \<Rightarrow> map fst opened_areas) L1;
          of_g = (\<lambda>at. fst at = g)
      in L2\<lparr> lgAreaWrite := drop_keys of_g (lgAreaWrite L2), lgBlocked := drop_keys of_g (lgBlocked L2),
           lgRootSeenAt := drop_keys of_g (lgRootSeenAt L2), lgRootIds := drop_keys of_g (lgRootIds L2),
           lgOpened := AList.delete g (lgOpened L2), lgChains := AList.delete g (lgChains L2),
           lgFloors := AList.delete g (lgFloors L2) \<rparr>)"

definition forgetAllGroups :: "ledger \<Rightarrow> ledger" where
  "forgetAllGroups L =
     fold forgetGroup (remdups (map fst (lgChains L) @ map fst (lgOpened L) @ map fst (lgFloors L))) (L\<lparr> lgGuardOwed := [] \<rparr>)"

definition chain_floor :: "ledger \<Rightarrow> string \<Rightarrow> chain_body option" where
  "chain_floor L g = map_of (lgFloors L) g"

definition committedChain :: "ledger \<Rightarrow> string \<Rightarrow> chain_body option" where
  "committedChain L g = map_of (lgChains L) g"

definition block_reason :: "int \<Rightarrow> int \<Rightarrow> int \<Rightarrow> area_block option" where
  "block_reason v latest served_version =
     (if v < latest then Some No_Grant_At_Latest
      else if served_version < latest then Some Server_Behind
      else if served_version > latest then Some Server_Ahead else None)"

text \<open>The checks \<open>openArea\<close> makes before it changes anything: the area's latest version on the chain.\<close>

definition open_area_checks :: "primitives \<Rightarrow> ledger \<Rightarrow> string \<Rightarrow> string \<Rightarrow> string \<Rightarrow> int \<Rightarrow> bytes \<Rightarrow> crypto_error + int" where
  "open_area_checks P L g w idSeed v key =
     bindE (uuid (JStr g) ''group id'') (\<lambda>_.
     case map_of (lgChains L) g of None \<Rightarrow> Inl NO_CHAIN
     | Some chain \<Rightarrow>
         bindE (uuid (JStr w) ''workspace id'') (\<lambda>_.
         bindE (refuse_if (w \<in> set (lgPersonal L)) NOT_THE_FAMILYS) (\<lambda>_.
         bindE (case checkId P ''workspace'' g idSeed w of Inl _ \<Rightarrow> Inl NOT_THE_FAMILYS | Inr _ \<Rightarrow> Inr ()) (\<lambda>_.
         bindE (areaWriteVersion (Accepted_Rosters chain) w) (\<lambda>wv. case wv of None \<Rightarrow> Inl AREA_NOT_LISTED
           | Some latest \<Rightarrow>
               let listed = get_or [] (chAreaKeys chain) w in
               bindE (refuse_if (v < 1) NOT_CHECKED_KEYS) (\<lambda>_.
               bindE (areaKeyCommitment P key) (\<lambda>committed.
               bindE (refuse_if (at_index listed (v - 1) \<noteq> Some committed) NOT_CHECKED_KEYS) (\<lambda>_. Inr (int latest)))))))))"

definition openArea :: "primitives \<Rightarrow> (ledger \<Rightarrow> ledger) \<Rightarrow> string \<Rightarrow> string \<Rightarrow> string \<Rightarrow> int \<Rightarrow> bytes \<Rightarrow> int \<Rightarrow> ledger
    \<Rightarrow> (crypto_error + area_block option) \<times> ledger" where
  "openArea P during g w idSeed v key served_version L =
     (case open_area_checks P L g w idSeed v key of
        Inl e \<Rightarrow> (Inl e, during L)
      | Inr latest \<Rightarrow>
          let L1 = during L;
              opened_areas = get_or [] (lgOpened L1) g;
              highest = (case map_of opened_areas w of None \<Rightarrow> max 0 v | Some o1 \<Rightarrow> max o1 v);
              L2 = L1\<lparr> lgOpened := AList.update g (AList.update w highest opened_areas) (lgOpened L1) \<rparr>;
              L3 = holdWorkspaceKey w v key L2;
              L4 = (case block_reason v latest served_version of
                  Some reason \<Rightarrow> L3\<lparr> lgBlocked := AList.update (g, w) reason (lgBlocked L3) \<rparr>
                | None \<Rightarrow> L3\<lparr> lgBlocked := AList.delete (g, w) (lgBlocked L3) \<rparr>)
          in (Inr (unwritable L4 g w latest), L4))"

section \<open>Roots\<close>

definition root_checked :: "string \<Rightarrow> string \<Rightarrow> string \<Rightarrow> int \<Rightarrow> bool \<Rightarrow> ledger \<Rightarrow> ledger" where
  "root_checked g w n epoch ok L =
     (let at = (g, w) in
      if \<not> ok then
        if map_of (lgRootSeenAt L) at = Some epoch \<or> map_of (lgAreaWrite L) at = Some epoch
        then L\<lparr> lgRootSeenAt := AList.delete at (lgRootSeenAt L) \<rparr> else L
      else
        let L1 = (case map_of (lgRootSeenAt L) at of
              Some seen_at \<Rightarrow> if seen_at < epoch then L\<lparr> lgRootSeenAt := AList.update at epoch (lgRootSeenAt L) \<rparr> else L
            | None \<Rightarrow> L\<lparr> lgRootSeenAt := AList.update at epoch (lgRootSeenAt L) \<rparr>)
        in if \<not> has_key at (lgRootIds L1) \<and> map_of (lgAreaWrite L1) at = Some epoch
           then L1\<lparr> lgRootIds := AList.update at n (lgRootIds L1) \<rparr> else L1)"

definition rootSeen :: "primitives \<Rightarrow> (ledger \<Rightarrow> ledger) \<Rightarrow> string \<Rightarrow> string \<Rightarrow> int \<Rightarrow> bytes \<Rightarrow> ledger \<Rightarrow> bool \<times> ledger" where
  "rootSeen P during w n epoch rootKey L =
     (if \<not> isArea L w then (True, L)
      else case familyOf L w of None \<Rightarrow> (True, L)
      | Some g \<Rightarrow> (case map_of (lgChains L) g of None \<Rightarrow> (True, L)
          | Some chain \<Rightarrow>
              let ok = (case checkAreaRoot P (Accepted_Rosters chain) w epoch rootKey of Inl _ \<Rightarrow> False | Inr _ \<Rightarrow> True)
              in (ok, root_checked g w n epoch ok (during L))))"

definition notTheRoot :: "ledger \<Rightarrow> string \<Rightarrow> string \<Rightarrow> bool" where
  "notTheRoot L w n =
     (case familyOf L w of None \<Rightarrow> False
      | Some g \<Rightarrow> (case map_of (lgRootIds L) (g, w) of None \<Rightarrow> False | Some root \<Rightarrow> root \<noteq> n))"

end
