(* ===== verification/Drive_Walks.thy ===== *)
theory Drive_Walks
  imports Drive_Ledger
begin

text \<open>
  The operations of \<open>packages/crypto/src/area-ledger.ts\<close> that open, make and rotate node keys: listings
  (\<open>openListedNode\<close>), new nodes, moves, and the walks that re-key a tree, with the keys a batch leaves pending
  until the server answers. What the session does to the ledger while an operation awaits is an argument: one
  change per await (\<open>during\<close>), or one for each of several, in order. Fresh keys and nonces are arguments.
\<close>

section \<open>Listings\<close>

record served_node_key =
  snId :: string
  snParentId :: string
  snParentKeyEpoch :: int
  snKeyEpoch :: int
  snKeyEnvelope :: string
  snPrevKeyEnvelope :: "string option"
  snPrevKeyEpoch :: "int option"
  snPrevParentKeyEpoch :: "int option"

definition served_context :: "string \<Rightarrow> served_node_key \<Rightarrow> node_key_context" where
  "served_context w node = \<lparr> nkWorkspaceId = w, nkNodeId = snId node, nkParentId = snParentId node,
     nkParentKeyEpoch = snParentKeyEpoch node, nkKeyEpoch = snKeyEpoch node \<rparr>"

text \<open>The key held for the node, where a listing takes it as it is.\<close>

definition listed_from_cache :: "ledger \<Rightarrow> string \<Rightarrow> served_node_key \<Rightarrow> bool \<Rightarrow> bytes option" where
  "listed_from_cache L w node areaRoot =
     (case nodeKey L w (snId node) of None \<Rightarrow> None
      | Some cached \<Rightarrow>
          if heldEpoch cached = snKeyEpoch node
            \<and> (\<not> areaRoot \<or> map_of (lgRootOpenedUnder L) (w, snId node) = Some (snParentKeyEpoch node))
          then Some (heldKey cached) else None)"

text \<open>The key an area root had before it was re-keyed, where this device held it.\<close>

definition held_previous :: "ledger \<Rightarrow> string \<Rightarrow> served_node_key \<Rightarrow> bool \<Rightarrow> bytes option" where
  "held_previous L w node areaRoot =
     (case nodeKey L w (snId node) of None \<Rightarrow> None
      | Some cached \<Rightarrow>
          if areaRoot \<and> listed_from_cache L w node areaRoot = None \<and> snPrevKeyEpoch node = Some (heldEpoch cached)
            \<and> heldEpoch cached \<noteq> snKeyEpoch node
          then Some (heldKey cached) else None)"

text \<open>The envelope opened under the parent's key, and the key remembered with what its path is rooted at.\<close>

definition open_listed_key :: "seal_primitives \<Rightarrow> (ledger \<Rightarrow> ledger) \<Rightarrow> string \<Rightarrow> served_node_key \<Rightarrow> bool \<Rightarrow> ledger
    \<Rightarrow> (crypto_error + bytes) \<times> ledger" where
  "open_listed_key S during w node areaRoot L =
     (case bindE (parentKeyAndRoot L w (snParentId node) (snParentKeyEpoch node)) (\<lambda>(parentKey, rootedAt).
             bindE (decode (snKeyEnvelope node) (Some 72)) (\<lambda>envelope. Inr (parentKey, rootedAt, envelope))) of
        Inl e \<Rightarrow> (Inl e, L)
      | Inr (parentKey, rootedAt, envelope) \<Rightarrow>
          let L1 = during L in
          (case openNodeKey S envelope parentKey (served_context w node) of
             Inl e \<Rightarrow> (Inl e, L1)
           | Inr key \<Rightarrow>
               if heldBack L1 w then (Inl NO_CHAIN, L1)
               else
                 let L2 = rememberNodeKey w (snId node) key (snKeyEpoch node) rootedAt L1 in
                 (Inr key, if areaRoot
                    then L2\<lparr> lgRootOpenedUnder := AList.update (w, snId node) (snParentKeyEpoch node) (lgRootOpenedUnder L2) \<rparr>
                    else L2)))"

definition drop_root_key :: "string \<Rightarrow> string \<Rightarrow> ledger \<Rightarrow> ledger" where
  "drop_root_key w n L =
     (forgetNodeKey w n L)\<lparr> lgRootOpenedUnder := AList.delete (w, n) (lgRootOpenedUnder L) \<rparr>"

text \<open>The node's previous key under its parent's, while a rotation runs: \<open>None\<close> where the row has none
  (a missing, null or empty field), and the parent's key and the envelope where they are at hand.\<close>

definition served_previous :: "served_node_key \<Rightarrow> (string \<times> int \<times> int) option" where
  "served_previous node =
     (case (snPrevKeyEnvelope node, snPrevParentKeyEpoch node, snPrevKeyEpoch node) of
        (Some envelope, Some parentEpoch, Some epoch) \<Rightarrow>
          if envelope \<noteq> [] \<and> parentEpoch \<noteq> 0 \<and> epoch \<noteq> 0 then Some (envelope, parentEpoch, epoch) else None
      | _ \<Rightarrow> None)"

definition open_previous_key :: "seal_primitives \<Rightarrow> (ledger \<Rightarrow> ledger) \<Rightarrow> string \<Rightarrow> served_node_key \<Rightarrow> bool
    \<Rightarrow> string \<times> int \<times> int \<Rightarrow> ledger \<Rightarrow> bytes option \<times> ledger" where
  "open_previous_key S during w node areaRoot prev L =
     (case prev of (text, parentEpoch, epoch) \<Rightarrow>
       (case bindE (parentKeyFor L w (snParentId node) parentEpoch) (\<lambda>parentKey.
               bindE (decode text (Some 72)) (\<lambda>envelope. Inr (parentKey, envelope))) of
          Inl _ \<Rightarrow> (None, L)
        | Inr (parentKey, envelope) \<Rightarrow>
            let ctx = \<lparr> nkWorkspaceId = w, nkNodeId = snId node, nkParentId = snParentId node,
                  nkParentKeyEpoch = parentEpoch, nkKeyEpoch = epoch \<rparr>;
                plain = openNodeKey S envelope parentKey ctx;
                result = (if areaRoot then (case openPreviousRootKey S envelope parentKey ctx of Inl _ \<Rightarrow> plain | Inr k \<Rightarrow> Inr k)
                  else plain)
            in (case result of Inl _ \<Rightarrow> None | Inr k \<Rightarrow> Some k, during L)))"

definition keep_previous_key :: "string \<Rightarrow> served_node_key \<Rightarrow> bool \<Rightarrow> bytes option \<Rightarrow> bytes option \<Rightarrow> int \<Rightarrow> ledger \<Rightarrow> ledger" where
  "keep_previous_key w node areaRoot heldPrevious previous epoch L =
     (let own_key = (case heldPrevious of Some k \<Rightarrow> Some k
            | None \<Rightarrow> (case map_of (prevNodeKeysOf L w) (w, snId node) of None \<Rightarrow> None
                | Some kept \<Rightarrow> if areaRoot \<and> heldOwn kept \<and> heldEpoch kept = epoch then Some (heldKey kept) else None))
      in case own_key of
           Some k \<Rightarrow> rememberPrevNodeKey w (snId node) k epoch True L
         | None \<Rightarrow> (case previous of Some k \<Rightarrow> rememberPrevNodeKey w (snId node) k epoch False L | None \<Rightarrow> L))"

definition take_previous_key :: "seal_primitives \<Rightarrow> (ledger \<Rightarrow> ledger) \<Rightarrow> string \<Rightarrow> served_node_key \<Rightarrow> bool \<Rightarrow> bytes option
    \<Rightarrow> ledger \<Rightarrow> ledger" where
  "take_previous_key S during w node areaRoot heldPrevious L =
     (case served_previous node of None \<Rightarrow> L
      | Some (text, parentEpoch, epoch) \<Rightarrow>
          (case open_previous_key S during w node areaRoot (text, parentEpoch, epoch) L of
             (previous, L1) \<Rightarrow> keep_previous_key w node areaRoot heldPrevious previous epoch L1))"

text \<open>\<open>openListedNode\<close>: awaits the envelope (0), the root's check (1 within it, 2 on the way back) and the
  previous envelope (3).\<close>

definition openListedNode :: "primitives \<Rightarrow> seal_primitives \<Rightarrow> (nat \<Rightarrow> ledger \<Rightarrow> ledger) \<Rightarrow> string \<Rightarrow> served_node_key \<Rightarrow> ledger
    \<Rightarrow> (crypto_error + bytes) \<times> ledger" where
  "openListedNode P S during w node L =
     (let areaRoot = (snParentId node = w \<and> isArea L w);
          heldPrevious = held_previous L w node areaRoot
      in if heldBack L w then (Inl NO_CHAIN, L)
      else if areaRoot \<and> notTheRoot L w (snId node) then (Inl NOT_COMMITTED_ROOT, L)
      else
        case (case listed_from_cache L w node areaRoot of
                Some key \<Rightarrow> (Inr key, L)
              | None \<Rightarrow> open_listed_key S (during 0) w node areaRoot L) of
          (Inl e, L1) \<Rightarrow> (Inl e, L1)
        | (Inr key, L1) \<Rightarrow>
            let (ok, L2) = (if areaRoot
                  then (case rootSeen P (during 1) w (snId node) (snParentKeyEpoch node) key L1 of (ok, M) \<Rightarrow> (ok, during 2 M))
                  else (True, L1))
            in if \<not> ok then (Inl NOT_COMMITTED_ROOT, drop_root_key w (snId node) L2)
               else
                 let L3 = take_previous_key S (during 3) w node areaRoot heldPrevious L2 in
                 (if heldBack L3 w then Inl NO_CHAIN else Inr key, L3))"

section \<open>New nodes, moves and walks\<close>

record placed_node =
  plId :: string
  plParentId :: string
  plParentKeyEpoch :: int
  plKeyEpoch :: int

definition placed_context :: "string \<Rightarrow> placed_node \<Rightarrow> node_key_context" where
  "placed_context w node = \<lparr> nkWorkspaceId = w, nkNodeId = plId node, nkParentId = plParentId node,
     nkParentKeyEpoch = plParentKeyEpoch node, nkKeyEpoch = plKeyEpoch node \<rparr>"

definition newNodeKey :: "seal_primitives \<Rightarrow> (ledger \<Rightarrow> ledger) \<Rightarrow> bytes \<Rightarrow> bytes \<Rightarrow> string \<Rightarrow> placed_node \<Rightarrow> ledger
    \<Rightarrow> (crypto_error + bytes) \<times> ledger" where
  "newNodeKey S during key nonce w node L =
     (case wrapKeyFor L w (plParentId node) (plParentKeyEpoch node) of
        Inl e \<Rightarrow> (Inl e, L)
      | Inr parentKey \<Rightarrow>
          let L1 = during L in
          (case bindE (wrapNodeKey S nonce key parentKey (placed_context w node)) (\<lambda>keyEnvelope.
                  bindE (rootOf L1 w (plParentId node) (plParentKeyEpoch node)) (\<lambda>rootedAt. Inr (keyEnvelope, rootedAt))) of
             Inl e \<Rightarrow> (Inl e, L1)
           | Inr (keyEnvelope, rootedAt) \<Rightarrow>
               (Inr keyEnvelope, rememberNodeKey w (plId node) key (plKeyEpoch node) rootedAt L1)))"

text \<open>A node as rotation work serves it: its place, the parent epoch its envelope is under, and the envelope.\<close>

record rotating_node_key =
  rnPlace :: placed_node
  rnWrappedParentKeyEpoch :: int
  rnKeyEnvelope :: string

definition wrapped_context :: "string \<Rightarrow> rotating_node_key \<Rightarrow> node_key_context" where
  "wrapped_context w node = (placed_context w (rnPlace node))\<lparr> nkParentKeyEpoch := rnWrappedParentKeyEpoch node \<rparr>"

definition currentKeyOf :: "seal_primitives \<Rightarrow> string \<Rightarrow> rotating_node_key \<Rightarrow> ledger \<Rightarrow> crypto_error + bytes" where
  "currentKeyOf S w node L =
     (let opened_key = (\<lambda>_::unit. bindE (decode (rnKeyEnvelope node) (Some 72)) (\<lambda>envelope.
            bindE (parentKeyFor L w (plParentId (rnPlace node)) (rnWrappedParentKeyEpoch node)) (\<lambda>parentKey.
              openNodeKey S envelope parentKey (wrapped_context w node))))
      in case nodeKey L w (plId (rnPlace node)) of
           Some cached \<Rightarrow> if heldEpoch cached = plKeyEpoch (rnPlace node) then Inr (heldKey cached) else opened_key ()
         | None \<Rightarrow> opened_key ())"

definition rotationOldKey :: "seal_primitives \<Rightarrow> string \<Rightarrow> rotating_node_key \<Rightarrow> ledger \<Rightarrow> crypto_error + bytes" where
  "rotationOldKey S w node L =
     (if plParentId (rnPlace node) = w \<and> isArea L w then Inl AREA_ROOT else currentKeyOf S w node L)"

text \<open>What the key a walk only re-wraps is rooted at: the device's own copy, or its envelope's path.\<close>

definition rewrap_root :: "ledger \<Rightarrow> string \<Rightarrow> rotating_node_key \<Rightarrow> crypto_error + int option" where
  "rewrap_root L w node =
     (let path = (\<lambda>_::unit. rootOf L w (plParentId (rnPlace node)) (rnWrappedParentKeyEpoch node))
      in case nodeKey L w (plId (rnPlace node)) of
           Some cached \<Rightarrow> if heldEpoch cached = plKeyEpoch (rnPlace node)
             then Inr (lineage_of L w (plId (rnPlace node))) else path ()
         | None \<Rightarrow> path ())"

definition rewrapAtTarget :: "seal_primitives \<Rightarrow> (ledger \<Rightarrow> ledger) \<Rightarrow> bytes \<Rightarrow> string \<Rightarrow> rotating_node_key \<Rightarrow> bytes \<Rightarrow> ledger
    \<Rightarrow> (crypto_error + bytes) \<times> ledger" where
  "rewrapAtTarget S during nonce w node old L =
     (let place = rnPlace node in
      case bindE (rewrap_root L w node) (\<lambda>rootedAt.
             bindE (if isArea L w then rootedNow L w rootedAt else Inr True) (\<lambda>carried.
             bindE (refuse_if (\<not> carried) NOT_CARRIED) (\<lambda>_.
             bindE (wrapKeyFor L w (plParentId place) (plParentKeyEpoch place)) (\<lambda>parentKey. Inr (rootedAt, parentKey))))) of
        Inl e \<Rightarrow> (Inl e, L)
      | Inr (rootedAt, parentKey) \<Rightarrow>
          let L1 = during L in
          (case wrapNodeKey S nonce old parentKey (placed_context w place) of
             Inl e \<Rightarrow> (Inl e, L1)
           | Inr keyEnvelope \<Rightarrow>
               (Inr keyEnvelope, if nodeKey L w (plId place) = None
                  then rememberNodeKey w (plId place) old (plKeyEpoch place) rootedAt L1 else L1)))"

definition freshKeyParent :: "ledger \<Rightarrow> string \<Rightarrow> placed_node \<Rightarrow> crypto_error + bytes \<times> int option" where
  "freshKeyParent L w node =
     bindE (wrapKeyFor L w (plParentId node) (plParentKeyEpoch node)) (\<lambda>key.
     bindE (parentKeyAndRoot L w (plParentId node) (plParentKeyEpoch node)) (\<lambda>(_, rootedAt). Inr (key, rootedAt)))"

definition setPending :: "string \<Rightarrow> string \<Rightarrow> pending_key \<Rightarrow> ledger \<Rightarrow> ledger" where
  "setPending w n p L = L\<lparr> lgPending := AList.update (w, n) p (lgPending L) \<rparr>"

datatype 'a rotated = Rewrapped bytes bytes | Rekeyed_With 'a

text \<open>\<open>rotateKey\<close>: awaits the key it replaces (0), then the re-wrap or what \<open>rekey\<close> does with the old key, the
  fresh one and the parent's (1).\<close>

definition rotateKey :: "seal_primitives \<Rightarrow> (nat \<Rightarrow> ledger \<Rightarrow> ledger) \<Rightarrow> bytes \<Rightarrow> bytes \<Rightarrow> string \<Rightarrow> rotating_node_key \<Rightarrow> int
    \<Rightarrow> (bytes \<Rightarrow> bytes \<Rightarrow> bytes \<Rightarrow> crypto_error + 'a) \<Rightarrow> ledger \<Rightarrow> (crypto_error + 'a rotated) \<times> ledger" where
  "rotateKey S during fresh nonce w node targetEpoch rekey L =
     (let place = rnPlace node in
      case (requireWritable L w, rotationOldKey S w node L) of
        (Inl e, _) \<Rightarrow> (Inl e, L)
      | (Inr _, Inl e) \<Rightarrow> (Inl e, during 0 L)
      | (Inr _, Inr old) \<Rightarrow>
          let L1 = during 0 L in
          if plKeyEpoch place \<ge> targetEpoch then
            (case rewrapAtTarget S (during 1) nonce w node old L1 of
               (Inl e, L2) \<Rightarrow> (Inl e, L2)
             | (Inr keyEnvelope, L2) \<Rightarrow> (Inr (Rewrapped keyEnvelope old), L2))
          else if map_option pnEpoch (map_of (lgPending L1) (w, plId place)) = Some targetEpoch then (Inl ITEM_CHANGED, L1)
          else
            (case freshKeyParent L1 w place of
               Inl e \<Rightarrow> (Inl e, L1)
             | Inr (parentKey, rootedAt) \<Rightarrow>
                 let L2 = during 1 L1 in
                 (case rekey old fresh parentKey of
                    Inl e \<Rightarrow> (Inl e, L2)
                  | Inr result \<Rightarrow>
                      (Inr (Rekeyed_With result),
                       setPending w (plId place) \<lparr> pnFresh = fresh, pnEpoch = targetEpoch, pnOld = old,
                         pnOldEpoch = plKeyEpoch place, pnRootedAt = rootedAt \<rparr> L2))))"

definition rewrapNode :: "seal_primitives \<Rightarrow> bytes \<Rightarrow> string \<Rightarrow> placed_node \<Rightarrow> ledger \<Rightarrow> crypto_error + bytes" where
  "rewrapNode S nonce w node L =
     bindE (requireWritable L w) (\<lambda>_.
     bindE (writableNodeKey L w (plId node)) (\<lambda>entry. case entry of None \<Rightarrow> Inl OPEN_CONTAINING
       | Some h \<Rightarrow>
           bindE (refuse_if (heldEpoch h \<noteq> plKeyEpoch node) ITEM_CHANGED) (\<lambda>_.
           bindE (wrapKeyFor L w (plParentId node) (plParentKeyEpoch node)) (\<lambda>parentKey.
             wrapNodeKey S nonce (heldKey h) parentKey (placed_context w node)))))"

text \<open>The server's answer to a batch: taken, refused, or a walk abandoned; each with how many nodes had a key
  pending.\<close>

definition commit_one :: "string \<Rightarrow> string \<Rightarrow> nat \<times> ledger \<Rightarrow> nat \<times> ledger" where
  "commit_one w n st = (case st of (taken, L) \<Rightarrow>
     (case map_of (lgPending L) (w, n) of None \<Rightarrow> (taken, L)
      | Some p \<Rightarrow>
          (Suc taken,
           rememberNodeKey w n (pnFresh p) (pnEpoch p) (pnRootedAt p)
             (rememberPrevNodeKey w n (pnOld p) (pnOldEpoch p) True
               (L\<lparr> lgPending := AList.delete (w, n) (lgPending L) \<rparr>)))))"

definition commitPending :: "string \<Rightarrow> string list \<Rightarrow> ledger \<Rightarrow> nat \<times> ledger" where
  "commitPending w nodeIds L = fold (commit_one w) nodeIds (0, L)"

definition drop_one :: "string \<Rightarrow> string \<Rightarrow> nat \<times> ledger \<Rightarrow> nat \<times> ledger" where
  "drop_one w n st = (case st of (taken, L) \<Rightarrow>
     (if map_of (lgPending L) (w, n) = None then (taken, L)
      else (Suc taken, L\<lparr> lgPending := AList.delete (w, n) (lgPending L) \<rparr>)))"

definition dropPending :: "string \<Rightarrow> string list \<Rightarrow> ledger \<Rightarrow> nat \<times> ledger" where
  "dropPending w nodeIds L = fold (drop_one w) nodeIds (0, L)"

definition dropAllPending :: "string \<Rightarrow> ledger \<Rightarrow> nat \<times> ledger" where
  "dropAllPending w L =
     (length (filter (\<lambda>(at, _). fst at = w) (lgPending L)), L\<lparr> lgPending := drop_keys (\<lambda>at. fst at = w) (lgPending L) \<rparr>)"

end
