(* ===== verification/Ledger_Rules.thy ===== *)
theory Ledger_Rules
  imports Drive_Walks
begin

text \<open>
  The rules of the ledger, whatever the session does and whatever else it does while an operation awaits: every
  key held as rooted at a version of a family's area leads back to the key the family's member list names at
  that version, and the area's write version, floor and root seen come from chains of its family accepted here.
\<close>

section \<open>Maps\<close>

lemma map_of_drop_keys [simp]: "map_of (drop_keys Q m) k = (if Q k then None else map_of m k)"
  by (induction m) (auto simp: drop_keys_def)

lemma has_key_drop_keys [simp]: "has_key k (drop_keys Q m) \<longleftrightarrow> \<not> Q k \<and> has_key k m"
  by (auto simp: drop_keys_def)

lemma has_key_map_of: "has_key k m \<longleftrightarrow> map_of m k \<noteq> None"
  by (simp add: map_of_eq_None_iff)

lemma hasWorkspace_map: "hasWorkspace L w \<longleftrightarrow> map_of (lgWorkspaceKeys L) w \<noteq> None"
  by (simp add: hasWorkspace_def has_key_map_of)

section \<open>What a key is rooted at\<close>

text \<open>A workspace key a family's member list names at a version: its area's id is derived under the family, and
  a chain of the family accepted here lists the key's commitment.\<close>

definition listed_key :: "primitives \<Rightarrow> chain_body set \<Rightarrow> string \<Rightarrow> int \<Rightarrow> bytes \<Rightarrow> bool" where
  "listed_key P accepted_chains w v key \<longleftrightarrow> (\<exists>chain\<in>accepted_chains. \<exists>idSeed committed.
     checkId P ''workspace'' (chGroupId chain) idSeed w = Inr w \<and> 1 \<le> v
     \<and> areaKeyCommitment P key = Inr committed \<and> at_index (get_or [] (chAreaKeys chain) w) (v - 1) = Some committed)"

text \<open>A key is rooted at a version of a workspace when it is that version's key, or was opened under a rooted
  key by an envelope of the workspace, or was made here for a node whose parent's key is rooted there.\<close>

inductive rooted :: "primitives \<Rightarrow> seal_primitives \<Rightarrow> chain_body set \<Rightarrow> bytes set \<Rightarrow> string \<Rightarrow> int \<Rightarrow> bytes \<Rightarrow> bool"
  for P S accepted_chains made w v where
  at_the_workspace: "listed_key P accepted_chains w v key \<Longrightarrow> rooted P S accepted_chains made w v key"
| opened_under: "rooted P S accepted_chains made w v parentKey \<Longrightarrow> nkWorkspaceId ctx = w
    \<Longrightarrow> openNodeKey S envelope parentKey ctx = Inr key \<Longrightarrow> rooted P S accepted_chains made w v key"
| made_under: "rooted P S accepted_chains made w v parentKey \<Longrightarrow> key \<in> made \<Longrightarrow> rooted P S accepted_chains made w v key"

text \<open>The keys a ledger holds, \<open>own_ids\<close> the account's own workspaces.\<close>

definition keys_inv :: "primitives \<Rightarrow> seal_primitives \<Rightarrow> string set \<Rightarrow> chain_body set \<Rightarrow> bytes set \<Rightarrow> ledger \<Rightarrow> bool" where
  "keys_inv P S own_ids accepted_chains made L \<longleftrightarrow>
     (\<forall>w v key. w \<notin> own_ids \<longrightarrow> workspaceKey L w v = Some key \<longrightarrow> listed_key P accepted_chains w v key)
   \<and> (\<forall>w n. map_of (lgOwnNodeKeys L) (w, n) \<noteq> None \<longrightarrow> hasWorkspace L w)
   \<and> (\<forall>w n h v. w \<notin> own_ids \<longrightarrow> map_of (nodeKeysOf L w) (w, n) = Some h \<longrightarrow> lineage_of L w n = Some v
        \<longrightarrow> rooted P S accepted_chains made w v (heldKey h))
   \<and> (\<forall>w n p v. w \<notin> own_ids \<longrightarrow> map_of (lgPending L) (w, n) = Some p \<longrightarrow> pnRootedAt p = Some v
        \<longrightarrow> rooted P S accepted_chains made w v (pnFresh p))"

lemma keys_invD:
  assumes "keys_inv P S own_ids accepted_chains made L"
  shows "w \<notin> own_ids \<Longrightarrow> workspaceKey L w v = Some key \<Longrightarrow> listed_key P accepted_chains w v key"
    and "map_of (lgOwnNodeKeys L) (w, n) = Some h0 \<Longrightarrow> hasWorkspace L w"
    and "w \<notin> own_ids \<Longrightarrow> map_of (nodeKeysOf L w) (w, n) = Some h \<Longrightarrow> lineage_of L w n = Some v
        \<Longrightarrow> rooted P S accepted_chains made w v (heldKey h)"
    and "w \<notin> own_ids \<Longrightarrow> map_of (lgPending L) (w, n) = Some p \<Longrightarrow> pnRootedAt p = Some v
        \<Longrightarrow> rooted P S accepted_chains made w v (pnFresh p)"
  using assms unfolding keys_inv_def by (blast, fastforce, blast, blast)

lemma keys_invI:
  assumes "\<And>w v key. w \<notin> own_ids \<Longrightarrow> workspaceKey L w v = Some key \<Longrightarrow> listed_key P accepted_chains w v key"
    and "\<And>w n h. map_of (lgOwnNodeKeys L) (w, n) = Some h \<Longrightarrow> hasWorkspace L w"
    and "\<And>w n h v. w \<notin> own_ids \<Longrightarrow> map_of (nodeKeysOf L w) (w, n) = Some h \<Longrightarrow> lineage_of L w n = Some v
        \<Longrightarrow> rooted P S accepted_chains made w v (heldKey h)"
    and "\<And>w n p v. w \<notin> own_ids \<Longrightarrow> map_of (lgPending L) (w, n) = Some p \<Longrightarrow> pnRootedAt p = Some v
        \<Longrightarrow> rooted P S accepted_chains made w v (pnFresh p)"
  shows "keys_inv P S own_ids accepted_chains made L"
  unfolding keys_inv_def using assms by blast

text \<open>A change that leaves the keys as they were, or drops some, keeps the rule.\<close>

definition same_keys :: "ledger \<Rightarrow> ledger \<Rightarrow> bool" where
  "same_keys L M \<longleftrightarrow> lgWorkspaceKeys M = lgWorkspaceKeys L \<and> lgOwnNodeKeys M = lgOwnNodeKeys L
     \<and> lgGuestNodeKeys M = lgGuestNodeKeys L \<and> lgLineage M = lgLineage L \<and> lgPending M = lgPending L"

lemma keys_inv_same: "same_keys L M \<Longrightarrow> keys_inv P S own_ids accepted_chains made M \<longleftrightarrow> keys_inv P S own_ids accepted_chains made L"
  by (simp add: keys_inv_def same_keys_def workspaceKey_def hasWorkspace_def nodeKeysOf_def lineage_of_def)

lemma keys_inv_new: "keys_inv P S own_ids accepted_chains made new_ledger"
  by (simp add: keys_inv_def new_ledger_def workspaceKey_def nodeKeysOf_def)

lemma keys_inv_clear: "keys_inv P S own_ids accepted_chains made (clear_keys L)"
  by (simp add: keys_inv_def clear_keys_def workspaceKey_def nodeKeysOf_def)

lemma keys_inv_drop:
  assumes "keys_inv P S own_ids accepted_chains made L"
  shows "keys_inv P S own_ids accepted_chains made (dropWorkspace w L)"
proof (rule keys_invI)
  have ws: "map_of (lgWorkspaceKeys (dropWorkspace w L)) u = (if u = w then None else map_of (lgWorkspaceKeys L) u)" for u
    by (simp add: dropWorkspace_def Let_def delete_conv')
  then have has: "hasWorkspace (dropWorkspace w L) u \<longleftrightarrow> u \<noteq> w \<and> hasWorkspace L u" for u
    by (simp add: hasWorkspace_map)
  have pool: "map_of (nodeKeysOf (dropWorkspace w L) u) (u, n) = (if u = w then None else map_of (nodeKeysOf L u) (u, n))" for u n
    by (simp add: nodeKeysOf_def has) (simp add: dropWorkspace_def Let_def)
  show "listed_key P accepted_chains u v key" if "u \<notin> own_ids" "workspaceKey (dropWorkspace w L) u v = Some key" for u v key
    using that keys_invD(1) [OF assms, of u v key] by (simp add: workspaceKey_def ws split: if_splits)
  show "hasWorkspace (dropWorkspace w L) u" if "map_of (lgOwnNodeKeys (dropWorkspace w L)) (u, n) = Some h" for u n h
    using that keys_invD(2) [OF assms, of u n h] unfolding has by (simp add: dropWorkspace_def Let_def split: if_splits)
  show "rooted P S accepted_chains made u v (heldKey h)"
    if "u \<notin> own_ids" "map_of (nodeKeysOf (dropWorkspace w L) u) (u, n) = Some h" "lineage_of (dropWorkspace w L) u n = Some v" for u n h v
    using that keys_invD(3) [OF assms, of u n h v] unfolding pool
    by (simp add: lineage_of_def dropWorkspace_def Let_def split: if_splits)
  show "rooted P S accepted_chains made u v (pnFresh p)"
    if "u \<notin> own_ids" "map_of (lgPending (dropWorkspace w L)) (u, n) = Some p" "pnRootedAt p = Some v" for u n p v
    using that keys_invD(4) [OF assms, of u n p v] by (simp add: dropWorkspace_def Let_def split: if_splits)
qed

lemma keys_inv_hold:
  assumes "keys_inv P S own_ids accepted_chains made L" "w \<notin> own_ids \<Longrightarrow> listed_key P accepted_chains w v key"
  shows "keys_inv P S own_ids accepted_chains made (holdWorkspaceKey w v key L)"
proof (rule keys_invI)
  let ?M = "holdWorkspaceKey w v key L"
  have wk: "workspaceKey ?M u i = (if u = w \<and> i = v then Some key else workspaceKey L u i)" for u i
    by (auto simp: workspaceKey_def holdWorkspaceKey_def Let_def map_of_alist_update split: option.splits)
  have has: "hasWorkspace ?M u \<longleftrightarrow> u = w \<or> hasWorkspace L u" for u
    by (simp add: hasWorkspace_map holdWorkspaceKey_def Let_def map_of_alist_update)
  have rest: "lgOwnNodeKeys ?M = lgOwnNodeKeys L" "lgGuestNodeKeys ?M = lgGuestNodeKeys L" "lgPending ?M = lgPending L"
    "lineage_of ?M = lineage_of L"
    by (auto simp: holdWorkspaceKey_def Let_def lineage_of_def fun_eq_iff)
  show "listed_key P accepted_chains u i k" if "u \<notin> own_ids" "workspaceKey ?M u i = Some k" for u i k
    using that assms(2) keys_invD(1) [OF assms(1), of u i k] by (simp add: wk split: if_splits)
  show "hasWorkspace ?M u" if "map_of (lgOwnNodeKeys ?M) (u, n) = Some h" for u n h
    using that keys_invD(2) [OF assms(1), of u n h] by (simp add: has rest)
  show "rooted P S accepted_chains made u i (heldKey h)"
    if "u \<notin> own_ids" "map_of (nodeKeysOf ?M u) (u, n) = Some h" "lineage_of ?M u n = Some i" for u n h i
  proof -
    have "map_of (nodeKeysOf L u) (u, n) = Some h"
      using that(2) keys_invD(2) [OF assms(1), of u n h] by (auto simp: nodeKeysOf_def has rest split: if_splits)
    with that keys_invD(3) [OF assms(1), of u n h i] show ?thesis by (simp add: rest)
  qed
  show "rooted P S accepted_chains made u i (pnFresh p)"
    if "u \<notin> own_ids" "map_of (lgPending ?M) (u, n) = Some p" "pnRootedAt p = Some i" for u n p i
    using that keys_invD(4) [OF assms(1), of u n p i] by (simp add: rest)
qed

lemma remembered:
  "workspaceKey (rememberNodeKey w n key epoch r L) = workspaceKey L"
  "hasWorkspace (rememberNodeKey w n key epoch r L) = hasWorkspace L"
  "lgPending (rememberNodeKey w n key epoch r L) = lgPending L"
  "lineage_of (rememberNodeKey w n key epoch r L) u m = (if (u, m) = (w, n) then r else lineage_of L u m)"
  "map_of (nodeKeysOf (rememberNodeKey w n key epoch r L) u) (u, m)
     = (if (u, m) = (w, n) then Some \<lparr> heldKey = key, heldEpoch = epoch, heldOwn = False \<rparr> else map_of (nodeKeysOf L u) (u, m))"
  "map_of (lgOwnNodeKeys (rememberNodeKey w n key epoch r L)) (u, m) \<noteq> None
     \<Longrightarrow> (u = w \<and> hasWorkspace L w) \<or> map_of (lgOwnNodeKeys L) (u, m) \<noteq> None"
  by (auto simp: rememberNodeKey_def with_node_keys_def workspaceKey_def hasWorkspace_def nodeKeysOf_def lineage_of_def
      map_of_alist_update fun_eq_iff split: if_splits)

lemma keys_inv_remember:
  assumes "keys_inv P S own_ids accepted_chains made L"
    "\<And>v. w \<notin> own_ids \<Longrightarrow> r = Some v \<Longrightarrow> rooted P S accepted_chains made w v key"
  shows "keys_inv P S own_ids accepted_chains made (rememberNodeKey w n key epoch r L)"
proof (rule keys_invI)
  let ?M = "rememberNodeKey w n key epoch r L"
  show "hasWorkspace ?M u" if "map_of (lgOwnNodeKeys ?M) (u, m) = Some h" for u m h
    using that remembered(6) [of w n key epoch r L u m] keys_invD(2) [OF assms(1), of u m] by (auto simp: remembered(2))
  show "rooted P S accepted_chains made u v (heldKey h)"
    if "u \<notin> own_ids" "map_of (nodeKeysOf ?M u) (u, m) = Some h" "lineage_of ?M u m = Some v" for u m h v
    using that assms(2) [of v] keys_invD(3) [OF assms(1), of u m h v] by (auto simp: remembered split: if_splits)
qed (use keys_invD [OF assms(1)] in \<open>auto simp: remembered(1-3)\<close>)

lemma same_keys_simps:
  "same_keys L (rememberPrevNodeKey w n key epoch is_own L)"
  "same_keys L (L\<lparr> lgRootOpenedUnder := f1 \<rparr>)"
  by (auto simp: same_keys_def rememberPrevNodeKey_def Let_def)

lemma keys_inv_root_opened: "keys_inv P S own_ids accepted_chains made (L\<lparr> lgRootOpenedUnder := m \<rparr>) \<longleftrightarrow> keys_inv P S own_ids accepted_chains made L"
  by (rule keys_inv_same) (simp add: same_keys_def)

lemma keys_inv_prev: "keys_inv P S own_ids accepted_chains made (rememberPrevNodeKey w n key epoch is_own L) \<longleftrightarrow> keys_inv P S own_ids accepted_chains made L"
  by (rule keys_inv_same) (simp add: same_keys_def rememberPrevNodeKey_def Let_def)

lemma keys_inv_forget:
  assumes "keys_inv P S own_ids accepted_chains made L"
  shows "keys_inv P S own_ids accepted_chains made (forgetNodeKey w n L)"
proof (rule keys_invI)
  let ?M = "forgetNodeKey w n L"
  have has: "hasWorkspace ?M = hasWorkspace L" "workspaceKey ?M = workspaceKey L" "lgPending ?M = lgPending L" "lineage_of ?M = lineage_of L"
    by (auto simp: forgetNodeKey_def with_node_keys_def hasWorkspace_def workspaceKey_def lineage_of_def fun_eq_iff)
  have pool: "map_of (nodeKeysOf ?M u) (u, m) = Some h \<Longrightarrow> map_of (nodeKeysOf L u) (u, m) = Some h"
    "map_of (lgOwnNodeKeys ?M) (u, m) = Some h \<Longrightarrow> map_of (lgOwnNodeKeys L) (u, m) = Some h" for u m h
    by (auto simp: forgetNodeKey_def with_node_keys_def nodeKeysOf_def hasWorkspace_def delete_conv' split: if_splits)
  show "hasWorkspace ?M u" if "map_of (lgOwnNodeKeys ?M) (u, m) = Some h" for u m h
    using keys_invD(2) [OF assms pool(2) [OF that]] by (simp add: has)
  show "rooted P S accepted_chains made u v (heldKey h)"
    if "u \<notin> own_ids" "map_of (nodeKeysOf ?M u) (u, m) = Some h" "lineage_of ?M u m = Some v" for u m h v
    using keys_invD(3) [OF assms that(1) pool(1) [OF that(2)]] that(3) by (simp add: has)
  show "listed_key P accepted_chains u v key" if "u \<notin> own_ids" "workspaceKey ?M u v = Some key" for u v key
    using that keys_invD(1) [OF assms, of u v key] by (simp add: has)
  show "rooted P S accepted_chains made u v (pnFresh p)"
    if "u \<notin> own_ids" "map_of (lgPending ?M) (u, m) = Some p" "pnRootedAt p = Some v" for u m p v
    using that keys_invD(4) [OF assms, of u m p v] by (simp add: has)
qed

lemma keys_inv_pending:
  assumes "keys_inv P S own_ids accepted_chains made L" "\<And>at p. map_of m at = Some p \<Longrightarrow> map_of (lgPending L) at = Some p
     \<or> (\<forall>v. fst at \<notin> own_ids \<longrightarrow> pnRootedAt p = Some v \<longrightarrow> rooted P S accepted_chains made (fst at) v (pnFresh p))"
  shows "keys_inv P S own_ids accepted_chains made (L\<lparr> lgPending := m \<rparr>)"
proof (rule keys_invI)
  show "rooted P S accepted_chains made u v (pnFresh p)"
    if "u \<notin> own_ids" "map_of (lgPending (L\<lparr> lgPending := m \<rparr>)) (u, n) = Some p" "pnRootedAt p = Some v" for u n p v
    using that assms(2) [of "(u, n)" p] keys_invD(4) [OF assms(1), of u n p v] by auto
next
  have same: "workspaceKey (L\<lparr> lgPending := m \<rparr>) = workspaceKey L" "hasWorkspace (L\<lparr> lgPending := m \<rparr>) = hasWorkspace L"
    "nodeKeysOf (L\<lparr> lgPending := m \<rparr>) = nodeKeysOf L" "lineage_of (L\<lparr> lgPending := m \<rparr>) = lineage_of L"
    by (auto simp: workspaceKey_def hasWorkspace_def nodeKeysOf_def lineage_of_def fun_eq_iff)
  show "hasWorkspace (L\<lparr> lgPending := m \<rparr>) u" if "map_of (lgOwnNodeKeys (L\<lparr> lgPending := m \<rparr>)) (u, n) = Some h" for u n h
    using that keys_invD(2) [OF assms(1), of u n h] by (simp add: same)
  show "rooted P S accepted_chains made u v (heldKey h)"
    if "u \<notin> own_ids" "map_of (nodeKeysOf (L\<lparr> lgPending := m \<rparr>) u) (u, n) = Some h" "lineage_of (L\<lparr> lgPending := m \<rparr>) u n = Some v" for u n h v
    using that keys_invD(3) [OF assms(1), of u n h v] by (simp add: same)
  show "listed_key P accepted_chains u v key" if "u \<notin> own_ids" "workspaceKey (L\<lparr> lgPending := m \<rparr>) u v = Some key" for u v key
    using that keys_invD(1) [OF assms(1), of u v key] by (simp add: same)
qed

section \<open>Rules every operation keeps\<close>

text \<open>
  A rule of the ledger, with the keys it allows to be held rooted where they say. The provider shows that the
  few changes the operations are made of keep it, and that what they hold is allowed: a key opened under a
  parent's, a key made here, a key held or pending already. Every operation then keeps it, whatever else that
  keeps it happens while the operation awaits.
\<close>

text \<open>What a walk read to open a node's key is still what it would read: the node is held as it was, or not at
  all, and its parent's key at the epoch of its envelope is the same.\<close>

definition undisturbed :: "string \<Rightarrow> rotating_node_key \<Rightarrow> ledger \<Rightarrow> ledger \<Rightarrow> bool" where
  "undisturbed w node L M \<longleftrightarrow> nodeKey M w (plId (rnPlace node)) = nodeKey L w (plId (rnPlace node))
     \<and> parentKeyAndRoot M w (plParentId (rnPlace node)) (rnWrappedParentKeyEpoch node)
       = parentKeyAndRoot L w (plParentId (rnPlace node)) (rnWrappedParentKeyEpoch node)"

locale ledger_rule =
  fixes P :: primitives
    and S :: seal_primitives
    and made :: "bytes set"
    and inv :: "ledger \<Rightarrow> bool"
    and allowed :: "string \<Rightarrow> int option \<Rightarrow> bytes \<Rightarrow> bool"
  assumes remember: "inv L \<Longrightarrow> allowed w r key \<Longrightarrow> inv (rememberNodeKey w n key epoch r L)"
    and opened_key: "inv L \<Longrightarrow> parentKeyAndRoot L w parent epoch = Inr (parentKey, r) \<Longrightarrow> nkWorkspaceId ctx = w
      \<Longrightarrow> openNodeKey S envelope parentKey ctx = Inr key \<Longrightarrow> allowed w r key"
    and made_key: "inv L \<Longrightarrow> parentKeyAndRoot L w parent epoch = Inr (parentKey, r) \<Longrightarrow> key \<in> made \<Longrightarrow> allowed w r key"
    and held: "inv L \<Longrightarrow> nodeKey L w n = Some h \<Longrightarrow> allowed w (lineage_of L w n) (heldKey h)"
    and awaiting: "inv L \<Longrightarrow> map_of (lgPending L) (w, n) = Some p \<Longrightarrow> allowed w (pnRootedAt p) (pnFresh p)"
    and prev: "inv L \<Longrightarrow> inv (rememberPrevNodeKey w n key epoch is_own L)"
    and forget: "inv L \<Longrightarrow> inv (forgetNodeKey w n L)"
    and root_opened: "inv L \<Longrightarrow> inv (L\<lparr> lgRootOpenedUnder := m \<rparr>)"
    and set_pending: "inv L \<Longrightarrow> allowed w (pnRootedAt p) (pnFresh p) \<Longrightarrow> inv (setPending w n p L)"
    and less_pending: "inv L \<Longrightarrow> (\<And>at p. map_of m' at = Some p \<Longrightarrow> map_of (lgPending L) at = Some p) \<Longrightarrow> inv (L\<lparr> lgPending := m' \<rparr>)"
    and root_seen: "inv L \<Longrightarrow> inv M \<Longrightarrow> map_of (lgChains L) g = Some chain
      \<Longrightarrow> (ok \<Longrightarrow> \<exists>b. checkAreaRoot P (Accepted_Rosters chain) w epoch key = Inr b) \<Longrightarrow> inv (root_checked g w n epoch ok M)"
begin

lemma root_of: "inv L \<Longrightarrow> rootOf L w parent epoch = Inr r \<Longrightarrow> key \<in> made \<Longrightarrow> allowed w r key"
  by (auto simp: rootOf_def returns intro: made_key)

lemma remember_made:
  "inv L \<Longrightarrow> rootOf L w parent epoch = Inr r \<Longrightarrow> key \<in> made \<Longrightarrow> inv (rememberNodeKey w n key keyEpoch r L)"
  by (blast intro: remember root_of)

lemma rootSeen_keeps:
  assumes "inv L" "\<And>M. inv M \<Longrightarrow> inv (during M)"
  shows "inv (snd (rootSeen P during w n epoch key L))"
  using assms
  by (auto simp: rootSeen_def Let_def split: option.splits sum.splits intro: root_seen [of L])

lemma open_listed_keeps:
  assumes "inv L" "\<And>M. inv M \<Longrightarrow> inv (during M)"
  shows "inv (snd (open_listed_key S during w node areaRoot L))"
proof -
  have a: "allowed w r key"
    if "parentKeyAndRoot L w (snParentId node) (snParentKeyEpoch node) = Inr (parentKey, r)"
      "openNodeKey S envelope parentKey (served_context w node) = Inr key" for parentKey r envelope key
    using opened_key [OF assms(1) that(1) _ that(2)] by (simp add: served_context_def)
  show ?thesis using assms
    by (auto simp: open_listed_key_def Let_def bindE_def split: sum.splits prod.splits intro!: remember root_opened a)
qed

lemma keep_previous_keeps: "inv L \<Longrightarrow> inv (keep_previous_key w node areaRoot hp previous epoch L)"
  by (auto simp: keep_previous_key_def Let_def split: option.splits intro: prev)

lemma take_previous_keeps:
  assumes "inv L" "\<And>M. inv M \<Longrightarrow> inv (during M)"
  shows "inv (take_previous_key S during w node areaRoot hp L)"
proof -
  have "inv (snd (open_previous_key S during w node areaRoot previous L))" for previous
    using assms by (auto simp: open_previous_key_def Let_def split: sum.splits prod.splits)
  then have "inv L1" if "open_previous_key S during w node areaRoot previous L = (k, L1)" for previous k L1
    using that by (metis snd_conv)
  then show ?thesis using assms(1)
    by (auto simp: take_previous_key_def split: option.splits prod.splits intro!: keep_previous_keeps)
qed

lemma openListedNode_keeps:
  assumes "inv L" "\<And>i M. inv M \<Longrightarrow> inv (during i M)"
  shows "inv (snd (openListedNode P S during w node L))"
proof -
  let ?root = "snParentId node = w \<and> isArea L w"
  obtain r L1 where o: "(case listed_from_cache L w node ?root of Some key \<Rightarrow> (Inr key, L)
      | None \<Rightarrow> open_listed_key S (during 0) w node ?root L) = (r, L1)" by fastforce
  have 1: "inv L1"
    using o assms open_listed_keeps [OF assms(1), of "during 0" w node ?root] by (auto split: option.splits)
  have 2: "inv (during 2 M)" if "rootSeen P (during 1) u (snId node) (snParentKeyEpoch node) key L1 = (ok, M)" for key ok M u
    using rootSeen_keeps [OF 1, of "during 1" u "snId node" "snParentKeyEpoch node" key] that assms(2) by simp
  have 3: "inv (drop_root_key u n M)" if "inv M" for u n M
    using root_opened [OF forget [OF that]] by (simp add: drop_root_key_def)
  have 4: "inv (take_previous_key S (during 3) u node a hp M)" if "inv M" for u a hp M
    using take_previous_keeps that assms(2) by blast
  show ?thesis
    unfolding openListedNode_def Let_def o using assms(1) 1
    by (auto simp del: One_nat_def split: sum.splits prod.splits intro!: 3 4 intro: 2)
qed

lemma newNodeKey_keeps:
  assumes "inv L" "\<And>M. inv M \<Longrightarrow> inv (during M)" "key \<in> made"
  shows "inv (snd (newNodeKey S during key nonce w node L))"
  using assms by (auto simp: newNodeKey_def Let_def bindE_def split: sum.splits prod.splits intro: remember_made)

lemma rewrap_keeps:
  assumes "inv L" "\<And>M. inv M \<Longrightarrow> inv (during M)"
    "\<And>parentKey r. nodeKey L w (plId (rnPlace node)) = None
      \<Longrightarrow> parentKeyAndRoot L w (plParentId (rnPlace node)) (rnWrappedParentKeyEpoch node) = Inr (parentKey, r) \<Longrightarrow> allowed w r old"
  shows "inv (snd (rewrapAtTarget S during nonce w node old L))"
proof -
  have "allowed w r old" if "rewrap_root L w node = Inr r" "nodeKey L w (plId (rnPlace node)) = None" for r
    using that assms(3) by (auto simp: rewrap_root_def Let_def rootOf_def returns)
  then show ?thesis using assms(1,2)
    by (auto simp: rewrapAtTarget_def Let_def bindE_def split: sum.splits prod.splits if_splits intro!: remember)
qed

lemma rotateKey_keeps:
  assumes "inv L" "\<And>i M. inv M \<Longrightarrow> inv (during i M)" "fresh \<in> made"
    "plKeyEpoch (rnPlace node) \<ge> targetEpoch \<Longrightarrow> undisturbed w node L (during 0 L)"
  shows "inv (snd (rotateKey S during fresh nonce w node targetEpoch rekey L))"
proof -
  let ?L1 = "during 0 L"
  have 1: "inv ?L1" by (rule assms(2) [OF assms(1)])
  have 2: "inv (during 1 ?L1)" by (rule assms(2) [OF 1])
  have rewrap: "inv (snd (rewrapAtTarget S (during 1) nonce w node old ?L1))"
    if "targetEpoch \<le> plKeyEpoch (rnPlace node)" "rotationOldKey S w node L = Inr old" for old
  proof (rule rewrap_keeps [OF 1 assms(2)])
    fix parentKey r
    assume n: "nodeKey ?L1 w (plId (rnPlace node)) = None"
      and p: "parentKeyAndRoot ?L1 w (plParentId (rnPlace node)) (rnWrappedParentKeyEpoch node) = Inr (parentKey, r)"
    with assms(4) [OF that(1)] have n: "nodeKey L w (plId (rnPlace node)) = None"
      and p: "parentKeyAndRoot L w (plParentId (rnPlace node)) (rnWrappedParentKeyEpoch node) = Inr (parentKey, r)"
      by (simp_all add: undisturbed_def)
    from that(2) n p obtain envelope where "openNodeKey S envelope parentKey (wrapped_context w node) = Inr old"
      by (auto simp: rotationOldKey_def currentKeyOf_def parentKeyFor_def returns split: if_splits)
    with p show "allowed w r old"
      by (intro opened_key [OF assms(1)]) (simp_all add: wrapped_context_def placed_context_def)
  qed
  have fresh: "allowed w r fresh" if "freshKeyParent ?L1 w (rnPlace node) = Inr (parentKey, r)" for parentKey r
    using that made_key [OF 1 _ assms(3)] by (auto simp: freshKeyParent_def returns)
  show ?thesis using assms(1) 1 2 rewrap
    by (auto simp: rotateKey_def Let_def simp del: One_nat_def split: sum.splits prod.splits intro!: set_pending fresh)
qed

lemma commit_one_keeps: "inv (snd st) \<Longrightarrow> inv (snd (commit_one w n st))"
proof (cases st)
  case (Pair taken L)
  assume "inv (snd st)"
  with Pair have i: "inv L" by simp
  have "inv (L\<lparr> lgPending := AList.delete (w, n) (lgPending L) \<rparr>)"
    by (rule less_pending [OF i]) (simp add: delete_conv' split: if_splits)
  then show ?thesis using Pair i awaiting [OF i, of w n]
    by (auto simp: commit_one_def split: option.splits intro!: remember prev)
qed

lemma drop_one_keeps: "inv (snd st) \<Longrightarrow> inv (snd (drop_one w n st))"
  by (cases st) (auto simp: drop_one_def delete_conv' split: if_splits intro!: less_pending)

lemma fold_keeps:
  assumes "\<And>n st. inv (snd st) \<Longrightarrow> inv (snd (f n st))"
  shows "inv (snd st) \<Longrightarrow> inv (snd (fold f ns st))"
proof (induction ns arbitrary: st)
  case (Cons n ns)
  then show ?case using assms [of st n] by simp
qed simp

lemma batch_keeps:
  assumes "inv L"
  shows "inv (snd (commitPending w ns L))" "inv (snd (dropPending w ns L))" "inv (snd (dropAllPending w L))"
  using assms fold_keeps [of "commit_one w", OF commit_one_keeps, of "(0, L)"]
    fold_keeps [of "drop_one w", OF drop_one_keeps, of "(0, L)"]
  by (auto simp: commitPending_def dropPending_def dropAllPending_def split: if_splits intro!: less_pending)

end

section \<open>The keys\<close>

lemma parent_rooted:
  assumes "keys_inv P S own_ids accepted_chains made L" "parentKeyAndRoot L w parent epoch = Inr (key, Some v)" "w \<notin> own_ids"
  shows "rooted P S accepted_chains made w v key"
proof (cases "parent = w")
  case True
  then have "workspaceKey L w v = Some key"
    using assms(2) by (auto simp: parentKeyAndRoot_def workspaceKey_def split: option.splits)
  then show ?thesis by (intro rooted.at_the_workspace keys_invD(1) [OF assms(1,3)])
next
  case False
  then consider p where "map_of (lgPending L) (w, parent) = Some p" "pnRootedAt p = Some v" "key = pnFresh p"
    | h where "nodeKey L w parent = Some h" "lineage_of L w parent = Some v" "key = heldKey h"
    using assms(2) by (auto simp: parentKeyAndRoot_def Let_def split: option.splits if_splits)
  then show ?thesis
  proof cases
    case 1
    then show ?thesis using keys_invD(4) [OF assms(1,3)] by simp
  next
    case 2
    then show ?thesis using keys_invD(3) [OF assms(1,3)] by (auto simp: nodeKey_def split: if_splits)
  qed
qed

text \<open>A key may be held rooted at a version of an area only where it is.\<close>

definition allowed_key :: "primitives \<Rightarrow> seal_primitives \<Rightarrow> string set \<Rightarrow> chain_body set \<Rightarrow> bytes set
    \<Rightarrow> string \<Rightarrow> int option \<Rightarrow> bytes \<Rightarrow> bool" where
  "allowed_key P S own_ids accepted_chains made w r key \<longleftrightarrow>
     w \<in> own_ids \<or> (case r of None \<Rightarrow> True | Some v \<Rightarrow> rooted P S accepted_chains made w v key)"

interpretation keys: ledger_rule P S made "keys_inv P S own_ids accepted_chains made" "allowed_key P S own_ids accepted_chains made"
  for P S own_ids accepted_chains made
proof unfold_locales
  show "keys_inv P S own_ids accepted_chains made (rememberNodeKey w n key epoch r L)"
    if "keys_inv P S own_ids accepted_chains made L" "allowed_key P S own_ids accepted_chains made w r key" for L w r key n epoch
    using that by (intro keys_inv_remember) (auto simp: allowed_key_def)
  show "allowed_key P S own_ids accepted_chains made w r key"
    if "keys_inv P S own_ids accepted_chains made L" "parentKeyAndRoot L w parent epoch = Inr (parentKey, r)" "nkWorkspaceId ctx = w"
      "openNodeKey S envelope parentKey ctx = Inr key" for L w parent epoch parentKey r ctx envelope key
    using that parent_rooted [OF that(1), of w parent epoch parentKey]
    by (auto simp: allowed_key_def split: option.splits intro: rooted.opened_under)
  show "allowed_key P S own_ids accepted_chains made w r key"
    if "keys_inv P S own_ids accepted_chains made L" "parentKeyAndRoot L w parent epoch = Inr (parentKey, r)" "key \<in> made"
    for L w parent epoch parentKey r key
    using that parent_rooted [OF that(1), of w parent epoch parentKey]
    by (auto simp: allowed_key_def split: option.splits intro: rooted.made_under)
  show "allowed_key P S own_ids accepted_chains made w (lineage_of L w n) (heldKey h)"
    if "keys_inv P S own_ids accepted_chains made L" "nodeKey L w n = Some h" for L w n h
    using that keys_invD(3) [OF that(1), of w n h] by (auto simp: allowed_key_def nodeKey_def split: option.splits if_splits)
  show "allowed_key P S own_ids accepted_chains made w (pnRootedAt p) (pnFresh p)"
    if "keys_inv P S own_ids accepted_chains made L" "map_of (lgPending L) (w, n) = Some p" for L w n p
    using keys_invD(4) [OF that(1) _ that(2)] by (auto simp: allowed_key_def split: option.splits)
  show "keys_inv P S own_ids accepted_chains made (setPending w n p L)"
    if "keys_inv P S own_ids accepted_chains made L" "allowed_key P S own_ids accepted_chains made w (pnRootedAt p) (pnFresh p)" for L w n p
    unfolding setPending_def using that
    by (intro keys_inv_pending) (auto simp: map_of_alist_update allowed_key_def split: if_splits)
  show "keys_inv P S own_ids accepted_chains made (L\<lparr> lgPending := m \<rparr>)"
    if "keys_inv P S own_ids accepted_chains made L" "\<And>at p. map_of m at = Some p \<Longrightarrow> map_of (lgPending L) at = Some p" for L m
    using that by (intro keys_inv_pending) auto
  show "keys_inv P S own_ids accepted_chains made (root_checked g w n epoch ok M)"
    if "keys_inv P S own_ids accepted_chains made M" for g w n epoch ok M
    using that by (subst keys_inv_same [of M]) (auto simp: root_checked_def Let_def same_keys_def split: option.splits)
qed (simp_all add: keys_inv_prev keys_inv_forget keys_inv_root_opened)

lemma openPersonal_keys:
  assumes "keys_inv P S own_ids accepted_chains made L" "openPersonalWorkspace w v key L = Inr M" "w \<in> own_ids"
  shows "keys_inv P S own_ids accepted_chains made M"
proof -
  have M: "M = holdWorkspaceKey w v key (L\<lparr> lgPersonal := List.insert w (lgPersonal L) \<rparr>)"
    using assms(2) by (simp add: openPersonalWorkspace_def split: if_splits)
  have "keys_inv P S own_ids accepted_chains made (L\<lparr> lgPersonal := List.insert w (lgPersonal L) \<rparr>)"
    using assms(1) by (subst keys_inv_same [of L]) (simp_all add: same_keys_def)
  then show ?thesis unfolding M by (rule keys_inv_hold) (simp add: assms(3))
qed

lemma open_area_checks_Inr:
  assumes "open_area_checks P L g w idSeed v key = Inr latest"
  obtains chain n committed where "map_of (lgChains L) g = Some chain" "w \<notin> set (lgPersonal L)"
    "checkId P ''workspace'' g idSeed w = Inr w" "areaWriteVersion (Accepted_Rosters chain) w = Inr (Some n)" "latest = int n"
    "1 \<le> v" "areaKeyCommitment P key = Inr committed" "at_index (get_or [] (chAreaKeys chain) w) (v - 1) = Some committed"
proof -
  from assms obtain chain where c: "map_of (lgChains L) g = Some chain" and w: "w \<notin> set (lgPersonal L)"
    by (auto simp: open_area_checks_def returns split: option.splits)
  from assms c w obtain u where u: "checkId P ''workspace'' g idSeed w = Inr u"
    by (auto simp: open_area_checks_def returns split: sum.splits)
  then have u': "checkId P ''workspace'' g idSeed w = Inr w" by (auto simp: checkId_def split: sum.splits if_splits)
  from assms c w u obtain n where n: "areaWriteVersion (Accepted_Rosters chain) w = Inr (Some n)"
    by (auto simp: open_area_checks_def returns split: option.splits)
  from assms c w u n obtain committed where "1 \<le> v" "areaKeyCommitment P key = Inr committed"
    "at_index (get_or [] (chAreaKeys chain) w) (v - 1) = Some committed" "latest = int n"
    by (auto simp: open_area_checks_def returns Let_def)
  with that [OF c w u' n] show thesis by blast
qed

lemma openArea_keys:
  assumes "keys_inv P S own_ids accepted_chains made L" "keys_inv P S own_ids accepted_chains made (during L)"
    "\<And>chain. map_of (lgChains L) g = Some chain \<Longrightarrow> chain \<in> accepted_chains \<and> chGroupId chain = g"
  shows "keys_inv P S own_ids accepted_chains made (snd (openArea P during g w idSeed v key served L))"
proof (cases "open_area_checks P L g w idSeed v key")
  case (Inl e)
  then show ?thesis using assms(1,2) by (simp add: openArea_def)
next
  case (Inr latest)
  then have l: "listed_key P accepted_chains w v key"
    using assms(3) unfolding listed_key_def by (elim open_area_checks_Inr) blast
  have o: "keys_inv P S own_ids accepted_chains made (M\<lparr> lgOpened := x \<rparr>) \<longleftrightarrow> keys_inv P S own_ids accepted_chains made M"
    "keys_inv P S own_ids accepted_chains made (M\<lparr> lgBlocked := y \<rparr>) \<longleftrightarrow> keys_inv P S own_ids accepted_chains made M" for M x y
    by (rule keys_inv_same, simp add: same_keys_def)+
  show ?thesis using Inr assms(2) l
    by (simp add: openArea_def Let_def o keys_inv_hold split: option.splits)
qed

section \<open>The areas\<close>

text \<open>What a ledger knows of a family's areas comes from chains of the family accepted here.\<close>

definition areas_inv :: "primitives \<Rightarrow> chain_body set \<Rightarrow> ledger \<Rightarrow> bool" where
  "areas_inv P accepted_chains L \<longleftrightarrow>
     (\<forall>g chain. map_of (lgChains L) g = Some chain \<longrightarrow> chGroupId chain = g \<and> chain \<in> accepted_chains
        \<and> (\<exists>flr. map_of (lgFloors L) g = Some flr \<and> rosterVersion (chRoster flr) = rosterVersion (chRoster chain)
             \<and> chGroupKeyVersion flr = chGroupKeyVersion chain))
   \<and> (\<forall>g w v. map_of (lgAreaWrite L) (g, w) = Some v \<longrightarrow>
        (\<exists>chain\<in>accepted_chains. \<exists>n. chGroupId chain = g \<and> areaWriteVersion (Accepted_Rosters chain) w = Inr (Some n) \<and> v = int n)
        \<and> (\<exists>chain. map_of (lgChains L) g = Some chain \<and> (has_key w (chAreaKeys chain) \<longrightarrow>
             (\<exists>n. areaWriteVersion (Accepted_Rosters chain) w = Inr (Some n) \<and> v = int n))))
   \<and> (\<forall>g w v. map_of (lgRootSeenAt L) (g, w) = Some v \<longrightarrow>
        (\<exists>chain\<in>accepted_chains. \<exists>key b. chGroupId chain = g \<and> checkAreaRoot P (Accepted_Rosters chain) w v key = Inr b))
   \<and> (\<forall>g opened_areas w. (g, opened_areas) \<in> set (lgOpened L) \<longrightarrow> has_key w opened_areas
        \<longrightarrow> (\<exists>idSeed. checkId P ''workspace'' g idSeed w = Inr w))"

lemma areas_invD:
  assumes "areas_inv P accepted_chains L"
  shows "map_of (lgChains L) g = Some chain \<Longrightarrow> chGroupId chain = g \<and> chain \<in> accepted_chains
        \<and> (\<exists>flr. map_of (lgFloors L) g = Some flr \<and> rosterVersion (chRoster flr) = rosterVersion (chRoster chain)
             \<and> chGroupKeyVersion flr = chGroupKeyVersion chain)"
    and "map_of (lgAreaWrite L) (g, w) = Some v \<Longrightarrow>
        (\<exists>chain\<in>accepted_chains. \<exists>n. chGroupId chain = g \<and> areaWriteVersion (Accepted_Rosters chain) w = Inr (Some n) \<and> v = int n)
        \<and> (\<exists>chain. map_of (lgChains L) g = Some chain \<and> (has_key w (chAreaKeys chain) \<longrightarrow>
             (\<exists>n. areaWriteVersion (Accepted_Rosters chain) w = Inr (Some n) \<and> v = int n)))"
    and "map_of (lgRootSeenAt L) (g, w) = Some v \<Longrightarrow>
        \<exists>chain\<in>accepted_chains. \<exists>key b. chGroupId chain = g \<and> checkAreaRoot P (Accepted_Rosters chain) w v key = Inr b"
    and "(g, opened_areas) \<in> set (lgOpened L) \<Longrightarrow> has_key w opened_areas
        \<Longrightarrow> \<exists>idSeed. checkId P ''workspace'' g idSeed w = Inr w"
  using assms unfolding areas_inv_def by blast+

lemma areas_invI:
  assumes "\<And>g chain. map_of (lgChains L) g = Some chain \<Longrightarrow> chGroupId chain = g \<and> chain \<in> accepted_chains
        \<and> (\<exists>flr. map_of (lgFloors L) g = Some flr \<and> rosterVersion (chRoster flr) = rosterVersion (chRoster chain)
             \<and> chGroupKeyVersion flr = chGroupKeyVersion chain)"
    and "\<And>g w v. map_of (lgAreaWrite L) (g, w) = Some v \<Longrightarrow>
        (\<exists>chain\<in>accepted_chains. \<exists>n. chGroupId chain = g \<and> areaWriteVersion (Accepted_Rosters chain) w = Inr (Some n) \<and> v = int n)
        \<and> (\<exists>chain. map_of (lgChains L) g = Some chain \<and> (has_key w (chAreaKeys chain) \<longrightarrow>
             (\<exists>n. areaWriteVersion (Accepted_Rosters chain) w = Inr (Some n) \<and> v = int n)))"
    and "\<And>g w v. map_of (lgRootSeenAt L) (g, w) = Some v \<Longrightarrow>
        \<exists>chain\<in>accepted_chains. \<exists>key b. chGroupId chain = g \<and> checkAreaRoot P (Accepted_Rosters chain) w v key = Inr b"
    and "\<And>g opened_areas w. (g, opened_areas) \<in> set (lgOpened L) \<Longrightarrow> has_key w opened_areas
        \<Longrightarrow> \<exists>idSeed. checkId P ''workspace'' g idSeed w = Inr w"
  shows "areas_inv P accepted_chains L"
  unfolding areas_inv_def using assms by simp

definition same_areas :: "ledger \<Rightarrow> ledger \<Rightarrow> bool" where
  "same_areas L M \<longleftrightarrow> lgChains M = lgChains L \<and> lgFloors M = lgFloors L \<and> lgAreaWrite M = lgAreaWrite L
     \<and> lgRootSeenAt M = lgRootSeenAt L \<and> lgOpened M = lgOpened L"

lemma alist_update_set: "p \<in> set (AList.update k v m) \<Longrightarrow> p = (k, v) \<or> p \<in> set m"
  by (induction m) (auto split: if_splits)

lemma alist_delete_set: "p \<in> set (AList.delete k m) \<Longrightarrow> p \<in> set m"
  by (auto simp: AList.delete_eq)

lemma areas_inv_same: "same_areas L M \<Longrightarrow> areas_inv P accepted_chains M \<longleftrightarrow> areas_inv P accepted_chains L"
  by (simp add: areas_inv_def same_areas_def)

lemma areas_inv_new: "areas_inv P accepted_chains new_ledger"
  by (simp add: areas_inv_def new_ledger_def)

lemma same_areas:
  "same_areas L (rememberNodeKey w n key epoch r L)" "same_areas L (rememberPrevNodeKey w n key epoch is_own L)"
  "same_areas L (forgetNodeKey w n L)" "same_areas L (L\<lparr> lgRootOpenedUnder := m \<rparr>)" "same_areas L (setPending w n p L)"
  "same_areas L (L\<lparr> lgPending := m' \<rparr>)" "same_areas L (holdWorkspaceKey w v key L)" "same_areas L (dropWorkspace w L)"
  "same_areas L (clear_keys L)" "same_areas L (owe g L)" "same_areas L (guard_kept g L)"
  by (simp_all add: same_areas_def rememberNodeKey_def with_node_keys_def rememberPrevNodeKey_def forgetNodeKey_def setPending_def
      holdWorkspaceKey_def dropWorkspace_def clear_keys_def owe_def guard_kept_def Let_def)

lemma areas_root_checked:
  assumes "areas_inv P accepted_chains L" "areas_inv P accepted_chains M" "map_of (lgChains L) g = Some chain"
    "ok \<Longrightarrow> \<exists>b. checkAreaRoot P (Accepted_Rosters chain) w epoch key = Inr b"
  shows "areas_inv P accepted_chains (root_checked g w n epoch ok M)"
proof -
  have c: "chGroupId chain = g" "chain \<in> accepted_chains" using assms(1,3) by (auto simp: areas_inv_def)
  have same: "lgChains (root_checked g w n epoch ok M) = lgChains M" "lgFloors (root_checked g w n epoch ok M) = lgFloors M"
    "lgAreaWrite (root_checked g w n epoch ok M) = lgAreaWrite M" "lgOpened (root_checked g w n epoch ok M) = lgOpened M"
    by (auto simp: root_checked_def Let_def split: option.splits)
  have "map_of (lgRootSeenAt (root_checked g w n epoch ok M)) at = Some v
      \<Longrightarrow> map_of (lgRootSeenAt M) at = Some v \<or> (at = (g, w) \<and> v = epoch \<and> ok)" for at v
    by (auto simp: root_checked_def Let_def delete_conv' map_of_alist_update split: option.splits if_splits)
  then have seen: "\<exists>chain\<in>accepted_chains. \<exists>key b. chGroupId chain = h \<and> checkAreaRoot P (Accepted_Rosters chain) u v key = Inr b"
    if "map_of (lgRootSeenAt (root_checked g w n epoch ok M)) (h, u) = Some v" for h u v
    using that areas_invD(3) [OF assms(2), of h u v] assms(4) c by blast
  show ?thesis
    by (rule areas_invI) (simp_all only: same seen areas_invD(1,2,4) [OF assms(2)])
qed

interpretation areas: ledger_rule P S made "areas_inv P accepted_chains" "\<lambda>_ _ _. True" for P S made accepted_chains
  by unfold_locales (simp_all add: areas_inv_same [OF same_areas(1)] areas_inv_same [OF same_areas(2)]
      areas_inv_same [OF same_areas(3)] areas_inv_same [OF same_areas(4)] areas_inv_same [OF same_areas(5)]
      areas_inv_same [OF same_areas(6)] areas_root_checked, blast intro: areas_root_checked)

section \<open>Commits\<close>

text \<open>The version a chain has an area written under.\<close>

definition written_at :: "chain_body \<Rightarrow> string \<Rightarrow> int option" where
  "written_at chain w = (case areaWriteVersion (Accepted_Rosters chain) w of Inr (Some v) \<Rightarrow> Some (int v) | _ \<Rightarrow> None)"

lemma written_at_Some: "written_at chain w = Some v \<longleftrightarrow> (\<exists>n. areaWriteVersion (Accepted_Rosters chain) w = Inr (Some n) \<and> v = int n)"
  by (auto simp: written_at_def split: sum.splits option.splits)

lemma commit_area_write:
  "map_of (lgAreaWrite (commit_area chain u L)) (g, w)
     = (if g = chGroupId chain \<and> w = u then written_at chain u else map_of (lgAreaWrite L) (g, w))"
  by (auto simp: commit_area_def written_at_def Let_def map_of_alist_update delete_conv' split: sum.splits option.splits)

lemma commit_area_seen:
  "map_of (lgRootSeenAt (commit_area chain u L)) (g, w) = Some v \<Longrightarrow> map_of (lgRootSeenAt L) (g, w) = Some v"
  "g \<noteq> chGroupId chain \<Longrightarrow> map_of (lgRootSeenAt (commit_area chain u L)) (g, w) = map_of (lgRootSeenAt L) (g, w)"
  by (auto simp: commit_area_def Let_def delete_conv' split: sum.splits option.splits if_splits)

text \<open>A commit of a family's chain changes nothing else of the ledger than the chains, the floors and what is
  written and seen of the family's areas.\<close>

definition same_rest :: "string \<Rightarrow> ledger \<Rightarrow> ledger \<Rightarrow> bool" where
  "same_rest g L M \<longleftrightarrow> M = L\<lparr> lgChains := lgChains M, lgFloors := lgFloors M, lgAreaWrite := lgAreaWrite M,
       lgRootSeenAt := lgRootSeenAt M \<rparr>
     \<and> (\<forall>h w. h \<noteq> g \<longrightarrow> map_of (lgAreaWrite M) (h, w) = map_of (lgAreaWrite L) (h, w)
          \<and> map_of (lgRootSeenAt M) (h, w) = map_of (lgRootSeenAt L) (h, w))
     \<and> (\<forall>h. h \<noteq> g \<longrightarrow> map_of (lgChains M) h = map_of (lgChains L) h \<and> map_of (lgFloors M) h = map_of (lgFloors L) h)"

lemma commit_area_rest:
  "same_rest (chGroupId chain) L (commit_area chain u L)"
  "lgChains (commit_area chain u L) = lgChains L" "lgFloors (commit_area chain u L) = lgFloors L"
  by (simp_all add: same_rest_def commit_area_write commit_area_seen(2))
    (simp_all add: commit_area_def Let_def split: sum.splits option.splits)

lemma same_rest_trans:
  assumes "same_rest g L M" "same_rest g M N"
  shows "same_rest g L N"
proof -
  define M' where "M' = M"
  have "M = L\<lparr> lgChains := lgChains M', lgFloors := lgFloors M', lgAreaWrite := lgAreaWrite M', lgRootSeenAt := lgRootSeenAt M' \<rparr>"
    "N = M\<lparr> lgChains := lgChains N, lgFloors := lgFloors N, lgAreaWrite := lgAreaWrite N, lgRootSeenAt := lgRootSeenAt N \<rparr>"
    using assms by (simp_all add: same_rest_def M'_def)
  then have "N = L\<lparr> lgChains := lgChains N, lgFloors := lgFloors N, lgAreaWrite := lgAreaWrite N, lgRootSeenAt := lgRootSeenAt N \<rparr>"
    by simp
  with assms show ?thesis unfolding same_rest_def by simp
qed

lemma same_rest_refl: "same_rest g L L" by (simp add: same_rest_def)

lemma commit_areas_write:
  "map_of (lgAreaWrite (fold (commit_area chain) us L)) (g, w)
     = (if g = chGroupId chain \<and> w \<in> set us then written_at chain w else map_of (lgAreaWrite L) (g, w))"
  by (induction us arbitrary: L) (auto simp: commit_area_write)

lemma commit_areas_seen:
  "map_of (lgRootSeenAt (fold (commit_area chain) us L)) (g, w) = Some v \<Longrightarrow> map_of (lgRootSeenAt L) (g, w) = Some v"
proof (induction us arbitrary: L)
  case (Cons u us)
  have "map_of (lgRootSeenAt (fold (commit_area chain) us (commit_area chain u L))) (g, w) = Some v"
    using Cons.prems by (simp only: fold_Cons comp_apply)
  then show ?case by (rule commit_area_seen(1) [OF Cons.IH])
qed (simp only: fold_Nil id_apply)

lemma commit_areas_rest:
  "same_rest (chGroupId chain) L (fold (commit_area chain) us L)
   \<and> lgChains (fold (commit_area chain) us L) = lgChains L \<and> lgFloors (fold (commit_area chain) us L) = lgFloors L"
proof (induction us arbitrary: L)
  case (Cons u us)
  from Cons [of "commit_area chain u L"] same_rest_trans [OF commit_area_rest(1) [of chain L u]]
  show ?case by (simp add: commit_area_rest)
qed (simp add: same_rest_refl)

lemma commit_chain_Inr:
  assumes "commit_chain chain L = Inr M"
  shows "checkCommit L chain = Inr ()"
    and "same_rest (chGroupId chain) L M"
    and "map_of (lgChains M) (chGroupId chain) = Some chain"
    and "map_of (lgFloors M) (chGroupId chain) = (if past_floor (map_of (lgFloors L) (chGroupId chain)) chain then Some chain
      else map_of (lgFloors L) (chGroupId chain))"
    and "map_of (lgAreaWrite M) (g, w) = (if g = chGroupId chain \<and> has_key w (chAreaKeys chain) then written_at chain w
      else map_of (lgAreaWrite L) (g, w))"
    and "map_of (lgRootSeenAt M) (g, w) = Some v \<Longrightarrow> map_of (lgRootSeenAt L) (g, w) = Some v"
proof -
  let ?g = "chGroupId chain"
  let ?L1 = "L\<lparr> lgChains := AList.update ?g chain (lgChains L),
      lgFloors := (if past_floor (map_of (lgFloors L) ?g) chain then AList.update ?g chain (lgFloors L) else lgFloors L) \<rparr>"
  from assms show "checkCommit L chain = Inr ()" by (auto simp: commit_chain_def returns)
  from assms have M: "M = fold (commit_area chain) (map fst (chAreaKeys chain)) ?L1"
    by (auto simp: commit_chain_def returns Let_def)
  note r = commit_areas_rest [of chain ?L1 "map fst (chAreaKeys chain)", folded M]
  have "same_rest ?g L ?L1" by (simp add: same_rest_def map_of_alist_update)
  then show "same_rest ?g L M" using r same_rest_trans by blast
  show "map_of (lgChains M) ?g = Some chain" "map_of (lgFloors M) ?g = (if past_floor (map_of (lgFloors L) ?g) chain then Some chain
      else map_of (lgFloors L) ?g)" using r by (simp_all add: map_of_alist_update)
  show "map_of (lgAreaWrite M) (g, w) = (if g = ?g \<and> has_key w (chAreaKeys chain) then written_at chain w
      else map_of (lgAreaWrite L) (g, w))" unfolding M by (simp add: commit_areas_write)
  show "map_of (lgRootSeenAt M) (g, w) = Some v \<Longrightarrow> map_of (lgRootSeenAt L) (g, w) = Some v"
    unfolding M by (drule commit_areas_seen) simp
qed

text \<open>A chain that passes the check reaches as far as the floor: past it, or exactly to it.\<close>

definition reaches :: "chain_body \<Rightarrow> chain_body \<Rightarrow> bool" where
  "reaches holding chain \<longleftrightarrow> rosterVersion (chRoster holding) < rosterVersion (chRoster chain)
     \<or> (rosterVersion (chRoster holding) = rosterVersion (chRoster chain) \<and> chGroupKeyVersion holding \<le> chGroupKeyVersion chain)"

lemma reaches_trans: "reaches a b \<Longrightarrow> reaches b c \<Longrightarrow> reaches a c"
  by (auto simp: reaches_def)

lemma overtakenBy_None:
  "overtakenBy holding chain = None \<Longrightarrow> rosterVersion (chRoster holding) \<le> rosterVersion (chRoster chain)
     \<and> chGroupKeyVersion holding \<le> chGroupKeyVersion chain"
  by (auto simp: overtakenBy_def split: if_splits)

lemma checkCommit_Inr:
  assumes "checkCommit L chain = Inr ()"
  shows "map_of (lgFloors L) (chGroupId chain) = Some flr \<Longrightarrow> overtakenBy flr chain = None"
    "map_of (lgChains L) (chGroupId chain) = Some now \<Longrightarrow> overtakenBy now chain = None"
  using assms by (auto simp: checkCommit_def returns split: option.splits)

lemma floor_after:
  assumes "commit_chain chain L = Inr M"
  obtains flr where "map_of (lgFloors M) (chGroupId chain) = Some flr" "rosterVersion (chRoster flr) = rosterVersion (chRoster chain)"
    "chGroupKeyVersion flr = chGroupKeyVersion chain"
    "\<And>old. map_of (lgFloors L) (chGroupId chain) = Some old \<Longrightarrow> reaches old flr"
proof (cases "past_floor (map_of (lgFloors L) (chGroupId chain)) chain")
  case True
  then have "map_of (lgFloors M) (chGroupId chain) = Some chain" using commit_chain_Inr(4) [OF assms] by simp
  then show ?thesis using that True by (fastforce simp: past_floor_def reaches_def)
next
  case False
  then obtain f where f: "map_of (lgFloors L) (chGroupId chain) = Some f"
    "\<not> rosterVersion (chRoster f) < rosterVersion (chRoster chain)"
    "\<not> (rosterVersion (chRoster f) = rosterVersion (chRoster chain) \<and> chGroupKeyVersion f < chGroupKeyVersion chain)"
    by (auto simp: past_floor_def split: option.splits)
  with checkCommit_Inr(1) [OF commit_chain_Inr(1) [OF assms] f(1)] have
    "rosterVersion (chRoster f) = rosterVersion (chRoster chain)" "chGroupKeyVersion f = chGroupKeyVersion chain"
    by (auto dest: overtakenBy_None)
  moreover have "map_of (lgFloors M) (chGroupId chain) = Some f" using commit_chain_Inr(4) [OF assms] False f(1) by simp
  ultimately show ?thesis using that f(1) by (fastforce simp: reaches_def)
qed

lemma same_rest_fields:
  assumes "same_rest g L M"
  shows "lgOpened M = lgOpened L" "same_keys L M" "lgPersonal M = lgPersonal L" "lgBlocked M = lgBlocked L" "lgGuardOwed M = lgGuardOwed L"
    "h \<noteq> g \<Longrightarrow> map_of (lgChains M) h = map_of (lgChains L) h"
    "h \<noteq> g \<Longrightarrow> map_of (lgFloors M) h = map_of (lgFloors L) h"
    "h \<noteq> g \<Longrightarrow> map_of (lgAreaWrite M) (h, w) = map_of (lgAreaWrite L) (h, w)"
    "h \<noteq> g \<Longrightarrow> map_of (lgRootSeenAt M) (h, w) = map_of (lgRootSeenAt L) (h, w)"
proof -
  from assms have M: "M = L\<lparr> lgChains := lgChains M, lgFloors := lgFloors M, lgAreaWrite := lgAreaWrite M,
       lgRootSeenAt := lgRootSeenAt M \<rparr>" by (simp add: same_rest_def)
  show "lgOpened M = lgOpened L" "same_keys L M" "lgPersonal M = lgPersonal L" "lgBlocked M = lgBlocked L" "lgGuardOwed M = lgGuardOwed L"
    by (subst M, simp add: same_keys_def)+
qed (use assms in \<open>simp_all add: same_rest_def\<close>)

lemma commit_areas:
  assumes "areas_inv P accepted_chains L" "commit_chain chain L = Inr M" "chain \<in> accepted_chains"
  shows "areas_inv P accepted_chains M"
proof (rule areas_invI)
  note r = same_rest_fields [OF commit_chain_Inr(2) [OF assms(2)]]
  note c = commit_chain_Inr [OF assms(2)]
  show "chGroupId d = g \<and> d \<in> accepted_chains \<and> (\<exists>flr. map_of (lgFloors M) g = Some flr
        \<and> rosterVersion (chRoster flr) = rosterVersion (chRoster d) \<and> chGroupKeyVersion flr = chGroupKeyVersion d)"
    if "map_of (lgChains M) g = Some d" for g d
  proof (cases "g = chGroupId chain")
    case True
    with that c(3) have "d = chain" by simp
    then show ?thesis using floor_after [OF assms(2)] assms(3) True by metis
  next
    case False
    then show ?thesis using that areas_invD(1) [OF assms(1), of g d] r(6,7) [OF False] by simp
  qed
  show "(\<exists>d\<in>accepted_chains. \<exists>n. chGroupId d = g \<and> areaWriteVersion (Accepted_Rosters d) w = Inr (Some n) \<and> v = int n)
      \<and> (\<exists>d. map_of (lgChains M) g = Some d \<and> (has_key w (chAreaKeys d) \<longrightarrow>
          (\<exists>n. areaWriteVersion (Accepted_Rosters d) w = Inr (Some n) \<and> v = int n)))"
    if "map_of (lgAreaWrite M) (g, w) = Some v" for g w v
  proof (cases "g = chGroupId chain \<and> has_key w (chAreaKeys chain)")
    case True
    with that c(5) [of g w] have "written_at chain w = Some v" by simp
    then show ?thesis using True c(3) assms(3) by (auto simp: written_at_Some)
  next
    case False
    with that c(5) [of g w] have "map_of (lgAreaWrite L) (g, w) = Some v" by (simp del: has_key_map_of)
    note old = areas_invD(2) [OF assms(1) this]
    show ?thesis
    proof (cases "g = chGroupId chain")
      case True
      with False c(3) old show ?thesis by auto
    qed (use old r(6) in auto)
  qed
  show "\<exists>d\<in>accepted_chains. \<exists>key b. chGroupId d = g \<and> checkAreaRoot P (Accepted_Rosters d) w v key = Inr b"
    if "map_of (lgRootSeenAt M) (g, w) = Some v" for g w v
    using areas_invD(3) [OF assms(1) c(6) [OF that]] .
qed (use areas_invD(4) [OF assms(1)] same_rest_fields(1) [OF commit_chain_Inr(2) [OF assms(2)]] in auto)

lemma uncommit_areas:
  assumes "areas_inv P accepted_chains L"
  shows "areas_inv P accepted_chains (uncommit g L)"
  by (rule areas_invI) (use areas_invD [OF assms] in \<open>simp_all add: uncommit_def delete_conv' split: if_splits\<close>)

section \<open>Forgetting a family, opening an area\<close>

lemma fold_drop_workspace:
  "same_areas L (fold dropWorkspace ws L)"
proof (induction ws arbitrary: L)
  case (Cons w ws)
  from Cons [of "dropWorkspace w L"] same_areas(8) [of L w] show ?case by (simp add: same_areas_def)
qed (simp add: same_areas_def)

lemma fold_drop_keys:
  "keys_inv P S own_ids accepted_chains made L \<Longrightarrow> keys_inv P S own_ids accepted_chains made (fold dropWorkspace ws L)"
  by (induction ws arbitrary: L) (simp_all add: keys_inv_drop)

lemma forgetGroup_maps:
  "lgChains (forgetGroup g L) = AList.delete g (lgChains L)" "lgFloors (forgetGroup g L) = AList.delete g (lgFloors L)"
  "lgAreaWrite (forgetGroup g L) = drop_keys (\<lambda>at. fst at = g) (lgAreaWrite L)"
  "lgRootSeenAt (forgetGroup g L) = drop_keys (\<lambda>at. fst at = g) (lgRootSeenAt L)"
  "lgOpened (forgetGroup g L) = AList.delete g (lgOpened L)"
  using fold_drop_workspace [of "guard_kept g L"] by (simp_all add: forgetGroup_def Let_def same_areas_def guard_kept_def)

lemma forgetGroup_areas:
  assumes "areas_inv P accepted_chains L"
  shows "areas_inv P accepted_chains (forgetGroup g L)"
proof (rule areas_invI)
  show "\<exists>idSeed. checkId P ''workspace'' h idSeed w = Inr w"
    if "(h, opened_areas) \<in> set (lgOpened (forgetGroup g L))" "has_key w opened_areas" for h opened_areas w
    by (rule areas_invD(4) [OF assms alist_delete_set [OF that(1) [unfolded forgetGroup_maps]] that(2)])
qed (use areas_invD(1-3) [OF assms] in \<open>simp_all add: forgetGroup_maps delete_conv' split: if_splits\<close>)

lemma forgetGroup_keys:
  assumes "keys_inv P S own_ids accepted_chains made L"
  shows "keys_inv P S own_ids accepted_chains made (forgetGroup g L)"
proof -
  have "keys_inv P S own_ids accepted_chains made (guard_kept g L)"
    using assms by (subst keys_inv_same [of L]) (simp_all add: same_keys_def guard_kept_def)
  note k = this [THEN fold_drop_keys]
  show ?thesis unfolding forgetGroup_def Let_def
    by (rule iffD2 [OF keys_inv_same k]) (simp add: same_keys_def)
qed

lemma forgetAll_keeps:
  fixes inv :: "ledger \<Rightarrow> bool"
  assumes "\<And>g L. inv L \<Longrightarrow> inv (forgetGroup g L)" "\<And>L. inv L \<Longrightarrow> inv (L\<lparr> lgGuardOwed := [] \<rparr>)" "inv L"
  shows "inv (forgetAllGroups L)"
proof -
  have "inv M \<Longrightarrow> inv (fold forgetGroup gs M)" for gs M
    by (induction gs arbitrary: M) (simp_all add: assms(1))
  then show ?thesis using assms(2,3) by (simp add: forgetAllGroups_def)
qed

lemma openArea_areas:
  assumes "areas_inv P accepted_chains L" "areas_inv P accepted_chains (during L)"
  shows "areas_inv P accepted_chains (snd (openArea P during g w idSeed v key served L))"
proof (cases "open_area_checks P L g w idSeed v key")
  case (Inl e)
  then show ?thesis using assms by (simp add: openArea_def)
next
  case (Inr latest)
  let ?M = "during L" and ?N = "snd (openArea P during g w idSeed v key served L)"
  have i: "areas_inv P accepted_chains ?M" using assms by blast
  from Inr have id: "\<exists>idSeed. checkId P ''workspace'' g idSeed w = Inr w" by (elim open_area_checks_Inr) blast
  have same: "lgChains ?N = lgChains ?M" "lgFloors ?N = lgFloors ?M" "lgAreaWrite ?N = lgAreaWrite ?M" "lgRootSeenAt ?N = lgRootSeenAt ?M"
    using Inr by (auto simp: openArea_def Let_def holdWorkspaceKey_def split: option.splits)
  have "\<exists>highest. lgOpened ?N = AList.update g (AList.update w highest (get_or [] (lgOpened ?M) g)) (lgOpened ?M)"
    using Inr by (simp add: openArea_def Let_def holdWorkspaceKey_def split: option.splits) blast
  then obtain highest where lo: "lgOpened ?N = AList.update g (AList.update w highest (get_or [] (lgOpened ?M) g)) (lgOpened ?M)"
    by blast
  show ?thesis
  proof (rule areas_invI)
    fix h opened_areas u
    assume o: "(h, opened_areas) \<in> set (lgOpened ?N)" and u: "has_key u opened_areas"
    show "\<exists>idSeed. checkId P ''workspace'' h idSeed u = Inr u"
    proof (cases "h = g \<and> u = w")
      case False
      have upd: "has_key u (AList.update w highest (get_or [] (lgOpened ?M) g)) \<Longrightarrow> u \<noteq> w \<Longrightarrow> has_key u (get_or [] (lgOpened ?M) g)"
        by (simp only: keys_alist_update insert_iff simp_thms)
      from o [unfolded lo] consider "(h, opened_areas) \<in> set (lgOpened ?M)"
        | "h = g" "opened_areas = AList.update w highest (get_or [] (lgOpened ?M) g)"
        using alist_update_set by fastforce
      then have "\<exists>old. (h, old) \<in> set (lgOpened ?M) \<and> has_key u old"
      proof cases
        case 1
        with u show ?thesis by blast
      next
        case 2
        with upd u False show ?thesis by (cases "map_of (lgOpened ?M) g") (auto dest: map_of_SomeD)
      qed
      then show ?thesis using areas_invD(4) [OF i] by blast
    qed (use id in simp)
  qed (use areas_invD(1-3) [OF i] in \<open>simp_all only: same\<close>)
qed

section \<open>Steps of a session\<close>

text \<open>
  What a session may do to the ledger, in the order it does it: \<open>own_ids\<close> are the workspaces it opens as the
  account's own, \<open>accepted_chains\<close> the chains it commits, \<open>made\<close> the keys it makes, \<open>forgotten\<close> the families it
  forgets. While an operation awaits, anything else may happen any number of times; a walk's re-wrap alone must
  find its node and its parent's key as it left them. A key from a share or a report is remembered rooted at
  nothing, a copied node's at what its parent is.
\<close>

inductive session_step :: "primitives \<Rightarrow> seal_primitives \<Rightarrow> string set \<Rightarrow> chain_body set \<Rightarrow> bytes set \<Rightarrow> string set \<Rightarrow> ledger \<Rightarrow> ledger \<Rightarrow> bool"
  for P S own_ids accepted_chains made forgotten where
  personal: "w \<in> own_ids \<Longrightarrow> openPersonalWorkspace w v key L = Inr M \<Longrightarrow> session_step P S own_ids accepted_chains made forgotten L M"
| area: "(\<And>N. (session_step P S own_ids accepted_chains made forgotten)\<^sup>*\<^sup>* N (during N))
    \<Longrightarrow> session_step P S own_ids accepted_chains made forgotten L (snd (openArea P during g w idSeed v key served L))"
| commit: "chain \<in> accepted_chains \<Longrightarrow> commit_chain chain L = Inr M \<Longrightarrow> session_step P S own_ids accepted_chains made forgotten L M"
| uncommitted: "session_step P S own_ids accepted_chains made forgotten L (uncommit g L)"
| owed: "session_step P S own_ids accepted_chains made forgotten L (owe g L)"
| paid: "session_step P S own_ids accepted_chains made forgotten L (guard_kept g L)"
| forget: "g \<in> forgotten \<Longrightarrow> session_step P S own_ids accepted_chains made forgotten L (forgetGroup g L)"
| forget_all: "forgotten = UNIV \<Longrightarrow> session_step P S own_ids accepted_chains made forgotten L (forgetAllGroups L)"
| workspace_gone: "session_step P S own_ids accepted_chains made forgotten L (dropWorkspace w L)"
| lock: "session_step P S own_ids accepted_chains made forgotten L (clear_keys L)"
| listed: "(\<And>i N. (session_step P S own_ids accepted_chains made forgotten)\<^sup>*\<^sup>* N (during i N))
    \<Longrightarrow> session_step P S own_ids accepted_chains made forgotten L (snd (openListedNode P S during w node L))"
| new_node: "(\<And>N. (session_step P S own_ids accepted_chains made forgotten)\<^sup>*\<^sup>* N (during N)) \<Longrightarrow> key \<in> made
    \<Longrightarrow> session_step P S own_ids accepted_chains made forgotten L (snd (newNodeKey S during key nonce w place L))"
| copied: "rootOf L w parent parentEpoch = Inr r \<Longrightarrow> key \<in> made
    \<Longrightarrow> session_step P S own_ids accepted_chains made forgotten L (rememberNodeKey w n key epoch r L)"
| shared: "session_step P S own_ids accepted_chains made forgotten L (rememberNodeKey w n key epoch None L)"
| shared_previous: "session_step P S own_ids accepted_chains made forgotten L (rememberPrevNodeKey w n key epoch is_own L)"
| failed: "session_step P S own_ids accepted_chains made forgotten L (forgetNodeKey w n L)"
| rotated: "(\<And>i N. (session_step P S own_ids accepted_chains made forgotten)\<^sup>*\<^sup>* N (during i N)) \<Longrightarrow> fresh \<in> made
    \<Longrightarrow> (targetEpoch \<le> plKeyEpoch (rnPlace rotating) \<Longrightarrow> undisturbed w rotating L (during 0 L))
    \<Longrightarrow> session_step P S own_ids accepted_chains made forgotten L
          (snd (rotateKey S during fresh nonce w rotating targetEpoch (rekey :: bytes \<Rightarrow> bytes \<Rightarrow> bytes \<Rightarrow> crypto_error + unit) L))"
| batch_taken: "session_step P S own_ids accepted_chains made forgotten L (snd (commitPending w ns L))"
| batch_refused: "session_step P S own_ids accepted_chains made forgotten L (snd (dropPending w ns L))"
| walk_dropped: "session_step P S own_ids accepted_chains made forgotten L (snd (dropAllPending w L))"

text \<open>What holds through every step of what happens meanwhile holds after it.\<close>

lemma keep_star:
  fixes inv :: "ledger \<Rightarrow> bool"
  assumes "(\<lambda>L M. R L M \<and> (inv L \<longrightarrow> inv M))\<^sup>*\<^sup>* L M" "inv L"
  shows "inv M"
  using assms by (induction rule: rtranclp_induct) auto

lemma keys_same_rest: "same_rest g L M \<Longrightarrow> keys_inv P S own_ids accepted_chains made L \<Longrightarrow> keys_inv P S own_ids accepted_chains made M"
  using same_rest_fields(2) keys_inv_same by blast

lemma same_keys_small:
  "same_keys L (uncommit g L)" "same_keys L (owe g L)" "same_keys L (guard_kept g L)" "same_keys L (L\<lparr> lgGuardOwed := gs \<rparr>)"
  by (simp_all add: same_keys_def uncommit_def owe_def guard_kept_def)

text \<open>The whole rule: the keys and the areas.\<close>

definition session_inv :: "primitives \<Rightarrow> seal_primitives \<Rightarrow> string set \<Rightarrow> chain_body set \<Rightarrow> bytes set \<Rightarrow> ledger \<Rightarrow> bool" where
  "session_inv P S own_ids accepted_chains made L \<longleftrightarrow> areas_inv P accepted_chains L \<and> keys_inv P S own_ids accepted_chains made L"

interpretation ledgers: ledger_rule P S made "session_inv P S own_ids accepted_chains made" "allowed_key P S own_ids accepted_chains made"
  for P S own_ids accepted_chains made
proof (unfold_locales, goal_cases)
  case (1 L w r key n epoch)
  then show ?case using areas.remember keys.remember unfolding session_inv_def by metis
next
  case 2
  then show ?case using keys.opened_key unfolding session_inv_def by metis
next
  case 3
  then show ?case using keys.made_key unfolding session_inv_def by metis
next
  case 4
  then show ?case using keys.held unfolding session_inv_def by metis
next
  case 5
  then show ?case using keys.awaiting unfolding session_inv_def by metis
next
  case 6
  then show ?case using areas.prev keys.prev unfolding session_inv_def by metis
next
  case 7
  then show ?case using areas.forget keys.forget unfolding session_inv_def by metis
next
  case 8
  then show ?case using areas.root_opened keys.root_opened unfolding session_inv_def by metis
next
  case 9
  then show ?case using areas.set_pending keys.set_pending unfolding session_inv_def by metis
next
  case (10 L m)
  then show ?case using areas.less_pending [of P accepted_chains L m] keys.less_pending [of P S own_ids accepted_chains made L m]
    unfolding session_inv_def by simp
next
  case (11 L M g chain ok w epoch key n)
  from 11(1,2) have i: "areas_inv P accepted_chains L" "areas_inv P accepted_chains M" "keys_inv P S own_ids accepted_chains made L"
    "keys_inv P S own_ids accepted_chains made M" by (simp_all add: session_inv_def)
  show ?case unfolding session_inv_def
    using areas.root_seen [OF i(1,2) 11(3,4)] keys.root_seen [OF i(3,4) 11(3,4)] by blast
qed

lemma small_areas:
  "same_areas L (owe g L)" "same_areas L (guard_kept g L)" "same_areas L (L\<lparr> lgGuardOwed := gs \<rparr>)"
  by (simp_all add: same_areas_def owe_def guard_kept_def)

lemma session_inv_small:
  "same_keys L M \<Longrightarrow> same_areas L M \<Longrightarrow> session_inv P S own_ids accepted_chains made M \<longleftrightarrow> session_inv P S own_ids accepted_chains made L"
  using keys_inv_same areas_inv_same unfolding session_inv_def by blast

lemma session_inv_personal:
  assumes "session_inv P S own_ids accepted_chains made L" "openPersonalWorkspace w v key L = Inr M" "w \<in> own_ids"
  shows "session_inv P S own_ids accepted_chains made M"
proof -
  have "same_areas L M" using assms(2)
    by (auto simp: openPersonalWorkspace_def same_areas_def holdWorkspaceKey_def Let_def split: if_splits)
  with assms(1) openPersonal_keys [OF _ assms(2,3)] show ?thesis
    by (simp add: session_inv_def areas_inv_same)
qed

lemma session_inv_area:
  assumes "session_inv P S own_ids accepted_chains made L" "session_inv P S own_ids accepted_chains made (during L)"
  shows "session_inv P S own_ids accepted_chains made (snd (openArea P during g w idSeed v key served L))"
  using assms areas_invD(1) [of P accepted_chains L g] unfolding session_inv_def
  by (auto intro!: openArea_areas openArea_keys)

lemma step_keeps:
  assumes "session_step P S own_ids accepted_chains made forgotten L M" "session_inv P S own_ids accepted_chains made L"
  shows "session_inv P S own_ids accepted_chains made M"
  using assms
proof (induction rule: session_step.induct)
  case (personal w v key L M)
  show ?case by (rule session_inv_personal [OF personal.prems personal.hyps(2,1)])
next
  case (area during L g w idSeed v key served)
  have "session_inv P S own_ids accepted_chains made (during L)" by (rule keep_star [OF area.IH area.prems])
  then show ?case by (rule session_inv_area [OF area.prems])
next
  case (commit chain L M)
  then show ?case unfolding session_inv_def using commit_areas keys_same_rest [OF commit_chain_Inr(2)] by blast
next
  case (uncommitted L g)
  then show ?case unfolding session_inv_def using uncommit_areas keys_inv_same [OF same_keys_small(1)] by blast
next
  case (forget g L)
  then show ?case unfolding session_inv_def using forgetGroup_areas forgetGroup_keys by blast
next
  case (forget_all L)
  show ?case
    by (rule forgetAll_keeps [of "session_inv P S own_ids accepted_chains made"])
      (use forget_all.prems in \<open>auto simp: session_inv_def forgetGroup_areas forgetGroup_keys
        keys_inv_same [OF same_keys_small(4)] areas_inv_same [OF small_areas(3)]\<close>)
next
  case (workspace_gone L w)
  then show ?case by (simp add: session_inv_def keys_inv_drop areas_inv_same [OF same_areas(8)])
next
  case (lock L)
  then show ?case by (simp add: session_inv_def keys_inv_clear areas_inv_same [OF same_areas(9)])
next
  case (listed during L w node)
  show ?case by (rule ledgers.openListedNode_keeps [OF listed.prems]) (rule keep_star [OF listed.IH])
next
  case (new_node during key L nonce w place)
  show ?case by (rule ledgers.newNodeKey_keeps [OF new_node.prems _ new_node.hyps(1)]) (rule keep_star [OF new_node.IH])
next
  case (copied L w parent parentEpoch r key n epoch)
  then show ?case by (intro ledgers.remember_made)
next
  case (shared L w n key epoch)
  then show ?case by (rule ledgers.remember) (simp add: allowed_key_def)
next
  case (rotated during fresh targetEpoch rotating w L nonce rekey)
  show ?case
  proof (rule ledgers.rotateKey_keeps)
    show "session_inv P S own_ids accepted_chains made (during i M)" if "session_inv P S own_ids accepted_chains made M" for i M
      using that by (rule keep_star [OF rotated.IH])
  qed (use rotated.prems rotated.hyps in auto)
qed (simp_all add: ledgers.prev ledgers.forget ledgers.batch_keeps session_inv_small [OF same_keys_small(2) small_areas(1)]
      session_inv_small [OF same_keys_small(3) small_areas(2)])

interpretation sessions: machine "session_step P S own_ids accepted_chains made forgotten" "session_inv P S own_ids accepted_chains made"
  for P S own_ids accepted_chains made forgotten
  by unfold_locales (rule step_keeps)

lemma session_inv_new: "session_inv P S own_ids accepted_chains made new_ledger"
  by (simp add: session_inv_def areas_inv_new keys_inv_new)

section \<open>Writing an area\<close>

lemma writeVersion_Inr:
  assumes "writeVersion L w = Inr (Some v)"
  obtains g where "isArea L w" "familyOf L w = Some g" "map_of (lgAreaWrite L) (g, w) = Some v"
    "map_of (lgRootSeenAt L) (g, w) = Some v" "\<not> has_key (g, w) (lgBlocked L)"
  using assms by (auto simp: writeVersion_def readAt_def returns split: if_splits option.splits)

lemma writeVersion_None: "writeVersion L w = Inr None \<longleftrightarrow> \<not> isArea L w"
  by (auto simp: writeVersion_def readAt_def returns split: if_splits option.splits)

lemma rootedNow_Inr: "rootedNow L w r = Inr True \<longleftrightarrow> (\<exists>v. r = Some v \<and> writeVersion L w = Inr (Some v))"
  by (auto simp: rootedNow_def returns split: option.splits)

text \<open>What an area is written under is what it is read under, rooted at its write version.\<close>

lemma wrapped_as_read:
  assumes "wrapKeyFor L w parent epoch = Inr key" "isArea L w"
  obtains v where "requireGuardKept L w = Inr ()" "writeVersion L w = Inr (Some v)" "parentKeyAndRoot L w parent epoch = Inr (key, Some v)"
proof -
  from assms have p: "parent \<noteq> w" and k: "requireGuardKept L w = Inr ()"
    by (auto simp: wrapKeyFor_def returns split: if_splits)
  consider p where "map_of (lgPending L) (w, parent) = Some p" "pnEpoch p = epoch" "rootedNow L w (pnRootedAt p) = Inr True" "key = pnFresh p"
    | h where "map_of (lgPending L) (w, parent) = None" "nodeKey L w parent = Some h" "rootedAtWriteVersion L w parent = Inr True"
        "heldEpoch h = epoch" "key = heldKey h"
    | p h where "map_of (lgPending L) (w, parent) = Some p" "pnEpoch p \<noteq> epoch" "pnOldEpoch p \<noteq> epoch" "nodeKey L w parent = Some h"
        "rootedAtWriteVersion L w parent = Inr True" "heldEpoch h = epoch" "key = heldKey h"
    using assms p by (auto simp: wrapKeyFor_def Let_def returns split: option.splits if_splits)
  then have "\<exists>v. writeVersion L w = Inr (Some v) \<and> parentKeyAndRoot L w parent epoch = Inr (key, Some v)"
  proof cases
    case 1
    then show ?thesis using p by (auto simp: rootedNow_Inr parentKeyAndRoot_def)
  next
    case 2
    then show ?thesis using p by (auto simp: rootedAtWriteVersion_def rootedNow_Inr parentKeyAndRoot_def)
  next
    case 3
    then show ?thesis using p by (auto simp: rootedAtWriteVersion_def rootedNow_Inr parentKeyAndRoot_def)
  qed
  with k that show thesis by blast
qed

lemma familyOf_opened: "familyOf L w = Some g \<Longrightarrow> openedBy L w = [g]"
  by (auto simp: familyOf_def split: list.splits)

lemma openedBy_has: "g \<in> set (openedBy L w) \<Longrightarrow> \<exists>opened_areas. (g, opened_areas) \<in> set (lgOpened L) \<and> has_key w opened_areas"
  by (auto simp: openedBy_def)

lemma opened_derived:
  assumes "areas_inv P accepted_chains L" "g \<in> set (openedBy L w)"
  shows "\<exists>idSeed. checkId P ''workspace'' g idSeed w = Inr w"
  using openedBy_has [OF assms(2)] areas_invD(4) [OF assms(1)] by blast

lemma requireGuardKept_Inr: "requireGuardKept L w = Inr u \<longleftrightarrow> (\<forall>g\<in>set (openedBy L w). g \<notin> set (lgGuardOwed L))"
  by (auto simp: requireGuardKept_def refuse_if_Inr list_ex_iff)

section \<open>Floors\<close>

lemma floors_same:
  "lgFloors (rememberNodeKey w n key epoch r L) = lgFloors L" "lgFloors (rememberPrevNodeKey w n key epoch is_own L) = lgFloors L"
  "lgFloors (forgetNodeKey w n L) = lgFloors L" "lgFloors (setPending w n p L) = lgFloors L"
  "lgFloors (holdWorkspaceKey w v key L) = lgFloors L" "lgFloors (dropWorkspace w L) = lgFloors L" "lgFloors (clear_keys L) = lgFloors L"
  "lgFloors (owe g L) = lgFloors L" "lgFloors (guard_kept g L) = lgFloors L" "lgFloors (root_checked g w n epoch ok L) = lgFloors L"
  "lgFloors (uncommit g L) = lgFloors L"
  by (simp_all add: rememberNodeKey_def with_node_keys_def rememberPrevNodeKey_def forgetNodeKey_def setPending_def uncommit_def
      holdWorkspaceKey_def dropWorkspace_def clear_keys_def owe_def guard_kept_def root_checked_def Let_def split: option.splits)

text \<open>The ledger has a floor for the family, as far as a chain at least.\<close>

definition floor_from :: "string \<Rightarrow> chain_body \<Rightarrow> ledger \<Rightarrow> bool" where
  "floor_from g chain L \<longleftrightarrow> (\<exists>flr. map_of (lgFloors L) g = Some flr \<and> reaches chain flr)"

interpretation floors: ledger_rule P S made "floor_from g chain" "\<lambda>_ _ _. True" for P S made g chain
  by unfold_locales (simp_all add: floor_from_def floors_same)

lemma openArea_floors: "map_of (lgFloors (snd (openArea P during g w idSeed v key served L))) = map_of (lgFloors (during L))"
  by (simp add: openArea_def Let_def floors_same split: sum.splits option.splits)

lemma step_keeps_floor:
  assumes "session_step P S own_ids accepted_chains made forgotten L M" "g \<notin> forgotten" "floor_from g chain L"
  shows "floor_from g chain M"
  using assms(1,3)
proof (induction rule: session_step.induct)
  case (personal w v key L M)
  then show ?case by (auto simp: openPersonalWorkspace_def floor_from_def floors_same split: if_splits)
next
  case (area during L g' w idSeed v key served)
  have "floor_from g chain (during L)" by (rule keep_star [OF area.IH area.prems])
  then show ?case by (simp add: floor_from_def openArea_floors)
next
  case (commit d L M)
  show ?case
  proof (cases "chGroupId d = g")
    case True
    then show ?thesis using floor_after [OF commit.hyps(2)] commit.prems reaches_trans unfolding floor_from_def by metis
  next
    case False
    then show ?thesis using same_rest_fields(7) [OF commit_chain_Inr(2) [OF commit.hyps(2)], of g] commit.prems
      by (simp add: floor_from_def)
  qed
next
  case (forget g' L)
  with assms(2) have "g' \<noteq> g" by blast
  with forget.prems show ?case by (simp add: floor_from_def forgetGroup_maps delete_conv')
next
  case (forget_all L)
  with assms(2) show ?case by simp
next
  case (listed during L w node)
  show ?case by (rule floors.openListedNode_keeps [OF listed.prems]) (rule keep_star [OF listed.IH])
next
  case (new_node during key L nonce w place)
  show ?case by (rule floors.newNodeKey_keeps [OF new_node.prems _ new_node.hyps(1)]) (rule keep_star [OF new_node.IH])
next
  case (rotated during fresh targetEpoch rotating w L nonce rekey)
  show ?case
  proof (rule floors.rotateKey_keeps)
    show "floor_from g chain (during i M)" if "floor_from g chain M" for i M
      using that by (rule keep_star [OF rotated.IH])
  qed (use rotated.prems rotated.hyps in auto)
qed (simp_all add: floors.batch_keeps, simp_all add: floor_from_def floors_same)

interpretation floor_runs: machine "\<lambda>L M. session_step P S own_ids accepted_chains made forgotten L M \<and> g \<notin> forgotten" "floor_from g chain"
  for P S own_ids accepted_chains made forgotten g chain
  by unfold_locales (blast intro: step_keeps_floor)

lemma floor_after_run:
  assumes "(session_step P S own_ids accepted_chains made forgotten)\<^sup>*\<^sup>* L M" "g \<notin> forgotten" "floor_from g chain L"
  shows "floor_from g chain M"
proof (rule floor_runs.reached [OF _ assms(3)])
  have "(\<lambda>L M. session_step P S own_ids accepted_chains made forgotten L M \<and> g \<notin> forgotten) = session_step P S own_ids accepted_chains made forgotten"
    using assms(2) by (simp add: fun_eq_iff)
  with assms(1) show "(\<lambda>L M. session_step P S own_ids accepted_chains made forgotten L M \<and> g \<notin> forgotten)\<^sup>*\<^sup>* L M"
    by simp
qed

section \<open>What an area sees\<close>

text \<open>Two ledgers an area of a family is the same in.\<close>

definition seen_alike :: "string \<Rightarrow> string \<Rightarrow> ledger \<Rightarrow> ledger \<Rightarrow> bool" where
  "seen_alike g w L M \<longleftrightarrow> same_keys L M \<and> lgOpened M = lgOpened L \<and> lgPersonal M = lgPersonal L
     \<and> lgOwnPrevNodeKeys M = lgOwnPrevNodeKeys L \<and> lgGuestPrevNodeKeys M = lgGuestPrevNodeKeys L
     \<and> map_of (lgAreaWrite M) (g, w) = map_of (lgAreaWrite L) (g, w)
     \<and> map_of (lgBlocked M) (g, w) = map_of (lgBlocked L) (g, w)
     \<and> map_of (lgRootSeenAt M) (g, w) = map_of (lgRootSeenAt L) (g, w)
     \<and> map_of (lgChains M) g = map_of (lgChains L) g \<and> (g \<in> set (lgGuardOwed M) \<longleftrightarrow> g \<in> set (lgGuardOwed L))"

lemma alike_reads:
  assumes "seen_alike g w L M" "familyOf L w = Some g"
  shows "familyOf M w = Some g" "isArea M w = isArea L w" "heldBack M w = heldBack L w" "writeVersion M w = writeVersion L w"
    "requireGuardKept M w = requireGuardKept L w" "nodeKey M w n = nodeKey L w n" "lineage_of M w = lineage_of L w"
    "parentKeyAndRoot M w parent epoch = parentKeyAndRoot L w parent epoch"
proof -
  note a = assms(1) [unfolded seen_alike_def same_keys_def]
  from a have m: "lgPending M = lgPending L" "lgWorkspaceKeys M = lgWorkspaceKeys L" "lgLineage M = lgLineage L" by simp_all
  have o: "openedBy M = openedBy L" using a by (simp add: openedBy_def fun_eq_iff)
  have w: "openedBy L w = [g]" using assms(2) by (rule familyOf_opened)
  have h: "hasWorkspace M = hasWorkspace L" using a by (simp add: hasWorkspace_def fun_eq_iff)
  show f: "familyOf M w = Some g" using w by (simp add: familyOf_def o)
  show i: "isArea M w = isArea L w" using a w by (simp add: isArea_def o)
  show b: "heldBack M w = heldBack L w" using a w by (simp add: heldBack_def o has_key_map_of)
  have "readAt M w = readAt L w" using a assms(2) by (simp add: readAt_def i f)
  then show "writeVersion M w = writeVersion L w"
    using a assms(2) by (auto simp: writeVersion_def bindE_def readAt_def has_key_map_of split: sum.splits option.splits if_splits)
  show "requireGuardKept M w = requireGuardKept L w" using a w by (simp add: requireGuardKept_def o)
  show "lineage_of M w = lineage_of L w" using a by (simp add: lineage_of_def fun_eq_iff)
  have p: "nodeKeysOf M w = nodeKeysOf L w" "prevNodeKeysOf M w = prevNodeKeysOf L w" using a
    by (simp_all add: nodeKeysOf_def prevNodeKeysOf_def h)
  then show n: "nodeKey M w n = nodeKey L w n" for n by (simp add: nodeKey_def b)
  show "parentKeyAndRoot M w parent epoch = parentKeyAndRoot L w parent epoch"
    unfolding parentKeyAndRoot_def n p lineage_of_def m by (rule refl)
qed

lemma alike_writes:
  assumes "seen_alike g w L M" "familyOf L w = Some g"
  shows "wrapKeyFor M w parent epoch = wrapKeyFor L w parent epoch" "writableNodeKey M w n = writableNodeKey L w n"
    "requireWritable M w = requireWritable L w"
proof -
  note a = assms(1) [unfolded seen_alike_def same_keys_def] and r = alike_reads [OF assms]
  from a have m: "lgPending M = lgPending L" "lgWorkspaceKeys M = lgWorkspaceKeys L" by simp_all
  have now: "rootedNow M w = rootedNow L w" "rootedAtWriteVersion M w = rootedAtWriteVersion L w"
    unfolding rootedNow_def rootedAtWriteVersion_def r(4,7) by simp_all
  show "wrapKeyFor M w parent epoch = wrapKeyFor L w parent epoch"
    unfolding wrapKeyFor_def r now parentKeyFor_def writeVersionOf_def m by (rule refl)
  show "writableNodeKey M w n = writableNodeKey L w n" unfolding writableNodeKey_def r now by (rule refl)
  show "requireWritable M w = requireWritable L w" unfolding requireWritable_def r workspaceKey_def m by (rule refl)
qed

lemma other_family_alike:
  assumes "h \<noteq> g"
  shows "commit_chain chain L = Inr M \<Longrightarrow> chGroupId chain = h \<Longrightarrow> seen_alike g w L M"
    "seen_alike g w L (uncommit h L)" "seen_alike g w L (owe h L)" "seen_alike g w L (guard_kept h L)"
proof -
  show "seen_alike g w L M" if c: "commit_chain chain L = Inr M" "chGroupId chain = h"
  proof -
    note r = same_rest_fields [OF commit_chain_Inr(2) [OF c(1)], unfolded c(2)]
    have M: "M = L\<lparr> lgChains := lgChains M, lgFloors := lgFloors M, lgAreaWrite := lgAreaWrite M, lgRootSeenAt := lgRootSeenAt M \<rparr>"
      using commit_chain_Inr(2) [OF c(1)] unfolding same_rest_def by blast
    have "lgOwnPrevNodeKeys M = lgOwnPrevNodeKeys L" "lgGuestPrevNodeKeys M = lgGuestPrevNodeKeys L"
      using arg_cong [OF M, of lgOwnPrevNodeKeys] arg_cong [OF M, of lgGuestPrevNodeKeys] by simp_all
    with r assms show ?thesis by (simp add: seen_alike_def)
  qed
qed (use assms in \<open>simp_all add: seen_alike_def same_keys_def uncommit_def owe_def guard_kept_def delete_conv'\<close>)

end
