(* ===== verification/Ledger_Promises.thy ===== *)
theory Ledger_Promises
  imports Ledger_Rules
begin

text \<open>
  What the ledger promises: what an area is written under and what it is rooted at, that no session goes back
  to an older chain of a family, that a family held back hands nothing out, that one family's list never moves
  another's area, that a listed root is the one the family committed to, and what a refused or taken batch
  leaves behind.
\<close>

section \<open>Lemmas: listings\<close>

lemma open_listed_families:
  assumes "open_listed_key S (\<lambda>N. N) w node areaRoot L = (Inr key, M)"
  shows "lgOpened M = lgOpened L" "lgChains M = lgChains L" "lgPersonal M = lgPersonal L"
  using assms
  by (auto simp: open_listed_key_def Let_def rememberNodeKey_def with_node_keys_def split: sum.splits if_splits prod.splits)

lemma listed_root_checked:
  assumes "openListedNode P S during w node L = (Inr key, M)" "during 0 = (\<lambda>N. N)" "snParentId node = w" "isArea L w"
    "familyOf L w = Some g" "map_of (lgChains L) g = Some chain"
  shows "\<exists>b. checkAreaRoot P (Accepted_Rosters chain) w (snParentKeyEpoch node) key = Inr b"
proof -
  from assms(1,3,4) obtain L1 where L1: "(case listed_from_cache L w node True of Some key \<Rightarrow> (Inr key, L)
      | None \<Rightarrow> open_listed_key S (during 0) w node True L) = (Inr key, L1)"
    and ok: "fst (rootSeen P (during 1) w (snId node) (snParentKeyEpoch node) key L1)"
    by (auto simp: openListedNode_def Let_def simp del: One_nat_def split: sum.splits prod.splits if_splits)
  have same: "lgOpened L1 = lgOpened L \<and> lgChains L1 = lgChains L \<and> lgPersonal L1 = lgPersonal L"
    using L1 assms(2) open_listed_families [of S w node True L key L1] by (auto split: option.splits)
  then have o: "openedBy L1 = openedBy L" by (simp add: openedBy_def fun_eq_iff)
  have "familyOf L1 w = Some g" using assms(5) by (simp add: familyOf_def o)
  moreover have "isArea L1 w" using assms(4) familyOf_opened [OF assms(5)] same by (auto simp: isArea_def o)
  ultimately show ?thesis using ok assms(6) same by (auto simp: rootSeen_def split: sum.splits)
qed

lemma held_back_end:
  "fst (openListedNode P S during w node L) = Inr key \<Longrightarrow> \<not> heldBack (snd (openListedNode P S during w node L)) w"
  by (auto simp: openListedNode_def Let_def split: sum.splits prod.splits if_splits)

lemma heldBack_uncommit: "g \<in> set (openedBy L w) \<Longrightarrow> heldBack (uncommit g L) w"
proof -
  assume "g \<in> set (openedBy L w)"
  moreover have "openedBy (uncommit g L) w = openedBy L w" by (simp add: openedBy_def uncommit_def)
  moreover have "\<not> has_key g (lgChains (uncommit g L))" by (simp add: uncommit_def has_key_map_of delete_conv')
  ultimately show ?thesis unfolding heldBack_def list_ex_iff by auto
qed

lemma held_back_unwritten:
  assumes "areas_inv P accepted_chains L" "heldBack L w" "isArea L w"
  shows "\<exists>e. writeVersion L w = Inl e"
proof (cases "writeVersion L w")
  case (Inr x)
  with assms(3) obtain v where "writeVersion L w = Inr (Some v)" using writeVersion_None by (cases x) auto
  then obtain g where g: "familyOf L w = Some g" "map_of (lgAreaWrite L) (g, w) = Some v" by (elim writeVersion_Inr)
  from areas_invD(2) [OF assms(1) g(2)] have "has_key g (lgChains L)" by (auto simp: has_key_map_of)
  then have "\<not> heldBack L w" using familyOf_opened [OF g(1)] by (simp add: heldBack_def)
  with assms(2) show ?thesis by simp
qed simp

lemma held_back_refuses:
  assumes "areas_inv P accepted_chains L" "heldBack L w" "w \<notin> set (lgPersonal L)"
  shows "\<exists>e. wrapKeyFor L w parent epoch = Inl e" "\<exists>e. requireWritable L w = Inl e"
proof -
  from assms(2) have "openedBy L w \<noteq> []" by (auto simp: heldBack_def list_ex_iff)
  with assms(3) have a: "isArea L w" by (simp add: isArea_def)
  obtain e where e: "writeVersion L w = Inl e" using held_back_unwritten [OF assms(1,2) a] by blast
  show "\<exists>e. wrapKeyFor L w parent epoch = Inl e"
  proof (cases "wrapKeyFor L w parent epoch")
    case (Inr key)
    then show ?thesis using e a by (elim wrapped_as_read) simp_all
  qed simp
  show "\<exists>e. requireWritable L w = Inl e"
    by (cases "requireGuardKept L w") (simp_all add: requireWritable_def e)
qed

section \<open>Lemmas: batches\<close>

lemma delete_updated: "map_of m k = None \<Longrightarrow> AList.delete k (AList.update k v m) = m"
  by (simp add: update_absent map_of_eq_None_iff AList.delete_eq)
    (metis (mono_tags, lifting) filter_True fst_conv imageI map_of_eq_None_iff prod.case_eq_if)

lemma rotated_pending:
  assumes "rotateKey S (\<lambda>_ N. N) fresh nonce w node targetEpoch rekey L = (Inr (Rekeyed_With result), M)"
  obtains old parentKey rootedAt where "rotationOldKey S w node L = Inr old"
    "freshKeyParent L w (rnPlace node) = Inr (parentKey, rootedAt)" "rekey old fresh parentKey = Inr result"
    "M = setPending w (plId (rnPlace node)) \<lparr> pnFresh = fresh, pnEpoch = targetEpoch, pnOld = old,
       pnOldEpoch = plKeyEpoch (rnPlace node), pnRootedAt = rootedAt \<rparr> L"
  using assms by (auto simp: rotateKey_def Let_def split: sum.splits if_splits prod.splits)

section \<open>Properties\<close>


text \<open>C14. A session never goes back: the chain committed for a family it does not forget reaches at least as far
  as any it had committed before, whatever it did in between, an acceptance taken back included.\<close>

theorem session_never_goes_back:
  assumes "(session_step P S own_ids accepted_chains made forgotten)\<^sup>*\<^sup>* new_ledger L" "committedChain L g = Some earlier"
    "(session_step P S own_ids accepted_chains made forgotten)\<^sup>*\<^sup>* L M" "committedChain M g = Some later" "g \<notin> forgotten"
  shows "rosterVersion (chRoster earlier) < rosterVersion (chRoster later)
    \<or> (rosterVersion (chRoster earlier) = rosterVersion (chRoster later) \<and> chGroupKeyVersion earlier \<le> chGroupKeyVersion later)"
proof -
  have "areas_inv P accepted_chains L" "areas_inv P accepted_chains M"
    using sessions.reached [OF assms(1) session_inv_new] sessions.reached [OF rtranclp_trans [OF assms(1,3)] session_inv_new]
    by (simp_all add: session_inv_def)
  note L = areas_invD(1) [OF this(1), of g earlier] and M = areas_invD(1) [OF this(2), of g later]
  have "floor_from g earlier L" using L assms(2) by (auto simp: floor_from_def reaches_def committedChain_def)
  then have "floor_from g earlier M" by (rule floor_after_run [OF assms(3,5)])
  then show ?thesis using M assms(4) by (auto simp: floor_from_def reaches_def committedChain_def)
qed


text \<open>C25. Another family's acceptance, refusal or guard changes nothing of a family's area: whether and under what
  it is written, and every answer for its nodes, stay as they were.\<close>

theorem other_family_changes_nothing:
  assumes "familyOf L w = Some g" "h \<noteq> g"
    "(\<exists>chain. chGroupId chain = h \<and> commit_chain chain L = Inr M) \<or> M = uncommit h L \<or> M = owe h L \<or> M = guard_kept h L"
  shows "writeVersion M w = writeVersion L w \<and> requireWritable M w = requireWritable L w
    \<and> wrapKeyFor M w parent epoch = wrapKeyFor L w parent epoch \<and> writableNodeKey M w n = writableNodeKey L w n
    \<and> nodeKey M w n = nodeKey L w n \<and> parentKeyAndRoot M w parent epoch = parentKeyAndRoot L w parent epoch"
proof -
  have "seen_alike g w L M" using assms(3) by (auto intro: other_family_alike [OF assms(2)])
  then show ?thesis using alike_reads [OF _ assms(1)] alike_writes [OF _ assms(1)] by blast
qed

text \<open>A family folder's root is handed out only with the key the family's committed chain names for it: what a
  listing opens at the top of an area passed \<open>checkAreaRoot\<close> at the version its envelope names, whatever else
  happens while it is checked.\<close>

theorem listed_root_is_committed:
  assumes "openListedNode P S during w node L = (Inr key, M)" "during 0 = (\<lambda>N. N)" "snParentId node = w" "isArea L w"
    "familyOf L w = Some g" "committedChain L g = Some chain"
  shows "\<exists>b. checkAreaRoot P (Accepted_Rosters chain) w (snParentKeyEpoch node) key = Inr b"
  using listed_root_checked [OF assms(1-5)] assms(6) by (simp add: committedChain_def)


end
