(* ===== verification/Sample_Ledger.thy ===== *)
theory Sample_Ledger
  imports Sample_Seals Ledger_Promises
begin

text \<open>
  The witnesses of the ledger: a session that commits a family's chain, opens its area by the granted key and
  lists the area's root, then writes under it.
\<close>

section \<open>The chain and the ledgers\<close>

definition area_root_key :: bytes where
  "area_root_key = replicate 32 8"

definition area_root :: string where
  "area_root = sample_uuid CHR ''c''"

abbreviation the_family :: string where "the_family \<equiv> sample_uuid CHR ''f''"

definition rooted_body :: chain_body where
  "rooted_body = granted_body\<lparr> chAreaRoots := [(granted_area, [Some (commit chain_primitives area_root_key AREA_ROOT_COMMIT_INFO)])],
     chRetiredAreas := [] \<rparr>"

lemma rooted_fields:
  "chGroupId rooted_body = the_family" "chRoster rooted_body = first_roster" "chRosterDigests rooted_body = [sample_key 1]"
  "chRosterDigest rooted_body = sample_key 1" "chGroupKeys rooted_body = [chain_key 61]" "chGroupKey rooted_body = chain_key 61"
  "chGroupKeyVersion rooted_body = 1" "chRetiredAreas rooted_body = []"
  "chAreaKeys rooted_body = [(granted_area, [commit chain_primitives granted_key AREA_COMMIT_INFO])]"
  "chAreaRoots rooted_body = [(granted_area, [Some (commit chain_primitives area_root_key AREA_ROOT_COMMIT_INFO)])]"
  by (simp_all add: rooted_body_def granted_body_def created_latest)
    (simp_all add: created_body_def body_of_def created_cached_def cached_of_def Let_def created_end_def chain_start_def
      last_of_def held_of_def)

lemma sample_uuid_first: "sample_uuid c ! 0 = c"
  by (simp add: sample_uuid_def)

lemma sample_uuid_eq: "sample_uuid c = sample_uuid d \<longleftrightarrow> c = d"
  by (metis sample_uuid_first)

lemma rooted_area: "areaWriteVersion (Accepted_Rosters rooted_body) granted_area = Inr (Some 1)"
  using granted_area_ok(1) by (simp add: areaWriteVersion_def requireAccepted_def rooted_fields areaCommitments_def uuid_def)

lemma rooted_commitments:
  "areaKeyCommitment chain_primitives granted_key = Inr (commit chain_primitives granted_key AREA_COMMIT_INFO)"
  "areaRootCommitment chain_primitives area_root_key = Inr (commit chain_primitives area_root_key AREA_ROOT_COMMIT_INFO)"
  "commit chain_primitives granted_key AREA_COMMIT_INFO \<noteq> []"
  by (simp_all add: areaKeyCommitment_def areaRootCommitment_def granted_key_def area_root_key_def commit_def)
    (simp add: chain_primitives_def chain_hash_def)

lemma rooted_root: "checkAreaRoot chain_primitives (Accepted_Rosters rooted_body) granted_area 1 area_root_key = Inr True"
  using granted_area_ok(1) rooted_commitments
  by (simp add: checkAreaRoot_def requireAccepted_def rooted_fields listedArea_def areaCommitments_def uuid_def at_index_def
      isSafeInteger_def MAX_SAFE_INTEGER_def integer_def)

definition committed_ledger :: ledger where
  "committed_ledger = new_ledger\<lparr> lgChains := [(the_family, rooted_body)], lgFloors := [(the_family, rooted_body)],
     lgAreaWrite := [((the_family, granted_area), 1)] \<rparr>"

definition opened_ledger :: ledger where
  "opened_ledger = committed_ledger\<lparr> lgOpened := [(the_family, [(granted_area, 1)])],
     lgWorkspaceKeys := [(granted_area, \<lparr> weCurrent = 1, weKeys = [(1, granted_key)] \<rparr>)] \<rparr>"

definition listed_ledger :: ledger where
  "listed_ledger = opened_ledger\<lparr> lgOwnNodeKeys := [((granted_area, area_root), \<lparr> heldKey = area_root_key, heldEpoch = 1, heldOwn = False \<rparr>)],
     lgLineage := [((granted_area, area_root), Some 1)], lgRootOpenedUnder := [((granted_area, area_root), 1)],
     lgRootSeenAt := [((the_family, granted_area), 1)], lgRootIds := [((the_family, granted_area), area_root)] \<rparr>"

lemmas sample_ledgers = new_ledger_def committed_ledger_def opened_ledger_def listed_ledger_def

lemma committed: "commit_chain rooted_body new_ledger = Inr committed_ledger"
  by (simp add: commit_chain_def checkCommit_def past_floor_def commit_area_def rooted_fields rooted_area Let_def)
    (simp add: sample_ledgers)

lemma committed_again: "commit_chain rooted_body (uncommit the_family committed_ledger) = Inr committed_ledger"
proof -
  have k: "sameGroupKey (chain_key 61) (chain_key 61)" by (simp add: sameGroupKey_def)
  have "overtakenBy rooted_body rooted_body = None"
    by (simp add: overtakenBy_def rooted_fields at_index_def k)
  then show ?thesis
    by (simp add: commit_chain_def checkCommit_def past_floor_def commit_area_def rooted_fields rooted_area Let_def uncommit_def
        drop_keys_def sample_ledgers)
qed

lemma opened: "openArea chain_primitives (\<lambda>N. N) the_family granted_area granted_seed 1 granted_key 1 committed_ledger
    = (Inr (Some Root_Unknown), opened_ledger)"
proof -
  have "open_area_checks chain_primitives committed_ledger the_family granted_area granted_seed 1 granted_key = Inr 1"
    using sample_uuids granted_area_ok rooted_commitments(1)
    by (simp add: open_area_checks_def committed_ledger_def new_ledger_def uuid_def checkId_def rooted_area rooted_fields at_index_def)
  then show ?thesis
    by (simp add: openArea_def block_reason_def unwritable_def holdWorkspaceKey_def Let_def sample_ledgers)
qed

definition key_envelope :: "bytes \<Rightarrow> bytes" where
  "key_envelope key = replicate 24 0 @ key @ replicate 16 0"

lemma key_envelope_opens:
  assumes "length key = 32" "nodeKeyContext ctx = Inr aad"
  shows "decode (encode (key_envelope key)) (Some 72) = Inr (key_envelope key)"
    "openNodeKey sample_seals (key_envelope key) parentKey ctx = Inr key"
proof -
  have "key_envelope key \<noteq> []" "length (key_envelope key) = 72" using assms by (simp_all add: key_envelope_def)
  then show "decode (encode (key_envelope key)) (Some 72) = Inr (key_envelope key)" by (simp add: decode_Inr)
  show "openNodeKey sample_seals (key_envelope key) parentKey ctx = Inr key"
    using assms by (simp add: openNodeKey_def open_key_def split_envelope_def drive_sizes key_envelope_def decryptKey_def)
      (simp add: sample_seals_def)
qed

definition served_root :: served_node_key where
  "served_root = \<lparr> snId = area_root, snParentId = granted_area, snParentKeyEpoch = 1, snKeyEpoch = 1,
     snKeyEnvelope = encode (key_envelope area_root_key), snPrevKeyEnvelope = None, snPrevKeyEpoch = None, snPrevParentKeyEpoch = None \<rparr>"

lemma context_of:
  "is_uuid n \<Longrightarrow> is_uuid p \<Longrightarrow> \<exists>aad. nodeKeyContext \<lparr> nkWorkspaceId = granted_area, nkNodeId = n, nkParentId = p,
     nkParentKeyEpoch = 1, nkKeyEpoch = 1 \<rparr> = Inr aad"
  using granted_area_ok(1)
  by (simp add: nodeKeyContext_def node_key_parts_def drive_id_def epoch_field_def isSafeInteger_def MAX_SAFE_INTEGER_def)

lemma opened_facts:
  "openedBy opened_ledger granted_area = [the_family]" "familyOf opened_ledger granted_area = Some the_family"
  "isArea opened_ledger granted_area" "\<not> heldBack opened_ledger granted_area" "hasWorkspace opened_ledger granted_area"
  by (simp_all add: openedBy_def familyOf_def isArea_def heldBack_def hasWorkspace_def sample_ledgers)

lemma listed: "openListedNode chain_primitives sample_seals (\<lambda>_ N. N) granted_area served_root opened_ledger
    = (Inr area_root_key, listed_ledger)"
proof -
  have u: "is_uuid area_root" by (simp add: area_root_def sample_uuid_ok hex_char_def)
  obtain aad where "nodeKeyContext (served_context granted_area served_root) = Inr aad"
    using context_of [OF u granted_area_ok(1)] by (auto simp: served_context_def served_root_def)
  then have k: "decode (encode (key_envelope area_root_key)) (Some 72) = Inr (key_envelope area_root_key)"
    "openNodeKey sample_seals (key_envelope area_root_key) granted_key (served_context granted_area served_root) = Inr area_root_key"
    using key_envelope_opens [of area_root_key] by (auto simp: area_root_key_def)
  let ?M = "opened_ledger\<lparr> lgOwnNodeKeys := [((granted_area, area_root), \<lparr> heldKey = area_root_key, heldEpoch = 1, heldOwn = False \<rparr>)],
     lgLineage := [((granted_area, area_root), Some 1)], lgRootOpenedUnder := [((granted_area, area_root), 1)] \<rparr>"
  have no: "nodeKey opened_ledger granted_area area_root = None"
    by (simp add: nodeKey_def opened_facts nodeKeysOf_def) (simp add: sample_ledgers)
  have p: "parentKeyAndRoot opened_ledger granted_area granted_area 1 = Inr (granted_key, Some 1)"
    by (simp add: parentKeyAndRoot_def) (simp add: sample_ledgers)
  have o: "open_listed_key sample_seals (\<lambda>N. N) granted_area served_root True opened_ledger = (Inr area_root_key, ?M)"
    using k by (simp add: open_listed_key_def served_root_def p Let_def opened_facts rememberNodeKey_def with_node_keys_def)
      (simp add: sample_ledgers)
  have m: "openedBy ?M granted_area = [the_family]" "familyOf ?M granted_area = Some the_family" "isArea ?M granted_area"
    "map_of (lgChains ?M) the_family = Some rooted_body"
    by (simp_all add: openedBy_def familyOf_def isArea_def sample_ledgers)
  have r: "rootSeen chain_primitives (\<lambda>N. N) granted_area area_root 1 area_root_key ?M = (True, listed_ledger)"
    unfolding rootSeen_def m
    by (simp add: m) (simp add: rooted_root root_checked_def Let_def sample_ledgers)
  have h: "\<not> heldBack listed_ledger granted_area" by (simp add: heldBack_def openedBy_def sample_ledgers)
  have s: "snParentId served_root = granted_area" "snId served_root = area_root" "snParentKeyEpoch served_root = 1"
    "served_previous served_root = None"
    by (simp_all add: served_root_def served_previous_def)
  have n: "\<not> notTheRoot opened_ledger granted_area area_root" by (simp add: notTheRoot_def opened_facts) (simp add: sample_ledgers)
  have c: "listed_from_cache opened_ledger granted_area served_root True = None"
    by (simp add: listed_from_cache_def s no)
  show ?thesis
    by (simp add: openListedNode_def Let_def opened_facts s n c o r h take_previous_key_def)
qed

section \<open>The session\<close>

abbreviation sample_session :: "ledger \<Rightarrow> ledger \<Rightarrow> bool" where
  "sample_session \<equiv> session_step chain_primitives sample_seals {} {rooted_body} {} {}"

lemma to_committed: "sample_session new_ledger committed_ledger"
  by (rule session_step.commit [OF _ committed]) simp

lemma to_opened: "sample_session committed_ledger opened_ledger"
  using session_step.area [of chain_primitives sample_seals "{}" "{rooted_body}" "{}" "{}" "\<lambda>N. N" committed_ledger
    the_family granted_area granted_seed 1 granted_key 1]
  by (simp add: opened)

lemma to_listed: "sample_session opened_ledger listed_ledger"
  using session_step.listed [of chain_primitives sample_seals "{}" "{rooted_body}" "{}" "{}" "\<lambda>_ N. N" opened_ledger
    granted_area served_root]
  by (simp add: listed)

lemma session_run: "sample_session\<^sup>*\<^sup>* new_ledger opened_ledger" "sample_session\<^sup>*\<^sup>* new_ledger listed_ledger"
  using to_committed to_opened to_listed by (meson rtranclp.rtrancl_into_rtrancl rtranclp.rtrancl_refl)+

lemma listed_facts:
  "openedBy listed_ledger granted_area = [the_family]" "familyOf listed_ledger granted_area = Some the_family"
  "isArea listed_ledger granted_area" "\<not> heldBack listed_ledger granted_area" "hasWorkspace listed_ledger granted_area"
  "requireGuardKept listed_ledger granted_area = Inr ()"
  by (simp_all add: openedBy_def familyOf_def isArea_def heldBack_def hasWorkspace_def requireGuardKept_def sample_ledgers)

lemma listed_version: "writeVersion listed_ledger granted_area = Inr (Some 1)"
  by (simp add: writeVersion_def readAt_def listed_facts) (simp add: sample_ledgers)

lemma listed_root: "nodeKey listed_ledger granted_area area_root = Some \<lparr> heldKey = area_root_key, heldEpoch = 1, heldOwn = False \<rparr>"
  by (simp add: nodeKey_def nodeKeysOf_def listed_facts) (simp add: sample_ledgers)

lemma root_is_not_area: "area_root \<noteq> granted_area"
proof -
  have "granted_area ! 14 = hex_digit 8"
    unfolding granted_area_def by (subst uuidV8_marks(1)) (simp_all only: version_nibble, simp add: chain_primitives_def chain_hash_def)
  then have "granted_area ! 14 = CHR ''8''" by (simp add: hex_digit_values)
  moreover have "area_root ! 14 \<noteq> CHR ''8''" by (simp add: area_root_def sample_uuid_def)
  ultimately show ?thesis by auto
qed

lemma listed_lineage: "lineage_of listed_ledger granted_area area_root = Some 1"
  by (simp add: lineage_of_def sample_ledgers)

lemma listed_rooted: "rootedAtWriteVersion listed_ledger granted_area area_root = Inr True"
  by (simp add: rootedAtWriteVersion_def rootedNow_def listed_lineage listed_version)

lemma listed_no_pending: "lgPending listed_ledger = []"
  by (simp add: sample_ledgers)

lemma listed_wraps: "wrapKeyFor listed_ledger granted_area area_root 1 = Inr area_root_key"
  using root_is_not_area
  by (simp add: wrapKeyFor_def listed_facts listed_root listed_rooted listed_no_pending)


theorem session_never_goes_back_witness:
  "\<exists>M. sample_session\<^sup>*\<^sup>* (uncommit the_family committed_ledger) M \<and> committedChain M the_family = Some rooted_body
    \<and> chGroupKeyVersion rooted_body \<le> chGroupKeyVersion rooted_body"
proof -
  have c: "committedChain committed_ledger the_family = Some rooted_body" by (simp add: committedChain_def sample_ledgers)
  have a: "sample_session (uncommit the_family committed_ledger) committed_ledger"
    by (rule session_step.commit [OF _ committed_again]) simp
  have "sample_session committed_ledger (uncommit the_family committed_ledger)" by (rule session_step.uncommitted)
  with a have r: "sample_session\<^sup>*\<^sup>* committed_ledger committed_ledger" by (meson rtranclp.rtrancl_into_rtrancl rtranclp.rtrancl_refl)
  have n: "sample_session\<^sup>*\<^sup>* new_ledger committed_ledger" using to_committed by (rule r_into_rtranclp)
  from session_never_goes_back [OF n c r c] a c show ?thesis by blast
qed


definition other_body :: chain_body where
  "other_body = rooted_body\<lparr> chGroupId := sample_uuid CHR ''b'' \<rparr>"

theorem other_family_changes_nothing_witness:
  "\<exists>M. commit_chain other_body listed_ledger = Inr M \<and> has_key granted_area (chAreaKeys other_body)
    \<and> wrapKeyFor M granted_area area_root 1 = Inr area_root_key"
proof -
  have "checkCommit listed_ledger other_body = Inr ()"
    by (simp add: checkCommit_def other_body_def sample_ledgers sample_uuid_eq)
  then obtain M where M: "commit_chain other_body listed_ledger = Inr M" by (simp add: commit_chain_def Let_def)
  have g: "chGroupId other_body = sample_uuid CHR ''b''" by (simp add: other_body_def)
  have n: "sample_uuid CHR ''b'' \<noteq> the_family" by (simp add: sample_uuid_eq)
  have "\<exists>chain. chGroupId chain = sample_uuid CHR ''b'' \<and> commit_chain chain listed_ledger = Inr M" using M g by blast
  from other_family_changes_nothing [OF listed_facts(2) n disjI1 [OF this]] M show ?thesis
    by (auto simp: listed_wraps other_body_def rooted_fields)
qed

theorem listed_root_is_committed_witness:
  "\<exists>b. checkAreaRoot chain_primitives (Accepted_Rosters rooted_body) granted_area 1 area_root_key = Inr b"
proof -
  have s: "snParentId served_root = granted_area" "snParentKeyEpoch served_root = 1" by (simp_all add: served_root_def)
  have c: "committedChain opened_ledger the_family = Some rooted_body" by (simp add: committedChain_def sample_ledgers)
  from listed_root_is_committed [OF listed refl s(1) opened_facts(3,2) c] show ?thesis by (simp add: s)
qed

section \<open>A walk\<close>

definition walked :: rotating_node_key where
  "walked = \<lparr> rnPlace = \<lparr> plId = sample_uuid CHR ''d'', plParentId = area_root, plParentKeyEpoch = 1, plKeyEpoch = 1 \<rparr>,
     rnWrappedParentKeyEpoch = 1, rnKeyEnvelope = encode (key_envelope (replicate 32 3)) \<rparr>"


end
