(* ===== verification/Join_Session.thy ===== *)
theory Join_Session
  imports Acceptance
begin

text \<open>
  The compared join code: \<open>packages/crypto/src/join-check.ts\<close> (whether two typed words are the code's at the
  hidden positions) and \<open>join-session.ts\<close> (the escalation a family keeps: the positions hidden per code shown,
  what a wrong pair holds, and how it is kept and restored). A \<open>Map\<close> is an association list in insertion
  order; the 32-bit draws of the crypto RNG are a list read from the front, and a showing that reads past its
  end waits for more (\<open>None\<close>).
\<close>

section \<open>The two words (join-check.ts)\<close>

datatype join_check = Match | No_Match | Incomplete

definition INVALID_JOIN_CODE :: crypto_error where "INVALID_JOIN_CODE = CryptoError ''Invalid join code.''"
definition INVALID_HIDDEN :: crypto_error where "INVALID_HIDDEN = CryptoError ''Invalid hidden positions.''"

text \<open>\<open>/^[a-z]{3,8}$/\<close>.\<close>

definition code_word :: "string \<Rightarrow> bool" where
  "code_word w \<longleftrightarrow> 3 \<le> length w \<and> length w \<le> 8 \<and> list_all (\<lambda>c. (97::nat) \<le> of_char c \<and> of_char c \<le> (122::nat)) w"

text \<open>What \<open>trim\<close> takes off, on the strings of this model (U+0000 to U+00FF).\<close>

definition js_space :: "char \<Rightarrow> bool" where
  "js_space c \<longleftrightarrow> (of_char c :: nat) \<in> {9, 10, 11, 12, 13, 32, 160}"

definition trim :: "string \<Rightarrow> string" where
  "trim s = rev (dropWhile js_space (rev (dropWhile js_space s)))"

definition code_shape :: "string list \<Rightarrow> bool" where
  "code_shape code \<longleftrightarrow> length code = 12 \<and> list_all code_word code"

definition joinCheck :: "string list \<Rightarrow> int list \<Rightarrow> string list \<Rightarrow> crypto_error + join_check" where
  "joinCheck code hidden given_words =
     (if \<not> code_shape code then Inl INVALID_JOIN_CODE
      else case hidden of
        [first, second] \<Rightarrow>
          if \<not> (0 \<le> first \<and> first \<le> 11 \<and> 0 \<le> second \<and> second \<le> 11) \<or> first \<ge> second then Inl INVALID_HIDDEN
          else if length given_words \<noteq> 2 \<or> list_ex (\<lambda>w. trim w = []) given_words then Inr Incomplete
          else if list_all (\<lambda>(at, w). toLowerCase (trim w) = code ! nat at) (zip hidden given_words) then Inr Match else Inr No_Match
      | _ \<Rightarrow> Inl INVALID_HIDDEN)"

section \<open>A family's escalation (join-session.ts)\<close>

definition NOT_SHOWN :: crypto_error where "NOT_SHOWN = CryptoError ''Compare the join code again.''"
definition TOO_MANY :: crypto_error where
  "TOO_MANY = CryptoError ''Too many join codes were shown for this family. Compare it again later.''"
definition MAX_SHOWN_CODES :: nat where "MAX_SHOWN_CODES = 64"

record issued_code =
  icPositions :: "int \<times> int"
  icHeld :: bool
  icSeq :: nat

record join_family =
  jfTried :: bool
  jfIssued :: "(string \<times> issued_code) list"
  jfSeq :: nat

definition newJoinFamily :: join_family where
  "newJoinFamily = \<lparr> jfTried = False, jfIssued = [], jfSeq = 0 \<rparr>"

text \<open>The earliest shown code no wrong pair holds; of two shown at once, the first.\<close>

definition oldest_free :: "(string \<times> issued_code) list \<Rightarrow> (string \<times> issued_code) option" where
  "oldest_free m = foldl (\<lambda>oldest entry. if icHeld (snd entry) then oldest
     else case oldest of None \<Rightarrow> Some entry
       | Some o1 \<Rightarrow> if icSeq (snd entry) < icSeq (snd o1) then Some entry else oldest) None m"

definition makeRoom :: "join_family \<Rightarrow> crypto_error + join_family" where
  "makeRoom family =
     (if length (jfIssued family) < MAX_SHOWN_CODES then Inr family
      else case oldest_free (jfIssued family) of None \<Rightarrow> Inl TOO_MANY
      | Some (key, _) \<Rightarrow> Inr (family\<lparr> jfIssued := AList.delete key (jfIssued family) \<rparr>))"

definition insert_code :: "string \<Rightarrow> int \<times> int \<Rightarrow> bool \<Rightarrow> join_family \<Rightarrow> join_family" where
  "insert_code key positions is_held family =
     family\<lparr> jfSeq := Suc (jfSeq family),
       jfIssued := AList.update key \<lparr> icPositions = positions, icHeld = is_held, icSeq = Suc (jfSeq family) \<rparr> (jfIssued family) \<rparr>"

fun joined :: "string list \<Rightarrow> string" where
  "joined [] = []"
| "joined [w] = w"
| "joined (w # ws) = w @ CHR '' '' # joined ws"

definition codeKey :: "join_mark \<Rightarrow> string" where
  "codeKey mark = decimal (joinRosterVersion mark) @ CHR '' '' # joined (joinWords mark)"

text \<open>One of 0 to 11 from 32-bit draws, and the draws left.\<close>

definition draw_limit :: nat where "draw_limit = 2 ^ 32 - 2 ^ 32 mod 12"

fun position :: "nat list \<Rightarrow> (int \<times> nat list) option" where
  "position [] = None"
| "position (v # draws) = (if v < draw_limit then Some (int (v mod 12), draws) else position draws)"

text \<open>The loop that draws the second until it is another.\<close>

fun other_position :: "int \<Rightarrow> nat list \<Rightarrow> (int \<times> nat list) option" where
  "other_position first [] = None"
| "other_position first (v # draws) =
     (if v < draw_limit \<and> int (v mod 12) \<noteq> first then Some (int (v mod 12), draws) else other_position first draws)"

definition hiddenPositions :: "nat list \<Rightarrow> ((int \<times> int) \<times> nat list) option" where
  "hiddenPositions draws =
     (case position draws of None \<Rightarrow> None
      | Some (first, draws1) \<Rightarrow>
          (case other_position first draws1 of None \<Rightarrow> None
           | Some (second, draws2) \<Rightarrow> Some (if first < second then (first, second) else (second, first), draws2)))"

definition drawPositions :: "nat list \<Rightarrow> (int \<times> int) option" where
  "drawPositions draws = map_option fst (hiddenPositions draws)"

definition showCode :: "join_family \<Rightarrow> join_mark \<Rightarrow> nat list \<Rightarrow> (crypto_error + (int \<times> int) \<times> join_family) option" where
  "showCode family mark draws =
     (case map_of (jfIssued family) (codeKey mark) of
        Some issued \<Rightarrow> Some (Inr (icPositions issued, family))
      | None \<Rightarrow> (case makeRoom family of Inl e \<Rightarrow> Some (Inl e)
          | Inr family1 \<Rightarrow> (case drawPositions draws of None \<Rightarrow> None
              | Some positions \<Rightarrow> Some (Inr (positions, insert_code (codeKey mark) positions False family1)))))"

definition stillShown :: "join_family option \<Rightarrow> join_mark \<Rightarrow> int list \<Rightarrow> bool" where
  "stillShown family mark hidden =
     (case Option.bind family (\<lambda>f. map_of (jfIssued f) (codeKey mark)) of None \<Rightarrow> False
      | Some issued \<Rightarrow> hidden = [fst (icPositions issued), snd (icPositions issued)])"

definition typedComplete :: "string list \<Rightarrow> bool" where
  "typedComplete given_words \<longleftrightarrow> length given_words = 2 \<and> list_all (\<lambda>w. trim w \<noteq> []) given_words"

datatype join_answer = Matched | Wrong_Words | Mismatch

definition hold_code :: "string \<Rightarrow> bool \<Rightarrow> join_family \<Rightarrow> join_family" where
  "hold_code key is_held family =
     (case map_of (jfIssued family) key of None \<Rightarrow> family
      | Some issued \<Rightarrow> family\<lparr> jfIssued := AList.update key (issued\<lparr> icHeld := is_held \<rparr>) (jfIssued family) \<rparr>)"

definition checkCode :: "join_family \<Rightarrow> join_mark \<Rightarrow> string list \<Rightarrow> crypto_error + join_answer \<times> join_family" where
  "checkCode family mark given_words =
     (case map_of (jfIssued family) (codeKey mark) of None \<Rightarrow> Inl NOT_SHOWN
      | Some issued \<Rightarrow>
          bindE (joinCheck (joinWords mark) [fst (icPositions issued), snd (icPositions issued)] given_words) (\<lambda>answer.
            if answer = Match then Inr (Matched, (hold_code (codeKey mark) False family)\<lparr> jfTried := False \<rparr>)
            else Inr (if icHeld issued \<or> jfTried family then Mismatch else Wrong_Words,
              (hold_code (codeKey mark) True family)\<lparr> jfTried := True \<rparr>)))"

section \<open>What is kept\<close>

record kept_hold =
  khRosterVersion :: nat
  khCode :: "string list"
  khPositions :: "int \<times> int"

record holds_value =
  hvTried :: bool
  hvHeld :: "kept_hold list"

text \<open>\<open>key.split(' ')\<close>, and \<open>Number\<close> of its first part.\<close>

fun split_spaces :: "string \<Rightarrow> string list" where
  "split_spaces [] = [[]]"
| "split_spaces (c # cs) =
     (if c = CHR '' '' then [] # split_spaces cs
      else case split_spaces cs of [] \<Rightarrow> [[c]] | w # ws \<Rightarrow> (c # w) # ws)"

definition number_of :: "string \<Rightarrow> nat" where
  "number_of s = foldl (\<lambda>n c. 10 * n + digit_val c) 0 s"

definition kept_of :: "string \<times> issued_code \<Rightarrow> kept_hold" where
  "kept_of entry = \<lparr> khRosterVersion = number_of (hd (split_spaces (fst entry))), khCode = tl (split_spaces (fst entry)),
     khPositions = icPositions (snd entry) \<rparr>"

text \<open>\<open>holdsValue\<close>: by roster version, then by code (\<open>compareLists\<close> on ASCII words: element by element, then by
  length); both sorts keep the order of equals.\<close>

definition holdsValue :: "join_family option \<Rightarrow> holds_value option" where
  "holdsValue family =
     (case family of None \<Rightarrow> None
      | Some f \<Rightarrow>
          let kept = map kept_of (filter (\<lambda>(_, issued). icHeld issued) (jfIssued f)) in
          if \<not> jfTried f \<and> kept = [] then None
          else Some \<lparr> hvTried = jfTried f, hvHeld = sort_key khRosterVersion (sort_key khCode kept) \<rparr>)"

text \<open>A kept value as it is read back: anything at all. \<open>kvTried\<close> is whether the member is exactly \<open>true\<close>,
  \<open>kvHeld\<close> the array (\<open>None\<close> where it is none), an entry that is no object \<open>None\<close>.\<close>

record kept_entry =
  keRosterVersion :: json
  keCode :: json
  kePositions :: json

record kept_value =
  kvVersion :: json
  kvTried :: bool
  kvHeld :: "kept_entry option list option"

fun read_code :: "json \<Rightarrow> string list option" where
  "read_code (JArr js) =
     (if list_all (\<lambda>j. case j of JStr _ \<Rightarrow> True | _ \<Rightarrow> False) js
      then let code = map (\<lambda>j. case j of JStr w \<Rightarrow> w | _ \<Rightarrow> []) js in if code_shape code then Some code else None
      else None)"
| "read_code _ = None"

fun read_positions :: "json \<Rightarrow> (int \<times> int) option" where
  "read_positions (JArr [JNum a, JNum b]) =
     (if 0 \<le> a \<and> a \<le> 0xffffffff \<and> 0 \<le> b \<and> b \<le> 0xffffffff \<and> a < b \<and> b \<le> 11 then Some (a, b) else None)"
| "read_positions _ = None"

definition read_entry :: "kept_entry option \<Rightarrow> (join_mark \<times> int \<times> int) option" where
  "read_entry entry =
     (case entry of None \<Rightarrow> None
      | Some e \<Rightarrow>
          (case (keRosterVersion e, read_code (keCode e), read_positions (kePositions e)) of
             (JNum v, Some code, Some positions) \<Rightarrow>
               if isSafeInteger v \<and> 1 \<le> v
               then Some (\<lparr> joinRosterVersion = nat v, joinWords = code \<rparr>, positions) else None
           | _ \<Rightarrow> None))"

definition restore_entry :: "kept_entry option \<Rightarrow> join_family \<Rightarrow> join_family" where
  "restore_entry entry family =
     (case read_entry entry of None \<Rightarrow> family
      | Some (mark, positions) \<Rightarrow>
          (case map_of (jfIssued family) (codeKey mark) of
             Some issued \<Rightarrow>
               if icHeld issued then family
               else family\<lparr> jfIssued := AList.update (codeKey mark) (issued\<lparr> icPositions := positions, icHeld := True \<rparr>) (jfIssued family) \<rparr>
           | None \<Rightarrow> (case makeRoom family of Inl _ \<Rightarrow> family
               | Inr family1 \<Rightarrow> insert_code (codeKey mark) positions True family1)))"

text \<open>\<open>None\<close> where the value is no object.\<close>

definition restoreHolds :: "join_family \<Rightarrow> kept_value option \<Rightarrow> join_family" where
  "restoreHolds family kept =
     (case kept of None \<Rightarrow> family
      | Some value \<Rightarrow>
          if kvVersion value \<noteq> JNum 1 then family
          else let family1 = (if kvTried value then family\<lparr> jfTried := True \<rparr> else family) in
            (case kvHeld value of None \<Rightarrow> family1 | Some entries \<Rightarrow> fold restore_entry entries family1))"

text \<open>A value as \<open>holdsValue\<close> writes it, read back.\<close>

definition written_entry :: "kept_hold \<Rightarrow> kept_entry option" where
  "written_entry h = Some \<lparr> keRosterVersion = JNum (int (khRosterVersion h)), keCode = JArr (map JStr (khCode h)),
     kePositions = JArr [JNum (fst (khPositions h)), JNum (snd (khPositions h))] \<rparr>"

definition written_value :: "holds_value \<Rightarrow> kept_value" where
  "written_value value = \<lparr> kvVersion = JNum 1, kvTried = hvTried value, kvHeld = Some (map written_entry (hvHeld value)) \<rparr>"

section \<open>Lemmas: draws\<close>

lemma limit_is: "draw_limit = 12 * 357913941" by (simp add: draw_limit_def)

lemma position_Some:
  "position draws = Some (p, rest) \<Longrightarrow> 0 \<le> p \<and> p \<le> 11 \<and> (\<exists>skipped v. draws = skipped @ v # rest \<and> v < draw_limit \<and> p = int (v mod 12))"
proof (induction draws)
  case (Cons v draws)
  show ?case
  proof (cases "v < draw_limit")
    case True
    then have "p = int (v mod 12)" "rest = draws" using Cons.prems by simp_all
    moreover have "v mod 12 \<le> 11" using mod_less_divisor [of 12 v] by linarith
    ultimately show ?thesis using True by (auto intro: exI [of _ "[]"])
  next
    case False
    with Cons show ?thesis by (auto intro: exI [of _ "v # _"])
  qed
qed simp

lemma other_position_Some:
  "other_position first draws = Some (p, rest) \<Longrightarrow> 0 \<le> p \<and> p \<le> 11 \<and> p \<noteq> first"
proof (induction draws)
  case (Cons v draws)
  have "v mod 12 \<le> 11" using mod_less_divisor [of 12 v] by linarith
  with Cons show ?case by (auto split: if_splits)
qed simp

lemma hiddenPositions_Some:
  "hiddenPositions draws = Some ((a, b), rest) \<Longrightarrow> 0 \<le> a \<and> a < b \<and> b \<le> 11"
  by (auto simp: hiddenPositions_def split: option.splits if_splits dest!: position_Some other_position_Some)

lemma residue_class:
  assumes "r < (12::nat)"
  shows "{v. v < draw_limit \<and> v mod 12 = r} = (\<lambda>k. 12 * k + r) ` {..<357913941}"
proof (intro equalityI subsetI)
  fix v assume "v \<in> {v. v < draw_limit \<and> v mod 12 = r}"
  then have v: "v < 12 * 357913941" "v mod 12 = r" unfolding limit_is by simp_all
  have "v = 12 * (v div 12) + r" using v(2) by (metis mult_div_mod_eq)
  moreover have "v div 12 < 357913941" using v(1) by (simp add: less_mult_imp_div_less mult.commute)
  ultimately show "v \<in> (\<lambda>k. 12 * k + r) ` {..<357913941}" by blast
next
  fix v assume "v \<in> (\<lambda>k. 12 * k + r) ` {..<357913941}"
  then obtain k where "v = 12 * k + r" "k < 357913941" by blast
  with assms show "v \<in> {v. v < draw_limit \<and> v mod 12 = r}" unfolding limit_is by simp
qed

lemma residue_card:
  assumes "r < 12"
  shows "card {v. v < draw_limit \<and> v mod 12 = r} = 357913941"
proof -
  have "card ((\<lambda>k. 12 * k + r) ` {..<357913941 :: nat}) = card {..<357913941 :: nat}"
    by (rule card_image) (simp add: inj_on_def)
  then show ?thesis unfolding residue_class [OF assms] card_lessThan .
qed

end
