(* ===== verification/Join_Rules.thy ===== *)
theory Join_Rules
  imports Join_Session
begin

text \<open>
  What the compared join code promises, whatever a device shows, checks, keeps and reads back: the runs of a
  family's escalation, its well-formedness, and the properties of \<open>join-session.ts\<close>.
\<close>

section \<open>Runs\<close>

text \<open>The words of a mark compared are those of an accepted roster, whose version is one.\<close>

inductive join_step :: "join_family \<Rightarrow> (string \<times> join_answer) option \<Rightarrow> join_family \<Rightarrow> bool" where
  shown: "is_version (joinRosterVersion mark) \<Longrightarrow> showCode f mark draws = Some (Inr (positions, g)) \<Longrightarrow> join_step f None g"
| checked: "is_version (joinRosterVersion mark) \<Longrightarrow> checkCode f mark given_words = Inr (answer, g)
    \<Longrightarrow> join_step f (Some (codeKey mark, answer)) g"
| restored: "join_step f None (restoreHolds f kept)"

text \<open>A run, and the answers given in it.\<close>

inductive join_run :: "join_family \<Rightarrow> (string \<times> join_answer) list \<Rightarrow> join_family \<Rightarrow> bool" where
  start: "join_run f [] f"
| onward: "join_run f answers g \<Longrightarrow> join_step g answer h
    \<Longrightarrow> join_run f (answers @ (case answer of None \<Rightarrow> [] | Some a \<Rightarrow> [a])) h"

text \<open>The positions a wrong pair holds for a code.\<close>

definition held_at :: "join_family \<Rightarrow> string \<Rightarrow> (int \<times> int) option" where
  "held_at f key = Option.bind (map_of (jfIssued f) key) (\<lambda>i. if icHeld i then Some (icPositions i) else None)"

fun hidden_ok :: "int \<times> int \<Rightarrow> bool" where
  "hidden_ok (a, b) \<longleftrightarrow> 0 \<le> a \<and> a < b \<and> b \<le> 11"

definition code_of :: "string \<Rightarrow> join_mark \<Rightarrow> bool" where
  "code_of key mark \<longleftrightarrow> key = codeKey mark \<and> is_version (joinRosterVersion mark) \<and> code_shape (joinWords mark)"

text \<open>Codes are distinct and in the order they were shown, at most 64; what a wrong pair holds is a code.\<close>

definition join_wf :: "join_family \<Rightarrow> bool" where
  "join_wf f \<longleftrightarrow> distinct (map fst (jfIssued f)) \<and> length (jfIssued f) \<le> MAX_SHOWN_CODES
     \<and> sorted_wrt (<) (map (\<lambda>e. icSeq (snd e)) (jfIssued f))
     \<and> (\<forall>(key, i) \<in> set (jfIssued f). icSeq i \<le> jfSeq f \<and> hidden_ok (icPositions i) \<and> (icHeld i \<longrightarrow> (\<exists>mark. code_of key mark)))"

section \<open>Association lists\<close>

lemma update_values:
  assumes "map_of m k = Some v"
  shows "map fst (AList.update k w m) = map fst m" "length (AList.update k w m) = length m"
    "q w = q v \<Longrightarrow> map (\<lambda>e. q (snd e)) (AList.update k w m) = map (\<lambda>e. q (snd e)) m"
    "e \<in> set (AList.update k w m) \<Longrightarrow> e = (k, w) \<or> e \<in> set m"
  using assms by (induction m) (auto split: if_splits)

lemma delete_filter: "AList.delete k m = filter (\<lambda>e. fst e \<noteq> k) m"
  by (simp add: AList.delete_eq case_prod_beta' eq_commute)

lemma delete_length: "map_of m k = Some v \<Longrightarrow> length (AList.delete k m) < length m"
  by (induction m) (auto simp: delete_filter less_Suc_eq_le)

section \<open>Room for one more code\<close>

lemma oldest_fold:
  "\<forall>e \<in> set m. icSeq (snd o1) < icSeq (snd e) \<Longrightarrow>
     foldl (\<lambda>oldest entry. if icHeld (snd entry) then oldest
       else case oldest of None \<Rightarrow> Some entry
         | Some o1 \<Rightarrow> if icSeq (snd entry) < icSeq (snd o1) then Some entry else oldest) (Some o1) m = Some o1"
  by (induction m) auto

text \<open>The first of the map that no wrong pair holds is the earliest shown.\<close>

lemma oldest_is_first:
  "sorted_wrt (<) (map (\<lambda>e. icSeq (snd e)) m) \<Longrightarrow> oldest_free m = find (\<lambda>e. \<not> icHeld (snd e)) m"
  by (induction m) (auto simp: oldest_free_def oldest_fold)

lemma oldest_free_in: "oldest_free m = Some e \<Longrightarrow> e \<in> set m \<and> \<not> icHeld (snd e)"
proof (induction m arbitrary: e rule: rev_induct)
  case (snoc x m)
  then show ?case by (auto simp: oldest_free_def split: if_splits option.splits)
qed (simp add: oldest_free_def)

lemma makeRoom_cases:
  assumes "makeRoom f = Inr g"
  obtains (same) "g = f" "length (jfIssued f) < MAX_SHOWN_CODES"
  | (dropped) key i where "g = f\<lparr> jfIssued := AList.delete key (jfIssued f) \<rparr>" "(key, i) \<in> set (jfIssued f)" "\<not> icHeld i"
  using assms by (auto simp: makeRoom_def split: if_splits option.splits prod.splits dest!: oldest_free_in)

lemma makeRoom_wf:
  assumes "join_wf f" "makeRoom f = Inr g"
  shows "join_wf g" "length (jfIssued g) < MAX_SHOWN_CODES" "held_at g = held_at f" "jfTried g = jfTried f"
    "map_of (jfIssued f) k = None \<Longrightarrow> map_of (jfIssued g) k = None"
proof -
  have "join_wf g \<and> length (jfIssued g) < MAX_SHOWN_CODES \<and> held_at g = held_at f \<and> jfTried g = jfTried f
    \<and> (map_of (jfIssued f) k = None \<longrightarrow> map_of (jfIssued g) k = None)"
    using assms(2)
  proof (cases rule: makeRoom_cases)
    case (dropped key i)
    have d: "distinct (map fst (jfIssued f))" using assms(1) by (simp add: join_wf_def)
    then have m: "map_of (jfIssued f) key = Some i" using dropped(2) by simp
    have "length (jfIssued f) \<le> MAX_SHOWN_CODES" using assms(1) by (simp add: join_wf_def)
    with delete_length [OF m] have l: "length (jfIssued g) < MAX_SHOWN_CODES" by (simp add: dropped(1))
    moreover have "join_wf g" using assms(1) l
      by (auto simp: join_wf_def dropped(1) delete_filter distinct_map_filter sorted_wrt_map sorted_wrt_filter)
    moreover have "held_at g = held_at f"
      by (rule ext) (auto simp: held_at_def dropped(1,3) m AList.delete_conv' split: option.split)
    ultimately show ?thesis by (simp add: dropped(1) AList.delete_conv')
  qed (use assms(1) in auto)
  then show "join_wf g" "length (jfIssued g) < MAX_SHOWN_CODES" "held_at g = held_at f" "jfTried g = jfTried f"
    "map_of (jfIssued f) k = None \<Longrightarrow> map_of (jfIssued g) k = None" by simp_all
qed

lemma insert_wf:
  assumes "join_wf f" "length (jfIssued f) < MAX_SHOWN_CODES" "map_of (jfIssued f) key = None" "hidden_ok p"
    and "is_held \<Longrightarrow> code_of key mark"
  shows "join_wf (insert_code key p is_held f)"
    "held_at (insert_code key p is_held f) = (held_at f)(key := if is_held then Some p else None)"
    "jfTried (insert_code key p is_held f) = jfTried f"
proof -
  have k: "key \<notin> fst ` set (jfIssued f)" using assms(3) by (simp add: map_of_eq_None_iff)
  show "join_wf (insert_code key p is_held f)" using assms k
    by (fastforce simp: join_wf_def insert_code_def update_absent sorted_wrt_append)
  show "held_at (insert_code key p is_held f) = (held_at f)(key := if is_held then Some p else None)"
    by (rule ext) (auto simp: held_at_def insert_code_def map_of_alist_update)
qed (simp add: insert_code_def)

section \<open>Every step\<close>

lemma drawn_ok: "drawPositions draws = Some p \<Longrightarrow> hidden_ok p"
  by (cases p) (auto simp: drawPositions_def dest: hiddenPositions_Some)

lemma showCode_step:
  assumes "join_wf f" "showCode f mark draws = Some (Inr (p, g))"
  shows "join_wf g" "held_at g = held_at f" "jfTried g = jfTried f"
proof -
  have *: "join_wf g \<and> held_at g = held_at f \<and> jfTried g = jfTried f"
  proof (cases "map_of (jfIssued f) (codeKey mark)")
    case None
    with assms(2) obtain f1 where f1: "makeRoom f = Inr f1" "drawPositions draws = Some p"
      "g = insert_code (codeKey mark) p False f1" by (auto simp: showCode_def split: sum.splits option.splits)
    note r = makeRoom_wf [OF assms(1) f1(1)]
    have "map_of (jfIssued f1) (codeKey mark) = None" by (rule r(5) [OF None])
    note i = insert_wf [OF r(1,2) this drawn_ok [OF f1(2)], of False]
    have "held_at f1 (codeKey mark) = None" using r(5) [OF None] by (simp add: held_at_def)
    then show ?thesis using i r by (simp add: f1(3) fun_upd_idem)
  qed (use assms in \<open>auto simp: showCode_def\<close>)
  then show "join_wf g" "held_at g = held_at f" "jfTried g = jfTried f" by simp_all
qed

lemma hold_wf:
  assumes "join_wf f" "map_of (jfIssued f) key = Some i" "hidden_ok p" "is_held \<Longrightarrow> code_of key mark"
  shows "join_wf (f\<lparr> jfIssued := AList.update key (i\<lparr> icPositions := p, icHeld := is_held \<rparr>) (jfIssued f) \<rparr>)"
    "held_at (f\<lparr> jfIssued := AList.update key (i\<lparr> icPositions := p, icHeld := is_held \<rparr>) (jfIssued f) \<rparr>)
      = (held_at f)(key := if is_held then Some p else None)"
proof -
  note u = update_values [OF assms(2)]
  have "(key, i) \<in> set (jfIssued f)" using assms(2) by (rule map_of_SomeD)
  with assms(1) have "icSeq i \<le> jfSeq f" by (auto simp: join_wf_def)
  then show "join_wf (f\<lparr> jfIssued := AList.update key (i\<lparr> icPositions := p, icHeld := is_held \<rparr>) (jfIssued f) \<rparr>)"
    using assms(1,3,4) by (auto simp: join_wf_def u dest!: u(4))
  show "held_at (f\<lparr> jfIssued := AList.update key (i\<lparr> icPositions := p, icHeld := is_held \<rparr>) (jfIssued f) \<rparr>)
      = (held_at f)(key := if is_held then Some p else None)"
    by (rule ext) (auto simp: held_at_def map_of_alist_update)
qed

lemma tried_wf [simp]: "join_wf (f\<lparr> jfTried := t \<rparr>) = join_wf f" "held_at (f\<lparr> jfTried := t \<rparr>) = held_at f"
  by (simp add: join_wf_def) (rule ext, simp add: held_at_def)

text \<open>An answer: what it says, and what it leaves held.\<close>

lemma checkCode_step:
  assumes "join_wf f" "is_version (joinRosterVersion mark)" "checkCode f mark given_words = Inr (answer, g)"
  obtains p where "join_wf g" "code_of (codeKey mark) mark" "held_at g = (held_at f)(codeKey mark := if answer = Matched then None else Some p)"
    "jfTried g \<longleftrightarrow> answer \<noteq> Matched" "answer = Wrong_Words \<Longrightarrow> \<not> jfTried f \<and> held_at f (codeKey mark) = None"
    "map_option icPositions (map_of (jfIssued f) (codeKey mark)) = Some p"
proof -
  from assms(3) obtain i where i: "map_of (jfIssued f) (codeKey mark) = Some i"
    by (auto simp: checkCode_def split: option.splits)
  with assms(3) obtain result where j: "joinCheck (joinWords mark) [fst (icPositions i), snd (icPositions i)] given_words = Inr result"
    by (auto simp: checkCode_def returns)
  then have "code_shape (joinWords mark)" by (simp add: joinCheck_def split: if_splits)
  with assms(2) have c: "code_of (codeKey mark) mark" by (simp add: code_of_def)
  have "(codeKey mark, i) \<in> set (jfIssued f)" using i by (rule map_of_SomeD)
  with assms(1) have "hidden_ok (icPositions i)" by (auto simp: join_wf_def)
  note h = hold_wf [OF assms(1) i this, of "answer \<noteq> Matched" mark]
  have g: "g = (f\<lparr> jfIssued := AList.update (codeKey mark) (i\<lparr> icPositions := icPositions i, icHeld := answer \<noteq> Matched \<rparr>) (jfIssued f) \<rparr>)
      \<lparr> jfTried := answer \<noteq> Matched \<rparr>"
    and a: "answer = Wrong_Words \<Longrightarrow> \<not> icHeld i \<and> \<not> jfTried f"
    using assms(3) i j by (auto simp: checkCode_def hold_code_def split: if_splits)
  show thesis
  proof (rule that [of "icPositions i"])
    show "join_wf g" using h(1) c by (simp add: g)
    show "held_at g = (held_at f)(codeKey mark := if answer = Matched then None else Some (icPositions i))" using h(2) c by (auto simp: g)
    show "answer = Wrong_Words \<Longrightarrow> \<not> jfTried f \<and> held_at f (codeKey mark) = None" using a i by (simp add: held_at_def)
  qed (simp_all add: g c i)
qed

lemma read_entry_ok: "read_entry e = Some (mark, p) \<Longrightarrow> code_of (codeKey mark) mark \<and> hidden_ok p"
  by (auto simp: Let_def read_entry_def code_of_def is_version_def isSafeInteger_def split: option.splits json.splits if_splits
      elim!: read_code.elims read_positions.elims)

text \<open>What is read back only ever holds more.\<close>

lemma restore_entry_step:
  assumes "join_wf f"
  shows "join_wf (restore_entry e f)" "jfTried (restore_entry e f) = jfTried f"
    "held_at f key = Some p \<Longrightarrow> held_at (restore_entry e f) key = Some p"
proof -
  have *: "join_wf (restore_entry e f) \<and> jfTried (restore_entry e f) = jfTried f
    \<and> (held_at f key = Some p \<longrightarrow> held_at (restore_entry e f) key = Some p)"
  proof (cases "read_entry e")
    case (Some r)
    obtain mark q where r: "r = (mark, q)" by (cases r)
    note ok = read_entry_ok [OF Some [unfolded r]]
    show ?thesis
    proof (cases "map_of (jfIssued f) (codeKey mark)")
      case None
      note new = None
      show ?thesis
      proof (cases "makeRoom f")
        case (Inr f1)
        note m = makeRoom_wf [OF assms Inr]
        note i = insert_wf [OF m(1,2) m(5) [OF new], of q True mark]
        have "held_at f (codeKey mark) = None" by (simp add: held_at_def new)
        then show ?thesis using i ok m by (auto simp: restore_entry_def Some r new Inr)
      qed (use assms in \<open>simp add: restore_entry_def Some r new\<close>)
    next
      case (Some i)
      note h = hold_wf [OF assms Some, of q True mark]
      show ?thesis
      proof (cases "icHeld i")
        case False
        then have "held_at f (codeKey mark) = None" by (simp add: held_at_def Some)
        with h ok False show ?thesis using \<open>read_entry e = Some r\<close> by (auto simp: restore_entry_def r Some)
      qed (use assms Some \<open>read_entry e = Some r\<close> in \<open>simp add: restore_entry_def r\<close>)
    qed
  qed (use assms in \<open>simp add: restore_entry_def\<close>)
  then show "join_wf (restore_entry e f)" "jfTried (restore_entry e f) = jfTried f"
    "held_at f key = Some p \<Longrightarrow> held_at (restore_entry e f) key = Some p" by simp_all
qed

lemma restore_entries:
  assumes "join_wf f"
  shows "join_wf (fold restore_entry es f)" "jfTried (fold restore_entry es f) = jfTried f"
    "held_at f key = Some p \<Longrightarrow> held_at (fold restore_entry es f) key = Some p"
  using assms by (induction es arbitrary: f) (simp_all add: restore_entry_step)

lemma restoreHolds_step:
  assumes "join_wf f"
  shows "join_wf (restoreHolds f kept)" "jfTried f \<Longrightarrow> jfTried (restoreHolds f kept)"
    "held_at f key = Some p \<Longrightarrow> held_at (restoreHolds f kept) key = Some p"
  using assms by (auto simp: restoreHolds_def Let_def restore_entries split: option.split)

lemma join_step_wf: "join_step f answer g \<Longrightarrow> join_wf f \<Longrightarrow> join_wf g"
  by (cases rule: join_step.cases) (auto dest: showCode_step(1) restoreHolds_step(1) elim: checkCode_step)

interpretation joins: machine "\<lambda>f g. \<exists>answer. join_step f answer g" join_wf
  by unfold_locales (auto intro: join_step_wf)

lemma run_reaches: "join_run f answers g \<Longrightarrow> (\<lambda>f g. \<exists>answer. join_step f answer g)\<^sup>*\<^sup>* f g"
  by (induction rule: join_run.induct) (auto intro: rtranclp.rtrancl_into_rtrancl)

lemma new_wf: "join_wf newJoinFamily" "held_at newJoinFamily = Map.empty"
  by (simp add: join_wf_def newJoinFamily_def) (rule ext, simp add: held_at_def newJoinFamily_def)

lemma run_wf: "join_run newJoinFamily answers f \<Longrightarrow> join_wf f"
  using joins.reached [OF run_reaches] new_wf by blast

text \<open>A step that is no match leaves the wrong pair and what it holds.\<close>

lemma join_step_keeps:
  assumes "join_step f answer g" "join_wf f"
  shows "answer \<noteq> Some (key, Matched) \<Longrightarrow> held_at f key = Some p \<Longrightarrow> held_at g key = Some p"
    "\<forall>k. answer \<noteq> Some (k, Matched) \<Longrightarrow> jfTried f \<Longrightarrow> jfTried g"
proof -
  have "(answer \<noteq> Some (key, Matched) \<longrightarrow> held_at f key = Some p \<longrightarrow> held_at g key = Some p)
    \<and> ((\<forall>k. answer \<noteq> Some (k, Matched)) \<longrightarrow> jfTried f \<longrightarrow> jfTried g)"
    using assms(1)
  proof cases
    case (checked mark given_words result)
    obtain q where q: "held_at g = (held_at f)(codeKey mark := if result = Matched then None else Some q)" "jfTried g \<longleftrightarrow> result \<noteq> Matched"
      "map_option icPositions (map_of (jfIssued f) (codeKey mark)) = Some q"
      using checkCode_step [OF assms(2) checked(2,3)] by metis
    then have "held_at f (codeKey mark) = Some p \<Longrightarrow> p = q" by (auto simp: held_at_def split: if_splits bind_splits)
    with q checked(1) show ?thesis by auto
  qed (use assms(2) in \<open>auto simp: showCode_step restoreHolds_step\<close>)
  then show "answer \<noteq> Some (key, Matched) \<Longrightarrow> held_at f key = Some p \<Longrightarrow> held_at g key = Some p"
    "\<forall>k. answer \<noteq> Some (k, Matched) \<Longrightarrow> jfTried f \<Longrightarrow> jfTried g" by blast+
qed

lemma run_keeps:
  "join_run f answers g \<Longrightarrow> join_wf f \<Longrightarrow> (key, Matched) \<notin> set answers \<Longrightarrow> held_at f key = Some p \<Longrightarrow> held_at g key = Some p"
proof (induction rule: join_run.induct)
  case (onward f answers g answer h)
  have "join_wf g" using joins.reached [OF run_reaches [OF onward.hyps(1)]] onward.prems(1) by blast
  with onward join_step_keeps(1) [OF onward.hyps(2), of key p] show ?case by (cases answer) auto
qed

lemma run_stays_tried:
  "join_run f answers g \<Longrightarrow> join_wf f \<Longrightarrow> Matched \<notin> snd ` set answers \<Longrightarrow> jfTried f \<or> answers \<noteq> [] \<Longrightarrow> jfTried g"
proof (induction rule: join_run.induct)
  case (onward f answers g answer h)
  have g: "join_wf g" using joins.reached [OF run_reaches [OF onward.hyps(1)]] onward.prems(1) by blast
  show ?case
  proof (cases "jfTried g")
    case True
    have "\<forall>k. answer \<noteq> Some (k, Matched)" using onward.prems(2) by (auto split: option.splits)
    then show ?thesis using join_step_keeps(2) [OF onward.hyps(2) g] True by blast
  next
    case False
    with onward have "answers = []" "\<not> jfTried f" by auto
    with onward.prems obtain a where a: "answer = Some a" by (cases answer) auto
    with onward.prems have m: "snd a \<noteq> Matched" by auto
    from onward.hyps(2) show ?thesis unfolding a
    proof cases
      case (checked mark given_words result)
      with m checkCode_step [OF g checked(2,3)] show ?thesis by (metis snd_conv)
    qed
  qed
qed simp

section \<open>What is kept, read back\<close>

lemma split_word: "CHR '' '' \<notin> set w \<Longrightarrow> split_spaces w = [w]"
  by (induction w) auto

lemma split_first: "CHR '' '' \<notin> set w \<Longrightarrow> split_spaces (w @ CHR '' '' # r) = w # split_spaces r"
  by (induction w) auto

lemma split_joined: "ws \<noteq> [] \<Longrightarrow> \<forall>w \<in> set ws. CHR '' '' \<notin> set w \<Longrightarrow> split_spaces (joined ws) = ws"
  by (induction ws rule: joined.induct) (simp_all add: split_word split_first)

lemma code_key_splits:
  assumes "code_of key mark"
  shows "number_of (hd (split_spaces key)) = joinRosterVersion mark" "tl (split_spaces key) = joinWords mark"
proof -
  have "\<not> is_digit CHR '' ''" by (simp add: is_digit_def)
  then have "CHR '' '' \<notin> set (decimal (joinRosterVersion mark))"
    using decimal_digits [of "joinRosterVersion mark"] by (auto simp: list_all_iff)
  moreover have "split_spaces (joined (joinWords mark)) = joinWords mark"
    using assms by (intro split_joined) (fastforce simp: code_of_def code_shape_def code_word_def list_all_iff)+
  ultimately show "number_of (hd (split_spaces key)) = joinRosterVersion mark" "tl (split_spaces key) = joinWords mark"
    using assms by (simp_all add: code_of_def codeKey_def split_first number_of_def decimal_value)
qed

lemma kept_reads:
  assumes "code_of key mark" "hidden_ok (icPositions i)"
  shows "read_entry (written_entry (kept_of (key, i))) = Some (mark, icPositions i)"
proof -
  have s: "code_shape (joinWords mark)" "is_version (joinRosterVersion mark)" using assms(1) by (simp_all add: code_of_def)
  obtain a b where p: "icPositions i = (a, b)" by (cases "icPositions i")
  have "list_all (\<lambda>j. case j of JStr _ \<Rightarrow> True | _ \<Rightarrow> False) (map JStr (joinWords mark))"
    "map (\<lambda>j. case j of JStr w \<Rightarrow> w | _ \<Rightarrow> []) (map JStr (joinWords mark)) = joinWords mark"
    by (simp_all add: list_all_iff comp_def)
  then have "read_code (JArr (map JStr (joinWords mark))) = Some (joinWords mark)" using s(1) by (simp add: Let_def del: map_map)
  then show ?thesis using s(2) assms(2)
    by (simp add: read_entry_def written_entry_def kept_of_def code_key_splits [OF assms(1)] p is_version_def isSafeInteger_def)
qed

lemma same_option: "(\<And>p. x = Some p \<longleftrightarrow> y = Some p) \<Longrightarrow> x = y"
  by (cases x; cases y) auto

lemma sorted_distinct: "distinct (map g (sort_key k xs)) \<longleftrightarrow> distinct (map g xs)"
  by (simp add: distinct_map)

lemma restored_all:
  "map read_entry es = map Some rs \<Longrightarrow> distinct (map (\<lambda>r. codeKey (fst r)) rs) \<Longrightarrow> join_wf g
     \<Longrightarrow> \<forall>r \<in> set rs. map_of (jfIssued g) (codeKey (fst r)) = None \<Longrightarrow> length (jfIssued g) + length rs \<le> MAX_SHOWN_CODES
     \<Longrightarrow> held_at (fold restore_entry es g) = held_at g ++ map_of (map (\<lambda>r. (codeKey (fst r), snd r)) rs)"
proof (induction rs arbitrary: es g)
  case (Cons r rs)
  then obtain e es' where es: "es = e # es'" "read_entry e = Some r" "map read_entry es' = map Some rs" by auto
  obtain mark p where r: "r = (mark, p)" by (cases r)
  note ok = read_entry_ok [OF es(2) [unfolded r]]
  have n: "map_of (jfIssued g) (codeKey mark) = None" and l: "length (jfIssued g) < MAX_SHOWN_CODES" using Cons.prems(4,5) r by auto
  let ?g = "insert_code (codeKey mark) p True g"
  have k: "codeKey mark \<notin> fst ` set (jfIssued g)" using n by (simp add: map_of_eq_None_iff)
  have g: "restore_entry e g = ?g" using n l es(2) by (simp add: restore_entry_def r makeRoom_def)
  note i = insert_wf [OF Cons.prems(3) l n, of p True mark]
  have "held_at (fold restore_entry es' ?g) = held_at ?g ++ map_of (map (\<lambda>r. (codeKey (fst r), snd r)) rs)"
  proof (rule Cons.IH [OF es(3)])
    show "distinct (map (\<lambda>r. codeKey (fst r)) rs)" "join_wf ?g" using Cons.prems(2) i(1) ok by auto
    have "codeKey mark \<noteq> codeKey (fst r')" if "r' \<in> set rs" for r' using Cons.prems(2) that by (auto simp: r)
    then have "\<forall>r' \<in> set rs. codeKey (fst r') \<noteq> codeKey mark" by metis
    then show "\<forall>r \<in> set rs. map_of (jfIssued ?g) (codeKey (fst r)) = None"
      using Cons.prems(4) by (auto simp: insert_code_def map_of_alist_update)
    show "length (jfIssued ?g) + length rs \<le> MAX_SHOWN_CODES" using Cons.prems(5) k by (simp add: insert_code_def update_absent)
  qed
  moreover have "codeKey mark \<notin> (\<lambda>r. codeKey (fst r)) ` set rs" using Cons.prems(2) by (simp add: r)
  then have "codeKey mark \<notin> dom (map_of (map (\<lambda>r. (codeKey (fst r), snd r)) rs))"
    by (simp add: dom_map_of_conv_image_fst image_image)
  ultimately show ?case using i(2) ok by (auto simp: es(1) g r fun_eq_iff map_add_def split: option.split)
qed simp

text \<open>The entries held, in the order they are kept.\<close>

lemma holds_restored:
  assumes wf: "join_wf f" and v: "holdsValue (Some f) = Some kept"
  shows "held_at (restoreHolds newJoinFamily (Some (written_value kept))) = held_at f"
    "jfTried (restoreHolds newJoinFamily (Some (written_value kept))) = jfTried f"
proof -
  let ?held = "filter (\<lambda>(_, issued). icHeld issued) (jfIssued f)" and ?new = "newJoinFamily\<lparr> jfTried := jfTried f \<rparr>"
  let ?sort = "\<lambda>hs. sort_key khRosterVersion (sort_key khCode hs)" and ?read = "\<lambda>h. the (read_entry (written_entry h))"
  have kv: "hvTried kept = jfTried f" "hvHeld kept = ?sort (map kept_of ?held)"
    using v by (auto simp: holdsValue_def Let_def split: if_splits)
  have new: "join_wf ?new" "held_at ?new = Map.empty" "jfIssued ?new = []"
    by (simp_all add: new_wf) (simp add: newJoinFamily_def)
  have e: "read_entry (written_entry (kept_of e)) \<noteq> None \<and> codeKey (fst (?read (kept_of e))) = fst e \<and> snd (?read (kept_of e)) = icPositions (snd e)"
    if "e \<in> set ?held" for e
  proof -
    obtain key i where ki: "e = (key, i)" by (cases e)
    with that wf obtain mark where "code_of key mark" "hidden_ok (icPositions i)" by (auto simp: join_wf_def)
    then show ?thesis using kept_reads [of key mark i] by (simp add: ki code_of_def)
  qed
  let ?rs = "map ?read (hvHeld kept)" and ?es = "map written_entry (hvHeld kept)"
  have m: "map read_entry ?es = map Some ?rs" using e by (auto simp: kv)
  have keys: "map (\<lambda>e. codeKey (fst (?read (kept_of e)))) ?held = map fst ?held" using e by (intro map_cong) auto
  have d: "distinct (map fst ?held)" using wf by (simp add: join_wf_def distinct_map_filter)
  then have "distinct (map (\<lambda>h. codeKey (fst (?read h))) (map kept_of ?held))"
    unfolding map_map comp_def keys .
  then have "distinct (map (\<lambda>h. codeKey (fst (?read h))) (hvHeld kept))" unfolding kv sorted_distinct .
  then have dr: "distinct (map (\<lambda>r. codeKey (fst r)) ?rs)" by (simp add: comp_def)
  have len: "length (jfIssued ?new) + length ?rs \<le> MAX_SHOWN_CODES"
    using wf order_trans [OF length_filter_le, of "jfIssued f" MAX_SHOWN_CODES] by (simp add: kv new join_wf_def)
  have "held_at (fold restore_entry ?es ?new) = held_at ?new ++ map_of (map (\<lambda>r. (codeKey (fst r), snd r)) ?rs)"
    by (rule restored_all [OF m dr new(1) _ len]) (simp add: new)
  moreover have "map_of (map (\<lambda>r. (codeKey (fst r), snd r)) ?rs) key = held_at f key" for key
  proof -
    have "map_of (map (\<lambda>r. (codeKey (fst r), snd r)) ?rs) key = Some p \<longleftrightarrow> (key, p) \<in> set (map (\<lambda>r. (codeKey (fst r), snd r)) ?rs)" for p
      using dr by (intro map_of_eq_Some_iff) (simp add: comp_def)
    moreover have "set (map (\<lambda>r. (codeKey (fst r), snd r)) ?rs) = (\<lambda>e. (fst e, icPositions (snd e))) ` set ?held"
      unfolding kv set_map set_sort image_image using e by (intro image_cong refl) auto
    moreover have "(key, p) \<in> (\<lambda>e. (fst e, icPositions (snd e))) ` set ?held \<longleftrightarrow> held_at f key = Some p" for p
    proof -
      have "map_of (jfIssued f) key = Some i \<longleftrightarrow> (key, i) \<in> set (jfIssued f)" for i
        using wf by (intro map_of_eq_Some_iff) (simp add: join_wf_def)
      then show ?thesis by (force simp: held_at_def bind_eq_Some_conv)
    qed
    ultimately have "map_of (map (\<lambda>r. (codeKey (fst r), snd r)) ?rs) key = Some p \<longleftrightarrow> held_at f key = Some p" for p
      by (simp only:)
    then show ?thesis by (rule same_option)
  qed
  ultimately have "held_at (fold restore_entry ?es ?new) = held_at f" by (simp add: new_wf(2) fun_eq_iff)
  moreover have "restoreHolds newJoinFamily (Some (written_value kept)) = fold restore_entry ?es ?new"
    by (auto simp: restoreHolds_def written_value_def kv newJoinFamily_def)
  ultimately show "held_at (restoreHolds newJoinFamily (Some (written_value kept))) = held_at f"
    "jfTried (restoreHolds newJoinFamily (Some (written_value kept))) = jfTried f"
    using restore_entries(2) [OF new(1)] by simp_all
qed

section \<open>Draws\<close>

definition drawn :: "nat \<Rightarrow> nat set" where
  "drawn r = {v. v < draw_limit \<and> v mod 12 = r}"

lemma drawn_pair:
  assumes "a < b"
  shows "drawPositions [v, w] = Some (int a, int b) \<longleftrightarrow> (v, w) \<in> drawn a \<times> drawn b \<union> drawn b \<times> drawn a"
  using assms by (auto simp: drawPositions_def hiddenPositions_def drawn_def split: option.splits)

lemma draw_returns: "(\<exists>v \<in> set draws. v < draw_limit \<and> int (v mod 12) \<noteq> first) \<longleftrightarrow> other_position first draws \<noteq> None"
  by (induction draws) auto

lemma first_returns: "position draws = None \<longleftrightarrow> (\<forall>v \<in> set draws. \<not> v < draw_limit)"
  by (induction draws) auto

lemma position_split:
  "position draws = Some (p, rest) \<Longrightarrow> \<exists>skipped v. draws = skipped @ v # rest \<and> v < draw_limit \<and> p = int (v mod 12) \<and> (\<forall>u \<in> set skipped. \<not> u < draw_limit)"
proof (induction draws)
  case (Cons u draws)
  show ?case
  proof (cases "u < draw_limit")
    case True
    then show ?thesis using Cons.prems by (auto intro: exI [of _ "[]"])
  next
    case False
    with Cons obtain skipped v where "draws = skipped @ v # rest" "v < draw_limit" "p = int (v mod 12)" "\<forall>u \<in> set skipped. \<not> u < draw_limit"
      by auto
    with False show ?thesis by (auto intro!: exI [of _ "u # skipped"])
  qed
qed simp

section \<open>Properties\<close>

text \<open>C39. No modulo bias: of the 2^64 pairs of 32-bit draws, every two positions are given by as many.\<close>

theorem positions_drawn_alike:
  assumes "a < b" "b \<le> 11"
  shows "card {(v, w). v < 2 ^ 32 \<and> w < 2 ^ 32 \<and> drawPositions [v, w] = Some (int a, int b)} = 2 * 357913941\<^sup>2"
proof -
  have c: "card (drawn r) = 357913941" if "r < 12" for r using residue_card [OF that] by (simp only: drawn_def)
  have n: "finite (drawn r)" for r unfolding drawn_def by (rule finite_subset [OF _ finite_lessThan [of draw_limit]]) blast
  have "drawn a \<inter> drawn b = {}" using assms(1) unfolding drawn_def by blast
  then have d: "(drawn a \<times> drawn b) \<inter> (drawn b \<times> drawn a) = {}" by (simp add: Times_Int_Times)
  have "draw_limit \<le> 2 ^ 32" by (simp add: draw_limit_def)
  then have "{(v, w). v < 2 ^ 32 \<and> w < 2 ^ 32 \<and> drawPositions [v, w] = Some (int a, int b)} = drawn a \<times> drawn b \<union> drawn b \<times> drawn a"
    unfolding drawn_pair [OF assms(1)] by (auto simp: drawn_def)
  moreover have "card (drawn a \<times> drawn b \<union> drawn b \<times> drawn a) = card (drawn a \<times> drawn b) + card (drawn b \<times> drawn a)"
    by (intro card_Un_disjoint finite_cartesian_product n d)
  moreover have "a < 12" "b < 12" using assms by simp_all
  ultimately show ?thesis by (simp only: card_cartesian_product c power2_eq_square mult_2)
qed

text \<open>A showing gets its two positions as soon as the draws hold two that give different ones, and no sooner.\<close>

theorem showing_returns:
  "drawPositions draws \<noteq> None
     \<longleftrightarrow> (\<exists>v \<in> set draws. \<exists>w \<in> set draws. v < draw_limit \<and> w < draw_limit \<and> v mod 12 \<noteq> w mod 12)"
proof (cases "position draws")
  case None
  then have "drawPositions draws = None" by (simp add: drawPositions_def hiddenPositions_def)
  with None show ?thesis by (auto simp: first_returns)
next
  case (Some r)
  obtain p rest where r: "r = (p, rest)" by (cases r)
  obtain skipped v where s: "draws = skipped @ v # rest" "v < draw_limit" "p = int (v mod 12)" "\<forall>u \<in> set skipped. \<not> u < draw_limit"
    using position_split [OF Some [unfolded r]] by blast
  have "drawPositions draws \<noteq> None \<longleftrightarrow> other_position p rest \<noteq> None"
    by (auto simp: drawPositions_def hiddenPositions_def Some r split: option.splits)
  also have "\<dots> \<longleftrightarrow> (\<exists>w \<in> set rest. w < draw_limit \<and> w mod 12 \<noteq> v mod 12)" unfolding draw_returns [symmetric] s(3) by simp
  also have "\<dots> \<longleftrightarrow> (\<exists>v \<in> set draws. \<exists>w \<in> set draws. v < draw_limit \<and> w < draw_limit \<and> v mod 12 \<noteq> w mod 12)"
    using s(2,4) by (auto simp: s(1))
  finally show ?thesis .
qed

text \<open>Whatever is shown, checked and read back, a family keeps at most 64 codes, each once, in the order they
  were shown, each hiding two ascending positions of the twelve.\<close>

theorem codes_kept_are_bounded:
  assumes "join_run newJoinFamily answers f"
  shows "length (jfIssued f) \<le> 64 \<and> distinct (map fst (jfIssued f)) \<and> sorted_wrt (<) (map (\<lambda>e. icSeq (snd e)) (jfIssued f))
    \<and> (\<forall>(key, i) \<in> set (jfIssued f). 0 \<le> fst (icPositions i) \<and> fst (icPositions i) < snd (icPositions i) \<and> snd (icPositions i) \<le> 11)"
proof -
  have "hidden_ok p \<longleftrightarrow> 0 \<le> fst p \<and> fst p < snd p \<and> snd p \<le> 11" for p by (cases p) simp
  then show ?thesis using run_wf [OF assms] by (auto simp: join_wf_def MAX_SHOWN_CODES_def)
qed

text \<open>A code shown when 64 are kept takes the place of the earliest shown one no wrong pair holds, and is
  refused when a wrong pair holds every one.\<close>

theorem full_book_drops_the_earliest:
  assumes "join_run newJoinFamily answers f" "map_of (jfIssued f) (codeKey mark) = None" "drawPositions draws = Some p"
  shows "showCode f mark draws = Some (if length (jfIssued f) < 64 then Inr (p, insert_code (codeKey mark) p False f)
    else case find (\<lambda>e. \<not> icHeld (snd e)) (jfIssued f) of
        None \<Rightarrow> Inl TOO_MANY
      | Some e \<Rightarrow> Inr (p, insert_code (codeKey mark) p False (f\<lparr> jfIssued := AList.delete (fst e) (jfIssued f) \<rparr>)))"
proof -
  have "oldest_free (jfIssued f) = find (\<lambda>e. \<not> icHeld (snd e)) (jfIssued f)"
    using run_wf [OF assms(1)] by (intro oldest_is_first) (simp add: join_wf_def)
  then show ?thesis using assms(2,3)
    by (auto simp: showCode_def makeRoom_def MAX_SHOWN_CODES_def split: option.split prod.split)
qed

text \<open>C17. After a wrong pair, for any code, and as long as none matched, the next wrong pair is the alarm, for that
  code or another.\<close>

theorem second_wrong_pair_is_the_alarm:
  assumes "join_run newJoinFamily earlier f" "join_run f answers g" "jfTried f \<or> answers \<noteq> []" "Matched \<notin> snd ` set answers"
    and "checkCode g mark given_words = Inr (answer, h)"
  shows "answer = Matched \<or> answer = Mismatch"
proof -
  have "jfTried g" by (rule run_stays_tried [OF assms(2) run_wf [OF assms(1)] assms(4,3)])
  with assms(5) show ?thesis
    by (auto simp: checkCode_def returns split: option.splits if_splits)
qed

text \<open>C18. The positions a wrong pair holds stay, whatever else is shown, checked or read back, until that code
  matches: a retry never gets fresh positions.\<close>

theorem wrong_pair_keeps_its_positions:
  assumes "join_run newJoinFamily earlier f" "checkCode f mark given_words = Inr (answer, g)" "answer \<noteq> Matched"
    and "is_version (joinRosterVersion mark)" "join_run g answers h" "(codeKey mark, Matched) \<notin> set answers"
  shows "\<exists>p. map_option icPositions (map_of (jfIssued f) (codeKey mark)) = Some p
    \<and> held_at h (codeKey mark) = Some p \<and> showCode h mark draws = Some (Inr (p, h))"
proof -
  obtain p where p: "join_wf g" "held_at g (codeKey mark) = Some p"
    "map_option icPositions (map_of (jfIssued f) (codeKey mark)) = Some p"
    using checkCode_step [OF run_wf [OF assms(1)] assms(4,2)] assms(3) by (metis fun_upd_same)
  have h: "held_at h (codeKey mark) = Some p" by (rule run_keeps [OF assms(5) p(1) assms(6) p(2)])
  then have "showCode h mark draws = Some (Inr (p, h))"
    by (auto simp: held_at_def showCode_def bind_eq_Some_conv split: if_splits)
  with h p(3) show ?thesis by blast
qed

text \<open>What a family keeps for a reload is all that its wrong pairs left: read back into a new family, the same
  codes are held at the same positions, and the next wrong pair is the alarm exactly when it was.\<close>

theorem kept_holds_read_back:
  assumes "join_run newJoinFamily answers f"
  shows "case holdsValue (Some f) of
      None \<Rightarrow> \<not> jfTried f \<and> held_at f = Map.empty
    | Some kept \<Rightarrow> held_at (restoreHolds newJoinFamily (Some (written_value kept))) = held_at f
        \<and> jfTried (restoreHolds newJoinFamily (Some (written_value kept))) = jfTried f"
proof (cases "holdsValue (Some f)")
  case None
  have wf: "join_wf f" by (rule run_wf [OF assms])
  from None have n: "\<not> jfTried f" "filter (\<lambda>(_, issued). icHeld issued) (jfIssued f) = []"
    by (auto simp: holdsValue_def Let_def split: if_splits)
  have "held_at f key = None" for key
    using n(2) by (auto simp: held_at_def filter_empty_conv split: option.split bind_split dest!: map_of_SomeD)
  with None n(1) show ?thesis by auto
next
  case (Some kept)
  with holds_restored [OF run_wf [OF assms] Some] show ?thesis by simp
qed

end
