(* ===== verification/Sample_Join.thy ===== *)
theory Sample_Join
  imports Join_Rules
begin

text \<open>
  The witnesses of the join check: a code shown, two wrong pairs, and what they leave kept.
\<close>

definition sample_mark :: join_mark where
  "sample_mark = \<lparr> joinRosterVersion = 1, joinWords = replicate 12 ''abc'' \<rparr>"

definition shown_family :: join_family where
  "shown_family = insert_code (codeKey sample_mark) (1, 5) False newJoinFamily"

definition wrong_family :: join_family where
  "wrong_family = \<lparr> jfTried = True, jfIssued = [(codeKey sample_mark, \<lparr> icPositions = (1, 5), icHeld = True, icSeq = 1 \<rparr>)], jfSeq = 1 \<rparr>"

lemma sample_code: "code_shape (joinWords sample_mark)" "is_version (joinRosterVersion sample_mark)"
  by (simp_all add: sample_mark_def code_shape_def code_word_def list_all_iff is_version_def MAX_SAFE_INTEGER_def)

lemma join_sample_words:
  "joinCheck (joinWords sample_mark) [1, 5] [''Abc '', ''abd''] = Inr No_Match" "joinCheck (joinWords sample_mark) [1, 5] [''Abc '', ''abc''] = Inr Match"
proof -
  have "trim ''Abc '' = ''Abc''" "trim ''abd'' = ''abd''" "trim ''abc'' = ''abc''" by code_simp+
  moreover have "toLowerCase ''Abc'' = ''abc''" "toLowerCase ''abd'' = ''abd''" "toLowerCase ''abc'' = ''abc''" by code_simp+
  ultimately show "joinCheck (joinWords sample_mark) [1, 5] [''Abc '', ''abd''] = Inr No_Match"
    "joinCheck (joinWords sample_mark) [1, 5] [''Abc '', ''abc''] = Inr Match"
    using sample_code(1) by (simp_all add: joinCheck_def) (simp_all add: sample_mark_def)
qed

lemma sample_draws: "drawPositions [13, 4294967295, 25, 5] = Some (1, 5)"
  by (simp add: drawPositions_def hiddenPositions_def draw_limit_def)

lemma sample_shown: "showCode newJoinFamily sample_mark [13, 4294967295, 25, 5] = Some (Inr ((1, 5), shown_family))"
proof -
  have "makeRoom newJoinFamily = Inr newJoinFamily" "map_of (jfIssued newJoinFamily) (codeKey sample_mark) = None"
    by (simp_all add: makeRoom_def newJoinFamily_def MAX_SHOWN_CODES_def)
  then show ?thesis by (simp add: showCode_def sample_draws shown_family_def)
qed

lemma sample_wrong:
  "checkCode shown_family sample_mark [''Abc '', ''abd''] = Inr (Wrong_Words, wrong_family)"
  "checkCode wrong_family sample_mark [''Abc '', ''abd''] = Inr (Mismatch, wrong_family)"
  by (simp_all add: checkCode_def shown_family_def wrong_family_def newJoinFamily_def insert_code_def hold_code_def join_sample_words)

lemma join_sample_runs:
  "join_run newJoinFamily [] shown_family" "join_run newJoinFamily [(codeKey sample_mark, Wrong_Words)] wrong_family"
  "join_run shown_family [(codeKey sample_mark, Wrong_Words)] wrong_family"
  "join_run wrong_family [(codeKey sample_mark, Mismatch)] wrong_family"
proof -
  have s: "join_step newJoinFamily None shown_family" by (rule shown [OF sample_code(2) sample_shown])
  have w: "join_step shown_family (Some (codeKey sample_mark, Wrong_Words)) wrong_family"
    "join_step wrong_family (Some (codeKey sample_mark, Mismatch)) wrong_family"
    by (rule checked [OF sample_code(2) sample_wrong(1)], rule checked [OF sample_code(2) sample_wrong(2)])
  show r: "join_run newJoinFamily [] shown_family" using onward [OF start s] by simp
  show "join_run newJoinFamily [(codeKey sample_mark, Wrong_Words)] wrong_family" using onward [OF r w(1)] by simp
  show "join_run shown_family [(codeKey sample_mark, Wrong_Words)] wrong_family"
    "join_run wrong_family [(codeKey sample_mark, Mismatch)] wrong_family" using onward [OF start w(1)] onward [OF start w(2)] by simp_all
qed

theorem positions_drawn_alike_witness:
  "card {(v, w). v < 2 ^ 32 \<and> w < 2 ^ 32 \<and> drawPositions [v, w] = Some (int 1, int 5)} = 2 * 357913941\<^sup>2"
  by (rule positions_drawn_alike) simp_all

theorem codes_kept_are_bounded_witness: "length (jfIssued wrong_family) \<le> 64 \<and> jfIssued wrong_family \<noteq> []"
  using codes_kept_are_bounded [OF join_sample_runs(2)] by (simp add: wrong_family_def)

theorem full_book_drops_the_earliest_witness:
  "showCode newJoinFamily sample_mark [13, 4294967295, 25, 5] = Some (Inr ((1, 5), shown_family))"
proof -
  have "map_of (jfIssued newJoinFamily) (codeKey sample_mark) = None" by (simp add: newJoinFamily_def)
  from full_book_drops_the_earliest [OF start this sample_draws] show ?thesis
    by (simp add: shown_family_def) (simp add: newJoinFamily_def)
qed

theorem second_wrong_pair_is_the_alarm_witness:
  "\<exists>answer h. checkCode wrong_family sample_mark [''Abc '', ''abd''] = Inr (answer, h) \<and> (answer = Matched \<or> answer = Mismatch)"
  using second_wrong_pair_is_the_alarm [OF join_sample_runs(1,3) _ _ sample_wrong(2)] sample_wrong(2) by simp

theorem wrong_pair_keeps_its_positions_witness:
  "showCode wrong_family sample_mark [] = Some (Inr ((1, 5), wrong_family))"
proof -
  have "map_of (jfIssued shown_family) (codeKey sample_mark) = Some \<lparr> icPositions = (1, 5), icHeld = False, icSeq = 1 \<rparr>"
    by (simp add: shown_family_def insert_code_def newJoinFamily_def)
  then show ?thesis
    using wrong_pair_keeps_its_positions [OF join_sample_runs(1) sample_wrong(1) _ sample_code(2) join_sample_runs(4), of "[]"] by simp
qed

theorem kept_holds_read_back_witness:
  "\<exists>kept. holdsValue (Some wrong_family) = Some kept
    \<and> held_at (restoreHolds newJoinFamily (Some (written_value kept))) (codeKey sample_mark) = Some (1, 5)"
proof -
  have h: "held_at wrong_family (codeKey sample_mark) = Some (1, 5)" by (simp add: held_at_def wrong_family_def)
  obtain kept where "holdsValue (Some wrong_family) = Some kept" by (simp add: holdsValue_def Let_def wrong_family_def)
  with kept_holds_read_back [OF join_sample_runs(2)] h show ?thesis by simp
qed

end
