(* ===== verification/First_Seen.thy ===== *)
theory First_Seen
  imports Pins Succession_Path
begin

text \<open>
  \<open>packages/crypto/src/first-seen.ts\<close>: the rules by which a device remembers the keys it first saw for a person
  and notices when the settings stop agreeing with them. \<open>pinTrust\<close>, \<open>keyCommitment\<close> and \<open>nextGuardEntry\<close> are
  those of \<open>Pins\<close>, the succession chain that of \<open>Succession_Path\<close>.
\<close>

text \<open>The pin's members beside its keys are the caller's and stay as they are.\<close>

definition firstSeenOfLegacy :: "primitives \<Rightarrow> string \<Rightarrow> pin_keys \<Rightarrow> served_identity \<Rightarrow> pin_keys option" where
  "firstSeenOfLegacy P uid pin served =
     (let trust = pinTrust P pin in
      if trust \<noteq> Pin_Legacy \<and> trust \<noteq> Pin_Invalid then None
      else if p_encryptionPublicKey pin \<noteq> sk_encryptionPublicKey served \<or> p_signingPublicKey pin \<noteq> sk_signingPublicKey served then None
      else if \<not> verifyIdentityKeys P uid served then None
      else case pinKeysOfServed P served Form_Seen of Inl _ \<Rightarrow> None | Inr ks \<Rightarrow> Some ks)"

datatype guard_verdict = First_Used | Agrees | Follows | Changed | Guard_Unchecked

text \<open>An entry, none, or one that could not be read.\<close>

datatype held_guard = No_Guard | Guard guard_entry | Unreadable

definition pinned_of_guard :: "guard_entry \<Rightarrow> pinned_keys" where
  "pinned_of_guard g = \<lparr> pk_keyVersion = g_keyVersion g, pk_encryptionPublicKey = g_encryptionPublicKey g,
     pk_signingPublicKey = g_signingPublicKey g, pk_mlDsaPublicKeyHash = g_mlDsaPublicKeyHash g \<rparr>"

definition guardAgrees :: "primitives \<Rightarrow> string \<Rightarrow> held_guard \<Rightarrow> pin_keys option \<Rightarrow> (served_keys \<times> succession_link list) option
    \<Rightarrow> guard_verdict" where
  "guardAgrees P uid guard pin succession =
     (case guard of Unreadable \<Rightarrow> Guard_Unchecked | No_Guard \<Rightarrow> First_Used
      | Guard g \<Rightarrow> (case pin of None \<Rightarrow> Changed
        | Some p \<Rightarrow>
            let trust = pinTrust P p; held = keyCommitment P (keys_of_guard g); ks = keyCommitment P p in
            if trust \<noteq> Pin_Verified \<and> trust \<noteq> Pin_Seen then Changed
            else if held = None \<or> ks = None then Changed
            else if ks = held then Agrees
            else (case succession of None \<Rightarrow> Changed
              | Some (served, links) \<Rightarrow>
                  (case pinKeysOfServed P served Form_Seen of Inl _ \<Rightarrow> Changed
                  | Inr served_pin \<Rightarrow>
                      if keyCommitment P served_pin \<noteq> ks then Changed
                      else if verifySuccessionChain P uid (pinned_of_guard g) served links then Follows else Changed))))"

section \<open>Lemmas\<close>

lemma spaced_nonempty: "s \<noteq> [] \<Longrightarrow> spaced s \<noteq> []"
  by (cases s rule: spaced.cases) simp_all

lemma pin_print_nonempty:
  assumes "sha256_32 P" "pin_print P pin = Inr print"
  shows "print \<noteq> []"
proof -
  have "length (take 20 (sha256 P m)) = 20" for m using assms(1) by (simp add: sha256_32_def)
  then have "hex_of (take 20 (sha256 P m)) \<noteq> []" for m by (metis length_hex_of list.size(3) mult_is_0 zero_neq_numeral)
  with assms(2) show ?thesis by (auto simp: pin_print_def fingerprint_def Let_def returns spaced_nonempty split: if_splits)
qed

lemma seen_pin_of_served:
  assumes "sha256_32 P" "pinKeysOfServed P served Form_Seen = Inr ks"
  shows "pinTrust P ks = Pin_Seen" "p_encryptionPublicKey ks = sk_encryptionPublicKey served" "p_signingPublicKey ks = sk_signingPublicKey served"
    "p_fingerprint ks = []" "keyCommitment P ks \<noteq> None"
proof -
  from assms(2) obtain mlDsa kem version where ks: "ks = \<lparr> p_keyVersion = Some version, p_encryptionPublicKey = sk_encryptionPublicKey served,
      p_signingPublicKey = sk_signingPublicKey served, p_mlDsaPublicKeyHash = Some (keyDigest P mlDsa),
      p_kemPublicKeyHash = Some (keyDigest P kem), p_fingerprint = [] \<rparr>" and c: "keyCommitment P ks \<noteq> None"
    by (auto simp: pinKeysOfServed_def bindE_def split: sum.splits option.splits)
  have "\<not> falsy (p_mlDsaPublicKeyHash ks)" using c by (auto simp: keyCommitment_def split: if_splits)
  moreover have "\<not> pinVerified P ks"
    using pin_print_nonempty [OF assms(1), of ks] by (auto simp: pinVerified_def ks split: sum.splits)
  ultimately show "pinTrust P ks = Pin_Seen" using c by (simp add: pinTrust_def ks)
  show "p_encryptionPublicKey ks = sk_encryptionPublicKey served" "p_signingPublicKey ks = sk_signingPublicKey served"
    "p_fingerprint ks = []" "keyCommitment P ks \<noteq> None" using c by (simp_all add: ks)
qed

section \<open>Properties\<close>

text \<open>Trust is never carried forward: a pin from before post-quantum identities becomes first-seen, never
  verified, keeps its X25519 and Ed25519 keys, and takes the other two only under the keys statement signed by
  them; a pin that holds is left alone.\<close>

theorem legacy_pin_is_only_seen:
  assumes "sha256_32 P" "firstSeenOfLegacy P uid pin served = Some seen"
  shows "pinTrust P seen = Pin_Seen \<and> p_encryptionPublicKey seen = p_encryptionPublicKey pin
    \<and> p_signingPublicKey seen = p_signingPublicKey pin \<and> verifyIdentityKeys P uid served
    \<and> sk_signingPublicKey served = p_signingPublicKey pin \<and> pinTrust P pin \<in> {Pin_Legacy, Pin_Invalid}"
  using assms(2) seen_pin_of_served [OF assms(1), of served]
  by (auto simp: firstSeenOfLegacy_def Let_def split: if_splits sum.splits)

text \<open>C21. A device acts on other keys than its guard's only along a proof: where the guard neither is missing nor
  holds the pin's keys, the pin's keys are those served, and the links give, from the first that leaves the
  guard's own keys, successions each signed under the keys before, up to them.\<close>

theorem guard_follows_only_a_proof:
  assumes "guardAgrees P uid (Guard g) (Some pin) succession = v" "v \<noteq> Changed"
  shows "pinTrust P pin \<in> {Pin_Verified, Pin_Seen} \<and> keyCommitment P (keys_of_guard g) \<noteq> None
    \<and> (v = Agrees \<and> keyCommitment P pin = keyCommitment P (keys_of_guard g)
      \<or> v = Follows \<and> (\<exists>served links served_pin skipped first rest. succession = Some (served, links)
          \<and> pinKeysOfServed P served Form_Seen = Inr served_pin \<and> keyCommitment P served_pin = keyCommitment P pin
          \<and> links = skipped @ first # rest \<and> leaves_pin P (pinned_of_guard g) first
          \<and> verifySuccessionLink P uid first (g_signingPublicKey g) (l_oldMlDsaPublicKey first)
          \<and> joined_under P uid (after_link first) rest
          \<and> next_keys (last (first # rest)) = keys_served served))"
proof (cases "v = Follows")
  case True
  then obtain served links served_pin where s: "succession = Some (served, links)" "pinKeysOfServed P served Form_Seen = Inr served_pin"
      "keyCommitment P served_pin = keyCommitment P pin" "verifySuccessionChain P uid (pinned_of_guard g) served links"
    and t: "pinTrust P pin \<in> {Pin_Verified, Pin_Seen}" "keyCommitment P (keys_of_guard g) \<noteq> None"
    using assms(1) by (auto simp: guardAgrees_def Let_def split: option.splits if_splits sum.splits)
  from s(4) obtain skipped first rest where "links = skipped @ first # rest" "leaves_pin P (pinned_of_guard g) first"
    "verifySuccessionLink P uid first (g_signingPublicKey g) (l_oldMlDsaPublicKey first)"
    "joined_under P uid (after_link first) rest" "next_keys (last (first # rest)) = keys_served served"
    unfolding strict_chain_exactly by (auto simp: pinned_of_guard_def)
  with s(1-3) t True show ?thesis by blast
next
  case False
  with assms show ?thesis by (auto simp: guardAgrees_def Let_def split: option.splits if_splits sum.splits)
qed

text \<open>A guard moved on to a pin agrees with it from then on, whatever is served: the person is not asked about the
  same keys twice.\<close>

theorem remembered_pin_agrees:
  assumes "nextGuardEntry P previous pin = Inr g" "pinTrust P pin = Pin_Verified \<or> p_kemPublicKeyHash pin \<noteq> None"
  shows "guardAgrees P uid (Guard g) (Some pin) succession = Agrees"
proof -
  have t: "pinTrust P pin = Pin_Verified \<or> pinTrust P pin = Pin_Seen"
    using assms(1) by (auto simp: nextGuardEntry_def Let_def split: if_splits)
  then have h: "\<not> falsy (p_mlDsaPublicKeyHash pin)" "\<not> falsy (p_kemPublicKeyHash pin)" "keyCommitment P pin \<noteq> None"
    by (auto simp: pinTrust_def pinVerified_def keyCommitment_def split: if_splits sum.splits)
  then have "p_mlDsaPublicKeyHash (keys_of_guard g) = p_mlDsaPublicKeyHash pin" "p_kemPublicKeyHash (keys_of_guard g) = p_kemPublicKeyHash pin"
    "p_encryptionPublicKey (keys_of_guard g) = p_encryptionPublicKey pin" "p_signingPublicKey (keys_of_guard g) = p_signingPublicKey pin"
    using assms(1) by (auto simp: nextGuardEntry_def keys_of_guard_def falsy_def Let_def split: if_splits)
  then have "keyCommitment P (keys_of_guard g) = keyCommitment P pin" by (simp add: keyCommitment_def pin_print_def)
  then show ?thesis using h(3) t by (auto simp: guardAgrees_def Let_def)
qed

end
