(* ===== verification/Settings_Marks.thy ===== *)
theory Settings_Marks
  imports Pins
begin

text \<open>
  The marks an unlocked session keeps of the account's settings (\<open>packages/crypto/src/settings-marks.ts\<close>; \<open>useSettings\<close>
  and \<open>legacySettings\<close> of \<open>session-groups.ts\<close>) and the rollback marks a device keeps
  (\<open>highestMarks\<close> of \<open>rollback-marks.ts\<close>). The members of an object are an association list in the order of
  \<open>Object.entries\<close>; \<open>groups\<close> and \<open>familyChecks\<close> are \<open>None\<close> where they are no plain object, \<open>contacts\<close> is what
  spreading it gives.
\<close>

section \<open>Settings\<close>

definition OLDER_SETTINGS :: crypto_error where
  "OLDER_SETTINGS = CryptoError ''The server sent older settings than this device has opened, so nothing was changed.''"

text \<open>A pin as filed, and a check record: a \<open>null\<close> (\<open>No_Record\<close>), an object without a \<open>code\<close>, or anything else,
  with what it has under the members read.\<close>

datatype family_record = No_Record | Before_Record | Pair_Record json json json

record contact_member =
  cmIsObject :: bool
  cmUserId :: "string option"
  cmKeys :: pin_keys

record settings_read =
  srGroups :: "(string \<times> raw_group_pin option) list option"
  srContacts :: "(string \<times> contact_member) list"
  srFamilyChecks :: "(string \<times> family_record) list option"

record settings_marks =
  smUserId :: string
  smPins :: "(string \<times> raw_group_pin option) list"
  smContacts :: "(string \<times> contact_member) list"
  smChecks :: "(string \<times> family_record) list"
  smOpened :: bool
  smSettingsVersion :: nat

definition refuseDowngrade :: "settings_marks option \<Rightarrow> string \<Rightarrow> crypto_error + unit" where
  "refuseDowngrade held uid =
     (case held of None \<Rightarrow> Inr () | Some h \<Rightarrow> if smUserId h = uid \<and> smOpened h then Inl OLDER_SETTINGS else Inr ())"

definition plainObject :: "'a list option \<Rightarrow> 'a list" where
  "plainObject member = (case member of None \<Rightarrow> [] | Some entries \<Rightarrow> entries)"

definition settingsMarks :: "settings_marks option \<Rightarrow> string \<Rightarrow> settings_read option \<Rightarrow> nat \<Rightarrow> crypto_error + settings_marks" where
  "settingsMarks held uid settings settingsVersion =
     bindE (case settings of None \<Rightarrow> refuseDowngrade held uid
       | Some _ \<Rightarrow> refuse_if (case held of None \<Rightarrow> False
           | Some h \<Rightarrow> smUserId h = uid \<and> smOpened h \<and> settingsVersion < smSettingsVersion h) OLDER_SETTINGS) (\<lambda>_.
       Inr \<lparr> smUserId = uid, smPins = plainObject (Option.bind settings srGroups),
         smContacts = (case settings of None \<Rightarrow> [] | Some s \<Rightarrow> srContacts s), smChecks = plainObject (Option.bind settings srFamilyChecks),
         smOpened = (settings \<noteq> None), smSettingsVersion = (if settings = None then 0 else settingsVersion) \<rparr>)"

definition contactPinOf :: "settings_marks option \<Rightarrow> string \<Rightarrow> string \<Rightarrow> pin_keys option" where
  "contactPinOf marks account uid =
     (case marks of None \<Rightarrow> None
      | Some m \<Rightarrow>
          if smUserId m \<noteq> account then None
          else map_option (\<lambda>(_, pin). cmKeys pin)
            (find (\<lambda>(key, pin). toLowerCase key = toLowerCase uid \<and> cmIsObject pin
                \<and> map_option toLowerCase (cmUserId pin) = Some (toLowerCase uid)) (smContacts m)))"

record pair_mark_read =
  prRosterVersion :: json
  prWith :: json
  prCode :: json

definition familyCheckOf :: "settings_marks \<Rightarrow> string \<Rightarrow> bool \<times> pair_mark_read list" where
  "familyCheckOf marks gid =
     (case map_of (smChecks marks) gid of
        None \<Rightarrow> (False, []) | Some No_Record \<Rightarrow> (False, []) | Some Before_Record \<Rightarrow> (True, [])
      | Some (Pair_Record version other code) \<Rightarrow> (True, [\<lparr> prRosterVersion = version, prWith = other, prCode = code \<rparr>]))"

definition settingsPinOf :: "settings_marks \<Rightarrow> string \<Rightarrow> raw_group_pin option" where
  "settingsPinOf marks gid = Option.bind (map_of (smPins marks) gid) id"

section \<open>Rollback marks\<close>

record rollback_marks =
  rmSettings :: nat
  rmSettingsDocument :: bool
  rmIdentity :: nat
  rmIdentityVersion :: nat

record raised_marks =
  raSettings :: "nat option"
  raSettingsDocument :: "bool option"
  raIdentity :: "nat option"
  raIdentityVersion :: "nat option"

definition NO_MARKS :: rollback_marks where
  "NO_MARKS = \<lparr> rmSettings = 0, rmSettingsDocument = False, rmIdentity = 0, rmIdentityVersion = 0 \<rparr>"

definition or_none :: "nat option \<Rightarrow> nat" where
  "or_none v = (case v of None \<Rightarrow> 0 | Some n \<Rightarrow> n)"

definition highestMarks :: "rollback_marks \<Rightarrow> raised_marks \<Rightarrow> rollback_marks" where
  "highestMarks a b = \<lparr> rmSettings = max (rmSettings a) (or_none (raSettings b)),
     rmSettingsDocument = (rmSettingsDocument a \<or> raSettingsDocument b = Some True),
     rmIdentity = max (rmIdentity a) (or_none (raIdentity b)),
     rmIdentityVersion = max (rmIdentityVersion a) (or_none (raIdentityVersion b)) \<rparr>"

section \<open>An unlock\<close>

text \<open>What an account's unlock does to the marks it holds: settings served and opened, none, or a version 1
  document, which keeps them or is refused.\<close>

inductive settings_step :: "string \<Rightarrow> settings_marks option \<Rightarrow> settings_marks option \<Rightarrow> bool" for uid where
  used: "settingsMarks held uid settings version = Inr marks \<Longrightarrow> settings_step uid held (Some marks)"
| legacy: "refuseDowngrade held uid = Inr () \<Longrightarrow> settings_step uid held held"

definition settings_from :: "string \<Rightarrow> nat \<Rightarrow> settings_marks option \<Rightarrow> bool" where
  "settings_from uid v held \<longleftrightarrow> (\<exists>h. held = Some h \<and> smUserId h = uid \<and> smOpened h \<and> v \<le> smSettingsVersion h)"

lemma settings_step_from: "settings_step uid held after \<Longrightarrow> settings_from uid v held \<Longrightarrow> settings_from uid v after"
  by (cases rule: settings_step.cases)
    (auto simp: settings_from_def settingsMarks_def refuseDowngrade_def returns split: option.splits if_splits)

interpretation unlock: machine "settings_step uid" "settings_from uid v" for uid v
  by unfold_locales (rule settings_step_from)

text \<open>Settings an unlock opened never give way to older ones or to none, whatever the server answers after.\<close>

theorem settings_never_go_back:
  assumes "(settings_step uid)\<^sup>*\<^sup>* (Some opened) held" "smUserId opened = uid" "smOpened opened"
  shows "\<exists>h. held = Some h \<and> smUserId h = uid \<and> smOpened h \<and> smSettingsVersion opened \<le> smSettingsVersion h
    \<and> settingsMarks held uid None 0 = Inl OLDER_SETTINGS \<and> refuseDowngrade held uid = Inl OLDER_SETTINGS
    \<and> (\<forall>settings version. version < smSettingsVersion opened \<longrightarrow> settingsMarks held uid (Some settings) version = Inl OLDER_SETTINGS)"
proof -
  have "settings_from uid (smSettingsVersion opened) (Some opened)" using assms(2,3) by (simp add: settings_from_def)
  from unlock.reached [OF assms(1) this] obtain h where "held = Some h" "smUserId h = uid" "smOpened h"
    "smSettingsVersion opened \<le> smSettingsVersion h" by (auto simp: settings_from_def)
  then show ?thesis by (simp add: settingsMarks_def refuseDowngrade_def)
qed

text \<open>A mark is never lowered, each is the higher of the two, and raising again by the same changes nothing.\<close>

theorem marks_only_rise:
  "rmSettings a \<le> rmSettings (highestMarks a b) \<and> rmIdentity a \<le> rmIdentity (highestMarks a b)
    \<and> rmIdentityVersion a \<le> rmIdentityVersion (highestMarks a b) \<and> (rmSettingsDocument a \<longrightarrow> rmSettingsDocument (highestMarks a b))
    \<and> highestMarks (highestMarks a b) b = highestMarks a b \<and> highestMarks (highestMarks a b) c = highestMarks (highestMarks a c) b"
  by (auto simp: highestMarks_def)

end
