(* ===== verification/Outbox.thy ===== *)
theory Outbox
  imports Pins
begin

text \<open>
  \<open>packages/crypto/src/outbox.ts\<close>: what an answer to a roster call means for its entry (\<open>outboxStep\<close>), and what
  is done with an entry kept on the device (\<open>readOutboxEntry\<close>). An entry's members are JSON values; its body is
  read here as the text to send: an object's JSON, or a text that parses as an object of well-formed strings
  (\<open>bodyText\<close>, whose parser of objects is not modelled).
\<close>

section \<open>Answers\<close>

datatype outbox_step = Landed_Step | Resend | Send_Grants | Rebuild | Stale_Roster | Membership_Moved | Refused_Step | Wiped

definition outboxStep :: "nat \<Rightarrow> string option \<Rightarrow> outbox_step" where
  "outboxStep http_status code =
     (if 200 \<le> http_status \<and> http_status < 300 then Landed_Step
      else if http_status = 404 \<and> code = Some ''not-member'' then Wiped
      else if \<not> (400 \<le> http_status \<and> http_status < 500 \<and> code \<noteq> None
          \<and> code \<noteq> Some ''signed-out'' \<and> code \<noteq> Some ''rate-limited'') then Resend
      else if code = Some ''grants-due'' then Send_Grants
      else if code \<in> Some ` {''rotating'', ''epoch-stale'', ''root-moved'', ''document-stale''} then Rebuild
      else if code = Some ''stale'' then Stale_Roster
      else if code \<in> Some ` {''members-changed'', ''left-due''} then Membership_Moved
      else Refused_Step)"

section \<open>Entries\<close>

datatype outbox_route = Create_Route | Rosters_Route | Admit_Route string | Member_Route string | Remove_Route string
  | Areas_Route | Rotation_Route string | Delete_Route string

datatype outbox_hold = Awaiting_Check | Other_Keys | Committed_Hold

datatype outbox_read =
    Send string outbox_route string
  | Hold string outbox_route outbox_hold
  | Landed string outbox_route
  | Superseded string outbox_route

text \<open>\<open>None\<close> where a member is absent or no text; \<open>obKeys\<close> of \<open>admits\<close> is \<open>None\<close> where there is no such member,
  and \<open>Some None\<close> where there is one that is no text.\<close>

record raw_route =
  rtKind :: "string option"
  rtUserId :: "string option"
  rtWorkspaceId :: "string option"

record raw_admits =
  admUserId :: "string option"
  admKeys :: "string option option"
  admFingerprint :: "string option"

record raw_outbox_entry =
  obVersion :: json
  obId :: "string option"
  obGroupId :: "string option"
  obStagedEnvelope :: "string option"
  obState :: "string option"
  obBody :: "string option"
  obRoute :: "raw_route option"
  obPreviousRosterDigest :: "string option"
  obRosterDigest :: "string option"
  obAdmits :: "raw_admits option"

record admin_pin =
  apUserId :: string
  apKeys :: "string option"

definition asciiLower :: "string \<Rightarrow> string" where
  "asciiLower = map (\<lambda>c. if 65 \<le> (of_char c :: nat) \<and> (of_char c :: nat) \<le> 90 then char_of ((of_char c :: nat) + 32) else c)"

definition with_id :: "(string \<Rightarrow> outbox_route) \<Rightarrow> string option \<Rightarrow> outbox_route option" where
  "with_id route id_value = (case id_value of None \<Rightarrow> None | Some i \<Rightarrow> if is_uuid i then Some (route i) else None)"

definition routeOf :: "raw_route option \<Rightarrow> outbox_route option" where
  "routeOf route =
     (case route of None \<Rightarrow> None
      | Some r \<Rightarrow> (case rtKind r of None \<Rightarrow> None
        | Some knd \<Rightarrow>
            if knd = ''create'' then Some Create_Route
            else if knd = ''rosters'' then Some Rosters_Route
            else if knd = ''areas'' then Some Areas_Route
            else if knd = ''admit'' then with_id Admit_Route (rtUserId r)
            else if knd = ''member'' then with_id Member_Route (rtUserId r)
            else if knd = ''remove'' then with_id Remove_Route (rtUserId r)
            else if knd = ''rotation'' then with_id Rotation_Route (rtWorkspaceId r)
            else if knd = ''delete'' then with_id Delete_Route (rtWorkspaceId r)
            else None))"

definition admittedKeys :: "raw_admits option \<Rightarrow> string option" where
  "admittedKeys admits =
     (case admits of None \<Rightarrow> None
      | Some a \<Rightarrow> (case admKeys a of Some staged \<Rightarrow> staged | None \<Rightarrow> admFingerprint a))"

definition entry_digest :: "string option \<Rightarrow> string option" where
  "entry_digest d = (if falsy d then None else d)"

definition same_keys :: "raw_admits option \<Rightarrow> string \<Rightarrow> admin_pin option \<Rightarrow> bool" where
  "same_keys admits uid pin \<longleftrightarrow>
     (case (admits, pin) of
        (Some a, Some p) \<Rightarrow> admittedKeys admits \<noteq> None \<and> \<not> falsy (apKeys p)
          \<and> admUserId a = Some uid \<and> apUserId p = uid \<and> admittedKeys admits = apKeys p
      | _ \<Rightarrow> False)"

definition readOutboxEntry :: "raw_outbox_entry option \<Rightarrow> string \<Rightarrow> admin_pin option \<Rightarrow> string option \<Rightarrow> string list option
    \<Rightarrow> outbox_read option" where
  "readOutboxEntry stored gid pin kept_id head =
     (case stored of None \<Rightarrow> None
      | Some v \<Rightarrow>
          if obVersion v \<noteq> JNum 1 \<or> falsy (obId v)
             \<or> (case kept_id of None \<Rightarrow> False | Some k \<Rightarrow> asciiLower (the (obId v)) \<noteq> asciiLower k)
             \<or> obGroupId v \<noteq> Some gid \<or> obStagedEnvelope v = None
             \<or> obState v \<notin> Some ` {''awaiting-check'', ''ready'', ''committed''}
             \<or> obBody v = None \<or> routeOf (obRoute v) = None
          then None
          else
            let i = the (obId v); route = the (routeOf (obRoute v));
                previous = entry_digest (obPreviousRosterDigest v); own = entry_digest (obRosterDigest v);
                unsent = (\<lambda>_::unit.
                  if (case route of Admit_Route uid \<Rightarrow> \<not> same_keys (obAdmits v) uid pin | _ \<Rightarrow> False) then Hold i route Other_Keys
                  else if obState v = Some ''committed'' then Hold i route Committed_Hold
                  else Send i route (the (obBody v)))
            in Some (if obState v = Some ''awaiting-check'' then Hold i route Awaiting_Check
              else case (head, previous, own) of
                (Some hd_digests, Some prev, Some mine) \<Rightarrow>
                  if mine \<in> set hd_digests then Landed i route
                  else if prev \<in> set hd_digests \<and> last hd_digests \<noteq> prev then Superseded i route
                  else unsent ()
              | _ \<Rightarrow> unsent ()))"

section \<open>Properties\<close>

text \<open>A family is wiped from the device on one answer only, the server's \<open>not-member\<close>; an entry is dropped as
  landed on a 2xx only; and no answer without a code of the server's decides anything.\<close>

theorem answers_that_decide:
  "(outboxStep http_status code = Wiped \<longleftrightarrow> http_status = 404 \<and> code = Some ''not-member'')
    \<and> (outboxStep http_status code = Landed_Step \<longleftrightarrow> 200 \<le> http_status \<and> http_status < 300)
    \<and> (code = None \<and> outboxStep http_status code \<noteq> Landed_Step \<longrightarrow> outboxStep http_status code = Resend)"
  by (auto simp: outboxStep_def)

lemma read_cases:
  assumes "readOutboxEntry (Some v) gid pin kept_id (Some head) = Some r" "entry_digest (obPreviousRosterDigest v) = Some prev"
    "entry_digest (obRosterDigest v) = Some mine" "obState v \<noteq> Some ''awaiting-check''"
  shows "(\<exists>i route. r = Landed i route) \<longleftrightarrow> mine \<in> set head"
    "(\<exists>i route. r = Superseded i route) \<longleftrightarrow> mine \<notin> set head \<and> prev \<in> set head \<and> last head \<noteq> prev"
  using assms by (auto simp: readOutboxEntry_def Let_def split: if_splits outbox_route.splits)

lemma read_same_form:
  "(readOutboxEntry stored gid pin kept_id head = None) = (readOutboxEntry stored gid pin' kept_id head' = None)"
  by (auto simp: readOutboxEntry_def Let_def split: option.splits)

text \<open>An entry the committed chain has passed is never sent again: once it reads as landed or superseded against
  a chain, it does so against every chain that continues it, whatever the admin pins meanwhile.\<close>

theorem passed_entry_is_never_sent:
  assumes "readOutboxEntry stored gid pin kept_id (Some head) = Some r" "(\<exists>i route. r = Landed i route) \<or> (\<exists>i route. r = Superseded i route)"
    and "distinct (head @ later)"
  shows "\<exists>i route. readOutboxEntry stored gid pin' kept_id (Some (head @ later)) = Some (Landed i route)
    \<or> readOutboxEntry stored gid pin' kept_id (Some (head @ later)) = Some (Superseded i route)"
proof -
  obtain v where v: "stored = Some v" using assms(1) by (cases stored) (simp_all add: readOutboxEntry_def)
  obtain r' where r': "readOutboxEntry stored gid pin' kept_id (Some (head @ later)) = Some r'"
    using read_same_form [of stored gid pin kept_id "Some head" pin' "Some (head @ later)"] assms(1) by (cases "readOutboxEntry stored gid pin' kept_id (Some (head @ later))") auto
  have s: "obState v \<noteq> Some ''awaiting-check''" "\<exists>prev mine. entry_digest (obPreviousRosterDigest v) = Some prev \<and> entry_digest (obRosterDigest v) = Some mine"
    using assms(1,2) by (auto simp: v readOutboxEntry_def Let_def split: if_splits option.splits outbox_route.splits)
  then obtain prev mine where d: "entry_digest (obPreviousRosterDigest v) = Some prev" "entry_digest (obRosterDigest v) = Some mine" by blast
  note before = read_cases [OF assms(1) [unfolded v] d s(1)] and after = read_cases [OF r' [unfolded v] d s(1)]
  have "last (head @ later) \<noteq> prev" if "prev \<in> set head" "last head \<noteq> prev"
  proof (cases later rule: rev_cases)
    case (snoc rest x)
    then show ?thesis using assms(3) that(1) by auto
  qed (use that in simp)
  then have "(\<exists>i route. r' = Landed i route) \<or> (\<exists>i route. r' = Superseded i route)"
    using assms(2) unfolding before after by auto
  with r' show ?thesis by auto
qed

text \<open>An admission goes out only over the keys it was staged over: the ones the admin's pin of that person holds
  now, by their key commitment.\<close>

theorem admission_sent_over_pinned_keys:
  assumes "readOutboxEntry stored gid (Some \<lparr> apUserId = uid, apKeys = keyCommitment P pin \<rparr>) kept_id head
      = Some (Send i (Admit_Route who) body)"
  shows "who = uid \<and> (\<exists>v a c. stored = Some v \<and> obAdmits v = Some a \<and> obState v = Some ''ready''
    \<and> keyCommitment P pin = Some c \<and> admittedKeys (Some a) = Some c \<and> admUserId a = Some uid)"
  using assms
  by (auto simp: readOutboxEntry_def same_keys_def falsy_def Let_def split: if_splits option.splits outbox_route.splits)

end
