(* ===== verification/Sample_Devices.thy ===== *)
theory Sample_Devices
  imports Sample_Links First_Seen Settings_Marks Outbox
begin

text \<open>
  The witnesses of what a device keeps: a guard that follows a succession of identity, settings opened twice, and
  an entry of the outbox the chain passed.
\<close>

section \<open>A guard along a succession\<close>

definition seen_guard :: guard_entry where
  "seen_guard = \<lparr> revision = 1, g_keyVersion = None, g_encryptionPublicKey = sample_key 1, g_signingPublicKey = sample_key 2,
     g_mlDsaPublicKeyHash = hex_of (replicate 32 3), g_kemPublicKeyHash = hex_of (replicate 32 4), previousSigningKeys = [],
     g_verified = False \<rparr>"

definition followed_pin :: pin_keys where
  "followed_pin = \<lparr> p_keyVersion = Some 2, p_encryptionPublicKey = sample_key 5, p_signingPublicKey = sample_key 6,
     p_mlDsaPublicKeyHash = Some (hex_of (replicate 32 7)), p_kemPublicKeyHash = Some (hex_of (replicate 32 8)), p_fingerprint = [] \<rparr>"

lemma last_encode: "last (encode (replicate (3 * k + 2) n)) = last (encode [n, n])"
proof (induction k)
  case (Suc k)
  have "replicate (3 * Suc k + 2) n = n # n # n # replicate (3 * k + 2) n" by (simp add: numeral_eq_Suc)
  moreover have "encode (replicate (3 * k + 2) n) \<noteq> []" by (simp add: encode_eq_Nil)
  ultimately show ?case using Suc by (simp add: Let_def)
qed (simp add: numeral_2_eq_2)

lemma last_sample_key: "last (sample_key n) = last (encode [n, n])"
proof -
  have "replicate 32 n = replicate (3 * 10 + 2) n" by simp
  then show ?thesis unfolding sample_key_def by (simp only: last_encode)
qed

lemma lasts: "last (encode [1, 1]) = CHR ''E''" "last (encode [2, 2]) = CHR ''I''" "last (encode [5, 5]) = CHR ''U''" "last (encode [6, 6]) = CHR ''Y''"
  by code_simp+

lemma canonical_sample: "n \<in> {1, 2, 5, 6} \<Longrightarrow> canonicalKey (sample_key n) = Inr (replicate 32 n)"
proof -
  assume n: "n \<in> {1, 2, 5, 6}"
  have "last (sample_key n) \<in> set ''AEIMQUYcgkosw048''" unfolding last_sample_key using n lasts by auto
  then show ?thesis
    by (simp add: canonicalKey_def Let_def publicKeyBytes_def sample_key_def encode_text atob_encode encode_length del: list.set)
qed

lemma link_sha: "sha256_32 link_primitives"
  by (simp add: sha256_32_def link_primitives_def link_hash_def)

lemma fingerprints:
  "fingerprint link_primitives (replicate 32 m) b (replicate 32 c) (replicate 32 d) = Inr (spaced (hex_of (replicate 20 m)))" if "length b = 32"
  using that by (simp add: fingerprint_def link_primitives_def link_hash_def Let_def nth_append text_encode_def utf8_def)

lemma hex_of_empty [simp]: "hex_of bs = [] \<longleftrightarrow> bs = []"
  by (cases bs) simp_all

lemma seen_commitments:
  "keyCommitment link_primitives (keys_of_guard seen_guard) = Some (spaced (hex_of (replicate 20 1)))"
  "keyCommitment link_primitives followed_pin = Some (spaced (hex_of (replicate 20 5)))"
  by (simp_all add: keyCommitment_def falsy_def pin_print_def keys_of_guard_def seen_guard_def followed_pin_def canonical_sample fingerprints
      hexBytes_def)

lemma guard_follows:
  "guardAgrees link_primitives (sample_uuid CHR ''a'') (Guard seen_guard) (Some followed_pin) (Some (link_served, [sample_link])) = Follows"
proof -
  have c: "canonicalBytes (encode bs) (Some (length bs)) = Inr bs" for bs
    by (simp add: canonicalBytes_def Let_def publicKeyBytes_def encode_text atob_encode)
  have "canonicalBytes (long_key 7) (Some 1952) = Inr (replicate 1952 7)" "canonicalBytes (encode (replicate 1184 8)) (Some 1184) = Inr (replicate 1184 8)"
    using c [of "replicate 1952 7"] c [of "replicate 1184 8"] by (simp_all add: long_key_def ML_DSA_PUBLIC_KEY_BYTES_def)
  moreover have "keyDigest link_primitives (replicate 1952 7) = hex_of (replicate 32 7)" "keyDigest link_primitives (replicate 1184 8) = hex_of (replicate 32 8)"
    by (simp_all add: keyDigest_def link_primitives_def link_hash_def)
  ultimately have p: "pinKeysOfServed link_primitives link_served Form_Seen = Inr followed_pin"
    using seen_commitments(2)
    by (simp add: pinKeysOfServed_def link_served_def integer_def isSafeInteger_def MAX_SAFE_INTEGER_def followed_pin_def)
  have "verifySuccessionLink link_primitives (sample_uuid CHR ''a'') sample_link (sample_key 2) (long_key 3)"
    using link_proved [of "CHR ''a''" False] by (simp add: proves_def)
  then have "verifySuccessionChain link_primitives (sample_uuid CHR ''a'') (pinned_of_guard seen_guard) link_served [sample_link]"
    by (simp add: verifySuccessionChain_def leaves_pin_def pinned_of_guard_def seen_guard_def after_link_def link_served_def)
  moreover have "pinTrust link_primitives followed_pin = Pin_Seen" using seen_pin_of_served(1) [OF link_sha p] .
  moreover have "spaced (hex_of (replicate 20 5)) \<noteq> spaced (hex_of (replicate 20 (1 :: byte)))"
    by code_simp
  ultimately show ?thesis by (simp add: guardAgrees_def Let_def seen_commitments p)
qed

theorem guard_follows_only_a_proof_witness:
  "\<exists>first. verifySuccessionLink link_primitives (sample_uuid CHR ''a'') first (sample_key 2) (l_oldMlDsaPublicKey first)
    \<and> leaves_pin link_primitives (pinned_of_guard seen_guard) first"
proof -
  have "g_signingPublicKey seen_guard = sample_key 2" by (simp add: seen_guard_def)
  with guard_follows_only_a_proof [OF guard_follows] show ?thesis by auto
qed

section \<open>Settings\<close>

definition opened_settings :: settings_marks where
  "opened_settings = \<lparr> smUserId = sample_uuid CHR ''a'', smPins = [], smContacts = [], smChecks = [], smOpened = True, smSettingsVersion = 5 \<rparr>"

theorem settings_never_go_back_witness:
  "\<exists>held. settings_step (sample_uuid CHR ''a'') (Some opened_settings) held \<and> (\<exists>h. held = Some h \<and> smSettingsVersion h = 6)
    \<and> settingsMarks held (sample_uuid CHR ''a'') None 0 = Inl OLDER_SETTINGS"
proof -
  obtain marks where m: "settingsMarks (Some opened_settings) (sample_uuid CHR ''a'') (Some \<lparr> srGroups = None, srContacts = [], srFamilyChecks = None \<rparr>) 6 = Inr marks"
    "smSettingsVersion marks = 6" by (simp add: settingsMarks_def opened_settings_def)
  from used [OF m(1)] have s: "settings_step (sample_uuid CHR ''a'') (Some opened_settings) (Some marks)" .
  have "smUserId opened_settings = sample_uuid CHR ''a''" "smOpened opened_settings" by (simp_all add: opened_settings_def)
  from settings_never_go_back [OF r_into_rtranclp [where r = "settings_step (sample_uuid CHR ''a'')", OF s] this] s m(2) show ?thesis by blast
qed

section \<open>The outbox\<close>

definition passed_entry :: raw_outbox_entry where
  "passed_entry = \<lparr> obVersion = JNum 1, obId = Some ''1'', obGroupId = Some ''g'', obStagedEnvelope = Some ''e'', obState = Some ''ready'',
     obBody = Some ''{}'', obRoute = Some \<lparr> rtKind = Some ''rosters'', rtUserId = None, rtWorkspaceId = None \<rparr>,
     obPreviousRosterDigest = Some ''p'', obRosterDigest = Some ''q'', obAdmits = None \<rparr>"

theorem passed_entry_is_never_sent_witness:
  "readOutboxEntry (Some passed_entry) ''g'' None None (Some [''p'']) = Some (Send ''1'' Rosters_Route ''{}'')
    \<and> (\<exists>r. readOutboxEntry (Some passed_entry) ''g'' None None (Some [''p'', ''x'', ''y'']) = Some r \<and> r \<noteq> Send ''1'' Rosters_Route ''{}'')"
proof -
  have s: "readOutboxEntry (Some passed_entry) ''g'' None None (Some [''p'']) = Some (Send ''1'' Rosters_Route ''{}'')"
    "readOutboxEntry (Some passed_entry) ''g'' None None (Some [''p'', ''x'']) = Some (Superseded ''1'' Rosters_Route)"
    by (simp_all add: readOutboxEntry_def passed_entry_def falsy_def routeOf_def entry_digest_def Let_def)
  from passed_entry_is_never_sent [OF s(2), of "[''y'']" None] s(1) show ?thesis by auto
qed

end
