(* ===== verification/Record_Acceptance.thy ===== *)
theory Record_Acceptance
  imports Drive_Ledger
begin

text \<open>
  \<open>packages/crypto/src/record-acceptance.ts\<close>: the order in which a family's served chain is accepted against
  this device's record. An attempt is any operation of the worker on a state: told the roster version the
  server is asked after, whether the cache is left out and whether a refusal is tried again here, it answers or
  throws, and leaves a state.
\<close>

definition NOT_THIS_ACCOUNT :: crypto_error where
  "NOT_THIS_ACCOUNT = CryptoError (''These keys are not this account'' @ rsquo @ ''s. Unlock again and retry.'')"
definition NO_ACCOUNT :: crypto_error where "NO_ACCOUNT = CryptoError ''Unlock your account first.''"
definition OPEN_SETTINGS :: crypto_error where "OPEN_SETTINGS = CryptoError ''Open your settings first.''"
definition FAMILY_FORGOTTEN :: crypto_error where
  "FAMILY_FORGOTTEN = CryptoError ''This family was removed from this device while it was being checked. Sync again.''"

definition accountError :: "thrown \<Rightarrow> bool" where
  "accountError e \<longleftrightarrow> e \<in> Refusal ` {NOT_THIS_ACCOUNT, NO_ACCOUNT, OPEN_SETTINGS, FAMILY_FORGOTTEN}"

definition lostRace :: "thrown \<Rightarrow> bool" where
  "lostRace e \<longleftrightarrow> e = Refusal OLDER_CHAIN \<or> e = Refusal SPLIT_CHAIN"

definition SERVED_OLDER :: string where
  "SERVED_OLDER = ''HushOS sent an older member list than this device already checked. Try again later.''"
definition SERVED_SPLIT :: string where
  "SERVED_SPLIT = ''HushOS sent a different member list at the version this device already checked. Try again later.''"

definition servedRaceMessage :: "bool \<Rightarrow> string" where
  "servedRaceMessage split = (if split then SERVED_SPLIT else SERVED_OLDER)"

type_synonym ('s, 'a) attempt = "nat \<Rightarrow> bool \<Rightarrow> bool \<Rightarrow> 's \<Rightarrow> (thrown + 'a) \<times> 's"

definition acceptFromRecord :: "nat option \<Rightarrow> ('s, 'a) attempt \<Rightarrow> (thrown \<Rightarrow> bool) \<Rightarrow> 's \<Rightarrow> (thrown + 'a) \<times> 's" where
  "acceptFromRecord recordVersion try_from rethrow s =
     (let passes = (\<lambda>e. accountError e \<or> rethrow e) in
      case try_from (case recordVersion of None \<Rightarrow> 0 | Some v \<Rightarrow> v) False (recordVersion \<noteq> None) s of
        (Inr x, s1) \<Rightarrow> (Inr x, s1)
      | (Inl e, s1) \<Rightarrow>
          if recordVersion = None \<or> passes e then (Inl e, s1)
          else if recordVersion = Some 0 \<and> lostRace e then (Inl e, s1)
          else
            case (if recordVersion = Some 0 then (Inl e, s1) else try_from 0 False True s1) of
              (Inr x, s2) \<Rightarrow> (Inr x, s2)
            | (Inl again, s2) \<Rightarrow>
                if lostRace again \<or> passes again then (Inl again, s2) else try_from 0 True False s2)"

section \<open>Properties\<close>

text \<open>The attempts made are kept beside the state.\<close>

definition traced :: "('s, 'a) attempt \<Rightarrow> ('s \<times> (nat \<times> bool \<times> bool) list, 'a) attempt" where
  "traced try_from after withoutCache retried st =
     (case try_from after withoutCache retried (fst st) of (r, s) \<Rightarrow> (r, s, snd st @ [(after, withoutCache, retried)]))"

text \<open>With a record at version \<open>v\<close> at most three attempts are made, in one order: after \<open>v\<close>, from version 1,
  from version 1 without the cache (from version 1 only once when the record is at none); the cache is left out
  only at the last. A refusal handed on, unless the session is gone, the route's own answer or overtaken, is that
  of an attempt told that nothing is tried after it; so a refusal that is tried again is never the answer.\<close>

theorem attempts_from_a_record:
  assumes "acceptFromRecord (Some v) (traced try_from) rethrow (s, []) = (r, t, made)"
  shows "(\<exists>n. 1 \<le> n \<and> made = take n ((if v = 0 then [] else [(v, False, True)]) @ [(0, False, True), (0, True, False)]))
    \<and> (\<forall>e. r = Inl e \<longrightarrow> accountError e \<or> rethrow e \<or> lostRace e \<or> last made = (0, True, False))
    \<and> (\<exists>u. (case last made of (after, withoutCache, retried) \<Rightarrow> try_from after withoutCache retried u) = (r, t))"
proof -
  obtain r1 s1 where 1: "try_from v False True s = (r1, s1)" by (cases "try_from v False True s")
  obtain r2 s2 where 2: "try_from 0 False True s1 = (r2, s2)" by (cases "try_from 0 False True s1")
  obtain r3 s3 where 3: "try_from 0 True False s1 = (r3, s3)" by (cases "try_from 0 True False s1")
  obtain r4 s4 where 4: "try_from 0 True False s2 = (r4, s4)" by (cases "try_from 0 True False s2")
  let ?ends = "\<lambda>e. accountError e \<or> rethrow e \<or> lostRace e"
  consider (one) "r = r1" "t = s1" "made = [(v, False, True)]" "\<forall>e. r1 = Inl e \<longrightarrow> ?ends e"
    | (none_recorded) "v = 0" "r = r3" "t = s3" "made = [(0, False, True), (0, True, False)]"
    | (two) "v \<noteq> 0" "r = r2" "t = s2" "made = [(v, False, True), (0, False, True)]" "\<forall>e. r2 = Inl e \<longrightarrow> ?ends e"
    | (three) "v \<noteq> 0" "r = r4" "t = s4" "made = [(v, False, True), (0, False, True), (0, True, False)]"
    using assms 1 2 3 4 by (auto simp: acceptFromRecord_def traced_def split: sum.splits if_splits)
  then show ?thesis
  proof cases
    case one
    then show ?thesis using 1 by (auto intro!: exI [of _ 1] exI [of _ s])
  next
    case none_recorded
    then show ?thesis using 3 by (auto intro!: exI [of _ 2] exI [of _ s1])
  next
    case two
    then show ?thesis using 2 by (auto intro!: exI [of _ 2] exI [of _ s1])
  next
    case three
    then show ?thesis using 4 by (auto intro!: exI [of _ 3] exI [of _ s2])
  qed
qed

theorem attempts_from_a_record_witness:
  "\<exists>made. acceptFromRecord (Some 3) (traced (\<lambda>after withoutCache retried n. if withoutCache then (Inr n, n) else (Inl Other_throw, Suc n)))
      (\<lambda>_. False) (0, []) = (Inr 2, (2 :: nat), made)
    \<and> (\<exists>n. 1 \<le> n \<and> made = take n [(3, False, True), (0, False, True), (0, True, False)])"
proof -
  let ?attempt = "\<lambda>after withoutCache retried n. if withoutCache then (Inr n, n) else (Inl Other_throw, Suc n)"
  have "acceptFromRecord (Some 3) (traced ?attempt) (\<lambda>_. False) (0, [])
      = (Inr 2, (2 :: nat), [(3, False, True), (0, False, True), (0, True, False)])"
    by (simp add: acceptFromRecord_def traced_def accountError_def lostRace_def)
  from attempts_from_a_record [OF this] this show ?thesis by auto
qed

end
