(* ===== verification/Workspace_Grants.thy ===== *)
theory Workspace_Grants
  imports Drive_Bindings
begin

text \<open>
  \<open>packages/crypto/src/workspace.ts\<close>: a workspace key wrapped under a key derived from each member's root, a personal
  workspace's grant and a family folder's self-grant, which are bound to contexts of their own. The salt, the nonce
  and a new key, drawn at random, are arguments; an import of a root of another length than the caller's 32 bytes is
  left to HKDF. The check that an opened key has 32 bytes stays.
\<close>

record workspace_grant =
  wgVersion :: int
  wgWorkspaceId :: string
  wgKeyVersion :: int
  wgWorkspaceKeyVersion :: int
  wgWrappingSalt :: string
  wgWrappingNonce :: string
  wgEncryptedKey :: string

definition INVALID_WORKSPACE_KEY :: crypto_error where "INVALID_WORKSPACE_KEY = invalid ''workspace key''"
definition INVALID_WORKSPACE_ID :: crypto_error where "INVALID_WORKSPACE_ID = invalid ''workspace id''"
definition UNSUPPORTED_GRANT :: crypto_error where "UNSUPPORTED_GRANT = CryptoError ''Unsupported workspace key envelope.''"

definition grantWrappingKey :: "primitives \<Rightarrow> bytes \<Rightarrow> bytes \<Rightarrow> bytes" where
  "grantWrappingKey P root salt = hkdf P root salt (text_encode ''hushos/workspace/grant-wrap/v1'')"

definition grantContext :: "string \<Rightarrow> string \<Rightarrow> int \<Rightarrow> int \<Rightarrow> bytes" where
  "grantContext uid w v wv = statement_bytes [JStr ''hushos/workspace/grant'', JNum 1, JStr (toLowerCase uid),
     JStr (toLowerCase w), JNum v, JNum wv]"

definition areaSelfGrantContext :: "string \<Rightarrow> string \<Rightarrow> string \<Rightarrow> int \<Rightarrow> int \<Rightarrow> bytes" where
  "areaSelfGrantContext uid g w v wv = statement_bytes [JStr ''hushos/group/area-self-grant'', JNum 1, JStr (toLowerCase uid),
     JStr (toLowerCase g), JStr (toLowerCase w), JNum v, JNum wv]"

definition checkGrant :: "workspace_grant \<Rightarrow> crypto_error + unit" where
  "checkGrant envelope = refuse_if (wgVersion envelope \<noteq> 1 \<or> \<not> is_uuid (wgWorkspaceId envelope)
     \<or> \<not> isSafeInteger (wgKeyVersion envelope) \<or> wgKeyVersion envelope < 1
     \<or> \<not> isSafeInteger (wgWorkspaceKeyVersion envelope) \<or> wgWorkspaceKeyVersion envelope < 1) UNSUPPORTED_GRANT"

text \<open>The salt and the nonce drawn.\<close>

type_synonym grant_draws = "bytes \<times> bytes"

definition wrapWorkspaceKey :: "primitives \<Rightarrow> seal_primitives \<Rightarrow> grant_draws \<Rightarrow> bytes \<Rightarrow> bytes \<Rightarrow> string \<Rightarrow> int \<Rightarrow> int \<Rightarrow> bytes
    \<Rightarrow> workspace_grant" where
  "wrapWorkspaceKey P S draws workspace_key root w v wv ctx =
     \<lparr> wgVersion = 1, wgWorkspaceId = w, wgKeyVersion = v, wgWorkspaceKeyVersion = wv, wgWrappingSalt = encode (fst draws),
       wgWrappingNonce = encode (snd draws),
       wgEncryptedKey = encode (aead_encrypt S workspace_key ctx (snd draws) (grantWrappingKey P root (fst draws))) \<rparr>"

definition createWorkspaceGrant :: "primitives \<Rightarrow> seal_primitives \<Rightarrow> grant_draws \<Rightarrow> bytes \<Rightarrow> bytes \<Rightarrow> string \<Rightarrow> string \<Rightarrow> int
    \<Rightarrow> crypto_error + workspace_grant" where
  "createWorkspaceGrant P S draws fresh root uid w v =
     (if \<not> is_uuid w then Inl INVALID_WORKSPACE_ID
      else Inr (wrapWorkspaceKey P S draws fresh root w v 1 (grantContext uid w v 1)))"

definition grantAreaKey :: "primitives \<Rightarrow> seal_primitives \<Rightarrow> grant_draws \<Rightarrow> bytes \<Rightarrow> bytes \<Rightarrow> string \<Rightarrow> string \<Rightarrow> string \<Rightarrow> int \<Rightarrow> int
    \<Rightarrow> crypto_error + workspace_grant" where
  "grantAreaKey P S draws workspace_key root uid g w v wv =
     (if \<not> is_uuid w \<or> \<not> is_uuid g then Inl INVALID_WORKSPACE_ID
      else if length workspace_key \<noteq> 32 then Inl INVALID_WORKSPACE_KEY
      else Inr (wrapWorkspaceKey P S draws workspace_key root w v wv (areaSelfGrantContext uid g w v wv)))"

definition open_grant :: "primitives \<Rightarrow> seal_primitives \<Rightarrow> bytes \<Rightarrow> workspace_grant \<Rightarrow> bytes \<Rightarrow> crypto_error + bytes" where
  "open_grant P S root envelope ctx =
     bindE (checkGrant envelope) (\<lambda>_.
     bindE (decode (wgWrappingSalt envelope) (Some 32)) (\<lambda>salt.
     bindE (decode (wgEncryptedKey envelope) (Some 48)) (\<lambda>body.
     bindE (decode (wgWrappingNonce envelope) (Some 24)) (\<lambda>nonce.
     bindE (decryptKey S body (grantWrappingKey P root salt) nonce ctx) (\<lambda>key.
       if length key \<noteq> 32 then Inl INVALID_WORKSPACE_KEY else Inr key)))))"

definition openAreaSelfGrant :: "primitives \<Rightarrow> seal_primitives \<Rightarrow> bytes \<Rightarrow> string \<Rightarrow> string \<Rightarrow> workspace_grant \<Rightarrow> crypto_error + bytes" where
  "openAreaSelfGrant P S root uid g envelope = open_grant P S root envelope
     (areaSelfGrantContext uid g (wgWorkspaceId envelope) (wgKeyVersion envelope) (wgWorkspaceKeyVersion envelope))"

definition openWorkspaceKey :: "primitives \<Rightarrow> seal_primitives \<Rightarrow> bytes \<Rightarrow> string \<Rightarrow> workspace_grant \<Rightarrow> crypto_error + bytes" where
  "openWorkspaceKey P S root uid envelope = open_grant P S root envelope
     (grantContext uid (wgWorkspaceId envelope) (wgKeyVersion envelope) (wgWorkspaceKeyVersion envelope))"

definition rewrapAreaSelfGrant :: "primitives \<Rightarrow> seal_primitives \<Rightarrow> grant_draws \<Rightarrow> bytes \<Rightarrow> bytes \<Rightarrow> string \<Rightarrow> string \<Rightarrow> workspace_grant
    \<Rightarrow> int \<Rightarrow> crypto_error + workspace_grant" where
  "rewrapAreaSelfGrant P S draws oldRoot newRoot uid g envelope v =
     bindE (openAreaSelfGrant P S oldRoot uid g envelope) (\<lambda>key.
       grantAreaKey P S draws key newRoot uid g (wgWorkspaceId envelope) v (wgWorkspaceKeyVersion envelope))"

definition rewrapWorkspaceGrant :: "primitives \<Rightarrow> seal_primitives \<Rightarrow> grant_draws \<Rightarrow> bytes \<Rightarrow> bytes \<Rightarrow> string \<Rightarrow> workspace_grant \<Rightarrow> int
    \<Rightarrow> crypto_error + workspace_grant" where
  "rewrapWorkspaceGrant P S draws oldRoot newRoot uid envelope v =
     bindE (openWorkspaceKey P S oldRoot uid envelope) (\<lambda>key.
       Inr (wrapWorkspaceKey P S draws key newRoot (wgWorkspaceId envelope) v (wgWorkspaceKeyVersion envelope)
         (grantContext uid (wgWorkspaceId envelope) v (wgWorkspaceKeyVersion envelope))))"

section \<open>Lemmas\<close>

definition version_number :: "int \<Rightarrow> bool" where
  "version_number v \<longleftrightarrow> isSafeInteger v \<and> 1 \<le> v"

lemma wrapped_grant_opens:
  assumes "aead_correct S" "hkdf_32 P" "length (fst draws) = 32" "length (snd draws) = 24" "length key = 32" "is_uuid w"
    "version_number v" "version_number wv"
  shows "open_grant P S root (wrapWorkspaceKey P S draws key root w v wv ctx) ctx = Inr key"
proof -
  let ?wrap = "grantWrappingKey P root (fst draws)"
  have "length ?wrap = 32" using assms(2) by (simp add: grantWrappingKey_def hkdf_32_def)
  then have "length (aead_encrypt S key ctx (snd draws) ?wrap) = 48" "aead_decrypt S (aead_encrypt S key ctx (snd draws) ?wrap) ctx (snd draws) ?wrap = Some key"
    using assms(1,4,5) by (simp_all add: aead_correct_def)
  moreover from this have "aead_encrypt S key ctx (snd draws) ?wrap \<noteq> []" by auto
  moreover have "fst draws \<noteq> []" "snd draws \<noteq> []" using assms(3,4) by auto
  ultimately show ?thesis using assms(3-8)
    by (simp add: open_grant_def checkGrant_def wrapWorkspaceKey_def decode_encode decryptKey_def version_number_def not_less)
qed

lemma opened_grant: "open_grant P S root envelope ctx = Inr key \<Longrightarrow> length key = 32 \<and> is_uuid (wgWorkspaceId envelope) \<and> version_number (wgWorkspaceKeyVersion envelope)"
  by (auto simp: open_grant_def checkGrant_def returns version_number_def split: if_splits)

section \<open>Properties\<close>

text \<open>A change of the master key changes no workspace key: what a member's grant of a personal workspace, or of a
  family's folder, opened to under the old root, its rewrapping opens to under the new one, for the same member, the
  same workspace at the same version, and the same family.\<close>

theorem rewrapped_grant_opens_alike:
  assumes "aead_correct S" "hkdf_32 P" "length (fst draws) = 32" "length (snd draws) = 24" "version_number v"
  shows "rewrapWorkspaceGrant P S draws oldRoot newRoot uid envelope v = Inr again
      \<Longrightarrow> openWorkspaceKey P S newRoot uid again = openWorkspaceKey P S oldRoot uid envelope \<and> wgWorkspaceId again = wgWorkspaceId envelope
        \<and> wgWorkspaceKeyVersion again = wgWorkspaceKeyVersion envelope"
    "rewrapAreaSelfGrant P S draws oldRoot newRoot uid g envelope v = Inr again
      \<Longrightarrow> openAreaSelfGrant P S newRoot uid g again = openAreaSelfGrant P S oldRoot uid g envelope \<and> wgWorkspaceId again = wgWorkspaceId envelope
        \<and> wgWorkspaceKeyVersion again = wgWorkspaceKeyVersion envelope"
proof -
  note opens = wrapped_grant_opens [OF assms(1-4)]
  have f: "wgWorkspaceId (wrapWorkspaceKey P S draws key root w v wv ctx) = w" "wgKeyVersion (wrapWorkspaceKey P S draws key root w v wv ctx) = v"
    "wgWorkspaceKeyVersion (wrapWorkspaceKey P S draws key root w v wv ctx) = wv" for key root w v wv ctx
    by (simp_all add: wrapWorkspaceKey_def)
  show "openWorkspaceKey P S newRoot uid again = openWorkspaceKey P S oldRoot uid envelope \<and> wgWorkspaceId again = wgWorkspaceId envelope
        \<and> wgWorkspaceKeyVersion again = wgWorkspaceKeyVersion envelope"
    if "rewrapWorkspaceGrant P S draws oldRoot newRoot uid envelope v = Inr again"
    using that opened_grant [of P S oldRoot envelope] assms(5)
    by (auto simp: rewrapWorkspaceGrant_def openWorkspaceKey_def returns f opens)
  show "openAreaSelfGrant P S newRoot uid g again = openAreaSelfGrant P S oldRoot uid g envelope \<and> wgWorkspaceId again = wgWorkspaceId envelope
        \<and> wgWorkspaceKeyVersion again = wgWorkspaceKeyVersion envelope"
    if "rewrapAreaSelfGrant P S draws oldRoot newRoot uid g envelope v = Inr again"
    using that opened_grant [of P S oldRoot envelope] assms(5)
    by (auto simp: rewrapAreaSelfGrant_def openAreaSelfGrant_def grantAreaKey_def returns f opens split: if_splits)
qed

text \<open>A family folder's self-grant is never a personal workspace's, and a context names one member, workspace, family
  and versions: associated data that agree are for the same grant.\<close>

theorem one_grant_one_context:
  "grantContext uid w v wv \<noteq> areaSelfGrantContext uid' g' w' v' wv'
    \<and> (grantContext uid w v wv = grantContext uid' w' v' wv'
        \<longrightarrow> toLowerCase uid = toLowerCase uid' \<and> toLowerCase w = toLowerCase w' \<and> v = v' \<and> wv = wv')
    \<and> (areaSelfGrantContext uid g w v wv = areaSelfGrantContext uid' g' w' v' wv'
        \<longrightarrow> toLowerCase uid = toLowerCase uid' \<and> toLowerCase g = toLowerCase g' \<and> toLowerCase w = toLowerCase w' \<and> v = v' \<and> wv = wv')"
  if "0 \<le> v" "0 \<le> wv" "0 \<le> v'" "0 \<le> wv'"
  using that by (auto simp: grantContext_def areaSelfGrantContext_def dest!: statement_bytes_inj)

end
