(* ===== verification/Stash.thy ===== *)
theory Stash
  imports Drive_Bindings
begin

text \<open>
  \<open>packages/crypto/src/stash.ts\<close>: the bytes of an unfinished upload, sealed chunk by chunk for the browser's own file
  system. Web Crypto's AES-GCM is an argument (text or body, associated data, nonce, key), as are the 8 bytes drawn that
  start every nonce. A key Web Crypto holds unextractably is its 32 bytes.
\<close>

section \<open>Sealing and opening\<close>

record aes_gcm =
  gcm_encrypt :: "bytes \<Rightarrow> bytes \<Rightarrow> bytes \<Rightarrow> bytes \<Rightarrow> bytes"
  gcm_decrypt :: "bytes \<Rightarrow> bytes \<Rightarrow> bytes \<Rightarrow> bytes \<Rightarrow> bytes option"

definition STASH_MAGIC :: bytes where "STASH_MAGIC = [0x48, 0x53, 0x53, 0x31]"
definition HEADER_BYTES :: nat where "HEADER_BYTES = 4 + 4 + 8 + 8"
definition TAG_BYTES :: nat where "TAG_BYTES = 16"
definition STASH_CHUNK_BYTES :: int where "STASH_CHUNK_BYTES = 8 * 1024 * 1024"
definition STASH_LABEL :: string where "STASH_LABEL = ''hushos/stash/v1''"
definition MAX_UINT32 :: int where "MAX_UINT32 = 2 ^ 32"

definition INVALID_ACCOUNT_KEY :: crypto_error where "INVALID_ACCOUNT_KEY = invalid ''account key''"
definition STASH_TOO_LARGE :: crypto_error where "STASH_TOO_LARGE = CryptoError ''This file is too large to stash.''"
definition STASH_DAMAGED :: crypto_error where "STASH_DAMAGED = CryptoError ''This stash is damaged.''"
definition STASH_NOT_SEALED :: crypto_error where "STASH_NOT_SEALED = CryptoError ''This stash is not sealed.''"
definition STASH_NOT_OPENED :: crypto_error where
  "STASH_NOT_OPENED = CryptoError ''This stash could not be opened on this account.''"

text \<open>\<open>stashLost\<close>, on the message that crossed the worker's boundary.\<close>

definition stashLost :: "crypto_error \<Rightarrow> bool" where
  "stashLost e = (case e of CryptoError message \<Rightarrow> take 11 message = ''This stash '')"

definition deriveStashKey :: "primitives \<Rightarrow> bytes \<Rightarrow> string \<Rightarrow> crypto_error + bytes" where
  "deriveStashKey P root uid =
     (if length root \<noteq> 32 then Inl INVALID_ACCOUNT_KEY
      else Inr (hkdf P root (replicate 32 0) (text_encode (STASH_LABEL @ '':'' @ toLowerCase uid))))"

definition associated :: "bytes \<Rightarrow> string \<Rightarrow> nat \<Rightarrow> bytes" where
  "associated header stash_name index =
     header @ text_encode (''|'' @ STASH_LABEL @ ''|'' @ stash_name @ ''|'' @ decimal index)"

definition nonceOf :: "bytes \<Rightarrow> nat \<Rightarrow> bytes" where
  "nonceOf prefix_bytes index = prefix_bytes @ big_endian 4 index"

definition stashChunks :: "nat \<Rightarrow> nat \<Rightarrow> nat" where
  "stashChunks whole chunk = max 1 ((whole + chunk - 1) div chunk)"

definition stash_header :: "nat \<Rightarrow> nat \<Rightarrow> bytes \<Rightarrow> bytes" where
  "stash_header chunk whole prefix_bytes = STASH_MAGIC @ big_endian 4 chunk @ big_endian 8 whole @ prefix_bytes"

text \<open>\<open>bytes.subarray(index * chunk, Math.min(whole, (index + 1) * chunk))\<close>.\<close>

definition stash_piece :: "bytes \<Rightarrow> nat \<Rightarrow> nat \<Rightarrow> bytes" where
  "stash_piece bs chunk index = take chunk (drop (index * chunk) bs)"

definition sealStash :: "aes_gcm \<Rightarrow> bytes \<Rightarrow> bytes \<Rightarrow> string \<Rightarrow> bytes \<Rightarrow> int \<Rightarrow> crypto_error + bytes list" where
  "sealStash G prefix_bytes key stash_name bs chunk =
     (if chunk < 1 \<or> chunk \<ge> MAX_UINT32 \<or> int (stashChunks (length bs) (nat chunk)) \<ge> MAX_UINT32 then Inl STASH_TOO_LARGE
      else
        let header = stash_header (nat chunk) (length bs) prefix_bytes in
        Inr (header # map (\<lambda>index. gcm_encrypt G (stash_piece bs (nat chunk) index) (associated header stash_name index)
          (nonceOf prefix_bytes index) key) [0..<stashChunks (length bs) (nat chunk)]))"

text \<open>The loop of \<open>openStash\<close>: how many chunks are remaining, the index and the offset.\<close>

primrec open_chunks :: "nat \<Rightarrow> (bytes \<Rightarrow> nat \<Rightarrow> bytes option) \<Rightarrow> bytes \<Rightarrow> nat \<Rightarrow> nat \<Rightarrow> nat \<Rightarrow> nat \<Rightarrow> crypto_error + bytes list" where
  "open_chunks 0 opens file chunk whole index offset = Inr []"
| "open_chunks (Suc remaining) opens file chunk whole index offset =
     (let plainBytes = (if remaining = 0 then whole - index * chunk else chunk) in
      case opens (take (plainBytes + TAG_BYTES) (drop offset file)) index of
        None \<Rightarrow> Inl STASH_NOT_OPENED
      | Some m \<Rightarrow> bindE (open_chunks remaining opens file chunk whole (Suc index) (offset + plainBytes + TAG_BYTES)) (\<lambda>parts. Inr (m # parts)))"

definition openStash :: "aes_gcm \<Rightarrow> bytes \<Rightarrow> string \<Rightarrow> bytes \<Rightarrow> crypto_error + bytes list" where
  "openStash G key stash_name file =
     (if length file < HEADER_BYTES then Inl STASH_DAMAGED
      else
        let header = take HEADER_BYTES file;
            chunk = big_endian_value (take 4 (drop 4 header));
            whole = big_endian_value (take 8 (drop 8 header));
            prefix_bytes = take 8 (drop 16 header);
            count = stashChunks whole chunk in
        if take 4 header \<noteq> STASH_MAGIC then Inl STASH_NOT_SEALED
        else if chunk = 0 \<or> \<not> isSafeInteger (int whole) then Inl STASH_DAMAGED
        else if length file \<noteq> HEADER_BYTES + whole + count * TAG_BYTES then Inl STASH_DAMAGED
        else open_chunks count (\<lambda>sealed index. gcm_decrypt G sealed (associated header stash_name index)
          (nonceOf prefix_bytes index) key) file chunk whole 0 HEADER_BYTES)"

section \<open>Lemmas\<close>

lemmas stash_sizes = HEADER_BYTES_def TAG_BYTES_def STASH_MAGIC_def

text \<open>AES-GCM opens what it sealed, in 16 bytes more.\<close>

definition gcm_correct :: "aes_gcm \<Rightarrow> bool" where
  "gcm_correct G \<longleftrightarrow> (\<forall>m aad n k. length n = 12 \<longrightarrow> length k = 32 \<longrightarrow> length (gcm_encrypt G m aad n k) = length m + 16
     \<and> gcm_decrypt G (gcm_encrypt G m aad n k) aad n k = Some m)"

lemma ceil_bounds:
  assumes "0 < chunk" "c = (whole + chunk - 1) div (chunk :: nat)"
  shows "whole \<le> c * chunk" "0 < whole \<Longrightarrow> (c - 1) * chunk < whole" "whole = 0 \<Longrightarrow> c = 0"
proof -
  let ?n = "whole + chunk - 1"
  have d: "c * chunk + ?n mod chunk = ?n" "?n mod chunk < chunk" using assms by (simp_all add: div_mult_mod_eq)
  then show "whole \<le> c * chunk" using assms(1) by linarith
  show "(c - 1) * chunk < whole" if "0 < whole"
  proof (cases c)
    case (Suc k)
    with d(1) assms(1) that show ?thesis by simp
  qed (use that in simp)
  show "c = 0" if "whole = 0" using assms that by simp
qed

lemma stash_pieces:
  assumes "0 < chunk"
  shows "length bs \<le> stashChunks (length bs) chunk * chunk" "(stashChunks (length bs) chunk - 1) * chunk \<le> length bs"
    "0 < stashChunks (length bs) chunk"
proof -
  let ?w = "length bs"
  define c where "c = (?w + chunk - 1) div chunk"
  note b = ceil_bounds [OF assms c_def]
  have n: "stashChunks ?w chunk = (if ?w = 0 then 1 else c)"
    using b unfolding stashChunks_def c_def [symmetric] by (cases "?w = 0"; cases c) simp_all
  show "?w \<le> stashChunks ?w chunk * chunk" "(stashChunks ?w chunk - 1) * chunk \<le> ?w" "0 < stashChunks ?w chunk"
    using b unfolding n by (cases "?w = 0"; cases c; simp)+
qed

lemma concat_pieces: "concat (map (stash_piece bs chunk) [0..<n]) = take (n * chunk) bs"
  by (induction n) (simp_all add: stash_piece_def take_add [symmetric] add.commute)

lemma piece_length: "Suc index * chunk \<le> length bs \<Longrightarrow> length (stash_piece bs chunk index) = chunk"
  by (simp add: stash_piece_def)

text \<open>The loop, on what was sealed in order.\<close>

lemma chunks_open:
  assumes "\<And>i. i < count \<Longrightarrow> opens (sealed i) i = Some (stash_piece bs chunk i)"
    and "\<And>i. i < count \<Longrightarrow> length (sealed i) = length (stash_piece bs chunk i) + TAG_BYTES"
    and "(count - 1) * chunk \<le> length bs" "length bs \<le> count * chunk"
  shows "index + remaining = count \<Longrightarrow> drop offset file = concat (map sealed [index..<count])
    \<Longrightarrow> open_chunks remaining opens file chunk (length bs) index offset = Inr (map (stash_piece bs chunk) [index..<count])"
proof (induction remaining arbitrary: index offset)
  case (Suc remaining)
  let ?plain = "if remaining = 0 then length bs - index * chunk else chunk"
  from Suc.prems(1) have i: "index < count" and c: "[index..<count] = index # [Suc index..<count]" by (simp_all add: upt_conv_Cons)
  have "length (stash_piece bs chunk index) = ?plain"
  proof (cases remaining)
    case 0
    with Suc.prems(1) assms(3,4) have "length bs \<le> index * chunk + chunk" by (cases count) auto
    with 0 show ?thesis by (simp add: stash_piece_def)
  next
    case (Suc k)
    with Suc.prems(1) have "Suc index * chunk \<le> (count - 1) * chunk" by (intro mult_le_mono) simp_all
    with Suc assms(3) show ?thesis by (simp only: piece_length) simp
  qed
  with assms(2) [OF i] have l: "length (sealed index) = ?plain + TAG_BYTES" by simp
  have d: "drop offset file = sealed index @ concat (map sealed [Suc index..<count])" using Suc.prems(2) by (simp add: c)
  have "drop (offset + ?plain + TAG_BYTES) file = drop (?plain + TAG_BYTES) (drop offset file)" by (simp add: add.commute add.left_commute)
  also have "\<dots> = concat (map sealed [Suc index..<count])" unfolding d using l by simp
  finally have rest: "open_chunks remaining opens file chunk (length bs) (Suc index) (offset + ?plain + TAG_BYTES)
      = Inr (map (stash_piece bs chunk) [Suc index..<count])" using Suc.prems(1) by (intro Suc.IH) simp_all
  have "take (?plain + TAG_BYTES) (drop offset file) = sealed index" unfolding d using l by simp
  with rest assms(1) [OF i] show ?case by (simp add: c Let_def)
qed simp

lemma last_split: "a @ c # b = a' @ c # b' \<Longrightarrow> c \<notin> set b \<Longrightarrow> c \<notin> set b' \<Longrightarrow> a = a' \<and> b = b'"
  by (auto simp: append_eq_append_conv2 Cons_eq_append_conv append_eq_Cons_conv)

lemma decimal_inj: "decimal i = decimal j \<Longrightarrow> i = j"
  by (drule arg_cong [where f = "foldl (\<lambda>n c. 10 * n + digit_val c) 0"]) (simp only: decimal_value)

section \<open>Properties\<close>

text \<open>What is stashed, chunk by chunk and written end to end, opens under the same key and name to the same bytes.\<close>

theorem stash_opens_to_its_bytes:
  assumes "gcm_correct G" "length prefix_bytes = 8" "length key = 32" "isSafeInteger (int (length bs))"
    and "sealStash G prefix_bytes key stash_name bs chunk = Inr parts"
  shows "\<exists>opened. openStash G key stash_name (concat parts) = Inr opened \<and> concat opened = bs"
proof -
  let ?c = "nat chunk" and ?n = "stashChunks (length bs) (nat chunk)"
  let ?header = "stash_header ?c (length bs) prefix_bytes"
  let ?sealed = "\<lambda>i. gcm_encrypt G (stash_piece bs ?c i) (associated ?header stash_name i) (nonceOf prefix_bytes i) key"
  let ?opens = "\<lambda>s i. gcm_decrypt G s (associated ?header stash_name i) (nonceOf prefix_bytes i) key"
  from assms(5) have c: "0 < ?c" "?c < 2 ^ 32" and parts: "concat parts = ?header @ concat (map ?sealed [0..<?n])"
    by (auto simp: sealStash_def Let_def MAX_UINT32_def nat_less_iff split: if_splits)
  note p = stash_pieces [OF c(1), of bs]
  have o: "?opens (?sealed i) i = Some (stash_piece bs ?c i)" "length (?sealed i) = length (stash_piece bs ?c i) + TAG_BYTES" for i
    using assms(1-3) by (simp_all add: gcm_correct_def nonceOf_def TAG_BYTES_def)
  have "length (concat (map ?sealed [0..<m])) = length (concat (map (stash_piece bs ?c) [0..<m])) + m * TAG_BYTES" for m
    by (induction m) (simp_all add: o(2))
  from this [of ?n] have len: "length (concat (map ?sealed [0..<?n])) = length bs + ?n * TAG_BYTES"
    using p(1) by (simp add: concat_pieces)
  have "length bs < 256 ^ 8" using assms(4) by (simp add: isSafeInteger_def MAX_SAFE_INTEGER_def)
  then have h: "length ?header = 24" "take 4 ?header = STASH_MAGIC" "big_endian_value (take 4 (drop 4 ?header)) = ?c"
      "big_endian_value (take 8 (drop 8 ?header)) = length bs" "take 8 (drop 16 ?header) = prefix_bytes"
    using assms(2) c(2) by (simp_all add: stash_header_def STASH_MAGIC_def big_endian_reads)
  have "open_chunks ?n ?opens (concat parts) ?c (length bs) 0 HEADER_BYTES = Inr (map (stash_piece bs ?c) [0..<?n])"
    using p(1,2) by (intro chunks_open [where sealed = ?sealed] o) (simp_all add: parts h(1) HEADER_BYTES_def)
  then have "openStash G key stash_name (concat parts) = Inr (map (stash_piece bs ?c) [0..<?n])"
    using h c(1) assms(2,4) len by (simp add: openStash_def Let_def parts HEADER_BYTES_def)
  then show ?thesis using p(1) by (simp add: concat_pieces)
qed

text \<open>A sealed chunk belongs to one stash, one header and one place in it: associated data that agree name the same.\<close>

theorem one_chunk_one_binding:
  assumes "length header = HEADER_BYTES" "length header' = HEADER_BYTES"
    and "associated header stash_name index = associated header' stash_name' index'"
  shows "header = header' \<and> stash_name = stash_name' \<and> index = index'"
proof -
  from assms have h: "header = header'" and "text_encode (''|'' @ STASH_LABEL @ ''|'' @ stash_name @ ''|'' @ decimal index)
      = text_encode (''|'' @ STASH_LABEL @ ''|'' @ stash_name' @ ''|'' @ decimal index')"
    by (simp_all add: associated_def)
  from text_encode_inj [OF this(2)] have "stash_name @ CHR ''|'' # decimal index = stash_name' @ CHR ''|'' # decimal index'" by simp
  moreover have bar: "CHR ''|'' \<notin> set (decimal n)" for n using decimal_digits [of n] by (auto simp: list_all_iff is_digit_def)
  ultimately have e: "stash_name = stash_name' \<and> decimal index = decimal index'" by (rule last_split) (rule bar)+
  with h decimal_inj [of index index'] show ?thesis by blast
qed

end
