(* ===== verification/Tree_Mirror.thy ===== *)
theory Tree_Mirror
  imports Prelude "HOL-Library.Multiset"
begin

text \<open>
  \<open>packages/drive/src/mirror.ts\<close>: the rows of a workspace kept on a device, which every tab writes pages of the server's
  change feed into, each from where its own catalogue stands. The operations are those of the store in memory, which the
  store in the browser's database runs each in one transaction. Of a row the mirror reads its id, workspace,
  parent and kind; the rest of it is one value. Nothing in the walk below a folder stops at a row met twice, so it takes
  its turns as an argument.
\<close>

section \<open>The mirror\<close>

datatype tree_kind = Folder_Row | File_Row

record 'a node_row =
  nrId :: string
  nrWorkspaceId :: string
  nrParentId :: "string option"
  nrKind :: tree_kind
  nrRest :: 'a

datatype 'a node_change = Node_Changed int "'a node_row" | Node_Tombstoned int string "string option"
  | Node_Entered int string | Node_Left int string

fun change_seq :: "'a node_change \<Rightarrow> int" where
  "change_seq (Node_Changed n row) = n"
| "change_seq (Node_Tombstoned n x p) = n"
| "change_seq (Node_Entered n x) = n"
| "change_seq (Node_Left n x) = n"

record 'a tree_mirror =
  tmNodes :: "(string \<times> 'a node_row) list"
  tmCursors :: "(string \<times> int) list"

definition new_mirror :: "'a tree_mirror" where
  "new_mirror = \<lparr> tmNodes = [], tmCursors = [] \<rparr>"

definition mirror_cursor :: "'a tree_mirror \<Rightarrow> string \<Rightarrow> int" where
  "mirror_cursor m w = (case map_of (tmCursors m) w of None \<Rightarrow> 0 | Some n \<Rightarrow> n)"

text \<open>One change of a page: the rows, and the folders its tombstones took off.\<close>

definition mirror_change :: "int \<Rightarrow> 'a node_change \<Rightarrow> (string \<times> 'a node_row) list \<times> string list
    \<Rightarrow> (string \<times> 'a node_row) list \<times> string list" where
  "mirror_change current change = (\<lambda>(nodes, folders).
     if change_seq change \<le> current then (nodes, folders)
     else case change of
       Node_Changed n row \<Rightarrow> (AList.update (nrId row) row nodes, folders)
     | Node_Tombstoned n x p \<Rightarrow>
         (AList.delete x nodes, case map_of nodes x of None \<Rightarrow> folders
           | Some row \<Rightarrow> if nrKind row = Folder_Row then folders @ [nrId row] else folders)
     | _ \<Rightarrow> (nodes, folders))"

definition mirror_apply :: "'a tree_mirror \<Rightarrow> string \<Rightarrow> int \<Rightarrow> 'a node_change list \<Rightarrow> int \<Rightarrow> 'a tree_mirror \<times> string list option" where
  "mirror_apply m w from_seq changes nextCursor =
     (let current = mirror_cursor m w in
      if from_seq > current then (m, None)
      else
        let (nodes, folders) = fold (mirror_change current) changes (tmNodes m, []) in
        (\<lparr> tmNodes = nodes, tmCursors = AList.update w (max current nextCursor) (tmCursors m) \<rparr>, Some folders))"

definition mirror_rows :: "'a tree_mirror \<Rightarrow> string \<Rightarrow> 'a node_row list" where
  "mirror_rows m w = filter (\<lambda>row. nrWorkspaceId row = w) (map snd (tmNodes m))"

definition children_of :: "'a node_row list \<Rightarrow> string \<Rightarrow> string list" where
  "children_of rows x = map nrId (filter (\<lambda>row. nrParentId row = Some x \<and> x \<noteq> []) rows)"

text \<open>The queue of \<open>purgedBelow\<close> from where its index stands, and what is gone so far.\<close>

fun purge_loop :: "nat \<Rightarrow> 'a node_row list \<Rightarrow> string list \<Rightarrow> string list \<Rightarrow> string list option" where
  "purge_loop turns rows [] gone = Some gone"
| "purge_loop 0 rows (x # queue) gone = None"
| "purge_loop (Suc turns) rows (x # queue) gone =
     purge_loop turns rows (queue @ children_of rows x) (gone @ children_of rows x)"

definition purgedBelow :: "nat \<Rightarrow> string list \<Rightarrow> 'a node_row list \<Rightarrow> string list option" where
  "purgedBelow turns nodeIds rows = purge_loop turns rows nodeIds []"

definition dropBelow :: "nat \<Rightarrow> 'a tree_mirror \<Rightarrow> string \<Rightarrow> string list \<Rightarrow> 'a tree_mirror option" where
  "dropBelow turns m w nodeIds =
     (case purgedBelow turns nodeIds (mirror_rows m w) of None \<Rightarrow> None
      | Some gone \<Rightarrow> Some (m\<lparr> tmNodes := fold AList.delete gone (tmNodes m) \<rparr>))"

definition mirror_snapshot :: "'a tree_mirror \<Rightarrow> string \<Rightarrow> int \<times> 'a node_row list" where
  "mirror_snapshot m w = (mirror_cursor m w, mirror_rows m w)"

definition mirror_clear :: "'a tree_mirror \<Rightarrow> string option \<Rightarrow> 'a tree_mirror" where
  "mirror_clear m which = (case which of
     None \<Rightarrow> \<lparr> tmNodes = [], tmCursors = [] \<rparr>
   | Some w \<Rightarrow> \<lparr> tmNodes = filter (\<lambda>(x, row). nrWorkspaceId row \<noteq> w) (tmNodes m), tmCursors = AList.delete w (tmCursors m) \<rparr>)"

definition mirror_workspaces :: "'a tree_mirror \<Rightarrow> string list" where
  "mirror_workspaces m = map fst (tmCursors m)"

section \<open>Below a folder\<close>

definition child_rel :: "'a node_row list \<Rightarrow> (string \<times> string) set" where
  "child_rel rows = {(x, y). y \<in> set (children_of rows x)}"

lemma below_step: "(child_rel rows)\<^sup>+ `` {x} = set (children_of rows x) \<union> (child_rel rows)\<^sup>+ `` set (children_of rows x)"
  by (subst trancl_unfold_left) (auto simp: rtrancl_eq_or_trancl child_rel_def)

lemma purge_loop_finds:
  "purge_loop turns rows queue gone = Some r \<Longrightarrow> set r = set gone \<union> (child_rel rows)\<^sup>+ `` set queue"
proof (induction turns rows queue gone rule: purge_loop.induct)
  case (3 turns rows x queue gone)
  have "(child_rel rows)\<^sup>+ `` set (x # queue) = (child_rel rows)\<^sup>+ `` {x} \<union> (child_rel rows)\<^sup>+ `` set queue" by auto
  with 3 show ?case by (auto simp: below_step [of rows x] Image_Un)
qed simp_all

lemma purge_loop_more: "purge_loop turns rows queue gone = Some r \<Longrightarrow> turns \<le> longer \<Longrightarrow> purge_loop longer rows queue gone = Some r"
proof (induction turns rows queue gone arbitrary: longer rule: purge_loop.induct)
  case (3 turns rows x queue gone)
  then show ?case by (cases longer) auto
qed auto

lemma purge_loop_ends:
  fixes height :: "string \<Rightarrow> nat"
  assumes "\<And>x y. y \<in> set (children_of rows x) \<Longrightarrow> height y < height x"
  shows "\<exists>turns r. purge_loop turns rows queue gone = Some r"
proof (induction "mset (map height queue)" arbitrary: queue gone rule: wf_induct_rule [OF wf_mult [OF wf_less]])
  case 1
  show ?case
  proof (cases queue)
    case (Cons x rest)
    let ?cs = "children_of rows x"
    have "\<forall>k \<in># mset (map height ?cs). \<exists>j \<in># {# height x #}. (k, j) \<in> {(a, b). a < b}" using assms by auto
    from one_step_implies_mult [OF _ this, of "mset (map height rest)"]
    have "(mset (map height (rest @ ?cs)), mset (map height queue)) \<in> mult {(a, b). a < b}" using Cons by simp
    with 1 obtain turns r where "purge_loop turns rows (rest @ ?cs) (gone @ ?cs) = Some r" by blast
    with Cons show ?thesis by (intro exI [of _ "Suc turns"] exI [of _ r]) simp
  qed (auto intro: exI [of _ 0])
qed

section \<open>What the server's feed serves\<close>

text \<open>Where each node of each workspace ends: the sequence of its last change, and its row, or none once it is purged.
  A page asked for from a cursor names each node once, with the sequence it read, no later than the node's last; a node
  whose last change lies in the page is there at that sequence as it ends (\<open>listChanges\<close> of \<open>packages/db/src/drive.ts\<close>).\<close>

type_synonym 'a feed = "string \<Rightarrow> string \<Rightarrow> (int \<times> 'a node_row option) option"

fun change_node :: "'a node_change \<Rightarrow> string" where
  "change_node (Node_Changed n row) = nrId row"
| "change_node (Node_Tombstoned n x p) = x"
| "change_node (Node_Entered n x) = x"
| "change_node (Node_Left n x) = x"

fun change_row :: "'a node_change \<Rightarrow> 'a node_row option" where
  "change_row (Node_Changed n row) = Some row"
| "change_row _ = None"

fun feed_change :: "'a node_change \<Rightarrow> bool" where
  "feed_change (Node_Entered n x) = False"
| "feed_change (Node_Left n x) = False"
| "feed_change _ = True"

definition feed_ok :: "'a feed \<Rightarrow> bool" where
  "feed_ok L \<longleftrightarrow> (\<forall>w w' x. L w x \<noteq> None \<longrightarrow> L w' x \<noteq> None \<longrightarrow> w = w') \<and> (\<forall>w x n v. L w x = Some (n, v) \<longrightarrow> 0 < n)
     \<and> (\<forall>w x n row. L w x = Some (n, Some row) \<longrightarrow> nrId row = x \<and> nrWorkspaceId row = w)"

definition honest_change :: "'a feed \<Rightarrow> string \<Rightarrow> 'a node_change \<Rightarrow> bool" where
  "honest_change L w change \<longleftrightarrow> feed_change change \<and> (\<exists>n v. L w (change_node change) = Some (n, v) \<and> change_seq change \<le> n
     \<and> (change_seq change = n \<longrightarrow> change_row change = v)) \<and> (\<forall>row. change_row change = Some row \<longrightarrow> nrWorkspaceId row = w)"

definition honest_page :: "'a feed \<Rightarrow> string \<Rightarrow> int \<Rightarrow> 'a node_change list \<Rightarrow> int \<Rightarrow> bool" where
  "honest_page L w from_seq changes nextCursor \<longleftrightarrow> distinct (map change_node changes) \<and> (\<forall>change \<in> set changes. honest_change L w change)
     \<and> (\<forall>x n v. L w x = Some (n, v) \<longrightarrow> from_seq < n \<longrightarrow> n \<le> nextCursor \<longrightarrow>
          (\<exists>change \<in> set changes. change_node change = x \<and> change_seq change = n))"

text \<open>What any tab does to the mirror: a page of any age applied (or refused), the rows below purged folders dropped, whose
  last change is a tombstone, and a workspace or all of them forgotten.\<close>

inductive mirror_step :: "'a feed \<Rightarrow> 'a tree_mirror \<Rightarrow> 'a tree_mirror \<Rightarrow> bool" for L where
  step_apply: "honest_page L w from_seq changes nextCursor \<Longrightarrow> mirror_step L m (fst (mirror_apply m w from_seq changes nextCursor))"
| step_drop: "dropBelow turns m w nodeIds = Some m' \<Longrightarrow>
    (\<And>x n v. (\<exists>y \<in> set nodeIds. (y, x) \<in> (child_rel (mirror_rows m w))\<^sup>+) \<Longrightarrow> L w x = Some (n, v) \<Longrightarrow> v = None) \<Longrightarrow> mirror_step L m m'"
| step_clear: "mirror_step L m (mirror_clear m which)"

section \<open>The mirror agrees with the feed\<close>

definition mirror_homes :: "'a feed \<Rightarrow> (string \<times> 'a node_row) list \<Rightarrow> bool" where
  "mirror_homes L nodes \<longleftrightarrow> distinct (map fst nodes) \<and> (\<forall>(x, row) \<in> set nodes. nrId row = x \<and> L (nrWorkspaceId row) x \<noteq> None)"

text \<open>Of a workspace: a node whose last change the cursor has passed stands as it ends.\<close>

definition settled_to :: "'a feed \<Rightarrow> string \<Rightarrow> int \<Rightarrow> (string \<times> 'a node_row) list \<Rightarrow> bool" where
  "settled_to L w c nodes \<longleftrightarrow> (\<forall>x n v. L w x = Some (n, v) \<longrightarrow> n \<le> c \<longrightarrow> map_of nodes x = v)"

definition mirror_inv :: "'a feed \<Rightarrow> 'a tree_mirror \<Rightarrow> bool" where
  "mirror_inv L m \<longleftrightarrow> mirror_homes L (tmNodes m) \<and> (\<forall>w. settled_to L w (mirror_cursor m w) (tmNodes m))"

lemma one_home: "feed_ok L \<Longrightarrow> L w x = Some a \<Longrightarrow> L w' x = Some b \<Longrightarrow> w = w'"
  unfolding feed_ok_def by (metis option.distinct(1))

lemma change_map_of:
  "feed_change change \<Longrightarrow> map_of (fst (mirror_change current change (nodes, folders)))
     = (if change_seq change \<le> current then map_of nodes else (map_of nodes)(change_node change := change_row change))"
  by (cases change) (simp_all add: mirror_change_def map_of_alist_update delete_conv')

lemma change_homes:
  assumes "mirror_homes L nodes" "honest_change L w change"
  shows "mirror_homes L (fst (mirror_change current change (nodes, folders)))"
proof (cases "change_seq change \<le> current")
  case False
  show ?thesis
  proof (cases change)
    case (Node_Changed n row)
    with assms(2) have "nrWorkspaceId row = w" "L w (nrId row) \<noteq> None" by (auto simp: honest_change_def)
    moreover have "set (AList.update (nrId row) row nodes) \<subseteq> insert (nrId row, row) (set nodes)" by (induction nodes) auto
    ultimately show ?thesis using assms(1) False Node_Changed
      by (auto simp: mirror_homes_def mirror_change_def distinct_update)
  next
    case (Node_Tombstoned n x p)
    have "set (AList.delete x nodes) \<subseteq> set nodes" by (auto simp: AList.delete_eq)
    with assms(1) False Node_Tombstoned show ?thesis by (auto simp: mirror_homes_def mirror_change_def distinct_delete)
  qed (use assms(2) in \<open>auto simp: honest_change_def\<close>)
qed (use assms(1) in \<open>simp add: mirror_change_def\<close>)

text \<open>A page, change by change: the rows keep their homes, other workspaces' nodes stay, and a node is either left as it
  was or stands as the page has it.\<close>

lemma page_effect:
  assumes "feed_ok L" "\<forall>change \<in> set changes. honest_change L w change" "distinct (map change_node changes)" "mirror_homes L nodes"
  shows "mirror_homes L (fst (fold (mirror_change current) changes (nodes, folders)))
    \<and> map_of (fst (fold (mirror_change current) changes (nodes, folders))) x
      = (case find (\<lambda>change. change_node change = x \<and> current < change_seq change) changes of None \<Rightarrow> map_of nodes x | Some change \<Rightarrow> change_row change)"
  using assms(2-4)
proof (induction changes arbitrary: nodes folders)
  case (Cons change changes)
  obtain nodes' folders' where n: "mirror_change current change (nodes, folders) = (nodes', folders')" by fastforce
  have h: "mirror_homes L nodes'" using change_homes [of L nodes w change current folders] Cons.prems n by simp
  have m: "map_of nodes' = (if change_seq change \<le> current then map_of nodes else (map_of nodes)(change_node change := change_row change))"
    using change_map_of [of change current nodes folders] Cons.prems(1) n by (simp add: honest_change_def)
  have "find (\<lambda>c. change_node c = change_node change \<and> current < change_seq c) changes = None"
    using Cons.prems(2) by (force simp: find_None_iff image_iff)
  with Cons.IH [of nodes' folders'] Cons.prems h m n show ?case by (auto simp: not_le split: option.split)
qed simp

lemma apply_keeps:
  assumes "feed_ok L" "honest_page L w from_seq changes nextCursor" "mirror_inv L m"
  shows "mirror_inv L (fst (mirror_apply m w from_seq changes nextCursor))"
proof (cases "from_seq > mirror_cursor m w")
  case False
  let ?c = "mirror_cursor m w"
  let ?nodes = "fst (fold (mirror_change ?c) changes (tmNodes m, []))"
  let ?found = "\<lambda>x. find (\<lambda>change. change_node change = x \<and> ?c < change_seq change) changes"
  let ?m = "\<lparr> tmNodes = ?nodes, tmCursors = AList.update w (max ?c nextCursor) (tmCursors m) \<rparr>"
  have out: "fst (mirror_apply m w from_seq changes nextCursor) = ?m"
    using False by (simp add: mirror_apply_def Let_def case_prod_beta)
  from assms(2) have page: "distinct (map change_node changes)" "\<forall>change \<in> set changes. honest_change L w change"
    and there: "\<And>x n v. L w x = Some (n, v) \<Longrightarrow> from_seq < n \<Longrightarrow> n \<le> nextCursor \<Longrightarrow> \<exists>change \<in> set changes. change_node change = x \<and> change_seq change = n"
    by (auto simp: honest_page_def)
  from assms(3) have inv: "mirror_homes L (tmNodes m)" "\<And>w. settled_to L w (mirror_cursor m w) (tmNodes m)" by (auto simp: mirror_inv_def)
  note e = page_effect [OF assms(1) page(2,1) inv(1), of ?c "[]"]
  have cursor: "mirror_cursor ?m w' = (if w' = w then max ?c nextCursor else mirror_cursor m w')" for w'
    by (simp add: mirror_cursor_def map_of_alist_update)
  have "settled_to L w' (mirror_cursor ?m w') ?nodes" for w'
    unfolding settled_to_def
  proof (intro allI impI)
    fix x n v
    assume l: "L w' x = Some (n, v)" "n \<le> mirror_cursor ?m w'"
    show "map_of ?nodes x = v"
    proof (cases "?found x")
      case None
      have "n \<le> mirror_cursor m w'"
      proof (rule ccontr)
        assume "\<not> n \<le> mirror_cursor m w'"
        with l(2) have w: "w' = w" "?c < n" "n \<le> nextCursor" unfolding cursor by (auto split: if_splits)
        with there [of x n v] l(1) False obtain change where "change \<in> set changes" "change_node change = x" "change_seq change = n" by auto
        with None w show False by (auto simp: find_None_iff)
      qed
      with inv(2) [of w'] l(1) e None show ?thesis by (simp add: settled_to_def)
    next
      case (Some change)
      then have f: "change \<in> set changes" "change_node change = x" "?c < change_seq change" by (auto simp: find_Some_iff)
      with page(2) obtain n' v' where h: "L w x = Some (n', v')" "change_seq change \<le> n'" "change_seq change = n' \<Longrightarrow> change_row change = v'"
        by (auto simp: honest_change_def)
      have w: "w' = w" by (rule one_home [OF assms(1) l(1) h(1)])
      with h l have "n' = n" "v' = v" "n \<le> nextCursor" using f(3) unfolding cursor by auto
      moreover from this there [of x n v] l(1) w f(3) h(2) False obtain c where "c \<in> set changes" "change_node c = x" "change_seq c = n" by auto
      ultimately have "change_seq change = n'" using page(1) f(1,2) by (metis distinct_map inj_onD)
      with h(3) \<open>v' = v\<close> e Some show ?thesis by simp
    qed
  qed
  with e out show ?thesis by (simp add: mirror_inv_def)
qed (use assms(3) in \<open>simp add: mirror_apply_def\<close>)

lemma deleted_all: "map_of (fold AList.delete gone nodes) x = (if x \<in> set gone then None else map_of nodes x)"
  by (induction gone arbitrary: nodes) (auto simp: delete_conv')

lemma deleted_homes: "mirror_homes L nodes \<Longrightarrow> mirror_homes L (fold AList.delete gone nodes)"
proof (induction gone arbitrary: nodes)
  case (Cons x gone)
  have "set (AList.delete x nodes) \<subseteq> set nodes" by (auto simp: AList.delete_eq)
  with Cons.prems have "mirror_homes L (AList.delete x nodes)" by (auto simp: mirror_homes_def distinct_delete)
  with Cons.IH show ?case by simp
qed simp

lemma child_row:
  assumes "(y, x) \<in> (child_rel (mirror_rows m w))\<^sup>+" "mirror_homes L (tmNodes m)"
  shows "L w x \<noteq> None"
proof -
  from assms(1) obtain z where "x \<in> set (children_of (mirror_rows m w) z)" by (cases rule: trancl.cases) (auto simp: child_rel_def)
  then obtain row k where "(k, row) \<in> set (tmNodes m)" "nrId row = x" "nrWorkspaceId row = w" by (auto simp: children_of_def mirror_rows_def)
  with assms(2) show ?thesis by (auto simp: mirror_homes_def)
qed

lemma drop_keeps:
  assumes "feed_ok L" "dropBelow turns m w nodeIds = Some m'" "mirror_inv L m"
    and purged: "\<And>x n v. (\<exists>y \<in> set nodeIds. (y, x) \<in> (child_rel (mirror_rows m w))\<^sup>+) \<Longrightarrow> L w x = Some (n, v) \<Longrightarrow> v = None"
  shows "mirror_inv L m'"
proof -
  from assms(2) obtain gone where g: "purge_loop turns (mirror_rows m w) nodeIds [] = Some gone" "m' = m\<lparr> tmNodes := fold AList.delete gone (tmNodes m) \<rparr>"
    by (auto simp: dropBelow_def purgedBelow_def split: option.splits)
  from assms(3) have inv: "mirror_homes L (tmNodes m)" "\<And>w. settled_to L w (mirror_cursor m w) (tmNodes m)" by (auto simp: mirror_inv_def)
  have below: "\<exists>y \<in> set nodeIds. (y, x) \<in> (child_rel (mirror_rows m w))\<^sup>+" if "x \<in> set gone" for x
    using purge_loop_finds [OF g(1)] that by auto
  have "settled_to L w' (mirror_cursor m w') (tmNodes m')" for w'
    unfolding settled_to_def
  proof (intro allI impI)
    fix x n v
    assume l: "L w' x = Some (n, v)" "n \<le> mirror_cursor m w'"
    show "map_of (tmNodes m') x = v"
    proof (cases "x \<in> set gone")
      case True
      from below [OF True] child_row [OF _ inv(1)] obtain a where "L w x = Some a" by blast
      with one_home [OF assms(1) l(1)] have "w' = w" by blast
      with purged [OF below [OF True]] l(1) have "v = None" by blast
      with True show ?thesis by (simp add: g(2) deleted_all)
    next
      case False
      with inv(2) [of w'] l show ?thesis by (simp add: g(2) deleted_all settled_to_def)
    qed
  qed
  with deleted_homes [OF inv(1)] show ?thesis by (simp add: mirror_inv_def mirror_cursor_def g(2))
qed

lemma clear_keeps:
  assumes "feed_ok L" "mirror_inv L m"
  shows "mirror_inv L (mirror_clear m which)"
proof -
  have positive: "L w x = Some (n, v) \<Longrightarrow> 0 < n" for w x n v using assms(1) unfolding feed_ok_def by blast
  show ?thesis
  proof (cases which)
    case None
    have "settled_to L w 0 []" for w using positive by (fastforce simp: settled_to_def)
    with None show ?thesis by (simp add: mirror_inv_def mirror_clear_def mirror_homes_def mirror_cursor_def)
  next
    case (Some gone)
    let ?nodes = "filter (\<lambda>(x, row). nrWorkspaceId row \<noteq> gone) (tmNodes m)"
    from assms(2) have inv: "mirror_homes L (tmNodes m)" "\<And>w. settled_to L w (mirror_cursor m w) (tmNodes m)" by (auto simp: mirror_inv_def)
    have d: "distinct (map fst (tmNodes m))" using inv(1) by (simp add: mirror_homes_def)
    have h: "mirror_homes L ?nodes" using inv(1) by (auto simp: mirror_homes_def intro: distinct_map_filter)
    have cursor: "mirror_cursor (mirror_clear m which) w = (if w = gone then 0 else mirror_cursor m w)" for w
      by (simp add: Some mirror_clear_def mirror_cursor_def delete_conv')
    have "settled_to L w (mirror_cursor (mirror_clear m which) w) ?nodes" for w
      unfolding settled_to_def
    proof (intro allI impI)
      fix x n v
      assume l: "L w x = Some (n, v)" "n \<le> mirror_cursor (mirror_clear m which) w"
      with positive have w: "w \<noteq> gone" "n \<le> mirror_cursor m w" unfolding cursor by (fastforce split: if_splits)+
      then have v: "map_of (tmNodes m) x = v" using inv(2) [of w] l(1) by (simp add: settled_to_def)
      have "nrWorkspaceId row = w" if "(x, row) \<in> set (tmNodes m)" for row
        using that inv(1) one_home [OF assms(1) l(1)] by (fastforce simp: mirror_homes_def)
      with w(1) v d show "map_of ?nodes x = v"
        by (cases v) (auto simp: map_of_eq_None_iff intro!: map_of_is_SomeI distinct_map_filter dest: map_of_SomeD)
    qed
    with h show ?thesis by (simp add: mirror_inv_def) (simp add: Some mirror_clear_def)
  qed
qed

lemma mirror_step_keeps: "mirror_step L m m' \<Longrightarrow> feed_ok L \<and> mirror_inv L m \<Longrightarrow> feed_ok L \<and> mirror_inv L m'"
proof (induction rule: mirror_step.induct)
  case (step_drop turns m w nodeIds m')
  then show ?case using drop_keeps [of L turns m w nodeIds m'] by blast
qed (auto intro: apply_keeps clear_keeps)

interpretation tabs: machine "mirror_step L" "\<lambda>m. feed_ok L \<and> mirror_inv L m" for L
  by unfold_locales (rule mirror_step_keeps)

lemma new_mirror_inv: "feed_ok L \<Longrightarrow> mirror_inv L new_mirror"
  by (fastforce simp: mirror_inv_def mirror_homes_def settled_to_def new_mirror_def mirror_cursor_def feed_ok_def)

section \<open>Properties\<close>


text \<open>A folder kept and a file purged: one tab applies the whole feed, and a slow page of another, from before the file was
  purged, comes after it.\<close>

definition sample_row :: "string \<Rightarrow> tree_kind \<Rightarrow> unit node_row" where
  "sample_row x kd = \<lparr> nrId = x, nrWorkspaceId = ''w'', nrParentId = None, nrKind = kd, nrRest = () \<rparr>"

definition sample_feed :: "unit feed" where
  "sample_feed w x = (if w \<noteq> ''w'' then None else if x = ''a'' then Some (2, Some (sample_row ''a'' Folder_Row))
     else if x = ''b'' then Some (3, None) else None)"

definition whole_page :: "unit node_change list" where
  "whole_page = [Node_Changed 2 (sample_row ''a'' Folder_Row), Node_Tombstoned 3 ''b'' None]"

definition slow_page :: "unit node_change list" where
  "slow_page = [Node_Changed 1 (sample_row ''b'' File_Row)]"


text \<open>What is dropped below purged folders is every row under them, at any depth, and the walk ends where parents lead
  upwards; from a row that is its own ancestor it never does.\<close>

theorem purged_rows_are_the_rows_below:
  "purgedBelow turns nodeIds rows = Some gone \<Longrightarrow> set gone = {x. \<exists>y \<in> set nodeIds. (y, x) \<in> (child_rel rows)\<^sup>+}"
  using purge_loop_finds [of turns rows nodeIds "[]" gone] by (auto simp: purgedBelow_def)

theorem tree_walk_ends:
  fixes height :: "string \<Rightarrow> nat"
  assumes "\<And>x y. y \<in> set (children_of rows x) \<Longrightarrow> height y < height x"
  shows "\<exists>turns gone. purgedBelow turns nodeIds rows = Some gone"
  unfolding purgedBelow_def by (rule purge_loop_ends [OF assms])

lemma cycle_never_ends:
  assumes "\<exists>x \<in> set queue. (x, x) \<in> (child_rel rows)\<^sup>+"
  shows "purge_loop turns rows queue gone = None"
  using assms
proof (induction turns rows queue gone rule: purge_loop.induct)
  case (3 turns rows x queue gone)
  then obtain y where y: "y = x \<or> y \<in> set queue" "(y, y) \<in> (child_rel rows)\<^sup>+" by auto
  show ?case
  proof (cases "y = x")
    case True
    from y(2) obtain z where z: "(y, z) \<in> child_rel rows" "(z, y) \<in> (child_rel rows)\<^sup>*" by (meson tranclD)
    then have "(z, z) \<in> (child_rel rows)\<^sup>+" by (meson rtrancl_into_trancl1)
    moreover have "z \<in> set (children_of rows x)" using z(1) True by (simp add: child_rel_def)
    ultimately show ?thesis using "3.IH" by auto
  qed (use y "3.IH" in auto)
qed auto

theorem rows_in_a_circle_never_end:
  "x \<in> set nodeIds \<Longrightarrow> (x, x) \<in> (child_rel rows)\<^sup>+ \<Longrightarrow> purgedBelow turns nodeIds rows = None"
  unfolding purgedBelow_def by (rule cycle_never_ends) blast

end
